(* ===== verification/Prelude.thy ===== *)
theory Prelude
  imports Main "HOL-Library.Word" "HOL-Library.Sublist" "HOL-Library.Log_Nat"
begin

text \<open>
  What every component shares: the fixed-width integer types the sources use, the part of
  \<^verbatim>\<open>std::string\<close> they use (\<open>find\<close>, \<open>substr\<close>, \<open>erase\<close>, \<open>tolower\<close>, \<open>to_string\<close> of an
  integer), and generic lemmas on lists and strings.  A \<open>string\<close> is a list of bytes, as
  \<^verbatim>\<open>std::string\<close> is; a position that is \<^verbatim>\<open>npos\<close> in the code is \<open>None\<close> here.
\<close>

named_theorems dbl_simps \<open>evaluation and range facts of double operations\<close>
named_theorems len_simps \<open>lengths of the fixed-size arrays\<close>

type_synonym u8 = "8 word"
type_synonym u32 = "32 word"
type_synonym u64 = "64 word"

section \<open>Strings\<close>

subsection \<open>Character classes of the C locale\<close>

definition is_space :: "char \<Rightarrow> bool" where
  "is_space c \<longleftrightarrow> of_char c = (32::nat) \<or> (9 \<le> (of_char c::nat) \<and> of_char c \<le> (13::nat))"

definition is_digit :: "char \<Rightarrow> bool" where
  "is_digit c \<longleftrightarrow> 48 \<le> (of_char c::nat) \<and> of_char c \<le> (57::nat)"

definition is_upper :: "char \<Rightarrow> bool" where
  "is_upper c \<longleftrightarrow> 65 \<le> (of_char c::nat) \<and> of_char c \<le> (90::nat)"

definition is_lower :: "char \<Rightarrow> bool" where
  "is_lower c \<longleftrightarrow> 97 \<le> (of_char c::nat) \<and> of_char c \<le> (122::nat)"

definition to_lower :: "char \<Rightarrow> char" where
  "to_lower c = (if is_upper c then char_of (of_char c + (32::nat)) else c)"

definition lower_string :: "string \<Rightarrow> string" where
  "lower_string s = map to_lower s"

text \<open>The bytes of the em dash in the UTF-8 source texts.\<close>

definition em_dash :: string where "em_dash = map char_of [226, 128, 148 :: nat]"

lemma length_lower_string [simp]: "length (lower_string s) = length s"
  by (simp add: lower_string_def)

subsection \<open>Searching\<close>

text \<open>Position of the first occurrence of a pattern in a text.\<close>

fun find0 :: "string \<Rightarrow> string \<Rightarrow> nat option" where
  "find0 pat [] = (if pat = [] then Some 0 else None)"
| "find0 pat (c # cs) =
     (if prefix pat (c # cs) then Some 0 else map_option Suc (find0 pat cs))"

text \<open>\<^verbatim>\<open>text.find(pat, pos)\<close>.\<close>

definition str_find :: "string \<Rightarrow> string \<Rightarrow> nat \<Rightarrow> nat option" where
  "str_find pat text pos =
     (if pos > length text then None else map_option ((+) pos) (find0 pat (drop pos text)))"

definition substr :: "string \<Rightarrow> nat \<Rightarrow> nat \<Rightarrow> string" where
  "substr s pos n = take n (drop pos s)"

definition str_erase :: "string \<Rightarrow> nat \<Rightarrow> nat \<Rightarrow> string" where
  "str_erase s pos n = take pos s @ drop (pos + n) s"

lemma find0_SomeD: "find0 pat xs = Some i \<Longrightarrow> i \<le> length xs \<and> prefix pat (drop i xs)"
  by (induction xs arbitrary: i) (auto split: if_splits)

lemma find0_Some_bound: "find0 pat xs = Some i \<Longrightarrow> i + length pat \<le> length xs"
  by (induction xs arbitrary: i) (auto split: if_splits dest: prefix_length_le)

lemma find0_least: "find0 pat xs = Some i \<Longrightarrow> j < i \<Longrightarrow> \<not> prefix pat (drop j xs)"
proof (induction xs arbitrary: i j)
  case (Cons a xs)
  then show ?case by (cases j) (auto split: if_splits)
qed (auto split: if_splits)

lemma find0_None: "find0 pat xs = None \<Longrightarrow> j \<le> length xs \<Longrightarrow> \<not> prefix pat (drop j xs)"
proof (induction xs arbitrary: j)
  case (Cons a xs)
  then show ?case by (cases j) (auto split: if_splits)
qed (auto split: if_splits)

lemma find0_eq_SomeI:
  assumes "i \<le> length xs" "prefix pat (drop i xs)" "\<And>j. j < i \<Longrightarrow> \<not> prefix pat (drop j xs)"
  shows "find0 pat xs = Some i"
proof (cases "find0 pat xs")
  case None
  with assms(1,2) show ?thesis by (auto dest: find0_None)
next
  case (Some k)
  from assms(2) Some have "\<not> i < k" by (auto dest: find0_least)
  moreover from Some assms(3) have "\<not> k < i" by (auto dest: find0_SomeD)
  ultimately show ?thesis using Some by simp
qed

lemma find0_eq_None_iff: "find0 pat xs = None \<longleftrightarrow> \<not> sublist pat xs"
proof
  assume n: "find0 pat xs = None"
  show "\<not> sublist pat xs"
  proof
    assume "sublist pat xs"
    then obtain ps ss where "xs = ps @ pat @ ss" by (auto simp: sublist_def)
    then have "length ps \<le> length xs" "prefix pat (drop (length ps) xs)" by auto
    with n show False by (auto dest: find0_None)
  qed
next
  assume ns: "\<not> sublist pat xs"
  show "find0 pat xs = None"
  proof (rule ccontr)
    assume "find0 pat xs \<noteq> None"
    then obtain i where "find0 pat xs = Some i" by auto
    then have "prefix pat (drop i xs)" by (auto dest: find0_SomeD)
    then have "sublist pat xs"
      by (metis prefix_imp_sublist sublist_drop sublist_order.order_trans)
    with ns show False by simp
  qed
qed

lemma prefix_append_short: "length p \<le> length a \<Longrightarrow> prefix p (a @ b) \<longleftrightarrow> prefix p a"
  by (metis prefixI prefix_length_prefix prefix_prefix)

text \<open>An occurrence inside a prefix of the text is found at the same place.\<close>

lemma find0_append: "find0 pat xs = Some i \<Longrightarrow> find0 pat (xs @ ys) = Some i"
proof (rule find0_eq_SomeI)
  assume f: "find0 pat xs = Some i"
  then have b: "i + length pat \<le> length xs" by (rule find0_Some_bound)
  from b show "i \<le> length (xs @ ys)" by simp
  from f b show "prefix pat (drop i (xs @ ys))" by (auto dest!: find0_SomeD)
  fix j assume j: "j < i"
  with f have "\<not> prefix pat (drop j xs)" by (auto dest: find0_least)
  moreover from j b have "length pat \<le> length (drop j xs)" by simp
  ultimately show "\<not> prefix pat (drop j (xs @ ys))"
    using j b by (simp add: prefix_append_short)
qed

lemma str_find_bounds:
  "str_find pat t pos = Some i \<Longrightarrow> pos \<le> i \<and> i + length pat \<le> length t"
  by (auto simp: str_find_def split: if_splits dest: find0_Some_bound)

lemma str_find_append:
  "str_find pat xs pos = Some i \<Longrightarrow> str_find pat (xs @ ys) pos = Some i"
  by (auto simp: str_find_def find0_append split: if_splits)

lemma str_find_0: "str_find pat xs 0 = find0 pat xs"
  by (cases "find0 pat xs") (simp_all add: str_find_def)

subsection \<open>Decimal printing of integers\<close>

fun string_of_nat :: "nat \<Rightarrow> string" where
  "string_of_nat n =
     (if n < 10 then [char_of (48 + n)] else string_of_nat (n div 10) @ [char_of (48 + n mod 10)])"

declare string_of_nat.simps [simp del]

definition string_of_int :: "int \<Rightarrow> string" where
  "string_of_int i = (if i < 0 then ''-'' @ string_of_nat (nat (- i)) else string_of_nat (nat i))"

section \<open>Lists\<close>

lemma sum_list_map2_replicate_0: "sum_list (map2 (*) (replicate n (0::'a::semiring_0)) xs) = 0"
proof (induction n arbitrary: xs)
  case (Suc n)
  then show ?case by (cases xs) auto
qed simp

lemma list_all_upt_iff: "list_all P [0..<n] \<longleftrightarrow> (\<forall>i<n. P i)"
  by (auto simp: list_all_iff)

lemma take_append_length_le: "n \<le> length xs \<Longrightarrow> take n (xs @ ys) = take n xs"
  by simp

end
