(* ===== verification/Doubles.thy ===== *)
theory Doubles
  imports Prelude Complex_Main
begin

text \<open>
  The C++ type \<^verbatim>\<open>double\<close> as the sources use it: IEEE 754 binary64 with
  round-to-nearest-even, every operation rounded once.  A finite double is the rational it
  denotes; infinities and NaN are separate values, so overflow and invalid operations are
  visible.  The two zeros are one value here (no operation of the sources divides by a zero
  or reads a sign bit of one).  Decimal literals of the sources are \<open>lit q\<close>, the rounding of
  the rational they spell.  \<open>dsqrt\<close> is the correctly rounded square root.  The section ends
  with GMP's \<^verbatim>\<open>mpq_class::get_d\<close>, which is not code of the repository: definitions take
  it as an argument \<open>gd\<close>, and the locale \<open>gmp_get_d\<close> states what its manual documents
  (truncation towards zero).
\<close>

datatype dbl = Fin rat | PInf | NInf | NaN

section \<open>Rounding\<close>

text \<open>Exponent of the leading bit of a positive rational.\<close>

definition ilog2 :: "rat \<Rightarrow> int" where
  "ilog2 q =
     (case quotient_of q of (n, d) \<Rightarrow>
        (let k = bitlen n - bitlen d in if 2 powi k \<le> q then k else k - 1))"

text \<open>Nearest integer, ties to even.\<close>

definition rne :: "rat \<Rightarrow> int" where
  "rne x =
     (let f = \<lfloor>x\<rfloor>; r = x - of_int f in
      if r < 1/2 then f else if 1/2 < r then f + 1 else if even f then f else f + 1)"

text \<open>Unit in the last place of the binade of \<open>q\<close> (constant below the normal range).\<close>

definition ulp :: "rat \<Rightarrow> rat" where
  "ulp q = 2 powi (max (ilog2 \<bar>q\<bar>) (-1022) - 52)"

definition round_rat :: "rat \<Rightarrow> rat" where
  "round_rat q = (if q = 0 then 0 else of_int (rne (q / ulp q)) * ulp q)"

definition dbl_limit :: rat where
  "dbl_limit = 2 ^ 1024"

definition rnd :: "rat \<Rightarrow> dbl" where
  "rnd q = (let r = round_rat q in
            if dbl_limit \<le> r then PInf else if r \<le> - dbl_limit then NInf else Fin r)"

abbreviation lit :: "rat \<Rightarrow> dbl" where
  "lit \<equiv> rnd"

section \<open>Operations\<close>

fun is_fin :: "dbl \<Rightarrow> bool" where
  "is_fin (Fin _) = True"
| "is_fin _ = False"

fun val :: "dbl \<Rightarrow> rat" where
  "val (Fin q) = q"
| "val _ = 0"

fun dneg :: "dbl \<Rightarrow> dbl" where
  "dneg (Fin a) = Fin (- a)"
| "dneg PInf = NInf"
| "dneg NInf = PInf"
| "dneg NaN = NaN"

fun dadd :: "dbl \<Rightarrow> dbl \<Rightarrow> dbl" where
  "dadd NaN _ = NaN"
| "dadd _ NaN = NaN"
| "dadd (Fin a) (Fin b) = rnd (a + b)"
| "dadd PInf NInf = NaN"
| "dadd NInf PInf = NaN"
| "dadd PInf _ = PInf"
| "dadd _ PInf = PInf"
| "dadd NInf _ = NInf"
| "dadd _ NInf = NInf"

definition dsub :: "dbl \<Rightarrow> dbl \<Rightarrow> dbl" where
  "dsub a b = dadd a (dneg b)"

definition inf_sgn :: "rat \<Rightarrow> dbl" where
  "inf_sgn s = (if 0 < s then PInf else if s < 0 then NInf else NaN)"

fun dmul :: "dbl \<Rightarrow> dbl \<Rightarrow> dbl" where
  "dmul NaN _ = NaN"
| "dmul _ NaN = NaN"
| "dmul (Fin a) (Fin b) = rnd (a * b)"
| "dmul PInf (Fin b) = inf_sgn b"
| "dmul NInf (Fin b) = inf_sgn (- b)"
| "dmul (Fin a) PInf = inf_sgn a"
| "dmul (Fin a) NInf = inf_sgn (- a)"
| "dmul PInf PInf = PInf"
| "dmul NInf NInf = PInf"
| "dmul PInf NInf = NInf"
| "dmul NInf PInf = NInf"

fun ddiv :: "dbl \<Rightarrow> dbl \<Rightarrow> dbl" where
  "ddiv NaN _ = NaN"
| "ddiv _ NaN = NaN"
| "ddiv (Fin a) (Fin b) = (if b = 0 then inf_sgn a else rnd (a / b))"
| "ddiv PInf (Fin b) = (if b < 0 then NInf else PInf)"
| "ddiv NInf (Fin b) = (if b < 0 then PInf else NInf)"
| "ddiv (Fin a) _ = Fin 0"
| "ddiv _ _ = NaN"

fun dless :: "dbl \<Rightarrow> dbl \<Rightarrow> bool" where
  "dless (Fin a) (Fin b) = (a < b)"
| "dless NaN _ = False"
| "dless _ NaN = False"
| "dless a PInf = (a \<noteq> PInf)"
| "dless NInf b = (b \<noteq> NInf)"
| "dless _ _ = False"

definition deq :: "dbl \<Rightarrow> dbl \<Rightarrow> bool" where
  "deq a b \<longleftrightarrow> a \<noteq> NaN \<and> a = b"

definition dle :: "dbl \<Rightarrow> dbl \<Rightarrow> bool" where
  "dle a b \<longleftrightarrow> dless a b \<or> deq a b"

fun dabs :: "dbl \<Rightarrow> dbl" where
  "dabs (Fin a) = Fin \<bar>a\<bar>"
| "dabs NaN = NaN"
| "dabs _ = PInf"

text \<open>\<^verbatim>\<open>std::max\<close>, \<^verbatim>\<open>std::min\<close> and \<^verbatim>\<open>std::clamp\<close>, with the comparisons they are specified by.\<close>

definition dmax :: "dbl \<Rightarrow> dbl \<Rightarrow> dbl" where
  "dmax a b = (if dless a b then b else a)"

definition dmin :: "dbl \<Rightarrow> dbl \<Rightarrow> dbl" where
  "dmin a b = (if dless b a then b else a)"

definition dclamp :: "dbl \<Rightarrow> dbl \<Rightarrow> dbl \<Rightarrow> dbl" where
  "dclamp v lo hi = (if dless v lo then lo else if dless hi v then hi else v)"

section \<open>Square root\<close>

text \<open>Integer square root, bit by bit: the greatest \<open>s\<close> with \<open>s * s \<le> n\<close>.\<close>

function isqrt :: "int \<Rightarrow> int" where
  "isqrt n = (if n \<le> 0 then 0 else
     (let s = 2 * isqrt (n div 4) in if (s + 1) * (s + 1) \<le> n then s + 1 else s))"
  by pat_completeness auto
termination by (relation "measure nat") auto

declare isqrt.simps [simp del]

text \<open>
  Correct rounding: \<open>q\<close> is scaled by a power of four so that the integer root has at least
  60 bits; one extra half unit stands for a non-zero remainder, so the rounding of the
  scaled root is the rounding of the exact root.
\<close>

fun dsqrt :: "dbl \<Rightarrow> dbl" where
  "dsqrt (Fin q) =
     (if q < 0 then NaN else if q = 0 then Fin 0 else
      (let k = 60 - ilog2 q div 2;
           s = isqrt \<lfloor>q * 4 powi k\<rfloor>;
           exact = (of_int (s * s) = q * 4 powi k)
       in rnd ((of_int s + (if exact then 0 else 1/2)) / 2 powi k)))"
| "dsqrt PInf = PInf"
| "dsqrt _ = NaN"

section \<open>Facts about rounding\<close>

lemma two_powi_pos [simp]: "0 < (2::rat) powi k"
  by simp

lemma ilog2_bounds:
  assumes "0 < q"
  shows "2 powi ilog2 q \<le> q" and "q < 2 powi (ilog2 q + 1)"
proof -
  obtain n d where nd: "quotient_of q = (n, d)" by (cases "quotient_of q")
  then have d: "d > 0" and q: "q = of_int n / of_int d"
    by (auto simp: quotient_of_denom_pos quotient_of_div)
  with assms have n: "n > 0" by (simp add: zero_less_divide_iff)
  let ?k = "bitlen n - bitlen d"
  have bp: "bitlen n \<ge> 1" "bitlen d \<ge> 1"
    using n d by (simp_all add: bitlen_def floorlog_def) 
  have nb: "2 powi (bitlen n - 1) \<le> (of_int n :: rat)" "(of_int n :: rat) < 2 powi bitlen n"
  proof -
    have "2 ^ nat (bitlen n - 1) \<le> n" "n < 2 ^ nat (bitlen n)" using bitlen_bounds[OF n] by auto
    then have "(of_int (2 ^ nat (bitlen n - 1)) :: rat) \<le> of_int n"
      "(of_int n :: rat) < of_int (2 ^ nat (bitlen n))" by (simp_all only: of_int_le_iff of_int_less_iff)
    then show "2 powi (bitlen n - 1) \<le> (of_int n :: rat)" "(of_int n :: rat) < 2 powi bitlen n"
      using bp by (simp_all add: power_int_nonneg_exp)
  qed
  have db: "2 powi (bitlen d - 1) \<le> (of_int d :: rat)" "(of_int d :: rat) < 2 powi bitlen d"
  proof -
    have "2 ^ nat (bitlen d - 1) \<le> d" "d < 2 ^ nat (bitlen d)" using bitlen_bounds[OF d] by auto
    then have "(of_int (2 ^ nat (bitlen d - 1)) :: rat) \<le> of_int d"
      "(of_int d :: rat) < of_int (2 ^ nat (bitlen d))" by (simp_all only: of_int_le_iff of_int_less_iff)
    then show "2 powi (bitlen d - 1) \<le> (of_int d :: rat)" "(of_int d :: rat) < 2 powi bitlen d"
      using bp by (simp_all add: power_int_nonneg_exp)
  qed
  have dpos: "0 < (of_int d :: rat)" using d by simp
  have up: "q < 2 powi (?k + 1)"
  proof -
    have "(of_int n :: rat) < 2 powi bitlen n" by (rule nb)
    also have "\<dots> = 2 powi (?k + 1) * 2 powi (bitlen d - 1)"
      by (simp add: power_int_add [symmetric])
    also have "\<dots> \<le> 2 powi (?k + 1) * of_int d"
      using db(1) by (intro mult_left_mono) simp_all
    finally show ?thesis using dpos by (simp add: q divide_less_eq)
  qed
  have lo: "2 powi (?k - 1) \<le> q"
  proof -
    have "(2::rat) powi (?k - 1) * of_int d \<le> 2 powi (?k - 1) * 2 powi bitlen d"
      using db(2) by (intro mult_left_mono) simp_all
    also have "\<dots> = 2 powi (bitlen n - 1)" by (simp add: power_int_add [symmetric])
    also have "\<dots> \<le> of_int n" by (rule nb)
    finally show ?thesis using dpos by (simp add: q le_divide_eq)
  qed
  have il: "ilog2 q = (if 2 powi ?k \<le> q then ?k else ?k - 1)"
    by (simp add: ilog2_def nd Let_def)
  show "2 powi ilog2 q \<le> q" using lo by (simp add: il)
  show "q < 2 powi (ilog2 q + 1)" using up by (simp add: il)
qed

lemma powi_less_iff [simp]: "(2::rat) powi a < 2 powi b \<longleftrightarrow> a < b"
proof
  assume l: "(2::rat) powi a < 2 powi b"
  show "a < b"
  proof (rule ccontr)
    assume "\<not> a < b"
    then have "(2::rat) powi b \<le> 2 powi a" by (intro power_int_increasing) auto
    with l show False by simp
  qed
qed (simp add: power_int_strict_increasing)

lemma powi_le_iff [simp]: "(2::rat) powi a \<le> 2 powi b \<longleftrightarrow> a \<le> b"
  by (metis linorder_not_le powi_less_iff)

lemma ilog2_eqI: "2 powi k \<le> q \<Longrightarrow> q < 2 powi (k + 1) \<Longrightarrow> ilog2 q = k"
proof -
  assume a: "2 powi k \<le> q" "q < 2 powi (k + 1)"
  then have q: "0 < q" by (meson order_less_le_trans two_powi_pos)
  have "(2::rat) powi k < 2 powi (ilog2 q + 1)" "(2::rat) powi ilog2 q < 2 powi (k + 1)"
    using ilog2_bounds[OF q] a by linarith+
  then show ?thesis by simp
qed

lemma ilog2_mono:
  assumes a: "0 < a" "a \<le> b"
  shows "ilog2 a \<le> ilog2 b"
proof -
  have "(2::rat) powi ilog2 a < 2 powi (ilog2 b + 1)"
    using ilog2_bounds[of a] ilog2_bounds[of b] a by linarith
  then show ?thesis by simp
qed

subsection \<open>Rounding to the nearest integer\<close>

lemma rne_of_int [simp]: "rne (of_int m) = m"
  by (simp add: rne_def)

lemma rne_bounds: "of_int (rne x) \<le> x + 1/2" "x - 1/2 \<le> of_int (rne x)"
  unfolding rne_def Let_def by (simp_all split: if_splits) linarith+

lemma rne_mono: "x \<le> y \<Longrightarrow> rne x \<le> rne y"
proof (cases "\<lfloor>x\<rfloor> = \<lfloor>y\<rfloor>")
  case True
  moreover assume "x \<le> y"
  ultimately show ?thesis by (auto simp: rne_def Let_def)
next
  case False
  moreover assume "x \<le> y"
  ultimately have f: "\<lfloor>x\<rfloor> + 1 \<le> \<lfloor>y\<rfloor>" by (meson floor_mono order_le_imp_less_or_eq zless_imp_add1_zle)
  have "rne x \<le> \<lfloor>x\<rfloor> + 1" "\<lfloor>y\<rfloor> \<le> rne y" by (auto simp: rne_def Let_def)
  with f show ?thesis by linarith
qed

lemma rne_le_of_int: "x \<le> of_int m \<Longrightarrow> rne x \<le> m"
  using rne_mono[of x "of_int m"] by simp

lemma rne_ge_of_int: "of_int m \<le> x \<Longrightarrow> m \<le> rne x"
  using rne_mono[of "of_int m" x] by simp

lemma rne_minus: "rne (- x) = - rne x"
proof (cases "x = of_int \<lfloor>x\<rfloor>")
  case True
  then show ?thesis by (metis of_int_minus rne_of_int)
next
  case False
  then have c: "\<lceil>x\<rceil> = \<lfloor>x\<rfloor> + 1" by (metis ceiling_altdef)
  have "\<lfloor>- x\<rfloor> = - (\<lfloor>x\<rfloor> + 1)" using c by (simp add: floor_minus)
  then show ?thesis by (auto simp: rne_def Let_def)
qed

subsection \<open>Rounding to a double\<close>

lemma ulp_pos [simp]: "0 < ulp q"
  by (simp add: ulp_def)

lemma ulp_minus [simp]: "ulp (- q) = ulp q"
  by (simp add: ulp_def)

lemma round_rat_0 [simp]: "round_rat 0 = 0"
  by (simp add: round_rat_def)

lemma round_rat_minus: "round_rat (- q) = - round_rat q"
proof -
  have "rne (- q / ulp q) = - rne (q / ulp q)"
    using rne_minus[of "q / ulp q"] by simp
  then show ?thesis by (simp add: round_rat_def)
qed

lemma round_rat_error: "\<bar>round_rat q - q\<bar> \<le> ulp q / 2"
proof (cases "q = 0")
  case False
  let ?z = "q / ulp q"
  have "\<bar>of_int (rne ?z) - ?z\<bar> \<le> 1/2" using rne_bounds[of ?z] by linarith
  then have "\<bar>of_int (rne ?z) - ?z\<bar> * ulp q \<le> 1/2 * ulp q"
    by (intro mult_right_mono) (auto intro: less_imp_le)
  moreover have "\<bar>of_int (rne ?z) - ?z\<bar> * ulp q = \<bar>(of_int (rne ?z) - ?z) * ulp q\<bar>"
    using ulp_pos[of q] by (simp add: abs_mult abs_of_pos)
  moreover have "(of_int (rne ?z) - ?z) * ulp q = round_rat q - q"
    using False by (simp add: round_rat_def left_diff_distrib less_imp_neq [symmetric])
  ultimately show ?thesis by simp
qed (simp add: less_imp_le)

text \<open>Values with at most 53 significant bits above the subnormal limit.\<close>

definition rep :: "rat \<Rightarrow> bool" where
  "rep q \<longleftrightarrow> (\<exists>m e. q = of_int m * 2 powi e \<and> \<bar>m\<bar> \<le> 2 ^ 53 \<and> -1074 \<le> e)"

lemma repI: "q = of_int m * 2 powi e \<Longrightarrow> \<bar>m\<bar> \<le> 2 ^ 53 \<Longrightarrow> -1074 \<le> e \<Longrightarrow> rep q"
  by (auto simp: rep_def)

lemma rep_minus: "rep q \<Longrightarrow> rep (- q)"
proof -
  assume "rep q"
  then obtain m e where "q = of_int m * 2 powi e" "\<bar>m\<bar> \<le> 2 ^ 53" "-1074 \<le> e"
    by (auto simp: rep_def)
  then show "rep (- q)" by (intro repI[of _ "- m" e]) simp_all
qed

lemma ulp_le: "0 < a \<Longrightarrow> a \<le> b \<Longrightarrow> ulp a \<le> ulp b"
  using ilog2_mono[of a b] by (simp add: ulp_def le_max_iff_disj) linarith

lemma pos_less_ulp: "0 < q \<Longrightarrow> q < 2 ^ 53 * ulp q"
proof -
  assume q: "0 < q"
  have "q < 2 powi (ilog2 q + 1)" using ilog2_bounds[OF q] by simp
  also have "\<dots> \<le> 2 powi (53 + (max (ilog2 q) (-1022) - 52))" by simp
  also have "\<dots> = 2 ^ 53 * ulp q" using q by (subst power_int_add) (auto simp: ulp_def)
  finally show ?thesis .
qed

lemma ulp_le_pos: "0 < q \<Longrightarrow> -1022 \<le> ilog2 q \<Longrightarrow> 2 ^ 52 * ulp q \<le> q"
proof -
  assume q: "0 < q" "-1022 \<le> ilog2 q"
  have "(2::rat) ^ 52 * ulp q = 2 powi (52 + (ilog2 q - 52))"
    using q by (subst power_int_add) (auto simp: ulp_def)
  also have "\<dots> \<le> q" using ilog2_bounds[OF q(1)] by simp
  finally show ?thesis .
qed

lemma rne_ulp_le: "0 < q \<Longrightarrow> rne (q / ulp q) \<le> 2 ^ 53"
  using pos_less_ulp[of q] by (intro rne_le_of_int) (simp add: divide_le_eq less_imp_le)

lemma rne_nonneg: "0 \<le> x \<Longrightarrow> 0 \<le> rne x"
  using rne_ge_of_int[of 0 x] by simp

lemma round_rat_nonneg: "0 \<le> q \<Longrightarrow> 0 \<le> round_rat q"
  by (auto simp: round_rat_def less_imp_le intro!: mult_nonneg_nonneg rne_nonneg)

lemma round_rat_nonpos: "q \<le> 0 \<Longrightarrow> round_rat q \<le> 0"
  using round_rat_nonneg[of "- q"] by (simp add: round_rat_minus)

lemma rep_round_rat: "rep (round_rat q)"
proof -
  have pos: "rep (round_rat q)" if q: "0 < q" for q
  proof (rule repI)
    show "round_rat q = of_int (rne (q / ulp q)) * 2 powi (max (ilog2 \<bar>q\<bar>) (-1022) - 52)"
      using q by (simp add: round_rat_def ulp_def)
    show "\<bar>rne (q / ulp q)\<bar> \<le> 2 ^ 53"
      using rne_ulp_le[OF q] rne_nonneg[of "q / ulp q"] q by (simp add: less_imp_le)
  qed simp
  show ?thesis
  proof (cases q "0::rat" rule: linorder_cases)
    case less
    then have "rep (round_rat (- q))" by (intro pos) simp
    then show ?thesis using rep_minus by (fastforce simp: round_rat_minus)
  next
    case equal
    have "rep 0" by (rule repI[of _ 0 0]) simp_all
    with equal show ?thesis by simp
  next
    case greater
    then show ?thesis by (rule pos)
  qed
qed

lemma round_rat_mono_pos:
  assumes a: "0 < a" and ab: "a \<le> b"
  shows "round_rat a \<le> round_rat b"
proof -
  have b: "0 < b" using a ab by simp
  show ?thesis
  proof (cases "ulp a = ulp b")
    case True
    have "rne (a / ulp a) \<le> rne (b / ulp a)"
      using ab by (intro rne_mono divide_right_mono) (auto intro: less_imp_le)
    with True a b show ?thesis by (simp add: round_rat_def less_imp_le mult_right_mono)
  next
    case False
    let ?ea = "max (ilog2 a) (-1022)" and ?eb = "max (ilog2 b) (-1022)"
    have le: "?ea \<le> ?eb" using ilog2_mono[OF a ab] by simp
    moreover have "?ea \<noteq> ?eb" using False a b by (auto simp: ulp_def)
    ultimately have lt: "?ea + 1 \<le> ?eb" by linarith
    then have lb: "-1022 \<le> ilog2 b" by linarith
    have "(of_int (rne (a / ulp a)) :: rat) \<le> 2 ^ 53"
      using rne_ulp_le[OF a] by (metis of_int_le_iff of_int_numeral of_int_power)
    then have "round_rat a \<le> 2 ^ 53 * ulp a"
      using a by (simp add: round_rat_def mult_right_mono less_imp_le)
    also have "\<dots> = 2 powi (?ea + 1)"
      using a by (subst power_int_add) (auto simp: ulp_def power_int_diff)
    also have "\<dots> \<le> 2 powi ?eb" using lt by simp
    also have "\<dots> = 2 ^ 52 * ulp b"
      using b by (simp add: ulp_def power_int_diff)
    also have "\<dots> \<le> of_int (rne (b / ulp b)) * ulp b"
    proof (rule mult_right_mono)
      have "of_int (2 ^ 52) \<le> b / ulp b"
        using ulp_le_pos[OF b lb] by (simp add: le_divide_eq)
      then have "2 ^ 52 \<le> rne (b / ulp b)" by (rule rne_ge_of_int)
      then show "2 ^ 52 \<le> (of_int (rne (b / ulp b)) :: rat)"
        by (metis of_int_le_iff of_int_numeral of_int_power)
    qed (simp add: less_imp_le)
    finally show ?thesis using b by (simp add: round_rat_def)
  qed
qed

lemma round_rat_mono: "a \<le> b \<Longrightarrow> round_rat a \<le> round_rat b"
proof -
  assume ab: "a \<le> b"
  consider "0 < a" | "b < 0" | "a \<le> 0" "0 \<le> b" by linarith
  then show ?thesis
  proof cases
    case 1
    then show ?thesis using ab by (rule round_rat_mono_pos)
  next
    case 2
    then have "round_rat (- b) \<le> round_rat (- a)" using ab by (intro round_rat_mono_pos) simp_all
    then show ?thesis by (simp add: round_rat_minus)
  next
    case 3
    then show ?thesis using round_rat_nonneg[of b] round_rat_nonpos[of a] by linarith
  qed
qed

text \<open>Representable values are fixed points.\<close>

lemma round_rat_fix_pos:
  assumes q: "q = of_int m * 2 powi e" and m: "0 < m" "m \<le> 2 ^ 53" and e: "-1074 \<le> e"
  shows "round_rat q = q"
proof -
  have qpos: "0 < q" using q m by simp
  obtain u where u_def: "u = max (ilog2 q) (-1022) - 52" by blast
  have "\<exists>k. q / 2 powi u = of_int k"
  proof (cases "u \<le> e")
    case True
    then have "(2::rat) ^ nat (e - u) = 2 powi e / 2 powi u"
      by (simp add: power_int_diff power_int_nonneg_exp [symmetric])
    then have "q / 2 powi u = of_int (m * 2 ^ nat (e - u))" using q by simp
    then show ?thesis by blast
  next
    case False
    have "of_int m \<le> (2 ^ 53 :: rat)" using m by (metis of_int_le_iff of_int_numeral of_int_power)
    then have ub: "q \<le> 2 powi (53 + e)" using q by (subst power_int_add) simp_all
    then have "(2::rat) powi ilog2 q \<le> 2 powi (53 + e)" using ilog2_bounds[OF qpos] by linarith
    with False e have u: "u = e + 1" and il: "ilog2 q = 53 + e" by (auto simp: u_def)
    then have "2 powi (53 + e) \<le> q" using ilog2_bounds[OF qpos] by simp
    with ub have "q = 2 powi (53 + e)" by simp
    then have "q / 2 powi u = 2 powi (53 + e - u)"
      by (metis power_int_diff zero_neq_numeral)
    also have "\<dots> = of_int (2 ^ 52)" using u by simp
    finally show ?thesis by blast
  qed
  then obtain k where k: "q / 2 powi u = of_int k" by blast
  have ulp: "ulp q = 2 powi u" using qpos by (simp add: ulp_def u_def)
  with k have "round_rat q = of_int k * ulp q" using qpos by (simp add: round_rat_def)
  also have "\<dots> = q" using k ulp by (metis eq_divide_eq two_powi_pos less_irrefl)
  finally show ?thesis .
qed

lemma round_rat_fix: "rep q \<Longrightarrow> round_rat q = q"
proof -
  assume "rep q"
  then obtain m e where q: "q = of_int m * 2 powi e" and m: "\<bar>m\<bar> \<le> 2 ^ 53" and e: "-1074 \<le> e"
    by (auto simp: rep_def)
  show ?thesis
  proof (cases m "0::int" rule: linorder_cases)
    case less
    then have "round_rat (- q) = - q" using q m e by (intro round_rat_fix_pos[of _ "- m" e]) auto
    then show ?thesis by (simp add: round_rat_minus)
  next
    case equal
    with q show ?thesis by simp
  next
    case greater
    then show ?thesis using q m e by (intro round_rat_fix_pos[of _ m e]) auto
  qed
qed

lemma rep_of_int: "\<bar>m\<bar> \<le> 2 ^ 53 \<Longrightarrow> rep (of_int m)"
  by (rule repI[of _ m 0]) simp_all

lemma rep_0 [simp]: "rep 0" using rep_of_int[of 0] by simp
lemma rep_1 [simp]: "rep 1" using rep_of_int[of 1] by simp
lemma rep_numeral [simp]: "(numeral n :: int) \<le> 2 ^ 53 \<Longrightarrow> rep (numeral n)"
  using rep_of_int[of "numeral n"] by simp

lemma round_rat_le: "q \<le> b \<Longrightarrow> rep b \<Longrightarrow> round_rat q \<le> b"
  using round_rat_mono[of q b] by (simp add: round_rat_fix)

lemma round_rat_ge: "b \<le> q \<Longrightarrow> rep b \<Longrightarrow> b \<le> round_rat q"
  using round_rat_mono[of b q] by (simp add: round_rat_fix)

lemma rnd_Fin: "- dbl_limit < round_rat q \<Longrightarrow> round_rat q < dbl_limit \<Longrightarrow> rnd q = Fin (round_rat q)"
  by (simp add: rnd_def Let_def)

lemma rnd_not_NaN [simp]: "rnd q \<noteq> NaN"
  by (simp add: rnd_def Let_def)

lemma rnd_between:
  assumes "rep a" "rep b" "a \<le> q" "q \<le> b" "- dbl_limit < a" "b < dbl_limit"
  shows "rnd q = Fin (round_rat q)" and "a \<le> round_rat q" and "round_rat q \<le> b"
proof -
  show l: "a \<le> round_rat q" using assms by (intro round_rat_ge)
  show u: "round_rat q \<le> b" using assms by (intro round_rat_le)
  from l u assms show "rnd q = Fin (round_rat q)" by (intro rnd_Fin) simp_all
qed

lemma dbl_limit_big: "(2::rat) ^ 53 < dbl_limit"
  unfolding dbl_limit_def by (rule power_strict_increasing) simp_all

lemma rnd_fix: "rep q \<Longrightarrow> \<bar>q\<bar> < dbl_limit \<Longrightarrow> rnd q = Fin q"
  by (subst rnd_Fin) (auto simp: round_rat_fix)

lemma lit_of_int: "\<bar>m\<bar> \<le> 2 ^ 53 \<Longrightarrow> rnd (of_int m) = Fin (of_int m)"
proof (rule rnd_fix)
  assume m: "\<bar>m\<bar> \<le> 2 ^ 53"
  then show "rep (of_int m)" by (rule rep_of_int)
  have "\<bar>of_int m :: rat\<bar> \<le> 2 ^ 53" using m by (metis of_int_abs of_int_le_iff of_int_numeral of_int_power)
  with dbl_limit_big show "\<bar>of_int m :: rat\<bar> < dbl_limit" by linarith
qed

lemma lit_0 [simp]: "rnd 0 = Fin 0" using lit_of_int[of 0] by simp
lemma lit_1 [simp]: "rnd 1 = Fin 1" using lit_of_int[of 1] by simp
lemma lit_m1 [simp]: "rnd (-1) = Fin (-1)" using lit_of_int[of "-1"] by simp
lemma lit_numeral [simp]: "(numeral n :: int) \<le> 2 ^ 53 \<Longrightarrow> rnd (numeral n) = Fin (numeral n)"
  using lit_of_int[of "numeral n"] by simp

text \<open>Evaluation of a literal: the exponent and the rounded significand are checked, not searched.\<close>

lemma rnd_eval:
  assumes "2 powi e \<le> q" "q < 2 powi (e + 1)" "-1022 \<le> e" "e < 1023"
    and "of_int m - 1/2 < q * 2 powi (52 - e)" "q * 2 powi (52 - e) < of_int m + 1/2"
  shows "rnd q = Fin (of_int m * 2 powi (e - 52))"
proof -
  have q: "0 < q" using assms(1) by (meson order_less_le_trans two_powi_pos)
  have il: "ilog2 q = e" using assms by (intro ilog2_eqI)
  then have u: "ulp q = 2 powi (e - 52)" using q assms(3) by (simp add: ulp_def)
  have z: "q / ulp q = q * 2 powi (52 - e)" by (simp add: u power_int_diff field_simps)
  have fl: "\<lfloor>q * 2 powi (52 - e)\<rfloor> = (if q * 2 powi (52 - e) < of_int m then m - 1 else m)"
    using assms(5,6) by (simp add: floor_eq_iff)
  have "rne (q / ulp q) = m" using assms(5,6) by (auto simp: z rne_def Let_def fl)
  then have r: "round_rat q = of_int m * 2 powi (e - 52)" using q by (simp add: round_rat_def u)
  have "m \<le> 2 ^ 53" using rne_ulp_le[OF q] \<open>rne (q / ulp q) = m\<close> by simp
  then have "(of_int m :: rat) \<le> 2 ^ 53" by (metis of_int_le_iff of_int_numeral of_int_power)
  then have "round_rat q \<le> 2 ^ 53 * 2 powi (e - 52)" by (simp add: r)
  also have "\<dots> = 2 powi (e + 1)" by (simp add: power_int_diff power_int_add)
  also have "\<dots> < 2 powi 1024" using assms(4) by (subst powi_less_iff) simp
  also have "(2::rat) powi 1024 = dbl_limit" by (simp add: dbl_limit_def)
  finally have "round_rat q < dbl_limit" .
  moreover have "0 \<le> round_rat q" using q by (intro round_rat_nonneg) simp
  ultimately have "rnd q = Fin (round_rat q)" by (intro rnd_Fin) (simp_all add: dbl_limit_def)
  with r show ?thesis by simp
qed

text \<open>The rounding error of numbers of moderate size.\<close>

lemma rnd_close:
  assumes "\<bar>q\<bar> \<le> 2048"
  obtains r where "rnd q = Fin r" "\<bar>r - q\<bar> \<le> 1 / 2 ^ 42"
proof -
  have u: "ulp q \<le> 2 powi (-41)"
  proof (cases "q = 0")
    case True
    then show ?thesis unfolding ulp_def by (subst powi_le_iff) (use bitlen_nonneg[of 1] in \<open>simp add: ilog2_def Let_def\<close>)
  next
    case False
    have "ulp \<bar>q\<bar> \<le> ulp 2048" using False assms by (intro ulp_le) simp_all
    moreover have "ilog2 2048 = 11" by (rule ilog2_eqI) simp_all
    then have "ulp 2048 = 2 powi (-41)" by (simp add: ulp_def)
    moreover have "ulp \<bar>q\<bar> = ulp q" by (simp add: ulp_def)
    ultimately show ?thesis by (simp only:)
  qed
  have "(2::rat) powi (-41) / 2 = 1 / 2 ^ 42" by (simp add: power_int_minus field_simps)
  then have e: "\<bar>round_rat q - q\<bar> \<le> 1 / 2 ^ 42" using round_rat_error[of q] u by linarith
  moreover have "(1 / 2 ^ 42 :: rat) \<le> 1" by simp
  ultimately have "\<bar>round_rat q\<bar> \<le> 2049" using assms by linarith
  then have "rnd q = Fin (round_rat q)" using dbl_limit_big by (intro rnd_Fin) simp_all
  from that[OF this e] show thesis .
qed

section \<open>Facts about the operations\<close>

lemma dclamp_ex:
  "v \<noteq> NaN \<Longrightarrow> lo \<le> hi \<Longrightarrow> \<exists>q. dclamp v (Fin lo) (Fin hi) = Fin q \<and> lo \<le> q \<and> q \<le> hi"
  by (cases v) (auto simp: dclamp_def)

lemma dclamp_range:
  assumes "v \<noteq> NaN" "lo \<le> hi"
  obtains q where "dclamp v (Fin lo) (Fin hi) = Fin q" "lo \<le> q" "q \<le> hi"
  using dclamp_ex[OF assms] by blast

lemma dclamp_id: "lo \<le> q \<Longrightarrow> q \<le> hi \<Longrightarrow> dclamp (Fin q) (Fin lo) (Fin hi) = Fin q"
  by (simp add: dclamp_def)

lemma dadd_Fin: "dadd (Fin a) b \<noteq> NaN \<longleftrightarrow> b \<noteq> NaN"
  by (cases b) auto

lemma dle_Fin [simp]: "dle (Fin a) (Fin b) \<longleftrightarrow> a \<le> b"
  by (auto simp: dle_def deq_def)

lemma deq_Fin [simp]: "deq (Fin a) (Fin b) \<longleftrightarrow> a = b"
  by (simp add: deq_def)

text \<open>A sum accumulated in steps of at most one never leaves the exact integer range.\<close>

lemma dadd_bounded:
  assumes "\<bar>a\<bar> \<le> 2 ^ 53" "\<bar>b\<bar> \<le> 1"
  obtains c where "dadd (Fin a) (Fin b) = Fin c" "\<bar>c\<bar> \<le> 2 ^ 53"
proof -
  have up: "round_rat x \<le> 2 ^ 53" if x: "x \<le> 2 ^ 53 + 1" for x
  proof -
    have "round_rat x \<le> round_rat (2 ^ 53 + 1)" using x by (rule round_rat_mono)
    also have "\<dots> = 2 ^ 53"
    proof -
      have "ilog2 (2 ^ 53 + 1) = 53" by (rule ilog2_eqI) simp_all
      then have "ulp (2 ^ 53 + 1) = 2" by (simp add: ulp_def)
      moreover have "\<lfloor>9007199254740993 / 2 :: rat\<rfloor> = 4503599627370496" by (simp add: floor_eq_iff)
      ultimately show ?thesis by (simp add: round_rat_def rne_def Let_def)
    qed
    finally show ?thesis .
  qed
  have "round_rat (a + b) \<le> 2 ^ 53" using assms by (intro up) linarith
  moreover have "- round_rat (a + b) \<le> 2 ^ 53"
    using assms up[of "- (a + b)"] by (simp add: round_rat_minus [symmetric])
  ultimately have c: "\<bar>round_rat (a + b)\<bar> \<le> 2 ^ 53" by linarith
  with dbl_limit_big have "dadd (Fin a) (Fin b) = Fin (round_rat (a + b))"
    by (simp only: dadd.simps) (rule rnd_Fin; linarith)
  from that[OF this c] show ?thesis .
qed

text \<open>The square root of a number of moderate size.\<close>

lemma isqrt_bounds: "0 \<le> n \<Longrightarrow> 0 \<le> isqrt n \<and> (isqrt n)\<^sup>2 \<le> n \<and> n < (isqrt n + 1)\<^sup>2"
proof (induction n rule: isqrt.induct)
  case (1 n)
  show ?case
  proof (cases "n \<le> 0")
    case True
    then show ?thesis using 1 by (simp add: isqrt.simps)
  next
    case False
    let ?r = "isqrt (n div 4)"
    have ih: "0 \<le> ?r" "?r\<^sup>2 \<le> n div 4" "n div 4 < (?r + 1)\<^sup>2" using 1 False by simp_all
    have "4 * ?r\<^sup>2 \<le> n" using ih(2) by linarith
    moreover have "n < 4 * (?r + 1)\<^sup>2" using ih(3) by linarith
    ultimately show ?thesis using False ih(1)
      by (subst (1 2 3) isqrt.simps) (simp add: Let_def power2_eq_square algebra_simps)
  qed
qed

lemma dsqrt_le:
  assumes "0 \<le> q" "q \<le> B\<^sup>2" "0 \<le> B" "B \<le> 64" "B + 1/4 \<le> C" "rep C" "C \<le> 100"
  obtains r where "dsqrt (Fin q) = Fin r" "0 \<le> r" "r \<le> C"
proof (cases "q = 0")
  case False
  with assms have q: "0 < q" by simp
  have "B\<^sup>2 \<le> 64\<^sup>2" using assms(3,4) by (intro power_mono)
  with assms(2) have q4: "q \<le> 4096" by simp
  define k where "k = 60 - ilog2 q div 2"
  define s where "s = isqrt \<lfloor>q * 4 powi k\<rfloor>"
  define t where "t = (of_int s + (if of_int (s * s) = q * 4 powi k then 0 else 1/2) :: rat)"
  have "ilog2 q \<le> ilog2 4096" using q q4 by (intro ilog2_mono)
  moreover have "ilog2 4096 = 12" by (rule ilog2_eqI) simp_all
  ultimately have k: "54 \<le> k" by (simp add: k_def)
  have f0: "0 \<le> \<lfloor>q * 4 powi k\<rfloor>" using q by simp
  have s0: "0 \<le> s" and s2: "s\<^sup>2 \<le> \<lfloor>q * 4 powi k\<rfloor>" using isqrt_bounds[OF f0] by (simp_all add: s_def)
  have four: "(4::rat) powi k = (2 powi k)\<^sup>2"
    by (simp add: power2_eq_square power_int_mult_distrib [symmetric])
  have "(of_int s)\<^sup>2 \<le> q * 4 powi k" using s2 by (simp add: le_floor_iff)
  also have "\<dots> \<le> B\<^sup>2 * 4 powi k" using assms by (intro mult_right_mono) simp_all
  also have "\<dots> = (B * 2 powi k)\<^sup>2" by (simp add: four power_mult_distrib)
  finally have sB: "of_int s \<le> B * (2::rat) powi k"
    by (rule power2_le_imp_le) (simp add: assms(3))
  have "(2::rat) powi 1 \<le> 2 powi k" unfolding powi_le_iff using k by simp
  then have p1: "1/2 \<le> 1/4 * (2::rat) powi k" by simp
  have t0: "0 \<le> t" using s0 by (simp add: t_def)
  have "t \<le> of_int s + 1/2" by (simp add: t_def)
  also have "\<dots> \<le> (B + 1/4) * 2 powi k" using sB p1 unfolding distrib_right by linarith
  also have "\<dots> \<le> C * 2 powi k" using assms(5) by (intro mult_right_mono) simp_all
  finally have b: "0 \<le> t / 2 powi k" "t / 2 powi k \<le> C" using t0 by (simp_all add: divide_le_eq)
  have e: "dsqrt (Fin q) = rnd (t / 2 powi k)"
    using q by (simp add: k_def s_def t_def Let_def del: of_int_mult)
  have l: "0 < dbl_limit" "C < dbl_limit" using assms(7) dbl_limit_big by simp_all
  show thesis
  proof (rule that)
    show "dsqrt (Fin q) = Fin (round_rat (t / 2 powi k))"
      unfolding e using b l assms(6) by (intro rnd_between(1)[of 0 C]) (simp_all add: rep_0)
    show "0 \<le> round_rat (t / 2 powi k)" using b(1) by (rule round_rat_nonneg)
    show "round_rat (t / 2 powi k) \<le> C" using b(2) assms(6) by (rule round_rat_le)
  qed
qed (use that[of 0] assms in simp)

lemma dsqrt_Fin:
  assumes "0 \<le> q" "q \<le> 4096"
  obtains r where "dsqrt (Fin q) = Fin r" "0 \<le> r" "r \<le> 65"
  by (rule dsqrt_le[of q 64 65]) (use assms in simp_all)

section \<open>GMP: conversion of a rational to a double\<close>

text \<open>
  What the GMP manual documents of \<^verbatim>\<open>mpq_get_d\<close>: the result is the operand truncated
  towards zero, that is, the representable value of the greatest magnitude not above it.  This is
  for operands in the normal range of doubles.  For an exponent that is too small the manual says
  that zero is normally returned: here a value between zero and the operand; for one that is too
  large nothing is assumed.
\<close>

locale gmp_get_d =
  fixes gd :: "rat \<Rightarrow> dbl"
  assumes get_d_zero: "gd 0 = Fin 0"
    and get_d_trunc: "2 powi (-1022) \<le> \<bar>q\<bar> \<Longrightarrow> \<bar>q\<bar> < dbl_limit \<Longrightarrow>
      \<exists>r. gd q = Fin r \<and> rep r \<and> 0 \<le> r * q \<and> \<bar>r\<bar> \<le> \<bar>q\<bar> \<and>
          (\<forall>s. rep s \<longrightarrow> \<bar>s\<bar> \<le> \<bar>q\<bar> \<longrightarrow> \<bar>s\<bar> \<le> \<bar>r\<bar>)"
    and get_d_small: "\<bar>q\<bar> < 2 powi (-1022) \<Longrightarrow> \<exists>r. gd q = Fin r \<and> 0 \<le> r * q \<and> \<bar>r\<bar> \<le> \<bar>q\<bar>"
begin

text \<open>Below the overflow threshold the result lies between zero and the operand.\<close>

lemma get_d_Fin:
  assumes "\<bar>q\<bar> < dbl_limit"
  obtains r where "gd q = Fin r" "\<bar>r\<bar> \<le> \<bar>q\<bar>" "0 \<le> q \<Longrightarrow> 0 \<le> r" "q \<le> 0 \<Longrightarrow> r \<le> 0"
proof -
  obtain r where r: "gd q = Fin r" "0 \<le> r * q" "\<bar>r\<bar> \<le> \<bar>q\<bar>"
    using get_d_trunc[of q] get_d_small[of q] assms by (cases "2 powi (-1022) \<le> \<bar>q\<bar>") (auto simp: not_le)
  from r(2,3) show thesis
    by (intro that[OF r(1,3)]) (auto simp: zero_le_mult_iff)
qed

text \<open>For a positive operand, the greatest representable value below it.\<close>

lemma get_d_pos:
  assumes "2 powi (-1022) \<le> q" "q < dbl_limit"
  obtains r where "gd q = Fin r" "0 \<le> r" "r \<le> q" "rep r" "\<forall>s. rep s \<and> 0 \<le> s \<and> s \<le> q \<longrightarrow> s \<le> r"
proof -
  have q: "0 < q" using assms(1) by (meson order_less_le_trans two_powi_pos)
  then have aq: "\<bar>q\<bar> = q" by simp
  from get_d_trunc[of q] assms obtain r where r: "gd q = Fin r" "rep r" "0 \<le> r * q" "\<bar>r\<bar> \<le> q"
    and g: "\<And>s. rep s \<Longrightarrow> \<bar>s\<bar> \<le> q \<Longrightarrow> \<bar>s\<bar> \<le> \<bar>r\<bar>"
    by (auto simp only: aq)
  have "0 \<le> r" using r(3) q by (simp add: zero_le_mult_iff)
  show thesis
  proof (rule that[of r])
    show "\<forall>s. rep s \<and> 0 \<le> s \<and> s \<le> q \<longrightarrow> s \<le> r" using g \<open>0 \<le> r\<close> by fastforce
  qed (use r \<open>0 \<le> r\<close> in auto)
qed

lemma get_d_bounds:
  assumes "2 powi (-1022) \<le> q" "q < dbl_limit" "rep a" "0 \<le> a" "a \<le> q"
  obtains r where "gd q = Fin r" "a \<le> r" "r \<le> q" "rep r"
  using get_d_pos[OF assms(1,2)] assms(3-) by metis

lemma get_d_above_1:
  assumes "1 \<le> q" "q < dbl_limit"
  obtains r where "gd q = Fin r" "1 \<le> r" "r \<le> q"
proof -
  have "(2::rat) powi (-1022) \<le> 2 powi 0" by (subst powi_le_iff) simp
  then have "(2::rat) powi (-1022) \<le> 1" by (simp only: power_int_0_right)
  also note assms(1)
  finally have n: "2 powi (-1022) \<le> q" .
  show thesis using get_d_bounds[OF n assms(2) rep_1 _ assms(1)] that by auto
qed

lemma get_d_rep:
  assumes "rep q" "q = 0 \<or> 2 powi (-1022) \<le> \<bar>q\<bar>" "\<bar>q\<bar> < dbl_limit"
  shows "gd q = Fin q"
proof (cases "q = 0")
  case False
  then obtain r where r: "gd q = Fin r" "0 \<le> r * q" "\<bar>r\<bar> \<le> \<bar>q\<bar>" "\<bar>q\<bar> \<le> \<bar>r\<bar>"
    using get_d_trunc[of q] assms by blast
  then show ?thesis by (auto simp: abs_if zero_le_mult_iff split: if_splits)
qed (simp add: get_d_zero)

text \<open>The conversion of a number of moderate size is close to it.\<close>

lemma get_d_close:
  assumes "\<bar>q\<bar> \<le> 256"
  obtains r where "gd q = Fin r" "\<bar>r - q\<bar> \<le> 1 / 2 ^ 44"
proof (cases "2 powi (-1022) \<le> \<bar>q\<bar>")
  case True
  have "\<bar>q\<bar> < dbl_limit" using assms dbl_limit_big by simp
  with True obtain r where r: "gd q = Fin r" "0 \<le> r * q" "\<bar>r\<bar> \<le> \<bar>q\<bar>"
    and g: "\<And>s. rep s \<Longrightarrow> \<bar>s\<bar> \<le> \<bar>q\<bar> \<Longrightarrow> \<bar>s\<bar> \<le> \<bar>r\<bar>"
    using get_d_trunc[of q] by blast
  let ?f = "\<lfloor>\<bar>q\<bar> * 2 ^ 44\<rfloor>"
  have f: "of_int ?f \<le> \<bar>q\<bar> * 2 ^ 44" "\<bar>q\<bar> * 2 ^ 44 < of_int ?f + 1" "0 \<le> ?f"
    using floor_correct[of "\<bar>q\<bar> * 2 ^ 44"] by (simp_all del: of_int_add)
  have "?f \<le> 2 ^ 53"
  proof -
    have "\<bar>q\<bar> * 2 ^ 44 \<le> 256 * 2 ^ 44" using assms by (intro mult_right_mono) simp_all
    then have "\<bar>q\<bar> * 2 ^ 44 \<le> of_int (2 ^ 53)" by simp
    then have "?f \<le> \<lfloor>of_int (2 ^ 53) :: rat\<rfloor>" by (rule floor_mono)
    then show ?thesis by (simp only: floor_of_int)
  qed
  then have "rep (of_int ?f * 2 powi (-44))" using f(3) by (intro repI[of _ ?f "-44"]) simp_all
  then have "rep (of_int ?f / 2 ^ 44)" by (simp add: power_int_minus field_simps)
  moreover have "\<bar>of_int ?f / 2 ^ 44 :: rat\<bar> = of_int ?f / 2 ^ 44" using f(3) by simp
  moreover have "of_int ?f / 2 ^ 44 \<le> \<bar>q\<bar>" using f(1) by (simp add: divide_le_eq)
  ultimately have "of_int ?f / 2 ^ 44 \<le> \<bar>r\<bar>" using g[of "of_int ?f / 2 ^ 44"] by simp
  moreover have "\<bar>q\<bar> - 1 / 2 ^ 44 \<le> of_int ?f / 2 ^ 44" using f(2) by (simp add: field_simps)
  ultimately have "\<bar>q\<bar> - 1 / 2 ^ 44 \<le> \<bar>r\<bar>" by linarith
  with r(2,3) have "\<bar>r - q\<bar> \<le> 1 / 2 ^ 44" by (auto simp: zero_le_mult_iff abs_if split: if_splits)
  with r(1) show thesis by (rule that)
next
  case False
  then obtain r where r: "gd q = Fin r" "0 \<le> r * q" "\<bar>r\<bar> \<le> \<bar>q\<bar>" using get_d_small[of q] by auto
  have "(2::rat) powi (-1022) \<le> 2 powi (-44)" by (subst powi_le_iff) simp
  also have "(2::rat) powi (-44) = 1 / 2 ^ 44" by (simp add: power_int_minus field_simps)
  finally have "\<bar>q\<bar> \<le> 1 / 2 ^ 44" using False by linarith
  with r(2,3) have "\<bar>r - q\<bar> \<le> 1 / 2 ^ 44" by (auto simp: zero_le_mult_iff abs_if split: if_splits)
  with r(1) show thesis by (rule that)
qed

lemma get_d_exact:
  assumes "rep q" "2 powi (-1022) \<le> q" "q < dbl_limit"
  shows "gd q = Fin q"
proof -
  have q: "0 \<le> q" using assms(2) by (meson order.trans two_powi_pos less_imp_le)
  obtain r where r: "gd q = Fin r" "r \<le> q" "\<forall>s. rep s \<and> 0 \<le> s \<and> s \<le> q \<longrightarrow> s \<le> r"
    using get_d_pos[OF assms(2,3)] by metis
  have "q \<le> r" using assms(1) q r(3) by simp
  with r show ?thesis by simp
qed

end

text \<open>The documented conversion as a function: truncation to a multiple of the unit in the last place.\<close>

definition trunc_rat :: "rat \<Rightarrow> rat" where
  "trunc_rat q = (if q < 0 then - (of_int \<lfloor>- q / ulp q\<rfloor> * ulp q) else of_int \<lfloor>q / ulp q\<rfloor> * ulp q)"

definition trunc_d :: "rat \<Rightarrow> dbl" where
  "trunc_d q = (if dbl_limit \<le> q then PInf else if q \<le> - dbl_limit then NInf else Fin (trunc_rat q))"

lemma trunc_rat_minus: "trunc_rat (- q) = - trunc_rat q"
  by (auto simp: trunc_rat_def ulp_def)

lemma trunc_rat_pos:
  assumes q: "0 < q"
  shows "0 \<le> trunc_rat q" "trunc_rat q \<le> q" "rep (trunc_rat q)"
    and "rep s \<Longrightarrow> s \<le> q \<Longrightarrow> s \<le> trunc_rat q"
proof -
  let ?f = "\<lfloor>q / ulp q\<rfloor>"
  have t: "trunc_rat q = of_int ?f * ulp q" using q by (simp add: trunc_rat_def)
  have f0: "0 \<le> ?f" using q ulp_pos[of q] by (simp add: less_imp_le)
  then show "0 \<le> trunc_rat q" by (simp add: t less_imp_le)
  have "of_int ?f \<le> q / ulp q" by simp
  then show "trunc_rat q \<le> q" by (simp add: t le_divide_eq)
  have "?f < 2 ^ 53"
    using pos_less_ulp[OF q] by (simp add: floor_less_iff divide_less_eq)
  with f0 show "rep (trunc_rat q)"
    using q by (intro repI[of _ ?f "max (ilog2 q) (-1022) - 52"]) (simp_all add: t ulp_def)
  show "s \<le> trunc_rat q" if s: "rep s" "s \<le> q"
  proof (cases "0 < s")
    case False
    then show ?thesis using \<open>0 \<le> trunc_rat q\<close> by simp
  next
    case sp: True
    from round_rat_fix[OF s(1)] sp have s_eq: "s = of_int (rne (s / ulp s)) * ulp s"
      by (simp add: round_rat_def)
    show ?thesis
    proof (cases "ulp s = ulp q")
      case True
      with s_eq have "of_int (rne (s / ulp s)) \<le> q / ulp q"
        using s(2) by (simp add: le_divide_eq)
      then have "rne (s / ulp s) \<le> ?f" by (simp add: le_floor_iff)
      then have le: "of_int (rne (s / ulp s)) * ulp q \<le> of_int ?f * ulp q"
        by (intro mult_right_mono) (simp_all add: less_imp_le)
      have "s = of_int (rne (s / ulp s)) * ulp q" using s_eq True by simp
      with le show ?thesis by (simp only: t)
    next
      case False
      let ?es = "max (ilog2 s) (-1022)" and ?eq = "max (ilog2 q) (-1022)"
      have "?es \<le> ?eq" using ilog2_mono[OF sp s(2)] by simp
      moreover have "?es \<noteq> ?eq" using False sp q by (auto simp: ulp_def)
      ultimately have lt: "?es + 1 \<le> ?eq" by linarith
      then have "-1022 \<le> ilog2 q" by linarith
      from ulp_le_pos[OF q this] have "2 ^ 52 \<le> ?f"
        by (simp add: le_floor_iff le_divide_eq)
      then have f52: "(2 ^ 52 :: rat) \<le> of_int ?f"
        by (metis of_int_le_iff of_int_numeral of_int_power)
      have "s \<le> 2 ^ 53 * ulp s" using pos_less_ulp[OF sp] by simp
      also have "\<dots> = 2 powi (?es + 1)" using sp by (simp add: ulp_def power_int_diff power_int_add)
      also have "\<dots> \<le> 2 powi ?eq" using lt by simp
      also have "\<dots> = 2 ^ 52 * ulp q" using q by (simp add: ulp_def power_int_diff)
      also have "\<dots> \<le> trunc_rat q" using f52 by (simp add: t less_imp_le)
      finally show ?thesis .
    qed
  qed
qed

interpretation gmp: gmp_get_d trunc_d
proof unfold_locales
  show "trunc_d 0 = Fin 0" by (simp add: trunc_d_def trunc_rat_def dbl_limit_def)
next
  fix q :: rat
  assume l: "2 powi (-1022) \<le> \<bar>q\<bar>" and u: "\<bar>q\<bar> < dbl_limit"
  let ?a = "\<bar>q\<bar>"
  have a: "0 < ?a" using l by (meson order_less_le_trans two_powi_pos)
  have t: "trunc_d q = Fin (trunc_rat q)" using u by (auto simp: trunc_d_def)
  have ab: "\<bar>trunc_rat q\<bar> = trunc_rat ?a"
    using trunc_rat_pos(1)[OF a] by (cases "q < 0") (auto simp: abs_if trunc_rat_minus)
  have r: "rep (trunc_rat q)"
    using trunc_rat_pos(3)[OF a] rep_minus[of "trunc_rat (- q)"]
    by (cases "q < 0") (auto simp: abs_if trunc_rat_minus)
  have m: "0 \<le> trunc_rat q * q"
    using trunc_rat_pos(1)[OF a] by (cases "q < 0") (auto simp: abs_if trunc_rat_minus zero_le_mult_iff)
  have g: "\<bar>s\<bar> \<le> \<bar>trunc_rat q\<bar>" if "rep s" "\<bar>s\<bar> \<le> ?a" for s
  proof -
    have "rep \<bar>s\<bar>" using that(1) rep_minus by (auto simp: abs_if)
    then show ?thesis using trunc_rat_pos(4)[OF a] that(2) ab by simp
  qed
  from t r m g ab trunc_rat_pos(2)[OF a] show "\<exists>r. trunc_d q = Fin r \<and> rep r \<and> 0 \<le> r * q \<and> \<bar>r\<bar> \<le> \<bar>q\<bar> \<and>
      (\<forall>s. rep s \<longrightarrow> \<bar>s\<bar> \<le> \<bar>q\<bar> \<longrightarrow> \<bar>s\<bar> \<le> \<bar>r\<bar>)" by auto
next
  fix q :: rat
  assume l: "\<bar>q\<bar> < 2 powi (-1022)"
  have "(2::rat) powi (-1022) < 2 powi 1024" by (subst powi_less_iff) simp
  then have "\<bar>q\<bar> < dbl_limit" using l by (simp add: dbl_limit_def)
  then have t: "trunc_d q = Fin (trunc_rat q)" by (auto simp: trunc_d_def)
  consider "q = 0" | "0 < q" | "0 < - q" by linarith
  then show "\<exists>r. trunc_d q = Fin r \<and> 0 \<le> r * q \<and> \<bar>r\<bar> \<le> \<bar>q\<bar>"
    using t trunc_rat_pos(1,2)[of q] trunc_rat_pos(1,2)[of "- q"] trunc_rat_minus[of q]
    by cases (auto simp: trunc_rat_def zero_le_mult_iff)
qed

end
