(* ===== verification/Stream_Parser.thy ===== *)
theory Stream_Parser
  imports Prelude
begin

text \<open>
  The turn classifier, \<^verbatim>\<open>src/src/stream_parser.cpp\<close> and \<^verbatim>\<open>src/include/stream_parser.hpp\<close>.
  A \<open>parser\<close> holds the unclassified text, the thought blocks completed since the last
  \<^verbatim>\<open>take_completed_thoughts\<close> and the flag for a completed tool call; the operations are
  \<open>feed\<close>, \<open>take_completed_thoughts\<close>, \<open>result\<close> and \<open>reset\<close>, as in the class.  The loop
  that removes thought blocks occurs twice in the code (in \<open>feed\<close> and in \<open>result\<close>) with the
  same body; it is \<open>sweep\<close> here, total because every pass shortens the text.  The lemmas show
  that no complete thought block survives a pass, that cutting the stream into pieces
  differently never changes the classification, and what the classifier returns on a turn
  with a tool call, on plain text and on a thought that was never closed.
\<close>

section \<open>The classifier\<close>

definition kThoughtOpen :: string where "kThoughtOpen = ''[thought]''"
definition kThoughtClose :: string where "kThoughtClose = ''[/thought]''"
definition kToolCallOpen :: string where "kToolCallOpen = ''<tool_call>''"
definition kToolCallClose :: string where "kToolCallClose = ''</tool_call>''"

definition kThoughtOpenLen :: nat where "kThoughtOpenLen = 9"
definition kThoughtCloseLen :: nat where "kThoughtCloseLen = 10"
definition kToolCallOpenLen :: nat where "kToolCallOpenLen = 11"
definition kToolCallCloseLen :: nat where "kToolCallCloseLen = 12"

record parsed_turn =
  response :: string
  thoughts :: "string list"
  tool_call_json :: string
  has_tool_call :: bool

record parser =
  buffer :: string
  completed_thoughts :: "string list"
  tool_call_complete :: bool

definition new_parser :: parser where
  "new_parser = \<lparr>buffer = [], completed_thoughts = [], tool_call_complete = False\<rparr>"

definition contains_closing :: "string \<Rightarrow> string \<Rightarrow> string \<Rightarrow> bool" where
  "contains_closing text op cl =
     (case str_find op text 0 of
        None \<Rightarrow> False
      | Some open_pos \<Rightarrow> str_find cl text (open_pos + length op) \<noteq> None)"

text \<open>The loop that collects and cuts out completed thought blocks.\<close>

function sweep :: "string list \<Rightarrow> string \<Rightarrow> string list \<times> string" where
  "sweep acc text =
     (case str_find kThoughtOpen text 0 of
        None \<Rightarrow> (acc, text)
      | Some open_pos \<Rightarrow>
          (case str_find kThoughtClose text (open_pos + kThoughtOpenLen) of
             None \<Rightarrow> (acc, text)
           | Some close_pos \<Rightarrow>
               sweep
                 (acc @ [substr text (open_pos + kThoughtOpenLen)
                           (close_pos - open_pos - kThoughtOpenLen)])
                 (str_erase text open_pos (close_pos + kThoughtCloseLen - open_pos))))"
  by pat_completeness auto
termination
proof (relation "measure (\<lambda>(acc, str). length str)", simp)
  fix acc :: "string list" and str open_pos close_pos
  assume "str_find kThoughtOpen str 0 = Some open_pos"
    "str_find kThoughtClose str (open_pos + kThoughtOpenLen) = Some close_pos"
  then have "open_pos + 9 \<le> close_pos" "close_pos + 10 \<le> length str"
    by (auto dest!: str_find_bounds simp: kThoughtOpenLen_def kThoughtClose_def)
  then show "((acc @ [substr str (open_pos + kThoughtOpenLen)
                        (close_pos - open_pos - kThoughtOpenLen)],
               str_erase str open_pos (close_pos + kThoughtCloseLen - open_pos)), acc, str)
             \<in> measure (\<lambda>(acc, str). length str)"
    by (simp add: str_erase_def kThoughtCloseLen_def)
qed

declare sweep.simps [simp del]

definition feed :: "parser \<Rightarrow> string \<Rightarrow> parser" where
  "feed p piece =
     (let buf = buffer p @ piece;
          complete = (if contains_closing buf kToolCallOpen kToolCallClose then True
                      else tool_call_complete p);
          (ths, rest) = sweep (completed_thoughts p) buf
      in \<lparr>buffer = rest, completed_thoughts = ths, tool_call_complete = complete\<rparr>)"

definition take_completed_thoughts :: "parser \<Rightarrow> string list \<times> parser" where
  "take_completed_thoughts p = (completed_thoughts p, p\<lparr>completed_thoughts := []\<rparr>)"

definition cut_tool_call :: "string \<Rightarrow> (string \<times> string) option" where
  "cut_tool_call text =
     (if contains_closing text kToolCallOpen kToolCallClose then
        (case str_find kToolCallOpen text 0 of
           None \<Rightarrow> None
         | Some open_pos \<Rightarrow>
             (case str_find kToolCallClose text (open_pos + kToolCallOpenLen) of
                None \<Rightarrow> None
              | Some close_pos \<Rightarrow>
                  Some (substr text (open_pos + kToolCallOpenLen)
                          (close_pos - open_pos - kToolCallOpenLen),
                        str_erase text open_pos (close_pos + kToolCallCloseLen - open_pos))))
      else None)"

definition result :: "parser \<Rightarrow> parsed_turn" where
  "result p =
     (let (json, has, text) =
            (case cut_tool_call (buffer p) of
               None \<Rightarrow> ([], False, buffer p)
             | Some (j, t) \<Rightarrow> (j, True, t));
          (ths, rest) = sweep [] text
      in \<lparr>response = rest, thoughts = ths, tool_call_json = json, has_tool_call = has\<rparr>)"

definition reset :: "parser \<Rightarrow> parser" where
  "reset p = p\<lparr>buffer := [], completed_thoughts := [], tool_call_complete := False\<rparr>"

definition feed_all :: "parser \<Rightarrow> string list \<Rightarrow> parser" where
  "feed_all p pieces = foldl feed p pieces"

section \<open>Facts about the sweep\<close>

lemmas marker_defs =
  kThoughtOpen_def kThoughtClose_def kToolCallOpen_def kToolCallClose_def
  kThoughtOpenLen_def kThoughtCloseLen_def kToolCallOpenLen_def kToolCallCloseLen_def

lemma marker_lengths [simp]:
  "length kThoughtOpen = kThoughtOpenLen" "length kThoughtClose = kThoughtCloseLen"
  "length kToolCallOpen = kToolCallOpenLen" "length kToolCallClose = kToolCallCloseLen"
  by (simp_all add: marker_defs)

abbreviation has_thought :: "string \<Rightarrow> bool" where
  "has_thought text \<equiv> contains_closing text kThoughtOpen kThoughtClose"

definition block_text :: "string \<Rightarrow> nat \<Rightarrow> nat \<Rightarrow> string" where
  "block_text str i j = substr str (i + kThoughtOpenLen) (j - i - kThoughtOpenLen)"

definition cut_block :: "string \<Rightarrow> nat \<Rightarrow> nat \<Rightarrow> string" where
  "cut_block str i j = str_erase str i (j + kThoughtCloseLen - i)"

lemma sweep_stop: "\<not> has_thought str \<Longrightarrow> sweep acc str = (acc, str)"
  by (subst sweep.simps) (auto simp: contains_closing_def split: option.splits)

lemma sweep_step:
  assumes "str_find kThoughtOpen str 0 = Some i"
    and "str_find kThoughtClose str (i + kThoughtOpenLen) = Some j"
  shows "sweep acc str = sweep (acc @ [block_text str i j]) (cut_block str i j)"
  using assms by (subst sweep.simps) (simp add: block_text_def cut_block_def)

lemma has_thoughtE:
  assumes "has_thought str"
  obtains i j where "str_find kThoughtOpen str 0 = Some i"
    "str_find kThoughtClose str (i + kThoughtOpenLen) = Some j"
  using assms by (auto simp: contains_closing_def split: option.splits)

lemma cut_block_shorter:
  assumes "str_find kThoughtOpen str 0 = Some i"
    and "str_find kThoughtClose str (i + kThoughtOpenLen) = Some j"
  shows "length (cut_block str i j) < length str"
  using assms by (auto dest!: str_find_bounds simp: cut_block_def str_erase_def marker_defs)

text \<open>Induction along the passes of the loop.\<close>

lemma sweep_induct [case_names stop step]:
  assumes "\<And>str. \<not> has_thought str \<Longrightarrow> P str"
    and "\<And>str i j. str_find kThoughtOpen str 0 = Some i \<Longrightarrow>
           str_find kThoughtClose str (i + kThoughtOpenLen) = Some j \<Longrightarrow>
           P (cut_block str i j) \<Longrightarrow> P str"
  shows "P str"
proof (induction str rule: measure_induct_rule [of length])
  case (less str)
  show ?case
  proof (cases "has_thought str")
    case True
    then obtain i j where ij: "str_find kThoughtOpen str 0 = Some i"
      "str_find kThoughtClose str (i + kThoughtOpenLen) = Some j" by (rule has_thoughtE)
    show ?thesis by (rule assms(2)[OF ij less.IH[OF cut_block_shorter[OF ij]]])
  qed (rule assms(1))
qed

text \<open>The accumulator only collects.\<close>

lemma sweep_acc: "sweep (pre @ acc) str = (pre @ fst (sweep acc str), snd (sweep acc str))"
proof (induction str arbitrary: acc rule: sweep_induct)
  case (step str i j)
  from sweep_step[OF step(1,2)] show ?case by (simp add: step(3))
qed (simp add: sweep_stop)

lemma sweep_Nil: "sweep acc str = (acc @ fst (sweep [] str), snd (sweep [] str))"
  using sweep_acc[of acc "[]" str] by simp

text \<open>No complete thought block is left.\<close>

lemma sweep_clears: "\<not> has_thought (snd (sweep acc str))"
proof (induction str arbitrary: acc rule: sweep_induct)
  case (step str i j)
  from sweep_step[OF step(1,2)] show ?case by (simp add: step(3))
qed (simp add: sweep_stop)

text \<open>Text that arrives later does not change what an earlier pass cuts out.\<close>

lemma sweep_append:
  "sweep acc (str @ later) = (let (ths, rest) = sweep acc str in sweep ths (rest @ later))"
proof (induction str arbitrary: acc rule: sweep_induct)
  case (step str i j)
  have b: "i + kThoughtOpenLen \<le> j" "j + kThoughtCloseLen \<le> length str"
    using step(1,2) by (auto dest!: str_find_bounds)
  have "str_find kThoughtOpen (str @ later) 0 = Some i"
    "str_find kThoughtClose (str @ later) (i + kThoughtOpenLen) = Some j"
    using step(1,2) by (auto intro: str_find_append)
  from sweep_step[OF this]
  have "sweep acc (str @ later) =
      sweep (acc @ [block_text (str @ later) i j]) (cut_block (str @ later) i j)" .
  also have "block_text (str @ later) i j = block_text str i j"
    using b by (simp add: block_text_def substr_def)
  also have "cut_block (str @ later) i j = cut_block str i j @ later"
    using b by (simp add: cut_block_def str_erase_def)
  finally show ?case by (simp add: step(3) sweep_step[OF step(1,2)])
qed (simp add: sweep_stop)

section \<open>Properties of the class\<close>

lemma feed_simps:
  "buffer (feed p piece) = snd (sweep (completed_thoughts p) (buffer p @ piece))"
  "completed_thoughts (feed p piece) = fst (sweep (completed_thoughts p) (buffer p @ piece))"
  by (simp_all add: feed_def Let_def split_beta)

lemma feed_all_sweep:
  "\<not> has_thought (buffer p) \<Longrightarrow>
   (completed_thoughts (feed_all p ps), buffer (feed_all p ps)) =
     sweep (completed_thoughts p) (buffer p @ concat ps)"
proof (induction ps arbitrary: p)
  case (Cons a ps)
  have "\<not> has_thought (buffer (feed p a))" by (simp add: feed_simps sweep_clears)
  from Cons.IH[OF this] show ?case
    using sweep_append[of "completed_thoughts p" "buffer p @ a" "concat ps"]
    by (simp add: feed_all_def feed_simps split_beta)
qed (simp add: feed_all_def sweep_stop)

lemma find0_fresh: "c \<notin> set xs \<Longrightarrow> find0 (c # pat) (xs @ (c # pat) @ ys) = Some (length xs)"
  by (induction xs) auto

lemma find0_absent: "c \<notin> set xs \<Longrightarrow> find0 (c # pat) xs = None"
  by (induction xs) auto

text \<open>What \<open>result\<close> reads from a buffer with one tool call in otherwise plain text.\<close>

lemma str_find_fresh:
  "c \<notin> set (drop pos xs) \<Longrightarrow> pos \<le> length xs \<Longrightarrow>
   str_find (c # pat) (xs @ (c # pat) @ ys) pos = Some (length xs)"
  using find0_fresh[of c "drop pos xs" pat ys] by (simp add: str_find_def)

lemma str_find_absent: "c \<notin> set xs \<Longrightarrow> str_find (c # pat) xs pos = None"
  by (auto simp: str_find_def dest: in_set_dropD intro!: find0_absent)

lemma no_thought_plain: "CHR ''['' \<notin> set str \<Longrightarrow> \<not> has_thought str"
  by (simp add: contains_closing_def kThoughtOpen_def str_find_absent)

lemma cut_tool_call_turn:
  assumes "CHR ''<'' \<notin> set pre" "CHR ''<'' \<notin> set json"
  shows "cut_tool_call (pre @ kToolCallOpen @ json @ kToolCallClose @ post) = Some (json, pre @ post)"
proof -
  let ?t = "pre @ kToolCallOpen @ json @ kToolCallClose @ post"
  have o: "str_find kToolCallOpen ?t 0 = Some (length pre)"
    using assms str_find_fresh[of "CHR ''<''" 0 pre "''tool_call>''"]
    by (simp add: kToolCallOpen_def)
  have c: "str_find kToolCallClose ?t (length pre + kToolCallOpenLen)
           = Some (length pre + kToolCallOpenLen + length json)"
    using assms str_find_fresh[of "CHR ''<''" "length pre + kToolCallOpenLen"
        "pre @ kToolCallOpen @ json" "''/tool_call>''" post]
    by (simp add: kToolCallClose_def add.assoc)
  show ?thesis
    by (simp add: cut_tool_call_def contains_closing_def o c substr_def str_erase_def)
qed

section \<open>Claims\<close>

text \<open>
  C37: the response of a turn never contains a complete flagged thought, whatever the model
  emitted: a \<^verbatim>\<open>[thought]\<close> with a later \<^verbatim>\<open>[/thought]\<close> is never delivered.
\<close>

theorem response_has_no_thought:
  "\<not> contains_closing (response (result p)) kThoughtOpen kThoughtClose"
  by (simp add: result_def Let_def split_beta sweep_clears)

text \<open>
  C36: the classification does not depend on how the token stream is cut into pieces: after
  any pieces, the thoughts collected and the text kept are those of the whole stream fed at
  once, and no complete thought block is left in the buffer.
\<close>

theorem feed_chunks:
  "completed_thoughts (feed_all new_parser ps) = completed_thoughts (feed new_parser (concat ps))
   \<and> buffer (feed_all new_parser ps) = buffer (feed new_parser (concat ps))
   \<and> \<not> contains_closing (buffer (feed_all new_parser ps)) kThoughtOpen kThoughtClose"
proof -
  have "\<not> has_thought (buffer new_parser)"
    by (simp add: new_parser_def contains_closing_def str_find_def kThoughtOpen_def)
  from feed_all_sweep[OF this, of ps]
  show ?thesis by (simp add: feed_simps prod_eq_iff sweep_clears)
qed

text \<open>
  a turn whose text is plain around one tool call is classified exactly: the JSON between
  the markers, the flag, no thoughts, and the surrounding text as the response.
\<close>

theorem tool_call_turn:
  assumes "CHR ''<'' \<notin> set pre" "CHR ''<'' \<notin> set json"
    and "CHR ''['' \<notin> set pre" "CHR ''['' \<notin> set json" "CHR ''['' \<notin> set post"
  shows "result (feed new_parser (pre @ kToolCallOpen @ json @ kToolCallClose @ post)) =
           \<lparr>response = pre @ post, thoughts = [], tool_call_json = json, has_tool_call = True\<rparr>
         \<and> tool_call_complete (feed new_parser (pre @ kToolCallOpen @ json @ kToolCallClose @ post))"
proof -
  let ?t = "pre @ kToolCallOpen @ json @ kToolCallClose @ post"
  have "CHR ''['' \<notin> set ?t" using assms by (simp add: kToolCallOpen_def kToolCallClose_def)
  then have b: "buffer (feed new_parser ?t) = ?t"
    by (simp add: feed_simps new_parser_def sweep_stop no_thought_plain)
  have cut: "cut_tool_call ?t = Some (json, pre @ post)" using assms by (intro cut_tool_call_turn)
  then have "contains_closing ?t kToolCallOpen kToolCallClose"
    by (simp add: cut_tool_call_def split: if_splits)
  then have "tool_call_complete (feed new_parser ?t)"
    by (simp add: feed_def new_parser_def Let_def split_beta)
  moreover have "\<not> has_thought (pre @ post)" using assms by (intro no_thought_plain) simp
  ultimately show ?thesis by (simp add: result_def b cut sweep_stop)
qed

theorem tool_call_turn_witness:
  "result (feed new_parser (''hi '' @ kToolCallOpen @ ''{}'' @ kToolCallClose @ ''.'')) =
     \<lparr>response = ''hi '' @ ''.'', thoughts = [], tool_call_json = ''{}'', has_tool_call = True\<rparr>
   \<and> tool_call_complete (feed new_parser (''hi '' @ kToolCallOpen @ ''{}'' @ kToolCallClose @ ''.''))"
  by (rule tool_call_turn) simp_all

text \<open>
  a thought that was opened and never closed (a turn stopped in the middle of one) is not
  recognised: it is part of the response, marker included, and so goes to delivery.
\<close>

theorem open_thought_leaks:
  assumes "CHR ''['' \<notin> set secret" "CHR ''<'' \<notin> set secret"
  shows "response (result (feed new_parser (kThoughtOpen @ secret))) = kThoughtOpen @ secret"
proof -
  let ?t = "kThoughtOpen @ secret"
  have o: "str_find kThoughtOpen ?t 0 = Some 0"
    by (cases secret) (simp_all add: str_find_def kThoughtOpen_def)
  have "str_find kThoughtClose ?t kThoughtOpenLen = None"
    using assms find0_absent[of "CHR ''[''" secret "''/thought]''"]
    by (simp add: str_find_def kThoughtClose_def)
  with o have n: "\<not> has_thought ?t" by (simp add: contains_closing_def)
  have "CHR ''<'' \<notin> set ?t" using assms by (simp add: kThoughtOpen_def)
  then have "cut_tool_call ?t = None"
    by (simp add: cut_tool_call_def contains_closing_def str_find_absent kToolCallOpen_def)
  with n show ?thesis by (simp add: result_def feed_simps new_parser_def sweep_stop)
qed

theorem open_thought_leaks_witness:
  "response (result (feed new_parser (kThoughtOpen @ ''my secret''))) = kThoughtOpen @ ''my secret''"
  by (rule open_thought_leaks) simp_all

end
