(* ===== verification/Dragon_Ring.thy ===== *)
theory Dragon_Ring
  imports Prelude
begin

unbundle bit_operations_syntax

text \<open>
  The ring of the DragonCache, \<^verbatim>\<open>src/include/dragon_ring.h\<close>: a byte ring with one producer
  and one consumer, 64-bit monotonic positions and length-prefixed frames.  \<open>ring\<close> is the
  \<^verbatim>\<open>RingBuffer\<close> struct (the padding carries no state); \<open>ring_write_bytes\<close>, \<open>ring_read_bytes\<close>,
  \<open>ring_read_u32\<close>, \<open>ring_push\<close> and \<open>ring_pop\<close> are the inline functions, on machine words, with
  the loops over bytes.  \<open>ring_holds\<close> relates a ring to the list of frames it stores; the
  lemmas show that \<open>ring_push\<close> and \<open>ring_pop\<close> are the operations of a bounded queue.
\<close>

section \<open>The code\<close>

definition RING_PAYLOAD_SIZE :: u64 where "RING_PAYLOAD_SIZE = 256 * 1024 * 1024 - 128"
definition RING_LEN_PREFIX :: u32 where "RING_LEN_PREFIX = 4"
definition RING_FRAME_MAX :: u32 where "RING_FRAME_MAX = 64 * 1024 * 1024"

datatype dragon_msg_type =
    MSG_COMMAND | MSG_RESPONSE | MSG_STREAM | MSG_STREAM_END
  | MSG_CONTROL | MSG_DATA | MSG_EVENT | MSG_ERROR

fun msg_code :: "dragon_msg_type \<Rightarrow> u8" where
  "msg_code MSG_COMMAND = 1"
| "msg_code MSG_RESPONSE = 2"
| "msg_code MSG_STREAM = 3"
| "msg_code MSG_STREAM_END = 4"
| "msg_code MSG_CONTROL = 5"
| "msg_code MSG_DATA = 6"
| "msg_code MSG_EVENT = 7"
| "msg_code MSG_ERROR = 8"

record ring =
  head :: u64
  tail :: u64
  payload :: "nat \<Rightarrow> u8"

text \<open>Index of byte \<open>i\<close> of an access at offset \<open>off\<close>.\<close>

definition ring_index :: "u64 \<Rightarrow> nat \<Rightarrow> nat" where
  "ring_index off i = unat ((off + word_of_nat i) mod RING_PAYLOAD_SIZE)"

text \<open>The bytes of a \<^verbatim>\<open>uint32_t\<close> in memory (little endian), and the shift-and-or that reads them.\<close>

definition le_bytes :: "u32 \<Rightarrow> u8 list" where
  "le_bytes w = [ucast w, ucast (drop_bit 8 w), ucast (drop_bit 16 w), ucast (drop_bit 24 w)]"

definition ring_read_u32 :: "ring \<Rightarrow> u64 \<Rightarrow> u32" where
  "ring_read_u32 rb pos =
     (let off = pos mod RING_PAYLOAD_SIZE;
          b = (\<lambda>i. payload rb (ring_index off i))
      in ucast (b 0) OR push_bit 8 (ucast (b 1)) OR push_bit 16 (ucast (b 2))
         OR push_bit 24 (ucast (b 3)))"

fun write_loop :: "(nat \<Rightarrow> u8) \<Rightarrow> u64 \<Rightarrow> nat \<Rightarrow> u8 list \<Rightarrow> (nat \<Rightarrow> u8)" where
  "write_loop m off i [] = m"
| "write_loop m off i (b # bs) = write_loop (m(ring_index off i := b)) off (Suc i) bs"

definition ring_write_bytes :: "ring \<Rightarrow> u64 \<Rightarrow> u8 list \<Rightarrow> ring" where
  "ring_write_bytes rb pos src =
     rb\<lparr>payload := write_loop (payload rb) (pos mod RING_PAYLOAD_SIZE) 0 src\<rparr>"

definition ring_read_bytes :: "ring \<Rightarrow> u64 \<Rightarrow> nat \<Rightarrow> u8 list" where
  "ring_read_bytes rb pos n =
     (let off = pos mod RING_PAYLOAD_SIZE in map (\<lambda>i. payload rb (ring_index off i)) [0..<n])"

text \<open>\<^verbatim>\<open>data\<close> is the buffer behind the pointer, of which the first \<open>payload_len\<close> bytes are sent.\<close>

definition ring_push :: "ring \<Rightarrow> u8 \<Rightarrow> u8 list \<Rightarrow> u32 \<Rightarrow> bool \<times> ring" where
  "ring_push rb type data payload_len =
     (if payload_len > RING_FRAME_MAX then (False, rb) else
      let total = RING_LEN_PREFIX + 1 + payload_len;
          hd = head rb; tl = tail rb; used = hd - tl
      in if used + ucast total > RING_PAYLOAD_SIZE then (False, rb) else
      let rb1 = ring_write_bytes rb hd (le_bytes total);
          rb2 = ring_write_bytes rb1 (hd + ucast RING_LEN_PREFIX) [type];
          rb3 = (if payload_len > 0
                 then ring_write_bytes rb2 (hd + ucast RING_LEN_PREFIX + 1) (take (unat payload_len) data)
                 else rb2)
      in (True, rb3\<lparr>head := hd + ucast total\<rparr>))"

text \<open>
  What a pop hands out: the returned size (0: nothing), and the values stored through the
  three optional pointers (\<open>None\<close>: nothing was stored).
\<close>

record popped =
  pop_ret :: u32
  pop_type :: "u8 option"
  pop_payload :: "u8 list option"
  pop_len :: "u32 option"

definition no_pop :: popped where
  "no_pop = \<lparr>pop_ret = 0, pop_type = None, pop_payload = None, pop_len = None\<rparr>"

definition ring_pop :: "ring \<Rightarrow> bool \<Rightarrow> u32 \<Rightarrow> popped \<times> ring" where
  "ring_pop rb has_payload_out payload_cap =
     (let hd = head rb; tl = tail rb in
      if hd = tl then (no_pop, rb) else
      let total = ring_read_u32 rb tl in
      if total < RING_LEN_PREFIX + 1 \<or> total > RING_FRAME_MAX + RING_LEN_PREFIX + 1
      then (no_pop, rb) else
      if hd - tl < ucast total then (no_pop, rb) else
      let type = ring_read_bytes rb (tl + ucast RING_LEN_PREFIX) 1 ! 0;
          plen = total - RING_LEN_PREFIX - 1
      in (\<lparr>pop_ret = total, pop_type = Some type,
           pop_payload =
             (if has_payload_out \<and> plen > 0 \<and> plen \<le> payload_cap
              then Some (ring_read_bytes rb (tl + ucast RING_LEN_PREFIX + 1) (unat plen)) else None),
           pop_len = Some plen\<rparr>,
          rb\<lparr>tail := tl + ucast total\<rparr>))"

section \<open>Positions and indices\<close>

definition RN :: nat where "RN = 268435328"

lemma unat_payload_size [simp]: "unat RING_PAYLOAD_SIZE = RN"
  by (simp add: RING_PAYLOAD_SIZE_def RN_def)

lemma RN_pos [simp]: "0 < RN" by (simp add: RN_def)

lemma ring_index_eq:
  assumes "i < 2 ^ 32"
  shows "ring_index (pos mod RING_PAYLOAD_SIZE) i = (unat pos + i) mod RN"
proof -
  have o: "unat (pos mod RING_PAYLOAD_SIZE) = unat pos mod RN" by (simp add: unat_mod)
  have i: "unat (word_of_nat i :: u64) = i" using assms by (subst unat_of_nat, subst mod_less) simp_all
  have "unat pos mod RN < 268435328" using mod_less_divisor[OF RN_pos] by (simp add: RN_def)
  then have "unat (pos mod RING_PAYLOAD_SIZE + word_of_nat i) = unat pos mod RN + i"
    using assms by (subst unat_add_lem [THEN iffD1]) (simp_all add: o i)
  then show ?thesis by (simp add: ring_index_def unat_mod mod_add_left_eq)
qed

text \<open>Writing bytes at consecutive positions of the ring, on natural numbers.\<close>

fun wr :: "(nat \<Rightarrow> u8) \<Rightarrow> nat \<Rightarrow> u8 list \<Rightarrow> (nat \<Rightarrow> u8)" where
  "wr m P [] = m"
| "wr m P (b # bs) = wr (m(P mod RN := b)) (Suc P) bs"

lemma wr_append: "wr m P (as @ bs) = wr (wr m P as) (P + length as) bs"
  by (induction as arbitrary: m P) auto

lemma write_loop_wr:
  "i + length bs \<le> 2 ^ 32 \<Longrightarrow> write_loop m (pos mod RING_PAYLOAD_SIZE) i bs = wr m (unat pos + i) bs"
  by (induction bs arbitrary: m i) (simp_all add: ring_index_eq)

lemma mod_RN_inj: "i < RN \<Longrightarrow> j < RN \<Longrightarrow> (P + i) mod RN = (P + j) mod RN \<Longrightarrow> i = j"
proof -
  have le: "i = j" if "i \<le> j" "j < RN" "(P + i) mod RN = (P + j) mod RN" for i j
  proof -
    have "RN dvd (P + j) - (P + i)" using that by (subst mod_eq_dvd_iff_nat [symmetric]) simp_all
    then have "RN dvd j - i" by simp
    moreover have "j - i < RN" using that by simp
    ultimately have "j - i = 0" using nat_dvd_not_less by (cases "j - i") auto
    with that show ?thesis by simp
  qed
  assume "i < RN" "j < RN" "(P + i) mod RN = (P + j) mod RN"
  then show "i = j" using le[of i j] le[of j i] by (cases "i \<le> j") simp_all
qed

lemma wr_outside: "(\<And>i. i < length bs \<Longrightarrow> (P + i) mod RN \<noteq> k) \<Longrightarrow> wr m P bs k = m k"
proof (induction bs arbitrary: m P)
  case (Cons b bs)
  have "wr (m(P mod RN := b)) (Suc P) bs k = (m(P mod RN := b)) k"
    using Cons.prems by (intro Cons.IH) (use Cons.prems[of "Suc _"] in simp)
  also have "\<dots> = m k" using Cons.prems[of 0] by simp
  finally show ?case by simp
qed simp

lemma wr_inside:
  "length bs \<le> RN \<Longrightarrow> i < length bs \<Longrightarrow> wr m P bs ((P + i) mod RN) = bs ! i"
proof (induction bs arbitrary: m P i)
  case (Cons b bs)
  show ?case
  proof (cases i)
    case 0
    have "wr (m(P mod RN := b)) (Suc P) bs (P mod RN) = (m(P mod RN := b)) (P mod RN)"
    proof (rule wr_outside)
      fix j assume "j < length bs"
      then show "(Suc P + j) mod RN \<noteq> P mod RN"
        using Cons.prems mod_RN_inj[of "Suc j" 0 P] by auto
    qed
    with 0 show ?thesis by simp
  next
    case (Suc n)
    have "wr (m(P mod RN := b)) (Suc P) bs ((Suc P + n) mod RN) = bs ! n"
      using Cons.prems Suc by (intro Cons.IH) simp_all
    with Suc show ?thesis by simp
  qed
qed simp

section \<open>The frames a ring stores\<close>

definition frame_total :: "u8 list \<Rightarrow> u32" where
  "frame_total p = RING_LEN_PREFIX + 1 + word_of_nat (length p)"

definition frame_bytes :: "u8 \<times> u8 list \<Rightarrow> u8 list" where
  "frame_bytes f = le_bytes (frame_total (snd f)) @ [fst f] @ snd f"

definition frame_ok :: "u8 \<times> u8 list \<Rightarrow> bool" where
  "frame_ok f \<longleftrightarrow> length (snd f) \<le> 67108864"

definition stream :: "(u8 \<times> u8 list) list \<Rightarrow> u8 list" where
  "stream fs = concat (map frame_bytes fs)"

definition ring_holds :: "ring \<Rightarrow> (u8 \<times> u8 list) list \<Rightarrow> bool" where
  "ring_holds rb fs \<longleftrightarrow>
     unat (head rb) = unat (tail rb) + length (stream fs) \<and> length (stream fs) \<le> RN \<and>
     (\<forall>f\<in>set fs. frame_ok f) \<and>
     (\<forall>i<length (stream fs). payload rb ((unat (tail rb) + i) mod RN) = stream fs ! i)"

definition empty_ring :: ring where
  "empty_ring = \<lparr>head = 0, tail = 0, payload = (\<lambda>_. 0)\<rparr>"

lemma length_le_bytes [simp]: "length (le_bytes w) = 4"
  by (simp add: le_bytes_def)

lemma length_frame_bytes [simp]: "length (frame_bytes f) = 5 + length (snd f)"
  by (simp add: frame_bytes_def)

lemma stream_simps [simp]:
  "stream [] = []" "stream (f # fs) = frame_bytes f @ stream fs" "stream (fs @ gs) = stream fs @ stream gs"
  by (simp_all add: stream_def)

lemma unat_frame_total: "length p \<le> 67108864 \<Longrightarrow> unat (frame_total p) = 5 + length p"
proof -
  assume l: "length p \<le> 67108864"
  then have "unat (word_of_nat (length p) :: u32) = length p"
    by (subst unat_of_nat, subst mod_less) simp_all
  moreover from this l have "unat (5 + word_of_nat (length p) :: u32) = unat (5::u32) + length p"
    by (subst unat_add_lem [THEN iffD1]) simp_all
  ultimately show ?thesis by (simp add: frame_total_def RING_LEN_PREFIX_def)
qed

lemma le_bytes_nth [simp]:
  "le_bytes w ! 0 = ucast w" "le_bytes w ! Suc 0 = ucast (drop_bit 8 w)"
  "le_bytes w ! 2 = ucast (drop_bit 16 w)" "le_bytes w ! 3 = ucast (drop_bit 24 w)"
  by (simp_all add: le_bytes_def)

text \<open>The shifts and ors of \<open>ring_read_u32\<close> undo the little-endian layout.\<close>

lemma le_bytes_inverse:
  "(ucast (ucast w :: u8) :: u32) OR push_bit 8 (ucast (ucast (drop_bit 8 w) :: u8)) OR
   push_bit 16 (ucast (ucast (drop_bit 16 w) :: u8)) OR
   push_bit 24 (ucast (ucast (drop_bit 24 w) :: u8)) = w"
proof (rule bit_word_eqI)
  fix n :: nat
  assume "n < LENGTH(32)"
  then show "bit ((ucast (ucast w :: u8) :: u32) OR push_bit 8 (ucast (ucast (drop_bit 8 w) :: u8)) OR
      push_bit 16 (ucast (ucast (drop_bit 16 w) :: u8)) OR
      push_bit 24 (ucast (ucast (drop_bit 24 w) :: u8))) n = bit w n"
    by (cases "n < 8"; cases "n < 16"; cases "n < 24")
       (auto simp: bit_simps not_less less_diff_conv2)
qed

lemma unat_add64:
  "unat (a::u64) + n < 2 ^ 64 \<Longrightarrow> unat (a + word_of_nat n) = unat a + n"
proof -
  assume l: "unat a + n < 2 ^ 64"
  then have "unat (word_of_nat n :: u64) = n" by (subst unat_of_nat, subst mod_less) simp_all
  with l show ?thesis by (subst unat_add_lem [THEN iffD1]) simp_all
qed

lemma ucast_frame_total:
  "length p \<le> 67108864 \<Longrightarrow> (ucast (frame_total p) :: u64) = word_of_nat (5 + length p)"
  by (simp add: word_unat_eq_iff unsigned_ucast_eq unsigned_of_nat unat_frame_total del: of_nat_add)

lemma ucast_prefix [simp]: "(ucast RING_LEN_PREFIX :: u64) = 4"
  by (simp add: RING_LEN_PREFIX_def)

lemma ring_write_bytes_wr:
  "length bs \<le> 2 ^ 32 \<Longrightarrow>
   ring_write_bytes rb pos bs = rb\<lparr>payload := wr (payload rb) (unat pos) bs\<rparr>"
  using write_loop_wr[of 0 bs "payload rb" pos] by (simp add: ring_write_bytes_def)

lemma ring_read_bytes_eq:
  "n \<le> 2 ^ 32 \<Longrightarrow> ring_read_bytes rb pos n = map (\<lambda>i. payload rb ((unat pos + i) mod RN)) [0..<n]"
  by (auto simp: ring_read_bytes_def Let_def ring_index_eq)

lemma ring_read_u32_eq:
  assumes "\<And>i. i < 4 \<Longrightarrow> payload rb ((unat pos + i) mod RN) = le_bytes w ! i"
  shows "ring_read_u32 rb pos = w"
  using assms[of 0] assms[of 1] assms[of 2] assms[of 3]
  by (simp add: ring_read_u32_def Let_def ring_index_eq le_bytes_inverse)

text \<open>The three writes of a push put the encoded frame at the head.\<close>

lemma push_writes:
  assumes "length p \<le> 67108864" and "unat (head rb) + 5 < 2 ^ 64" and "length p \<le> length data"
    and "p = take (length p) data"
  shows "(let rb1 = ring_write_bytes rb (head rb) (le_bytes (frame_total p));
              rb2 = ring_write_bytes rb1 (head rb + ucast RING_LEN_PREFIX) [t];
              rb3 = (if word_of_nat (length p) > (0::u32)
                     then ring_write_bytes rb2 (head rb + ucast RING_LEN_PREFIX + 1) p else rb2)
          in rb3) = rb\<lparr>payload := wr (payload rb) (unat (head rb)) (frame_bytes (t, p))\<rparr>"
proof -
  have h4: "unat (head rb + 4) = unat (head rb) + 4" and h5: "unat (head rb + 5) = 5 + unat (head rb)"
    using unat_add64[of "head rb" 4] unat_add64[of "head rb" 5] assms(2) by simp_all
  have z: "(word_of_nat (length p) > (0::u32)) = (p \<noteq> [])"
  proof -
    have "unat (word_of_nat (length p) :: u32) = length p"
      using assms(1) by (subst unat_of_nat, subst mod_less) simp_all
    then show ?thesis by (metis length_0_conv unat_0 unat_gt_0 word_gt_0)
  qed
  have a5: "head rb + 4 + 1 = head rb + 5" by simp
  show ?thesis
    using assms(1)
    by (simp add: Let_def ring_write_bytes_wr h4 h5 z frame_bytes_def wr_append add.assoc)
qed

section \<open>Push and pop as queue operations\<close>

lemma used_eq: "ring_holds rb fs \<Longrightarrow> unat (head rb - tail rb) = length (stream fs)"
  by (simp add: ring_holds_def unat_sub_if')

lemma ring_free_iff:
  assumes "ring_holds rb fs" "length p \<le> 67108864"
  shows "(head rb - tail rb) + ucast (frame_total p) > RING_PAYLOAD_SIZE \<longleftrightarrow>
         RN < length (stream fs) + (5 + length p)"
proof -
  have b: "length (stream fs) \<le> RN" using assms by (simp add: ring_holds_def)
  have "unat ((head rb - tail rb) + word_of_nat (5 + length p)) = length (stream fs) + (5 + length p)"
    using b assms by (subst unat_add64) (simp_all add: used_eq RN_def)
  then show ?thesis using assms(2) by (simp only: word_less_nat_alt ucast_frame_total unat_payload_size)
qed

lemma push_full:
  assumes "ring_holds rb fs" "length p \<le> 67108864" "RN < length (stream fs) + (5 + length p)"
  shows "ring_push rb t p (word_of_nat (length p)) = (False, rb)"
proof -
  have "\<not> (word_of_nat (length p) > RING_FRAME_MAX)"
    using assms(2) by (simp add: word_less_nat_alt RING_FRAME_MAX_def unat_of_nat)
  with ring_free_iff[OF assms(1,2)] assms(3) show ?thesis
    by (simp add: ring_push_def frame_total_def Let_def)
qed

lemma push_fits:
  assumes h: "ring_holds rb fs" and ok: "length p \<le> 67108864"
    and fits: "length (stream fs) + (5 + length p) \<le> RN"
    and nowrap: "unat (head rb) + (5 + length p) < 2 ^ 64"
  shows "ring_push rb t p (word_of_nat (length p)) =
           (True, rb\<lparr>payload := wr (payload rb) (unat (head rb)) (frame_bytes (t, p)),
                     head := head rb + word_of_nat (5 + length p)\<rparr>)"
    and "ring_holds (snd (ring_push rb t p (word_of_nat (length p)))) (fs @ [(t, p)])"
proof -
  have m: "\<not> (word_of_nat (length p) > RING_FRAME_MAX)"
    using ok by (simp add: word_less_nat_alt RING_FRAME_MAX_def unat_of_nat)
  have u: "unat (word_of_nat (length p) :: u32) = length p"
    using ok by (subst unat_of_nat, subst mod_less) simp_all
  have f: "\<not> (head rb - tail rb) + ucast (frame_total p) > RING_PAYLOAD_SIZE"
    using ring_free_iff[OF h ok] fits by simp
  have n5: "unat (head rb) + 5 < 2 ^ 64" using nowrap by simp
  have w: "(let rb1 = ring_write_bytes rb (head rb) (le_bytes (frame_total p));
              rb2 = ring_write_bytes rb1 (head rb + ucast RING_LEN_PREFIX) [t];
              rb3 = (if word_of_nat (length p) > (0::u32)
                     then ring_write_bytes rb2 (head rb + ucast RING_LEN_PREFIX + 1) p else rb2)
          in rb3) = rb\<lparr>payload := wr (payload rb) (unat (head rb)) (frame_bytes (t, p))\<rparr>"
    using push_writes[OF ok n5, of p t] by simp
  show eq: "ring_push rb t p (word_of_nat (length p)) =
           (True, rb\<lparr>payload := wr (payload rb) (unat (head rb)) (frame_bytes (t, p)),
                     head := head rb + word_of_nat (5 + length p)\<rparr>)"
    by (simp only: ring_push_def Let_def frame_total_def [symmetric] m f [unfolded ucast_frame_total [OF ok]] if_False u
        take_all [OF order.refl] w [unfolded Let_def] ucast_frame_total [OF ok])
  let ?T = "unat (tail rb)" and ?S = "length (stream fs)" and ?b = "frame_bytes (t, p)"
  let ?m = "wr (payload rb) (unat (head rb)) ?b"
  have H: "unat (head rb) = ?T + ?S" using h by (simp add: ring_holds_def)
  have mem: "?m ((?T + i) mod RN) = (stream fs @ ?b) ! i" if i: "i < ?S + length ?b" for i
  proof (cases "i < ?S")
    case True
    have "?m ((?T + i) mod RN) = payload rb ((?T + i) mod RN)"
    proof (rule wr_outside)
      fix j assume "j < length ?b"
      then show "(unat (head rb) + j) mod RN \<noteq> (?T + i) mod RN"
        using mod_RN_inj[of "?S + j" i ?T] True fits by (auto simp: H add.assoc)
    qed
    with h True show ?thesis by (simp add: ring_holds_def nth_append)
  next
    case False
    then have "?T + i = unat (head rb) + (i - ?S)" by (simp add: H)
    moreover have "?m ((unat (head rb) + (i - ?S)) mod RN) = ?b ! (i - ?S)"
      using False i fits by (intro wr_inside) auto
    ultimately show ?thesis using False by (simp add: nth_append)
  qed
  have "unat (head rb + word_of_nat (5 + length p)) = unat (head rb) + (5 + length p)"
    using nowrap by (rule unat_add64)
  then show "ring_holds (snd (ring_push rb t p (word_of_nat (length p)))) (fs @ [(t, p)])"
    unfolding eq using h fits ok mem by (auto simp: ring_holds_def H frame_ok_def simp del: of_nat_add)
qed

lemma pop_empty:
  "head rb = tail rb \<Longrightarrow> ring_pop rb has cap = (no_pop, rb)"
  by (simp add: ring_pop_def Let_def)

lemma pop_first:
  assumes h: "ring_holds rb ((t, p) # fs)"
  shows "ring_pop rb has cap =
           (\<lparr>pop_ret = frame_total p, pop_type = Some t,
             pop_payload = (if has \<and> p \<noteq> [] \<and> length p \<le> unat cap then Some p else None),
             pop_len = Some (word_of_nat (length p))\<rparr>,
            rb\<lparr>tail := tail rb + word_of_nat (5 + length p)\<rparr>)"
    and "ring_holds (snd (ring_pop rb has cap)) fs"
proof -
  let ?T = "unat (tail rb)" and ?b = "frame_bytes (t, p)"
  have ok: "length p \<le> 67108864" using h by (simp add: ring_holds_def frame_ok_def)
  have H: "unat (head rb) = ?T + (5 + length p + length (stream fs))"
    using h by (simp add: ring_holds_def)
  have lt: "?T + (5 + length p) < 2 ^ 64"
  proof -
    have "unat (head rb) < 2 ^ LENGTH(64)" by (rule unsigned_less)
    with H show ?thesis by simp
  qed
  have mem: "payload rb ((?T + i) mod RN) = ?b ! i" if "i < 5 + length p" for i
    using h that by (simp add: ring_holds_def nth_append)
  have ne: "head rb \<noteq> tail rb" using H by auto
  have total: "ring_read_u32 rb (tail rb) = frame_total p"
  proof (rule ring_read_u32_eq)
    fix i :: nat assume "i < 4"
    then show "payload rb ((?T + i) mod RN) = le_bytes (frame_total p) ! i"
      using mem[of i] by (simp add: frame_bytes_def nth_append)
  qed
  have u: "unat (frame_total p) = 5 + length p" using ok by (rule unat_frame_total)
  have range: "\<not> (frame_total p < RING_LEN_PREFIX + 1 \<or>
                   frame_total p > RING_FRAME_MAX + RING_LEN_PREFIX + 1)"
    using ok by (simp add: word_less_nat_alt u RING_LEN_PREFIX_def RING_FRAME_MAX_def)
  have committed: "\<not> head rb - tail rb < ucast (frame_total p)"
    using used_eq[OF h] ok lt
    by (simp add: word_less_nat_alt ucast_frame_total unat_of_nat del: of_nat_add)
  have t4: "unat (tail rb + 4) = ?T + 4" and t5: "unat (tail rb + 5) = ?T + 5"
    using unat_add64[of "tail rb" 4] unat_add64[of "tail rb" 5] lt by simp_all
  have plen: "frame_total p - RING_LEN_PREFIX - 1 = word_of_nat (length p)"
    by (simp add: frame_total_def)
  have up: "unat (word_of_nat (length p) :: u32) = length p"
    using ok by (subst unat_of_nat, subst mod_less) simp_all
  have ty: "ring_read_bytes rb (tail rb + 4) 1 ! 0 = t"
    using mem[of 4] by (simp add: ring_read_bytes_eq t4 frame_bytes_def nth_append)
  have body: "ring_read_bytes rb (tail rb + 5) (length p) = p"
  proof (rule nth_equalityI)
    fix i assume "i < length (ring_read_bytes rb (tail rb + 5) (length p))"
    then have "i < length p" using ok by (simp add: ring_read_bytes_eq)
    then show "ring_read_bytes rb (tail rb + 5) (length p) ! i = p ! i"
      using mem[of "5 + i"] ok
      by (simp add: ring_read_bytes_eq t5 frame_bytes_def nth_append add.assoc)
  qed (use ok in \<open>simp add: ring_read_bytes_eq\<close>)
  have pos: "(word_of_nat (length p) > (0::u32)) = (p \<noteq> [])"
    by (metis length_0_conv unat_0 up unat_gt_0 word_gt_0)
  have cap: "(word_of_nat (length p) \<le> cap) = (length p \<le> unat cap)"
    by (simp add: word_le_nat_alt up)
  have a5: "tail rb + 4 + 1 = tail rb + 5" by simp
  show eq: "ring_pop rb has cap =
           (\<lparr>pop_ret = frame_total p, pop_type = Some t,
             pop_payload = (if has \<and> p \<noteq> [] \<and> length p \<le> unat cap then Some p else None),
             pop_len = Some (word_of_nat (length p))\<rparr>,
            rb\<lparr>tail := tail rb + word_of_nat (5 + length p)\<rparr>)"
    using ne committed [unfolded ucast_frame_total [OF ok]]
    by (simp only: ring_pop_def Let_def total range if_False plen up pos cap
        ucast_prefix a5 ty body ucast_frame_total [OF ok])
  have "unat (tail rb + word_of_nat (5 + length p)) = ?T + (5 + length p)"
    using lt by (rule unat_add64)
  then show "ring_holds (snd (ring_pop rb has cap)) fs"
    unfolding eq using h H
    by (auto simp: ring_holds_def nth_append add.assoc simp del: of_nat_add
        dest!: spec[of _ "5 + length p + _"])
qed

section \<open>The interface: a bounded queue\<close>

text \<open>
  A queue client sees operations and answers.  \<open>run_queue\<close> threads a state through a sequence of
  operations and collects the answers: whether an element was accepted, what came out.
\<close>

datatype 'a queue_op = Enq 'a | Deq

datatype 'a queue_ans = Accepted bool | Got "'a option"

fun run_queue :: "('s \<Rightarrow> 'a \<Rightarrow> bool \<times> 's) \<Rightarrow> ('s \<Rightarrow> 'a option \<times> 's) \<Rightarrow> 's \<Rightarrow> 'a queue_op list \<Rightarrow> 'a queue_ans list \<times> 's" where
  "run_queue enq deq s [] = ([], s)"
| "run_queue enq deq s (Enq x # ops) =
     (let (ok, s') = enq s x; (as, s'') = run_queue enq deq s' ops in (Accepted ok # as, s''))"
| "run_queue enq deq s (Deq # ops) =
     (let (r, s') = deq s; (as, s'') = run_queue enq deq s' ops in (Got r # as, s''))"

text \<open>The abstract queue: a list of bounded total weight.\<close>

definition list_enq :: "('a \<Rightarrow> nat) \<Rightarrow> nat \<Rightarrow> 'a list \<Rightarrow> 'a \<Rightarrow> bool \<times> 'a list" where
  "list_enq w bound xs x = (if sum_list (map w xs) + w x \<le> bound then (True, xs @ [x]) else (False, xs))"

definition list_deq :: "'a list \<Rightarrow> 'a option \<times> 'a list" where
  "list_deq xs = (case xs of [] \<Rightarrow> (None, []) | x # ys \<Rightarrow> (Some x, ys))"

fun ops_weight :: "('a \<Rightarrow> nat) \<Rightarrow> 'a queue_op list \<Rightarrow> nat" where
  "ops_weight w [] = 0"
| "ops_weight w (Enq x # ops) = w x + ops_weight w ops"
| "ops_weight w (Deq # ops) = ops_weight w ops"

text \<open>
  The contract of the provider.  \<open>rel n s xs\<close>: the state \<open>s\<close> stores \<open>xs\<close> and has \<open>n\<close> units of
  position left before its counters wrap.
\<close>

locale bounded_queue =
  fixes enq :: "'s \<Rightarrow> 'a \<Rightarrow> bool \<times> 's"
    and deq :: "'s \<Rightarrow> 'a option \<times> 's"
    and rel :: "nat \<Rightarrow> 's \<Rightarrow> 'a list \<Rightarrow> bool"
    and ok :: "'a \<Rightarrow> bool"
    and w :: "'a \<Rightarrow> nat"
    and bound :: nat
  assumes enq_full: "rel n s xs \<Longrightarrow> ok x \<Longrightarrow> bound < sum_list (map w xs) + w x \<Longrightarrow> enq s x = (False, s)"
    and enq_fits: "rel n s xs \<Longrightarrow> ok x \<Longrightarrow> sum_list (map w xs) + w x \<le> bound \<Longrightarrow> w x \<le> n \<Longrightarrow>
                   fst (enq s x) \<and> rel (n - w x) (snd (enq s x)) (xs @ [x])"
    and deq_empty: "rel n s [] \<Longrightarrow> deq s = (None, s)"
    and deq_first: "rel n s (x # xs) \<Longrightarrow> fst (deq s) = Some x \<and> rel n (snd (deq s)) xs"
    and rel_less: "rel n s xs \<Longrightarrow> m \<le> n \<Longrightarrow> rel m s xs"
begin

lemma enq_step:
  assumes "rel n s xs" "ok x" "w x \<le> n"
  shows "fst (enq s x) = fst (list_enq w bound xs x) \<and>
         rel (n - w x) (snd (enq s x)) (snd (list_enq w bound xs x))"
proof (cases "sum_list (map w xs) + w x \<le> bound")
  case True
  then show ?thesis using enq_fits[OF assms(1,2) True assms(3)] by (simp add: list_enq_def)
next
  case False
  then show ?thesis using enq_full[OF assms(1,2)] rel_less[OF assms(1)] by (simp add: list_enq_def)
qed

lemma deq_step:
  "rel n s xs \<Longrightarrow> fst (deq s) = fst (list_deq xs) \<and> rel n (snd (deq s)) (snd (list_deq xs))"
  by (cases xs) (auto simp: list_deq_def deq_empty dest: deq_first)

lemma refines:
  assumes "rel n s xs" "\<And>x. Enq x \<in> set ops \<Longrightarrow> ok x" "ops_weight w ops \<le> n"
  shows "fst (run_queue enq deq s ops) = fst (run_queue (list_enq w bound) list_deq xs ops)"
  using assms
proof (induction ops arbitrary: n s xs)
  case (Cons a ops)
  show ?case
  proof (cases a)
    case (Enq x)
    have "fst (enq s x) = fst (list_enq w bound xs x)"
      and "rel (n - w x) (snd (enq s x)) (snd (list_enq w bound xs x))"
      using enq_step[of n s xs x] Cons.prems Enq by simp_all
    moreover from this(2) have "fst (run_queue enq deq (snd (enq s x)) ops) =
        fst (run_queue (list_enq w bound) list_deq (snd (list_enq w bound xs x)) ops)"
      by (rule Cons.IH) (use Cons.prems Enq in auto)
    ultimately show ?thesis by (simp add: Enq case_prod_beta)
  next
    case Deq
    have "fst (deq s) = fst (list_deq xs)" and "rel n (snd (deq s)) (snd (list_deq xs))"
      using deq_step[of n s xs] Cons.prems by simp_all
    moreover from this(2) have "fst (run_queue enq deq (snd (deq s)) ops) =
        fst (run_queue (list_enq w bound) list_deq (snd (list_deq xs)) ops)"
      by (rule Cons.IH) (use Cons.prems Deq in auto)
    ultimately show ?thesis by (simp add: Deq case_prod_beta)
  qed
qed simp

end

section \<open>The ring provides the interface\<close>

definition push_frame_op :: "ring \<Rightarrow> u8 \<times> u8 list \<Rightarrow> bool \<times> ring" where
  "push_frame_op rb f = ring_push rb (fst f) (snd f) (word_of_nat (length (snd f)))"

text \<open>A pop with a payload buffer of \<open>cap\<close> bytes, its results read the way a caller does.\<close>

definition pop_frame_op :: "u32 \<Rightarrow> ring \<Rightarrow> (u8 \<times> u8 list) option \<times> ring" where
  "pop_frame_op bufsize rb =
     (let (r, rb') = ring_pop rb True bufsize in
      (if pop_ret r = 0 then None
       else map_option (\<lambda>t. (t, case pop_payload r of Some p \<Rightarrow> p | None \<Rightarrow> [])) (pop_type r), rb'))"

definition frame_size :: "u8 \<times> u8 list \<Rightarrow> nat" where
  "frame_size f = 5 + length (snd f)"

definition ring_rel :: "nat \<Rightarrow> ring \<Rightarrow> (u8 \<times> u8 list) list \<Rightarrow> bool" where
  "ring_rel n rb fs \<longleftrightarrow> ring_holds rb fs \<and> unat (head rb) + n < 2 ^ 64"

lemma length_stream: "length (stream fs) = sum_list (map frame_size fs)"
  by (induction fs) (simp_all add: frame_size_def)

lemma frame_total_nonzero [simp]: "length p \<le> 67108864 \<Longrightarrow> frame_total p \<noteq> 0"
  using unat_frame_total[of p] by (auto simp del: unat_eq_0)

interpretation rq: bounded_queue push_frame_op "pop_frame_op 67108864" ring_rel frame_ok frame_size RN
proof unfold_locales
  fix n rb xs x
  assume "ring_rel n rb xs" "frame_ok x" "RN < sum_list (map frame_size xs) + frame_size x"
  then show "push_frame_op rb x = (False, rb)"
    using push_full[of rb xs "snd x" "fst x"]
    by (simp add: ring_rel_def frame_ok_def push_frame_op_def length_stream frame_size_def)
next
  fix n rb xs x
  assume "ring_rel n rb xs" "frame_ok x" "sum_list (map frame_size xs) + frame_size x \<le> RN"
    and "frame_size x \<le> n"
  then have h: "ring_holds rb xs" and nw: "unat (head rb) + n < 2 ^ 64" and l: "length (snd x) \<le> 67108864"
    and f: "length (stream xs) + (5 + length (snd x)) \<le> RN"
    and n: "unat (head rb) + (5 + length (snd x)) < 2 ^ 64" "5 + length (snd x) \<le> n"
    by (simp_all add: ring_rel_def frame_ok_def length_stream frame_size_def)
  show "fst (push_frame_op rb x) \<and> ring_rel (n - frame_size x) (snd (push_frame_op rb x)) (xs @ [x])"
    using push_fits(2)[OF h l f n(1), of "fst x"] n(2) nw
    by (simp add: push_frame_op_def push_fits(1)[OF h l f n(1)] ring_rel_def frame_size_def
        unat_add64[OF n(1)] del: of_nat_add)
next
  fix n rb assume "ring_rel n rb []"
  then have "head rb = tail rb" by (simp add: ring_rel_def ring_holds_def word_unat_eq_iff)
  then show "pop_frame_op 67108864 rb = (None, rb)" by (simp add: pop_frame_op_def pop_empty no_pop_def)
next
  fix n rb x xs assume r: "ring_rel n rb (x # xs)"
  obtain t p where x: "x = (t, p)" by (cases x)
  have h: "ring_holds rb ((t, p) # xs)" and l: "length p \<le> 67108864"
    using r by (simp_all add: ring_rel_def x ring_holds_def frame_ok_def)
  show "fst (pop_frame_op 67108864 rb) = Some x \<and> ring_rel n (snd (pop_frame_op 67108864 rb)) xs"
    using pop_first(2)[OF h, of True 67108864] r l
    by (simp add: pop_frame_op_def pop_first(1)[OF h] x ring_rel_def)
qed (simp add: ring_rel_def)

lemma empty_ring_rel [simp]: "n < 2 ^ 64 \<Longrightarrow> ring_rel n empty_ring []"
  by (simp add: ring_rel_def ring_holds_def empty_ring_def)

section \<open>Properties\<close>

text \<open>
  A ring whose next length prefix is corrupt: at least the four bytes of the prefix are committed,
  and they do not hold the size of a frame.
\<close>

definition ring_corrupt :: "ring \<Rightarrow> bool" where
  "ring_corrupt rb \<longleftrightarrow>
     unat (tail rb) + 4 \<le> unat (head rb) \<and> unat (head rb) \<le> unat (tail rb) + RN \<and>
     (ring_read_u32 rb (tail rb) < RING_LEN_PREFIX + 1 \<or>
      ring_read_u32 rb (tail rb) > RING_FRAME_MAX + RING_LEN_PREFIX + 1)"

lemma corrupt_pop: "ring_corrupt rb \<Longrightarrow> ring_pop rb has cap = (no_pop, rb)"
  by (auto simp: ring_corrupt_def ring_pop_def Let_def)

lemma read_u32_cong:
  assumes "\<And>i. i < 4 \<Longrightarrow> payload rb ((unat pos + i) mod RN) = payload rb' ((unat pos + i) mod RN)"
  shows "ring_read_u32 rb pos = ring_read_u32 rb' pos"
  using assms[of 0] assms[of 1] assms[of 2] assms[of 3]
  by (simp add: ring_read_u32_def Let_def ring_index_eq)

lemma corrupt_push:
  fixes t :: u8
  assumes c: "ring_corrupt rb" and ok: "length p \<le> 67108864"
    and nowrap: "unat (head rb) + (5 + length p) < 2 ^ 64"
    and rb'_def: "rb' = snd (ring_push rb t p (word_of_nat (length p)))"
  shows "ring_corrupt rb' \<and> unat (head rb') \<le> unat (head rb) + (5 + length p)"
proof (cases "(head rb - tail rb) + ucast (frame_total p) > RING_PAYLOAD_SIZE")
  case True
  then have "rb' = rb" by (simp add: rb'_def ring_push_def Let_def frame_total_def)
  with c show ?thesis by simp
next
  case False
  let ?U = "unat (head rb) - unat (tail rb)"
  have U: "unat (head rb) = unat (tail rb) + ?U" "?U \<le> RN" "4 \<le> ?U" "unat (head rb - tail rb) = ?U"
    using c by (auto simp: ring_corrupt_def unat_sub_if')
  have fit: "?U + (5 + length p) \<le> RN"
  proof -
    have "unat ((head rb - tail rb) + word_of_nat (5 + length p)) = ?U + (5 + length p)"
      using U ok by (subst unat_add64) (simp_all add: RN_def)
    then show ?thesis
      using False by (simp only: not_less word_le_nat_alt ucast_frame_total[OF ok] unat_payload_size)
  qed
  have u: "unat (word_of_nat (length p) :: u32) = length p"
    using ok by (subst unat_of_nat, subst mod_less) simp_all
  have m: "\<not> (word_of_nat (length p) > RING_FRAME_MAX)"
    using ok by (simp add: word_less_nat_alt RING_FRAME_MAX_def u)
  have n5: "unat (head rb) + 5 < 2 ^ 64" using nowrap by simp
  have rb': "rb' = rb\<lparr>payload := wr (payload rb) (unat (head rb)) (frame_bytes (t, p)),
                      head := head rb + word_of_nat (5 + length p)\<rparr>"
    using push_writes[OF ok n5, of p t]
    by (simp only: rb'_def ring_push_def Let_def frame_total_def [symmetric] m
        False [unfolded ucast_frame_total [OF ok]] if_False u
        take_all [OF order.refl] ucast_frame_total [OF ok] snd_conv order.refl simp_thms)
  have "ring_read_u32 rb' (tail rb) = ring_read_u32 rb (tail rb)"
  proof (rule read_u32_cong)
    fix i :: nat assume i: "i < 4"
    show "payload rb' ((unat (tail rb) + i) mod RN) = payload rb ((unat (tail rb) + i) mod RN)"
      unfolding rb' ring.simps
    proof (simp, rule wr_outside)
      fix j assume "j < length (frame_bytes (t, p))"
      moreover have "(unat (tail rb) + (?U + j)) mod RN \<noteq> (unat (tail rb) + i) mod RN"
        if "j < 5 + length p" using mod_RN_inj[of "?U + j" i "unat (tail rb)"] fit U(3) i that by auto
      ultimately show "(unat (head rb) + j) mod RN \<noteq> (unat (tail rb) + i) mod RN"
        using U(1) by (simp add: add.assoc [symmetric])
    qed
  qed
  moreover have "unat (head rb') = unat (head rb) + (5 + length p)"
    using unat_add64[OF nowrap] by (simp add: rb' del: of_nat_add)
  moreover have "tail rb' = tail rb" by (simp add: rb')
  ultimately show ?thesis using c fit U by (auto simp: ring_corrupt_def)
qed

text \<open>
  a corrupt length prefix blocks the ring for good.  As long as the positions do not wrap,
  whatever frames the producer pushes and however often the consumer pops, every pop answers
  that there is nothing, because the code leaves the tail in front of the bad prefix.
\<close>

theorem corrupt_frame_blocks:
  assumes "ring_corrupt rb" and "\<forall>f. Enq f \<in> set ops \<longrightarrow> length (snd f) \<le> 67108864"
    and "unat (head rb) + ops_weight frame_size ops < 2 ^ 64"
    and "Got r \<in> set (fst (run_queue push_frame_op (pop_frame_op bufsize) rb ops))"
  shows "r = None"
  using assms
proof (induction ops arbitrary: rb)
  case (Cons a ops)
  show ?case
  proof (cases a)
    case (Enq f)
    have "ring_corrupt (snd (push_frame_op rb f)) \<and>
          unat (head (snd (push_frame_op rb f))) \<le> unat (head rb) + (5 + length (snd f))"
      unfolding push_frame_op_def
      using Cons.prems(1) Cons.prems(2)[rule_format, of f] Cons.prems(3) Enq
      by (intro corrupt_push[OF _ _ _ refl]) (auto simp: frame_size_def)
    then show ?thesis
      using Cons.prems Enq
      by (intro Cons.IH[of "snd (push_frame_op rb f)"]) (auto simp: case_prod_beta frame_size_def)
  next
    case Deq
    have "pop_frame_op bufsize rb = (None, rb)"
      using corrupt_pop[OF Cons.prems(1)] by (simp add: pop_frame_op_def no_pop_def)
    then have "Got r \<in> set (fst (run_queue push_frame_op (pop_frame_op bufsize) rb ops)) \<or> r = None"
      using Cons.prems(4) Deq by (auto simp: case_prod_beta)
    then show ?thesis using Cons.prems Deq Cons.IH[of rb] by auto
  qed
qed simp

theorem corrupt_frame_blocks_witness:
  "let rb = \<lparr>head = 4, tail = 0, payload = (\<lambda>_. 0)\<rparr> in
   \<forall>r. Got r \<in> set (fst (run_queue push_frame_op (pop_frame_op 64) rb [Enq (1, [5]), Deq, Deq])) \<longrightarrow> r = None"
proof -
  have c: "ring_corrupt \<lparr>head = 4, tail = 0, payload = (\<lambda>_. 0)\<rparr>"
    by (simp add: ring_corrupt_def RN_def ring_read_u32_def Let_def RING_LEN_PREFIX_def)
  show ?thesis
    unfolding Let_def
    using corrupt_frame_blocks[OF c, of "[Enq (1, [5]), Deq, Deq]" _ 64] by (auto simp: frame_size_def)
qed

text \<open>
  the length field of a pushed frame counts the whole frame: reading the prefix at the old
  head after a successful push gives the prefix, the type byte and the payload together
  (\<^verbatim>\<open>dragon_ring.h\<close> describes the field as the length of what follows it).
\<close>

theorem push_length_field:
  assumes "ring_holds rb fs" and "length p \<le> 67108864"
    and "length (stream fs) + (5 + length p) \<le> unat RING_PAYLOAD_SIZE"
    and "unat (head rb) + (5 + length p) < 2 ^ 64"
  shows "unat (ring_read_u32 (snd (ring_push rb t p (word_of_nat (length p)))) (head rb))
           = 4 + 1 + length p"
proof -
  let ?m = "wr (payload rb) (unat (head rb)) (frame_bytes (t, p))"
  have "ring_read_u32 (rb\<lparr>payload := ?m, head := x\<rparr>) (head rb) = frame_total p" for x
  proof (rule ring_read_u32_eq)
    fix i :: nat assume i: "i < 4"
    have "?m ((unat (head rb) + i) mod RN) = frame_bytes (t, p) ! i"
      using assms i by (intro wr_inside) auto
    with i show "payload (rb\<lparr>payload := ?m, head := x\<rparr>) ((unat (head rb) + i) mod RN)
                  = le_bytes (frame_total p) ! i"
      by (simp add: frame_bytes_def nth_append)
  qed
  then show ?thesis
    using push_fits(1)[OF assms(1,2) _ assms(4), of t] assms(3) unat_frame_total[OF assms(2)] by simp
qed

theorem push_length_field_witness:
  "unat (ring_read_u32 (snd (ring_push empty_ring 9 [1, 2, 3] 3)) 0) = 8"
proof -
  have h: "ring_holds empty_ring []" by (simp add: ring_holds_def empty_ring_def)
  show ?thesis
    using push_length_field[OF h, of "[1, 2, 3]" 9] by (simp add: empty_ring_def RN_def)
qed

text \<open>
  C6: starting from the empty ring, any sequence of pushes of frames up to the 64 MiB limit and
  of pops into a 64 MiB buffer gives exactly the answers of a FIFO queue whose frames take
  5 bytes plus their payload and whose capacity is the payload area: nothing is lost, reordered
  or altered, a push is refused exactly when the frame does not fit, and a pop of an empty ring
  finds nothing.  The 64-bit positions must not wrap (the payload area does not divide
  \<open>2 ^ 64\<close>), so the frames sent in total stay below \<open>2 ^ 64\<close> bytes.
\<close>

theorem ring_refines_queue:
  assumes "\<forall>f. Enq f \<in> set ops \<longrightarrow> length (snd f) \<le> 67108864"
    and "ops_weight frame_size ops < 2 ^ 64"
  shows "fst (run_queue push_frame_op (pop_frame_op 67108864) empty_ring ops) =
         fst (run_queue (list_enq frame_size (unat RING_PAYLOAD_SIZE)) list_deq [] ops)"
  using rq.refines[OF empty_ring_rel[OF assms(2)], of ops] assms(1)
  by (simp add: frame_ok_def)

theorem ring_refines_queue_witness:
  "fst (run_queue push_frame_op (pop_frame_op 67108864) empty_ring [Enq (3, [1, 2]), Enq (4, []), Deq, Deq, Deq]) =
     [Accepted True, Accepted True, Got (Some (3, [1, 2])), Got (Some (4, [])), Got None]"
  by (subst ring_refines_queue) (auto simp: frame_size_def list_enq_def list_deq_def RN_def)

text \<open>
  a pop of a ring that stores a frame removes it whatever the receiving buffer, reports its
  size and type, and copies its payload only into a buffer that is large enough: a payload larger
  than the capacity is discarded, with a return value that signals success.
\<close>

theorem pop_discards_oversized:
  assumes "ring_holds rb ((t, p) # fs)" and "unat bufsize < length p"
  shows "\<exists>rb'. ring_pop rb has_payload_out bufsize =
            (\<lparr>pop_ret = frame_total p, pop_type = Some t, pop_payload = None,
              pop_len = Some (word_of_nat (length p))\<rparr>, rb')
          \<and> frame_total p \<noteq> 0 \<and> ring_holds rb' fs"
proof -
  have "length p \<le> 67108864" using assms(1) by (simp add: ring_holds_def frame_ok_def)
  then show ?thesis
    using pop_first[OF assms(1), of has_payload_out bufsize] assms(2) by auto
qed

theorem pop_discards_oversized_witness:
  "\<exists>rb r rb'. ring_holds rb [(6, [7, 8, 9])] \<and> ring_pop rb True 2 = (r, rb') \<and> pop_ret r = 8 \<and> pop_payload r = None \<and> ring_holds rb' []"
proof -
  have e: "ring_holds empty_ring []" by (simp add: ring_holds_def empty_ring_def)
  have h: "ring_holds (snd (ring_push empty_ring 6 [7, 8, 9] 3)) [(6, [7, 8, 9])]"
    using push_fits(2)[OF e, of "[7, 8, 9]" 6] by (simp add: RN_def empty_ring_def)
  show ?thesis
    using h pop_discards_oversized[OF h, of 2 True] by (auto simp: frame_total_def RING_LEN_PREFIX_def)
qed

end
