(* ===== verification/Dragon_Hub.thy ===== *)
theory Dragon_Hub
  imports Dragon_Ring
begin

unbundle bit_operations_syntax

text \<open>
  The shared pool and the process side of it: \<^verbatim>\<open>src/include/dragon_map.h\<close> (layout, health bits,
  status codes, the \<^verbatim>\<open>DragonMap\<close> header and its helpers) and \<^verbatim>\<open>src/src/dragoncache.cpp\<close> (class
  \<^verbatim>\<open>Hub\<close>).  The pool is the mapped file: its header and its two rings.  What \<^verbatim>\<open>stat\<close>, \<^verbatim>\<open>open\<close> and
  \<^verbatim>\<open>mmap\<close> answer is an argument of \<open>attach\<close>.  Every operation of the hub holds the hub's mutex for
  its whole body, so an operation is one step.
\<close>

section \<open>Layout of the pool\<close>

definition PAGE_2M :: u64 where "PAGE_2M = 2 * 1024 * 1024"
definition HEADER_OFFSET :: u64 where "HEADER_OFFSET = 0"
definition HEADER_SIZE :: u64 where "HEADER_SIZE = 16 * 1024 * 1024"
definition MODULE_OFFSET :: u64 where "MODULE_OFFSET = HEADER_OFFSET + HEADER_SIZE"
definition MODULE_SIZE :: u64 where "MODULE_SIZE = 1 * 1024 * 1024 * 1024"
definition MODULE_SLOT_REGION_OFFSET :: u64 where "MODULE_SLOT_REGION_OFFSET = 0"
definition MODULE_SLOT_REGION_SIZE :: u64 where "MODULE_SLOT_REGION_SIZE = 512 * 1024"
definition SLOT_DRAGONMAP :: u64 where "SLOT_DRAGONMAP = 0"
definition SLOT_SERVICE_STATE :: u64 where "SLOT_SERVICE_STATE = 0x000100"
definition SLOT_VALUE_STATE :: u64 where "SLOT_VALUE_STATE = 0x000300"
definition SLOT_MEMORY_STATE :: u64 where "SLOT_MEMORY_STATE = 0x000500"
definition TX_RING_OFFSET :: u64 where "TX_RING_OFFSET = MODULE_SLOT_REGION_SIZE"
definition TX_RING_SIZE :: u64 where "TX_RING_SIZE = 256 * 1024 * 1024"
definition RX_RING_OFFSET :: u64 where "RX_RING_OFFSET = TX_RING_OFFSET + TX_RING_SIZE"
definition RX_RING_SIZE :: u64 where "RX_RING_SIZE = 256 * 1024 * 1024"
definition WORK_AREA_OFFSET :: u64 where "WORK_AREA_OFFSET = RX_RING_OFFSET + RX_RING_SIZE"
definition WORK_AREA_SIZE :: u64 where "WORK_AREA_SIZE = MODULE_SIZE - WORK_AREA_OFFSET"
definition MODEL_QWEN_PAGES :: u64 where "MODEL_QWEN_PAGES = 607"
definition MODEL_MMPROJ_PAGES :: u64 where "MODEL_MMPROJ_PAGES = 635"
definition TOTAL_POOL_SIZE :: u64 where "TOTAL_POOL_SIZE = 1040 * 1024 * 1024"
definition TOTAL_CARVE_PAGES :: u64 where
  "TOTAL_CARVE_PAGES = TOTAL_POOL_SIZE div PAGE_2M + MODEL_QWEN_PAGES + MODEL_MMPROJ_PAGES"

definition ADDR_SERVICE_STATE :: u64 where "ADDR_SERVICE_STATE = MODULE_OFFSET + SLOT_SERVICE_STATE"
definition ADDR_VALUE_STATE :: u64 where "ADDR_VALUE_STATE = MODULE_OFFSET + SLOT_VALUE_STATE"
definition ADDR_MEMORY_STATE :: u64 where "ADDR_MEMORY_STATE = MODULE_OFFSET + SLOT_MEMORY_STATE"
definition ADDR_TX_RING :: u64 where "ADDR_TX_RING = MODULE_OFFSET + TX_RING_OFFSET"
definition ADDR_RX_RING :: u64 where "ADDR_RX_RING = MODULE_OFFSET + RX_RING_OFFSET"

text \<open>Health bits and status codes.\<close>

definition SPOKE_IDENTITY_SERVICE :: u32 where "SPOKE_IDENTITY_SERVICE = push_bit 0 1"
definition SPOKE_VALUE_ENGINE :: u32 where "SPOKE_VALUE_ENGINE = push_bit 1 1"
definition SPOKE_MEMORY_MODULE :: u32 where "SPOKE_MEMORY_MODULE = push_bit 2 1"
definition SPOKE_CORTEX :: u32 where "SPOKE_CORTEX = push_bit 3 1"
definition SPOKE_VOICE :: u32 where "SPOKE_VOICE = push_bit 4 1"
definition SPOKE_TX_RING :: u32 where "SPOKE_TX_RING = push_bit 5 1"
definition SPOKE_RX_RING :: u32 where "SPOKE_RX_RING = push_bit 6 1"
definition SPOKE_ALL :: u32 where "SPOKE_ALL = 0x000000FF"

definition STATUS_OFFLINE :: u32 where "STATUS_OFFLINE = 0"
definition STATUS_LIVE :: u32 where "STATUS_LIVE = 1"
definition STATUS_DEGRADED :: u32 where "STATUS_DEGRADED = 2"
definition STATUS_BOOTING :: u32 where "STATUS_BOOTING = 3"

definition DRAGON_MAGIC :: u64 where "DRAGON_MAGIC = 0x4C494E4143415256"

lemmas layout_defs =
  PAGE_2M_def HEADER_OFFSET_def HEADER_SIZE_def MODULE_OFFSET_def MODULE_SIZE_def
  MODULE_SLOT_REGION_OFFSET_def MODULE_SLOT_REGION_SIZE_def SLOT_DRAGONMAP_def
  SLOT_SERVICE_STATE_def SLOT_VALUE_STATE_def SLOT_MEMORY_STATE_def TX_RING_OFFSET_def
  TX_RING_SIZE_def RX_RING_OFFSET_def RX_RING_SIZE_def WORK_AREA_OFFSET_def WORK_AREA_SIZE_def
  MODEL_QWEN_PAGES_def MODEL_MMPROJ_PAGES_def TOTAL_POOL_SIZE_def TOTAL_CARVE_PAGES_def
  ADDR_SERVICE_STATE_def ADDR_VALUE_STATE_def ADDR_MEMORY_STATE_def ADDR_TX_RING_def ADDR_RX_RING_def

section \<open>The header\<close>

record dragon_map =
  global_clock :: u64
  system_status :: u32
  spoke_health :: u32
  magic :: u64

definition new_dragon_map :: dragon_map where
  "new_dragon_map = \<lparr>global_clock = 0, system_status = STATUS_OFFLINE, spoke_health = 0,
                     magic = DRAGON_MAGIC\<rparr>"

definition tick :: "dragon_map \<Rightarrow> dragon_map" where
  "tick dm = dm\<lparr>global_clock := global_clock dm + 1\<rparr>"

definition dragonmap_set_live :: "dragon_map \<Rightarrow> dragon_map" where
  "dragonmap_set_live dm = tick (dm\<lparr>system_status := STATUS_LIVE\<rparr>)"

definition dragonmap_spoke_ready :: "dragon_map \<Rightarrow> u32 \<Rightarrow> dragon_map" where
  "dragonmap_spoke_ready dm spoke_bit = tick (dm\<lparr>spoke_health := spoke_health dm OR spoke_bit\<rparr>)"

definition dragonmap_spoke_offline :: "dragon_map \<Rightarrow> u32 \<Rightarrow> dragon_map" where
  "dragonmap_spoke_offline dm spoke_bit = tick (dm\<lparr>spoke_health := spoke_health dm AND NOT spoke_bit\<rparr>)"

definition dragonmap_clock :: "dragon_map \<Rightarrow> u64" where "dragonmap_clock dm = global_clock dm"
definition dragonmap_spokes :: "dragon_map \<Rightarrow> u32" where "dragonmap_spokes dm = spoke_health dm"
definition dragonmap_status :: "dragon_map \<Rightarrow> u32" where "dragonmap_status dm = system_status dm"

section \<open>The hub\<close>

text \<open>
  The pool file in shared memory, and the hub's members: a pointer is its offset from the mapping
  (\<open>None\<close>: \<^verbatim>\<open>nullptr\<close>).
\<close>

record pool =
  hdr :: dragon_map
  tx_region :: ring
  rx_region :: ring

record hub =
  fd :: int
  base :: "u64 option"
  tx :: "u64 option"
  rx :: "u64 option"

definition new_hub :: hub where
  "new_hub = \<lparr>fd = -1, base = None, tx = None, rx = None\<rparr>"

text \<open>What the operating system answers during one \<^verbatim>\<open>attach\<close>.\<close>

record os_answers =
  os_stat_size :: "int option"
  os_open_fd :: int
  os_mmap_base :: "u64 option"

definition attached :: "hub \<Rightarrow> bool" where "attached h = (base h \<noteq> None)"

definition attach :: "os_answers \<Rightarrow> pool \<Rightarrow> hub \<Rightarrow> bool \<times> hub" where
  "attach os p h =
     (if base h \<noteq> None then (True, h) else
      case os_stat_size os of None \<Rightarrow> (False, h) | Some st_size \<Rightarrow>
      if st_size < uint TOTAL_POOL_SIZE then (False, h) else
      if os_open_fd os < 0 then (False, h) else
      case os_mmap_base os of None \<Rightarrow> (False, h) | Some b \<Rightarrow>
      if magic (hdr p) \<noteq> DRAGON_MAGIC then (False, h) else
      (True, h\<lparr>fd := os_open_fd os, base := Some b,
               tx := Some (b + ADDR_TX_RING), rx := Some (b + ADDR_RX_RING)\<rparr>))"

definition detach :: "hub \<Rightarrow> hub" where
  "detach h =
     (let h1 = (if base h \<noteq> None then h\<lparr>base := None\<rparr> else h);
          h2 = (if fd h1 \<ge> 0 then h1\<lparr>fd := -1\<rparr> else h1)
      in h2\<lparr>tx := None, rx := None\<rparr>)"

definition set_status :: "hub \<Rightarrow> u32 \<Rightarrow> pool \<Rightarrow> pool" where
  "set_status h status p =
     (if base h = None then p else p\<lparr>hdr := tick ((hdr p)\<lparr>system_status := status\<rparr>)\<rparr>)"

definition spoke_ready :: "hub \<Rightarrow> u32 \<Rightarrow> pool \<Rightarrow> pool" where
  "spoke_ready h spoke_bit p =
     (if base h \<noteq> None then p\<lparr>hdr := dragonmap_spoke_ready (hdr p) spoke_bit\<rparr> else p)"

definition spoke_offline :: "hub \<Rightarrow> u32 \<Rightarrow> pool \<Rightarrow> pool" where
  "spoke_offline h spoke_bit p =
     (if base h \<noteq> None then p\<lparr>hdr := dragonmap_spoke_offline (hdr p) spoke_bit\<rparr> else p)"

definition hub_clock :: "hub \<Rightarrow> pool \<Rightarrow> u64" where
  "hub_clock h p = (if base h \<noteq> None then dragonmap_clock (hdr p) else 0)"

definition hub_status :: "hub \<Rightarrow> pool \<Rightarrow> u32" where
  "hub_status h p = (if base h \<noteq> None then dragonmap_status (hdr p) else STATUS_OFFLINE)"

definition hub_spokes :: "hub \<Rightarrow> pool \<Rightarrow> u32" where
  "hub_spokes h p = (if base h \<noteq> None then dragonmap_spokes (hdr p) else 0)"

text \<open>
  The ring behind a pointer: the pointers the hub stores are the two ring addresses of its own
  mapping.
\<close>

definition hub_push_frame :: "hub \<Rightarrow> bool \<Rightarrow> u8 \<Rightarrow> u8 list \<Rightarrow> u32 \<Rightarrow> pool \<Rightarrow> bool \<times> pool" where
  "hub_push_frame h use_tx type data payload_len p =
     (if base h = None then (False, p) else
      if (if use_tx then tx h else rx h) = None then (False, p) else
      if use_tx
      then (let (ok, r) = ring_push (tx_region p) type data payload_len in (ok, p\<lparr>tx_region := r\<rparr>))
      else (let (ok, r) = ring_push (rx_region p) type data payload_len in (ok, p\<lparr>rx_region := r\<rparr>)))"

definition hub_pop_frame :: "hub \<Rightarrow> bool \<Rightarrow> bool \<Rightarrow> u32 \<Rightarrow> pool \<Rightarrow> popped \<times> pool" where
  "hub_pop_frame h use_tx has_payload_out payload_cap p =
     (if base h = None then (no_pop, p) else
      if (if use_tx then tx h else rx h) = None then (no_pop, p) else
      if use_tx
      then (let (r, rb) = ring_pop (tx_region p) has_payload_out payload_cap in (r, p\<lparr>tx_region := rb\<rparr>))
      else (let (r, rb) = ring_pop (rx_region p) has_payload_out payload_cap in (r, p\<lparr>rx_region := rb\<rparr>)))"

section \<open>Steps of the hub\<close>

datatype hub_op =
    Attach os_answers | Detach | SetStatus u32 | SpokeReady u32 | SpokeOffline u32
  | PushFrame bool u8 "u8 list" u32 | PopFrame bool bool u32

fun hub_step :: "hub \<times> pool \<Rightarrow> hub_op \<Rightarrow> hub \<times> pool" where
  "hub_step (h, p) (Attach os) = (snd (attach os p h), p)"
| "hub_step (h, p) Detach = (detach h, p)"
| "hub_step (h, p) (SetStatus s) = (h, set_status h s p)"
| "hub_step (h, p) (SpokeReady b) = (h, spoke_ready h b p)"
| "hub_step (h, p) (SpokeOffline b) = (h, spoke_offline h b p)"
| "hub_step (h, p) (PushFrame t ty d n) = (h, snd (hub_push_frame h t ty d n p))"
| "hub_step (h, p) (PopFrame t has bufsize) = (h, snd (hub_pop_frame h t has bufsize p))"

definition hub_run :: "hub \<times> pool \<Rightarrow> hub_op list \<Rightarrow> hub \<times> pool" where
  "hub_run s ops = foldl hub_step s ops"

text \<open>The hub owns all of its mapping or nothing of it.\<close>

definition hub_ok :: "hub \<Rightarrow> bool" where
  "hub_ok h \<longleftrightarrow>
     (case base h of
        None \<Rightarrow> fd h = -1 \<and> tx h = None \<and> rx h = None
      | Some b \<Rightarrow> fd h \<ge> 0 \<and> tx h = Some (b + ADDR_TX_RING) \<and> rx h = Some (b + ADDR_RX_RING))"

lemma hub_ok_new [simp]: "hub_ok new_hub" by (simp add: hub_ok_def new_hub_def)

lemma hub_ok_attach: "hub_ok h \<Longrightarrow> hub_ok (snd (attach os p h))"
  by (auto simp: attach_def hub_ok_def split: option.splits)

lemma detach_new_hub: "hub_ok h \<Longrightarrow> detach h = new_hub"
  by (cases h) (auto simp: detach_def hub_ok_def new_hub_def Let_def split: option.splits)

lemma hub_ok_step: "hub_ok h \<Longrightarrow> hub_ok (fst (hub_step (h, p) op))"
  by (cases op) (auto simp: hub_ok_attach detach_new_hub)

lemma hub_ok_run: "hub_ok h \<Longrightarrow> hub_ok (fst (hub_run (h, p) ops))"
  by (induction ops arbitrary: h p)
     (simp_all add: hub_run_def, metis hub_ok_step prod.collapse)

text \<open>Transitions: the operations that change the header of an attached hub.\<close>

fun is_transition :: "hub_op \<Rightarrow> bool" where
  "is_transition (SetStatus _) = True"
| "is_transition (SpokeReady _) = True"
| "is_transition (SpokeOffline _) = True"
| "is_transition _ = False"

fun keeps_mapping :: "hub_op \<Rightarrow> bool" where
  "keeps_mapping Detach = False"
| "keeps_mapping _ = True"

lemma attach_attached: "attached h \<Longrightarrow> attach os p h = (True, h)"
  by (simp add: attach_def attached_def)

lemma hub_step_attached:
  "attached h \<Longrightarrow> keeps_mapping op \<Longrightarrow> fst (hub_step (h, p) op) = h"
  by (cases op) (simp_all add: attach_attached)

lemma hdr_push [simp]: "hdr (snd (hub_push_frame h t ty d n p)) = hdr p"
  by (simp add: hub_push_frame_def case_prod_beta)

lemma hdr_pop [simp]: "hdr (snd (hub_pop_frame h t has n p)) = hdr p"
  by (simp add: hub_pop_frame_def case_prod_beta)

lemma clock_step:
  "attached h \<Longrightarrow> global_clock (hdr (snd (hub_step (h, p) op))) =
     global_clock (hdr p) + (if is_transition op then 1 else 0)"
  by (cases op) (simp_all add: attached_def set_status_def spoke_ready_def spoke_offline_def
      dragonmap_spoke_ready_def dragonmap_spoke_offline_def tick_def)

text \<open>What an operation says about the spoke with bit \<open>i\<close>, and that bit after the operation.\<close>

fun announces :: "nat \<Rightarrow> hub_op \<Rightarrow> bool option" where
  "announces i (SpokeReady m) = (if bit m i then Some True else None)"
| "announces i (SpokeOffline m) = (if bit m i then Some False else None)"
| "announces i _ = None"

lemma spoke_step:
  assumes "attached h" "i < 32"
  shows "bit (spoke_health (hdr (snd (hub_step (h, p) op)))) i =
         (case announces i op of Some b \<Rightarrow> b | None \<Rightarrow> bit (spoke_health (hdr p)) i)"
  using assms
  by (cases op) (auto simp: attached_def set_status_def spoke_ready_def spoke_offline_def
      dragonmap_spoke_ready_def dragonmap_spoke_offline_def tick_def bit_simps)

lemma hub_run_Cons:
  "attached h \<Longrightarrow> keeps_mapping op \<Longrightarrow>
   hub_run (h, p) (op # ops) = hub_run (h, snd (hub_step (h, p) op)) ops"
  using hub_step_attached[of h op p] by (simp add: hub_run_def) (metis prod.collapse)

section \<open>Properties\<close>

text \<open>
  C38: the hub owns its mapping completely or not at all: after any sequence of operations on a
  new hub, whatever the operating system answers and whatever the pool holds, the descriptor and
  the two ring pointers are set exactly when the pool is mapped, and the rings are at the TX and
  RX addresses of the mapping.
\<close>

theorem hub_all_or_nothing:
  "let h = fst (hub_run (new_hub, p) ops) in
     (attached h \<longleftrightarrow> fd h \<noteq> -1) \<and>
     tx h = map_option (\<lambda>b. b + ADDR_TX_RING) (base h) \<and>
     rx h = map_option (\<lambda>b. b + ADDR_RX_RING) (base h)"
  using hub_ok_run[OF hub_ok_new, of p ops]
  by (auto simp: Let_def hub_ok_def attached_def split: option.splits)

text \<open>
  the regions of the pool do not overlap and stay inside it: header, state slots, TX ring, RX
  ring and work area follow each other, each ring region has the size of a ring, the ring addresses
  are multiples of 64 bytes, and header plus chamber make up the whole pool of 520 huge pages.
\<close>

theorem pool_layout:
  "unat HEADER_OFFSET + unat HEADER_SIZE = unat MODULE_OFFSET
   \<and> unat ADDR_MEMORY_STATE + 512 \<le> unat ADDR_TX_RING
   \<and> unat SLOT_SERVICE_STATE + 512 = unat SLOT_VALUE_STATE
   \<and> unat SLOT_VALUE_STATE + 512 = unat SLOT_MEMORY_STATE
   \<and> unat ADDR_TX_RING + unat TX_RING_SIZE = unat ADDR_RX_RING
   \<and> unat ADDR_RX_RING + unat RX_RING_SIZE = unat MODULE_OFFSET + unat WORK_AREA_OFFSET
   \<and> unat MODULE_OFFSET + unat WORK_AREA_OFFSET + unat WORK_AREA_SIZE = unat TOTAL_POOL_SIZE
   \<and> unat TX_RING_SIZE = 128 + unat RING_PAYLOAD_SIZE
   \<and> 64 dvd unat ADDR_TX_RING \<and> 64 dvd unat ADDR_RX_RING
   \<and> unat TOTAL_POOL_SIZE = 520 * unat PAGE_2M \<and> TOTAL_CARVE_PAGES = 1762
   \<and> RX_RING_OFFSET = 0x10080000"
  by (simp add: layout_defs RN_def)

text \<open>
  while the hub is attached, the shared clock counts the status and spoke transitions, modulo
  \<open>2 ^ 64\<close>: frames that are pushed and popped and repeated attaches do not tick it.
\<close>

theorem clock_counts_transitions:
  assumes "attached h" and "\<forall>op\<in>set ops. keeps_mapping op"
  shows "hub_clock (fst (hub_run (h, p) ops)) (snd (hub_run (h, p) ops)) =
         hub_clock h p + word_of_nat (length (filter is_transition ops))"
  using assms(2)
proof (induction ops arbitrary: p)
  case Nil
  then show ?case by (simp add: hub_run_def)
next
  case (Cons op ops)
  have "hub_clock h (snd (hub_step (h, p) op)) = hub_clock h p + (if is_transition op then 1 else 0)"
    using clock_step[OF assms(1)] assms(1) by (simp add: hub_clock_def attached_def dragonmap_clock_def)
  then show ?case using Cons assms(1) by (simp add: hub_run_Cons)
qed

theorem clock_counts_transitions_witness:
  "let h = new_hub\<lparr>fd := 3, base := Some 0, tx := Some ADDR_TX_RING, rx := Some ADDR_RX_RING\<rparr>;
       p = \<lparr>hdr = new_dragon_map, tx_region = empty_ring, rx_region = empty_ring\<rparr>;
       ops = [SetStatus STATUS_LIVE, PushFrame True 1 [] 0, SpokeReady SPOKE_CORTEX]
   in hub_clock (fst (hub_run (h, p) ops)) (snd (hub_run (h, p) ops)) = 2"
  unfolding Let_def
  by (subst clock_counts_transitions)
     (simp_all add: attached_def hub_clock_def new_dragon_map_def dragonmap_clock_def)

text \<open>
  a health bit is what the last announcement of that spoke said: after any operations of an
  attached hub, a spoke is live exactly when the last operation that carried its bit was "ready",
  or when no operation carried it and it was live before.  Announcements of other bits, status
  changes and frames do not touch it.
\<close>

theorem spoke_last_word:
  assumes "attached h" and "\<forall>op\<in>set ops. keeps_mapping op" and "i < 32"
  shows "bit (hub_spokes (fst (hub_run (h, p) ops)) (snd (hub_run (h, p) ops))) i =
         (case filter (\<lambda>a. a \<noteq> None) (map (announces i) (rev ops)) of
            Some b # _ \<Rightarrow> b | _ \<Rightarrow> bit (hub_spokes h p) i)"
proof -
  have run: "fst (hub_run (h, p) ops) = h \<and>
      bit (spoke_health (hdr (snd (hub_run (h, p) ops)))) i =
      foldl (\<lambda>b op. case announces i op of Some b' \<Rightarrow> b' | None \<Rightarrow> b) (bit (spoke_health (hdr p)) i) ops"
    using assms(2)
    by (induction ops arbitrary: p)
       (simp_all add: hub_run_Cons assms(1) spoke_step[OF assms(1,3)], simp_all add: hub_run_def)
  have "foldl (\<lambda>b op. case announces i op of Some b' \<Rightarrow> b' | None \<Rightarrow> b) b ops =
        (case filter (\<lambda>a. a \<noteq> None) (map (announces i) (rev ops)) of Some b' # _ \<Rightarrow> b' | _ \<Rightarrow> b)" for b
    by (induction ops rule: rev_induct) (auto split: option.splits)
  moreover have "hub_spokes h q = spoke_health (hdr q)" for q
    using assms(1) by (simp add: hub_spokes_def attached_def dragonmap_spokes_def)
  ultimately show ?thesis using run by (simp split: list.split option.split)
qed

theorem spoke_last_word_witness:
  "let h = new_hub\<lparr>fd := 3, base := Some 0, tx := Some ADDR_TX_RING, rx := Some ADDR_RX_RING\<rparr>;
       p = \<lparr>hdr = new_dragon_map, tx_region = empty_ring, rx_region = empty_ring\<rparr>;
       ops = [SpokeReady SPOKE_CORTEX, SpokeReady SPOKE_VOICE, SpokeOffline SPOKE_CORTEX]
   in \<not> bit (hub_spokes (fst (hub_run (h, p) ops)) (snd (hub_run (h, p) ops))) 3"
  unfolding Let_def
  by (subst spoke_last_word) (auto simp: attached_def SPOKE_CORTEX_def SPOKE_VOICE_def bit_simps)

text \<open>
  a pool without the carve magic is refused and nothing of it is used: whatever the operating
  system answers, a new hub stays detached through any sequence of operations, the pool is left
  as it was, and clock, spokes and status read as zero and offline.
\<close>

theorem foreign_pool_refused:
  assumes "magic (hdr p) \<noteq> DRAGON_MAGIC"
  shows "hub_run (new_hub, p) ops = (new_hub, p) \<and> hub_clock new_hub p = 0
         \<and> hub_spokes new_hub p = 0 \<and> hub_status new_hub p = STATUS_OFFLINE"
proof -
  have a: "snd (attach os p new_hub) = new_hub" for os
    using assms by (simp add: attach_def new_hub_def split: option.splits)
  have "hub_step (new_hub, p) op = (new_hub, p)" for op
    by (cases op) (simp_all add: a detach_def set_status_def spoke_ready_def spoke_offline_def
        hub_push_frame_def hub_pop_frame_def, simp_all add: new_hub_def)
  then have "hub_run (new_hub, p) ops = (new_hub, p)"
    by (induction ops) (simp_all add: hub_run_def)
  then show ?thesis by (simp add: hub_clock_def hub_spokes_def hub_status_def new_hub_def)
qed

theorem foreign_pool_refused_witness:
  "let p = \<lparr>hdr = new_dragon_map\<lparr>magic := 7\<rparr>, tx_region = empty_ring, rx_region = empty_ring\<rparr> in
   hub_run (new_hub, p) [Attach \<lparr>os_stat_size = Some 1090519040, os_open_fd = 5, os_mmap_base = Some 4096\<rparr>,
     PushFrame True 1 [2] 1] = (new_hub, p)"
  unfolding Let_def by (subst foreign_pool_refused) (simp_all add: DRAGON_MAGIC_def)

end
