(* ===== verification/Value_Types.thy ===== *)
theory Value_Types
  imports Doubles
begin

text \<open>
  Constants and data of the value engine (\<^verbatim>\<open>src/include/value_engine.hpp\<close> and the tables of
  \<^verbatim>\<open>src/src/value_engine.cpp\<close>).  An \<^verbatim>\<open>mpq_class\<close> is an exact rational, so it is the type
  \<^typ>\<open>rat\<close>; a \<^verbatim>\<open>std::array<T, 14>\<close> is a list of length 14.
\<close>

section \<open>Dimensions\<close>

definition DIMENSION_COUNT :: nat where "DIMENSION_COUNT = 14"

definition DIMENSION_NAMES :: "string list" where
  "DIMENSION_NAMES =
     [''harmony'', ''dominance'', ''order'', ''chaos'', ''integrity'', ''deception'',
      ''flourishing'', ''decline'', ''relationships'', ''isolation'', ''boundaries'',
      ''intrusion'', ''grace'', ''rigidity'']"

record plumb_line =
  pl_pos_idx :: nat
  pl_neg_idx :: nat
  pl_name :: string

definition PLUMB_LINE_PRINCIPLES :: "plumb_line list" where
  "PLUMB_LINE_PRINCIPLES =
     [\<lparr>pl_pos_idx = 0, pl_neg_idx = 1, pl_name = ''Harmony / Dominance''\<rparr>,
      \<lparr>pl_pos_idx = 2, pl_neg_idx = 3, pl_name = ''Order / Chaos''\<rparr>,
      \<lparr>pl_pos_idx = 4, pl_neg_idx = 5, pl_name = ''Integrity / Deception''\<rparr>,
      \<lparr>pl_pos_idx = 6, pl_neg_idx = 7, pl_name = ''Flourishing / Decline''\<rparr>,
      \<lparr>pl_pos_idx = 8, pl_neg_idx = 9, pl_name = ''Relationships / Isolation''\<rparr>,
      \<lparr>pl_pos_idx = 10, pl_neg_idx = 11, pl_name = ''Boundaries / Intrusion''\<rparr>,
      \<lparr>pl_pos_idx = 12, pl_neg_idx = 13, pl_name = ''Grace / Rigidity''\<rparr>]"

text \<open>The decimal fractions of \<^verbatim>\<open>DEFAULT_CENTER\<close>, and the doubles the program holds.\<close>

definition DEFAULT_CENTER_decimals :: "rat list" where
  "DEFAULT_CENTER_decimals =
     [65/100, 25/100, 70/100, 15/100, 80/100, 10/100, 70/100, 15/100, 75/100, 20/100,
      75/100, 15/100, 65/100, 25/100]"

definition DEFAULT_CENTER :: "dbl list" where
  "DEFAULT_CENTER = map lit DEFAULT_CENTER_decimals"

definition SIGNAL_DEVIATION :: dbl where "SIGNAL_DEVIATION = lit (35/100)"

section \<open>The lattice: halfspaces and coupling facets\<close>

record halfspace =
  normal :: "rat list"
  threshold :: rat
  hname :: string
  critical :: bool

definition make_halfspace :: "string \<Rightarrow> rat list \<Rightarrow> rat \<Rightarrow> bool \<Rightarrow> halfspace" where
  "make_halfspace name nrm thr crit = \<lparr>normal = nrm, threshold = thr, hname = name, critical = crit\<rparr>"

record coupling_facet =
  pos_idx :: nat
  neg_idx :: nat
  lead_num :: int
  lead_den :: int
  sum_num :: int
  sum_den :: int

definition COUPLING_FACETS :: "coupling_facet list" where
  "COUPLING_FACETS =
     [\<lparr>pos_idx = 0, neg_idx = 1, lead_num = 1, lead_den = 5, sum_num = 11, sum_den = 10\<rparr>,
      \<lparr>pos_idx = 2, neg_idx = 3, lead_num = 7, lead_den = 20, sum_num = 21, sum_den = 20\<rparr>,
      \<lparr>pos_idx = 4, neg_idx = 5, lead_num = 1, lead_den = 2, sum_num = 11, sum_den = 10\<rparr>,
      \<lparr>pos_idx = 6, neg_idx = 7, lead_num = 7, lead_den = 20, sum_num = 21, sum_den = 20\<rparr>,
      \<lparr>pos_idx = 8, neg_idx = 9, lead_num = 7, lead_den = 20, sum_num = 23, sum_den = 20\<rparr>,
      \<lparr>pos_idx = 10, neg_idx = 11, lead_num = 2, lead_den = 5, sum_num = 11, sum_den = 10\<rparr>,
      \<lparr>pos_idx = 12, neg_idx = 13, lead_num = 1, lead_den = 5, sum_num = 11, sum_den = 10\<rparr>]"

section \<open>Seasonal bounds and tolerances\<close>

record seasonal_bounds =
  harmony_min :: rat
  dominance_max :: rat
  order_min :: rat
  chaos_max :: rat
  integrity_min :: rat
  deception_max :: rat
  flourishing_min :: rat
  decline_max :: rat
  relationships_min :: rat
  isolation_max :: rat
  boundaries_min :: rat
  intrusion_max :: rat
  grace_min :: rat
  rigidity_max :: rat

definition spring_bounds :: seasonal_bounds where
  "spring_bounds =
     \<lparr>harmony_min = 3/10, dominance_max = 1/2, order_min = 2/5, chaos_max = 3/10,
      integrity_min = 3/5, deception_max = 1/5, flourishing_min = 2/5, decline_max = 3/10,
      relationships_min = 1/2, isolation_max = 2/5, boundaries_min = 1/2, intrusion_max = 3/10,
      grace_min = 3/10, rigidity_max = 1/2\<rparr>"

definition summer_bounds :: seasonal_bounds where
  "summer_bounds =
     \<lparr>harmony_min = 7/25, dominance_max = 13/25, order_min = 19/50, chaos_max = 8/25,
      integrity_min = 3/5, deception_max = 1/5, flourishing_min = 19/50, decline_max = 8/25,
      relationships_min = 12/25, isolation_max = 21/50, boundaries_min = 12/25, intrusion_max = 8/25,
      grace_min = 7/25, rigidity_max = 13/25\<rparr>"

definition fall_bounds :: seasonal_bounds where
  "fall_bounds =
     \<lparr>harmony_min = 11/50, dominance_max = 29/50, order_min = 8/25, chaos_max = 19/50,
      integrity_min = 11/20, deception_max = 1/4, flourishing_min = 8/25, decline_max = 19/50,
      relationships_min = 21/50, isolation_max = 12/25, boundaries_min = 21/50, intrusion_max = 19/50,
      grace_min = 11/50, rigidity_max = 29/50\<rparr>"

definition winter_bounds :: seasonal_bounds where
  "winter_bounds =
     \<lparr>harmony_min = 9/50, dominance_max = 31/50, order_min = 7/25, chaos_max = 21/50,
      integrity_min = 1/2, deception_max = 3/10, flourishing_min = 7/25, decline_max = 21/50,
      relationships_min = 19/50, isolation_max = 13/25, boundaries_min = 19/50, intrusion_max = 21/50,
      grace_min = 9/50, rigidity_max = 31/50\<rparr>"

definition get_seasonal_bounds :: "string \<Rightarrow> seasonal_bounds" where
  "get_seasonal_bounds season =
     (if season = ''spring'' then spring_bounds
      else if season = ''summer'' then summer_bounds
      else if season = ''fall'' then fall_bounds
      else if season = ''winter'' then winter_bounds
      else spring_bounds)"

record tolerance_profile =
  acceptable_variance_margin :: dbl
  aligned_min_boundary_distance :: dbl

definition get_tolerance_profile :: "string \<Rightarrow> tolerance_profile" where
  "get_tolerance_profile season =
     (if season = ''summer'' then \<lparr>acceptable_variance_margin = lit (8/100), aligned_min_boundary_distance = lit (3/100)\<rparr>
      else if season = ''fall'' then \<lparr>acceptable_variance_margin = lit (5/100), aligned_min_boundary_distance = lit (4/100)\<rparr>
      else if season = ''winter'' then \<lparr>acceptable_variance_margin = lit (7/100), aligned_min_boundary_distance = lit (35/1000)\<rparr>
      else \<lparr>acceptable_variance_margin = lit (12/100), aligned_min_boundary_distance = lit (2/100)\<rparr>)"

definition GATE_T1_TO_T2 :: dbl where "GATE_T1_TO_T2 = lit 3"
definition GATE_T2_TO_T3 :: dbl where "GATE_T2_TO_T3 = lit (35/10)"
definition GATE_TO_LONG_TERM :: dbl where "GATE_TO_LONG_TERM = lit 5"
definition FORMATION_LONG_TERM_BYPASS :: dbl where "FORMATION_LONG_TERM_BYPASS = lit 8"
definition TRIGGER_RETENTION_FLOOR :: dbl where "TRIGGER_RETENTION_FLOOR = lit 5"

text \<open>\<^verbatim>\<open>PolytopeConstraints\<close>: the fourteen bounds and the season they belong to.\<close>

record polytope_constraints = seasonal_bounds +
  season :: string

definition from_bounds :: "seasonal_bounds \<Rightarrow> string \<Rightarrow> polytope_constraints" where
  "from_bounds b s =
     \<lparr>harmony_min = harmony_min b, dominance_max = dominance_max b,
      order_min = order_min b, chaos_max = chaos_max b,
      integrity_min = integrity_min b, deception_max = deception_max b,
      flourishing_min = flourishing_min b, decline_max = decline_max b,
      relationships_min = relationships_min b, isolation_max = isolation_max b,
      boundaries_min = boundaries_min b, intrusion_max = intrusion_max b,
      grace_min = grace_min b, rigidity_max = rigidity_max b, season = s\<rparr>"

definition default_constraints :: polytope_constraints where
  "default_constraints =
     \<lparr>harmony_min = 3/10, dominance_max = 1/2, order_min = 2/5, chaos_max = 3/10,
      integrity_min = 3/5, deception_max = 1/5, flourishing_min = 2/5, decline_max = 3/10,
      relationships_min = 1/2, isolation_max = 2/5, boundaries_min = 1/2, intrusion_max = 3/10,
      grace_min = 3/10, rigidity_max = 1/2, season = ''spring''\<rparr>"

definition from_season :: "string \<Rightarrow> polytope_constraints" where
  "from_season s = from_bounds (get_seasonal_bounds s) s"

definition lower_bounds :: "polytope_constraints \<Rightarrow> rat list" where
  "lower_bounds c =
     [harmony_min c, 0, order_min c, 0, integrity_min c, 0, flourishing_min c, 0,
      relationships_min c, 0, boundaries_min c, 0, grace_min c, 0]"

definition upper_bounds :: "polytope_constraints \<Rightarrow> rat list" where
  "upper_bounds c =
     [1, dominance_max c, 1, chaos_max c, 1, deception_max c, 1, decline_max c,
      1, isolation_max c, 1, intrusion_max c, 1, rigidity_max c]"

section \<open>Results\<close>

datatype zone = Aligned | AcceptableVariance | Violation

record violation_info =
  v_dimension :: int
  v_name :: string
  v_value :: dbl
  v_bound :: dbl
  v_type :: string
  v_severity :: dbl

record evaluation_result =
  is_aligned :: bool
  r_alignment_score :: dbl
  decision_vector :: "dbl list"
  violations :: "violation_info list"
  was_corrected :: bool
  correction_vector :: "dbl list"
  correction_magnitude :: dbl
  wisdom_filter_applied :: bool
  overconfidence_detected :: bool
  humility_added :: bool
  validation_suggested :: bool
  wisdom_adjustments :: "string list"
  response_summary :: string
  r_season :: string
  r_zone :: zone
  boundary_distance :: dbl
  variance_margin_used :: dbl

definition zero_vector :: "dbl list" where
  "zero_vector = replicate DIMENSION_COUNT (Fin 0)"

definition new_evaluation_result :: evaluation_result where
  "new_evaluation_result =
     \<lparr>is_aligned = False, r_alignment_score = Fin 0, decision_vector = zero_vector,
      violations = [], was_corrected = False, correction_vector = zero_vector,
      correction_magnitude = Fin 0, wisdom_filter_applied = False,
      overconfidence_detected = False, humility_added = False, validation_suggested = False,
      wisdom_adjustments = [], response_summary = '''', r_season = ''spring'',
      r_zone = Aligned, boundary_distance = Fin 0, variance_margin_used = Fin 0\<rparr>"

record encoder_correction =
  evaluation_id :: string
  response_text :: string
  original_vector :: "dbl list"
  corrected_vector :: "dbl list"
  dimensions_adjusted :: "int list"
  flagged_by :: string
  confirmed_by :: string
  ec_reason :: string
  season_at_time :: string
  created_at :: u64

definition adjustment_delta :: "encoder_correction \<Rightarrow> dbl list" where
  "adjustment_delta ec =
     map (\<lambda>i. dsub (corrected_vector ec ! i) (original_vector ec ! i)) [0..<DIMENSION_COUNT]"

section \<open>Facts about the tables\<close>

lemma dims_upt: "[0..<DIMENSION_COUNT] = [0, 1, 2, 3, 4, 5, 6, 7, 8, 9, 10, 11, 12, 13]"
  by (simp add: DIMENSION_COUNT_def upt_rec)

lemma length_bounds [simp]:
  "length (lower_bounds c) = 14" "length (upper_bounds c) = 14" "length DIMENSION_NAMES = 14"
  "length DEFAULT_CENTER = 14" "length zero_vector = 14"
  by (simp_all add: lower_bounds_def upper_bounds_def DIMENSION_NAMES_def DEFAULT_CENTER_def
      DEFAULT_CENTER_decimals_def zero_vector_def DIMENSION_COUNT_def)

lemmas bounds_defs = spring_bounds_def summer_bounds_def fall_bounds_def winter_bounds_def

lemma from_season_cases:
  obtains b where "b \<in> {spring_bounds, summer_bounds, fall_bounds, winter_bounds}"
    and "from_season s = from_bounds b s"
  by (rule that[of "get_seasonal_bounds s"])
     (auto simp: from_season_def get_seasonal_bounds_def)

end
