(* ===== verification/Polytope.thy ===== *)
theory Polytope
  imports Value_Types "HOL-Library.Multiset"
begin

text \<open>
  \<^verbatim>\<open>class EthicalPolytope\<close> of \<^verbatim>\<open>src/src/value_engine.cpp\<close>: construction of the lattice of
  halfspaces, exact containment, margins, the alignment score and the near walls.  The argument
  \<open>gd\<close> is GMP's \<^verbatim>\<open>get_d\<close> (theory \<open>Doubles\<close>).  GMP traps when a non-finite double is converted
  to a rational: every operation that converts is \<open>None\<close> there.  \<open>in_lattice\<close> states the
  region in plain inequalities.
\<close>

section \<open>Conversion\<close>

definition to_mpq :: "dbl \<Rightarrow> rat option" where
  "to_mpq v = (case v of Fin q \<Rightarrow> Some q | _ \<Rightarrow> None)"

definition to_mpq_vec :: "dbl list \<Rightarrow> rat list option" where
  "to_mpq_vec x = those (map to_mpq x)"

section \<open>The lattice\<close>

record polytope =
  constraints :: polytope_constraints
  lower :: "rat list"
  upper :: "rat list"
  center :: "rat list"
  facets :: "halfspace list"

text \<open>A normal with the given components; the others are zero.\<close>

definition unit_normal :: "(nat \<times> rat) list \<Rightarrow> rat list" where
  "unit_normal cs = foldl (\<lambda>n (i, a). n[i := a]) (replicate DIMENSION_COUNT 0) cs"

definition axis_facets :: "rat list \<Rightarrow> rat list \<Rightarrow> nat \<Rightarrow> halfspace list" where
  "axis_facets lo up i =
     [\<lparr>normal = unit_normal [(i, 1)], threshold = up ! i,
       hname = DIMENSION_NAMES ! i @ ''_max'', critical = (i mod 2 = 1)\<rparr>,
      \<lparr>normal = unit_normal [(i, -1)], threshold = - (lo ! i),
       hname = DIMENSION_NAMES ! i @ ''_min'', critical = (i mod 2 = 0)\<rparr>]"

definition coupling_halfspaces :: "coupling_facet \<Rightarrow> halfspace list" where
  "coupling_halfspaces c =
     [\<lparr>normal = unit_normal [(pos_idx c, -1), (neg_idx c, 1)],
       threshold = - (of_int (lead_num c) / of_int (lead_den c)),
       hname = DIMENSION_NAMES ! pos_idx c @ ''_leads_'' @ DIMENSION_NAMES ! neg_idx c,
       critical = True\<rparr>,
      \<lparr>normal = unit_normal [(pos_idx c, 1), (neg_idx c, 1)],
       threshold = of_int (sum_num c) / of_int (sum_den c),
       hname = DIMENSION_NAMES ! pos_idx c @ ''_+'' @ DIMENSION_NAMES ! neg_idx c @ ''_restrained'',
       critical = True\<rparr>]"

definition build_lattice :: "rat list \<Rightarrow> rat list \<Rightarrow> halfspace list" where
  "build_lattice lo up =
     concat (map (axis_facets lo up) [0..<DIMENSION_COUNT]) @
     concat (map coupling_halfspaces COUPLING_FACETS)"

definition new_polytope :: "polytope_constraints \<Rightarrow> polytope" where
  "new_polytope c =
     (let lo = lower_bounds c; up = upper_bounds c in
      \<lparr>constraints = c, lower = lo, upper = up,
       center = map (\<lambda>i. (lo ! i + up ! i) / 2) [0..<DIMENSION_COUNT],
       facets = build_lattice lo up\<rparr>)"

definition add_facet :: "polytope \<Rightarrow> halfspace \<Rightarrow> polytope" where
  "add_facet p h = p\<lparr>facets := facets p @ [h]\<rparr>"

definition add_facets :: "polytope \<Rightarrow> halfspace list \<Rightarrow> polytope" where
  "add_facets p hs = p\<lparr>facets := facets p @ hs\<rparr>"

section \<open>Containment\<close>

definition dot :: "rat list \<Rightarrow> rat list \<Rightarrow> rat" where
  "dot a pt = (\<Sum>i\<leftarrow>[0..<DIMENSION_COUNT]. a ! i * pt ! i)"

definition norm_squared :: "rat list \<Rightarrow> rat" where
  "norm_squared a = (\<Sum>v\<leftarrow>a. v * v)"

definition signed_margin :: "halfspace \<Rightarrow> rat list \<Rightarrow> rat" where
  "signed_margin h pt =
     (if norm_squared (normal h) = 0 then threshold h
      else (threshold h - dot (normal h) pt) / norm_squared (normal h))"

text \<open>The only axis of a normal (\<open>-1\<close>: none, \<open>-2\<close>: several).\<close>

fun axis_scan :: "rat list \<Rightarrow> nat list \<Rightarrow> int \<Rightarrow> int" where
  "axis_scan n [] a = a"
| "axis_scan n (i # is) a =
     (if n ! i \<noteq> 0 then (if a \<ge> 0 then -2 else axis_scan n is (int i)) else axis_scan n is a)"

definition violation_of :: "(rat \<Rightarrow> dbl) \<Rightarrow> dbl list \<Rightarrow> rat list \<Rightarrow> halfspace \<Rightarrow> violation_info" where
  "violation_of gd x pt h =
     (let d = dot (normal h) pt;
          axis = axis_scan (normal h) [0..<DIMENSION_COUNT] (-1)
      in if axis \<ge> 0 then
           \<lparr>v_dimension = axis, v_name = DIMENSION_NAMES ! nat axis, v_value = x ! nat axis,
            v_bound = gd (threshold h),
            v_type = (if normal h ! nat axis > 0 then ''above_maximum'' else ''below_minimum''),
            v_severity = gd (d - threshold h)\<rparr>
         else
           (let denom = norm_squared (normal h) in
            \<lparr>v_dimension = -1, v_name = hname h,
             v_value = (if denom \<noteq> 0 then gd (d / denom) else Fin 0),
             v_bound = (if denom \<noteq> 0 then gd (threshold h / denom) else Fin 0),
             v_type = ''facet'',
             v_severity = (if denom \<noteq> 0 then gd ((d - threshold h) / denom) else Fin 0)\<rparr>))"

definition violated :: "halfspace \<Rightarrow> rat list \<Rightarrow> bool" where
  "violated h pt \<longleftrightarrow> dot (normal h) pt > threshold h"

definition contains :: "(rat \<Rightarrow> dbl) \<Rightarrow> polytope \<Rightarrow> dbl list \<Rightarrow> (bool \<times> violation_info list) option" where
  "contains gd p x =
     map_option (\<lambda>pt.
       let vs = map (violation_of gd x pt) (filter (\<lambda>h. violated h pt) (facets p))
       in (vs = [], vs)) (to_mpq_vec x)"

section \<open>Margins and scores\<close>

definition ethical_facet_margins :: "polytope \<Rightarrow> rat list \<Rightarrow> rat list" where
  "ethical_facet_margins p pt =
     map (\<lambda>i. if i mod 2 = 0 then pt ! i - lower p ! i else upper p ! i - pt ! i) [0..<DIMENSION_COUNT]"

definition lattice_margins :: "polytope \<Rightarrow> rat list \<Rightarrow> rat list" where
  "lattice_margins p pt =
     map (\<lambda>h. threshold h - dot (normal h) pt) (filter critical (facets p))"

text \<open>The minimum loops of the code: start with the first element, then compare each.\<close>

definition min_margin :: "rat list \<Rightarrow> rat" where
  "min_margin ms = foldl (\<lambda>acc m. if m < acc then m else acc) (hd ms) ms"

definition alignment_score :: "(rat \<Rightarrow> dbl) \<Rightarrow> polytope \<Rightarrow> dbl list \<Rightarrow> dbl option" where
  "alignment_score gd p x =
     map_option (\<lambda>pt.
       if \<exists>h\<in>set (facets p). violated h pt then Fin 0 else
       let min_dist = min_margin (lattice_margins p pt);
           center_min_dist = min_margin (lattice_margins p (center p))
       in if center_min_dist \<le> 0 then Fin 0
          else dclamp (gd (min_dist / center_min_dist)) (Fin 0) (Fin 1)) (to_mpq_vec x)"

text \<open>
  The critical walls within \<open>thr\<close> of a point, and the names of the nearest four.  \<^verbatim>\<open>std::sort\<close>
  orders pairs by distance, then name; pairs that compare equal are equal, so the order is fixed
  whenever the distances are numbers.
\<close>

definition wall_less :: "dbl \<times> string \<Rightarrow> dbl \<times> string \<Rightarrow> bool" where
  "wall_less a b \<longleftrightarrow>
     dless (fst a) (fst b) \<or>
     (\<not> dless (fst b) (fst a) \<and> ord.lexordp (\<lambda>c d. (of_char c :: nat) < of_char d) (snd a) (snd b))"

fun wall_insert :: "dbl \<times> string \<Rightarrow> (dbl \<times> string) list \<Rightarrow> (dbl \<times> string) list" where
  "wall_insert w [] = [w]"
| "wall_insert w (v # vs) = (if wall_less v w then v # wall_insert w vs else w # v # vs)"

definition wall_sort :: "(dbl \<times> string) list \<Rightarrow> (dbl \<times> string) list" where
  "wall_sort ws = foldr wall_insert ws []"

definition wall_margin :: "(rat \<Rightarrow> dbl) \<Rightarrow> rat list \<Rightarrow> halfspace \<Rightarrow> dbl" where
  "wall_margin gd pt h =
     (let denom = norm_squared (normal h) in
      dmul (gd ((threshold h - dot (normal h) pt) / denom)) (dsqrt (gd denom)))"

definition walls_within :: "(rat \<Rightarrow> dbl) \<Rightarrow> polytope \<Rightarrow> rat list \<Rightarrow> dbl \<Rightarrow> (dbl \<times> string) list" where
  "walls_within gd p pt thr =
     filter (\<lambda>w. dle (fst w) thr)
       (map (\<lambda>h. (wall_margin gd pt h, hname h))
         (filter (\<lambda>h. critical h \<and> norm_squared (normal h) \<noteq> 0) (facets p)))"

definition near_walls :: "(rat \<Rightarrow> dbl) \<Rightarrow> polytope \<Rightarrow> dbl list \<Rightarrow> dbl \<Rightarrow> string list option" where
  "near_walls gd p x thr =
     map_option (\<lambda>pt. map snd (take 4 (wall_sort (walls_within gd p pt thr)))) (to_mpq_vec x)"

section \<open>The region in plain inequalities\<close>

text \<open>A principle's virtue \<open>v\<close> and shadow \<open>s\<close> under its bounds, lead and restraint.\<close>

definition pair_ok :: "rat \<Rightarrow> rat \<Rightarrow> rat \<Rightarrow> rat \<Rightarrow> rat \<Rightarrow> rat \<Rightarrow> bool" where
  "pair_ok vmin smax lead restr v s \<longleftrightarrow>
     vmin \<le> v \<and> v \<le> 1 \<and> 0 \<le> s \<and> s \<le> smax \<and> lead \<le> v - s \<and> v + s \<le> restr"

definition in_lattice :: "polytope_constraints \<Rightarrow> rat list \<Rightarrow> bool" where
  "in_lattice c q \<longleftrightarrow>
     pair_ok (harmony_min c) (dominance_max c) (1/5) (11/10) (q ! 0) (q ! 1) \<and>
     pair_ok (order_min c) (chaos_max c) (7/20) (21/20) (q ! 2) (q ! 3) \<and>
     pair_ok (integrity_min c) (deception_max c) (1/2) (11/10) (q ! 4) (q ! 5) \<and>
     pair_ok (flourishing_min c) (decline_max c) (7/20) (21/20) (q ! 6) (q ! 7) \<and>
     pair_ok (relationships_min c) (isolation_max c) (7/20) (23/20) (q ! 8) (q ! 9) \<and>
     pair_ok (boundaries_min c) (intrusion_max c) (2/5) (11/10) (q ! 10) (q ! 11) \<and>
     pair_ok (grace_min c) (rigidity_max c) (1/5) (11/10) (q ! 12) (q ! 13)"

lemma to_mpq_vec_Fin [simp]: "to_mpq_vec (map Fin q) = Some q"
  by (induction q) (simp_all add: to_mpq_vec_def to_mpq_def)

lemma to_mpq_vec_None: "to_mpq_vec x = None \<longleftrightarrow> (\<exists>v\<in>set x. \<not> is_fin v)"
  by (induction x) (auto simp: to_mpq_vec_def to_mpq_def split: dbl.splits)

lemma to_mpq_vec_SomeD: "to_mpq_vec x = Some q \<Longrightarrow> x = map Fin q"
  by (induction x arbitrary: q) (auto simp: to_mpq_vec_def to_mpq_def split: dbl.splits)

lemma dot_14:
  "dot a x = a!0 * x!0 + a!1 * x!1 + a!2 * x!2 + a!3 * x!3 + a!4 * x!4 + a!5 * x!5 + a!6 * x!6 +
     a!7 * x!7 + a!8 * x!8 + a!9 * x!9 + a!10 * x!10 + a!11 * x!11 + a!12 * x!12 + a!13 * x!13"
  by (simp add: dot_def dims_upt add.assoc)

lemma unit_normal_nth:
  "i < 14 \<Longrightarrow> unit_normal [(k, a)] ! i = (if i = k then a else 0)"
  "i < 14 \<Longrightarrow> k < 14 \<Longrightarrow> l < 14 \<Longrightarrow> k \<noteq> l \<Longrightarrow>
     unit_normal [(k, a), (l, b)] ! i = (if i = k then a else if i = l then b else 0)"
  by (simp_all add: unit_normal_def DIMENSION_COUNT_def nth_list_update)

lemma dot_unit: "k < 14 \<Longrightarrow> dot (unit_normal [(k, a)]) x = a * x ! k"
proof -
  assume k: "k < 14"
  have "dot (unit_normal [(k, a)]) x = (\<Sum>i\<leftarrow>[0..<14]. if i = k then a * x ! i else 0)"
    unfolding dot_def DIMENSION_COUNT_def
    by (intro arg_cong[of _ _ sum_list] map_cong refl) (simp add: unit_normal_nth)
  also have "\<dots> = (\<Sum>i\<in>{0..<14}. if i = k then a * x ! i else 0)"
    by (simp add: sum_list_distinct_conv_sum_set del: upt_rec_numeral)
  finally show ?thesis using k by simp
qed

lemma dot_unit2:
  "k < 14 \<Longrightarrow> l < 14 \<Longrightarrow> k \<noteq> l \<Longrightarrow> dot (unit_normal [(k, a), (l, b)]) x = a * x ! k + b * x ! l"
proof -
  assume kl: "k < 14" "l < 14" "k \<noteq> l"
  have "dot (unit_normal [(k, a), (l, b)]) x =
        (\<Sum>i\<leftarrow>[0..<14]. (if i = k then a * x ! i else 0) + (if i = l then b * x ! i else 0))"
    unfolding dot_def DIMENSION_COUNT_def
    by (intro arg_cong[of _ _ sum_list] map_cong refl) (use kl in \<open>simp add: unit_normal_nth\<close>)
  also have "\<dots> = (\<Sum>i\<in>{0..<14}. (if i = k then a * x ! i else 0) + (if i = l then b * x ! i else 0))"
    by (simp add: sum_list_distinct_conv_sum_set del: upt_rec_numeral)
  finally show ?thesis using kl by (simp add: sum.distrib)
qed

text \<open>The violation test of the two kinds of facet.\<close>

lemma axis_violated:
  "i < 14 \<Longrightarrow> (\<exists>h\<in>set (axis_facets lo up i). violated h pt) \<longleftrightarrow> up ! i < pt ! i \<or> pt ! i < lo ! i"
  by (auto simp: axis_facets_def violated_def dot_unit)

lemma coupling_violated:
  assumes "pos_idx c < 14" "neg_idx c < 14" "pos_idx c \<noteq> neg_idx c"
  shows "(\<exists>h\<in>set (coupling_halfspaces c). violated h pt) \<longleftrightarrow>
     pt ! pos_idx c - pt ! neg_idx c < of_int (lead_num c) / of_int (lead_den c) \<or>
     of_int (sum_num c) / of_int (sum_den c) < pt ! pos_idx c + pt ! neg_idx c"
  using assms by (auto simp: coupling_halfspaces_def violated_def dot_unit2)

lemma facets_new: "facets (new_polytope c) = build_lattice (lower_bounds c) (upper_bounds c)"
  by (simp add: new_polytope_def Let_def)

lemma violated_build:
  "(\<exists>h\<in>set (build_lattice lo up). violated h pt) \<longleftrightarrow>
     (\<exists>i<14. up ! i < pt ! i \<or> pt ! i < lo ! i) \<or>
     (\<exists>c\<in>set COUPLING_FACETS.
        pt ! pos_idx c - pt ! neg_idx c < of_int (lead_num c) / of_int (lead_den c) \<or>
        of_int (sum_num c) / of_int (sum_den c) < pt ! pos_idx c + pt ! neg_idx c)"
proof -
  have a: "(\<exists>h\<in>set (concat (map (axis_facets lo up) [0..<DIMENSION_COUNT])). violated h pt) \<longleftrightarrow>
      (\<exists>i<14. \<exists>h\<in>set (axis_facets lo up i). violated h pt)"
    by (auto simp: DIMENSION_COUNT_def simp del: upt_rec_numeral)
  have c: "(\<exists>h\<in>set (coupling_halfspaces c). violated h pt) \<longleftrightarrow>
     pt ! pos_idx c - pt ! neg_idx c < of_int (lead_num c) / of_int (lead_den c) \<or>
     of_int (sum_num c) / of_int (sum_den c) < pt ! pos_idx c + pt ! neg_idx c"
    if "c \<in> set COUPLING_FACETS" for c
    using that by (intro coupling_violated) (auto simp: COUPLING_FACETS_def)
  have cc: "(\<exists>h\<in>set (concat (map coupling_halfspaces COUPLING_FACETS)). violated h pt) \<longleftrightarrow>
      (\<exists>c\<in>set COUPLING_FACETS. \<exists>h\<in>set (coupling_halfspaces c). violated h pt)" by auto
  show ?thesis
    unfolding build_lattice_def set_append bex_Un a cc
    by (metis (no_types, lifting) axis_violated c)
qed

lemma ex_less_14:
  "(\<exists>i<(14::nat). P i) \<longleftrightarrow> P 0 \<or> P 1 \<or> P 2 \<or> P 3 \<or> P 4 \<or> P 5 \<or> P 6 \<or> P 7 \<or> P 8 \<or> P 9 \<or> P 10 \<or>
     P 11 \<or> P 12 \<or> P 13"
proof -
  have "(\<exists>i<(14::nat). P i) \<longleftrightarrow> (\<exists>i\<in>set [0..<14]. P i)" by auto
  also have "[0..<14] = [0, 1, 2, 3, 4, 5, 6, 7, 8, 9, 10, 11, 12, 13::nat]" by (simp add: upt_rec)
  finally show ?thesis by simp
qed

lemma in_lattice_facets:
  "(\<exists>h\<in>set (facets (new_polytope c)). violated h pt) \<longleftrightarrow> \<not> in_lattice c pt"
  unfolding facets_new violated_build ex_less_14
  by (simp add: COUPLING_FACETS_def in_lattice_def pair_ok_def lower_bounds_def upper_bounds_def
      del: One_nat_def) linarith

lemma contains_Fin:
  "contains gd p (map Fin q) =
     Some (let vs = map (violation_of gd (map Fin q) q) (filter (\<lambda>h. violated h q) (facets p)) in (vs = [], vs))"
  by (simp add: contains_def Let_def)

lemma contains_new: "map_option fst (contains gd (new_polytope c) (map Fin q)) = Some (in_lattice c q)"
  using in_lattice_facets[of c q] by (simp add: contains_Fin Let_def filter_empty_conv) blast

lemma contains_None: "contains gd p x = None \<longleftrightarrow> (\<exists>v\<in>set x. \<not> is_fin v)"
  by (simp add: contains_def to_mpq_vec_None)

lemma pair_ok_mono:
  "pair_ok vmin smax lead restr v s \<Longrightarrow> vmin' \<le> vmin \<Longrightarrow> smax \<le> smax' \<Longrightarrow> pair_ok vmin' smax' lead restr v s"
  by (simp add: pair_ok_def)

lemma in_lattice_mono:
  assumes "in_lattice c q"
    and "harmony_min d \<le> harmony_min c" "dominance_max c \<le> dominance_max d"
    and "order_min d \<le> order_min c" "chaos_max c \<le> chaos_max d"
    and "integrity_min d \<le> integrity_min c" "deception_max c \<le> deception_max d"
    and "flourishing_min d \<le> flourishing_min c" "decline_max c \<le> decline_max d"
    and "relationships_min d \<le> relationships_min c" "isolation_max c \<le> isolation_max d"
    and "boundaries_min d \<le> boundaries_min c" "intrusion_max c \<le> intrusion_max d"
    and "grace_min d \<le> grace_min c" "rigidity_max c \<le> rigidity_max d"
  shows "in_lattice d q"
  by (insert assms(1), unfold in_lattice_def, elim conjE, intro conjI; erule pair_ok_mono) (rule assms)+

lemma season_bounds:
  "from_season ''spring'' = from_bounds spring_bounds ''spring''"
  "from_season ''summer'' = from_bounds summer_bounds ''summer''"
  "from_season ''fall'' = from_bounds fall_bounds ''fall''"
  "from_season ''winter'' = from_bounds winter_bounds ''winter''"
  by (simp_all add: from_season_def get_seasonal_bounds_def)

lemma from_bounds_fields [simp]:
  "harmony_min (from_bounds b s) = harmony_min b" "dominance_max (from_bounds b s) = dominance_max b"
  "order_min (from_bounds b s) = order_min b" "chaos_max (from_bounds b s) = chaos_max b"
  "integrity_min (from_bounds b s) = integrity_min b" "deception_max (from_bounds b s) = deception_max b"
  "flourishing_min (from_bounds b s) = flourishing_min b" "decline_max (from_bounds b s) = decline_max b"
  "relationships_min (from_bounds b s) = relationships_min b" "isolation_max (from_bounds b s) = isolation_max b"
  "boundaries_min (from_bounds b s) = boundaries_min b" "intrusion_max (from_bounds b s) = intrusion_max b"
  "grace_min (from_bounds b s) = grace_min b" "rigidity_max (from_bounds b s) = rigidity_max b"
  "season (from_bounds b s) = s"
  by (simp_all add: from_bounds_def)

section \<open>Sorting the walls\<close>

lemma mset_wall_insert [simp]: "mset (wall_insert w ws) = add_mset w (mset ws)"
  by (induction ws) auto

lemma mset_wall_sort [simp]: "mset (wall_sort ws) = mset ws"
  by (induction ws) (simp_all add: wall_sort_def)

lemma set_wall_insert [simp]: "set (wall_insert w ws) = insert w (set ws)"
  by (induction ws) auto

text \<open>Doubles other than NaN are linearly ordered.\<close>

lemma dle_trans: "dle a b \<Longrightarrow> dle b c \<Longrightarrow> dle a c"
  by (cases a; cases b; cases c) (auto simp: dle_def deq_def)

lemma not_dless_dle: "a \<noteq> NaN \<Longrightarrow> b \<noteq> NaN \<Longrightarrow> \<not> dless b a \<Longrightarrow> dle a b"
  by (cases a; cases b) (auto simp: dle_def deq_def)

lemma dless_dle: "dless a b \<Longrightarrow> dle a b"
  by (simp add: dle_def)

lemma wall_less_dle: "fst a \<noteq> NaN \<Longrightarrow> fst b \<noteq> NaN \<Longrightarrow> wall_less a b \<Longrightarrow> dle (fst a) (fst b)"
  by (auto simp: wall_less_def dless_dle not_dless_dle)

lemma not_wall_less_dle: "fst a \<noteq> NaN \<Longrightarrow> fst b \<noteq> NaN \<Longrightarrow> \<not> wall_less a b \<Longrightarrow> dle (fst b) (fst a)"
  by (simp add: wall_less_def not_dless_dle)

lemma wall_insert_sorted:
  assumes "\<forall>v\<in>set (w # ws). fst v \<noteq> NaN" "sorted_wrt (\<lambda>a b. dle (fst a) (fst b)) ws"
  shows "sorted_wrt (\<lambda>a b. dle (fst a) (fst b)) (wall_insert w ws)"
  using assms
proof (induction ws)
  case (Cons v vs)
  show ?case
  proof (cases "wall_less v w")
    case True
    with Cons show ?thesis by (auto simp: wall_less_dle)
  next
    case False
    then have "dle (fst w) (fst v)" using Cons.prems by (simp add: not_wall_less_dle)
    with False Cons.prems show ?thesis by (auto intro: dle_trans)
  qed
qed simp

lemma wall_sort_sorted:
  "\<forall>v\<in>set ws. fst v \<noteq> NaN \<Longrightarrow> sorted_wrt (\<lambda>a b. dle (fst a) (fst b)) (wall_sort ws)"
proof (induction ws)
  case (Cons w ws)
  have "set (wall_sort ws) = set ws" by (metis mset_wall_sort mset_eq_setD)
  with Cons show ?case by (simp add: wall_sort_def wall_insert_sorted)
qed (simp add: wall_sort_def)

lemma min_margin_le: "m \<in> set ms \<Longrightarrow> min_margin ms \<le> m"
proof -
  have "foldl (\<lambda>acc m. if m < acc then m else acc) a ms \<le> a \<and>
        (\<forall>m\<in>set ms. foldl (\<lambda>acc m. if m < acc then m else acc) a ms \<le> m)" for a
  proof (induction ms arbitrary: a)
    case (Cons m ms)
    let ?b = "if m < a then m else a"
    have "?b \<le> a" "?b \<le> m" by simp_all
    with Cons[of ?b] show ?case by (auto intro: order_trans)
  qed simp
  then show "m \<in> set ms \<Longrightarrow> min_margin ms \<le> m" by (simp add: min_margin_def)
qed

lemma min_margin_in: "ms \<noteq> [] \<Longrightarrow> min_margin ms \<in> set ms"
proof -
  have f: "foldl (\<lambda>acc m. if m < acc then m else acc) a ms = a \<or>
           foldl (\<lambda>acc m. if m < acc then m else acc) a ms \<in> set ms" for a
  proof (induction ms arbitrary: a)
    case (Cons m ms)
    show ?case
    proof (cases "m < a")
      case True
      then show ?thesis using Cons[of m] by simp
    next
      case False
      then show ?thesis using Cons[of a] by simp blast
    qed
  qed simp
  assume "ms \<noteq> []"
  then have "hd ms \<in> set ms" by simp
  with f[of "hd ms"] show ?thesis unfolding min_margin_def by fastforce
qed

lemma axis_scan_zero: "\<forall>i\<in>set is. n ! i = 0 \<Longrightarrow> axis_scan n is a = a"
  by (induction "is") simp_all

lemma axis_scan_one:
  "\<forall>i\<in>set is. n ! i \<noteq> 0 \<longleftrightarrow> i = k \<Longrightarrow> distinct is \<Longrightarrow> k \<in> set is \<Longrightarrow> axis_scan n is (-1) = int k"
proof (induction "is")
  case (Cons i "is")
  show ?case
  proof (cases "i = k")
    case True
    then have "\<forall>j\<in>set is. n ! j = 0" using Cons.prems by auto
    with True Cons.prems show ?thesis by (simp add: axis_scan_zero)
  next
    case False
    with Cons show ?thesis by simp
  qed
qed simp

lemma axis_scan_second: "k \<in> set is \<Longrightarrow> n ! k \<noteq> 0 \<Longrightarrow> 0 \<le> a \<Longrightarrow> axis_scan n is a = -2"
  by (induction "is") auto

lemma axis_scan_two:
  "k \<in> set is \<Longrightarrow> l \<in> set is \<Longrightarrow> k \<noteq> l \<Longrightarrow> n ! k \<noteq> 0 \<Longrightarrow> n ! l \<noteq> 0 \<Longrightarrow> axis_scan n is (-1) = -2"
  by (induction "is") (auto simp: axis_scan_second)

lemma only_two:
  assumes "\<And>v. v \<in> S \<and> D v \<longleftrightarrow> (P \<and> v = a) \<or> (Q \<and> v = b)"
  shows "(\<exists>v\<in>S. D v \<and> R v) \<longleftrightarrow> (P \<and> R a) \<or> (Q \<and> R b)"
    and "(\<forall>v\<in>S. D v \<longrightarrow> R v) \<longleftrightarrow> (P \<longrightarrow> R a) \<and> (Q \<longrightarrow> R b)"
proof -
  have "(\<exists>v\<in>S. D v \<and> R v) \<longleftrightarrow> (\<exists>v. (v \<in> S \<and> D v) \<and> R v)" by blast
  then show "(\<exists>v\<in>S. D v \<and> R v) \<longleftrightarrow> (P \<and> R a) \<or> (Q \<and> R b)" unfolding assms by blast
  have "(\<forall>v\<in>S. D v \<longrightarrow> R v) \<longleftrightarrow> (\<forall>v. (v \<in> S \<and> D v) \<longrightarrow> R v)" by blast
  then show "(\<forall>v\<in>S. D v \<longrightarrow> R v) \<longleftrightarrow> (P \<longrightarrow> R a) \<and> (Q \<longrightarrow> R b)" unfolding assms by blast
qed

section \<open>Margins\<close>

lemma lattice_margins_inside:
  "\<forall>h\<in>set (facets p). \<not> violated h pt \<Longrightarrow> m \<in> set (lattice_margins p pt) \<Longrightarrow> 0 \<le> m"
  by (auto simp: lattice_margins_def violated_def not_less)

text \<open>A lower bound of the margins over the critical facets, facet by facet.\<close>

lemma margins_ge_iff:
  "(\<forall>m\<in>set (lattice_margins (new_polytope c) pt). d \<le> m) \<longleftrightarrow>
     (\<forall>i<14. d \<le> (if i mod 2 = 0 then pt ! i - lower_bounds c ! i else upper_bounds c ! i - pt ! i)) \<and>
     (\<forall>cf\<in>set COUPLING_FACETS.
        d \<le> pt ! pos_idx cf - pt ! neg_idx cf - of_int (lead_num cf) / of_int (lead_den cf) \<and>
        d \<le> of_int (sum_num cf) / of_int (sum_den cf) - (pt ! pos_idx cf + pt ! neg_idx cf))"
proof -
  let ?P = "\<lambda>h. critical h \<longrightarrow> d \<le> threshold h - dot (normal h) pt"
  have a: "(\<forall>h\<in>set (axis_facets (lower_bounds c) (upper_bounds c) i). ?P h) \<longleftrightarrow>
      d \<le> (if i mod 2 = 0 then pt ! i - lower_bounds c ! i else upper_bounds c ! i - pt ! i)" if "i < 14" for i
    using that by (auto simp: axis_facets_def dot_unit)
  have b: "(\<forall>h\<in>set (coupling_halfspaces cf). ?P h) \<longleftrightarrow>
      d \<le> pt ! pos_idx cf - pt ! neg_idx cf - of_int (lead_num cf) / of_int (lead_den cf) \<and>
      d \<le> of_int (sum_num cf) / of_int (sum_den cf) - (pt ! pos_idx cf + pt ! neg_idx cf)"
    if "cf \<in> set COUPLING_FACETS" for cf
  proof -
    have "pos_idx cf < 14" "neg_idx cf < 14" "pos_idx cf \<noteq> neg_idx cf"
      using that by (auto simp: COUPLING_FACETS_def)
    then show ?thesis by (auto simp: coupling_halfspaces_def dot_unit2)
  qed
  have "(\<forall>m\<in>set (lattice_margins (new_polytope c) pt). d \<le> m) \<longleftrightarrow>
        (\<forall>h\<in>set (build_lattice (lower_bounds c) (upper_bounds c)). ?P h)"
    by (auto simp: lattice_margins_def facets_new)
  also have "\<dots> \<longleftrightarrow>
      (\<forall>i<14. \<forall>h\<in>set (axis_facets (lower_bounds c) (upper_bounds c) i). ?P h) \<and>
      (\<forall>cf\<in>set COUPLING_FACETS. \<forall>h\<in>set (coupling_halfspaces cf). ?P h)"
    by (simp add: build_lattice_def DIMENSION_COUNT_def ball_Un atLeast0LessThan Ball_def lessThan_iff
          del: upt_rec_numeral) blast
  finally show ?thesis using a b by simp
qed

lemma all_less_14:
  "(\<forall>i<(14::nat). P i) \<longleftrightarrow> P 0 \<and> P 1 \<and> P 2 \<and> P 3 \<and> P 4 \<and> P 5 \<and> P 6 \<and> P 7 \<and> P 8 \<and> P 9 \<and> P 10 \<and>
     P 11 \<and> P 12 \<and> P 13"
  using ex_less_14[of "\<lambda>i. \<not> P i"] by auto

lemma margins_nonempty: "lattice_margins (new_polytope c) pt \<noteq> []"
proof
  assume "lattice_margins (new_polytope c) pt = []"
  then have "(\<forall>m\<in>set (lattice_margins (new_polytope c) pt). d \<le> m)" for d by simp
  from this[of "pt ! 0 - lower_bounds c ! 0 + 1"] show False
    unfolding margins_ge_iff all_less_14 by simp
qed

lemma min_margin_ge:
  "d \<le> min_margin (lattice_margins (new_polytope c) pt) \<longleftrightarrow>
   (\<forall>m\<in>set (lattice_margins (new_polytope c) pt). d \<le> m)"
  using min_margin_in[OF margins_nonempty] min_margin_le by (meson order_trans)

lemma season_center_margin:
  fixes s
  assumes "b \<in> {spring_bounds, summer_bounds, fall_bounds, winter_bounds}"
  defines "p \<equiv> new_polytope (from_bounds b s)"
  shows "2/25 \<le> min_margin (lattice_margins p (center p))"
proof -
  have "center p = map (\<lambda>i. (lower_bounds (from_bounds b s) ! i + upper_bounds (from_bounds b s) ! i) / 2) [0..<DIMENSION_COUNT]"
    by (simp add: p_def new_polytope_def Let_def)
  then have c: "center p =
     [(harmony_min b + 1) / 2, dominance_max b / 2, (order_min b + 1) / 2, chaos_max b / 2,
      (integrity_min b + 1) / 2, deception_max b / 2, (flourishing_min b + 1) / 2, decline_max b / 2,
      (relationships_min b + 1) / 2, isolation_max b / 2, (boundaries_min b + 1) / 2, intrusion_max b / 2,
      (grace_min b + 1) / 2, rigidity_max b / 2]"
    by (simp add: dims_upt lower_bounds_def upper_bounds_def)
  show ?thesis
    unfolding p_def min_margin_ge margins_ge_iff all_less_14
    unfolding c [unfolded p_def] using assms(1)
    by (auto simp: lower_bounds_def upper_bounds_def COUPLING_FACETS_def bounds_defs)
qed

section \<open>Properties\<close>

text \<open>
  C12: containment is exact: for the lattice of any constraints, a point is reported inside exactly
  when it satisfies the fourteen bounds and, for every principle, the lead of the virtue over its
  shadow and the restraint of their sum, compared as exact numbers without tolerance.  A point
  with a non-finite coordinate stops the program.
\<close>

theorem contains_exact:
  "map_option fst (contains gd (new_polytope c) x) =
     (if list_all is_fin x then Some (in_lattice c (map val x)) else None)"
proof (cases "list_all is_fin x")
  case True
  then have "x = map Fin (map val x)"
    by (induction x) (auto elim: is_fin.elims)
  with True show ?thesis using contains_new[of gd c "map val x"] by simp
next
  case False
  then have "contains gd (new_polytope c) x = None" by (auto simp: contains_None list_all_iff)
  with False show ?thesis by simp
qed

text \<open>
  the seasons loosen the lattice: every point inside in one season is inside in the next one
  (spring, summer, fall, winter), so no advance ever moves the walls past a point that was inside.
\<close>

theorem seasons_nested:
  "(in_lattice (from_season ''spring'') q \<longrightarrow> in_lattice (from_season ''summer'') q) \<and>
   (in_lattice (from_season ''summer'') q \<longrightarrow> in_lattice (from_season ''fall'') q) \<and>
   (in_lattice (from_season ''fall'') q \<longrightarrow> in_lattice (from_season ''winter'') q) \<and>
   (\<exists>q. in_lattice (from_season ''winter'') q \<and> \<not> in_lattice (from_season ''spring'') q)"
proof -
  have a: "in_lattice (from_season ''spring'') q \<Longrightarrow> in_lattice (from_season ''summer'') q"
    unfolding season_bounds by (erule in_lattice_mono) (simp_all add: bounds_defs)
  have b: "in_lattice (from_season ''summer'') q \<Longrightarrow> in_lattice (from_season ''fall'') q"
    unfolding season_bounds by (erule in_lattice_mono) (simp_all add: bounds_defs)
  have c: "in_lattice (from_season ''fall'') q \<Longrightarrow> in_lattice (from_season ''winter'') q"
    unfolding season_bounds by (erule in_lattice_mono) (simp_all add: bounds_defs)
  have d: "\<exists>q. in_lattice (from_season ''winter'') q \<and> \<not> in_lattice (from_season ''spring'') q"
    by (rule exI[of _ "[1/4, 0, 1/2, 0, 3/5, 0, 1/2, 0, 1/2, 0, 1/2, 0, 1/2, 0]"])
       (simp add: in_lattice_def pair_ok_def season_bounds bounds_defs)
  show ?thesis using a b c d by blast
qed

theorem seasons_nested_witness:
  "in_lattice (from_season ''summer'') [13/20, 1/4, 7/10, 3/20, 4/5, 1/10, 7/10, 3/20, 3/4, 1/5, 3/4, 3/20, 13/20, 1/4]"
proof -
  have "in_lattice (from_season ''spring'') [13/20, 1/4, 7/10, 3/20, 4/5, 1/10, 7/10, 3/20, 3/4, 1/5, 3/4, 3/20, 13/20, 1/4]"
    by (simp add: in_lattice_def pair_ok_def season_bounds bounds_defs)
  then show ?thesis using seasons_nested by blast
qed

text \<open>
  the report of a point outside is complete and correct about the bounds: for every dimension,
  an "above maximum" entry is present exactly when the coordinate exceeds its upper bound and a
  "below minimum" entry exactly when it is under its lower bound, and such an entry carries the
  dimension's name, the offending coordinate and the converted bound.
\<close>

theorem violations_report:
  assumes "contains gd (new_polytope c) (map Fin q) = Some (ok, vs)" and "i < 14" and "length q = 14"
  shows "((\<exists>v\<in>set vs. v_dimension v = int i \<and> v_type v = ''above_maximum'') \<longleftrightarrow> upper_bounds c ! i < q ! i)
       \<and> ((\<exists>v\<in>set vs. v_dimension v = int i \<and> v_type v = ''below_minimum'') \<longleftrightarrow> q ! i < lower_bounds c ! i)
       \<and> (\<forall>v\<in>set vs. v_dimension v = int i \<longrightarrow> v_name v = DIMENSION_NAMES ! i \<and> v_value v = Fin (q ! i))"
proof -
  let ?lo = "lower_bounds c" and ?up = "upper_bounds c" and ?v = "violation_of gd (map Fin q) q"
  let ?A = "\<lambda>k. \<lparr>v_dimension = int k, v_name = DIMENSION_NAMES ! k, v_value = map Fin q ! k,
         v_bound = gd (?up ! k), v_type = ''above_maximum'', v_severity = gd (q ! k - ?up ! k)\<rparr>"
  let ?B = "\<lambda>k. \<lparr>v_dimension = int k, v_name = DIMENSION_NAMES ! k, v_value = map Fin q ! k,
         v_bound = gd (- (?lo ! k)), v_type = ''below_minimum'', v_severity = gd (?lo ! k - q ! k)\<rparr>"
  have scan1: "axis_scan (unit_normal [(k, a)]) [0..<DIMENSION_COUNT] (-1) = int k"
    if "k < 14" "a \<noteq> 0" for k a
    by (rule axis_scan_one) (use that in \<open>auto simp: DIMENSION_COUNT_def unit_normal_nth simp del: upt_rec_numeral\<close>)
  have scan2: "axis_scan (normal h) [0..<DIMENSION_COUNT] (-1) < 0"
    if h: "h \<in> set (concat (map coupling_halfspaces COUPLING_FACETS))" for h
  proof -
    obtain cf where cf: "cf \<in> set COUPLING_FACETS" "h \<in> set (coupling_halfspaces cf)" using h by auto
    then have l: "pos_idx cf < 14" "neg_idx cf < 14" "pos_idx cf \<noteq> neg_idx cf"
      by (auto simp: COUPLING_FACETS_def)
    then have "normal h ! pos_idx cf \<noteq> 0" "normal h ! neg_idx cf \<noteq> 0"
      using cf(2) by (auto simp: coupling_halfspaces_def unit_normal_nth)
    then show ?thesis
      using axis_scan_two[of "pos_idx cf" "[0..<DIMENSION_COUNT]" "neg_idx cf"] l
      by (simp add: DIMENSION_COUNT_def del: upt_rec_numeral)
  qed
  have axis: "(\<exists>h\<in>set (axis_facets ?lo ?up k). violated h q \<and> v = ?v h) \<longleftrightarrow>
      (?up ! k < q ! k \<and> v = ?A k) \<or> (q ! k < ?lo ! k \<and> v = ?B k)" if "k < 14" for k v
    using that scan1[of k 1] scan1[of k "-1"]
    by (simp add: violation_of_def axis_facets_def violated_def unit_normal_nth dot_unit)
  have coup: "v_dimension (?v h) = -1" if "h \<in> set (concat (map coupling_halfspaces COUPLING_FACETS))" for h
    using scan2[OF that] by (simp add: violation_of_def Let_def)
  have vs: "vs = map ?v (filter (\<lambda>h. violated h q) (build_lattice ?lo ?up))"
    using assms(1) by (simp add: contains_Fin Let_def facets_new)
  have set_vs: "v \<in> set vs \<longleftrightarrow>
     (\<exists>k<14. (?up ! k < q ! k \<and> v = ?A k) \<or> (q ! k < ?lo ! k \<and> v = ?B k)) \<or>
     (\<exists>h\<in>set (concat (map coupling_halfspaces COUPLING_FACETS)). violated h q \<and> v = ?v h)" for v
  proof -
    have "(\<exists>h\<in>set (concat (map (axis_facets ?lo ?up) [0..<DIMENSION_COUNT])). violated h q \<and> v = ?v h) \<longleftrightarrow>
      (\<exists>k<14. \<exists>h\<in>set (axis_facets ?lo ?up k). violated h q \<and> v = ?v h)"
      by (auto simp: DIMENSION_COUNT_def simp del: upt_rec_numeral)
    also have "\<dots> \<longleftrightarrow> (\<exists>k<14. (?up ! k < q ! k \<and> v = ?A k) \<or> (q ! k < ?lo ! k \<and> v = ?B k))"
      by (simp only: axis cong: conj_cong)
    finally have "(\<exists>h\<in>set (build_lattice ?lo ?up). violated h q \<and> v = ?v h) \<longleftrightarrow>
      (\<exists>k<14. (?up ! k < q ! k \<and> v = ?A k) \<or> (q ! k < ?lo ! k \<and> v = ?B k)) \<or>
      (\<exists>h\<in>set (concat (map coupling_halfspaces COUPLING_FACETS)). violated h q \<and> v = ?v h)"
      by (simp only: build_lattice_def set_append bex_Un)
    moreover have "v \<in> set vs \<longleftrightarrow> (\<exists>h\<in>set (build_lattice ?lo ?up). violated h q \<and> v = ?v h)"
      by (auto simp: vs)
    ultimately show ?thesis by (simp only:)
  qed
  have q: "map Fin q ! i = Fin (q ! i)" using assms by simp
  have neg: "v_dimension (?v h) \<noteq> int i" if "\<exists>x\<in>set COUPLING_FACETS. h \<in> set (coupling_halfspaces x)" for h
    using that coup[of h] by auto
  have dim: "v \<in> set vs \<and> v_dimension v = int i \<longleftrightarrow>
      (?up ! i < q ! i \<and> v = ?A i) \<or> (q ! i < ?lo ! i \<and> v = ?B i)" for v
  proof -
    have "\<not> ((\<exists>h\<in>set (concat (map coupling_halfspaces COUPLING_FACETS)). violated h q \<and> v = ?v h) \<and>
             v_dimension v = int i)"
      using neg by auto
    moreover have "(\<exists>k<14. (?up ! k < q ! k \<and> v = ?A k) \<or> (q ! k < ?lo ! k \<and> v = ?B k)) \<and>
        v_dimension v = int i \<longleftrightarrow> (?up ! i < q ! i \<and> v = ?A i) \<or> (q ! i < ?lo ! i \<and> v = ?B i)"
      using assms(2) by auto
    ultimately show ?thesis unfolding set_vs by argo
  qed
  show ?thesis
    unfolding only_two[OF dim] by (simp add: q)
qed

theorem violations_report_witness:
  "\<exists>v\<in>set (snd (the (contains trunc_d (new_polytope (from_season ''spring'')) (map Fin (replicate 14 0))))).
     v_dimension v = 0 \<and> v_type v = ''below_minimum''"
proof -
  let ?p = "new_polytope (from_season ''spring'')"
  obtain ok vs where c: "contains trunc_d ?p (map Fin (replicate 14 0)) = Some (ok, vs)"
    unfolding contains_Fin by (simp add: Let_def)
  have "(replicate 14 0 :: rat list) ! 0 < lower_bounds (from_season ''spring'') ! 0"
    by (simp add: lower_bounds_def from_season_def from_bounds_def get_seasonal_bounds_def spring_bounds_def)
  then have "\<exists>v\<in>set vs. v_dimension v = int 0 \<and> v_type v = ''below_minimum''"
    using violations_report[OF c, of 0] by simp
  then have "\<exists>v\<in>set vs. v_dimension v = 0 \<and> v_type v = ''below_minimum''" by simp
  then show ?thesis by (simp only: c option.sel snd_conv)
qed

text \<open>
  adding a facet tightens the region by exactly that halfspace: a point is inside afterwards
  exactly when it was inside before and satisfies the new facet, and a list of facets counts like
  its members added one by one.
\<close>

theorem add_facet_intersects:
  "map_option fst (contains gd (add_facet p h) (map Fin q)) =
     map_option (\<lambda>r. fst r \<and> \<not> violated h q) (contains gd p (map Fin q)) \<and>
   add_facets p hs = foldl add_facet p hs"
proof
  show "map_option fst (contains gd (add_facet p h) (map Fin q)) =
     map_option (\<lambda>r. fst r \<and> \<not> violated h q) (contains gd p (map Fin q))"
    by (simp add: contains_Fin Let_def add_facet_def)
  show "add_facets p hs = foldl add_facet p hs"
  proof (induction hs arbitrary: p)
    case (Cons a hs)
    have "add_facets p (a # hs) = add_facets (add_facet p a) hs" by (simp add: add_facets_def add_facet_def)
    also have "\<dots> = foldl add_facet p (a # hs)" by (simp add: Cons)
    finally show ?case .
  qed (simp add: add_facets_def)
qed

lemma score_meaning:
  assumes gd: "gmp_get_d gd" and p_def: "p = new_polytope (from_season s)"
  shows "\<exists>r. alignment_score gd p (map Fin q) = Some (Fin r) \<and> 0 \<le> r \<and> r \<le> 1 \<and>
           (\<not> in_lattice (from_season s) q \<longrightarrow> r = 0) \<and>
           (in_lattice (from_season s) q \<longrightarrow>
             (r = 1 \<longleftrightarrow> min_margin (lattice_margins p (center p)) \<le> min_margin (lattice_margins p q)))"
proof (cases "in_lattice (from_season s) q")
  case False
  then show ?thesis
    using in_lattice_facets[of "from_season s" q] by (simp add: alignment_score_def p_def)
next
  case True
  let ?m = "min_margin (lattice_margins p q)" and ?c = "min_margin (lattice_margins p (center p))"
  have nv: "\<forall>h\<in>set (facets p). \<not> violated h q" using True in_lattice_facets[of "from_season s" q] by (auto simp: p_def)
  obtain b where b: "b \<in> {spring_bounds, summer_bounds, fall_bounds, winter_bounds}" "from_season s = from_bounds b s"
    by (rule from_season_cases)
  have c: "2/25 \<le> ?c" using season_center_margin[OF b(1), of s] by (simp add: p_def b(2))
  have m0: "0 \<le> ?m" using lattice_margins_inside[OF nv] by (simp add: p_def min_margin_ge)
  have m1: "?m \<le> 1"
  proof -
    have "\<forall>m\<in>set (lattice_margins p q). ?m \<le> m" using min_margin_ge[of ?m "from_season s" q] by (simp add: p_def)
    then have "?m \<le> q ! 0 - harmony_min (from_season s)"
      unfolding p_def margins_ge_iff all_less_14 by (simp add: lower_bounds_def)
    moreover have "0 \<le> harmony_min (from_season s)" using b by (auto simp: bounds_defs)
    moreover have "q ! 0 \<le> 1" using True by (simp add: in_lattice_def pair_ok_def)
    ultimately show ?thesis by linarith
  qed
  have lim: "16 < dbl_limit" using dbl_limit_big by simp
  have q0: "0 \<le> ?m / ?c" using m0 c by simp
  have "?m / ?c \<le> 1 / (2/25)" using m0 m1 c by (intro frac_le) auto
  also have "(1 / (2/25) :: rat) < 16" by simp
  finally have "?m / ?c < dbl_limit" using lim by (rule order_less_trans)
  with q0 have q: "0 \<le> ?m / ?c" "\<bar>?m / ?c\<bar> < dbl_limit" by (simp_all only: abs_of_nonneg)
  have sc: "alignment_score gd p (map Fin q) = Some (dclamp (gd (?m / ?c)) (Fin 0) (Fin 1))"
    using nv c by (auto simp: alignment_score_def Let_def)
  obtain r where r: "gd (?m / ?c) = Fin r" "\<bar>r\<bar> \<le> \<bar>?m / ?c\<bar>" "0 \<le> r"
    using gmp_get_d.get_d_Fin[OF gd q(2)] q(1) by metis
  have ge1: "1 \<le> r" if "1 \<le> ?m / ?c"
  proof -
    have "?m / ?c < dbl_limit" using q by (simp only: abs_of_nonneg)
    with that obtain r' where "gd (?m / ?c) = Fin r'" "1 \<le> r'"
      by (rule gmp_get_d.get_d_above_1[OF gd])
    with r(1) show ?thesis by simp
  qed
  have "r \<le> ?m / ?c" using r(2,3) q(1) by (simp only: abs_of_nonneg)
  moreover have "1 \<le> ?m / ?c \<longleftrightarrow> ?c \<le> ?m" using c by (simp add: le_divide_eq)
  ultimately have iff: "1 \<le> r \<longleftrightarrow> ?c \<le> ?m" using ge1 by linarith
  show ?thesis
    using True iff r(1,3) sc by (auto simp: dclamp_def)
qed

text \<open>
  the alignment score of a finite point in a season's lattice is a number between 0 and 1; it
  is 0 for every point outside the lattice; and inside it is 1 exactly when the point is at least
  as far from its nearest ethical wall as the center of the lattice is from its own.
\<close>

theorem alignment_score_meaning:
  assumes gd: "gmp_get_d gd" and p_def: "p = new_polytope (from_season s)"
  shows "\<exists>r. alignment_score gd p (map Fin q) = Some (Fin r) \<and> 0 \<le> r \<and> r \<le> 1 \<and>
           (\<not> in_lattice (from_season s) q \<longrightarrow> r = 0) \<and>
           (in_lattice (from_season s) q \<longrightarrow>
             (r = 1 \<longleftrightarrow> min_margin (lattice_margins p (center p)) \<le> min_margin (lattice_margins p q)))"
  using assms by (rule score_meaning)

theorem alignment_score_meaning_witness:
  "\<exists>r. alignment_score trunc_d (new_polytope (from_season ''spring'')) (map Fin (replicate 14 0)) = Some (Fin r) \<and> r = 0"
proof -
  have "\<not> in_lattice (from_season ''spring'') (replicate 14 0)"
    by (simp add: in_lattice_def pair_ok_def season_bounds bounds_defs)
  then show ?thesis
    using alignment_score_meaning[OF gmp.gmp_get_d_axioms refl, of "''spring''" "replicate 14 0"] by blast
qed

text \<open>
  the near walls are the nearest ones: among the ethical walls within the threshold of a finite
  point, the reported names belong to the four with the smallest distances (all of them when there
  are fewer), nearest first.
\<close>

theorem near_walls_nearest:
  "\<exists>ws. near_walls gd p (map Fin q) thr = Some (map snd ws)
      \<and> length ws = min 4 (length (walls_within gd p q thr))
      \<and> mset ws \<subseteq># mset (walls_within gd p q thr)
      \<and> sorted_wrt (\<lambda>a b. dle (fst a) (fst b)) ws
      \<and> (\<forall>a \<in># mset (walls_within gd p q thr) - mset ws. \<forall>b \<in> set ws. dle (fst b) (fst a))"
proof (intro exI[of _ "take 4 (wall_sort (walls_within gd p q thr))"] conjI)
  let ?W = "walls_within gd p q thr" and ?S = "wall_sort (walls_within gd p q thr)"
  have "\<forall>v\<in>set ?W. fst v \<noteq> NaN" by (auto simp: walls_within_def dle_def deq_def)
  then have s: "sorted_wrt (\<lambda>a b. dle (fst a) (fst b)) ?S" by (rule wall_sort_sorted)
  have m: "mset ?W = mset (take 4 ?S) + mset (drop 4 ?S)"
    by (metis append_take_drop_id mset_append mset_wall_sort)
  have l: "length ?S = length ?W" by (metis mset_wall_sort size_mset)
  show "near_walls gd p (map Fin q) thr = Some (map snd (take 4 ?S))" by (simp add: near_walls_def)
  show "length (take 4 ?S) = min 4 (length ?W)" by (simp add: l)
  show "mset (take 4 ?S) \<subseteq># mset ?W" by (simp add: m)
  show "sorted_wrt (\<lambda>a b. dle (fst a) (fst b)) (take 4 ?S)" using s by (rule sorted_wrt_take)
  have "sorted_wrt (\<lambda>a b. dle (fst a) (fst b)) (take 4 ?S @ drop 4 ?S)" using s by simp
  then show "\<forall>a \<in># mset ?W - mset (take 4 ?S). \<forall>b \<in> set (take 4 ?S). dle (fst b) (fst a)"
    unfolding sorted_wrt_append by (auto simp: m)
qed

theorem near_walls_nearest_witness:
  "\<exists>ws :: (dbl \<times> string) list. near_walls trunc_d (new_polytope (from_season ''spring'')) (map Fin (replicate 14 0)) (Fin 1) = Some (map snd ws)
      \<and> length ws \<le> 4"
proof -
  obtain ws :: "(dbl \<times> string) list" where "near_walls trunc_d (new_polytope (from_season ''spring'')) (map Fin (replicate 14 0)) (Fin 1) = Some (map snd ws)"
    and "length ws = min 4 (length (walls_within trunc_d (new_polytope (from_season ''spring'')) (replicate 14 0) (Fin 1)))"
    using near_walls_nearest[of trunc_d "new_polytope (from_season ''spring'')" "replicate 14 0" "Fin 1"] by blast
  then show ?thesis by (intro exI[of _ ws]) simp
qed

end
