(* ===== verification/Polytope_Project.thy ===== *)
theory Polytope_Project
  imports Polytope
begin

text \<open>
  \<^verbatim>\<open>EthicalPolytope::project\<close> and \<^verbatim>\<open>distance_to_boundary\<close> (\<^verbatim>\<open>src/src/value_engine.cpp\<close>):
  Dykstra's alternating projections in doubles, one correction per facet, then the exact check
  with inward steps and the center as the last resort.  Both loops are bounded in the code (2000
  sweeps, 200 steps) and are recursions on that bound.  The result is \<open>None\<close> when the exact check
  is handed a non-finite number, which stops the program.
\<close>

section \<open>The code\<close>

definition kMaxIterations :: nat where "kMaxIterations = 2000"
definition kEpsilon :: dbl where "kEpsilon = lit (1 / 10 ^ 12)"

text \<open>One facet of a sweep: position \<open>y\<close>, correction \<open>p\<close> of the facet, largest move so far.\<close>

definition facet_dot :: "dbl list \<Rightarrow> dbl list \<Rightarrow> dbl list \<Rightarrow> dbl" where
  "facet_dot a y p = foldl (\<lambda>d i. dadd d (dmul (a ! i) (dadd (y ! i) (p ! i)))) (Fin 0) [0..<DIMENSION_COUNT]"

definition facet_norm :: "dbl list \<Rightarrow> dbl" where
  "facet_norm a = foldl (\<lambda>n i. dadd n (dmul (a ! i) (a ! i))) (Fin 0) [0..<DIMENSION_COUNT]"

definition facet_step ::
  "(rat \<Rightarrow> dbl) \<Rightarrow> halfspace \<Rightarrow> dbl list \<Rightarrow> dbl list \<Rightarrow> dbl \<Rightarrow> dbl list \<times> dbl list \<times> dbl" where
  "facet_step gd h y p max_move =
     (let a = map gd (normal h); nrm = facet_norm a; b = gd (threshold h)
      in if dle nrm (Fin 0) then (y, p, max_move) else
      let viol = dsub (facet_dot a y p) b
      in if dle viol (Fin 0)
         then (map (\<lambda>i. dadd (y ! i) (p ! i)) [0..<DIMENSION_COUNT], zero_vector, max_move)
         else
           let z_old = map (\<lambda>i. dadd (y ! i) (p ! i)) [0..<DIMENSION_COUNT];
               z_new = map (\<lambda>i. dsub (z_old ! i) (dmul (ddiv viol nrm) (a ! i))) [0..<DIMENSION_COUNT]
           in (z_new,
               map (\<lambda>i. dsub (z_old ! i) (z_new ! i)) [0..<DIMENSION_COUNT],
               foldl (\<lambda>m i. dmax m (dabs (dsub (z_new ! i) (z_old ! i)))) max_move [0..<DIMENSION_COUNT]))"

fun facet_sweep ::
  "(rat \<Rightarrow> dbl) \<Rightarrow> halfspace list \<Rightarrow> dbl list \<Rightarrow> dbl list list \<Rightarrow> dbl \<Rightarrow> dbl list \<times> dbl list list \<times> dbl" where
  "facet_sweep gd (h # hs) y (p # ps) mm =
     (let (y', p', mm') = facet_step gd h y p mm;
          (y'', ps', mm'') = facet_sweep gd hs y' ps mm'
      in (y'', p' # ps', mm''))"
| "facet_sweep gd hs y ps mm = (y, ps, mm)"

fun dykstra :: "(rat \<Rightarrow> dbl) \<Rightarrow> halfspace list \<Rightarrow> nat \<Rightarrow> dbl list \<Rightarrow> dbl list list \<Rightarrow> dbl list" where
  "dykstra gd hs 0 y ps = y"
| "dykstra gd hs (Suc n) y ps =
     (let (y', ps', mm) = facet_sweep gd hs y ps (Fin 0) in
      if dless mm kEpsilon then y'
      else if list_all is_fin y' then dykstra gd hs n y' ps' else y')"

text \<open>One pass of inward steps over the violated facets; the flag tells whether any step was made.\<close>

definition nudge_step :: "(rat \<Rightarrow> dbl) \<Rightarrow> halfspace \<Rightarrow> rat list \<Rightarrow> dbl list \<Rightarrow> dbl list" where
  "nudge_step gd h pt v =
     (let d = dot (normal h) pt;
          stp = dadd (gd ((d - threshold h) / norm_squared (normal h))) (lit (1 / 10 ^ 13))
      in map (\<lambda>i. dsub (v ! i) (dmul (gd (normal h ! i)) stp)) [0..<DIMENSION_COUNT])"

fun nudge_pass :: "(rat \<Rightarrow> dbl) \<Rightarrow> halfspace list \<Rightarrow> dbl list \<Rightarrow> bool \<Rightarrow> (dbl list \<times> bool) option" where
  "nudge_pass gd [] v moved = Some (v, moved)"
| "nudge_pass gd (h # hs) v moved =
     (case to_mpq_vec v of None \<Rightarrow> None | Some pt \<Rightarrow>
        if violated h pt \<and> norm_squared (normal h) \<noteq> 0
        then nudge_pass gd hs (nudge_step gd h pt v) True
        else nudge_pass gd hs v moved)"

definition last_resort :: "(rat \<Rightarrow> dbl) \<Rightarrow> polytope \<Rightarrow> dbl list \<Rightarrow> dbl list option" where
  "last_resort gd p v =
     map_option (\<lambda>r. if fst r then v else map gd (center p)) (contains gd p v)"

fun verify_and_nudge :: "(rat \<Rightarrow> dbl) \<Rightarrow> polytope \<Rightarrow> nat \<Rightarrow> dbl list \<Rightarrow> dbl list option" where
  "verify_and_nudge gd p 0 v = last_resort gd p v"
| "verify_and_nudge gd p (Suc n) v =
     (case contains gd p v of None \<Rightarrow> None | Some (inside, _) \<Rightarrow>
        if inside then Some v
        else case nudge_pass gd (facets p) v False of None \<Rightarrow> None | Some (v', moved) \<Rightarrow>
          if moved then verify_and_nudge gd p n v' else last_resort gd p v')"

definition project :: "(rat \<Rightarrow> dbl) \<Rightarrow> polytope \<Rightarrow> dbl list \<Rightarrow> dbl list option" where
  "project gd p x =
     verify_and_nudge gd p 200
       (dykstra gd (facets p) kMaxIterations x (replicate (length (facets p)) zero_vector))"

definition distance_to_boundary :: "(rat \<Rightarrow> dbl) \<Rightarrow> polytope \<Rightarrow> dbl list \<Rightarrow> dbl option" where
  "distance_to_boundary gd p x =
     (case to_mpq_vec x of None \<Rightarrow> None | Some pt \<Rightarrow>
      case contains gd p x of None \<Rightarrow> None | Some (inside, _) \<Rightarrow>
        if \<not> inside then
          map_option (\<lambda>projected.
            dsqrt (foldl (\<lambda>s i. let diff = dsub (x ! i) (projected ! i) in dadd s (dmul diff diff))
                     (Fin 0) [0..<DIMENSION_COUNT])) (project gd p x)
        else Some (gd (min_margin (lattice_margins p pt))))"

end
