(* ===== verification/Polytope_Total.thy ===== *)
theory Polytope_Total
  imports Polytope_Project
begin

text \<open>
  The projection always returns, and what it returns is inside.  Dykstra's sweeps keep
  \<open>\<parallel>y - c\<parallel>\<^sup>2 + 2 * (\<Sum>f. l f * m f)\<close> from growing, for the center \<open>c\<close> of the lattice, the margin
  \<open>m f > 0\<close> of the center at facet \<open>f\<close> and the multiple \<open>l f \<ge> 0\<close> of the facet's normal that its
  correction holds.  The lemmas carry this through the rounding of every operation: one facet adds
  at most \<open>kappa\<close>, so after 2000 sweeps over 42 facets every coordinate is still within 4 of the
  center and no infinity or NaN has appeared.  The inward steps do not move away from the center
  either.
\<close>

definition eta :: rat where "eta = 1 / 2 ^ 42"
definition kappa :: rat where "kappa = 1 / 2 ^ 24"

lemma eta_pos [simp]: "0 < eta" by (simp add: eta_def)
lemma eta_small: "eta * 1000000 \<le> 1" "1000 * eta \<le> 1" by (simp_all add: eta_def)
lemma eta_kappa: "200000 * eta \<le> kappa" by (simp add: eta_def kappa_def)
lemma kappa_pos [simp]: "0 < kappa" by (simp add: kappa_def)

lemma rnd_val:
  assumes "\<bar>q\<bar> \<le> 2048"
  shows "rnd q = Fin (val (rnd q))" "\<bar>val (rnd q) - q\<bar> \<le> eta"
  using rnd_close[OF assms] unfolding eta_def by (metis val.simps(1))+

lemma rnd_val_nonneg: "0 \<le> q \<Longrightarrow> 0 \<le> val (rnd q)"
  by (simp add: rnd_def Let_def round_rat_nonneg)

text \<open>A vector of finite doubles.\<close>

definition fv :: "(nat \<Rightarrow> rat) \<Rightarrow> dbl list" where
  "fv Y = map (\<lambda>i. Fin (Y i)) [0..<DIMENSION_COUNT]"

lemma DC: "DIMENSION_COUNT = 14" by (simp add: DIMENSION_COUNT_def)

lemma fv_nth [simp]: "i < 14 \<Longrightarrow> fv Y ! i = Fin (Y i)"
  by (simp add: fv_def DC del: upt_rec_numeral)

lemma fv_fin [simp]: "list_all is_fin (fv Y)"
  by (simp add: fv_def list_all_iff)

lemma zero_vector_fv: "zero_vector = fv (\<lambda>_. 0)"
  by (simp add: zero_vector_def fv_def DC map_replicate_const del: upt_rec_numeral)

lemma fv_cong: "(\<And>i. i < 14 \<Longrightarrow> Y i = Z i) \<Longrightarrow> fv Y = fv Z"
  by (simp add: fv_def DC del: upt_rec_numeral)

lemma to_mpq_fv [simp]: "to_mpq_vec (fv Y) = Some (map Y [0..<14])"
  using to_mpq_vec_Fin[of "map Y [0..<14]"] by (simp add: fv_def DC comp_def del: upt_rec_numeral to_mpq_vec_Fin)

lemma dot_sum: "length a = 14 \<Longrightarrow> dot a (map Y [0..<14]) = (\<Sum>i<14. a ! i * Y i)"
proof -
  have "dot a (map Y [0..<14]) = (\<Sum>i\<leftarrow>[0..<14]. a ! i * Y i)"
    unfolding dot_def DC by (intro arg_cong[of _ _ sum_list] map_cong refl) (simp del: upt_rec_numeral)
  then show ?thesis by (simp add: sum_list_distinct_conv_sum_set atLeast0LessThan del: upt_rec_numeral)
qed

section \<open>Facets that the argument covers\<close>

definition good_facet :: "(nat \<Rightarrow> rat) \<Rightarrow> halfspace \<Rightarrow> bool" where
  "good_facet C h \<longleftrightarrow>
     length (normal h) = 14 \<and> (\<forall>i<14. normal h ! i \<in> {-1, 0, 1}) \<and>
     norm_squared (normal h) \<in> {1, 2} \<and> (\<Sum>i<14. \<bar>normal h ! i\<bar>) = norm_squared (normal h) \<and>
     \<bar>threshold h\<bar> \<le> 2 \<and> 2/25 \<le> threshold h - (\<Sum>i<14. normal h ! i * C i)"

definition dist2 :: "(nat \<Rightarrow> rat) \<Rightarrow> (nat \<Rightarrow> rat) \<Rightarrow> rat" where
  "dist2 C Y = (\<Sum>i<14. (Y i - C i)\<^sup>2)"

lemma dist2_nonneg [simp]: "0 \<le> dist2 C Y"
  by (simp add: dist2_def sum_nonneg)

lemma dist2_coord: "dist2 C Y \<le> 16 \<Longrightarrow> i < 14 \<Longrightarrow> \<bar>Y i - C i\<bar> \<le> 4"
proof -
  assume d: "dist2 C Y \<le> 16" and i: "i < 14"
  have "(Y i - C i)\<^sup>2 \<le> dist2 C Y"
    unfolding dist2_def using i by (intro member_le_sum) simp_all
  with d have "(Y i - C i)\<^sup>2 \<le> 4\<^sup>2" by simp
  then show ?thesis using abs_le_square_iff[of "Y i - C i" 4] by simp
qed

text \<open>Moving along a normal, with an error in every coordinate.\<close>

lemma dist2_move:
  "dist2 C (\<lambda>i. Y i + d * a i + e i) =
     dist2 C Y + 2 * d * ((\<Sum>i<14. a i * Y i) - (\<Sum>i<14. a i * C i)) + d\<^sup>2 * (\<Sum>i<14. (a i)\<^sup>2)
     + (\<Sum>i<14. 2 * e i * (Y i - C i + d * a i) + (e i)\<^sup>2)"
  unfolding dist2_def
  by (simp add: sum_subtractf [symmetric] sum.distrib [symmetric] sum_distrib_left
      power2_eq_square algebra_simps)

lemma move_error:
  fixes e :: "nat \<Rightarrow> rat"
  assumes e: "\<And>i. i < 14 \<Longrightarrow> \<bar>e i\<bar> \<le> 7 * eta" and y: "\<And>i. i < 14 \<Longrightarrow> \<bar>Y i - C i\<bar> \<le> 4"
    and a: "\<And>i. i < 14 \<Longrightarrow> \<bar>a i\<bar> \<le> 1" and d: "\<bar>d\<bar> \<le> 300"
  shows "(\<Sum>i<14. 2 * e i * (Y i - C i + d * a i) + (e i)\<^sup>2) \<le> 60000 * eta"
proof -
  have t: "2 * e i * (Y i - C i + d * a i) + (e i)\<^sup>2 \<le> 4257 * eta" if i: "i < 14" for i
  proof -
    have "\<bar>d * a i\<bar> \<le> 300 * 1" unfolding abs_mult using a[OF i] d by (intro mult_mono) simp_all
    then have w: "\<bar>Y i - C i + d * a i\<bar> \<le> 304" using y[OF i] by linarith
    have "\<bar>e i * (Y i - C i + d * a i)\<bar> \<le> (7 * eta) * 304"
      unfolding abs_mult using e[OF i] w by (intro mult_mono) simp_all
    then have "2 * e i * (Y i - C i + d * a i) \<le> 2 * (7 * eta * 304)" by linarith
    moreover have "(e i)\<^sup>2 \<le> eta"
    proof -
      have "(e i)\<^sup>2 \<le> (7 * eta)\<^sup>2" using e[OF i] eta_pos by (intro abs_le_square_iff [THEN iffD1]) simp
      also have "\<dots> = 49 * eta * eta" by (simp add: power2_eq_square)
      also have "\<dots> \<le> 1 * eta" using eta_small(2) by (intro mult_right_mono) (simp_all add: less_imp_le)
      finally show ?thesis by simp
    qed
    ultimately show ?thesis by linarith
  qed
  have "(\<Sum>i<14. 2 * e i * (Y i - C i + d * a i) + (e i)\<^sup>2) \<le> (\<Sum>i<(14::nat). 4257 * eta)"
    by (intro sum_mono) (simp add: t)
  also have "\<dots> \<le> 60000 * eta" by simp
  finally show ?thesis .
qed

text \<open>One facet: the potential grows by at most \<open>kappa\<close>.\<close>

lemma potential_step:
  fixes e :: "nat \<Rightarrow> rat"
  assumes e: "\<And>i. i < 14 \<Longrightarrow> \<bar>e i\<bar> \<le> 7 * eta" and y: "\<And>i. i < 14 \<Longrightarrow> \<bar>Y i - C i\<bar> \<le> 4"
    and a: "\<And>i. i < 14 \<Longrightarrow> \<bar>a i\<bar> \<le> 1" and l: "0 \<le> l" "l \<le> 200" and l': "0 \<le> l'" "l' \<le> 300"
    and n: "n = (\<Sum>i<14. (a i)\<^sup>2)" "0 \<le> n" and m: "m = b - (\<Sum>i<14. a i * C i)"
    and g: "g = (\<Sum>i<14. a i * Y i) + l * n - b"
    and cs: "l' = 0 \<and> g \<le> 110 * eta \<or> \<bar>g - n * l'\<bar> \<le> 110 * eta"
  shows "dist2 C (\<lambda>i. Y i + (l - l') * a i + e i) + 2 * l' * m \<le> dist2 C Y + 2 * l * m + kappa"
proof -
  let ?d = "l - l'"
  have d: "\<bar>?d\<bar> \<le> 300" using l l' by linarith
  let ?err = "\<Sum>i<14. 2 * e i * (Y i - C i + ?d * a i) + (e i)\<^sup>2"
  have err: "?err \<le> 60000 * eta" by (rule move_error[OF e y a d])
  have "(\<Sum>i<14. a i * Y i) - (\<Sum>i<14. a i * C i) = g - l * n + m" using g m by simp
  then have eq: "dist2 C (\<lambda>i. Y i + ?d * a i + e i) =
      dist2 C Y + 2 * ?d * (g - l * n + m) + ?d\<^sup>2 * n + ?err"
    by (simp only: dist2_move n(1) [symmetric])
  have core: "2 * ?d * (g - l * n) + ?d\<^sup>2 * n \<le> 66000 * eta"
    using cs
  proof
    assume A: "l' = 0 \<and> g \<le> 110 * eta"
    have "2 * l * g \<le> 2 * l * (110 * eta)" using A l by (intro mult_left_mono) simp_all
    also have "\<dots> \<le> 2 * 300 * (110 * eta)" using l by (intro mult_right_mono) (simp_all add: less_imp_le)
    finally have "2 * l * g \<le> 66000 * eta" by simp
    moreover have "0 \<le> l\<^sup>2 * n" using n(2) by simp
    ultimately show ?thesis using A by (simp add: algebra_simps power2_eq_square)
  next
    assume B: "\<bar>g - n * l'\<bar> \<le> 110 * eta"
    have "2 * ?d * (g - l * n) + ?d\<^sup>2 * n = 2 * ?d * (g - n * l') - ?d\<^sup>2 * n"
      by (simp add: algebra_simps power2_eq_square)
    also have "\<dots> \<le> 2 * \<bar>?d * (g - n * l')\<bar>"
    proof -
      have "0 \<le> ?d\<^sup>2 * n" using n(2) by simp
      moreover have "?d * (g - n * l') \<le> \<bar>?d * (g - n * l')\<bar>" by simp
      ultimately show ?thesis by linarith
    qed
    also have "\<dots> \<le> 2 * (300 * (110 * eta))"
      unfolding abs_mult using B d by (intro mult_left_mono mult_mono) simp_all
    finally show ?thesis by simp
  qed
  have "dist2 C (\<lambda>i. Y i + ?d * a i + e i) + 2 * l' * m =
        dist2 C Y + 2 * l * m + (2 * ?d * (g - l * n) + ?d\<^sup>2 * n) + ?err"
    unfolding eq by (simp add: algebra_simps)
  then show ?thesis using core err eta_kappa eta_pos by linarith
qed

section \<open>The operations of one facet\<close>

lemma dot_fold:
  assumes A: "\<And>i. i < 14 \<Longrightarrow> \<bar>A i\<bar> \<le> 1" and YP: "\<And>i. i < 14 \<Longrightarrow> \<bar>Y i + P i\<bar> \<le> 134"
  shows "\<forall>i\<in>set is. i < 14 \<Longrightarrow> \<bar>d\<bar> \<le> 135 * of_nat k \<Longrightarrow> k + length is \<le> 14 \<Longrightarrow>
    \<exists>D. foldl (\<lambda>d i. dadd d (dmul (fv A ! i) (dadd (fv Y ! i) (fv P ! i)))) (Fin d) is = Fin D
      \<and> \<bar>D - (d + (\<Sum>i\<leftarrow>is. A i * (Y i + P i)))\<bar> \<le> 3 * eta * of_nat (length is)"
proof (induction "is" arbitrary: d k)
  case (Cons i "is")
  have i: "i < 14" using Cons.prems by simp
  define z where "z = val (rnd (Y i + P i))"
  define w where "w = val (rnd (A i * z))"
  define d' where "d' = val (rnd (d + w))"
  have k: "k \<le> 13" using Cons.prems(3) by simp
  have z: "rnd (Y i + P i) = Fin z" "\<bar>z - (Y i + P i)\<bar> \<le> eta"
    unfolding z_def using YP[OF i] by (intro rnd_val; linarith)+
  have zb: "\<bar>z\<bar> \<le> 134 + eta" using z(2) YP[OF i] by linarith
  have "\<bar>A i * z\<bar> \<le> 1 * \<bar>z\<bar>" unfolding abs_mult using A[OF i] by (intro mult_right_mono) simp_all
  then have Azb: "\<bar>A i * z\<bar> \<le> 134 + eta" using zb by simp
  have w: "rnd (A i * z) = Fin w" "\<bar>w - A i * z\<bar> \<le> eta"
    unfolding w_def using Azb eta_small(2) by (intro rnd_val; linarith)+
  have "\<bar>A i * (z - (Y i + P i))\<bar> \<le> 1 * eta"
    unfolding abs_mult using A[OF i] z(2) by (intro mult_mono) simp_all
  then have w2: "\<bar>w - A i * (Y i + P i)\<bar> \<le> 2 * eta" using w(2) by (simp add: algebra_simps)
  have wb: "\<bar>w\<bar> \<le> 134 + 2 * eta" using w(2) Azb by linarith
  have kb: "135 * (of_nat k :: rat) \<le> 135 * 13" using k by simp
  have d: "rnd (d + w) = Fin d'" "\<bar>d' - (d + w)\<bar> \<le> eta"
    unfolding d'_def using wb Cons.prems(2) kb eta_small(2) by (intro rnd_val; linarith)+
  have "\<bar>d'\<bar> \<le> 135 * of_nat (Suc k)"
    using d(2) wb Cons.prems(2) eta_small(2) by simp
  then obtain D where D: "foldl (\<lambda>d i. dadd d (dmul (fv A ! i) (dadd (fv Y ! i) (fv P ! i)))) (Fin d') is = Fin D"
    "\<bar>D - (d' + (\<Sum>i\<leftarrow>is. A i * (Y i + P i)))\<bar> \<le> 3 * eta * of_nat (length is)"
    using Cons.IH[of d' "Suc k"] Cons.prems by auto
  have "dadd (Fin d) (dmul (fv A ! i) (dadd (fv Y ! i) (fv P ! i))) = Fin d'"
    using i z(1) w(1) d(1) by simp
  moreover have "\<bar>D - (d + (\<Sum>i\<leftarrow>i # is. A i * (Y i + P i)))\<bar> \<le> 3 * eta * of_nat (length (i # is))"
    using D(2) d(2) w2 by (simp add: algebra_simps)
  ultimately show ?case using D(1) by auto
qed simp

lemma sum_list_14: "(\<Sum>i\<leftarrow>[0..<14]. f i) = (\<Sum>i<14. f (i::nat))"
  by (simp add: sum_list_distinct_conv_sum_set atLeast0LessThan del: upt_rec_numeral)

lemma facet_dot_close:
  assumes "\<And>i. i < 14 \<Longrightarrow> \<bar>A i\<bar> \<le> 1" "\<And>i. i < 14 \<Longrightarrow> \<bar>Y i + P i\<bar> \<le> 134"
  obtains D where "facet_dot (fv A) (fv Y) (fv P) = Fin D"
    and "\<bar>D - (\<Sum>i<14. A i * (Y i + P i))\<bar> \<le> 42 * eta"
  using dot_fold[of A Y P "[0..<14]" 0 0, OF assms] that
  unfolding facet_dot_def DC sum_list_14 by auto

lemma norm_fold:
  assumes A: "\<And>i. i < 14 \<Longrightarrow> A i \<in> {-1, 0, 1}"
  shows "\<forall>i\<in>set is. i < 14 \<Longrightarrow> d = of_int m \<Longrightarrow> 0 \<le> m \<Longrightarrow> m + int (length is) \<le> 100 \<Longrightarrow>
    foldl (\<lambda>n i. dadd n (dmul (fv A ! i) (fv A ! i))) (Fin d) is = Fin (d + (\<Sum>i\<leftarrow>is. A i * A i))"
proof (induction "is" arbitrary: d m)
  case (Cons i "is")
  have i: "i < 14" using Cons.prems by simp
  have "A i * A i = of_int (if A i = 0 then 0 else 1)" using A[OF i] by auto
  then obtain j where j: "A i * A i = of_int j" "0 \<le> j" "j \<le> 1" by (metis (full_types) order.refl zero_le_one)
  have "dadd (Fin d) (dmul (fv A ! i) (fv A ! i)) = Fin (of_int (m + j))"
    using i j Cons.prems lit_of_int[of j] lit_of_int[of "m + j"] by simp
  with Cons.IH[of "of_int (m + j)" "m + j"] Cons.prems j show ?case by (simp add: algebra_simps)
qed simp

lemma facet_norm_exact:
  assumes "\<And>i. i < 14 \<Longrightarrow> A i \<in> {-1, 0, 1}"
  shows "facet_norm (fv A) = Fin (\<Sum>i<14. (A i)\<^sup>2)"
  using norm_fold[of A "[0..<14]" 0 0, OF assms]
  unfolding facet_norm_def DC sum_list_14 by (simp add: power2_eq_square del: upt_rec_numeral)

lemma get_d_unit:
  assumes "gmp_get_d gd" "a \<in> {-1, 0, 1}"
  shows "gd a = Fin a"
proof -
  have n: "(2::rat) powi (-1022) \<le> 1"
    using powi_le_iff[of "-1022" 0] by (simp only: power_int_0_right)
  have r: "rep (-1)" using rep_minus[OF rep_1] by simp
  show ?thesis
    using assms(2) gmp_get_d.get_d_rep[OF assms(1), of a] n r dbl_limit_big by auto
qed

text \<open>The margin of the center at a facet, measured with the converted threshold.\<close>

definition marg :: "(rat \<Rightarrow> dbl) \<Rightarrow> (nat \<Rightarrow> rat) \<Rightarrow> halfspace \<Rightarrow> rat" where
  "marg gd C h = val (gd (threshold h)) - (\<Sum>i<14. normal h ! i * C i)"

lemma good_facetD:
  assumes "good_facet C h"
  shows "length (normal h) = 14" "i < 14 \<Longrightarrow> normal h ! i \<in> {-1, 0, 1}" "i < 14 \<Longrightarrow> \<bar>normal h ! i\<bar> \<le> 1"
    and "norm_squared (normal h) = (\<Sum>i<14. (normal h ! i)\<^sup>2)"
    and "1 \<le> norm_squared (normal h)" "norm_squared (normal h) \<le> 2"
    and "(\<Sum>i<14. \<bar>normal h ! i\<bar>) \<le> 2"
    and "2/25 \<le> threshold h - (\<Sum>i<14. normal h ! i * C i)"
proof -
  show l: "length (normal h) = 14" using assms by (simp add: good_facet_def)
  show a: "normal h ! i \<in> {-1, 0, 1}" if "i < 14" for i
    using assms that by (simp add: good_facet_def)
  show "\<bar>normal h ! i\<bar> \<le> 1" if "i < 14" for i using a[OF that] by auto
  show "norm_squared (normal h) = (\<Sum>i<14. (normal h ! i)\<^sup>2)"
    unfolding norm_squared_def using l
    by (simp add: sum_list_sum_nth atLeast0LessThan power2_eq_square)
  show "1 \<le> norm_squared (normal h)" "norm_squared (normal h) \<le> 2" "(\<Sum>i<14. \<bar>normal h ! i\<bar>) \<le> 2"
    using assms by (auto simp: good_facet_def)
  show "2/25 \<le> threshold h - (\<Sum>i<14. normal h ! i * C i)"
    using assms by (simp add: good_facet_def)
qed

lemma good_threshold:
  assumes "gmp_get_d gd" "good_facet C h"
  shows "gd (threshold h) = Fin (val (gd (threshold h)))" "\<bar>val (gd (threshold h))\<bar> \<le> 3" "1/16 \<le> marg gd C h"
proof -
  have t: "\<bar>threshold h\<bar> \<le> 2" using assms(2) by (simp add: good_facet_def)
  obtain r where r: "gd (threshold h) = Fin r" "\<bar>r - threshold h\<bar> \<le> 1 / 2 ^ 44"
    using gmp_get_d.get_d_close[OF assms(1), of "threshold h"] t by auto
  have s: "(1 / 2 ^ 44 :: rat) \<le> 1/100" by simp
  from r show "gd (threshold h) = Fin (val (gd (threshold h)))" by simp
  have "\<bar>r\<bar> \<le> 3" using r(2) s t by linarith
  with r show "\<bar>val (gd (threshold h))\<bar> \<le> 3" by simp
  have "threshold h - 1 / 2 ^ 44 \<le> r" using r(2) by linarith
  then have "threshold h - 1 / 100 \<le> r" using s by linarith
  then have "1/16 \<le> r - (\<Sum>i<14. normal h ! i * C i)" using good_facetD(8)[OF assms(2)] by linarith
  with r(1) show "1/16 \<le> marg gd C h" by (simp add: marg_def)
qed

lemma sum_weighted:
  fixes a x :: "nat \<Rightarrow> rat"
  assumes "(\<Sum>i<14. \<bar>a i\<bar>) \<le> 2" "\<And>i. i < 14 \<Longrightarrow> \<bar>x i\<bar> \<le> B" "0 \<le> B"
  shows "\<bar>\<Sum>i<14. a i * x i\<bar> \<le> 2 * B"
proof -
  have "\<bar>\<Sum>i<14. a i * x i\<bar> \<le> (\<Sum>i<14. \<bar>a i * x i\<bar>)" by (rule sum_abs)
  also have "\<dots> \<le> (\<Sum>i<14. \<bar>a i\<bar> * B)"
    using assms(2) by (intro sum_mono) (simp add: abs_mult mult_left_mono)
  also have "\<dots> = (\<Sum>i<14. \<bar>a i\<bar>) * B" by (simp add: sum_distrib_right)
  also have "\<dots> \<le> 2 * B" using assms(1,3) by (intro mult_right_mono)
  finally show ?thesis .
qed

lemma dsub_Fin: "dsub (Fin a) (Fin b) = rnd (a - b)"
  by (simp add: dsub_def)

lemma facet_step_ok:
  assumes gd: "gmp_get_d gd" and good: "good_facet C h"
    and C: "\<And>i. i < 14 \<Longrightarrow> 0 \<le> C i \<and> C i \<le> 1"
    and Y: "\<And>i. i < 14 \<Longrightarrow> \<bar>Y i - C i\<bar> \<le> 4" and l: "0 \<le> l" "l \<le> 128"
    and P: "\<And>i. i < 14 \<Longrightarrow> \<bar>P i - l * normal h ! i\<bar> \<le> 4 * eta"
  obtains Y' P' l' mm' where "facet_step gd h (fv Y) (fv P) mm = (fv Y', fv P', mm')" "0 \<le> l'"
    and "\<And>i. i < 14 \<Longrightarrow> \<bar>P' i - l' * normal h ! i\<bar> \<le> 4 * eta"
    and "dist2 C Y' + 2 * l' * marg gd C h \<le> dist2 C Y + 2 * l * marg gd C h + kappa"
proof -
  define a where "a = (\<lambda>i. normal h ! i)"
  define b where "b = val (gd (threshold h))"
  define n where "n = norm_squared (normal h)"
  note gh = good_facetD[OF good]
  have b: "gd (threshold h) = Fin b" "\<bar>b\<bar> \<le> 3" using good_threshold[OF gd good] by (simp_all add: b_def)
  have m: "marg gd C h = b - (\<Sum>i<14. a i * C i)" by (simp add: marg_def a_def b_def)
  have a1: "\<And>i. i < 14 \<Longrightarrow> \<bar>a i\<bar> \<le> 1" and a2: "(\<Sum>i<14. \<bar>a i\<bar>) \<le> 2"
    and n: "n = (\<Sum>i<14. (a i)\<^sup>2)" "1 \<le> n" "n \<le> 2" using gh by (simp_all add: a_def n_def)
  have av: "map gd (normal h) = fv a"
    by (rule nth_equalityI) (simp_all add: gh(1) fv_def DC a_def get_d_unit[OF gd gh(2)] del: upt_rec_numeral)
  have nv: "facet_norm (fv a) = Fin n" unfolding n(1) by (rule facet_norm_exact) (simp add: a_def gh(2) del: insert_iff)
  have lab: "\<bar>l * a i\<bar> \<le> 128" if "i < 14" for i
    using mult_mono[of "\<bar>l\<bar>" 128 "\<bar>a i\<bar>" 1] a1[OF that] l by (simp add: abs_mult)
  have YP: "\<bar>Y i + P i\<bar> \<le> 134" if "i < 14" for i
    using Y[OF that] C[OF that] P[OF that] lab[OF that] eta_small(2) unfolding a_def by linarith
  obtain D where D: "facet_dot (fv a) (fv Y) (fv P) = Fin D" "\<bar>D - (\<Sum>i<14. a i * (Y i + P i))\<bar> \<le> 42 * eta"
    using facet_dot_close[of a Y P] a1 YP by metis
  have SYP: "\<bar>\<Sum>i<14. a i * (Y i + P i)\<bar> \<le> 2 * 134" using a2 YP by (intro sum_weighted) simp_all
  define g where "g = (\<Sum>i<14. a i * Y i) + l * n - b"
  have "(\<Sum>i<14. a i * (Y i + P i)) - (g + b) = (\<Sum>i<14. a i * (P i - l * a i))"
    by (simp add: g_def n(1) sum_distrib_left sum.distrib sum_subtractf algebra_simps power2_eq_square)
  moreover have "\<bar>\<Sum>i<14. a i * (P i - l * a i)\<bar> \<le> 2 * (4 * eta)"
    using a2 P by (intro sum_weighted) (simp_all add: a_def less_imp_le)
  ultimately have Dg: "\<bar>D - (g + b)\<bar> \<le> 50 * eta" using D(2) by linarith
  define V where "V = val (rnd (D - b))"
  have V: "rnd (D - b) = Fin V" "\<bar>V - (D - b)\<bar> \<le> eta"
    unfolding V_def using D(2) SYP b(2) eta_small(2) by (intro rnd_val; linarith)+
  have Vb: "\<bar>V\<bar> \<le> 272" using V(2) D(2) SYP b(2) eta_small(2) by linarith
  define Z where "Z = (\<lambda>i. val (rnd (Y i + P i)))"
  have Z: "rnd (Y i + P i) = Fin (Z i)" "\<bar>Z i - (Y i + P i)\<bar> \<le> eta" if "i < 14" for i
    unfolding Z_def using YP[OF that] by (intro rnd_val; linarith)+
  have zold: "map (\<lambda>i. dadd (fv Y ! i) (fv P ! i)) [0..<DIMENSION_COUNT] = fv Z"
    unfolding fv_def [of Z] by (intro map_cong refl) (simp add: DC Z(1) del: upt_rec_numeral)
  have viol: "dsub (facet_dot (fv a) (fv Y) (fv P)) (gd (threshold h)) = Fin V"
    by (simp add: D(1) b(1) dsub_Fin V(1))
  have Ze: "\<bar>Z i - (Y i + l * a i)\<bar> \<le> 5 * eta" if "i < 14" for i
    using Z(2)[OF that] P[OF that] unfolding a_def by linarith
  show thesis
  proof (cases "V \<le> 0")
    case True
    have fs: "facet_step gd h (fv Y) (fv P) mm = (fv Z, fv (\<lambda>_. 0), mm)"
      unfolding facet_step_def Let_def av nv viol zold using True n(2) by (simp add: zero_vector_fv)
    have "dist2 C (\<lambda>i. Y i + (l - 0) * a i + (Z i - (Y i + l * a i))) + 2 * 0 * marg gd C h
          \<le> dist2 C Y + 2 * l * marg gd C h + kappa"
    proof (rule potential_step[where g = g and n = n and b = b])
      show "\<bar>Z i - (Y i + l * a i)\<bar> \<le> 7 * eta" if "i < 14" for i using Ze[OF that] eta_pos by linarith
      show "(0::rat) = 0 \<and> g \<le> 110 * eta \<or> \<bar>g - n * 0\<bar> \<le> 110 * eta"
        using True V(2) Dg eta_pos by linarith
    qed (use Y a1 l n m g_def in auto)
    then show thesis using that[OF fs, of 0] by (simp add: less_imp_le)
  next
    case False
    define t where "t = val (rnd (V / n))"
    have "V / n \<le> V / 1" using False n(2) by (intro frac_le) simp_all
    moreover have "0 \<le> V / n" using False n(2) by simp
    ultimately have Vn: "\<bar>V / n\<bar> \<le> 272" using Vb by linarith
    have t: "rnd (V / n) = Fin t" "\<bar>t - V / n\<bar> \<le> eta" unfolding t_def using Vn by (intro rnd_val; linarith)+
    have t0: "0 \<le> t" unfolding t_def using False n(2) by (intro rnd_val_nonneg) simp
    have tb: "t \<le> 273" using t(2) Vn eta_small(2) by linarith
    have nt: "\<bar>V - n * t\<bar> \<le> 2 * eta"
    proof -
      have "V - n * t = n * (V / n - t)" using n(2) by (simp add: algebra_simps)
      also have "\<bar>\<dots>\<bar> \<le> 2 * eta" unfolding abs_mult using n t(2) by (intro mult_mono) simp_all
      finally show ?thesis .
    qed
    define W where "W = (\<lambda>i. val (rnd (t * a i)))"
    have ta: "\<bar>t * a i\<bar> \<le> 273" if "i < 14" for i
      using mult_mono[of "\<bar>t\<bar>" 273 "\<bar>a i\<bar>" 1] a1[OF that] t0 tb by (simp add: abs_mult)
    have W: "rnd (t * a i) = Fin (W i)" "\<bar>W i - t * a i\<bar> \<le> eta" if "i < 14" for i
      unfolding W_def using ta[OF that] by (intro rnd_val; linarith)+
    define Y' where "Y' = (\<lambda>i. val (rnd (Z i - W i)))"
    have ZW: "\<bar>Z i - W i\<bar> \<le> 500" if "i < 14" for i
      using Z(2)[OF that] YP[OF that] W(2)[OF that] ta[OF that] eta_small(2) by linarith
    have Y': "rnd (Z i - W i) = Fin (Y' i)" "\<bar>Y' i - (Z i - W i)\<bar> \<le> eta" if "i < 14" for i
      unfolding Y'_def using ZW[OF that] by (intro rnd_val; linarith)+
    define P' where "P' = (\<lambda>i. val (rnd (Z i - Y' i)))"
    have ZY: "\<bar>Z i - Y' i\<bar> \<le> 500" if "i < 14" for i
      using Y'(2)[OF that] W(2)[OF that] ta[OF that] eta_small(2) by linarith
    have P': "rnd (Z i - Y' i) = Fin (P' i)" "\<bar>P' i - (Z i - Y' i)\<bar> \<le> eta" if "i < 14" for i
      unfolding P'_def using ZY[OF that] by (intro rnd_val; linarith)+
    have tt: "ddiv (Fin V) (Fin n) = Fin t" using t(1) n(2) by simp
    have znew: "map (\<lambda>i. dsub (fv Z ! i) (dmul (ddiv (Fin V) (Fin n)) (fv a ! i))) [0..<DIMENSION_COUNT] = fv Y'"
      unfolding fv_def [of Y'] tt by (intro map_cong refl) (simp add: DC W(1) dsub_Fin Y'(1) del: upt_rec_numeral)
    have pnew: "map (\<lambda>i. dsub (fv Z ! i) (fv Y' ! i)) [0..<DIMENSION_COUNT] = fv P'"
      unfolding fv_def [of P'] by (intro map_cong refl) (simp add: DC dsub_Fin P'(1) del: upt_rec_numeral)
    obtain mm' where fs: "facet_step gd h (fv Y) (fv P) mm = (fv Y', fv P', mm')"
      unfolding facet_step_def Let_def av nv viol zold znew pnew using False n(2) by simp
    have "dist2 C (\<lambda>i. Y i + (l - t) * a i + (Y' i - (Y i + (l - t) * a i))) + 2 * t * marg gd C h
          \<le> dist2 C Y + 2 * l * marg gd C h + kappa"
    proof (rule potential_step[where g = g and n = n and b = b])
      show "\<bar>Y' i - (Y i + (l - t) * a i)\<bar> \<le> 7 * eta" if "i < 14" for i
        using Ze[OF that] Y'(2)[OF that] W(2)[OF that] by (simp add: algebra_simps)
      show "t = 0 \<and> g \<le> 110 * eta \<or> \<bar>g - n * t\<bar> \<le> 110 * eta"
        using nt V(2) Dg eta_pos by linarith
    qed (use Y a1 l n m g_def t0 tb in auto)
    moreover have "\<bar>P' i - t * normal h ! i\<bar> \<le> 4 * eta" if "i < 14" for i
      using P'(2)[OF that] Y'(2)[OF that] W(2)[OF that] eta_pos unfolding a_def by linarith
    ultimately show thesis using that[OF fs t0] by simp
  qed
qed

section \<open>Sweeps\<close>

text \<open>A correction with the multiple of the normal it stands for.\<close>

definition corr_ok :: "halfspace \<Rightarrow> (nat \<Rightarrow> rat) \<times> rat \<Rightarrow> bool" where
  "corr_ok h q \<longleftrightarrow> 0 \<le> snd q \<and> (\<forall>i<14. \<bar>fst q i - snd q * normal h ! i\<bar> \<le> 4 * eta)"

definition pot :: "(rat \<Rightarrow> dbl) \<Rightarrow> (nat \<Rightarrow> rat) \<Rightarrow> halfspace list \<Rightarrow> ((nat \<Rightarrow> rat) \<times> rat) list \<Rightarrow> rat" where
  "pot gd C hs Q = (\<Sum>(h, q)\<leftarrow>zip hs Q. 2 * snd q * marg gd C h)"

lemma pot_nonneg:
  assumes "gmp_get_d gd" "\<forall>h\<in>set hs. good_facet C h" "list_all2 corr_ok hs Q"
  shows "0 \<le> pot gd C hs Q"
  using assms(3,2)
proof (induction rule: list_all2_induct)
  case (Cons h hs q Q)
  have "1/16 \<le> marg gd C h" using good_threshold(3)[OF assms(1)] Cons.prems by simp
  then have "0 \<le> 2 * snd q * marg gd C h" using Cons.hyps by (simp add: corr_ok_def)
  with Cons show ?case by (simp add: pot_def)
qed (simp add: pot_def)

lemma facet_sweep_ok:
  assumes gd: "gmp_get_d gd" and C: "\<And>i. i < 14 \<Longrightarrow> 0 \<le> C i \<and> C i \<le> 1"
  shows "list_all2 corr_ok hs Q \<Longrightarrow> \<forall>h\<in>set hs. good_facet C h \<Longrightarrow> 0 \<le> W \<Longrightarrow>
     dist2 C Y + pot gd C hs Q + W \<le> K \<Longrightarrow> K + kappa * of_nat (length hs) \<le> 16 \<Longrightarrow>
     \<exists>Y' Q' mm'. facet_sweep gd hs (fv Y) (map (\<lambda>q. fv (fst q)) Q) mm = (fv Y', map (\<lambda>q. fv (fst q)) Q', mm')
        \<and> list_all2 corr_ok hs Q' \<and> dist2 C Y' + pot gd C hs Q' + W \<le> K + kappa * of_nat (length hs)"
proof (induction arbitrary: Y W K mm rule: list_all2_induct)
  case Nil
  then show ?case by auto
next
  case (Cons h hs q Q)
  let ?m = "marg gd C h"
  have good: "good_facet C h" and goods: "\<forall>h\<in>set hs. good_facet C h" using Cons.prems by simp_all
  have m: "1/16 \<le> ?m" using good_threshold(3)[OF gd good] .
  have q0: "0 \<le> snd q" and q: "\<And>i. i < 14 \<Longrightarrow> \<bar>fst q i - snd q * normal h ! i\<bar> \<le> 4 * eta"
    using Cons.hyps by (simp_all add: corr_ok_def)
  have pn: "0 \<le> pot gd C hs Q" using pot_nonneg[OF gd goods] Cons.hyps by simp
  have ps: "pot gd C (h # hs) (q # Q) = 2 * snd q * ?m + pot gd C hs Q" by (simp add: pot_def)
  have qm: "0 \<le> 2 * snd q * ?m" using q0 m by simp
  have k: "0 \<le> kappa * of_nat (length hs)" by (simp add: less_imp_le)
  have len: "kappa * of_nat (length (h # hs)) = kappa + kappa * of_nat (length hs)" by (simp add: algebra_simps)
  have K: "K + kappa + kappa * of_nat (length hs) \<le> 16" using Cons.prems(4) len by linarith
  have d16: "dist2 C Y \<le> 16" using Cons.prems(2,3) ps pn qm K k kappa_pos by linarith
  have "2 * snd q * ?m \<le> 16" using Cons.prems(2,3) ps pn K k kappa_pos dist2_nonneg[of C Y] by linarith
  moreover have "2 * snd q * (1/16) \<le> 2 * snd q * ?m" using m q0 by (intro mult_left_mono) simp_all
  ultimately have q1: "snd q \<le> 128" by linarith
  obtain Y1 P1 l1 mm1 where s: "facet_step gd h (fv Y) (fv (fst q)) mm = (fv Y1, fv P1, mm1)" and l1: "0 \<le> l1"
    and P1: "\<And>i. i < 14 \<Longrightarrow> \<bar>P1 i - l1 * normal h ! i\<bar> \<le> 4 * eta"
    and d1: "dist2 C Y1 + 2 * l1 * ?m \<le> dist2 C Y + 2 * snd q * ?m + kappa"
    using facet_step_ok[OF gd good C dist2_coord[OF d16] q0 q1 q, where mm = mm] by metis
  have W1: "0 \<le> W + 2 * l1 * ?m" using Cons.prems(2) l1 m by simp
  have K1: "dist2 C Y1 + pot gd C hs Q + (W + 2 * l1 * ?m) \<le> K + kappa"
    using d1 Cons.prems(3) ps by linarith
  obtain Y' Q' mm' where r: "facet_sweep gd hs (fv Y1) (map (\<lambda>q. fv (fst q)) Q) mm1 = (fv Y', map (\<lambda>q. fv (fst q)) Q', mm')"
    "list_all2 corr_ok hs Q'"
    "dist2 C Y' + pot gd C hs Q' + (W + 2 * l1 * ?m) \<le> K + kappa + kappa * of_nat (length hs)"
    using Cons.IH[OF goods W1 K1 K] by blast
  have "facet_sweep gd (h # hs) (fv Y) (map (\<lambda>q. fv (fst q)) (q # Q)) mm =
      (fv Y', map (\<lambda>q. fv (fst q)) ((P1, l1) # Q'), mm')"
    by (simp add: s r(1))
  moreover have "list_all2 corr_ok (h # hs) ((P1, l1) # Q')" using r(2) l1 P1 by (simp add: corr_ok_def)
  moreover have "dist2 C Y' + pot gd C (h # hs) ((P1, l1) # Q') + W \<le> K + kappa * of_nat (length (h # hs))"
    using r(3) len by (simp add: pot_def)
  ultimately show ?case by blast
qed

lemma dykstra_ok:
  assumes gd: "gmp_get_d gd" and C: "\<And>i. i < 14 \<Longrightarrow> 0 \<le> C i \<and> C i \<le> 1" and good: "\<forall>h\<in>set hs. good_facet C h"
  shows "list_all2 corr_ok hs Q \<Longrightarrow> dist2 C Y + pot gd C hs Q \<le> K \<Longrightarrow>
     K + kappa * of_nat (length hs) * of_nat n \<le> 16 \<Longrightarrow>
     \<exists>Y'. dykstra gd hs n (fv Y) (map (\<lambda>q. fv (fst q)) Q) = fv Y' \<and>
          dist2 C Y' \<le> K + kappa * of_nat (length hs) * of_nat n"
proof (induction n arbitrary: Y Q K)
  case 0
  then show ?case using pot_nonneg[OF gd good] by (intro exI[of _ Y]) fastforce
next
  case (Suc n)
  let ?k = "kappa * of_nat (length hs)"
  have k: "0 \<le> ?k" "0 \<le> ?k * of_nat n" by (simp_all add: less_imp_le)
  have e: "?k * of_nat (Suc n) = ?k + ?k * of_nat n" by (simp add: algebra_simps)
  obtain Y1 Q1 mm where s: "facet_sweep gd hs (fv Y) (map (\<lambda>q. fv (fst q)) Q) (Fin 0) = (fv Y1, map (\<lambda>q. fv (fst q)) Q1, mm)"
    "list_all2 corr_ok hs Q1" "dist2 C Y1 + pot gd C hs Q1 + 0 \<le> K + ?k"
    using facet_sweep_ok[OF gd C Suc.prems(1) good order.refl, of Y K "Fin 0"] Suc.prems(2,3) e k by fastforce
  have p1: "0 \<le> pot gd C hs Q1" by (rule pot_nonneg[OF gd good s(2)])
  show ?case
  proof (cases "dless mm kEpsilon")
    case True
    then have "dykstra gd hs (Suc n) (fv Y) (map (\<lambda>q. fv (fst q)) Q) = fv Y1" using s(1) by simp
    moreover have "dist2 C Y1 \<le> K + ?k * of_nat (Suc n)" using s(3) p1 e k by linarith
    ultimately show ?thesis by blast
  next
    case False
    obtain Y' where Y': "dykstra gd hs n (fv Y1) (map (\<lambda>q. fv (fst q)) Q1) = fv Y'" "dist2 C Y' \<le> (K + ?k) + ?k * of_nat n"
      using Suc.IH[OF s(2), of Y1 "K + ?k"] s(3) Suc.prems(3) e by auto
    then have "dykstra gd hs (Suc n) (fv Y) (map (\<lambda>q. fv (fst q)) Q) = fv Y'" using s(1) False by simp
    moreover have "dist2 C Y' \<le> K + ?k * of_nat (Suc n)" using Y'(2) e by linarith
    ultimately show ?thesis by blast
  qed
qed

section \<open>Inward steps\<close>

lemma nudge_step_ok:
  assumes gd: "gmp_get_d gd" and good: "good_facet C h" and C: "\<And>i. i < 14 \<Longrightarrow> 0 \<le> C i \<and> C i \<le> 1"
    and V: "dist2 C V \<le> 16" and viol: "violated h (map V [0..<14])"
  obtains V' where "nudge_step gd h (map V [0..<14]) (fv V) = fv V'" "dist2 C V' \<le> dist2 C V + kappa"
proof -
  define a where "a = (\<lambda>i. normal h ! i)"
  define n where "n = norm_squared (normal h)"
  note gh = good_facetD[OF good]
  have a1: "\<And>i. i < 14 \<Longrightarrow> \<bar>a i\<bar> \<le> 1" and a2: "(\<Sum>i<14. \<bar>a i\<bar>) \<le> 2"
    and n: "n = (\<Sum>i<14. (a i)\<^sup>2)" "1 \<le> n" "n \<le> 2" using gh by (simp_all add: a_def n_def)
  define g where "g = dot (normal h) (map V [0..<14]) - threshold h"
  have dt: "dot (normal h) (map V [0..<14]) = (\<Sum>i<14. a i * V i)" using dot_sum[OF gh(1)] by (simp add: a_def)
  have g0: "0 < g" using viol by (simp add: g_def violated_def)
  have Vb: "\<bar>V i\<bar> \<le> 5" if "i < 14" for i using dist2_coord[OF V that] C[OF that] by linarith
  have "\<bar>\<Sum>i<14. a i * V i\<bar> \<le> 2 * 5" using a2 Vb by (intro sum_weighted) simp_all
  moreover have "\<bar>threshold h\<bar> \<le> 2" using good by (simp add: good_facet_def)
  ultimately have g1: "g \<le> 12" by (simp add: g_def dt)
  have "g / n \<le> g / 1" using g0 n(2) by (intro frac_le) simp_all
  then have gn: "0 \<le> g / n" "g / n \<le> 12" using g0 g1 n(2) by simp_all
  have "\<bar>g / n\<bar> < dbl_limit" using gn dbl_limit_big by simp
  then obtain r where r: "gd (g / n) = Fin r" "\<bar>r\<bar> \<le> \<bar>g / n\<bar>" "0 \<le> r"
    using gmp_get_d.get_d_Fin[OF gd] gn(1) by metis
  have rb: "r \<le> g / n" using r gn by simp
  define c where "c = val (lit (1 / 10 ^ 13))"
  have c: "lit (1 / 10 ^ 13) = Fin c" "0 \<le> c" "c \<le> 1/1000"
  proof -
    show "lit (1 / 10 ^ 13) = Fin c" unfolding c_def by (rule rnd_val) simp
    show "0 \<le> c" unfolding c_def by (rule rnd_val_nonneg) simp
    have "\<bar>c - 1 / 10 ^ 13\<bar> \<le> eta" unfolding c_def by (rule rnd_val) simp
    moreover have "(1 / 10 ^ 13 :: rat) \<le> 1 / 10000" by simp
    ultimately show "c \<le> 1/1000" using eta_small(1) by linarith
  qed
  define t where "t = val (rnd (r + c))"
  have t: "rnd (r + c) = Fin t" "\<bar>t - (r + c)\<bar> \<le> eta"
    unfolding t_def using rb gn r(3) c by (intro rnd_val; linarith)+
  have t0: "0 \<le> t" unfolding t_def using r(3) c by (intro rnd_val_nonneg) simp
  have tb: "t \<le> g / n + 1/500" using t(2) rb c eta_small(1) by linarith
  define W where "W = (\<lambda>i. val (rnd (a i * t)))"
  have ta: "\<bar>a i * t\<bar> \<le> 13" if "i < 14" for i
    using mult_mono[of "\<bar>a i\<bar>" 1 "\<bar>t\<bar>" 13] a1[OF that] t0 tb gn by (simp add: abs_mult)
  have W: "rnd (a i * t) = Fin (W i)" "\<bar>W i - a i * t\<bar> \<le> eta" if "i < 14" for i
    unfolding W_def using ta[OF that] by (intro rnd_val; linarith)+
  define V' where "V' = (\<lambda>i. val (rnd (V i - W i)))"
  have V': "rnd (V i - W i) = Fin (V' i)" "\<bar>V' i - (V i - W i)\<bar> \<le> eta" if "i < 14" for i
    unfolding V'_def using W(2)[OF that] ta[OF that] Vb[OF that] eta_small(2) by (intro rnd_val; linarith)+
  have ga: "gd (a i) = Fin (a i)" if "i < 14" for i
    unfolding a_def by (rule get_d_unit[OF gd gh(2)[OF that]])
  have "nudge_step gd h (map V [0..<14]) (fv V) = fv V'"
    unfolding nudge_step_def Let_def fv_def [of V'] g_def [symmetric] n_def [symmetric] r(1) c(1)
    by (intro map_cong refl)
       (simp add: DC t(1) W(1) V'(1) dsub_Fin ga a_def [symmetric] del: upt_rec_numeral)
  moreover have "dist2 C V' \<le> dist2 C V + kappa"
  proof -
    let ?e = "\<lambda>i. V' i - (V i + (- t) * a i)"
    let ?M = "threshold h - (\<Sum>i<14. a i * C i)"
    have M: "2/25 \<le> ?M" using gh(8) by (simp add: a_def)
    have "\<bar>?e i\<bar> \<le> 7 * eta" if "i < 14" for i
      using V'(2)[OF that] W(2)[OF that] eta_pos by (simp add: algebra_simps)
    then have err: "(\<Sum>i<14. 2 * ?e i * (V i - C i + (- t) * a i) + (?e i)\<^sup>2) \<le> 60000 * eta"
      using dist2_coord[OF V] a1 t0 tb gn by (intro move_error) simp_all
    have "dist2 C V' = dist2 C (\<lambda>i. V i + (- t) * a i + ?e i)" by simp
    also have "\<dots> = dist2 C V + 2 * (- t) * ((\<Sum>i<14. a i * V i) - (\<Sum>i<14. a i * C i)) + (- t)\<^sup>2 * n
        + (\<Sum>i<14. 2 * ?e i * (V i - C i + (- t) * a i) + (?e i)\<^sup>2)"
      by (simp only: dist2_move n(1) [symmetric])
    finally have eq: "dist2 C V' = dist2 C V + 2 * (- t) * (g + ?M) + t\<^sup>2 * n
        + (\<Sum>i<14. 2 * ?e i * (V i - C i + (- t) * a i) + (?e i)\<^sup>2)" by (simp add: g_def dt)
    have "t * n \<le> (g / n + 1/500) * n" using tb n(2) by (intro mult_right_mono) simp_all
    also have "\<dots> = g + n / 500" using n(2) by (simp add: field_simps)
    also have "\<dots> \<le> g + ?M" using n(3) M by linarith
    finally have "t * (t * n) \<le> t * (g + ?M)" using t0 by (intro mult_left_mono)
    moreover have "0 \<le> t * (g + ?M)" using t0 g0 M by simp
    ultimately have "2 * (- t) * (g + ?M) + t\<^sup>2 * n \<le> 0" by (simp add: power2_eq_square algebra_simps)
    with eq err eta_kappa eta_pos show ?thesis by linarith
  qed
  ultimately show thesis by (rule that)
qed

lemma nudge_pass_ok:
  assumes gd: "gmp_get_d gd" and C: "\<And>i. i < 14 \<Longrightarrow> 0 \<le> C i \<and> C i \<le> 1"
  shows "\<forall>h\<in>set hs. good_facet C h \<Longrightarrow> dist2 C V \<le> K \<Longrightarrow> K + kappa * of_nat (length hs) \<le> 16 \<Longrightarrow>
    \<exists>V' b'. nudge_pass gd hs (fv V) b = Some (fv V', b') \<and> dist2 C V' \<le> K + kappa * of_nat (length hs)"
proof (induction hs arbitrary: V K b)
  case Nil
  then show ?case by (intro exI[of _ V] exI[of _ b]) simp
next
  case (Cons h hs)
  have e: "kappa * of_nat (length (h # hs)) = kappa + kappa * of_nat (length hs)" by (simp add: algebra_simps)
  have k: "0 \<le> kappa * of_nat (length hs)" by (simp add: less_imp_le)
  show ?case
  proof (cases "violated h (map V [0..<14]) \<and> norm_squared (normal h) \<noteq> 0")
    case True
    have d: "dist2 C V \<le> 16" using Cons.prems(2,3) e k kappa_pos by linarith
    obtain V1 where V1: "nudge_step gd h (map V [0..<14]) (fv V) = fv V1" "dist2 C V1 \<le> dist2 C V + kappa"
      by (rule nudge_step_ok[where C = C and h = h and V = V and gd = gd]) (use gd C d Cons.prems(1) True in \<open>simp_all del: upt_rec_numeral\<close>)
    have "dist2 C V1 \<le> K + kappa" "K + kappa + kappa * of_nat (length hs) \<le> 16"
      using V1(2) Cons.prems(2,3) e by linarith+
    then obtain V' b' where "nudge_pass gd hs (fv V1) True = Some (fv V', b')"
      "dist2 C V' \<le> K + kappa + kappa * of_nat (length hs)"
      using Cons.IH[of V1 "K + kappa" True] Cons.prems(1) by auto
    moreover from this(2) have "dist2 C V' \<le> K + kappa * of_nat (length (h # hs))"
      using e by linarith
    moreover have "nudge_pass gd (h # hs) (fv V) b = nudge_pass gd hs (fv V1) True" using True V1(1) by simp
    ultimately show ?thesis by (metis (no_types, lifting))
  next
    case False
    have "K + kappa * of_nat (length hs) \<le> 16" using Cons.prems(3) e kappa_pos by linarith
    then obtain V' b' where "nudge_pass gd hs (fv V) b = Some (fv V', b')" "dist2 C V' \<le> K + kappa * of_nat (length hs)"
      using Cons.IH[of V K b] Cons.prems by auto
    moreover from this(2) have "dist2 C V' \<le> K + kappa * of_nat (length (h # hs))"
      using e kappa_pos by linarith
    moreover have "nudge_pass gd (h # hs) (fv V) b = nudge_pass gd hs (fv V) b" using False by auto
    ultimately show ?thesis by (metis (no_types, lifting))
  qed
qed

section \<open>The lattices of the seasons are covered\<close>

lemma unit_sum:
  fixes F :: "rat \<Rightarrow> rat"
  assumes "F 0 = 0" "k < 14"
  shows "(\<Sum>i<14. F (unit_normal [(k, a)] ! i)) = F a"
    and "l < 14 \<Longrightarrow> k \<noteq> l \<Longrightarrow> (\<Sum>i<14. F (unit_normal [(k, a), (l, b)] ! i)) = F a + F b"
proof -
  have "(\<Sum>i<14. F (unit_normal [(k, a)] ! i)) = (\<Sum>i<14. if i = k then F a else 0)"
    by (intro sum.cong refl) (simp add: unit_normal_nth assms)
  then show "(\<Sum>i<14. F (unit_normal [(k, a)] ! i)) = F a" using assms by simp
  assume l: "l < 14" "k \<noteq> l"
  have "(\<Sum>i<14. F (unit_normal [(k, a), (l, b)] ! i)) =
        (\<Sum>i<14. (if i = k then F a else 0) + (if i = l then F b else 0))"
    by (intro sum.cong refl) (use assms l in \<open>simp add: unit_normal_nth\<close>)
  then show "(\<Sum>i<14. F (unit_normal [(k, a), (l, b)] ! i)) = F a + F b"
    using assms l by (simp add: sum.distrib)
qed

lemma length_unit_normal [simp]: "length (unit_normal cs) = 14"
proof -
  have "length (foldl (\<lambda>n (i, a). n[i := a]) xs cs) = length xs" for xs :: "rat list"
    by (induction cs arbitrary: xs) (simp_all add: case_prod_beta)
  then show ?thesis by (simp add: unit_normal_def DC)
qed

lemma norm_squared_sum: "length a = 14 \<Longrightarrow> norm_squared a = (\<Sum>i<14. (a ! i)\<^sup>2)"
  by (simp add: norm_squared_def sum_list_sum_nth atLeast0LessThan power2_eq_square)

lemma good_axis:
  assumes "k < 14" "a \<in> {-1, 1}" "normal h = unit_normal [(k, a)]" "\<bar>threshold h\<bar> \<le> 2"
    and "2/25 \<le> threshold h - a * C k"
  shows "good_facet C h"
  using assms unit_sum(1)[of "\<lambda>x. x\<^sup>2" k a] unit_sum(1)[of abs k a] dot_unit[of k a "map C [0..<14]"]
  by (auto simp: good_facet_def norm_squared_sum unit_normal_nth dot_sum simp del: upt_rec_numeral)

lemma good_coupled:
  assumes "k < 14" "l < 14" "k \<noteq> l" "a \<in> {-1, 1}" "b \<in> {-1, 1}"
    and "normal h = unit_normal [(k, a), (l, b)]" "\<bar>threshold h\<bar> \<le> 2"
    and "2/25 \<le> threshold h - (a * C k + b * C l)"
  shows "good_facet C h"
  using assms unit_sum(2)[of "\<lambda>x. x\<^sup>2" k l a b] unit_sum(2)[of abs k l a b] dot_unit2[of k l a b "map C [0..<14]"]
  by (auto simp: good_facet_def norm_squared_sum unit_normal_nth dot_sum simp del: upt_rec_numeral)

lemma season_facets_good:
  assumes b: "b \<in> {spring_bounds, summer_bounds, fall_bounds, winter_bounds}"
    and p: "p = new_polytope (from_bounds b s)" and C: "C = (\<lambda>i. center p ! i)"
  shows "\<forall>h\<in>set (facets p). good_facet C h" and "\<And>i. i < 14 \<Longrightarrow> 0 \<le> C i \<and> C i \<le> 1"
proof -
  let ?lo = "lower_bounds (from_bounds b s)" and ?up = "upper_bounds (from_bounds b s)"
  have bnd: "\<forall>i<14. 0 \<le> ?lo ! i \<and> ?lo ! i \<le> 1 \<and> 0 \<le> ?up ! i \<and> ?up ! i \<le> 1"
    unfolding all_less_14 using b by (auto simp: lower_bounds_def upper_bounds_def bounds_defs)
  have Ci: "C i = (?lo ! i + ?up ! i) / 2" if "i < 14" for i
    using that by (simp add: C p new_polytope_def Let_def DC del: upt_rec_numeral)
  show "0 \<le> C i \<and> C i \<le> 1" if "i < 14" for i using bnd that Ci[OF that] by (auto dest!: spec[of _ i])
  have mg: "(\<forall>i<14. 2/25 \<le> (if i mod 2 = 0 then center p ! i - ?lo ! i else ?up ! i - center p ! i)) \<and>
     (\<forall>cf\<in>set COUPLING_FACETS.
        2/25 \<le> center p ! pos_idx cf - center p ! neg_idx cf - of_int (lead_num cf) / of_int (lead_den cf) \<and>
        2/25 \<le> of_int (sum_num cf) / of_int (sum_den cf) - (center p ! pos_idx cf + center p ! neg_idx cf))"
    using season_center_margin[OF b, of s] unfolding p min_margin_ge margins_ge_iff .
  have axis: "good_facet C h" if i: "i < 14" and h: "h \<in> set (axis_facets ?lo ?up i)" for i h
  proof -
    have "2/25 \<le> (if i mod 2 = 0 then C i - ?lo ! i else ?up ! i - C i)" unfolding C using mg i by blast
    then have m: "2/25 \<le> ?up ! i - C i" "2/25 \<le> C i - ?lo ! i" by (simp_all add: Ci[OF i] field_simps split: if_splits)
    have "\<bar>?up ! i\<bar> \<le> 2" "\<bar>?lo ! i\<bar> \<le> 2" using bnd i by auto
    then show ?thesis
      using h m good_axis[OF i, of 1 h C] good_axis[OF i, of "-1" h C] by (auto simp: axis_facets_def)
  qed
  have coup: "good_facet C h" if c: "c \<in> set COUPLING_FACETS" and h: "h \<in> set (coupling_halfspaces c)" for c h
  proof -
    have i: "pos_idx c < 14" "neg_idx c < 14" "pos_idx c \<noteq> neg_idx c"
      and t: "\<bar>of_int (lead_num c) / of_int (lead_den c) :: rat\<bar> \<le> 2" "\<bar>of_int (sum_num c) / of_int (sum_den c) :: rat\<bar> \<le> 2"
      using c by (auto simp: COUPLING_FACETS_def)
    have m: "2/25 \<le> C (pos_idx c) - C (neg_idx c) - of_int (lead_num c) / of_int (lead_den c)"
      "2/25 \<le> of_int (sum_num c) / of_int (sum_den c) - (C (pos_idx c) + C (neg_idx c))"
      unfolding C using mg c by blast+
    show ?thesis
      using h m t good_coupled[OF i, of "-1" 1 h C] good_coupled[OF i, of 1 1 h C]
      by (auto simp: coupling_halfspaces_def)
  qed
  show "\<forall>h\<in>set (facets p). good_facet C h"
    unfolding p facets_new build_lattice_def set_append set_concat set_map DC
    using axis coup by (auto simp del: upt_rec_numeral)
qed

lemma length_facets: "length (facets (new_polytope c)) = 42"
  by (simp add: facets_new build_lattice_def length_concat dims_upt axis_facets_def coupling_halfspaces_def
      COUPLING_FACETS_def)

section \<open>The projection returns a point inside\<close>

text \<open>A point within 1/100 of the center in every coordinate satisfies every facet.\<close>

lemma near_center_inside:
  assumes "good_facet C h" "\<And>i. i < 14 \<Longrightarrow> \<bar>V i - C i\<bar> \<le> 1/100"
  shows "\<not> violated h (map V [0..<14])"
proof -
  note gh = good_facetD[OF assms(1)]
  have "\<bar>\<Sum>i<14. normal h ! i * (V i - C i)\<bar> \<le> 2 * (1/100)"
    using gh(7) assms(2) by (intro sum_weighted) simp_all
  moreover have "(\<Sum>i<14. normal h ! i * (V i - C i)) = (\<Sum>i<14. normal h ! i * V i) - (\<Sum>i<14. normal h ! i * C i)"
    by (simp add: sum_subtractf right_diff_distrib)
  ultimately have "(\<Sum>i<14. normal h ! i * V i) \<le> threshold h" using gh(8) by linarith
  then show ?thesis by (simp add: violated_def dot_sum[OF gh(1)])
qed

lemma fv_map: "fv V = map Fin (map V [0..<14])"
  by (simp add: fv_def DC del: upt_rec_numeral)

lemma contains_fv:
  "\<exists>vs. contains gd p (fv V) = Some (\<forall>h\<in>set (facets p). \<not> violated h (map V [0..<14]), vs)"
  using contains_Fin[of gd p "map V [0..<14]"]
  unfolding fv_map [symmetric] by (auto simp: Let_def filter_empty_conv simp del: upt_rec_numeral)

lemma last_resort_ok:
  assumes gd: "gmp_get_d gd" and len: "length (center p) = 14"
    and C: "C = (\<lambda>i. center p ! i)" "\<And>i. i < 14 \<Longrightarrow> 0 \<le> C i \<and> C i \<le> 1"
    and good: "\<forall>h\<in>set (facets p). good_facet C h"
  shows "\<exists>W. last_resort gd p (fv V) = Some (fv W) \<and> (\<forall>h\<in>set (facets p). \<not> violated h (map W [0..<14]))"
proof (cases "\<forall>h\<in>set (facets p). \<not> violated h (map V [0..<14])")
  case True
  then have "last_resort gd p (fv V) = Some (fv V)"
    using contains_fv[of gd p V] by (auto simp: last_resort_def simp del: upt_rec_numeral)
  with True show ?thesis by blast
next
  case False
  define W where "W = (\<lambda>i. val (gd (C i)))"
  have W: "gd (C i) = Fin (W i)" "\<bar>W i - C i\<bar> \<le> 1/100" if "i < 14" for i
  proof -
    have "\<bar>C i\<bar> \<le> 256" using C(2)[OF that] by simp
    then obtain r where r: "gd (C i) = Fin r" "\<bar>r - C i\<bar> \<le> 1 / 2 ^ 44" by (rule gmp_get_d.get_d_close[OF gd])
    moreover have "(1 / 2 ^ 44 :: rat) \<le> 1/100" by simp
    ultimately show "gd (C i) = Fin (W i)" "\<bar>W i - C i\<bar> \<le> 1/100" unfolding W_def by (simp, simp only: r val.simps, linarith)
  qed
  have "map gd (center p) = fv W"
    by (rule nth_equalityI) (use len W(1) in \<open>simp_all add: C(1) fv_def DC del: upt_rec_numeral\<close>)
  then have "last_resort gd p (fv V) = Some (fv W)"
    using False contains_fv[of gd p V] by (auto simp: last_resort_def simp del: upt_rec_numeral)
  moreover have "\<forall>h\<in>set (facets p). \<not> violated h (map W [0..<14])"
    using near_center_inside good W(2) by blast
  ultimately show ?thesis by blast
qed

lemma verify_ok:
  assumes gd: "gmp_get_d gd" and len: "length (center p) = 14"
    and C: "C = (\<lambda>i. center p ! i)" "\<And>i. i < 14 \<Longrightarrow> 0 \<le> C i \<and> C i \<le> 1"
    and good: "\<forall>h\<in>set (facets p). good_facet C h"
  shows "dist2 C V \<le> K \<Longrightarrow> K + kappa * of_nat (length (facets p)) * of_nat n \<le> 16 \<Longrightarrow>
    \<exists>W. verify_and_nudge gd p n (fv V) = Some (fv W) \<and> (\<forall>h\<in>set (facets p). \<not> violated h (map W [0..<14]))"
proof (induction n arbitrary: V K)
  case 0
  then show ?case using last_resort_ok[OF gd len C good] by simp
next
  case (Suc n)
  let ?k = "kappa * of_nat (length (facets p))"
  have e: "?k * of_nat (Suc n) = ?k + ?k * of_nat n" and k: "0 \<le> ?k * of_nat n"
    by (simp_all add: algebra_simps less_imp_le)
  obtain r vs where r: "contains gd p (fv V) = Some (r, vs)"
    and c: "r \<longleftrightarrow> (\<forall>h\<in>set (facets p). \<not> violated h (map V [0..<14]))"
    using contains_fv[of gd p V] by blast
  show ?case
  proof (cases r)
    case True
    then show ?thesis using r c by (intro exI[of _ V]) (simp del: upt_rec_numeral)
  next
    case False
    have "K + ?k \<le> 16" using Suc.prems(2) e k by linarith
    then obtain V1 b where V1: "nudge_pass gd (facets p) (fv V) False = Some (fv V1, b)" "dist2 C V1 \<le> K + ?k"
      using nudge_pass_ok[OF gd C(2) good Suc.prems(1)] by blast
    have "(K + ?k) + ?k * of_nat n \<le> 16" using Suc.prems(2) e by linarith
    from Suc.IH[OF V1(2) this] last_resort_ok[OF gd len C good, of V1] show ?thesis
      using r False V1(1) by simp
  qed
qed

lemma project_inside:
  assumes "gmp_get_d gd" and "\<forall>i<14. 0 \<le> q ! i \<and> q ! i \<le> 1" and "length q = 14"
  shows "\<exists>v. project gd (new_polytope (from_season s)) (map Fin q) = Some (map Fin v)
           \<and> length v = 14 \<and> in_lattice (from_season s) v"
proof -
  obtain b where b: "b \<in> {spring_bounds, summer_bounds, fall_bounds, winter_bounds}" "from_season s = from_bounds b s"
    by (rule from_season_cases)
  define p where "p = new_polytope (from_bounds b s)"
  define C where "C = (\<lambda>i. center p ! i)"
  note good = season_facets_good[OF b(1) p_def C_def]
  have len: "length (center p) = 14" by (simp add: p_def new_polytope_def Let_def DC del: upt_rec_numeral)
  have f42: "length (facets p) = 42" by (simp add: p_def length_facets)
  have x: "map Fin q = fv (\<lambda>i. q ! i)" using assms(3) map_nth[of q] by (simp add: fv_map del: upt_rec_numeral)
  define Q where "Q = replicate 42 ((\<lambda>_::nat. 0::rat), 0::rat)"
  have Q: "replicate (length (facets p)) zero_vector = map (\<lambda>q. fv (fst q)) Q"
    by (simp add: Q_def f42 zero_vector_fv)
  have "list_all2 corr_ok (facets p) Q"
    by (rule list_all2_all_nthI) (simp_all add: Q_def f42 corr_ok_def less_imp_le)
  moreover have "dist2 C (\<lambda>i. q ! i) + pot gd C (facets p) Q \<le> 14"
  proof -
    have "(q ! i - C i)\<^sup>2 \<le> 1" if "i < 14" for i
    proof -
      have "\<bar>q ! i - C i\<bar> \<le> \<bar>1\<bar>" using assms(2) good(2)[OF that] that by (auto simp: abs_le_iff)
      then show ?thesis using abs_le_square_iff[of "q ! i - C i" 1] by simp
    qed
    then have "dist2 C (\<lambda>i. q ! i) \<le> (\<Sum>i<(14::nat). 1)" unfolding dist2_def by (intro sum_mono) simp
    moreover have "(\<Sum>(h, q)\<leftarrow>zip hs (replicate m ((\<lambda>_::nat. 0::rat), 0::rat)). 2 * snd q * marg gd C h) = 0" for hs m
      by (induction hs arbitrary: m) (simp_all, case_tac m, simp_all)
    ultimately show ?thesis by (simp add: pot_def Q_def)
  qed
  moreover have kb: "14 + kappa * of_nat (length (facets p)) * of_nat kMaxIterations \<le> 15"
    by (simp add: f42 kMaxIterations_def kappa_def)
  ultimately obtain Y' where Y': "dykstra gd (facets p) kMaxIterations (fv (\<lambda>i. q ! i)) (map (\<lambda>q. fv (fst q)) Q) = fv Y'"
    "dist2 C Y' \<le> 14 + kappa * of_nat (length (facets p)) * of_nat kMaxIterations"
    using dykstra_ok[OF assms(1) good(2) good(1), of Q "\<lambda>i. q ! i" 14 kMaxIterations] by auto
  have "dist2 C Y' \<le> 15" using Y'(2) kb by linarith
  moreover have "15 + kappa * of_nat (length (facets p)) * of_nat (200::nat) \<le> 16" by (simp add: f42 kappa_def)
  ultimately obtain W where W: "verify_and_nudge gd p 200 (fv Y') = Some (fv W)"
    "\<forall>h\<in>set (facets p). \<not> violated h (map W [0..<14])"
    using verify_ok[OF assms(1) len C_def good(2) good(1)] by blast
  have "project gd p (map Fin q) = Some (map Fin (map W [0..<14]))"
    unfolding project_def x Q Y'(1) W(1) by (simp only: fv_map)
  moreover have "in_lattice (from_bounds b s) (map W [0..<14])"
    using W(2) in_lattice_facets[of "from_bounds b s" "map W [0..<14]"] by (auto simp: p_def simp del: upt_rec_numeral)
  ultimately show ?thesis unfolding b(2) p_def by (intro exI[of _ "map W [0..<14]"]) simp
qed

text \<open>
  C5: the projection always returns, and always inside: for every season and every point of the
  unit cube (what the encoder and the biases produce), \<^verbatim>\<open>project\<close> terminates without meeting an
  infinity or NaN and the doubles it returns satisfy every inequality of the lattice exactly,
  for any conversion that GMP documents.
\<close>

theorem project_total_inside:
  assumes "gmp_get_d gd" and "\<forall>i<14. 0 \<le> q ! i \<and> q ! i \<le> 1" and "length q = 14"
  shows "\<exists>v. project gd (new_polytope (from_season s)) (map Fin q) = Some (map Fin v)
           \<and> length v = 14 \<and> in_lattice (from_season s) v"
  using assms by (rule project_inside)

theorem project_total_inside_witness:
  "\<exists>v. project trunc_d (new_polytope (from_season ''winter'')) (map Fin (replicate 14 1)) = Some (map Fin v)
     \<and> length v = 14 \<and> in_lattice (from_season ''winter'') v"
  using project_total_inside[OF gmp.gmp_get_d_axioms, of "replicate 14 1" "''winter''"] by simp

end
