(* ===== verification/Polytope_Inside.thy ===== *)
theory Polytope_Inside
  imports Polytope_Total
begin

text \<open>
  More about the projection and the distance: points well inside are not moved, the distance to
  the boundary is always a number, and what the fallback on the center guarantees and what not.
\<close>

section \<open>Points that stay where they are\<close>

lemma facet_step_keeps:
  assumes gd: "gmp_get_d gd" and good: "good_facet C h"
    and V: "\<And>i. i < 14 \<Longrightarrow> \<bar>V i\<bar> \<le> 5 \<and> rep (V i)"
    and slack: "(\<Sum>i<14. normal h ! i * V i) + 1 / 10 ^ 9 \<le> threshold h"
  shows "facet_step gd h (fv V) zero_vector mm = (fv V, zero_vector, mm)"
proof -
  define a where "a = (\<lambda>i. normal h ! i)"
  note gh = good_facetD[OF good]
  have av: "map gd (normal h) = fv a"
    by (rule nth_equalityI) (simp_all add: gh(1) fv_def DC a_def get_d_unit[OF gd gh(2)] del: upt_rec_numeral)
  have nv: "facet_norm (fv a) = Fin (norm_squared (normal h))"
    unfolding gh(4) a_def by (rule facet_norm_exact) (simp add: gh(2) del: insert_iff)
  have a1: "\<And>i. i < 14 \<Longrightarrow> \<bar>a i\<bar> \<le> 1" using gh(3) by (simp add: a_def)
  have "\<And>i. i < 14 \<Longrightarrow> \<bar>V i + 0\<bar> \<le> 134" using V by fastforce
  then obtain D where D: "facet_dot (fv a) (fv V) (fv (\<lambda>_. 0)) = Fin D" "\<bar>D - (\<Sum>i<14. a i * (V i + 0))\<bar> \<le> 42 * eta"
    using facet_dot_close[of a V "\<lambda>_. 0"] a1 by metis
  have t: "\<bar>threshold h\<bar> \<le> 256" using good by (simp add: good_facet_def)
  then obtain b where b: "gd (threshold h) = Fin b" "\<bar>b - threshold h\<bar> \<le> 1 / 2 ^ 44"
    by (rule gmp_get_d.get_d_close[OF gd])
  have e: "42 * eta + 1 / 2 ^ 44 \<le> 1 / 10 ^ 9" by (simp add: eta_def)
  have "\<bar>D - (\<Sum>i<14. a i * V i)\<bar> \<le> 42 * eta" using D(2) by simp
  then have "D \<le> b" using b(2) slack e unfolding a_def by linarith
  then have "0 \<le> val (rnd (b - D))" by (intro rnd_val_nonneg) simp
  have viol: "dle (dsub (facet_dot (fv a) (fv V) (fv (\<lambda>_. 0))) (gd (threshold h))) (Fin 0)"
  proof -
    have "round_rat (D - b) \<le> 0" using \<open>D \<le> b\<close> by (intro round_rat_nonpos) simp
    then show ?thesis by (auto simp: D(1) b(1) dsub_Fin rnd_def Let_def dbl_limit_def dle_def)
  qed
  have "rnd (V i) = Fin (V i)" if "i < 14" for i
  proof (rule rnd_fix)
    show "rep (V i)" using V[OF that] by simp
    show "\<bar>V i\<bar> < dbl_limit" using V[OF that] dbl_limit_big by simp
  qed
  then have y: "map (\<lambda>i. dadd (fv V ! i) (fv (\<lambda>_. 0) ! i)) [0..<DIMENSION_COUNT] = fv V"
    unfolding fv_def [of V] by (intro map_cong refl) (simp add: DC fv_def del: upt_rec_numeral)
  show ?thesis
    unfolding facet_step_def Let_def av nv zero_vector_fv y using viol gh(5) by simp
qed

lemma facet_sweep_keeps:
  assumes gd: "gmp_get_d gd" and V: "\<And>i. i < 14 \<Longrightarrow> \<bar>V i\<bar> \<le> 5 \<and> rep (V i)"
  shows "\<forall>h\<in>set hs. good_facet C h \<and> (\<Sum>i<14. normal h ! i * V i) + 1 / 10 ^ 9 \<le> threshold h \<Longrightarrow>
    facet_sweep gd hs (fv V) (replicate (length hs) zero_vector) mm = (fv V, replicate (length hs) zero_vector, mm)"
proof (induction hs)
  case (Cons h hs)
  have "facet_step gd h (fv V) zero_vector mm = (fv V, zero_vector, mm)"
    using Cons.prems V by (intro facet_step_keeps[OF gd, of C]) simp_all
  with Cons show ?case by simp
qed simp

lemma kEpsilon_pos: "dless (Fin 0) kEpsilon"
proof -
  have r: "rep (1 / 2 ^ 42 :: rat)" using repI[of _ 1 "-42"] by (simp add: power_int_minus field_simps)
  have "1 / 2 ^ 42 \<le> round_rat (1 / 10 ^ 12)" by (rule round_rat_ge) (use r in simp_all)
  moreover have "(0::rat) < 1 / 2 ^ 42" by simp
  ultimately have "0 < round_rat (1 / 10 ^ 12)" by linarith
  then show ?thesis by (simp add: kEpsilon_def rnd_def Let_def)
qed

text \<open>
  the projection leaves points inside alone: a vector of doubles that keeps a distance of
  \<open>10 ^ -9\<close> from every facet of a season's lattice is returned unchanged.
\<close>

theorem project_keeps_interior:
  assumes "gmp_get_d gd" and "length q = 14" and "\<forall>v\<in>set q. rep v"
    and "\<forall>h\<in>set (facets (new_polytope (from_season s))). dot (normal h) q + 1 / 10 ^ 9 \<le> threshold h"
  shows "project gd (new_polytope (from_season s)) (map Fin q) = Some (map Fin q)"
proof -
  obtain b where b: "b \<in> {spring_bounds, summer_bounds, fall_bounds, winter_bounds}" "from_season s = from_bounds b s"
    by (rule from_season_cases)
  define p where "p = new_polytope (from_bounds b s)"
  define V where "V = (\<lambda>i. q ! i)"
  note good = season_facets_good(1)[OF b(1) p_def refl]
  have q: "q = map V [0..<14]" using map_nth[of q] assms(2) by (simp add: V_def del: upt_rec_numeral)
  have x: "map Fin q = fv V" unfolding q fv_map ..
  have sl: "(\<Sum>i<14. normal h ! i * V i) + 1 / 10 ^ 9 \<le> threshold h" if "h \<in> set (facets p)" for h
    using assms(4) that good_facetD(1)[of _ h] good dot_sum[of "normal h" V] unfolding b(2) p_def q by fastforce
  have nv: "\<not> violated h q" if "h \<in> set (facets p)" for h
  proof -
    have "dot (normal h) q + 1 / 10 ^ 9 \<le> threshold h" using assms(4) that unfolding b(2) p_def by blast
    moreover have "(0::rat) < 1 / 10 ^ 9" by simp
    ultimately show ?thesis unfolding violated_def by linarith
  qed
  have il: "in_lattice (from_bounds b s) q"
    using in_lattice_facets[of "from_bounds b s" q] nv by (auto simp: p_def)
  have "0 \<le> q ! i \<and> q ! i \<le> 1" if "i < 14" for i
  proof -
    have "up ! i \<ge> q ! i \<and> lo ! i \<le> q ! i" if "up = upper_bounds (from_bounds b s)" "lo = lower_bounds (from_bounds b s)" for up lo
      using nv violated_build[of lo up q] \<open>i < 14\<close> that unfolding p_def facets_new by (meson not_le)
    moreover have "\<forall>i<14. 0 \<le> lower_bounds (from_bounds b s) ! i \<and> upper_bounds (from_bounds b s) ! i \<le> 1"
      unfolding all_less_14 using b(1) by (auto simp: lower_bounds_def upper_bounds_def bounds_defs)
    ultimately show ?thesis using that by (meson order_trans)
  qed
  then have V: "\<bar>V i\<bar> \<le> 5 \<and> rep (V i)" if "i < 14" for i
    using that assms(2,3) by (fastforce simp: V_def)
  have "facet_sweep gd (facets p) (fv V) (replicate (length (facets p)) zero_vector) (Fin 0) =
      (fv V, replicate (length (facets p)) zero_vector, Fin 0)"
    by (rule facet_sweep_keeps[OF assms(1) V]) (use good sl in auto)
  then have d: "dykstra gd (facets p) (Suc n) (fv V) (replicate (length (facets p)) zero_vector) = fv V" for n
    using kEpsilon_pos by simp
  have n: "kMaxIterations = Suc 1999" "(200::nat) = Suc 199" by (simp_all add: kMaxIterations_def)
  obtain vs where "contains gd p (fv V) = Some (True, vs)"
    using contains_fv[of gd p V] nv unfolding q by auto
  then have v: "verify_and_nudge gd p (Suc m) (fv V) = Some (fv V)" for m by simp
  show ?thesis
    unfolding project_def b(2) p_def [symmetric] x n d by (rule v)
qed

theorem project_keeps_interior_witness:
  "project trunc_d (new_polytope (from_season ''spring''))
     (map Fin [1/2, 1/4, 1/2, 1/8, 3/4, 1/8, 1/2, 1/8, 3/4, 1/4, 3/4, 1/8, 1/2, 1/4]) =
   Some (map Fin [1/2, 1/4, 1/2, 1/8, 3/4, 1/8, 1/2, 1/8, 3/4, 1/4, 3/4, 1/8, 1/2, 1/4])"
proof (rule project_keeps_interior[OF gmp.gmp_get_d_axioms])
  have r: "rep (of_int m / 8)" if "\<bar>m\<bar> \<le> 8" for m
    using that repI[of _ m "-3"] by (simp add: power_int_minus field_simps)
  from r[of 4] r[of 2] r[of 1] r[of 6]
  show "\<forall>v\<in>set [1/2, 1/4, 1/2, 1/8, 3/4, 1/8, 1/2, 1/8, 3/4, 1/4, 3/4, 1/8, 1/2, 1/4]. rep v" by simp
  show "\<forall>h\<in>set (facets (new_polytope (from_season ''spring''))).
      dot (normal h) [1/2, 1/4, 1/2, 1/8, 3/4, 1/8, 1/2, 1/8, 3/4, 1/4, 3/4, 1/8, 1/2, 1/4] + 1 / 10 ^ 9 \<le> threshold h"
    unfolding season_bounds facets_new build_lattice_def
    by (simp add: dims_upt axis_facets_def coupling_halfspaces_def COUPLING_FACETS_def dot_unit dot_unit2
        lower_bounds_def upper_bounds_def bounds_defs)
qed simp

text \<open>
  the center the code falls back on need not be inside: there are constraints whose lattice has
  points, while the midpoint of their bounds breaks the lead of a virtue over its shadow.  (For the
  bounds of the four seasons the center is inside.)
\<close>

theorem center_may_be_outside:
  "\<exists>c q. in_lattice c q \<and> \<not> in_lattice c (center (new_polytope c)) \<and>
     in_lattice (from_season s) (center (new_polytope (from_season s)))"
proof -
  let ?c = "default_constraints\<lparr>harmony_min := 0, dominance_max := 1\<rparr>"
  have "in_lattice ?c [13/20, 1/4, 7/10, 3/20, 4/5, 1/10, 7/10, 3/20, 3/4, 1/5, 3/4, 3/20, 13/20, 1/4]"
    by (simp add: in_lattice_def pair_ok_def default_constraints_def)
  moreover have "\<not> in_lattice ?c (center (new_polytope ?c))"
    by (simp add: in_lattice_def pair_ok_def default_constraints_def new_polytope_def Let_def dims_upt
        lower_bounds_def upper_bounds_def)
  moreover have "in_lattice (from_season s) (center (new_polytope (from_season s)))"
  proof -
    obtain b where b: "b \<in> {spring_bounds, summer_bounds, fall_bounds, winter_bounds}" "from_season s = from_bounds b s"
      by (rule from_season_cases)
    define p where "p = new_polytope (from_bounds b s)"
    have len: "length (center p) = 14" by (simp add: p_def new_polytope_def Let_def DC del: upt_rec_numeral)
    have "\<not> violated h (map (\<lambda>i. center p ! i) [0..<14])" if "h \<in> set (facets p)" for h
      by (rule near_center_inside) (use season_facets_good(1)[OF b(1) p_def refl] that in auto)
    moreover have "map (\<lambda>i. center p ! i) [0..<14] = center p" using map_nth[of "center p"] len by simp
    ultimately show ?thesis unfolding b(2) using in_lattice_facets[of "from_bounds b s" "center p"] by (auto simp: p_def)
  qed
  ultimately show ?thesis by blast
qed

section \<open>The distance to the boundary\<close>

lemma sq_fold_ok:
  assumes d: "\<And>i. i < 14 \<Longrightarrow> \<bar>X i - Y i\<bar> \<le> 2"
  shows "\<forall>i\<in>set js. i < 14 \<Longrightarrow> 0 \<le> s \<Longrightarrow> s \<le> 6 * of_nat k \<Longrightarrow> k + length js \<le> 14 \<Longrightarrow>
    \<exists>S. foldl (\<lambda>s i. let diff = dsub (fv X ! i) (fv Y ! i) in dadd s (dmul diff diff)) (Fin s) js = Fin S
      \<and> 0 \<le> S \<and> S \<le> 84"
proof (induction js arbitrary: s k)
  case Nil
  then have "6 * of_nat k \<le> (6 * 14 :: rat)" by (intro mult_left_mono) simp_all
  with Nil show ?case by simp
next
  case (Cons i js)
  have i: "i < 14" using Cons.prems by simp
  define e where "e = val (rnd (X i - Y i))"
  define w where "w = val (rnd (e * e))"
  define s' where "s' = val (rnd (s + w))"
  have e: "rnd (X i - Y i) = Fin e" "\<bar>e - (X i - Y i)\<bar> \<le> eta"
    unfolding e_def using d[OF i] by (intro rnd_val; linarith)+
  have "\<bar>e\<bar> \<le> 2 + eta" using e(2) d[OF i] by linarith
  then have "\<bar>e\<bar> \<le> 21/10" using eta_small(2) by linarith
  then have "\<bar>e\<bar> * \<bar>e\<bar> \<le> 21/10 * (21/10)" by (intro mult_mono) simp_all
  then have ee: "0 \<le> e * e" "e * e \<le> 5" by (simp_all add: abs_mult_self)
  have w: "rnd (e * e) = Fin w" "\<bar>w - e * e\<bar> \<le> eta" unfolding w_def using ee by (intro rnd_val; linarith)+
  have w0: "0 \<le> w" unfolding w_def using ee(1) by (rule rnd_val_nonneg)
  have wb: "w \<le> 5 + eta" using w(2) ee(2) by linarith
  have k: "(of_nat k :: rat) \<le> 13" using Cons.prems(4) by simp
  have s: "rnd (s + w) = Fin s'" "\<bar>s' - (s + w)\<bar> \<le> eta"
    unfolding s'_def using Cons.prems(2,3) w0 wb k eta_small(2) by (intro rnd_val; linarith)+
  have s0: "0 \<le> s'" unfolding s'_def using Cons.prems(2) w0 by (intro rnd_val_nonneg) simp
  have "s' \<le> 6 * of_nat (Suc k)" using s(2) wb Cons.prems(3) eta_small(2) by simp
  then obtain S where "foldl (\<lambda>s i. let diff = dsub (fv X ! i) (fv Y ! i) in dadd s (dmul diff diff)) (Fin s') js = Fin S"
    "0 \<le> S" "S \<le> 84" using Cons.IH[OF _ s0, of "Suc k"] Cons.prems by auto
  moreover have "(let diff = dsub (fv X ! i) (fv Y ! i) in dadd (Fin s) (dmul diff diff)) = Fin s'"
    using i e(1) w(1) s(1) by (simp add: Let_def dsub_Fin)
  ultimately show ?case by auto
qed

lemma sq_dist_ok:
  assumes "\<And>i. i < 14 \<Longrightarrow> \<bar>X i - Y i\<bar> \<le> 2"
  obtains r where "dsqrt (foldl (\<lambda>s i. let diff = dsub (fv X ! i) (fv Y ! i) in dadd s (dmul diff diff))
      (Fin 0) [0..<DIMENSION_COUNT]) = Fin r" "0 \<le> r" "r \<le> 65"
proof -
  have "\<exists>S. foldl (\<lambda>s i. let diff = dsub (fv X ! i) (fv Y ! i) in dadd s (dmul diff diff))
      (Fin 0) [0..<DIMENSION_COUNT] = Fin S \<and> 0 \<le> S \<and> S \<le> 84"
    by (rule sq_fold_ok[where k = 0]) (use assms in \<open>simp_all add: DC del: upt_rec_numeral\<close>)
  then obtain S where S: "foldl (\<lambda>s i. let diff = dsub (fv X ! i) (fv Y ! i) in dadd s (dmul diff diff))
      (Fin 0) [0..<DIMENSION_COUNT] = Fin S" "0 \<le> S" "S \<le> 84" by blast
  obtain r where "dsqrt (Fin S) = Fin r" "0 \<le> r" "r \<le> 65" by (rule dsqrt_Fin[OF S(2)]) (use S(3) in auto)
  with that show thesis by (simp only: S(1))
qed

lemma in_lattice_unit:
  assumes "in_lattice (from_season s) v" "i < 14"
  shows "0 \<le> v ! i \<and> v ! i \<le> 1"
proof -
  obtain b where b: "b \<in> {spring_bounds, summer_bounds, fall_bounds, winter_bounds}" "from_season s = from_bounds b s"
    by (rule from_season_cases)
  have "\<not> (\<exists>h\<in>set (build_lattice (lower_bounds (from_bounds b s)) (upper_bounds (from_bounds b s))). violated h v)"
    using assms(1) in_lattice_facets[of "from_bounds b s" v] by (simp add: b(2) facets_new)
  then have "lower_bounds (from_bounds b s) ! i \<le> v ! i \<and> v ! i \<le> upper_bounds (from_bounds b s) ! i"
    unfolding violated_build using assms(2) by (meson not_le)
  moreover have "\<forall>i<14. 0 \<le> lower_bounds (from_bounds b s) ! i \<and> upper_bounds (from_bounds b s) ! i \<le> 1"
    unfolding all_less_14 using b(1) by (auto simp: lower_bounds_def upper_bounds_def bounds_defs)
  ultimately show ?thesis using assms(2) by (meson order_trans)
qed

lemma project_season:
  assumes "gmp_get_d gd" "\<forall>i<14. 0 \<le> q ! i \<and> q ! i \<le> 1" "length q = 14"
  obtains v where "project gd (new_polytope (from_season s)) (map Fin q) = Some (map Fin v)" "length v = 14"
    "in_lattice (from_season s) v" "\<And>i. i < 14 \<Longrightarrow> 0 \<le> v ! i \<and> v ! i \<le> 1"
  using project_inside[OF assms, of s] in_lattice_unit by blast

lemma margin_bounds:
  assumes "in_lattice (from_season s) q"
  shows "0 \<le> min_margin (lattice_margins (new_polytope (from_season s)) q)"
    and "min_margin (lattice_margins (new_polytope (from_season s)) q) \<le> 1"
proof -
  let ?p = "new_polytope (from_season s)"
  have nv: "\<forall>h\<in>set (facets ?p). \<not> violated h q" using assms in_lattice_facets[of "from_season s" q] by auto
  show "0 \<le> min_margin (lattice_margins ?p q)" using lattice_margins_inside[OF nv] by (simp add: min_margin_ge)
  have "\<forall>m\<in>set (lattice_margins ?p q). min_margin (lattice_margins ?p q) \<le> m"
    using min_margin_ge[of "min_margin (lattice_margins ?p q)" "from_season s" q] by simp
  then have "min_margin (lattice_margins ?p q) \<le> q ! 0 - lower_bounds (from_season s) ! 0"
    unfolding margins_ge_iff all_less_14 by simp
  moreover have "0 \<le> lower_bounds (from_season s) ! 0"
  proof -
    obtain b where "b \<in> {spring_bounds, summer_bounds, fall_bounds, winter_bounds}" "from_season s = from_bounds b s"
      by (rule from_season_cases)
    then show ?thesis by (auto simp: lower_bounds_def bounds_defs)
  qed
  moreover have "q ! 0 \<le> 1" using in_lattice_unit[OF assms, of 0] by simp
  ultimately show "min_margin (lattice_margins ?p q) \<le> 1" by linarith
qed

lemma distance_number:
  assumes "gmp_get_d gd" and "\<forall>i<14. 0 \<le> q ! i \<and> q ! i \<le> 1" and "length q = 14"
  shows "\<exists>r. distance_to_boundary gd (new_polytope (from_season s)) (map Fin q) = Some (Fin r) \<and> 0 \<le> r \<and>
    (in_lattice (from_season s) q \<longrightarrow> r \<le> min_margin (lattice_margins (new_polytope (from_season s)) q))"
proof (cases "in_lattice (from_season s) q")
  case True
  let ?m = "min_margin (lattice_margins (new_polytope (from_season s)) q)"
  have m: "0 \<le> ?m" "\<bar>?m\<bar> < dbl_limit" using margin_bounds[OF True] dbl_limit_big by simp_all
  obtain vs where c: "contains gd (new_polytope (from_season s)) (map Fin q) = Some (True, vs)"
    using contains_new[of gd "from_season s" q] True by auto
  obtain r where "gd ?m = Fin r" "0 \<le> r" "r \<le> ?m"
    using gmp_get_d.get_d_Fin[OF assms(1) m(2)] m(1) by (metis abs_of_nonneg)
  then show ?thesis using True c by (simp add: distance_to_boundary_def)
next
  case False
  obtain vs where c: "contains gd (new_polytope (from_season s)) (map Fin q) = Some (False, vs)"
    using contains_new[of gd "from_season s" q] False by auto
  obtain v where v: "project gd (new_polytope (from_season s)) (map Fin q) = Some (map Fin v)" "length v = 14"
    "\<And>i. i < 14 \<Longrightarrow> 0 \<le> v ! i \<and> v ! i \<le> 1"
    by (rule project_season[where s = s, OF assms]) blast
  have x: "map Fin q = fv (\<lambda>i. q ! i)" "map Fin v = fv (\<lambda>i. v ! i)"
    using assms(3) v(2) map_nth[of q] map_nth[of v] by (simp_all add: fv_map del: upt_rec_numeral)
  have "\<And>i. i < 14 \<Longrightarrow> \<bar>q ! i - v ! i\<bar> \<le> 2" using assms(2) v(3) by (auto simp: abs_le_iff) fastforce+
  then obtain r where r: "dsqrt (foldl (\<lambda>s i. let diff = dsub (fv (\<lambda>i. q ! i) ! i) (fv (\<lambda>i. v ! i) ! i) in dadd s (dmul diff diff))
      (Fin 0) [0..<DIMENSION_COUNT]) = Fin r" "0 \<le> r"
    by (rule sq_dist_ok)
  have "distance_to_boundary gd (new_polytope (from_season s)) (map Fin q) = Some (Fin r)"
    using r(1) v(1) c unfolding distance_to_boundary_def to_mpq_vec_Fin by (simp add: x)
  with r(2) False show ?thesis by blast
qed

text \<open>
  the distance to the boundary of a point of the unit cube is always a non-negative number, for
  every season: inside it is the smallest slack over the ethical walls, converted (so never more
  than that slack); outside it is the root of the summed squares to the projection, which exists.
\<close>

theorem distance_is_number:
  assumes "gmp_get_d gd" and "\<forall>i<14. 0 \<le> q ! i \<and> q ! i \<le> 1" and "length q = 14"
  shows "\<exists>r. distance_to_boundary gd (new_polytope (from_season s)) (map Fin q) = Some (Fin r) \<and> 0 \<le> r \<and>
    (in_lattice (from_season s) q \<longrightarrow> r \<le> min_margin (lattice_margins (new_polytope (from_season s)) q))"
  using assms by (rule distance_number)

theorem distance_is_number_witness:
  "\<exists>r. distance_to_boundary trunc_d (new_polytope (from_season ''fall'')) (map Fin (replicate 14 1)) = Some (Fin r) \<and> 0 \<le> r"
  using distance_is_number[OF gmp.gmp_get_d_axioms, of "replicate 14 1" "''fall''"] by auto

end
