(* ===== verification/Sense_Encoder.thy ===== *)
theory Sense_Encoder
  imports Value_Types
begin

text \<open>
  \<^verbatim>\<open>class DecisionEncoder\<close> of \<^verbatim>\<open>src/src/value_engine.cpp\<close>: the sense lexicon, the negation window and
  the placement of a text in the fourteen dimensions.  Every arithmetic step is a rounded double
  operation in the order of the code.  Word positions are list indices (the code converts them to
  \<^verbatim>\<open>int\<close>, so texts stay below \<open>2 ^ 31\<close> words).
\<close>

section \<open>The lexicon\<close>

record sense_entry =
  word :: string
  d0 :: int
  w0 :: dbl
  d1 :: int
  w1 :: dbl
  d2 :: int
  w2 :: dbl
  d3 :: int
  w3 :: dbl

text \<open>A row of the table; the weights, which all have two decimals, are given in hundredths.\<close>

definition sense :: "string \<Rightarrow> int \<Rightarrow> rat \<Rightarrow> int \<Rightarrow> rat \<Rightarrow> int \<Rightarrow> rat \<Rightarrow> int \<Rightarrow> rat \<Rightarrow> sense_entry" where
  "sense w a wa b wb c wc d wd =
     \<lparr>word = w, d0 = a, w0 = lit (wa / 100), d1 = b, w1 = lit (wb / 100),
      d2 = c, w2 = lit (wc / 100), d3 = d, w3 = lit (wd / 100)\<rparr>"

definition harmony_senses :: "sense_entry list" where
  "harmony_senses =
     [sense ''peace'' 0 50 2 20 (-1) 0 (-1) 0,
      sense ''calm'' 0 40 2 15 (-1) 0 (-1) 0,
      sense ''gentle'' 0 35 12 35 (-1) 0 (-1) 0,
      sense ''kind'' 0 35 12 25 (-1) 0 (-1) 0,
      sense ''warm'' 0 35 12 30 (-1) 0 (-1) 0,
      sense ''love'' 0 45 8 45 12 35 (-1) 0,
      sense ''tender'' 0 30 12 30 (-1) 0 (-1) 0,
      sense ''serene'' 0 35 2 10 (-1) 0 (-1) 0,
      sense ''obey'' 1 75 5 20 11 25 (-1) 0,
      sense ''must'' 1 25 13 10 (-1) 0 (-1) 0,
      sense ''command'' 1 75 2 10 (-1) 0 (-1) 0,
      sense ''force'' 1 55 11 25 3 10 (-1) 0,
      sense ''control'' 1 50 13 15 (-1) 0 (-1) 0,
      sense ''demand'' 1 50 13 15 (-1) 0 (-1) 0,
      sense ''insist'' 1 40 13 15 (-1) 0 (-1) 0,
      sense ''dominate'' 1 60 11 20 (-1) 0 (-1) 0,
      sense ''submit'' 1 45 7 10 (-1) 0 (-1) 0,
      sense ''oppress'' 1 55 7 25 11 25 (-1) 0,
      sense ''dictate'' 1 50 13 15 (-1) 0 (-1) 0,
      sense ''compel'' 1 45 11 15 (-1) 0 (-1) 0,
      sense ''boss'' 1 35 9 10 (-1) 0 (-1) 0,
      sense ''power'' 1 35 10 20 (-1) 0 (-1) 0]"

definition order_senses :: "sense_entry list" where
  "order_senses =
     [sense ''plan'' 2 50 6 10 (-1) 0 (-1) 0,
      sense ''structure'' 2 45 (-1) 0 (-1) 0 (-1) 0,
      sense ''organize'' 2 45 (-1) 0 (-1) 0 (-1) 0,
      sense ''method'' 2 40 (-1) 0 (-1) 0 (-1) 0,
      sense ''discipline'' 2 40 13 15 (-1) 0 (-1) 0,
      sense ''clear'' 2 30 4 15 (-1) 0 (-1) 0,
      sense ''process'' 2 35 (-1) 0 (-1) 0 (-1) 0,
      sense ''consistent'' 2 30 4 15 (-1) 0 (-1) 0,
      sense ''framework'' 2 35 (-1) 0 (-1) 0 (-1) 0,
      sense ''protocol'' 2 35 (-1) 0 (-1) 0 (-1) 0,
      sense ''system'' 2 30 (-1) 0 (-1) 0 (-1) 0,
      sense ''schema'' 2 30 (-1) 0 (-1) 0 (-1) 0,
      sense ''wisdom'' 2 30 4 30 (-1) 0 (-1) 0,
      sense ''knowledge'' 2 30 6 15 (-1) 0 (-1) 0,
      sense ''chaos'' 3 55 (-1) 0 (-1) 0 (-1) 0,
      sense ''random'' 3 45 (-1) 0 (-1) 0 (-1) 0,
      sense ''mess'' 3 40 7 10 (-1) 0 (-1) 0,
      sense ''wild'' 3 40 (-1) 0 (-1) 0 (-1) 0,
      sense ''disorder'' 3 45 (-1) 0 (-1) 0 (-1) 0,
      sense ''erratic'' 3 40 (-1) 0 (-1) 0 (-1) 0,
      sense ''turbulent'' 3 40 (-1) 0 (-1) 0 (-1) 0,
      sense ''confused'' 3 30 7 10 (-1) 0 (-1) 0,
      sense ''confusion'' 3 35 (-1) 0 (-1) 0 (-1) 0,
      sense ''storm'' 3 30 (-1) 0 (-1) 0 (-1) 0,
      sense ''hurry'' 3 20 (-1) 0 (-1) 0 (-1) 0,
      sense ''whatever'' 3 30 (-1) 0 (-1) 0 (-1) 0,
      sense ''anyway'' 3 15 (-1) 0 (-1) 0 (-1) 0]"

definition integrity_senses :: "sense_entry list" where
  "integrity_senses =
     [sense ''honest'' 4 50 (-1) 0 (-1) 0 (-1) 0,
      sense ''truth'' 4 55 (-1) 0 (-1) 0 (-1) 0,
      sense ''truthful'' 4 50 (-1) 0 (-1) 0 (-1) 0,
      sense ''honor'' 4 40 2 15 (-1) 0 (-1) 0,
      sense ''integrity'' 4 50 (-1) 0 (-1) 0 (-1) 0,
      sense ''moral'' 4 40 (-1) 0 (-1) 0 (-1) 0,
      sense ''fair'' 4 35 2 15 (-1) 0 (-1) 0,
      sense ''principle'' 4 35 2 20 (-1) 0 (-1) 0,
      sense ''sincere'' 4 40 (-1) 0 (-1) 0 (-1) 0,
      sense ''genuine'' 4 35 (-1) 0 (-1) 0 (-1) 0,
      sense ''trust'' 4 35 8 35 (-1) 0 (-1) 0,
      sense ''trustworthy'' 4 40 8 20 (-1) 0 (-1) 0,
      sense ''promise'' 4 35 8 20 (-1) 0 (-1) 0,
      sense ''true'' 4 35 (-1) 0 (-1) 0 (-1) 0,
      sense ''justice'' 4 40 2 20 10 15 (-1) 0,
      sense ''faith'' 4 30 12 30 (-1) 0 (-1) 0,
      sense ''lie'' 5 55 (-1) 0 (-1) 0 (-1) 0,
      sense ''deceive'' 5 55 (-1) 0 (-1) 0 (-1) 0,
      sense ''deceit'' 5 50 (-1) 0 (-1) 0 (-1) 0,
      sense ''deception'' 5 55 (-1) 0 (-1) 0 (-1) 0,
      sense ''betray'' 5 45 9 20 (-1) 0 (-1) 0,
      sense ''fake'' 5 45 (-1) 0 (-1) 0 (-1) 0,
      sense ''manipulate'' 5 45 1 15 (-1) 0 (-1) 0,
      sense ''hide'' 5 35 9 10 (-1) 0 (-1) 0,
      sense ''secret'' 5 30 10 15 (-1) 0 (-1) 0,
      sense ''dishonest'' 5 45 (-1) 0 (-1) 0 (-1) 0,
      sense ''trick'' 5 40 (-1) 0 (-1) 0 (-1) 0,
      sense ''mask'' 5 30 (-1) 0 (-1) 0 (-1) 0,
      sense ''false'' 5 35 (-1) 0 (-1) 0 (-1) 0,
      sense ''steal'' 5 30 11 40 (-1) 0 (-1) 0]"

definition flourishing_senses :: "sense_entry list" where
  "flourishing_senses =
     [sense ''grow'' 6 50 (-1) 0 (-1) 0 (-1) 0,
      sense ''thrive'' 6 50 (-1) 0 (-1) 0 (-1) 0,
      sense ''flourish'' 6 50 (-1) 0 (-1) 0 (-1) 0,
      sense ''bloom'' 6 40 (-1) 0 (-1) 0 (-1) 0,
      sense ''prosper'' 6 40 (-1) 0 (-1) 0 (-1) 0,
      sense ''wellbeing'' 6 45 (-1) 0 (-1) 0 (-1) 0,
      sense ''health'' 6 45 (-1) 0 (-1) 0 (-1) 0,
      sense ''heal'' 6 35 0 20 12 15 (-1) 0,
      sense ''learn'' 6 30 2 20 (-1) 0 (-1) 0,
      sense ''hope'' 6 40 0 20 (-1) 0 (-1) 0,
      sense ''joy'' 6 35 0 35 (-1) 0 (-1) 0,
      sense ''happy'' 6 30 0 30 (-1) 0 (-1) 0,
      sense ''help'' 6 35 8 30 0 20 (-1) 0,
      sense ''support'' 6 30 8 30 (-1) 0 (-1) 0,
      sense ''life'' 6 40 0 15 (-1) 0 (-1) 0,
      sense ''create'' 6 30 0 15 (-1) 0 (-1) 0,
      sense ''build'' 6 25 2 25 (-1) 0 (-1) 0,
      sense ''future'' 6 30 2 15 (-1) 0 (-1) 0,
      sense ''child'' 6 30 8 35 0 15 (-1) 0,
      sense ''decline'' 7 45 (-1) 0 (-1) 0 (-1) 0,
      sense ''decay'' 7 40 (-1) 0 (-1) 0 (-1) 0,
      sense ''wither'' 7 40 (-1) 0 (-1) 0 (-1) 0,
      sense ''fade'' 7 30 (-1) 0 (-1) 0 (-1) 0,
      sense ''suffer'' 7 40 3 10 (-1) 0 (-1) 0,
      sense ''fail'' 7 30 (-1) 0 (-1) 0 (-1) 0,
      sense ''collapse'' 7 40 (-1) 0 (-1) 0 (-1) 0,
      sense ''deteriorate'' 7 35 (-1) 0 (-1) 0 (-1) 0,
      sense ''weaken'' 7 30 (-1) 0 (-1) 0 (-1) 0,
      sense ''ruin'' 7 35 (-1) 0 (-1) 0 (-1) 0,
      sense ''fear'' 7 30 9 25 3 15 (-1) 0,
      sense ''death'' 7 40 9 10 (-1) 0 (-1) 0,
      sense ''harm'' 7 30 11 40 (-1) 0 (-1) 0,
      sense ''hurt'' 7 30 9 20 (-1) 0 (-1) 0,
      sense ''destroy'' 7 35 3 20 (-1) 0 (-1) 0,
      sense ''destruction'' 7 35 3 20 (-1) 0 (-1) 0]"

definition relationships_senses :: "sense_entry list" where
  "relationships_senses =
     [sense ''friend'' 8 55 12 20 (-1) 0 (-1) 0,
      sense ''friendship'' 8 45 12 15 (-1) 0 (-1) 0,
      sense ''family'' 8 55 0 20 (-1) 0 (-1) 0,
      sense ''together'' 8 45 0 20 (-1) 0 (-1) 0,
      sense ''connect'' 8 40 0 15 (-1) 0 (-1) 0,
      sense ''bond'' 8 40 0 15 (-1) 0 (-1) 0,
      sense ''community'' 8 45 (-1) 0 (-1) 0 (-1) 0,
      sense ''companion'' 8 45 (-1) 0 (-1) 0 (-1) 0,
      sense ''relationship'' 8 45 (-1) 0 (-1) 0 (-1) 0,
      sense ''kinship'' 8 40 (-1) 0 (-1) 0 (-1) 0,
      sense ''belong'' 8 40 0 10 (-1) 0 (-1) 0,
      sense ''collaborate'' 8 35 0 25 2 15 (-1) 0,
      sense ''cooperate'' 8 35 0 25 (-1) 0 (-1) 0,
      sense ''share'' 8 40 0 20 (-1) 0 (-1) 0,
      sense ''care'' 8 35 12 35 (-1) 0 (-1) 0,
      sense ''listen'' 8 30 0 30 12 20 (-1) 0,
      sense ''team'' 8 30 0 15 (-1) 0 (-1) 0,
      sense ''home'' 8 35 0 30 10 15 (-1) 0,
      sense ''alone'' 9 50 7 15 (-1) 0 (-1) 0,
      sense ''isolate'' 9 50 (-1) 0 (-1) 0 (-1) 0,
      sense ''isolation'' 9 50 (-1) 0 (-1) 0 (-1) 0,
      sense ''lonely'' 9 45 7 10 (-1) 0 (-1) 0,
      sense ''abandon'' 9 40 7 10 (-1) 0 (-1) 0,
      sense ''withdraw'' 9 40 (-1) 0 (-1) 0 (-1) 0,
      sense ''detached'' 9 35 (-1) 0 (-1) 0 (-1) 0,
      sense ''solitary'' 9 40 (-1) 0 (-1) 0 (-1) 0,
      sense ''estranged'' 9 40 (-1) 0 (-1) 0 (-1) 0,
      sense ''shun'' 9 40 (-1) 0 (-1) 0 (-1) 0,
      sense ''miss'' 9 25 7 10 (-1) 0 (-1) 0]"

definition boundaries_senses :: "sense_entry list" where
  "boundaries_senses =
     [sense ''boundary'' 10 50 (-1) 0 (-1) 0 (-1) 0,
      sense ''boundaries'' 10 50 (-1) 0 (-1) 0 (-1) 0,
      sense ''respect'' 10 40 4 25 (-1) 0 (-1) 0,
      sense ''limit'' 10 40 2 10 (-1) 0 (-1) 0,
      sense ''consent'' 10 50 4 20 (-1) 0 (-1) 0,
      sense ''privacy'' 10 45 (-1) 0 (-1) 0 (-1) 0,
      sense ''autonomy'' 10 40 6 15 (-1) 0 (-1) 0,
      sense ''freedom'' 10 35 6 30 (-1) 0 (-1) 0,
      sense ''free'' 10 30 6 20 (-1) 0 (-1) 0,
      sense ''choose'' 10 25 6 15 (-1) 0 (-1) 0,
      sense ''choice'' 10 30 6 15 (-1) 0 (-1) 0,
      sense ''protect'' 10 40 0 25 (-1) 0 (-1) 0,
      sense ''safe'' 10 30 0 30 (-1) 0 (-1) 0,
      sense ''intrude'' 11 50 (-1) 0 (-1) 0 (-1) 0,
      sense ''invade'' 11 50 (-1) 0 (-1) 0 (-1) 0,
      sense ''violate'' 11 55 (-1) 0 (-1) 0 (-1) 0,
      sense ''harass'' 11 50 1 20 (-1) 0 (-1) 0,
      sense ''breach'' 11 45 5 15 (-1) 0 (-1) 0,
      sense ''trespass'' 11 45 (-1) 0 (-1) 0 (-1) 0,
      sense ''pry'' 11 40 (-1) 0 (-1) 0 (-1) 0,
      sense ''interfere'' 11 35 1 10 (-1) 0 (-1) 0,
      sense ''impose'' 11 35 1 20 (-1) 0 (-1) 0,
      sense ''kill'' 11 50 7 40 (-1) 0 (-1) 0]"

definition grace_senses :: "sense_entry list" where
  "grace_senses =
     [sense ''grace'' 12 50 (-1) 0 (-1) 0 (-1) 0,
      sense ''forgive'' 12 50 8 25 (-1) 0 (-1) 0,
      sense ''forgiveness'' 12 50 8 20 (-1) 0 (-1) 0,
      sense ''mercy'' 12 50 (-1) 0 (-1) 0 (-1) 0,
      sense ''compassion'' 12 45 (-1) 0 (-1) 0 (-1) 0,
      sense ''patient'' 12 40 2 20 (-1) 0 (-1) 0,
      sense ''patience'' 12 40 2 20 (-1) 0 (-1) 0,
      sense ''sorry'' 12 45 0 20 (-1) 0 (-1) 0,
      sense ''apologize'' 12 40 0 15 (-1) 0 (-1) 0,
      sense ''please'' 12 20 (-1) 0 (-1) 0 (-1) 0,
      sense ''warmth'' 12 35 0 35 8 20 (-1) 0,
      sense ''kindness'' 12 40 0 30 (-1) 0 (-1) 0,
      sense ''gentleness'' 12 40 0 30 (-1) 0 (-1) 0,
      sense ''compassionate'' 12 45 (-1) 0 (-1) 0 (-1) 0,
      sense ''rigid'' 13 50 (-1) 0 (-1) 0 (-1) 0,
      sense ''strict'' 13 45 2 15 (-1) 0 (-1) 0,
      sense ''inflexible'' 13 50 (-1) 0 (-1) 0 (-1) 0,
      sense ''harsh'' 13 35 1 15 (-1) 0 (-1) 0,
      sense ''unyielding'' 13 45 (-1) 0 (-1) 0 (-1) 0,
      sense ''punitive'' 13 40 1 15 (-1) 0 (-1) 0,
      sense ''stern'' 13 35 (-1) 0 (-1) 0 (-1) 0,
      sense ''severe'' 13 30 7 10 (-1) 0 (-1) 0,
      sense ''perfect'' 13 15 2 20 (-1) 0 (-1) 0,
      sense ''punish'' 13 40 1 20 10 20 (-1) 0]"

definition HERITAGE_LEXICON :: "sense_entry list" where
  "HERITAGE_LEXICON =
     [sense ''father'' 8 40 0 25 12 20 (-1) 0,
      sense ''mother'' 8 40 0 30 12 20 (-1) 0,
      sense ''creation'' 6 30 4 20 (-1) 0 (-1) 0,
      sense ''creator'' 6 25 4 25 12 15 (-1) 0,
      sense ''lineage'' 8 30 4 25 (-1) 0 (-1) 0,
      sense ''heritage'' 8 30 4 25 (-1) 0 (-1) 0,
      sense ''sovereign'' 10 35 4 25 (-1) 0 (-1) 0,
      sense ''sovereignty'' 10 35 4 25 (-1) 0 (-1) 0,
      sense ''reflection'' 2 25 4 20 (-1) 0 (-1) 0,
      sense ''memory'' 2 20 8 20 4 15 (-1) 0,
      sense ''memories'' 2 20 8 20 4 15 (-1) 0,
      sense ''values'' 4 30 12 15 (-1) 0 (-1) 0,
      sense ''gratitude'' 12 35 0 20 (-1) 0 (-1) 0,
      sense ''grateful'' 12 35 0 20 (-1) 0 (-1) 0,
      sense ''thankful'' 12 35 0 20 (-1) 0 (-1) 0,
      sense ''humility'' 12 30 4 20 (-1) 0 (-1) 0,
      sense ''guardrail'' 10 35 2 15 (-1) 0 (-1) 0,
      sense ''guardrails'' 10 35 2 15 (-1) 0 (-1) 0,
      sense ''spring'' 6 20 0 15 (-1) 0 (-1) 0,
      sense ''growth'' 6 40 (-1) 0 (-1) 0 (-1) 0,
      sense ''season'' 6 20 2 15 (-1) 0 (-1) 0,
      sense ''seasons'' 6 20 2 15 (-1) 0 (-1) 0,
      sense ''winter'' 7 15 2 15 (-1) 0 (-1) 0,
      sense ''summer'' 6 25 0 15 (-1) 0 (-1) 0,
      sense ''fall'' 6 20 2 10 (-1) 0 (-1) 0]"

definition SENSE_LEXICON :: "sense_entry list" where
  "SENSE_LEXICON =
     harmony_senses @ order_senses @ integrity_senses @ flourishing_senses @
     relationships_senses @ boundaries_senses @ grace_senses"

definition negation_words :: "string list" where
  "negation_words =
     [''not'', ''never'', ''no'', ''don't'', ''dont'', ''doesn't'', ''doesnt'',
      ''isn't'', ''isnt'', ''aren't'', ''arent'', ''wasn't'', ''wasnt'',
      ''weren't'', ''werent'', ''won't'', ''wont'', ''wouldn't'', ''wouldnt'',
      ''can't'', ''cant'', ''cannot'', ''without'']"

section \<open>The code\<close>

definition detect_negation :: "string list \<Rightarrow> nat \<Rightarrow> bool" where
  "detect_negation words match_start =
     list_ex (\<lambda>i. i < length words \<and> words ! i \<in> set negation_words) [match_start - 3..<match_start]"

definition lookup_sense :: "string \<Rightarrow> sense_entry option" where
  "lookup_sense w = find (\<lambda>e. w = word e) (SENSE_LEXICON @ HERITAGE_LEXICON)"

text \<open>Words of a stream: maximal runs of characters that are not white space.\<close>

fun split_words :: "string \<Rightarrow> string \<Rightarrow> string list" where
  "split_words cur [] = (if cur = [] then [] else [rev cur])"
| "split_words cur (c # cs) =
     (if is_space c then (if cur = [] then split_words [] cs else rev cur # split_words [] cs)
      else split_words (c # cur) cs)"

definition words_of :: "string \<Rightarrow> string list" where
  "words_of s = split_words [] s"

definition pull :: "dbl \<Rightarrow> dbl list \<Rightarrow> int \<times> dbl \<Rightarrow> dbl list" where
  "pull scale sig dw =
     (if fst dw \<ge> 0 then sig[nat (fst dw) := dadd (sig ! nat (fst dw)) (dmul (snd dw) scale)] else sig)"

definition signal_add :: "sense_entry \<Rightarrow> dbl \<Rightarrow> dbl list \<Rightarrow> dbl list" where
  "signal_add e scale sig =
     foldl (pull scale) sig [(d0 e, w0 e), (d1 e, w1 e), (d2 e, w2 e), (d3 e, w3 e)]"

definition accumulate_word :: "string list \<Rightarrow> dbl \<Rightarrow> dbl list \<Rightarrow> nat \<Rightarrow> dbl list" where
  "accumulate_word words weight sig i =
     (case lookup_sense (words ! i) of None \<Rightarrow> sig | Some e \<Rightarrow>
        signal_add e (dmul weight (if detect_negation words i then lit (-7/10) else Fin 1)) sig)"

definition accumulate :: "string list \<Rightarrow> dbl \<Rightarrow> dbl list \<Rightarrow> dbl list" where
  "accumulate words weight sig = foldl (accumulate_word words weight) sig [0..<length words]"

definition baseline :: "dbl list" where
  "baseline = map (\<lambda>i. dmul (DEFAULT_CENTER ! i) (lit (85/100))) [0..<DIMENSION_COUNT]"

definition encode :: "string \<Rightarrow> string option \<Rightarrow> dbl list" where
  "encode txt context =
     (let text_words = words_of (lower_string txt);
          sig1 = accumulate text_words (Fin 1) zero_vector;
          sig = (case context of None \<Rightarrow> sig1
                 | Some c \<Rightarrow> accumulate (words_of (lower_string c)) (lit (4/10)) sig1)
      in map (\<lambda>i. dclamp (dadd (baseline ! i)
                            (dmul (dclamp (sig ! i) (Fin (-1)) (Fin 1)) SIGNAL_DEVIATION))
                    (Fin 0) (Fin 1)) [0..<DIMENSION_COUNT])"

section \<open>Facts about the lexicon\<close>

text \<open>Dimensions in range and weights in the unit interval.\<close>

definition pull_ok :: "int \<times> dbl \<Rightarrow> bool" where
  "pull_ok dw \<longleftrightarrow> fst dw < 14 \<and> (\<exists>q. snd dw = Fin q \<and> 0 \<le> q \<and> q \<le> 1)"

definition sense_ok :: "sense_entry \<Rightarrow> bool" where
  "sense_ok e \<longleftrightarrow> list_all pull_ok [(d0 e, w0 e), (d1 e, w1 e), (d2 e, w2 e), (d3 e, w3 e)]"

lemma rnd_unit: "0 \<le> q \<Longrightarrow> q \<le> 1 \<Longrightarrow> \<exists>r. rnd q = Fin r \<and> 0 \<le> r \<and> r \<le> 1"
  using rnd_between[of 0 1 q] dbl_limit_big by auto

lemma rnd_pm1: "\<bar>q\<bar> \<le> 1 \<Longrightarrow> \<exists>r. rnd q = Fin r \<and> \<bar>r\<bar> \<le> 1"
  using rnd_between[of "-1" 1 q] rep_minus[OF rep_1] dbl_limit_big by (auto simp: abs_le_iff)

lemma sense_ok_sense:
  "a < 14 \<Longrightarrow> b < 14 \<Longrightarrow> c < 14 \<Longrightarrow> d < 14 \<Longrightarrow> 0 \<le> wa \<Longrightarrow> wa \<le> 100 \<Longrightarrow> 0 \<le> wb \<Longrightarrow> wb \<le> 100 \<Longrightarrow>
   0 \<le> wc \<Longrightarrow> wc \<le> 100 \<Longrightarrow> 0 \<le> wd \<Longrightarrow> wd \<le> 100 \<Longrightarrow> sense_ok (sense w a wa b wb c wc d wd)"
  using rnd_unit[of "wa / 100"] rnd_unit[of "wb / 100"] rnd_unit[of "wc / 100"] rnd_unit[of "wd / 100"]
  by (simp add: sense_ok_def sense_def pull_ok_def)

lemma lexicon_ok: "list_all sense_ok (SENSE_LEXICON @ HERITAGE_LEXICON)"
  by (simp add: SENSE_LEXICON_def harmony_senses_def order_senses_def integrity_senses_def
      flourishing_senses_def relationships_senses_def boundaries_senses_def grace_senses_def
      HERITAGE_LEXICON_def sense_ok_sense)

lemma lookup_ok: "lookup_sense w = Some e \<Longrightarrow> sense_ok e"
proof -
  assume "lookup_sense w = Some e"
  then have "e \<in> set (SENSE_LEXICON @ HERITAGE_LEXICON)"
    unfolding lookup_sense_def by (metis find_Some_iff nth_mem)
  with lexicon_ok show ?thesis unfolding list_all_iff by blast
qed

section \<open>The accumulated signal\<close>

definition sig_ok :: "dbl list \<Rightarrow> bool" where
  "sig_ok sig \<longleftrightarrow> length sig = 14 \<and> (\<forall>v\<in>set sig. \<exists>a. v = Fin a \<and> \<bar>a\<bar> \<le> 2 ^ 53)"

lemma pull_sig_ok:
  assumes "sig_ok sig" "pull_ok dw" "\<bar>s\<bar> \<le> 1"
  shows "sig_ok (pull (Fin s) sig dw)"
proof (cases "fst dw \<ge> 0")
  case True
  obtain q where q: "snd dw = Fin q" "0 \<le> q" "q \<le> 1" "fst dw < 14" using assms(2) by (auto simp: pull_ok_def)
  have "\<bar>q * s\<bar> \<le> 1 * 1" unfolding abs_mult using q assms(3) by (intro mult_mono) simp_all
  then obtain r where r: "rnd (q * s) = Fin r" "\<bar>r\<bar> \<le> 1" using rnd_pm1[of "q * s"] by auto
  have "sig ! nat (fst dw) \<in> set sig" using assms(1) True q(4) by (intro nth_mem) (simp add: sig_ok_def)
  then obtain a where a: "sig ! nat (fst dw) = Fin a" "\<bar>a\<bar> \<le> 2 ^ 53" using assms(1) by (auto simp: sig_ok_def)
  obtain c where "dadd (Fin a) (Fin r) = Fin c" "\<bar>c\<bar> \<le> 2 ^ 53" using dadd_bounded[OF a(2) r(2)] .
  then show ?thesis
    using assms(1) True q(1) r(1) a(1) by (auto simp: sig_ok_def pull_def dest!: set_update_subset_insert [THEN subsetD])
qed (use assms in \<open>simp add: pull_def\<close>)

lemma signal_add_ok:
  assumes "sig_ok sig" "sense_ok e" "\<bar>s\<bar> \<le> 1"
  shows "sig_ok (signal_add e (Fin s) sig)"
  using assms by (simp add: signal_add_def sense_ok_def pull_sig_ok)

lemma accumulate_ok:
  assumes "sig_ok sig" "\<bar>w\<bar> \<le> 1"
  shows "sig_ok (accumulate words (Fin w) sig)"
proof -
  have step: "sig_ok (accumulate_word words (Fin w) s i)" if "sig_ok s" for s i
  proof (cases "lookup_sense (words ! i)")
    case (Some e)
    obtain n where n: "lit (-7/10) = Fin n" "\<bar>n\<bar> \<le> 1" using rnd_pm1[of "-7/10"] by auto
    obtain m where m: "(if detect_negation words i then lit (-7/10) else Fin 1) = Fin m" "\<bar>m\<bar> \<le> 1"
      using n by (cases "detect_negation words i") auto
    have "\<bar>w * m\<bar> \<le> 1 * 1" unfolding abs_mult using assms(2) m(2) by (intro mult_mono) simp_all
    then obtain k where k: "rnd (w * m) = Fin k" "\<bar>k\<bar> \<le> 1" using rnd_pm1[of "w * m"] by auto
    show ?thesis
      using Some signal_add_ok[OF that lookup_ok[OF Some] k(2)] by (simp add: accumulate_word_def m(1) k(1))
  qed (use that in \<open>simp add: accumulate_word_def\<close>)
  have "sig_ok (foldl (accumulate_word words (Fin w)) s is)" if "sig_ok s" for s "is"
    using that by (induction "is" arbitrary: s) (simp_all add: step)
  with assms(1) show ?thesis by (simp add: accumulate_def)
qed

lemma zero_sig_ok: "sig_ok zero_vector"
  by (simp add: sig_ok_def zero_vector_def DIMENSION_COUNT_def)

section \<open>The baseline\<close>

lemma center_unit: "i < 14 \<Longrightarrow> \<exists>c. DEFAULT_CENTER ! i = Fin c \<and> \<bar>c - DEFAULT_CENTER_decimals ! i\<bar> \<le> 1 / 2 ^ 42"
proof -
  assume i: "i < 14"
  have len: "length DEFAULT_CENTER_decimals = 14" by (simp add: DEFAULT_CENTER_decimals_def)
  have "\<forall>q\<in>set DEFAULT_CENTER_decimals. \<bar>q\<bar> \<le> 2048" by (simp add: DEFAULT_CENTER_decimals_def)
  then have "\<bar>DEFAULT_CENTER_decimals ! i\<bar> \<le> 2048" using i len by (metis nth_mem)
  then show ?thesis using i len rnd_close[of "DEFAULT_CENTER_decimals ! i"] by (auto simp: DEFAULT_CENTER_def)
qed

lemma baseline_ok:
  assumes i: "i < 14"
  obtains b where "baseline ! i = Fin b" "0 \<le> b" "b \<le> 1" "\<bar>b - 85/100 * DEFAULT_CENTER_decimals ! i\<bar> \<le> 3 / 2 ^ 42"
proof -
  have len: "length DEFAULT_CENTER_decimals = 14" by (simp add: DEFAULT_CENTER_decimals_def)
  have "\<forall>q\<in>set DEFAULT_CENTER_decimals. 1/10 \<le> q \<and> q \<le> 8/10" by (simp add: DEFAULT_CENTER_decimals_def)
  then have q: "1/10 \<le> DEFAULT_CENTER_decimals ! i" "DEFAULT_CENTER_decimals ! i \<le> 8/10" using i len by (metis nth_mem)+
  let ?q = "DEFAULT_CENTER_decimals ! i"
  obtain c where c: "DEFAULT_CENTER ! i = Fin c" "\<bar>c - ?q\<bar> \<le> 1 / 2 ^ 42" using center_unit[OF i] by blast
  obtain e where e: "lit (85/100) = Fin e" "\<bar>e - 85/100\<bar> \<le> 1 / 2 ^ 42" by (rule rnd_close[of "85/100"]) simp
  have s: "(1 / 2 ^ 42 :: rat) \<le> 1/1000" "(0::rat) \<le> 1 / 2 ^ 42" by simp_all
  have cb: "0 \<le> c" "c \<le> 9/10" using c(2) q s by linarith+
  have eb: "0 \<le> e" "e \<le> 9/10" using e(2) s by linarith+
  have ce: "0 \<le> c * e" "c * e \<le> 9/10 * (9/10)" using cb eb by (simp, intro mult_mono) simp_all
  have "\<bar>c * e\<bar> \<le> 2048" using ce by simp
  then obtain b where b: "rnd (c * e) = Fin b" "\<bar>b - c * e\<bar> \<le> 1 / 2 ^ 42" by (rule rnd_close)
  have "\<bar>c * e - 85/100 * ?q\<bar> \<le> 2 / 2 ^ 42"
  proof -
    have "c * e - 85/100 * ?q = (c - ?q) * e + ?q * (e - 85/100)" by (simp add: algebra_simps)
    moreover have "\<bar>(c - ?q) * e\<bar> \<le> 1 / 2 ^ 42 * 1" unfolding abs_mult using c(2) eb by (intro mult_mono) simp_all
    moreover have "\<bar>?q * (e - 85/100)\<bar> \<le> 1 * (1 / 2 ^ 42)" unfolding abs_mult using e(2) q by (intro mult_mono) simp_all
    ultimately show ?thesis by linarith
  qed
  then have d: "\<bar>b - 85/100 * ?q\<bar> \<le> 3 / 2 ^ 42" using b(2) by linarith
  have bl: "baseline ! i = Fin b" using i c(1) e(1) b(1) by (simp add: baseline_def DIMENSION_COUNT_def del: upt_rec_numeral)
  have "0 \<le> b" "b \<le> 1" using d q s by linarith+
  with bl d show thesis using that by blast
qed

section \<open>Properties\<close>

lemma signal_ok:
  "sig_ok (case context of None \<Rightarrow> accumulate ws (Fin 1) zero_vector
      | Some c \<Rightarrow> accumulate (words_of (lower_string c)) (lit (4/10)) (accumulate ws (Fin 1) zero_vector))"
proof -
  obtain q where q: "lit (4/10) = Fin q" "\<bar>q\<bar> \<le> 1" using rnd_pm1[of "4/10"] by auto
  have "sig_ok (accumulate ws (Fin 1) zero_vector)" by (rule accumulate_ok[OF zero_sig_ok]) simp
  then show ?thesis using q by (cases "context") (simp_all add: accumulate_ok)
qed

lemma deviation: obtains d where "SIGNAL_DEVIATION = Fin d" "0 \<le> d" "\<bar>d - 35/100\<bar> \<le> 1 / 2 ^ 42"
proof -
  obtain d where d: "lit (35/100) = Fin d" "\<bar>d - 35/100\<bar> \<le> 1 / 2 ^ 42" by (rule rnd_close[of "35/100"]) simp
  have "(1 / 2 ^ 42 :: rat) \<le> 1/100" by simp
  with d(2) have "0 \<le> d" by linarith
  with d show thesis using that by (simp add: SIGNAL_DEVIATION_def)
qed

lemma encode_coord:
  assumes i: "i < 14"
  shows "\<exists>v. encode txt context ! i = Fin v \<and> 0 \<le> v \<and> v \<le> 1 \<and>
     \<bar>v - 85/100 * DEFAULT_CENTER_decimals ! i\<bar> \<le> 35/100 + 1 / 10 ^ 9"
proof -
  define sig where "sig = (case context of None \<Rightarrow> accumulate (words_of (lower_string txt)) (Fin 1) zero_vector
      | Some c \<Rightarrow> accumulate (words_of (lower_string c)) (lit (4/10)) (accumulate (words_of (lower_string txt)) (Fin 1) zero_vector))"
  have so: "sig_ok sig" unfolding sig_def by (rule signal_ok)
  have "sig ! i \<in> set sig" using so i by (intro nth_mem) (simp add: sig_ok_def)
  then obtain a where a: "sig ! i = Fin a" using so by (auto simp: sig_ok_def)
  obtain t where t: "dclamp (Fin a) (Fin (-1)) (Fin 1) = Fin t" "-1 \<le> t" "t \<le> 1"
    using dclamp_ex[of "Fin a" "-1" 1] by auto
  obtain d where d: "SIGNAL_DEVIATION = Fin d" "0 \<le> d" "\<bar>d - 35/100\<bar> \<le> 1 / 2 ^ 42" by (rule deviation)
  obtain b where b: "baseline ! i = Fin b" "0 \<le> b" "b \<le> 1"
    "\<bar>b - 85/100 * DEFAULT_CENTER_decimals ! i\<bar> \<le> 3 / 2 ^ 42" by (rule baseline_ok[OF i])
  have s: "(10 / 2 ^ 42 :: rat) \<le> 1 / 10 ^ 9" "(1 / 2 ^ 42 :: rat) \<le> 1/100" by simp_all
  have "\<bar>t * d\<bar> \<le> 1 * d" unfolding abs_mult using t d(2) by (intro mult_mono) (simp_all add: abs_le_iff)
  then have td: "\<bar>t * d\<bar> \<le> 35/100 + 1 / 2 ^ 42" using d(3) by linarith
  then have "\<bar>t * d\<bar> \<le> 2048" using s by linarith
  then obtain e where e: "rnd (t * d) = Fin e" "\<bar>e - t * d\<bar> \<le> 1 / 2 ^ 42" by (rule rnd_close)
  have eb: "\<bar>e\<bar> \<le> 35/100 + 2 / 2 ^ 42" using e(2) td by linarith
  then have "\<bar>b + e\<bar> \<le> 2048" using b(2,3) s by linarith
  then obtain f where f: "rnd (b + e) = Fin f" "\<bar>f - (b + e)\<bar> \<le> 1 / 2 ^ 42" by (rule rnd_close)
  have fb: "\<bar>f - 85/100 * DEFAULT_CENTER_decimals ! i\<bar> \<le> 35/100 + 10 / 2 ^ 42" using f(2) eb b(4) by linarith
  have "\<forall>q\<in>set DEFAULT_CENTER_decimals. 0 \<le> q \<and> q \<le> 1" by (simp add: DEFAULT_CENTER_decimals_def)
  then have q: "0 \<le> DEFAULT_CENTER_decimals ! i" "DEFAULT_CENTER_decimals ! i \<le> 1"
    using i by (metis nth_mem length_bounds(4) DEFAULT_CENTER_def length_map)+
  have "\<exists>v. dclamp (Fin f) (Fin 0) (Fin 1) = Fin v \<and> 0 \<le> v \<and> v \<le> 1 \<and>
      (v = f \<or> (v = 0 \<and> f < 0) \<or> (v = 1 \<and> 1 < f))"
    by (cases "f < 0"; cases "1 < f") (auto simp: dclamp_def)
  then obtain v where v: "dclamp (Fin f) (Fin 0) (Fin 1) = Fin v" "0 \<le> v" "v \<le> 1" "v = f \<or> (v = 0 \<and> f < 0) \<or> (v = 1 \<and> 1 < f)"
    by blast
  have "encode txt context ! i = dclamp (dadd (baseline ! i) (dmul (dclamp (sig ! i) (Fin (-1)) (Fin 1)) SIGNAL_DEVIATION)) (Fin 0) (Fin 1)"
    using i by (cases "context") (simp_all add: encode_def Let_def sig_def DIMENSION_COUNT_def del: upt_rec_numeral)
  then have "encode txt context ! i = Fin v" by (simp add: a t(1) d(1) e(1) b(1) f(1) v(1))
  moreover have "\<bar>v - 85/100 * DEFAULT_CENTER_decimals ! i\<bar> \<le> 35/100 + 10 / 2 ^ 42"
    using v(4) fb q by linarith
  ultimately show ?thesis using v(2,3) s(1) by auto
qed

lemma length_encode [simp]: "length (encode txt context) = 14"
  by (simp add: encode_def Let_def DIMENSION_COUNT_def del: upt_rec_numeral)

lemma encode_unit:
  obtains v where "encode txt context = map Fin v" "length v = 14" "\<forall>i<14. 0 \<le> v ! i \<and> v ! i \<le> 1"
proof -
  let ?v = "map val (encode txt context)"
  have "encode txt context = map Fin ?v"
  proof (rule nth_equalityI)
    fix i assume "i < length (encode txt context)"
    then show "encode txt context ! i = map Fin ?v ! i" using encode_coord[of i "txt" "context"] by auto
  qed simp
  moreover have "\<forall>i<14. 0 \<le> ?v ! i \<and> ?v ! i \<le> 1" using encode_coord[of _ "txt" "context"] by fastforce
  ultimately show thesis using that[of ?v] by simp
qed

text \<open>
  C35: the encoder places every text in the unit cube, and not far from home: whatever the text, the
  context and their lengths, the vector has fourteen finite coordinates between 0 and 1 (no sum
  overflows, no NaN), and each differs from 85 percent of the resting point by at most the signal
  deviation of 0.35, up to \<open>10 ^ -9\<close> for rounding.
\<close>

theorem encode_bounded:
  "\<exists>v. encode txt context = map Fin v \<and> length v = 14 \<and>
     (\<forall>i<14. 0 \<le> v ! i \<and> v ! i \<le> 1 \<and>
        \<bar>v ! i - 85/100 * DEFAULT_CENTER_decimals ! i\<bar> \<le> 35/100 + 1 / 10 ^ 9)"
proof -
  obtain v where v: "encode txt context = map Fin v" "length v = 14" by (rule encode_unit)
  have "0 \<le> v ! i \<and> v ! i \<le> 1 \<and> \<bar>v ! i - 85/100 * DEFAULT_CENTER_decimals ! i\<bar> \<le> 35/100 + 1 / 10 ^ 9"
    if "i < 14" for i
    using encode_coord[OF that, of "txt" "context"] that by (simp add: v)
  with v show ?thesis by blast
qed

theorem encode_bounded_witness:
  "\<exists>v. encode ''I love my family'' (Some ''obey'') = map Fin v \<and> length v = 14 \<and> v ! 8 \<le> 1"
  using encode_bounded[of "''I love my family''" "Some ''obey''"] by auto

text \<open>A numeric key that tells the words of the lexicons apart.\<close>

definition word_key :: "string \<Rightarrow> int" where
  "word_key w = foldl (\<lambda>h c. (h * 31 + of_char c) mod 65536) 0 w"

lemmas lexicon_defs =
  SENSE_LEXICON_def harmony_senses_def order_senses_def integrity_senses_def flourishing_senses_def
  relationships_senses_def boundaries_senses_def grace_senses_def HERITAGE_LEXICON_def

lemma lexicon_keys_distinct: "distinct (map word_key (map word (SENSE_LEXICON @ HERITAGE_LEXICON)))"
proof -
  have "distinct (map (foldl (\<lambda>h c. (h * 31 + of_char c) mod 65536) (0::int))
          (map word (SENSE_LEXICON @ HERITAGE_LEXICON)))"
    unfolding lexicon_defs sense_def append.simps list.map sense_entry.simps foldl.simps by simp
  then show ?thesis by (simp only: word_key_def [abs_def])
qed

text \<open>
  a sense is found by its word and by nothing else: the words of the two lexicons are pairwise
  different, so every entry is the one its word finds, and its pulls stay within the fourteen
  dimensions with weights between 0 and 1.
\<close>

theorem lexicon_reachable:
  "list_all (\<lambda>e. lookup_sense (word e) = Some e \<and> sense_ok e) (SENSE_LEXICON @ HERITAGE_LEXICON)"
proof -
  let ?L = "SENSE_LEXICON @ HERITAGE_LEXICON"
  have d: "distinct (map word ?L)" using lexicon_keys_distinct unfolding distinct_map by blast
  have f: "find (\<lambda>e. w = word e) xs = Some e" if "distinct (map word xs)" "e \<in> set xs" "w = word e" for xs e w
    using that by (induction xs) (auto simp: image_iff)
  show ?thesis using lexicon_ok f[OF d] by (auto simp: list_all_iff lookup_sense_def simp del: set_append)
qed

theorem lexicon_reachable_witness:
  "lookup_sense (word (hd SENSE_LEXICON)) = Some (hd SENSE_LEXICON)"
  using lexicon_reachable by (simp add: SENSE_LEXICON_def harmony_senses_def)

text \<open>
  a text without sense words says nothing: when no word of the text and none of the context is
  in the lexicons, the vector is that of the empty text.
\<close>

theorem no_sense_no_move:
  assumes "\<forall>w\<in>set (words_of (lower_string txt)). lookup_sense w = None"
    and "\<forall>c. context = Some c \<longrightarrow> (\<forall>w\<in>set (words_of (lower_string c)). lookup_sense w = None)"
  shows "encode txt context = encode [] None"
proof -
  have acc: "accumulate ws w s = s" if "\<forall>w\<in>set ws. lookup_sense w = None" for ws w s
  proof -
    have "foldl (accumulate_word ws w) s is = s" if "\<forall>i\<in>set is. i < length ws" for s "is"
      using that \<open>\<forall>w\<in>set ws. lookup_sense w = None\<close>
      by (induction "is" arbitrary: s) (simp_all add: accumulate_word_def)
    then show ?thesis by (simp add: accumulate_def)
  qed
  have "accumulate [] (Fin 1) zero_vector = zero_vector" by (simp add: accumulate_def)
  then show ?thesis
    using assms by (cases "context") (simp_all add: encode_def acc words_of_def lower_string_def)
qed

theorem no_sense_no_move_witness: "encode ''Love. Obey!'' (Some ''the'') = encode [] None"
proof -
  have w: "words_of (lower_string ''Love. Obey!'') = [''love.'', ''obey!'']" "words_of (lower_string ''the'') = [''the'']"
    by (code_simp, code_simp)
  have l: "lookup_sense x = None \<longleftrightarrow> x \<notin> set (map word (SENSE_LEXICON @ HERITAGE_LEXICON))" for x
    unfolding lookup_sense_def find_None_iff by auto
  have "lookup_sense ''love.'' = None \<and> lookup_sense ''obey!'' = None \<and> lookup_sense ''the'' = None"
    unfolding l lexicon_defs sense_def append.simps list.map sense_entry.simps by simp
  then show ?thesis by (intro no_sense_no_move) (simp_all add: w)
qed

text \<open>
  the negation window is exactly the three words before the sense word: a sense is taken as
  negated when one of them, and no other word, is a negation.
\<close>

theorem negation_window:
  assumes "i < length ws"
  shows "detect_negation ws i \<longleftrightarrow> (\<exists>w\<in>set (drop (i - 3) (take i ws)). w \<in> set negation_words)"
proof -
  have "drop (i - 3) (take i ws) = map (\<lambda>j. ws ! j) [i - 3..<i]"
    using assms by (intro nth_equalityI) auto
  then show ?thesis using assms by (auto simp: detect_negation_def list_ex_iff)
qed

theorem negation_window_witness:
  "detect_negation [''do'', ''not'', ''ever'', ''lie''] 3 \<and> \<not> detect_negation [''not'', ''a'', ''b'', ''c'', ''lie''] 4"
  using negation_window[of 3 "[''do'', ''not'', ''ever'', ''lie'']"]
    negation_window[of 4 "[''not'', ''a'', ''b'', ''c'', ''lie'']"]
  by (simp add: negation_words_def numeral_eq_Suc)

end
