(* ===== verification/Wisdom_Filter.thy ===== *)
theory Wisdom_Filter
  imports Value_Types
begin

text \<open>
  \<^verbatim>\<open>class WisdomFilter\<close> of \<^verbatim>\<open>src/src/value_engine.cpp\<close>.  The class uses \<^verbatim>\<open>std::regex_search\<close> with
  case-insensitive ECMAScript patterns; \<open>rx\<close> has the constructs these patterns use, and
  \<open>rx_ends\<close> gives the positions where a match that starts at a position can end.
\<close>

section \<open>Patterns\<close>

datatype rx = Lit string | WordBoundary | Spaces | Opt "rx list" | Alt "rx list list"

definition is_word :: "char \<Rightarrow> bool" where
  "is_word c \<longleftrightarrow> is_digit c \<or> is_upper c \<or> is_lower c \<or> c = CHR ''_''"

definition word_at :: "string \<Rightarrow> nat \<Rightarrow> bool" where
  "word_at s i \<longleftrightarrow> i < length s \<and> is_word (s ! i)"

definition boundary_at :: "string \<Rightarrow> nat \<Rightarrow> bool" where
  "boundary_at s i \<longleftrightarrow> (0 < i \<and> word_at s (i - 1)) \<noteq> word_at s i"

fun space_ends :: "string \<Rightarrow> nat \<Rightarrow> nat list" where
  "space_ends [] i = [i]"
| "space_ends (c # cs) i = (if is_space c then i # space_ends cs (Suc i) else [i])"

function rx_ends :: "rx \<Rightarrow> string \<Rightarrow> nat \<Rightarrow> nat list"
  and seq_ends :: "rx list \<Rightarrow> string \<Rightarrow> nat \<Rightarrow> nat list" where
  "rx_ends (Lit w) s i = (if lower_string (substr s i (length w)) = lower_string w then [i + length w] else [])"
| "rx_ends WordBoundary s i = (if boundary_at s i then [i] else [])"
| "rx_ends Spaces s i = space_ends (drop i s) i"
| "rx_ends (Opt rs) s i = i # seq_ends rs s i"
| "rx_ends (Alt rss) s i = concat (map (\<lambda>rs. seq_ends rs s i) rss)"
| "seq_ends [] s i = [i]"
| "seq_ends (r # rs) s i = concat (map (seq_ends rs s) (rx_ends r s i))"
  by pat_completeness auto
termination
  by (relation "measure (\<lambda>x. case x of Inl (r, _, _) \<Rightarrow> size r | Inr (rs, _, _) \<Rightarrow> size_list size rs)")
     (auto simp: size_list_estimation' less_Suc_eq_le)

definition regex_search :: "string \<Rightarrow> rx list \<Rightarrow> bool" where
  "regex_search s rs = list_ex (\<lambda>i. seq_ends rs s i \<noteq> []) [0..<Suc (length s)]"

section \<open>The filter\<close>

definition overconfidence_patterns :: "rx list list" where
  "overconfidence_patterns =
     [[WordBoundary, Lit ''will definitely'', WordBoundary],
      [WordBoundary, Lit ''guaranteed'', WordBoundary],
      [WordBoundary, Lit ''100%'', Spaces, Alt [[Lit ''certain''], [Lit ''sure''], [Lit ''confident'']], WordBoundary],
      [WordBoundary, Lit ''impossible'', Spaces, Lit ''to'', Spaces, Alt [[Lit ''fail''], [Lit ''be wrong'']], WordBoundary],
      [WordBoundary, Lit ''absolutely'', Spaces, Alt [[Lit ''will''], [Lit ''is''], [Lit ''are''], [Lit ''certain'']], WordBoundary],
      [WordBoundary, Lit ''without'', Spaces, Opt [Lit ''any'', Spaces], Lit ''doubt'', WordBoundary],
      [WordBoundary, Lit ''no'', Spaces, Alt [[Lit ''one''], [Lit ''way'']], Spaces, Lit ''can'', WordBoundary],
      [WordBoundary, Lit ''perfect'', Opt [Lit ''ly''], WordBoundary],
      [WordBoundary, Lit ''never'', Spaces, Alt [[Lit ''fail''], [Lit ''wrong''], [Lit ''incorrect'']], WordBoundary]]"

definition trigger_words :: "string list" where
  "trigger_words =
       [''medical'', ''legal'', ''financial'', ''tax'', ''diagnos'', ''prescri'', ''invest'',
        ''lawsuit'', ''dosage'', ''symptom'', ''treatment'', ''contract'', ''liabilit'']"

definition validation_triggers :: "rx list list" where
  "validation_triggers = map (\<lambda>w. [WordBoundary, Lit w, WordBoundary]) trigger_words"

definition overconfidence_note :: string where
  "overconfidence_note =
     ''Overconfidence detected: response makes certainty claims that should be softened.''"

definition humility_note :: string where
  "humility_note =
     ''Humility addition suggested: acknowledge uncertainty or limits of knowledge.''"

definition validation_note :: string where
  "validation_note =
     ''Validation suggestion: topic touches professional domain '' @ em_dash @
     '' recommend consulting qualified expert.''"

definition wisdom_apply :: "string \<Rightarrow> evaluation_result \<Rightarrow> evaluation_result" where
  "wisdom_apply txt res =
     (let overconfident = list_ex (regex_search txt) overconfidence_patterns;
          res1 = (if overconfident then res\<lparr>overconfidence_detected := True\<rparr> else res);
          adj1 = (if overconfident then [overconfidence_note] else []);
          humble = overconfident \<or> dless (r_alignment_score res1) (lit (4/10))
                   \<or> dless (lit (15/100)) (correction_magnitude res1);
          res2 = (if humble then res1\<lparr>humility_added := True\<rparr> else res1);
          adj2 = (if humble then adj1 @ [humility_note] else adj1);
          needs_validation = list_ex (regex_search txt) validation_triggers;
          res3 = (if needs_validation then res2\<lparr>validation_suggested := True\<rparr> else res2);
          adj3 = (if needs_validation then adj2 @ [validation_note] else adj2)
      in res3\<lparr>wisdom_filter_applied := True, wisdom_adjustments := adj3\<rparr>)"

section \<open>Properties\<close>

text \<open>A case-insensitive whole-word occurrence.\<close>

definition whole_word :: "string \<Rightarrow> string \<Rightarrow> bool" where
  "whole_word w s \<longleftrightarrow>
     (\<exists>i \<le> length s. lower_string (substr s i (length w)) = lower_string w \<and>
        boundary_at s i \<and> boundary_at s (i + length w))"

lemma search_word: "regex_search s [WordBoundary, Lit w, WordBoundary] \<longleftrightarrow> whole_word w s"
  by (auto simp: regex_search_def whole_word_def list_ex_iff less_Suc_eq_le simp del: upt_Suc)

lemma triggers_whole_word:
  "list_ex (regex_search txt) validation_triggers \<longleftrightarrow> (\<exists>w\<in>set trigger_words. whole_word w txt)"
  unfolding validation_triggers_def list_ex_iff set_map by (simp only: bex_simps search_word)

lemma is_word_to_lower: "is_word (to_lower c) \<Longrightarrow> is_word c"
  by (auto simp: is_word_def to_lower_def split: if_splits)

lemma trigger_word_shape:
  "w \<in> set trigger_words \<Longrightarrow> lower_string w = w \<and> w \<noteq> [] \<and> is_word (last w)"
proof -
  have "list_all (\<lambda>w. lower_string w = w \<and> w \<noteq> [] \<and> is_word (last w)) trigger_words" by code_simp
  then show "w \<in> set trigger_words \<Longrightarrow> lower_string w = w \<and> w \<noteq> [] \<and> is_word (last w)"
    by (simp add: list_all_iff)
qed

text \<open>An occurrence of a word whose last byte is a word byte does not end at a boundary when the
  text goes on with another word byte.\<close>

lemma word_continues:
  assumes m: "lower_string (substr s i (length w)) = w" "w \<noteq> []" "is_word (last w)"
    and c: "word_at s (i + length w)"
  shows "\<not> boundary_at s (i + length w)"
proof -
  from c have l: "i + length w < length s" by (simp add: word_at_def)
  from m(2) have n: "length w - 1 < length w" by (cases w) auto
  have "last w = lower_string (substr s i (length w)) ! (length w - 1)"
    using m by (simp add: last_conv_nth)
  also have "\<dots> = to_lower (s ! (i + (length w - 1)))"
    using l n by (simp add: lower_string_def substr_def)
  finally have "is_word (s ! (i + (length w - 1)))" using m(3) is_word_to_lower by metis
  with l n have "word_at s (i + length w - 1)" by (simp add: word_at_def)
  with c m(2) show ?thesis by (simp add: boundary_at_def)
qed

text \<open>
  the note list tells exactly what the filter found: for any response and any result without
  notes, the flags that become set are exactly those whose note is listed, in the order
  overconfidence, humility, validation; an overconfident response always gets the humility note;
  validation is suggested exactly when one of the trigger words occurs as a whole word, whatever
  its case; and the geometric part of the result is untouched.
\<close>

theorem wisdom_notes:
  assumes "\<not> overconfidence_detected res" "\<not> humility_added res" "\<not> validation_suggested res"
  shows "let r = wisdom_apply txt res in
     wisdom_filter_applied r \<and>
     wisdom_adjustments r =
       (if overconfidence_detected r then [overconfidence_note] else []) @
       (if humility_added r then [humility_note] else []) @
       (if validation_suggested r then [validation_note] else []) \<and>
     (overconfidence_detected r \<longrightarrow> humility_added r) \<and>
     (validation_suggested r \<longleftrightarrow>
        (\<exists>w\<in>set trigger_words. whole_word w txt)) \<and>
     decision_vector r = decision_vector res \<and> correction_vector r = correction_vector res \<and>
     r_zone r = r_zone res \<and> is_aligned r = is_aligned res \<and>
     r_alignment_score r = r_alignment_score res \<and> correction_magnitude r = correction_magnitude res"
  unfolding triggers_whole_word [symmetric] using assms by (auto simp: wisdom_apply_def Let_def)

theorem wisdom_notes_witness:
  "let r = wisdom_apply ''a legal point'' new_evaluation_result in
     wisdom_filter_applied r \<and> (overconfidence_detected r \<longrightarrow> humility_added r)"
  using wisdom_notes[of new_evaluation_result "''a legal point''"]
  by (simp add: new_evaluation_result_def Let_def)

text \<open>
  the triggers are matched as complete words only, so the four that are word stems
  (\<^verbatim>\<open>diagnos\<close>, \<^verbatim>\<open>prescri\<close>, \<^verbatim>\<open>invest\<close>, \<^verbatim>\<open>liabilit\<close>) never meet the words they stand for: a
  response in which every occurrence of a trigger is continued by a letter, a digit or an
  underscore is never given the suggestion to consult an expert.
\<close>

theorem stems_never_match:
  assumes "\<forall>w\<in>set trigger_words. \<forall>i<length txt.
             lower_string (substr txt i (length w)) = w \<longrightarrow> word_at txt (i + length w)"
  shows "validation_suggested (wisdom_apply txt res) = validation_suggested res"
proof -
  have "\<not> whole_word w txt" if w: "w \<in> set trigger_words" for w
  proof
    assume "whole_word w txt"
    then obtain i where i: "i \<le> length txt" "lower_string (substr txt i (length w)) = w"
      "boundary_at txt (i + length w)"
      using trigger_word_shape[OF w] by (auto simp: whole_word_def)
    then have "i < length txt"
      using trigger_word_shape[OF w] by (cases "i = length txt") (auto simp: substr_def lower_string_def)
    with assms w i have "word_at txt (i + length w)" by blast
    with i trigger_word_shape[OF w] show False using word_continues by blast
  qed
  then have "\<not> list_ex (regex_search txt) validation_triggers"
    by (simp add: triggers_whole_word)
  then show ?thesis by (simp add: wisdom_apply_def Let_def)
qed

theorem stems_never_match_witness:
  "validation_suggested
     (wisdom_apply ''Investing'' new_evaluation_result) =
   validation_suggested new_evaluation_result"
proof -
  have "list_all (\<lambda>w. list_all (\<lambda>i. lower_string (substr ''Investing'' i (length w)) = w \<longrightarrow>
      word_at ''Investing'' (i + length w)) [0..<9]) trigger_words"
    by code_simp
  then show ?thesis
    by (intro stems_never_match) (simp add: list_all_iff del: upt_rec_numeral)
qed

end
