(* ===== verification/Region_Poles.thy ===== *)
theory Region_Poles
  imports Polytope_Inside
begin

text \<open>
  \<^verbatim>\<open>class RegionPoleEngine\<close> and \<^verbatim>\<open>class CorrectionEngine\<close> of \<^verbatim>\<open>src/src/value_engine.cpp\<close>:
  deterministic k-means over memory coordinates (farthest-point seeding, at most forty Lloyd
  iterations, re-seeding of empty clusters), the projection of every centroid into the lattice, and
  the nearest home of a point.  A cluster's sum is accumulated over its members in the order of the
  points, as the code does.  An engine operation is \<open>None\<close> where a projection stops the program.
\<close>

section \<open>The code\<close>

definition DBL_MAX :: dbl where "DBL_MAX = Fin ((2 ^ 53 - 1) * 2 ^ 971)"

record region_pole =
  rp_center :: "dbl list"
  member_count :: nat
  rp_compactness :: dbl

record pole_engine =
  pe_constraints :: polytope_constraints
  pe_polytope :: polytope
  pe_poles :: "region_pole list"

definition new_pole_engine :: "polytope_constraints \<Rightarrow> pole_engine" where
  "new_pole_engine c = \<lparr>pe_constraints = c, pe_polytope = new_polytope c, pe_poles = []\<rparr>"

definition sq_distance :: "dbl list \<Rightarrow> dbl list \<Rightarrow> dbl" where
  "sq_distance a b =
     foldl (\<lambda>s i. let diff = dsub (a ! i) (b ! i) in dadd s (dmul diff diff)) (Fin 0) [0..<DIMENSION_COUNT]"

subsection \<open>Seeding\<close>

definition coords_mean :: "dbl list list \<Rightarrow> dbl list" where
  "coords_mean coords =
     foldl (\<lambda>mean c. map (\<lambda>i. dadd (mean ! i) (ddiv (c ! i) (rnd (of_nat (length coords))))) [0..<DIMENSION_COUNT])
       zero_vector coords"

definition nearest_center_dist :: "dbl list list \<Rightarrow> dbl list \<Rightarrow> dbl" where
  "nearest_center_dist centers p = foldl (\<lambda>m c. dmin m (sq_distance p c)) DBL_MAX centers"

definition farthest :: "dbl list list \<Rightarrow> dbl list list \<Rightarrow> nat \<times> dbl" where
  "farthest coords centers =
     foldl (\<lambda>(best_idx, best_dist) p.
              let d = nearest_center_dist centers (coords ! p)
              in if dless best_dist d then (p, d) else (best_idx, best_dist))
       (0, Fin (-1)) [0..<length coords]"

fun seed_loop :: "dbl list list \<Rightarrow> nat \<Rightarrow> dbl list list \<Rightarrow> dbl list list" where
  "seed_loop coords 0 centers = centers"
| "seed_loop coords (Suc m) centers =
     (let (best_idx, best_dist) = farthest coords centers
      in if dless best_dist (lit (1 / 10 ^ 12)) then centers
         else seed_loop coords m (centers @ [coords ! best_idx]))"

subsection \<open>Lloyd iterations\<close>

definition closest :: "dbl list list \<Rightarrow> dbl list \<Rightarrow> nat" where
  "closest centers p =
     fst (foldl (\<lambda>(best, best_d) c.
              let d = sq_distance p (centers ! c)
              in if dless d best_d then (c, d) else (best, best_d))
       (0, sq_distance p (centers ! 0)) [1..<length centers])"

definition members :: "nat list \<Rightarrow> nat \<Rightarrow> nat list" where
  "members assign c = filter (\<lambda>p. assign ! p = c) [0..<length assign]"

definition cluster_sum :: "dbl list list \<Rightarrow> nat list \<Rightarrow> nat \<Rightarrow> dbl list" where
  "cluster_sum coords assign c =
     foldl (\<lambda>s p. map (\<lambda>i. dadd (s ! i) (coords ! p ! i)) [0..<DIMENSION_COUNT]) zero_vector (members assign c)"

definition centroid :: "dbl list list \<Rightarrow> nat list \<Rightarrow> nat \<Rightarrow> dbl list" where
  "centroid coords assign c =
     map (\<lambda>i. ddiv (cluster_sum coords assign c ! i) (Fin (of_nat (length (members assign c))))) [0..<DIMENSION_COUNT]"

definition move_center :: "dbl list list \<Rightarrow> nat list \<Rightarrow> dbl list list \<times> bool \<Rightarrow> nat \<Rightarrow> dbl list list \<times> bool" where
  "move_center coords assign st c =
     (let (centers, reseeded) = st in
      if length (members assign c) > 0 then (centers[c := centroid coords assign c], reseeded)
      else (centers[c := coords ! fst (farthest coords (take c centers @ drop (Suc c) centers))], True))"

definition pole_iterations :: nat where "pole_iterations = 40"

fun lloyd :: "dbl list list \<Rightarrow> nat \<Rightarrow> nat list \<Rightarrow> dbl list list \<Rightarrow> nat list" where
  "lloyd coords 0 assign centers = assign"
| "lloyd coords (Suc n) assign centers =
     (let assign' = map (closest centers) coords;
          (centers', reseeded) = foldl (move_center coords assign') (centers, False) [0..<length centers]
      in if assign' = assign \<and> \<not> reseeded then assign' else lloyd coords n assign' centers')"

subsection \<open>The poles\<close>

definition make_pole :: "(rat \<Rightarrow> dbl) \<Rightarrow> polytope \<Rightarrow> dbl list list \<Rightarrow> nat list \<Rightarrow> nat \<Rightarrow> region_pole option" where
  "make_pole gd p coords assign c =
     map_option (\<lambda>ctr.
       \<lparr>rp_center = ctr, member_count = length (members assign c),
        rp_compactness =
          ddiv (foldl (\<lambda>acc q. dadd acc (dsqrt (sq_distance (coords ! q) ctr))) (Fin 0) (members assign c))
               (Fin (of_nat (length (members assign c))))\<rparr>)
       (project gd p (centroid coords assign c))"

definition discover :: "(rat \<Rightarrow> dbl) \<Rightarrow> dbl list list \<Rightarrow> int \<Rightarrow> pole_engine \<Rightarrow> pole_engine option" where
  "discover gd coords k e =
     (if coords = [] then Some (e\<lparr>pe_poles := []\<rparr>) else
      let k' = min (nat (min 8 (max 1 k))) (length coords);
          centers = seed_loop coords (k' - 1) [coords_mean coords];
          assign = lloyd coords pole_iterations (replicate (length coords) 0) centers
      in map_option (\<lambda>ps. e\<lparr>pe_poles := ps\<rparr>)
           (those (map (make_pole gd (pe_polytope e) coords assign)
             (filter (\<lambda>c. length (members assign c) \<noteq> 0) [0..<length centers]))))"

definition nearest :: "pole_engine \<Rightarrow> dbl list \<Rightarrow> nat option" where
  "nearest e point =
     (if pe_poles e = [] then None else
      Some (fst (foldl (\<lambda>(best, best_d) i.
              let s = sq_distance point (rp_center (pe_poles e ! i))
              in if dless s best_d then (i, s) else (best, best_d))
            (0, DBL_MAX) [0..<length (pe_poles e)])))"

definition home_for :: "pole_engine \<Rightarrow> dbl list \<Rightarrow> dbl list" where
  "home_for e point =
     (case nearest e point of None \<Rightarrow> DEFAULT_CENTER | Some i \<Rightarrow> rp_center (pe_poles e ! i))"

section \<open>Correction\<close>

definition correct :: "(rat \<Rightarrow> dbl) \<Rightarrow> dbl list \<Rightarrow> polytope \<Rightarrow> (dbl list \<times> dbl) option" where
  "correct gd x p =
     map_option (\<lambda>corrected. (corrected, dsqrt (sq_distance x corrected))) (project gd p x)"

section \<open>Assignments\<close>

text \<open>Every point is assigned to one of the centers, so the clusters partition the points.\<close>

lemma fold_arg_bound:
  assumes "fst z < n" "\<forall>i\<in>set is. i < n"
  shows "fst (foldl (\<lambda>(b, bd) i. let d = f i in if P bd d then (i, d) else (b, bd)) z is) < (n::nat)"
  using assms by (induction "is" arbitrary: z) (auto simp: Let_def split: prod.splits)

lemma closest_less: "centers \<noteq> [] \<Longrightarrow> closest centers p < length centers"
  unfolding closest_def by (rule fold_arg_bound[where P = "\<lambda>bd d. dless d bd"]) auto

lemma farthest_less: "coords \<noteq> [] \<Longrightarrow> fst (farthest coords centers) < length coords"
  unfolding farthest_def by (rule fold_arg_bound[where P = dless]) auto

lemma move_center_length: "length (fst (move_center coords assign z c)) = length (fst z)"
  by (simp add: move_center_def Let_def split: prod.split)

lemma length_move_center: "length (fst (foldl (move_center coords assign) z cs)) = length (fst z)"
  by (induction cs arbitrary: z) (simp_all add: move_center_length)

lemma lloyd_assign:
  assumes "centers \<noteq> []" "0 < n \<or> (length assign = length coords \<and> (\<forall>a\<in>set assign. a < length centers))"
  shows "length (lloyd coords n assign centers) = length coords
    \<and> (\<forall>a\<in>set (lloyd coords n assign centers). a < length centers)"
  using assms
proof (induction n arbitrary: assign centers)
  case (Suc n)
  let ?a = "map (closest centers) coords"
  obtain cs r where m: "foldl (move_center coords ?a) (centers, False) [0..<length centers] = (cs, r)" by fastforce
  have l: "length cs = length centers" using length_move_center[of coords ?a "(centers, False)"] m by (metis fst_conv)
  have ok: "\<forall>a\<in>set ?a. a < length centers" using Suc.prems(1) by (auto simp: closest_less)
  show ?case
    using Suc.IH[of cs ?a] Suc.prems(1) l ok by (cases cs) (auto simp: m Let_def)
qed auto

lemma seed_loop_length:
  "length centers \<le> length (seed_loop coords m centers) \<and> length (seed_loop coords m centers) \<le> length centers + m"
proof (induction m arbitrary: centers)
  case (Suc m)
  obtain bi bd where "farthest coords centers = (bi, bd)" by fastforce
  then show ?case using Suc.IH[of "centers @ [coords ! bi]"] by auto
qed simp

lemma length_members: "length (members assign c) = card {p. p < length assign \<and> assign ! p = c}"
proof -
  have "set (members assign c) = {p. p < length assign \<and> assign ! p = c}" "distinct (members assign c)"
    by (auto simp: members_def)
  then show ?thesis by (metis distinct_card)
qed

lemma members_partition:
  assumes "\<forall>a\<in>set assign. a < k"
  shows "(\<Sum>c\<leftarrow>filter (\<lambda>c. length (members assign c) \<noteq> 0) [0..<k]. length (members assign c)) = length assign"
proof -
  have "(\<Sum>c\<leftarrow>filter (\<lambda>c. length (members assign c) \<noteq> 0) [0..<k]. length (members assign c)) =
      (\<Sum>c\<leftarrow>[0..<k]. length (members assign c))"
    by (rule sum_list_map_filter) simp
  also have "\<dots> = (\<Sum>c<k. card {p. p < length assign \<and> assign ! p = c})"
    by (simp add: sum_list_distinct_conv_sum_set atLeast0LessThan length_members)
  also have "\<dots> = card (\<Union>c<k. {p. p < length assign \<and> assign ! p = c})"
    by (subst card_UN_disjoint) auto
  also have "(\<Union>c<k. {p. p < length assign \<and> assign ! p = c}) = {..<length assign}"
    using assms by auto
  finally show ?thesis by simp
qed

section \<open>Points of the unit cube\<close>

definition unit_point :: "dbl list \<Rightarrow> bool" where
  "unit_point x \<longleftrightarrow> length x = 14 \<and> (\<forall>i<14. \<exists>q. x ! i = Fin q \<and> 0 \<le> q \<and> q \<le> 1)"

lemma unit_point_fv: "unit_point x \<longleftrightarrow> (\<exists>X. x = fv X \<and> (\<forall>i<14. 0 \<le> X i \<and> X i \<le> 1))"
proof
  assume u: "unit_point x"
  then have "\<forall>i<14. x ! i = Fin (val (x ! i)) \<and> 0 \<le> val (x ! i) \<and> val (x ! i) \<le> 1"
    by (auto simp: unit_point_def)
  then show "\<exists>X. x = fv X \<and> (\<forall>i<14. 0 \<le> X i \<and> X i \<le> 1)"
    using u by (intro exI[of _ "\<lambda>i. val (x ! i)"])
      (auto simp: unit_point_def fv_def DC simp del: upt_rec_numeral intro!: nth_equalityI)
next
  assume "\<exists>X. x = fv X \<and> (\<forall>i<14. 0 \<le> X i \<and> X i \<le> 1)"
  then show "unit_point x" by (auto simp: unit_point_def fv_def DC simp del: upt_rec_numeral)
qed

lemma unit_point_map: "unit_point x \<longleftrightarrow> (\<exists>q. x = map Fin q \<and> length q = 14 \<and> (\<forall>i<14. 0 \<le> q ! i \<and> q ! i \<le> 1))"
proof
  assume u: "unit_point x"
  have "x = map Fin (map val x)"
    using u by (intro nth_equalityI) (auto simp: unit_point_def)
  moreover have "\<forall>i<14. 0 \<le> map val x ! i \<and> map val x ! i \<le> 1" "length (map val x) = 14"
    using u by (auto simp: unit_point_def)
  ultimately show "\<exists>q. x = map Fin q \<and> length q = 14 \<and> (\<forall>i<14. 0 \<le> q ! i \<and> q ! i \<le> 1)" by blast
qed (auto simp: unit_point_def)

lemma unit_point_mapI:
  assumes "\<And>i. i < 14 \<Longrightarrow> \<exists>q. f i = Fin q \<and> 0 \<le> q \<and> q \<le> 1"
  shows "unit_point (map f [0..<DIMENSION_COUNT])"
  using assms by (simp add: unit_point_def DC del: upt_rec_numeral)

lemma project_unit:
  assumes "gmp_get_d gd" "unit_point x"
  obtains v where "project gd (new_polytope (from_season s)) x = Some (map Fin v)" "unit_point (map Fin v)"
    "in_lattice (from_season s) v" "length v = 14"
proof -
  obtain q where q: "x = map Fin q" "length q = 14" "\<forall>i<14. 0 \<le> q ! i \<and> q ! i \<le> 1"
    using assms(2) unit_point_map by auto
  obtain v where v: "project gd (new_polytope (from_season s)) (map Fin q) = Some (map Fin v)" "length v = 14"
    "in_lattice (from_season s) v" "\<And>i. i < 14 \<Longrightarrow> 0 \<le> v ! i \<and> v ! i \<le> 1"
    by (rule project_season[where s = s, OF assms(1) q(3,2)]) blast
  then have "unit_point (map Fin v)" by (auto simp: unit_point_map)
  with v q(1) that show thesis by blast
qed

lemma sq_distance_unit:
  assumes "unit_point x" "unit_point y"
  obtains r where "sq_distance x y = Fin r" "0 \<le> r" "r \<le> 84"
proof -
  obtain X Y where xy: "x = fv X" "\<forall>i<14. 0 \<le> X i \<and> X i \<le> 1" "y = fv Y" "\<forall>i<14. 0 \<le> Y i \<and> Y i \<le> 1"
    using assms unfolding unit_point_fv by blast
  have d: "\<bar>X i - Y i\<bar> \<le> 2" if "i < 14" for i
  proof -
    have "0 \<le> X i" "X i \<le> 1" "0 \<le> Y i" "Y i \<le> 1" using xy(2,4) that by auto
    then show ?thesis by linarith
  qed
  have "\<exists>S. foldl (\<lambda>s i. let diff = dsub (fv X ! i) (fv Y ! i) in dadd s (dmul diff diff))
      (Fin 0) [0..<DIMENSION_COUNT] = Fin S \<and> 0 \<le> S \<and> S \<le> 84"
    by (rule sq_fold_ok[where k = 0]) (use d in \<open>simp_all add: DC del: upt_rec_numeral\<close>)
  then show thesis using that by (auto simp: sq_distance_def xy)
qed

lemma rnd_step:
  assumes "0 \<le> s" "s \<le> of_nat k" "0 \<le> x" "x \<le> of_nat b" "k + b \<le> 2 ^ 53"
  shows "\<exists>t. dadd (Fin s) (Fin x) = Fin t \<and> 0 \<le> t \<and> t \<le> of_nat (k + b)"
proof -
  have "int (k + b) \<le> int (2 ^ 53)" using assms(5) by (simp only: of_nat_le_iff)
  then have "rep (of_int (int (k + b)) :: rat)" by (intro rep_of_int) (simp only: abs_of_nat of_nat_power of_nat_numeral)
  then have r: "rep (of_nat (k + b) :: rat)" by (metis of_int_of_nat_eq)
  have "(of_nat (k + b) :: rat) \<le> 2 ^ 53" using assms(5) by (metis of_nat_le_iff of_nat_numeral of_nat_power)
  then have l: "of_nat (k + b) < dbl_limit" using dbl_limit_big by linarith
  have b: "0 \<le> s + x" "s + x \<le> of_nat (k + b)" using assms by simp_all
  have "rnd (s + x) = Fin (round_rat (s + x)) \<and> 0 \<le> round_rat (s + x) \<and> round_rat (s + x) \<le> of_nat (k + b)"
    using rnd_between[OF rep_0 r b] l by (simp add: dbl_limit_def)
  then show ?thesis by simp
qed

lemma mean_step:
  assumes "0 \<le> s" "s \<le> of_nat (n * b)" "0 < n" "b \<le> 100"
  shows "\<exists>t. ddiv (Fin s) (Fin (of_nat n)) = Fin t \<and> 0 \<le> t \<and> t \<le> of_nat b"
proof -
  have "rep (of_int (int b) :: rat)" using assms(4) by (intro rep_of_int) simp
  then have r: "rep (of_nat b :: rat)" by (metis of_int_of_nat_eq)
  have "(of_nat b :: rat) \<le> 100" using assms(4) by (metis of_nat_le_iff of_nat_numeral)
  then have l: "of_nat b < dbl_limit" using dbl_limit_big by simp
  have "0 \<le> s / of_nat n" "s / of_nat n \<le> of_nat b" using assms by (simp_all add: divide_le_eq ac_simps)
  then have "rnd (s / of_nat n) = Fin (round_rat (s / of_nat n)) \<and> 0 \<le> round_rat (s / of_nat n)
      \<and> round_rat (s / of_nat n) \<le> of_nat b"
    using rnd_between[OF rep_0 r] l by (simp add: dbl_limit_def)
  then show ?thesis using assms(3) by simp
qed

lemma cluster_sum_fold:
  assumes "\<forall>p\<in>set ps. unit_point (coords ! p)" "length ps + k \<le> 2 ^ 53"
    and "\<forall>i<14. 0 \<le> S i \<and> S i \<le> of_nat k"
  shows "\<exists>T. foldl (\<lambda>s p. map (\<lambda>i. dadd (s ! i) (coords ! p ! i)) [0..<DIMENSION_COUNT]) (fv S) ps = fv T
    \<and> (\<forall>i<14. 0 \<le> T i \<and> T i \<le> of_nat (k + length ps))"
  using assms
proof (induction ps arbitrary: S k)
  case (Cons p ps)
  obtain X where X: "coords ! p = fv X" "\<forall>i<14. 0 \<le> X i \<and> X i \<le> 1" using Cons.prems(1) unit_point_fv by auto
  define T where "T = (\<lambda>i. val (dadd (Fin (S i)) (Fin (X i))))"
  have T: "dadd (Fin (S i)) (Fin (X i)) = Fin (T i) \<and> 0 \<le> T i \<and> T i \<le> of_nat (Suc k)" if "i < 14" for i
    using rnd_step[of "S i" k "X i" 1] X(2) Cons.prems(2,3) that by (auto simp: T_def)
  have "map (\<lambda>i. dadd (fv S ! i) (coords ! p ! i)) [0..<DIMENSION_COUNT] = fv T"
    unfolding fv_def[of T] X(1) by (intro map_cong refl) (simp add: DC T del: upt_rec_numeral dadd.simps)
  moreover have "\<forall>i<14. 0 \<le> T i \<and> T i \<le> of_nat (Suc k)" using T by blast
  ultimately show ?case using Cons.IH[of "Suc k" T] Cons.prems(1,2) by simp
qed auto

lemma cluster_ok:
  assumes u: "\<forall>x\<in>set coords. unit_point x" and n: "length assign = length coords" "length coords < 2 ^ 31"
    and m: "length (members assign c) \<noteq> 0"
  shows "unit_point (centroid coords assign c)"
proof -
  let ?ps = "members assign c"
  have ps: "\<forall>p\<in>set ?ps. unit_point (coords ! p)" "length ?ps \<le> length coords"
    using u n(1) by (auto simp: members_def intro: order_trans[OF length_filter_le])
  obtain T where T: "cluster_sum coords assign c = fv T" "\<forall>i<14. 0 \<le> T i \<and> T i \<le> of_nat (length ?ps)"
    using cluster_sum_fold[of ?ps coords 0 "\<lambda>_. 0"] ps n by (auto simp: cluster_sum_def zero_vector_fv)
  show ?thesis
    unfolding centroid_def T(1)
  proof (rule unit_point_mapI)
    fix i :: nat assume "i < 14"
    then show "\<exists>q. ddiv (fv T ! i) (Fin (of_nat (length ?ps))) = Fin q \<and> 0 \<le> q \<and> q \<le> 1"
      using mean_step[of "T i" "length ?ps" 1] T(2) m by simp
  qed
qed

section \<open>The poles are homes\<close>

lemma compactness_fold:
  assumes "unit_point ctr" "\<forall>q\<in>set qs. unit_point (coords ! q)" "k + length qs \<le> 2 ^ 40"
    and "0 \<le> a" "a \<le> of_nat (k * 65)"
  shows "\<exists>r. foldl (\<lambda>acc q. dadd acc (dsqrt (sq_distance (coords ! q) ctr))) (Fin a) qs = Fin r
     \<and> 0 \<le> r \<and> r \<le> of_nat ((k + length qs) * 65)"
  using assms(2-)
proof (induction qs arbitrary: a k)
  case (Cons q qs)
  obtain d where d: "sq_distance (coords ! q) ctr = Fin d" "0 \<le> d" "d \<le> 84"
    using sq_distance_unit Cons.prems(1) assms(1) by (metis list.set_intros(1))
  obtain w where w: "dsqrt (Fin d) = Fin w" "0 \<le> w" "w \<le> 65" by (rule dsqrt_Fin[OF d(2)]) (use d(3) in auto)
  have "k * 65 + 65 \<le> 2 ^ 53" using Cons.prems(2) by simp
  then obtain t where t: "dadd (Fin a) (Fin w) = Fin t" "0 \<le> t" "t \<le> of_nat (k * 65 + 65)"
    using rnd_step[of a "k * 65" w 65] Cons.prems w by auto
  show ?case using Cons.IH[of "Suc k" t] Cons.prems(1,2) t
    by (simp add: d(1) w(1) add.commute del: dsqrt.simps dadd.simps)
qed simp

lemma make_pole_ok:
  assumes gd: "gmp_get_d gd" and u: "\<forall>x\<in>set coords. unit_point x"
    and n: "length assign = length coords" "length coords < 2 ^ 31" and m: "length (members assign c) \<noteq> 0"
  obtains v r where "make_pole gd (new_polytope (from_season s)) coords assign c =
      Some \<lparr>rp_center = map Fin v, member_count = length (members assign c), rp_compactness = Fin r\<rparr>"
    "unit_point (map Fin v)" "in_lattice (from_season s) v" "0 \<le> r"
proof -
  obtain v where v: "project gd (new_polytope (from_season s)) (centroid coords assign c) = Some (map Fin v)"
    "unit_point (map Fin v)" "in_lattice (from_season s) v"
    by (rule project_unit[OF gd cluster_ok[OF u n m]]) blast
  let ?ps = "members assign c"
  have ps: "\<forall>p\<in>set ?ps. unit_point (coords ! p)" "length ?ps \<le> length coords"
    using u n(1) by (auto simp: members_def intro: order_trans[OF length_filter_le])
  obtain a where a: "foldl (\<lambda>acc q. dadd acc (dsqrt (sq_distance (coords ! q) (map Fin v)))) (Fin 0) ?ps = Fin a"
    "0 \<le> a" "a \<le> of_nat (length ?ps * 65)"
    using compactness_fold[OF v(2) ps(1), of 0 0] ps(2) n(2) by auto
  obtain r where "ddiv (Fin a) (Fin (of_nat (length ?ps))) = Fin r" "0 \<le> r"
    using mean_step[OF a(2,3)] m by auto
  with v a that show thesis by (simp add: make_pole_def)
qed

lemma those_map_Some:
  "(\<And>x. x \<in> set xs \<Longrightarrow> \<exists>y. f x = Some y) \<Longrightarrow> those (map f xs) = Some (map (the \<circ> f) xs)"
  by (induction xs) fastforce+

definition pole_ok :: "string \<Rightarrow> region_pole \<Rightarrow> bool" where
  "pole_ok s p \<longleftrightarrow> 0 < member_count p \<and> unit_point (rp_center p) \<and>
     (\<exists>v. rp_center p = map Fin v \<and> in_lattice (from_season s) v) \<and> (\<exists>r. rp_compactness p = Fin r \<and> 0 \<le> r)"

lemma discover_ok:
  assumes gd: "gmp_get_d gd" and u: "\<forall>x\<in>set coords. unit_point x"
    and n: "coords \<noteq> []" "length coords < 2 ^ 31" and e: "pe_polytope e = new_polytope (from_season s)"
  shows "\<exists>ps. discover gd coords k e = Some (e\<lparr>pe_poles := ps\<rparr>) \<and> ps \<noteq> [] \<and> int (length ps) \<le> max 1 (min 8 k)
     \<and> (\<Sum>p\<leftarrow>ps. member_count p) = length coords \<and> (\<forall>p\<in>set ps. pole_ok s p)"
proof -
  define k' where "k' = min (nat (min 8 (max 1 k))) (length coords)"
  define cs where "cs = seed_loop coords (k' - 1) [coords_mean coords]"
  define a where "a = lloyd coords pole_iterations (replicate (length coords) 0) cs"
  define js where "js = filter (\<lambda>c. length (members a c) \<noteq> 0) [0..<length cs]"
  define mk where "mk = make_pole gd (new_polytope (from_season s)) coords a"
  define ps where "ps = map (the \<circ> mk) js"
  have cs: "1 \<le> length cs" "length cs \<le> 1 + (k' - 1)"
    unfolding cs_def using seed_loop_length[of "[coords_mean coords]" coords "k' - 1"] by simp_all
  then have "cs \<noteq> []" by (metis list.size(3) not_one_le_zero)
  then have a: "length a = length coords" "\<forall>c\<in>set a. c < length cs"
    unfolding a_def using lloyd_assign[of cs pole_iterations "replicate (length coords) 0" coords]
    by (simp_all add: pole_iterations_def del: lloyd.simps)
  have mk: "\<exists>p. mk c = Some p \<and> member_count p = length (members a c) \<and> pole_ok s p" if c: "c \<in> set js" for c
  proof -
    have m: "length (members a c) \<noteq> 0" using c by (simp add: js_def)
    obtain v r where "mk c = Some \<lparr>rp_center = map Fin v, member_count = length (members a c), rp_compactness = Fin r\<rparr>"
      "unit_point (map Fin v)" "in_lattice (from_season s) v" "0 \<le> r"
      unfolding mk_def by (rule make_pole_ok[OF gd u a(1) n(2) m, of s]) blast
    then show ?thesis using m by (auto simp: pole_ok_def)
  qed
  have "those (map mk js) = Some ps" unfolding ps_def by (rule those_map_Some) (use mk in blast)
  then have d: "discover gd coords k e = Some (e\<lparr>pe_poles := ps\<rparr>)"
    using n(1) by (simp add: discover_def e Let_def k'_def cs_def a_def js_def mk_def)
  have mc: "map member_count ps = map (\<lambda>c. length (members a c)) js"
    unfolding ps_def map_map by (rule map_cong) (use mk in fastforce)+
  have s: "(\<Sum>p\<leftarrow>ps. member_count p) = length coords"
    unfolding mc js_def members_partition[OF a(2)] by (rule a(1))
  then have "ps \<noteq> []" using n(1) by auto
  moreover have "length ps \<le> length cs"
    using length_filter_le[of _ "[0..<length cs]"] by (simp add: ps_def js_def)
  then have "int (length ps) \<le> max 1 (min 8 k)" using cs(2) n(1) by (cases coords) (auto simp: k'_def)
  moreover have "\<forall>p\<in>set ps. pole_ok s p" unfolding ps_def using mk by fastforce
  ultimately show ?thesis using d s by blast
qed

text \<open>
  discovering the poles always ends, and every pole is a home: for coordinates in the unit cube
  and the lattice of any season, the engine stores between one and \<open>k\<close> poles (at most eight), they
  share out all the points, each has at least one member and a centre that lies inside the lattice
  exactly, and its compactness is a non-negative number.
\<close>

theorem poles_are_homes:
  assumes "gmp_get_d gd" and "\<forall>x\<in>set coords. unit_point x" and "coords \<noteq> []" and "length coords < 2 ^ 31"
    and "pe_polytope e = new_polytope (from_season s)"
  shows "\<exists>ps. discover gd coords k e = Some (e\<lparr>pe_poles := ps\<rparr>) \<and> ps \<noteq> [] \<and> int (length ps) \<le> max 1 (min 8 k)
     \<and> (\<Sum>p\<leftarrow>ps. member_count p) = length coords \<and> (\<forall>p\<in>set ps. pole_ok s p)"
  using assms by (rule discover_ok)

lemma unit_point_replicate: "0 \<le> q \<Longrightarrow> q \<le> 1 \<Longrightarrow> unit_point (map Fin (replicate 14 q))"
  by (auto simp: unit_point_map intro!: exI[of _ "replicate 14 q"])

theorem poles_are_homes_witness:
  "\<exists>ps. discover trunc_d (map (\<lambda>q. map Fin (replicate 14 q)) [0, 1, 1 / 2]) 2 (new_pole_engine (from_season ''fall'')) =
     Some (new_pole_engine (from_season ''fall'')\<lparr>pe_poles := ps\<rparr>) \<and> ps \<noteq> [] \<and> int (length ps) \<le> 2
     \<and> (\<Sum>p\<leftarrow>ps. member_count p) = 3"
proof -
  have "\<forall>x\<in>set (map (\<lambda>q. map Fin (replicate 14 q)) [0, 1, 1 / 2]). unit_point x"
    using unit_point_replicate[of 0] unit_point_replicate[of 1] unit_point_replicate[of "1 / 2"] by auto
  from poles_are_homes[OF gmp.gmp_get_d_axioms this, of "new_pole_engine (from_season ''fall'')" "''fall''" 2]
  show ?thesis by (auto simp: new_pole_engine_def numeral_3_eq_3)
qed

section \<open>The nearest home\<close>

lemma dless_trans: "dless a b \<Longrightarrow> dless b c \<Longrightarrow> dless a c"
  by (cases a; cases b; cases c) auto

lemma nearest_fold:
  assumes "\<forall>j\<in>set (is :: nat list). \<exists>q. f j = Fin q \<and> q < M"
    and "foldl (\<lambda>(b, bd) i. let s = f i in if dless s bd then (i, s) else (b, bd)) (0, Fin M) is = (r, rd)"
  shows "(is = [] \<longrightarrow> r = 0 \<and> rd = Fin M) \<and> (is \<noteq> [] \<longrightarrow> r \<in> set is \<and> rd = f r \<and> (\<forall>j\<in>set is. dle (f r) (f j)))"
  using assms
proof (induction "is" arbitrary: r rd rule: rev_induct)
  case (snoc i "is")
  obtain r' rd' where f: "foldl (\<lambda>(b, bd) i. let s = f i in if dless s bd then (i, s) else (b, bd)) (0, Fin M) is = (r', rd')"
    by fastforce
  note ih = snoc.IH[OF _ f]
  obtain q where q: "f i = Fin q" "q < M" using snoc.prems(1) by auto
  show ?case
  proof (cases "is = []")
    case True
    then show ?thesis using snoc.prems(2) q by (auto simp: Let_def) (metis dle_Fin order_refl)
  next
    case False
    then have r': "r' \<in> set is" "rd' = f r'" "\<forall>j\<in>set is. dle (f r') (f j)" using ih snoc.prems(1) by auto
    obtain q' where q': "f r' = Fin q'" using snoc.prems(1) r'(1) by auto
    show ?thesis
    proof (cases "dless (f i) rd'")
      case True
      then have "r = i" "rd = f i" using snoc.prems(2) f by (auto simp: Let_def)
      moreover have "dle (f i) (f j)" if "j \<in> set is" for j
      proof -
        obtain qj where "f j = Fin qj" using snoc.prems(1) \<open>j \<in> set is\<close> by auto
        then show ?thesis using r'(3) that True q q' r'(2) by auto
      qed
      ultimately show ?thesis using q by auto
    next
      case False
      then have "r = r'" "rd = rd'" using snoc.prems(2) f by (auto simp: Let_def)
      then show ?thesis using r' q q' False by auto
    qed
  qed
qed simp

lemma nearest_less: "nearest e p = Some i \<Longrightarrow> i < length (pe_poles e)"
  unfolding nearest_def
  by (auto split: if_splits intro!: fold_arg_bound[where P = "\<lambda>bd d. dless d bd"])

text \<open>
  home is always inside, and it is the nearest one: after a discovery in a season, the home
  handed out for any point whatever (even one with infinite or undefined coordinates) lies inside
  the lattice of that season; for a point of the unit cube it is the centre of a pole, and no other
  pole is nearer.
\<close>

theorem home_inside_and_nearest:
  assumes "gmp_get_d gd" and "\<forall>x\<in>set coords. unit_point x" and "coords \<noteq> []" and "length coords < 2 ^ 31"
    and "pe_polytope e = new_polytope (from_season s)" and "discover gd coords k e = Some e'"
  shows "(\<exists>v. home_for e' x = map Fin v \<and> in_lattice (from_season s) v)
       \<and> (unit_point x \<longrightarrow> (\<forall>p\<in>set (pe_poles e'). dle (sq_distance x (home_for e' x)) (sq_distance x (rp_center p))))"
proof -
  obtain ps where ps: "pe_poles e' = ps" "ps \<noteq> []" "\<forall>p\<in>set ps. pole_ok s p"
    using discover_ok[OF assms(1-5), of k] assms(6) by auto
  then obtain i where i: "nearest e' x = Some i" by (auto simp: nearest_def)
  then have il: "i < length ps" using nearest_less ps(1) by blast
  have h: "home_for e' x = rp_center (ps ! i)" by (simp add: home_for_def i ps(1))
  have "\<forall>j<length ps. dle (sq_distance x (rp_center (ps ! i))) (sq_distance x (rp_center (ps ! j)))" if u: "unit_point x"
  proof -
    let ?f = "\<lambda>j. sq_distance x (rp_center (ps ! j))"
    let ?F = "foldl (\<lambda>(b, bd) i. let s = ?f i in if dless s bd then (i, s) else (b, bd))
      (0, Fin ((2 ^ 53 - 1) * 2 ^ 971)) [0..<length ps]"
    have fin: "\<forall>j\<in>set [0..<length ps]. \<exists>q. ?f j = Fin q \<and> q < (2 ^ 53 - 1) * 2 ^ 971"
    proof
      fix j assume "j \<in> set [0..<length ps]"
      then have "unit_point (rp_center (ps ! j))" using ps(3) by (simp add: pole_ok_def)
      then obtain r where "?f j = Fin r" "r \<le> 84" using sq_distance_unit[OF u] by blast
      moreover have "(84::rat) < (2 ^ 53 - 1) * 2 ^ 971" by simp
      ultimately show "\<exists>q. ?f j = Fin q \<and> q < (2 ^ 53 - 1) * 2 ^ 971" by fastforce
    qed
    have "fst ?F = i" using i ps(1,2) by (simp add: nearest_def DBL_MAX_def)
    then show ?thesis using nearest_fold[OF fin, of "fst ?F" "snd ?F"] ps(2) by auto
  qed
  moreover have "pole_ok s (ps ! i)" using ps(3) il by simp
  ultimately show ?thesis unfolding h ps(1) by (auto simp: pole_ok_def in_set_conv_nth)
qed

theorem home_inside_and_nearest_witness:
  "\<exists>e' v. discover trunc_d [map Fin (replicate 14 1)] 3 (new_pole_engine (from_season ''spring'')) = Some e'
     \<and> home_for e' [NaN] = map Fin v \<and> in_lattice (from_season ''spring'') v"
proof -
  let ?e = "new_pole_engine (from_season ''spring'')" and ?x = "map Fin (replicate 14 1)"
  have u: "\<forall>x\<in>set [?x]. unit_point x" using unit_point_replicate[of 1] by simp
  have e: "pe_polytope ?e = new_polytope (from_season ''spring'')" by (simp add: new_pole_engine_def)
  obtain e' where e': "discover trunc_d [?x] 3 ?e = Some e'"
    using discover_ok[OF gmp.gmp_get_d_axioms u _ _ e, of 3] by auto
  show ?thesis using home_inside_and_nearest[OF gmp.gmp_get_d_axioms u _ _ e e', of "[NaN]"] e' by auto
qed

text \<open>The correction of a point of the unit cube.\<close>

lemma correct_unit:
  assumes "gmp_get_d gd" "unit_point x"
  obtains v m where "correct gd x (new_polytope (from_season s)) = Some (map Fin v, Fin m)" "0 \<le> m" "m \<le> 19/2"
    "unit_point (map Fin v)" "in_lattice (from_season s) v" "length v = 14"
proof -
  obtain v where v: "project gd (new_polytope (from_season s)) x = Some (map Fin v)" "unit_point (map Fin v)"
    "in_lattice (from_season s) v" "length v = 14"
    by (rule project_unit[OF assms]) blast
  obtain d where d: "sq_distance x (map Fin v) = Fin d" "0 \<le> d" "d \<le> 84" by (rule sq_distance_unit[OF assms(2) v(2)]) blast
  have r: "rep (19/2)" by (rule repI[of _ 19 "-1"]) (simp_all add: power_int_def)
  obtain m where "dsqrt (Fin d) = Fin m" "0 \<le> m" "m \<le> 19/2"
    by (rule dsqrt_le[of d "46/5" "19/2"]) (use d r in \<open>simp_all add: power2_eq_square\<close>)
  with v d that show thesis by (simp add: correct_def)
qed

end
