(* ===== verification/Number_Text.thy ===== *)
theory Number_Text
  imports Doubles
begin

text \<open>
  Decimal texts of doubles: \<^verbatim>\<open>std::fixed << std::setprecision(p)\<close> and \<^verbatim>\<open>std::to_string(double)\<close>
  (six decimals).  Both print the exact value rounded to the nearest decimal, ties to even.  A
  zero carries no sign in \<^typ>\<open>dbl\<close>, so the text \<^verbatim>\<open>-0.00\<close> of a negative zero is not modelled; a
  negative number that rounds to zero does print its sign.
\<close>

definition pad_zeros :: "nat \<Rightarrow> string \<Rightarrow> string" where
  "pad_zeros n s = replicate (n - length s) (CHR ''0'') @ s"

definition fixed_digits :: "nat \<Rightarrow> nat \<Rightarrow> string" where
  "fixed_digits p m = string_of_nat (m div 10 ^ p) @ ''.'' @ pad_zeros p (string_of_nat (m mod 10 ^ p))"

definition fixed_string :: "nat \<Rightarrow> dbl \<Rightarrow> string" where
  "fixed_string p v =
     (case v of
        Fin q \<Rightarrow> (if q < 0 then ''-'' else []) @ fixed_digits p (nat (rne (\<bar>q\<bar> * 10 ^ p)))
      | PInf \<Rightarrow> ''inf'' | NInf \<Rightarrow> ''-inf'' | NaN \<Rightarrow> ''nan'')"

definition string_of_double :: "dbl \<Rightarrow> string" where
  "string_of_double v = fixed_string 6 v"

end
