(* ===== verification/Geometric_State.thy ===== *)
theory Geometric_State
  imports Value_Types Number_Text
begin

text \<open>
  \<^verbatim>\<open>GeometricState::to_frame_text\<close> of \<^verbatim>\<open>src/src/value_engine.cpp\<close>: the block of facts about
  position, movement, near walls and home that rides every frame.  The trajectory loop stops after
  four entries; the theorem says which ones these are.
\<close>

record geometric_state =
  position :: "dbl list"
  trajectory :: "dbl list"
  gs_near_walls :: "string list"
  home :: "dbl list"
  has_home :: bool

definition newline :: string where "newline = [char_of (10 :: nat)]"

definition fmt2 :: "dbl \<Rightarrow> string" where "fmt2 v = fixed_string 2 v"

definition dim_pairs :: "dbl list \<Rightarrow> string" where
  "dim_pairs v =
     concat (map (\<lambda>i. '' '' @ DIMENSION_NAMES ! i @ ''='' @ fmt2 (v ! i) @
                      '' '' @ DIMENSION_NAMES ! (i + 1) @ ''='' @ fmt2 (v ! (i + 1)) @
                      (if i + 2 < DIMENSION_COUNT then newline @ ''  '' else []))
       [0, 2, 4, 6, 8, 10, 12])"

definition still :: "dbl \<Rightarrow> bool" where "still d = dless (dabs d) (lit (2/100))"

definition move_entry :: "dbl list \<Rightarrow> nat \<Rightarrow> string" where
  "move_entry t i = '' '' @ DIMENSION_NAMES ! i @ (if dle (Fin 0) (t ! i) then ''+'' else []) @ fmt2 (t ! i)"

text \<open>The loop over the dimensions, with the number of entries shown so far.\<close>

fun moves :: "dbl list \<Rightarrow> nat list \<Rightarrow> nat \<Rightarrow> string \<times> bool" where
  "moves t [] shown = ([], False)"
| "moves t (i # is) shown =
     (if shown < 4
      then (if still (t ! i) then moves t is shown
            else (move_entry t i @ fst (moves t is (shown + 1)), True))
      else ([], False))"

definition to_frame_text :: "geometric_state \<Rightarrow> string" where
  "to_frame_text g =
     (let (entries, moving) = moves (trajectory g) [0..<DIMENSION_COUNT] 0 in
      ''[GEOMETRY]'' @ newline @ ''position:'' @ dim_pairs (position g) @
      newline @ ''trajectory:'' @ entries @ (if moving then [] else '' at rest'') @
      (if gs_near_walls g \<noteq> [] then newline @ ''near walls:'' @ concat (map (\<lambda>w. '' '' @ w) (gs_near_walls g)) else []) @
      (if has_home g then newline @ ''home region:'' @ dim_pairs (home g) else []))"

lemma moves_eq:
  "moves t is shown =
     (let js = take (4 - shown) (filter (\<lambda>i. \<not> still (t ! i)) is) in (concat (map (move_entry t) js), js \<noteq> []))"
proof (induction "is" arbitrary: shown)
  case (Cons i "is")
  show ?case
  proof (cases "shown < 4")
    case True
    then have "4 - shown = Suc (4 - (shown + 1))" by simp
    then show ?thesis using True Cons by (simp add: Let_def)
  qed simp
qed simp

text \<open>
  the frame names the first four moving dimensions and says "at rest" exactly when there is
  none: the trajectory line lists, in order, at most four dimensions whose change is not below 0.02
  in magnitude (a change that is not a number counts as moving).
\<close>

theorem frame_lists_first_moves:
  "(let js = take 4 (filter (\<lambda>i. \<not> still (trajectory g ! i)) [0..<DIMENSION_COUNT])
    in \<exists>rest. to_frame_text g = ''[GEOMETRY]'' @ newline @ ''position:'' @ dim_pairs (position g) @ newline @
         ''trajectory:'' @ (if js = [] then '' at rest'' else concat (map (move_entry (trajectory g)) js)) @ rest)"
  by (simp add: to_frame_text_def moves_eq Let_def)

end
