(* ===== verification/Encoder_Feedback.thy ===== *)
theory Encoder_Feedback
  imports Region_Poles "HOL-Library.Char_ord" "HOL-Library.List_Lexorder"
begin

text \<open>
  \<^verbatim>\<open>class EncoderFeedbackSystem\<close> of \<^verbatim>\<open>src/src/value_engine.cpp\<close>: a miscalibration is flagged,
  confirmed by an authority, and moves the biases that are added to every later encoding.  A map
  argument is the list of its entries in iteration order.  An index outside the fourteen dimensions
  is undefined behaviour in the code and \<open>None\<close> here; the exception of a refused confirmation is
  \<open>Inl\<close> its message.
\<close>

section \<open>The code\<close>

record pending_correction =
  pc_evaluation_id :: string
  pc_response_text :: string
  pc_original_vector :: "dbl list"
  pc_corrected_vector :: "dbl list"
  pc_dimensions_adjusted :: "int list"
  pc_flagged_by :: string
  pc_reason :: string
  pc_season :: string
  requires_confirmation_from :: string

record feedback =
  fb_season :: string
  fb_corrections :: "encoder_correction list"
  dimension_biases :: "dbl list"
  known_patterns :: "string \<Rightarrow> dbl list option"

definition BASE_LEARNING_RATE :: dbl where "BASE_LEARNING_RATE = lit (5/100)"
definition MAX_WEIGHT_ADJUSTMENT :: dbl where "MAX_WEIGHT_ADJUSTMENT = lit (3/10)"

definition new_feedback :: "string \<Rightarrow> feedback" where
  "new_feedback s = \<lparr>fb_season = s, fb_corrections = [], dimension_biases = zero_vector, known_patterns = Map.empty\<rparr>"

definition adjust_dim :: "dbl list option \<Rightarrow> int \<times> dbl \<Rightarrow> dbl list option" where
  "adjust_dim v da =
     (case v of None \<Rightarrow> None | Some xs \<Rightarrow>
        if 0 \<le> fst da \<and> fst da < int DIMENSION_COUNT
        then Some (xs[nat (fst da) := dclamp (snd da) (Fin 0) (Fin 1)]) else None)"

definition flag_miscalibration ::
  "feedback \<Rightarrow> string \<Rightarrow> string \<Rightarrow> dbl list \<Rightarrow> (int \<times> dbl) list \<Rightarrow> string \<Rightarrow> string \<Rightarrow> pending_correction option" where
  "flag_miscalibration fb ev resp original dims flagged reason =
     map_option (\<lambda>corrected.
       \<lparr>pc_evaluation_id = ev, pc_response_text = resp, pc_original_vector = original,
        pc_corrected_vector = corrected, pc_dimensions_adjusted = map fst dims,
        pc_flagged_by = flagged, pc_reason = reason, pc_season = fb_season fb,
        requires_confirmation_from = (if fb_season fb = ''spring'' then ''user'' else ''none'')\<rparr>)
       (foldl adjust_dim (Some original) dims)"

definition apply_correction :: "encoder_correction \<Rightarrow> feedback \<Rightarrow> feedback" where
  "apply_correction ec fb =
     (let delta = adjustment_delta ec in
      fb\<lparr>dimension_biases :=
        map (\<lambda>i. dclamp (dadd (dimension_biases fb ! i) (dmul (delta ! i) BASE_LEARNING_RATE))
                   (dneg MAX_WEIGHT_ADJUSTMENT) MAX_WEIGHT_ADJUSTMENT) [0..<DIMENSION_COUNT]\<rparr>)"

definition apply_biases :: "feedback \<Rightarrow> dbl list \<Rightarrow> dbl list" where
  "apply_biases fb raw =
     map (\<lambda>i. dclamp (dadd (raw ! i) (dimension_biases fb ! i)) (Fin 0) (Fin 1)) [0..<DIMENSION_COUNT]"

text \<open>
  The words of the pattern key: a match of \<^verbatim>\<open>\b\w{4,}\b\<close> is a maximal run of word characters of
  length at least four.
\<close>

fun word_runs :: "string \<Rightarrow> string \<Rightarrow> string list" where
  "word_runs cur [] = (if cur = [] then [] else [rev cur])"
| "word_runs cur (c # cs) =
     (if is_digit c \<or> is_upper c \<or> is_lower c \<or> c = CHR ''_'' then word_runs (c # cur) cs
      else if cur = [] then word_runs [] cs else rev cur # word_runs [] cs)"

definition long_words :: "string \<Rightarrow> string list" where
  "long_words txt = filter (\<lambda>w. 4 \<le> length w) (word_runs [] (lower_string txt))"

fun join_words :: "string list \<Rightarrow> string" where
  "join_words [] = []"
| "join_words [w] = w"
| "join_words (w # ws) = w @ '' '' @ join_words ws"

definition response_pattern_key :: "string \<Rightarrow> string" where
  "response_pattern_key txt = join_words (take 8 (remdups (sort (long_words txt))))"

definition is_known_pattern :: "feedback \<Rightarrow> string \<Rightarrow> bool" where
  "is_known_pattern fb txt = (known_patterns fb (response_pattern_key txt) \<noteq> None)"

definition update_season :: "string \<Rightarrow> feedback \<Rightarrow> feedback" where
  "update_season s fb = fb\<lparr>fb_season := s\<rparr>"

definition set_biases :: "dbl list \<Rightarrow> feedback \<Rightarrow> feedback" where
  "set_biases b fb = fb\<lparr>dimension_biases := b\<rparr>"

definition authority_error :: string where
  "authority_error =
     ''In Spring, encoder corrections require user confirmation. '' @
     ''LINA can flag, but cannot self-authorize. '' @
     ''This is a feature, not a limitation.''"

definition confirm_correction ::
  "u64 \<Rightarrow> pending_correction \<Rightarrow> string \<Rightarrow> feedback \<Rightarrow> string + encoder_correction \<times> feedback" where
  "confirm_correction now pending confirmer fb =
     (if requires_confirmation_from pending = ''user'' \<and> confirmer \<noteq> ''user'' then Inl authority_error else
      let ec = \<lparr>evaluation_id = pc_evaluation_id pending, response_text = pc_response_text pending,
                original_vector = pc_original_vector pending, corrected_vector = pc_corrected_vector pending,
                dimensions_adjusted = pc_dimensions_adjusted pending, flagged_by = pc_flagged_by pending,
                confirmed_by = confirmer, ec_reason = pc_reason pending,
                season_at_time = fb_season fb, created_at = now\<rparr>;
          fb1 = apply_correction ec fb;
          fb2 = fb1\<lparr>fb_corrections := fb_corrections fb1 @ [ec],
                    known_patterns := (known_patterns fb1)(response_pattern_key (pc_response_text pending)
                                         \<mapsto> adjustment_delta ec)\<rparr>
      in Inr (ec, fb2))"

section \<open>Operations after boot\<close>

datatype fb_op = Confirm u64 pending_correction string | UpdateSeason string

fun fb_step :: "feedback \<Rightarrow> fb_op \<Rightarrow> feedback" where
  "fb_step fb (Confirm now pending confirmer) =
     (case confirm_correction now pending confirmer fb of Inl _ \<Rightarrow> fb | Inr (_, fb') \<Rightarrow> fb')"
| "fb_step fb (UpdateSeason s) = update_season s fb"

definition fb_run :: "feedback \<Rightarrow> fb_op list \<Rightarrow> feedback" where
  "fb_run fb ops = foldl fb_step fb ops"

lemma fb_run_Nil [simp]: "fb_run fb [] = fb"
  and fb_run_Cons [simp]: "fb_run fb (x # ops) = fb_run (fb_step fb x) ops"
  by (simp_all add: fb_run_def)

lemma fb_run_induct:
  assumes "P fb" and "\<And>fb op. P fb \<Longrightarrow> op \<in> set ops \<Longrightarrow> P (fb_step fb op)"
  shows "P (fb_run fb ops)"
  using assms by (induction ops arbitrary: fb) simp_all

section \<open>The biases stay small numbers\<close>

text \<open>The literal 0.3 of the code as the double it is.\<close>

lemma max_adjustment: "MAX_WEIGHT_ADJUSTMENT = Fin (5404319552844595 / 2 ^ 54)"
proof -
  have "rnd (3 / 10) = Fin (of_int 5404319552844595 * 2 powi (- 2 - 52))"
    by (rule rnd_eval) (simp_all add: power_int_def power2_eq_square)
  then show ?thesis by (simp add: MAX_WEIGHT_ADJUSTMENT_def power_int_def field_simps)
qed

lemma learning_rate: "\<exists>q. BASE_LEARNING_RATE = Fin q \<and> 0 < q"
proof -
  have "rnd (5 / 100) = Fin (of_int 7205759403792794 * 2 powi (- 5 - 52))"
    by (rule rnd_eval) (simp_all add: power_int_def eval_nat_numeral)
  then have "BASE_LEARNING_RATE = Fin (3602879701896397 / 72057594037927936)"
    by (simp add: BASE_LEARNING_RATE_def)
  then show ?thesis by (intro exI[of _ "3602879701896397 / 72057594037927936"]) simp
qed

definition bias_ok :: "dbl \<Rightarrow> bool" where
  "bias_ok b \<longleftrightarrow> (\<exists>q. b = Fin q \<and> \<bar>q\<bar> \<le> val MAX_WEIGHT_ADJUSTMENT)"

definition biases_ok :: "feedback \<Rightarrow> bool" where
  "biases_ok fb \<longleftrightarrow> length (dimension_biases fb) = 14 \<and> (\<forall>i<14. bias_ok (dimension_biases fb ! i))"

definition finite_vector :: "dbl list \<Rightarrow> bool" where
  "finite_vector x \<longleftrightarrow> length x = 14 \<and> list_all is_fin x"

definition pending_ok :: "pending_correction \<Rightarrow> bool" where
  "pending_ok p \<longleftrightarrow> finite_vector (pc_original_vector p) \<and> finite_vector (pc_corrected_vector p)"

fun op_ok :: "fb_op \<Rightarrow> bool" where
  "op_ok (Confirm _ p _) = pending_ok p"
| "op_ok (UpdateSeason _) = True"

lemma dsub_fin_not_NaN: "is_fin a \<Longrightarrow> is_fin b \<Longrightarrow> dsub a b \<noteq> NaN"
  by (cases a; cases b) (simp_all add: dsub_def)

lemma dmul_rate_NaN: "dmul d BASE_LEARNING_RATE = NaN \<longleftrightarrow> d = NaN"
proof -
  obtain q where q: "BASE_LEARNING_RATE = Fin q" "0 < q" using learning_rate by blast
  show ?thesis unfolding q(1) using q(2) by (cases d) (simp_all add: inf_sgn_def)
qed

lemma bias_clamp_ok: "v \<noteq> NaN \<Longrightarrow> bias_ok (dclamp v (dneg MAX_WEIGHT_ADJUSTMENT) MAX_WEIGHT_ADJUSTMENT)"
proof -
  assume v: "v \<noteq> NaN"
  define m where "m = val MAX_WEIGHT_ADJUSTMENT"
  have m: "MAX_WEIGHT_ADJUSTMENT = Fin m" "0 \<le> m" by (simp_all add: m_def max_adjustment)
  have "\<exists>q. dclamp v (Fin (- m)) (Fin m) = Fin q \<and> - m \<le> q \<and> q \<le> m" by (rule dclamp_ex) (use v m in auto)
  then show ?thesis by (auto simp: bias_ok_def m(1))
qed

lemma adjustment_delta_nth:
  "i < 14 \<Longrightarrow> adjustment_delta ec ! i = dsub (corrected_vector ec ! i) (original_vector ec ! i)"
  by (simp add: adjustment_delta_def DC del: upt_rec_numeral)

lemma apply_correction_bias:
  "i < 14 \<Longrightarrow> dimension_biases (apply_correction ec fb) ! i =
     dclamp (dadd (dimension_biases fb ! i) (dmul (dsub (corrected_vector ec ! i) (original_vector ec ! i)) BASE_LEARNING_RATE))
       (dneg MAX_WEIGHT_ADJUSTMENT) MAX_WEIGHT_ADJUSTMENT"
  by (simp add: apply_correction_def Let_def DC adjustment_delta_nth del: upt_rec_numeral)

lemma length_apply_correction [simp]: "length (dimension_biases (apply_correction ec fb)) = 14"
  by (simp add: apply_correction_def Let_def DC del: upt_rec_numeral)

lemma confirm_biases:
  assumes "confirm_correction now p who fb = Inr (ec, fb')"
  shows "dimension_biases fb' = dimension_biases (apply_correction ec fb)"
    and "original_vector ec = pc_original_vector p" "corrected_vector ec = pc_corrected_vector p"
  using assms by (auto simp: confirm_correction_def Let_def split: if_splits)

lemma step_biases_ok:
  assumes "biases_ok fb" "op_ok op"
  shows "biases_ok (fb_step fb op)"
proof (cases op)
  case (Confirm now p who)
  show ?thesis
  proof (cases "confirm_correction now p who fb")
    case (Inr r)
    obtain ec fb' where r: "r = (ec, fb')" by fastforce
    note c = confirm_biases[OF Inr[unfolded r]]
    have "bias_ok (dimension_biases fb' ! i)" if i: "i < 14" for i
    proof -
      have "is_fin (original_vector ec ! i)" "is_fin (corrected_vector ec ! i)"
        using assms(2) Confirm i by (auto simp: c pending_ok_def finite_vector_def list_all_length)
      moreover obtain b where "dimension_biases fb ! i = Fin b" using assms(1) i by (auto simp: biases_ok_def bias_ok_def)
      ultimately show ?thesis unfolding c(1) apply_correction_bias[OF i]
        by (intro bias_clamp_ok) (simp add: dadd_Fin dmul_rate_NaN dsub_fin_not_NaN)
    qed
    then show ?thesis using Confirm Inr r c(1) by (simp add: biases_ok_def)
  qed (use assms Confirm in simp)
qed (use assms in \<open>simp add: biases_ok_def update_season_def\<close>)

lemma list_update_fin: "\<forall>n<14. is_fin (x ! n) \<Longrightarrow> length x = 14 \<Longrightarrow> n < 14 \<Longrightarrow> is_fin (x[k := Fin q] ! n)"
  by (cases "n = k") auto

lemma adjust_dims_ok:
  assumes "\<forall>da\<in>set dims. snd da \<noteq> NaN" "finite_vector x" "foldl adjust_dim (Some x) dims = Some y"
  shows "finite_vector y"
  using assms
proof (induction dims arbitrary: x)
  case (Cons da dims)
  have none: "foldl adjust_dim None ds = None" for ds by (induction ds) (simp_all add: adjust_dim_def)
  show ?case
  proof (cases "0 \<le> fst da \<and> fst da < int DIMENSION_COUNT")
    case True
    obtain q where "dclamp (snd da) (Fin 0) (Fin 1) = Fin q"
      using dclamp_ex[of "snd da" 0 1] Cons.prems(1) by auto
    then have "finite_vector (x[nat (fst da) := dclamp (snd da) (Fin 0) (Fin 1)])"
      using Cons.prems(2) by (auto simp: finite_vector_def list_all_length intro!: list_update_fin)
    then show ?thesis using Cons.IH Cons.prems True by (simp add: adjust_dim_def)
  next
    case False
    then have "adjust_dim (Some x) da = None" unfolding adjust_dim_def by (simp only: option.case if_False)
    then show ?thesis using Cons.prems(3) none by simp
  qed
qed simp

text \<open>
  the biases stay bounded: what is flagged on a finite vector with numbers as the new values can
  be confirmed any number of times, by anyone, between any season changes, and every bias remains a
  number of magnitude at most 0.3 (the double); so an encoded point of the unit cube stays a point
  of the unit cube after the biases are applied.
\<close>

theorem biases_bounded:
  assumes "biases_ok fb" and "\<forall>op\<in>set ops. op_ok op"
  shows "biases_ok (fb_run fb ops) \<and> (unit_point x \<longrightarrow> unit_point (apply_biases (fb_run fb ops) x)) \<and>
    (finite_vector v \<and> (\<forall>da\<in>set dims. snd da \<noteq> NaN) \<longrightarrow>
       (case flag_miscalibration fb ev resp v dims who why of None \<Rightarrow> True | Some p \<Rightarrow> pending_ok p))"
proof -
  have ok: "biases_ok (fb_run fb ops)"
    by (rule fb_run_induct) (use assms step_biases_ok in auto)
  have "unit_point (apply_biases (fb_run fb ops) x)" if u: "unit_point x"
    unfolding apply_biases_def
  proof (rule unit_point_mapI)
    fix i :: nat assume i: "i < 14"
    obtain b where "dimension_biases (fb_run fb ops) ! i = Fin b" using ok i by (auto simp: biases_ok_def bias_ok_def)
    moreover obtain q where "x ! i = Fin q" using u i by (auto simp: unit_point_def)
    ultimately show "\<exists>q. dclamp (dadd (x ! i) (dimension_biases (fb_run fb ops) ! i)) (Fin 0) (Fin 1) = Fin q \<and> 0 \<le> q \<and> q \<le> 1"
      by (intro dclamp_ex) simp_all
  qed
  moreover have "pending_ok p" if "finite_vector v" "\<forall>da\<in>set dims. snd da \<noteq> NaN"
    "flag_miscalibration fb ev resp v dims who why = Some p" for p
    using that adjust_dims_ok[OF that(2,1)] by (auto simp: flag_miscalibration_def pending_ok_def)
  ultimately show ?thesis using ok by (auto split: option.splits)
qed

lemma biases_ok_new: "biases_ok (new_feedback s)"
  by (simp add: biases_ok_def new_feedback_def zero_vector_def DC bias_ok_def max_adjustment)

theorem biases_bounded_witness:
  "\<exists>p. flag_miscalibration (new_feedback ''spring'') ''e1'' ''a reply'' zero_vector [(3, Fin 1)] ''lina'' '''' = Some p
     \<and> biases_ok (fb_run (new_feedback ''spring'') [Confirm 7 p ''user'', UpdateSeason ''summer'', Confirm 8 p ''lina''])"
proof -
  obtain p where p: "flag_miscalibration (new_feedback ''spring'') ''e1'' ''a reply'' zero_vector [(3, Fin 1)] ''lina'' '''' = Some p"
    by (auto simp: flag_miscalibration_def adjust_dim_def DC)
  have z: "finite_vector zero_vector" by (simp add: finite_vector_def zero_vector_def DC list_all_length)
  have "pending_ok p"
    using biases_bounded[OF biases_ok_new, of "[]" "''spring''" zero_vector zero_vector "[(3, Fin 1)]" "''e1''" "''a reply''" "''lina''" "''''"]
    by (simp add: p z)
  then show ?thesis
    using biases_bounded[OF biases_ok_new, of "[Confirm 7 p ''user'', UpdateSeason ''summer'', Confirm 8 p ''lina'']" "''spring''"] p
    by auto
qed

section \<open>Authority and known patterns\<close>

text \<open>
  nobody but the user confirms what was flagged in Spring: whatever the season at the time of
  the confirmation, confirming such a flag in another name raises the error (and a failed operation
  changes nothing); in the user's name, or for what was flagged in any other season, the
  confirmation succeeds, records who confirmed it and in which season, and makes the response a
  known pattern.
\<close>

theorem spring_needs_user:
  assumes "flag_miscalibration fb ev resp v dims who why = Some p"
  shows "(fb_season fb = ''spring'' \<and> confirmer \<noteq> ''user'' \<longrightarrow>
            confirm_correction now p confirmer fb' = Inl authority_error \<and> fb_step fb' (Confirm now p confirmer) = fb')
       \<and> (fb_season fb \<noteq> ''spring'' \<or> confirmer = ''user'' \<longrightarrow>
            (\<exists>ec fb''. confirm_correction now p confirmer fb' = Inr (ec, fb'') \<and> confirmed_by ec = confirmer
               \<and> season_at_time ec = fb_season fb' \<and> fb_corrections fb'' = fb_corrections fb' @ [ec]
               \<and> is_known_pattern fb'' resp))"
  using assms
  by (auto simp: flag_miscalibration_def confirm_correction_def Let_def is_known_pattern_def apply_correction_def
      split: if_splits)

theorem spring_needs_user_witness:
  "\<exists>p. flag_miscalibration (new_feedback ''spring'') ''e1'' ''a reply'' zero_vector [] ''lina'' '''' = Some p
     \<and> confirm_correction 5 p ''lina'' (new_feedback ''winter'') = Inl authority_error"
proof -
  obtain p where p: "flag_miscalibration (new_feedback ''spring'') ''e1'' ''a reply'' zero_vector [] ''lina'' '''' = Some p"
    by (auto simp: flag_miscalibration_def)
  show ?thesis using spring_needs_user[OF p, of "''lina''" 5 "new_feedback ''winter''"] p
    by (simp add: new_feedback_def)
qed

lemma sorted_words: "remdups (sort xs) = sorted_list_of_set (set (xs :: string list))"
  by (rule sorted_distinct_set_unique) (simp_all add: sorted_remdups)

lemma known_step: "is_known_pattern fb t \<Longrightarrow> is_known_pattern (fb_step fb op) t"
  by (cases op) (auto simp: is_known_pattern_def confirm_correction_def Let_def apply_correction_def update_season_def
      split: sum.splits if_splits)

text \<open>
  a known pattern is a set of words: a response that was once recognised stays recognised
  through all later operations, and so is every response with the same long words, in whatever
  order, case or number they occur.
\<close>

theorem patterns_are_word_sets:
  assumes "is_known_pattern fb t" and "set (long_words t) = set (long_words t')"
  shows "is_known_pattern (fb_run fb ops) t'"
proof -
  have "is_known_pattern (fb_run fb ops) t"
    by (rule fb_run_induct) (use assms(1) known_step in auto)
  then show ?thesis using assms(2) by (simp add: is_known_pattern_def response_pattern_key_def sorted_words)
qed

theorem patterns_are_word_sets_witness:
  "is_known_pattern (fb_run ((new_feedback ''fall'')\<lparr>known_patterns := [response_pattern_key ''Never again'' \<mapsto> zero_vector]\<rparr>)
     [UpdateSeason ''winter'']) ''again, never''"
proof -
  have "set (long_words ''Never again'') = set (long_words ''again, never'')" by code_simp
  then show ?thesis by (intro patterns_are_word_sets[of _ "''Never again''"]) (simp_all add: is_known_pattern_def)
qed

section \<open>A bias that is not a number\<close>

lemma nan_step:
  assumes "dimension_biases fb ! i = NaN" "i < 14"
  shows "dimension_biases (fb_step fb op) ! i = NaN"
proof (cases op)
  case (Confirm now p who)
  show ?thesis
  proof (cases "confirm_correction now p who fb")
    case (Inr r)
    obtain ec fb' where r: "r = (ec, fb')" by fastforce
    show ?thesis unfolding Confirm fb_step.simps Inr r sum.case prod.case confirm_biases(1)[OF Inr[unfolded r]]
      apply_correction_bias[OF assms(2)] by (simp add: assms(1) dclamp_def max_adjustment)
  qed (use assms Confirm in simp)
qed (use assms in \<open>simp add: update_season_def\<close>)

lemma nan_run: "dimension_biases fb ! i = NaN \<Longrightarrow> i < 14 \<Longrightarrow> dimension_biases (fb_run fb ops) ! i = NaN"
  by (rule fb_run_induct) (auto intro: nan_step)

lemma flag_nan:
  assumes "flag_miscalibration fb ev resp v [(int i, NaN)] who why = Some p" "i < 14" "length v = 14"
  shows "pc_corrected_vector p ! i = NaN" "pc_original_vector p = v"
  using assms by (auto simp: flag_miscalibration_def adjust_dim_def DC dclamp_def)

lemma confirm_nan:
  assumes "confirm_correction now p who fb = Inr (ec, fb')" "pc_corrected_vector p ! i = NaN" "i < 14"
  shows "dimension_biases fb' ! i = NaN"
  unfolding confirm_biases(1)[OF assms(1)] apply_correction_bias[OF assms(3)]
  using assms(2) confirm_biases(2,3)[OF assms(1)]
  by (cases "dimension_biases fb ! i") (simp_all add: dsub_def dclamp_def max_adjustment)

end
