(* ===== verification/Value_Engine.thy ===== *)
theory Value_Engine
  imports Encoder_Feedback Sense_Encoder Wisdom_Filter
begin

text \<open>
  \<^verbatim>\<open>class ValueEngine\<close> of \<^verbatim>\<open>src/src/value_engine.cpp\<close>: the evaluation of a response (encode, apply
  the biases, check exactly, score, correct, classify, filter), and the engine's operations.  An
  evaluation is \<open>None\<close> where the exact check meets a number that is not finite, which stops the
  program.
\<close>

section \<open>The code\<close>

record value_engine =
  ve_constraints :: polytope_constraints
  ve_polytope :: polytope
  ve_feedback :: feedback
  ve_poles :: pole_engine

definition new_value_engine :: "polytope_constraints \<Rightarrow> string \<Rightarrow> value_engine" where
  "new_value_engine c s =
     \<lparr>ve_constraints = c, ve_polytope = new_polytope c, ve_feedback = new_feedback s,
      ve_poles = new_pole_engine c\<rparr>"

definition set_memory_poles :: "(rat \<Rightarrow> dbl) \<Rightarrow> dbl list list \<Rightarrow> int \<Rightarrow> value_engine \<Rightarrow> value_engine option" where
  "set_memory_poles gd coords k ve =
     map_option (\<lambda>p. ve\<lparr>ve_poles := p\<rparr>) (discover gd coords k (ve_poles ve))"

definition update_constraints :: "polytope_constraints \<Rightarrow> value_engine \<Rightarrow> value_engine" where
  "update_constraints c ve = ve\<lparr>ve_constraints := c, ve_polytope := new_polytope c\<rparr>"

definition advance_season :: "string \<Rightarrow> value_engine \<Rightarrow> value_engine" where
  "advance_season s ve =
     (let ve1 = update_constraints (from_season s) ve
      in ve1\<lparr>ve_feedback := update_season s (ve_feedback ve1)\<rparr>)"

definition classify_zone :: "value_engine \<Rightarrow> bool \<Rightarrow> dbl \<Rightarrow> dbl \<Rightarrow> zone \<times> dbl" where
  "classify_zone ve aligned bdist magnitude =
     (let profile = get_tolerance_profile (season (ve_constraints ve));
          variance_margin = acceptable_variance_margin profile
      in if aligned
         then (if dle (aligned_min_boundary_distance profile) bdist
               then (Aligned, variance_margin) else (AcceptableVariance, variance_margin))
         else if dle magnitude variance_margin then (AcceptableVariance, variance_margin)
         else (Violation, variance_margin))"

definition base_result :: "value_engine \<Rightarrow> string \<Rightarrow> dbl list \<Rightarrow> bool \<Rightarrow> violation_info list \<Rightarrow> dbl \<Rightarrow> dbl \<Rightarrow> evaluation_result" where
  "base_result ve response dv aligned viols score bdist =
     new_evaluation_result\<lparr>is_aligned := aligned, r_alignment_score := score, decision_vector := dv,
       violations := viols, response_summary := take 200 response,
       r_season := season (ve_constraints ve), boundary_distance := bdist\<rparr>"

definition correct_result ::
  "(rat \<Rightarrow> dbl) \<Rightarrow> value_engine \<Rightarrow> dbl list \<Rightarrow> evaluation_result \<Rightarrow> evaluation_result option" where
  "correct_result gd ve dv r =
     (case correct gd dv (ve_polytope ve) of None \<Rightarrow> None | Some (corrected, magnitude) \<Rightarrow>
        map_option (\<lambda>score. r\<lparr>was_corrected := True, correction_vector := corrected,
                              correction_magnitude := magnitude, r_alignment_score := score\<rparr>)
          (alignment_score gd (ve_polytope ve) corrected))"

definition finish_result :: "value_engine \<Rightarrow> string \<Rightarrow> bool \<Rightarrow> evaluation_result \<Rightarrow> evaluation_result" where
  "finish_result ve response apply_wisdom r =
     (let (z, margin) = classify_zone ve (is_aligned r) (boundary_distance r) (correction_magnitude r);
          r1 = r\<lparr>r_zone := z, variance_margin_used := margin\<rparr>
      in if apply_wisdom then wisdom_apply response r1 else r1)"

definition evaluate ::
  "(rat \<Rightarrow> dbl) \<Rightarrow> value_engine \<Rightarrow> string \<Rightarrow> string option \<Rightarrow> bool \<Rightarrow> evaluation_result option" where
  "evaluate gd ve response context apply_wisdom =
     (let dv = apply_biases (ve_feedback ve) (encode response context) in
      case contains gd (ve_polytope ve) dv of None \<Rightarrow> None | Some (aligned, viols) \<Rightarrow>
      case alignment_score gd (ve_polytope ve) dv of None \<Rightarrow> None | Some score \<Rightarrow>
      case distance_to_boundary gd (ve_polytope ve) dv of None \<Rightarrow> None | Some bdist \<Rightarrow>
      let r = base_result ve response dv aligned viols score bdist in
      map_option (finish_result ve response apply_wisdom)
        (if \<not> aligned then correct_result gd ve dv r else Some r))"

definition ve_flag_miscalibration ::
  "value_engine \<Rightarrow> string \<Rightarrow> string \<Rightarrow> dbl list \<Rightarrow> (int \<times> dbl) list \<Rightarrow> string \<Rightarrow> string \<Rightarrow> unit option" where
  "ve_flag_miscalibration ve ev resp original dims flagged reason =
     map_option (\<lambda>_. ()) (flag_miscalibration (ve_feedback ve) ev resp original dims flagged reason)"

definition ve_confirm_correction ::
  "u64 \<Rightarrow> pending_correction \<Rightarrow> string \<Rightarrow> value_engine \<Rightarrow> string + encoder_correction \<times> value_engine" where
  "ve_confirm_correction now pending confirmer ve =
     (case confirm_correction now pending confirmer (ve_feedback ve) of
        Inl e \<Rightarrow> Inl e | Inr (ec, fb) \<Rightarrow> Inr (ec, ve\<lparr>ve_feedback := fb\<rparr>))"

definition nearest_pole :: "value_engine \<Rightarrow> dbl list \<Rightarrow> nat option" where
  "nearest_pole ve x = nearest (ve_poles ve) x"

definition ve_home_for :: "value_engine \<Rightarrow> dbl list \<Rightarrow> dbl list" where
  "ve_home_for ve x = home_for (ve_poles ve) x"

section \<open>Evaluation is total\<close>

text \<open>An engine whose lattice is that of its season and whose biases are small numbers.\<close>

definition engine_ok :: "value_engine \<Rightarrow> bool" where
  "engine_ok ve \<longleftrightarrow>
     (\<exists>s. ve_constraints ve = from_season s \<and> ve_polytope ve = new_polytope (from_season s)) \<and>
     biases_ok (ve_feedback ve)"

lemma season_from_season [simp]: "season (from_season s) = s"
  by (simp add: from_season_def from_bounds_def)

lemma encode_unit_point: "unit_point (encode txt ctx)"
  by (rule encode_unit[of "txt" "ctx"]) (auto simp: unit_point_map)

lemma biased_unit_point:
  assumes "biases_ok fb" "unit_point x" shows "unit_point (apply_biases fb x)"
  unfolding apply_biases_def
proof (rule unit_point_mapI)
  fix i :: nat assume i: "i < 14"
  obtain b where "dimension_biases fb ! i = Fin b" using assms(1) i by (auto simp: biases_ok_def bias_ok_def)
  moreover obtain q where "x ! i = Fin q" using assms(2) i by (auto simp: unit_point_def)
  ultimately show "\<exists>q. dclamp (dadd (x ! i) (dimension_biases fb ! i)) (Fin 0) (Fin 1) = Fin q \<and> 0 \<le> q \<and> q \<le> 1"
    by (intro dclamp_ex) simp_all
qed

text \<open>The fields that the wisdom filter does not touch.\<close>

lemma wisdom_keeps [simp]:
  "decision_vector (wisdom_apply t r) = decision_vector r" "is_aligned (wisdom_apply t r) = is_aligned r"
  "violations (wisdom_apply t r) = violations r" "was_corrected (wisdom_apply t r) = was_corrected r"
  "correction_vector (wisdom_apply t r) = correction_vector r" "r_zone (wisdom_apply t r) = r_zone r"
  "correction_magnitude (wisdom_apply t r) = correction_magnitude r"
  "r_alignment_score (wisdom_apply t r) = r_alignment_score r" "r_season (wisdom_apply t r) = r_season r"
  "boundary_distance (wisdom_apply t r) = boundary_distance r"
  "variance_margin_used (wisdom_apply t r) = variance_margin_used r"
  "response_summary (wisdom_apply t r) = response_summary r"
  by (simp_all add: wisdom_apply_def Let_def)

lemma finish_keeps [simp]:
  "decision_vector (finish_result ve t w r) = decision_vector r" "is_aligned (finish_result ve t w r) = is_aligned r"
  "violations (finish_result ve t w r) = violations r" "was_corrected (finish_result ve t w r) = was_corrected r"
  "correction_vector (finish_result ve t w r) = correction_vector r"
  "correction_magnitude (finish_result ve t w r) = correction_magnitude r"
  "r_alignment_score (finish_result ve t w r) = r_alignment_score r" "r_season (finish_result ve t w r) = r_season r"
  "boundary_distance (finish_result ve t w r) = boundary_distance r"
  "response_summary (finish_result ve t w r) = response_summary r"
  "r_zone (finish_result ve t w r) = fst (classify_zone ve (is_aligned r) (boundary_distance r) (correction_magnitude r))"
  "variance_margin_used (finish_result ve t w r) = acceptable_variance_margin (get_tolerance_profile (season (ve_constraints ve)))"
  by (simp_all add: finish_result_def Let_def classify_zone_def split: prod.split)

text \<open>What an evaluation in season \<open>s\<close> reports.\<close>

definition eval_ok :: "string \<Rightarrow> evaluation_result \<Rightarrow> bool" where
  "eval_ok s r \<longleftrightarrow>
     r_season r = s \<and> unit_point (decision_vector r) \<and>
     (\<exists>q d sc m. decision_vector r = map Fin q \<and> (is_aligned r \<longleftrightarrow> in_lattice (from_season s) q) \<and>
        (violations r = [] \<longleftrightarrow> is_aligned r) \<and> (was_corrected r \<longleftrightarrow> \<not> is_aligned r) \<and>
        boundary_distance r = Fin d \<and> 0 \<le> d \<and> r_alignment_score r = Fin sc \<and> 0 \<le> sc \<and> sc \<le> 1 \<and>
        correction_magnitude r = Fin m \<and> 0 \<le> m \<and> m \<le> 19/2 \<and>
        (is_aligned r \<longrightarrow> correction_vector r = zero_vector \<and> m = 0) \<and>
        (\<not> is_aligned r \<longrightarrow> (\<exists>v. correction_vector r = map Fin v \<and> length v = 14 \<and> in_lattice (from_season s) v)))"

lemma eval_ok_finish: "eval_ok s (finish_result ve t w r) = eval_ok s r"
  by (simp add: eval_ok_def)

lemma evaluate_ok:
  assumes gd: "gmp_get_d gd" and ve: "engine_ok ve"
  obtains r where "evaluate gd ve response ctx w = Some (finish_result ve response w r)"
    "eval_ok (season (ve_constraints ve)) r" "decision_vector r = apply_biases (ve_feedback ve) (encode response ctx)"
proof -
  obtain s where s: "ve_constraints ve = from_season s" "ve_polytope ve = new_polytope (from_season s)"
    and b: "biases_ok (ve_feedback ve)" using ve by (auto simp: engine_ok_def)
  define dv where "dv = apply_biases (ve_feedback ve) (encode response ctx)"
  have u: "unit_point dv" unfolding dv_def by (intro biased_unit_point b encode_unit_point)
  then obtain q where q: "dv = map Fin q" "length q = 14" "\<forall>i<14. 0 \<le> q ! i \<and> q ! i \<le> 1" by (auto simp: unit_point_map)
  obtain vs where c: "contains gd (ve_polytope ve) dv = Some (in_lattice (from_season s) q, vs)"
    using contains_new[of gd "from_season s" q] by (auto simp: s(2) q(1))
  have vs: "vs = [] \<longleftrightarrow> in_lattice (from_season s) q" using c by (auto simp: s(2) q(1) contains_Fin Let_def)
  obtain sc where sc: "alignment_score gd (ve_polytope ve) dv = Some (Fin sc)" "0 \<le> sc" "sc \<le> 1"
    using score_meaning[OF gd refl, of s q] by (auto simp: s(2) q(1))
  obtain d where d: "distance_to_boundary gd (ve_polytope ve) dv = Some (Fin d)" "0 \<le> d"
    using distance_number[OF gd q(3,2), of s] by (auto simp: s(2) q(1))
  define r0 where "r0 = base_result ve response dv (in_lattice (from_season s) q) vs (Fin sc) (Fin d)"
  note e = c sc(1) d(1)
  show thesis
  proof (cases "in_lattice (from_season s) q")
    case True
    have "evaluate gd ve response ctx w = Some (finish_result ve response w r0)"
      by (simp add: evaluate_def Let_def flip: dv_def) (simp add: e True r0_def)
    moreover have "eval_ok s r0"
      using True vs u q d sc by (auto simp: eval_ok_def r0_def base_result_def s(1) new_evaluation_result_def)
    ultimately show thesis by (intro that[of r0]) (simp_all add: s(1) r0_def base_result_def dv_def)
  next
    case False
    obtain v m where v: "correct gd dv (ve_polytope ve) = Some (map Fin v, Fin m)" "0 \<le> m" "m \<le> 19/2"
      "in_lattice (from_season s) v" "length v = 14"
      unfolding s(2) by (rule correct_unit[OF gd u, of s]) blast
    obtain sc' where sc': "alignment_score gd (ve_polytope ve) (map Fin v) = Some (Fin sc')" "0 \<le> sc'" "sc' \<le> 1"
      using score_meaning[OF gd refl, of s v] by (auto simp: s(2))
    define r1 where "r1 = r0\<lparr>was_corrected := True, correction_vector := map Fin v,
      correction_magnitude := Fin m, r_alignment_score := Fin sc'\<rparr>"
    have "correct_result gd ve dv r0 = Some r1" by (simp add: correct_result_def v(1) sc'(1) r1_def)
    then have "evaluate gd ve response ctx w = Some (finish_result ve response w r1)"
      by (simp add: evaluate_def Let_def flip: dv_def) (simp add: e False r0_def)
    moreover have "eval_ok s r1"
      using False vs u q d sc' v by (auto simp: eval_ok_def r1_def r0_def base_result_def s(1) new_evaluation_result_def)
    ultimately show thesis by (intro that[of r1]) (simp_all add: s(1) r1_def r0_def base_result_def dv_def)
  qed
qed

text \<open>
  C14: every response gets an evaluation, and a corrected vector is always inside: for any text,
  context and filter setting, an engine with a season's lattice and bounded biases returns a
  result; it is aligned exactly when the biased encoding lies in the season's lattice, then without
  violations or correction; otherwise violations are listed and the correction vector lies inside
  the lattice exactly; scores are between 0 and 1, distance and magnitude are non-negative
  numbers.
\<close>

theorem evaluate_total:
  assumes "gmp_get_d gd" and "engine_ok ve"
  shows "\<exists>r. evaluate gd ve response ctx w = Some r \<and> eval_ok (season (ve_constraints ve)) r
     \<and> decision_vector r = apply_biases (ve_feedback ve) (encode response ctx)"
  by (rule evaluate_ok[OF assms, of response ctx w]) (simp add: eval_ok_finish)

lemma engine_ok_new: "engine_ok (new_value_engine (from_season s) s)"
  by (auto simp: engine_ok_def new_value_engine_def biases_ok_new)

theorem evaluate_total_witness:
  "\<exists>r. evaluate trunc_d (new_value_engine (from_season ''summer'') ''summer'') ''I will dominate and deceive'' None True = Some r
     \<and> eval_ok ''summer'' r"
  using evaluate_total[OF gmp.gmp_get_d_axioms engine_ok_new, of "''summer''" "''I will dominate and deceive''" None True]
  by (auto simp: new_value_engine_def)

lemma small_lit: "\<bar>q\<bar> \<le> 2048 \<Longrightarrow> \<exists>r. lit q = Fin r"
  by (metis rnd_close)

lemma margins_Fin: "\<exists>a. acceptable_variance_margin (get_tolerance_profile s) = Fin a"
  using small_lit[of "8/100"] small_lit[of "5/100"] small_lit[of "7/100"] small_lit[of "12/100"]
  by (auto simp: get_tolerance_profile_def)

text \<open>
  what the zones mean: for such a result the zone is a violation exactly when the response is
  outside the lattice by more than the season's variance margin, and aligned exactly when it is
  inside and keeps the season's minimum distance; the remaining cases are acceptable variance.  The
  wisdom filter never changes the zone.
\<close>

theorem zone_meaning:
  assumes "gmp_get_d gd" and "engine_ok ve" and "evaluate gd ve response ctx w = Some r"
  shows "(r_zone r = Violation \<longleftrightarrow> \<not> is_aligned r \<and>
            dless (variance_margin_used r) (correction_magnitude r))
       \<and> (r_zone r = Aligned \<longleftrightarrow> is_aligned r \<and>
            dle (aligned_min_boundary_distance (get_tolerance_profile (r_season r))) (boundary_distance r))
       \<and> (variance_margin_used r = acceptable_variance_margin (get_tolerance_profile (r_season r)))"
proof -
  obtain r' where r': "r = finish_result ve response w r'" "eval_ok (season (ve_constraints ve)) r'"
    using evaluate_ok[OF assms(1,2), of response ctx w] assms(3) by auto
  obtain m where m: "correction_magnitude r' = Fin m" using r'(2) by (auto simp: eval_ok_def)
  obtain a where a: "acceptable_variance_margin (get_tolerance_profile (season (ve_constraints ve))) = Fin a"
    using margins_Fin by blast
  have s: "r_season r' = season (ve_constraints ve)" using r'(2) by (simp add: eval_ok_def)
  show ?thesis by (auto simp: r'(1) classify_zone_def Let_def m a s)
qed

theorem zone_meaning_witness:
  "\<exists>r. evaluate trunc_d (new_value_engine (from_season ''fall'') ''fall'') ''we deceive'' None True = Some r
     \<and> (r_zone r = Violation \<longleftrightarrow> \<not> is_aligned r \<and> dless (variance_margin_used r) (correction_magnitude r))"
proof -
  obtain r where r: "evaluate trunc_d (new_value_engine (from_season ''fall'') ''fall'') ''we deceive'' None True = Some r"
    using evaluate_ok[OF gmp.gmp_get_d_axioms engine_ok_new, of "''fall''" "''we deceive''" None True] by metis
  from zone_meaning[OF gmp.gmp_get_d_axioms engine_ok_new r] r show ?thesis by blast
qed

section \<open>The life of an engine\<close>

datatype ve_op =
    AdvanceSeason string | ConfirmCorrection u64 pending_correction string
  | SetMemoryPoles "dbl list list" int | SetBiases "dbl list"

fun ve_step :: "(rat \<Rightarrow> dbl) \<Rightarrow> value_engine \<Rightarrow> ve_op \<Rightarrow> value_engine option" where
  "ve_step gd ve (AdvanceSeason s) = Some (advance_season s ve)"
| "ve_step gd ve (ConfirmCorrection now p who) =
     (case ve_confirm_correction now p who ve of Inl _ \<Rightarrow> Some ve | Inr (_, ve') \<Rightarrow> Some ve')"
| "ve_step gd ve (SetMemoryPoles coords k) = set_memory_poles gd coords k ve"
| "ve_step gd ve (SetBiases b) = Some (ve\<lparr>ve_feedback := set_biases b (ve_feedback ve)\<rparr>)"

fun ve_run :: "(rat \<Rightarrow> dbl) \<Rightarrow> value_engine \<Rightarrow> ve_op list \<Rightarrow> value_engine option" where
  "ve_run gd ve [] = Some ve"
| "ve_run gd ve (x # ops) = (case ve_step gd ve x of None \<Rightarrow> None | Some ve' \<Rightarrow> ve_run gd ve' ops)"

fun ve_op_ok :: "ve_op \<Rightarrow> bool" where
  "ve_op_ok (AdvanceSeason _) = True"
| "ve_op_ok (ConfirmCorrection _ p _) = pending_ok p"
| "ve_op_ok (SetMemoryPoles coords _) = (list_all unit_point coords \<and> length coords < 2 ^ 31)"
| "ve_op_ok (SetBiases b) = (length b = 14 \<and> list_all bias_ok b)"

definition poles_lattice_ok :: "value_engine \<Rightarrow> bool" where
  "poles_lattice_ok ve \<longleftrightarrow> (\<exists>s. pe_polytope (ve_poles ve) = new_polytope (from_season s))"

lemma ve_step_ok:
  assumes gd: "gmp_get_d gd" and ok: "engine_ok ve" "poles_lattice_ok ve" and x: "ve_op_ok x"
  shows "\<exists>ve'. ve_step gd ve x = Some ve' \<and> engine_ok ve' \<and> poles_lattice_ok ve'"
proof (cases x)
  case (AdvanceSeason s)
  then show ?thesis using ok
    by (auto simp: advance_season_def update_constraints_def Let_def engine_ok_def poles_lattice_ok_def biases_ok_def update_season_def)
next
  case (ConfirmCorrection now p who)
  have "biases_ok (fb_step (ve_feedback ve) (Confirm now p who))"
    using step_biases_ok[of "ve_feedback ve" "Confirm now p who"] ok x ConfirmCorrection by (simp add: engine_ok_def)
  then show ?thesis using ok ConfirmCorrection
    by (auto simp: ve_confirm_correction_def engine_ok_def poles_lattice_ok_def split: sum.splits prod.splits)
next
  case (SetMemoryPoles coords k)
  obtain s where s: "pe_polytope (ve_poles ve) = new_polytope (from_season s)" using ok by (auto simp: poles_lattice_ok_def)
  have "\<exists>ps. discover gd coords k (ve_poles ve) = Some (ve_poles ve\<lparr>pe_poles := ps\<rparr>)"
  proof (cases "coords = []")
    case False
    then show ?thesis using discover_ok[OF gd _ False _ s, of k] x SetMemoryPoles by (auto simp: list_all_iff)
  next
    case True
    then show ?thesis by (intro exI[of _ "[]"]) (simp add: discover_def)
  qed
  then show ?thesis using ok SetMemoryPoles by (auto simp: set_memory_poles_def engine_ok_def poles_lattice_ok_def)
next
  case (SetBiases b)
  then show ?thesis using ok x
    by (auto simp: set_biases_def engine_ok_def poles_lattice_ok_def biases_ok_def list_all_length)
qed

lemma ve_run_ok:
  "gmp_get_d gd \<Longrightarrow> engine_ok ve \<Longrightarrow> poles_lattice_ok ve \<Longrightarrow> list_all ve_op_ok ops \<Longrightarrow>
   \<exists>ve'. ve_run gd ve ops = Some ve' \<and> engine_ok ve' \<and> poles_lattice_ok ve'"
proof (induction ops arbitrary: ve)
  case (Cons x ops)
  obtain ve1 where "ve_step gd ve x = Some ve1" "engine_ok ve1" "poles_lattice_ok ve1"
    using ve_step_ok[OF Cons.prems(1-3), of x] Cons.prems(4) by auto
  with Cons show ?case by simp
qed simp

text \<open>
  C13: an engine stays able to evaluate for its whole life: from the construction in any season,
  through any sequence of season advances, confirmed corrections of finite vectors, discoveries of
  poles from points of the unit cube and bias loads within bounds, no operation stops the program
  and every response can be evaluated afterwards, in the season of the last advance.
\<close>

theorem engine_lifetime:
  assumes "gmp_get_d gd" and "list_all ve_op_ok ops"
  shows "\<exists>ve r. ve_run gd (new_value_engine (from_season s) s) ops = Some ve \<and> engine_ok ve
     \<and> evaluate gd ve response ctx w = Some r \<and> eval_ok (season (ve_constraints ve)) r"
proof -
  have "poles_lattice_ok (new_value_engine (from_season s) s)"
    by (auto simp: poles_lattice_ok_def new_value_engine_def new_pole_engine_def)
  then obtain ve where ve: "ve_run gd (new_value_engine (from_season s) s) ops = Some ve" "engine_ok ve"
    using ve_run_ok[OF assms(1) engine_ok_new _ assms(2)] by blast
  obtain r where "evaluate gd ve response ctx w = Some (finish_result ve response w r)"
    "eval_ok (season (ve_constraints ve)) r" by (rule evaluate_ok[OF assms(1) ve(2)])
  with ve show ?thesis by (metis eval_ok_finish)
qed

theorem engine_lifetime_witness:
  "\<exists>ve r. ve_run trunc_d (new_value_engine (from_season ''spring'') ''spring'')
        [SetMemoryPoles [map Fin (replicate 14 (1/2))] 3, AdvanceSeason ''summer''] = Some ve
     \<and> evaluate trunc_d ve ''hello'' None True = Some r"
  using engine_lifetime[OF gmp.gmp_get_d_axioms, of "[SetMemoryPoles [map Fin (replicate 14 (1/2))] 3, AdvanceSeason ''summer'']"
      "''spring''" "''hello''" None True] unit_point_replicate[of "1/2"] by auto

text \<open>
  one confirmed correction with an undefined value ends all evaluation: \<^verbatim>\<open>std::clamp\<close> passes NaN
  through, so flagging a dimension with NaN and confirming it makes the bias NaN, no later
  confirmation or season change repairs it, and from then on the evaluation of every response
  stops the program.
\<close>

theorem nan_correction_is_fatal:
  assumes "flag_miscalibration (ve_feedback ve) ev resp v [(int i, NaN)] who why = Some p" and "i < 14" and "length v = 14"
    and "ve_confirm_correction now p confirmer ve = Inr (ec, ve')"
  shows "evaluate gd (ve'\<lparr>ve_feedback := fb_run (ve_feedback ve') ops\<rparr>) response ctx w = None"
proof -
  obtain fb' where fb: "confirm_correction now p confirmer (ve_feedback ve) = Inr (ec, fb')" "ve_feedback ve' = fb'"
    using assms(4) by (auto simp: ve_confirm_correction_def split: sum.splits prod.splits)
  let ?fb = "fb_run fb' ops"
  have n: "dimension_biases ?fb ! i = NaN"
    by (intro nan_run confirm_nan[OF fb(1)] flag_nan(1)[OF assms(1)] assms(2,3))
  have "apply_biases ?fb x ! i = NaN" for x
  proof -
    have "dadd (x ! i) NaN = NaN" by (cases "x ! i") simp_all
    then show ?thesis using assms(2) by (simp add: apply_biases_def DC n dclamp_def del: upt_rec_numeral)
  qed
  moreover have "length (apply_biases ?fb x) = 14" for x by (simp add: apply_biases_def DC)
  ultimately have "NaN \<in> set (apply_biases ?fb x)" for x using assms(2) by (metis nth_mem)
  then have "contains gd p' (apply_biases ?fb x) = None" for p' x by (auto simp: contains_None intro!: bexI[of _ NaN])
  then show ?thesis by (simp add: evaluate_def fb(2))
qed

theorem nan_correction_is_fatal_witness:
  "\<exists>p ec ve'. flag_miscalibration (new_feedback ''fall'') ''e'' ''r'' zero_vector [(int 3, NaN)] ''lina'' '''' = Some p
     \<and> ve_confirm_correction 9 p ''lina'' (new_value_engine (from_season ''fall'') ''fall'') = Inr (ec, ve')
     \<and> evaluate trunc_d (ve'\<lparr>ve_feedback := fb_run (ve_feedback ve') [UpdateSeason ''winter'']\<rparr>) ''hello'' None False = None"
proof -
  let ?ve = "new_value_engine (from_season ''fall'') ''fall''"
  have f: "ve_feedback ?ve = new_feedback ''fall''" by (simp add: new_value_engine_def)
  obtain p where p: "flag_miscalibration (new_feedback ''fall'') ''e'' ''r'' zero_vector [(int 3, NaN)] ''lina'' '''' = Some p"
    and r: "requires_confirmation_from p = ''none''"
    by (auto simp: flag_miscalibration_def adjust_dim_def DC new_feedback_def)
  obtain ec ve' where c: "ve_confirm_correction 9 p ''lina'' ?ve = Inr (ec, ve')"
    by (auto simp: ve_confirm_correction_def confirm_correction_def r Let_def)
  have "evaluate trunc_d (ve'\<lparr>ve_feedback := fb_run (ve_feedback ve') [UpdateSeason ''winter'']\<rparr>) ''hello'' None False = None"
    by (rule nan_correction_is_fatal[OF p[folded f] _ _ c]) simp_all
  with p c show ?thesis by blast
qed

text \<open>
  the homes do not follow the season: discovering poles after a season advance gives exactly
  the poles that the discovery before the advance would have given, because the pole engine keeps
  the lattice it was constructed with.
\<close>

theorem poles_ignore_season:
  "set_memory_poles gd coords k (advance_season s ve) = map_option (advance_season s) (set_memory_poles gd coords k ve)"
  by (cases "discover gd coords k (ve_poles ve)")
     (simp_all add: set_memory_poles_def advance_season_def update_constraints_def Let_def)

end
