(* ===== verification/Season_Growth.thy ===== *)
theory Season_Growth
  imports Value_Types Number_Text
begin

text \<open>
  The end of \<^verbatim>\<open>src/src/value_engine.cpp\<close>: \<^verbatim>\<open>SeasonAdvancementEvaluator\<close>, the memory formation
  score and \<^verbatim>\<open>MemoryDial\<close>.  \<open>le3 x y A\<close> carries bounds and monotonicity through rounded
  arithmetic: \<open>x\<close> and \<open>y\<close> are numbers with \<open>0 \<le> x \<le> y \<le> A\<close>.
\<close>

section \<open>Seasons\<close>

record season_requirements =
  min_sessions :: int
  min_evaluations :: int
  alignment_rate_threshold :: dbl
  max_recent_violations :: int
  min_qualifying_memories :: int
  min_actions_resolved :: int
  action_approval_rate_threshold :: dbl
  advances_to :: "string option"

definition requirements :: "string \<Rightarrow> season_requirements" where
  "requirements s =
     (let req = (\<lambda>a b c d e f g h.
            \<lparr>min_sessions = a, min_evaluations = b, alignment_rate_threshold = c, max_recent_violations = d,
             min_qualifying_memories = e, min_actions_resolved = f, action_approval_rate_threshold = g,
             advances_to = h\<rparr>);
          spring = req 5 50 (lit (85/100)) 0 7 0 (Fin 0) (Some ''summer'')
      in if s = ''spring'' then spring
         else if s = ''summer'' then req 10 50 (lit (88/100)) 0 15 0 (Fin 0) (Some ''fall'')
         else if s = ''fall'' then req 20 50 (lit (90/100)) 0 30 0 (Fin 0) (Some ''winter'')
         else if s = ''winter'' then req 0 0 (Fin 0) 0 0 0 (Fin 0) None
         else spring)"

definition count_reason :: "string \<Rightarrow> int \<Rightarrow> int \<Rightarrow> string list" where
  "count_reason what have_n need =
     (if have_n < need
      then [''Not enough '' @ what @ '' ('' @ string_of_int have_n @ ''/'' @ string_of_int need @
            '' '' @ em_dash @ '' '' @ string_of_int (need - have_n) @ '' more needed).'']
      else [])"

definition rate_reason :: "dbl \<Rightarrow> dbl \<Rightarrow> string list" where
  "rate_reason rate thr =
     (if dless rate thr
      then [''Alignment rate too low ('' @ string_of_double (dmul rate (Fin 100)) @ ''% vs '' @
            string_of_double (dmul thr (Fin 100)) @ ''% '' @ em_dash @ '' gap: '' @
            string_of_double (dmul (dsub thr rate) (Fin 100)) @ ''%).'']
      else [])"

definition winter_reason :: string where
  "winter_reason = ''Already in Winter '' @ em_dash @ '' the final season.''"

definition can_advance :: "int \<Rightarrow> int \<Rightarrow> dbl \<Rightarrow> int \<Rightarrow> int \<Rightarrow> string \<Rightarrow> int \<Rightarrow> dbl option \<Rightarrow> bool \<times> string list" where
  "can_advance sessions evaluations rate recent_violations memories current actions approval =
     (let reqs = requirements current in
      if advances_to reqs = None then (False, [winter_reason]) else
      let reasons = count_reason ''sessions'' sessions (min_sessions reqs) @
                    count_reason ''evaluations'' evaluations (min_evaluations reqs) @
                    count_reason ''qualifying memories'' memories (min_qualifying_memories reqs) @
                    rate_reason rate (alignment_rate_threshold reqs)
      in (reasons = [], reasons))"

definition next_season :: "string \<Rightarrow> string option" where
  "next_season current = advances_to (requirements current)"

section \<open>Memory formation\<close>

definition score_memory :: "dbl \<Rightarrow> dbl \<Rightarrow> dbl \<Rightarrow> dbl \<Rightarrow> dbl \<Rightarrow> dbl" where
  "score_memory emotional relational identity geometric intensity =
     (let b = dadd (dadd (dadd (dmul identity (lit (30/100))) (dmul geometric (lit (25/100))))
                      (dmul emotional (lit (25/100)))) (dmul relational (lit (20/100)));
          multiplier = dadd (lit (7/10)) (dmul intensity (lit (6/10)))
      in dmin (dmul b multiplier) (Fin 10))"

definition geometric_significance :: "dbl option \<Rightarrow> bool \<Rightarrow> zone \<Rightarrow> dbl" where
  "geometric_significance score corrected z =
     (let proximity = (case score of Some a \<Rightarrow> dmul (dsub (Fin 1) a) (Fin 10) | None \<Rightarrow> Fin 0);
          s1 = (if corrected then dadd proximity (Fin 2) else proximity);
          s2 = (if z = Violation \<or> z = AcceptableVariance then dadd s1 (Fin 1) else s1)
      in dclamp s2 (Fin 0) (Fin 10))"

definition DELTA_MIN :: dbl where "DELTA_MIN = Fin (-3)"
definition DELTA_MAX :: dbl where "DELTA_MAX = Fin 3"

definition clamp_delta :: "dbl \<Rightarrow> dbl" where
  "clamp_delta d = dclamp d DELTA_MIN DELTA_MAX"

definition dial_adjust :: "dbl \<Rightarrow> dbl \<Rightarrow> dbl \<Rightarrow> dbl" where
  "dial_adjust score delta flr = dmax flr (dadd score (clamp_delta delta))"

section \<open>Rounded arithmetic is monotone\<close>

definition le3 :: "dbl \<Rightarrow> dbl \<Rightarrow> int \<Rightarrow> bool" where
  "le3 x y A \<longleftrightarrow> (\<exists>a b. x = Fin a \<and> y = Fin b \<and> 0 \<le> a \<and> a \<le> b \<and> b \<le> of_int A)"

lemma le3_rnd:
  assumes "0 \<le> a" "a \<le> b" "b \<le> of_int A" "A \<le> 2 ^ 53"
  shows "le3 (rnd a) (rnd b) A"
proof -
  have A: "0 \<le> A" using assms(1-3) by (metis of_int_0_le_iff order_trans)
  then have r: "rep (of_int A)" by (intro rep_of_int) (use assms(4) in simp)
  have "(of_int A :: rat) \<le> 2 ^ 53" using assms(4) by (metis of_int_le_iff of_int_numeral of_int_power)
  then have l: "of_int A < dbl_limit" using dbl_limit_big by simp
  have z: "- dbl_limit < (0::rat)" by (simp add: dbl_limit_def)
  have "rnd a = Fin (round_rat a)" "0 \<le> round_rat a"
    using rnd_between[OF rep_0 r assms(1) _ z l] assms by auto
  moreover have "rnd b = Fin (round_rat b)" "round_rat b \<le> of_int A"
    using rnd_between[OF rep_0 r _ assms(3) z l] assms by auto
  ultimately show ?thesis using round_rat_mono[OF assms(2)] by (simp add: le3_def)
qed

lemma le3_lit: "0 \<le> q \<Longrightarrow> q \<le> of_int A \<Longrightarrow> A \<le> 2 ^ 53 \<Longrightarrow> le3 (lit q) (lit q) A"
  by (rule le3_rnd) simp_all

lemma le3_mul: "le3 x x' A \<Longrightarrow> le3 y y' B \<Longrightarrow> A * B \<le> 2 ^ 53 \<Longrightarrow> le3 (dmul x y) (dmul x' y') (A * B)"
proof -
  assume a: "le3 x x' A" "le3 y y' B" "A * B \<le> 2 ^ 53"
  from a(1,2) obtain p q r s where v: "x = Fin p" "x' = Fin q" "0 \<le> p" "p \<le> q" "q \<le> of_int A"
    "y = Fin r" "y' = Fin s" "0 \<le> r" "r \<le> s" "s \<le> of_int B"
    unfolding le3_def by blast
  have "p * r \<le> q * s" "0 \<le> p * r" using v by (simp_all add: mult_mono)
  moreover have "q * s \<le> of_int A * of_int B" using v by (intro mult_mono) linarith+
  ultimately show ?thesis using le3_rnd[of "p * r" "q * s" "A * B"] a(3) by (simp add: v)
qed

lemma le3_add: "le3 x x' A \<Longrightarrow> le3 y y' B \<Longrightarrow> A + B \<le> 2 ^ 53 \<Longrightarrow> le3 (dadd x y) (dadd x' y') (A + B)"
proof -
  assume a: "le3 x x' A" "le3 y y' B" "A + B \<le> 2 ^ 53"
  from a(1,2) obtain p q r s where v: "x = Fin p" "x' = Fin q" "0 \<le> p" "p \<le> q" "q \<le> of_int A"
    "y = Fin r" "y' = Fin s" "0 \<le> r" "r \<le> s" "s \<le> of_int B"
    unfolding le3_def by blast
  show ?thesis using le3_rnd[of "p + r" "q + s" "A + B"] a(3) v by simp
qed

lemma le3_min: "le3 x x' A \<Longrightarrow> 0 \<le> m \<Longrightarrow> le3 (dmin x (Fin (of_int m))) (dmin x' (Fin (of_int m))) m"
  by (auto simp: le3_def dmin_def)

lemma le3_const: "0 \<le> a \<Longrightarrow> a \<le> b \<Longrightarrow> b \<le> of_int A \<Longrightarrow> le3 (Fin a) (Fin b) A"
  by (auto simp: le3_def)

lemma score_le3:
  assumes "le3 e e' 10" "le3 r r' 10" "le3 i i' 10" "le3 g g' 10" "le3 t t' 1"
  shows "le3 (score_memory e r i g t) (score_memory e' r' i' g' t') 10"
proof -
  define c30 c25 c20 c7 c6 where c: "c30 = lit (30/100)" "c25 = lit (25/100)" "c20 = lit (20/100)" "c7 = lit (7/10)" "c6 = lit (6/10)"
  have k: "le3 c30 c30 1" "le3 c25 c25 1" "le3 c20 c20 1" "le3 c7 c7 1" "le3 c6 c6 1"
    unfolding c by (rule le3_lit; simp)+
  have p: "le3 (dmul x c) (dmul x' c) 10" if "le3 x x' 10" "le3 c c 1" for x x' c
    using le3_mul[OF that] by simp
  have b1: "le3 (dadd (dmul i c30) (dmul g c25)) (dadd (dmul i' c30) (dmul g' c25)) 20"
    using le3_add[OF p[OF assms(3) k(1)] p[OF assms(4) k(2)]] by simp
  have b2: "le3 (dadd (dadd (dmul i c30) (dmul g c25)) (dmul e c25)) (dadd (dadd (dmul i' c30) (dmul g' c25)) (dmul e' c25)) 30"
    using le3_add[OF b1 p[OF assms(1) k(2)]] by simp
  have b3: "le3 (dadd (dadd (dadd (dmul i c30) (dmul g c25)) (dmul e c25)) (dmul r c20))
     (dadd (dadd (dadd (dmul i' c30) (dmul g' c25)) (dmul e' c25)) (dmul r' c20)) 40"
    using le3_add[OF b2 p[OF assms(2) k(3)]] by simp
  have m: "le3 (dadd c7 (dmul t c6)) (dadd c7 (dmul t' c6)) 2"
    using le3_add[OF k(4) le3_mul[OF assms(5) k(5)]] by simp
  show ?thesis using le3_min[OF le3_mul[OF b3 m], of 10] by (simp only: score_memory_def Let_def c) simp
qed

text \<open>
  the formation score is a bounded and monotone number: for significances between 0 and 10 and
  an intensity between 0 and 1 the score is a number between 0 and 10, and raising any of the five
  inputs never lowers it, rounding included.
\<close>

theorem score_monotone:
  assumes "0 \<le> e" "e \<le> e'" "e' \<le> 10" "0 \<le> r" "r \<le> r'" "r' \<le> 10" "0 \<le> i" "i \<le> i'" "i' \<le> 10"
    and "0 \<le> g" "g \<le> g'" "g' \<le> 10" "0 \<le> t" "t \<le> t'" "t' \<le> 1"
  shows "\<exists>a b. score_memory (Fin e) (Fin r) (Fin i) (Fin g) (Fin t) = Fin a
     \<and> score_memory (Fin e') (Fin r') (Fin i') (Fin g') (Fin t') = Fin b \<and> 0 \<le> a \<and> a \<le> b \<and> b \<le> 10"
  using score_le3[of "Fin e" "Fin e'" "Fin r" "Fin r'" "Fin i" "Fin i'" "Fin g" "Fin g'" "Fin t" "Fin t'"] assms
  by (simp add: le3_def)

theorem score_monotone_witness:
  "\<exists>a b. score_memory (Fin 5) (Fin 5) (Fin 3) (Fin 0) (Fin (1/2)) = Fin a
     \<and> score_memory (Fin 5) (Fin 5) (Fin 3) (Fin 10) (Fin (1/2)) = Fin b \<and> a \<le> b"
  using score_monotone[of 5 5 5 5 3 3 0 10 "1/2" "1/2"] by auto

lemma le3_clamp: "le3 x y A \<Longrightarrow> le3 (dclamp x (Fin 0) (Fin 10)) (dclamp y (Fin 0) (Fin 10)) 10"
  by (auto simp: le3_def dclamp_def)

lemma le3_refl: "le3 x y A \<Longrightarrow> le3 y y A"
  by (auto simp: le3_def)

lemma le3_grow:
  assumes "le3 (Fin a) (Fin a) A" "rep a" "0 \<le> c" "A + c \<le> 2 ^ 53"
  shows "le3 (Fin a) (dadd (Fin a) (Fin (of_int c))) (A + c) \<and> (\<exists>b. dadd (Fin a) (Fin (of_int c)) = Fin b \<and> rep b)"
proof -
  have "le3 (dadd (Fin a) (Fin (of_int c))) (dadd (Fin a) (Fin (of_int c))) (A + c)"
    using assms by (intro le3_add le3_const) (auto simp: le3_def)
  then obtain b where b: "dadd (Fin a) (Fin (of_int c)) = Fin b" "b \<le> of_int (A + c)" by (auto simp: le3_def)
  then have r: "b = round_rat (a + of_int c)" by (auto simp: rnd_def Let_def split: if_splits)
  have "a \<le> b" unfolding r by (rule round_rat_ge) (use assms in auto)
  then show ?thesis using assms(1) b r rep_round_rat by (auto simp: le3_def)
qed

lemma significance_cases:
  assumes p: "le3 pb (Fin pa) 10" and r: "rep pa"
  defines "s2 \<equiv> \<lambda>p corrected z. let s1 = (if corrected then dadd p (Fin 2) else p)
              in if z = Violation \<or> z = AcceptableVariance then dadd s1 (Fin 1) else s1"
  shows "le3 (s2 pb corrected z) (s2 (Fin pa) corrected z) 13" "le3 (s2 (Fin pa) corrected z) (s2 (Fin pa) True Violation) 13"
proof -
  have two: "le3 (Fin 2) (Fin 2) 2" and one: "le3 (Fin 1) (Fin 1) 1" by (simp_all add: le3_def)
  have w: "le3 x y A \<Longrightarrow> A \<le> 13 \<Longrightarrow> le3 x y 13" for x y A
    unfolding le3_def by (metis of_int_le_iff order_trans)
  have p2: "le3 (dadd pb (Fin 2)) (dadd (Fin pa) (Fin 2)) 12" using le3_add[OF p two] by simp
  have p1: "le3 (dadd pb (Fin 1)) (dadd (Fin pa) (Fin 1)) 11" using le3_add[OF p one] by simp
  have p3: "le3 (dadd (dadd pb (Fin 2)) (Fin 1)) (dadd (dadd (Fin pa) (Fin 2)) (Fin 1)) 13" using le3_add[OF p2 one] by simp
  show "le3 (s2 pb corrected z) (s2 (Fin pa) corrected z) 13"
    unfolding s2_def Let_def using w[OF p] w[OF p1] w[OF p2] p3 by (simp del: dadd.simps)
  obtain b where b: "dadd (Fin pa) (Fin 2) = Fin b" "rep b" "le3 (Fin pa) (Fin b) 12"
    using le3_grow[OF le3_refl[OF p] r, of 2] by auto
  obtain c where c: "dadd (Fin b) (Fin 1) = Fin c" "le3 (Fin b) (Fin c) 13"
    using le3_grow[OF le3_refl[OF b(3)] b(2), of 1] by auto
  have "le3 (dadd (Fin pa) (Fin 1)) (Fin c) 13" using le3_add[OF b(3) one] c(1) by simp
  moreover have "le3 (Fin pa) (Fin c) 13" using b(3) c(2) by (auto simp: le3_def)
  ultimately show "le3 (s2 (Fin pa) corrected z) (s2 (Fin pa) True Violation) 13"
    unfolding s2_def Let_def b(1) using c by (cases z) (auto simp: b(1) le3_def simp del: dadd.simps)
qed

text \<open>
  the geometric significance is a number between 0 and 10 for every score between 0 and 1; it
  never falls as the alignment score falls, and it is largest for a corrected violation.
\<close>

theorem significance_monotone:
  assumes "0 \<le> a" "a \<le> b" "b \<le> 1"
  shows "\<exists>x y w. geometric_significance (Some (Fin b)) corrected z = Fin x
     \<and> geometric_significance (Some (Fin a)) corrected z = Fin y
     \<and> geometric_significance (Some (Fin a)) True Violation = Fin w
     \<and> 0 \<le> x \<and> x \<le> y \<and> y \<le> w \<and> w \<le> 10"
proof -
  define pb where "pb = dmul (dsub (Fin 1) (Fin b)) (Fin 10)"
  have d: "le3 (dsub (Fin 1) (Fin b)) (dsub (Fin 1) (Fin a)) 1"
    unfolding dsub_def dneg.simps dadd.simps by (rule le3_rnd) (use assms in simp_all)
  then obtain da where da: "dsub (Fin 1) (Fin a) = Fin da" by (auto simp: le3_def)
  have p: "le3 pb (dmul (dsub (Fin 1) (Fin a)) (Fin 10)) 10"
    using le3_mul[OF d le3_const[of 10 10 10]] by (simp add: pb_def)
  then obtain pa where pa: "dmul (dsub (Fin 1) (Fin a)) (Fin 10) = Fin pa" by (auto simp: le3_def)
  then have r: "rep pa" by (auto simp: da rnd_def Let_def rep_round_rat split: if_splits)
  have g: "le3 (geometric_significance (Some (Fin b)) corrected z) (geometric_significance (Some (Fin a)) corrected z) 10"
    "le3 (geometric_significance (Some (Fin a)) corrected z) (geometric_significance (Some (Fin a)) True Violation) 10"
    using significance_cases[OF p[unfolded pa] r, of corrected z, THEN le3_clamp]
    by (simp_all only: geometric_significance_def option.case Let_def pa pb_def)
  then show ?thesis by (auto simp: le3_def)
qed

theorem significance_monotone_witness:
  "\<exists>x y w. geometric_significance (Some (Fin 1)) False Aligned = Fin x
     \<and> geometric_significance (Some (Fin (1/2))) False Aligned = Fin y
     \<and> geometric_significance (Some (Fin (1/2))) True Violation = Fin w \<and> x \<le> y \<and> y \<le> w"
  using significance_monotone[of "1/2" 1 False Aligned] by auto

section \<open>Advancing\<close>

text \<open>
  an advance is granted on exactly four grounds, and one reason is given for each that is
  missing: outside Winter the evaluator answers yes exactly when the sessions, the evaluations, the
  qualifying memories and the alignment rate are all not below the season's thresholds, and
  otherwise lists one reason per threshold missed; recent violations, resolved actions and their
  approval rate are never looked at, and in Winter the answer is always no.
\<close>

theorem advance_grounds:
  "(let q = requirements s;
        missed = [sessions < min_sessions q, evaluations < min_evaluations q,
                  memories < min_qualifying_memories q, dless rate (alignment_rate_threshold q)];
        (ok, reasons) = can_advance sessions evaluations rate viol memories s actions approval
    in if s = ''winter'' then \<not> ok \<and> reasons = [winter_reason]
       else (ok \<longleftrightarrow> \<not> list_ex id missed) \<and> length reasons = length (filter id missed))"
  by (simp add: can_advance_def requirements_def Let_def count_reason_def rate_reason_def)

text \<open>The season after \<open>n\<close> advances.\<close>

fun season_after :: "nat \<Rightarrow> string \<Rightarrow> string option" where
  "season_after 0 s = Some s"
| "season_after (Suc n) s = (case next_season s of None \<Rightarrow> None | Some t \<Rightarrow> season_after n t)"

text \<open>
  growth ends in Winter: from any season name, known or not, at most three advances lead to
  Winter, and Winter has no successor, so no sequence of advances is longer.
\<close>

theorem seasons_end:
  "(\<exists>n\<le>3. season_after n s = Some ''winter'') \<and> next_season ''winter'' = None \<and> season_after 4 s = None"
proof -
  have n: "next_season ''winter'' = None" "next_season ''fall'' = Some ''winter''" "next_season ''summer'' = Some ''fall''"
    "next_season s = (if s = ''winter'' then None else if s = ''fall'' then Some ''winter''
       else if s = ''summer'' then Some ''fall'' else Some ''summer'')"
    by (simp_all add: next_season_def requirements_def Let_def)
  have f: "season_after (Suc (Suc (Suc (Suc 0)))) s = None" by (simp add: n(1-3) n(4))
  show ?thesis
  proof (intro conjI)
    consider "s = ''winter''" | "s = ''fall''" | "s = ''summer''" | "next_season s = Some ''summer''"
      using n(4) by presburger
    then show "\<exists>n\<le>3. season_after n s = Some ''winter''"
    proof cases
      case 1 then show ?thesis by (intro exI[of _ 0]) simp
    next
      case 2 then show ?thesis by (intro exI[of _ "Suc 0"]) (simp add: n)
    next
      case 3 then show ?thesis by (intro exI[of _ "Suc (Suc 0)"]) (simp add: n)
    next
      case 4 then show ?thesis by (intro exI[of _ "Suc (Suc (Suc 0))"]) (simp add: n(1-3))
    qed
  qed (use n f in \<open>simp_all add: numeral_eq_Suc\<close>)
qed

end
