(* ===== verification/Clock_Text.thy ===== *)
theory Clock_Text
  imports Number_Text
begin

text \<open>
  The time helpers of \<^verbatim>\<open>src/src/memory_module.cpp\<close>: \<^verbatim>\<open>now_iso\<close>, \<^verbatim>\<open>parse_iso\<close> and
  \<^verbatim>\<open>days_between\<close>.  A \<^verbatim>\<open>time_t\<close> is a number of seconds, a \<^verbatim>\<open>system_clock::time_point\<close> a
  number of nanoseconds since 1970; both are integers here, so the years the 64-bit nanosecond
  count cannot hold (before 1678, after 2261) are outside the model.  \<^verbatim>\<open>gmtime_r\<close> and
  \<^verbatim>\<open>timegm\<close> are the proleptic Gregorian calendar.  \<^verbatim>\<open>std::get_time\<close> skips leading white space,
  reads every number with exactly the digits of its width, compares letters without case, and
  stops without an error when the text ends right after a number; a year of two digits is not
  modelled.
\<close>

section \<open>The calendar\<close>

definition leap :: "int \<Rightarrow> bool" where
  "leap y \<longleftrightarrow> (y mod 4 = 0 \<and> y mod 100 \<noteq> 0) \<or> y mod 400 = 0"

definition year_days :: "int \<Rightarrow> int" where
  "year_days y = (if leap y then 366 else 365)"

text \<open>Days from 1 January 1970 to 1 January of a year.\<close>

definition days_to_year :: "int \<Rightarrow> int" where
  "days_to_year y = 365 * (y - 1970) + ((y - 1) div 4 - (y - 1) div 100 + (y - 1) div 400) - 477"

definition month_days :: "int \<Rightarrow> nat \<Rightarrow> int" where
  "month_days y m = (if m = 1 \<and> leap y then 29 else [31, 28, 31, 30, 31, 30, 31, 31, 30, 31, 30, 31] ! m)"

definition days_to_month :: "int \<Rightarrow> nat \<Rightarrow> int" where
  "days_to_month y m = sum_list (map (month_days y) [0..<m])"

text \<open>A broken-down time: the fields of \<^verbatim>\<open>std::tm\<close> the code uses, months counted from 0.\<close>

record tm =
  tm_year :: int
  tm_mon :: nat
  tm_mday :: int
  tm_hour :: int
  tm_min :: int
  tm_sec :: int

definition zero_tm :: tm where
  "zero_tm = \<lparr>tm_year = 1900, tm_mon = 0, tm_mday = 0, tm_hour = 0, tm_min = 0, tm_sec = 0\<rparr>"

definition timegm :: "tm \<Rightarrow> int" where
  "timegm t = 86400 * (days_to_year (tm_year t) + days_to_month (tm_year t) (tm_mon t) + (tm_mday t - 1))
              + 3600 * tm_hour t + 60 * tm_min t + tm_sec t"

text \<open>The years, then the months, are counted off from the days since 1970.\<close>

function year_of :: "int \<Rightarrow> int \<Rightarrow> int \<times> int" where
  "year_of y d = (if d < year_days y then (y, d) else year_of (y + 1) (d - year_days y))"
  by auto
termination
  by (relation "measure (\<lambda>(y, d). nat d)") (auto simp: year_days_def split: if_splits)

declare year_of.simps [simp del]

fun month_of :: "int \<Rightarrow> nat \<Rightarrow> nat \<Rightarrow> int \<Rightarrow> nat \<times> int" where
  "month_of y 0 m d = (m, d)"
| "month_of y (Suc k) m d = (if d < month_days y m then (m, d) else month_of y k (Suc m) (d - month_days y m))"

definition gmtime :: "int \<Rightarrow> tm" where
  "gmtime t =
     (let (y, d) = year_of 1970 (t div 86400); (m, d') = month_of y 11 0 d; s = t mod 86400
      in \<lparr>tm_year = y, tm_mon = m, tm_mday = d' + 1, tm_hour = s div 3600,
          tm_min = s mod 3600 div 60, tm_sec = s mod 60\<rparr>)"

section \<open>Printing and reading\<close>

definition two_digits :: "int \<Rightarrow> string" where
  "two_digits n = pad_zeros 2 (string_of_nat (nat n))"

definition now_iso :: "int \<Rightarrow> string" where
  "now_iso now =
     (let t = gmtime now
      in string_of_nat (nat (tm_year t)) @ ''-'' @ two_digits (int (tm_mon t) + 1) @ ''-'' @ two_digits (tm_mday t) @ ''T'' @
         two_digits (tm_hour t) @ '':'' @ two_digits (tm_min t) @ '':'' @ two_digits (tm_sec t) @ ''Z'')"

definition digit_val :: "char \<Rightarrow> int" where "digit_val c = of_char c - 48"

definition number_of :: "string \<Rightarrow> int" where
  "number_of s = foldl (\<lambda>v c. 10 * v + digit_val c) 0 s"

text \<open>A conversion or a literal of the format; a field carries its width, its range and where it goes.\<close>

datatype fmt_item = Field nat int int "int \<Rightarrow> tm \<Rightarrow> tm" | Literal char

definition iso_format :: "fmt_item list" where
  "iso_format =
     [Field 4 0 9999 (\<lambda>v t. t\<lparr>tm_year := v\<rparr>), Literal (CHR ''-''),
      Field 2 1 12 (\<lambda>v t. t\<lparr>tm_mon := nat (v - 1)\<rparr>), Literal (CHR ''-''),
      Field 2 1 31 (\<lambda>v t. t\<lparr>tm_mday := v\<rparr>), Literal (CHR ''T''),
      Field 2 0 23 (\<lambda>v t. t\<lparr>tm_hour := v\<rparr>), Literal (CHR '':''),
      Field 2 0 59 (\<lambda>v t. t\<lparr>tm_min := v\<rparr>), Literal (CHR '':''),
      Field 2 0 60 (\<lambda>v t. t\<lparr>tm_sec := v\<rparr>)]"

fun get_time :: "fmt_item list \<Rightarrow> string \<Rightarrow> tm \<Rightarrow> tm option" where
  "get_time [] s t = Some t"
| "get_time (Field w lo hi put # fs) s t =
     (let ds = take w s; v = number_of ds; rest = drop w s
      in if length ds = w \<and> list_all is_digit ds \<and> lo \<le> v \<and> v \<le> hi
         then (if rest = [] then Some (put v t) else get_time fs rest (put v t))
         else None)"
| "get_time (Literal c # fs) [] t = None"
| "get_time (Literal c # fs) (x # s) t = (if to_lower x = to_lower c then get_time fs s t else None)"

definition parse_iso :: "string option \<Rightarrow> int option" where
  "parse_iso ts =
     (case ts of None \<Rightarrow> None
      | Some s \<Rightarrow> if s = [] then None
                 else map_option (\<lambda>t. timegm t * 1000000000) (get_time iso_format (dropWhile is_space s) zero_tm))"

definition days_between :: "int \<Rightarrow> int \<Rightarrow> dbl" where
  "days_between a b = ddiv (ddiv (rnd (of_int (a - b))) (Fin 1000000000)) (Fin 86400)"

section \<open>The calendar counts days\<close>

lemma div_pred:
  assumes "0 < (k::int)"
  shows "y div k = (y - 1) div k + (if y mod k = 0 then 1 else 0)"
proof (cases "y mod k = 0")
  case True
  then have "y = k * (y div k)" by (metis add.right_neutral mult_div_mod_eq)
  then have "y - 1 = k * (y div k - 1) + (k - 1)" by (simp add: right_diff_distrib)
  then have "(y - 1) div k = y div k - 1" by (rule int_div_pos_eq) (use assms in auto)
  with True show ?thesis by simp
next
  case False
  have "0 \<le> y mod k" using assms by simp
  with False have r: "0 \<le> y mod k - 1" by linarith
  have "y - 1 = k * (y div k) + (y mod k - 1)" by (simp add: algebra_simps)
  then have "(y - 1) div k = y div k" by (rule int_div_pos_eq) (use assms r pos_mod_bound[of k y] in linarith)+
  with False show ?thesis by simp
qed

lemma mod_factor: "0 < (k::int) \<Longrightarrow> y mod (k * j) = 0 \<Longrightarrow> y mod k = 0"
  by (metis dvd_eq_mod_eq_0 dvd_mult_left)

lemma days_to_year_Suc: "days_to_year (y + 1) = days_to_year y + year_days y"
proof -
  have "y mod 100 = 0 \<Longrightarrow> y mod 4 = 0" using mod_factor[of 4 y 25] by simp
  moreover have "y mod 400 = 0 \<Longrightarrow> y mod 100 = 0" using mod_factor[of 100 y 4] by simp
  ultimately show ?thesis by (simp add: days_to_year_def year_days_def leap_def div_pred[of 4 y] div_pred[of 100 y] div_pred[of 400 y])
qed

lemma year_of_days:
  "year_of y d = (y', d') \<Longrightarrow> 0 \<le> d
    \<Longrightarrow> days_to_year y' + d' = days_to_year y + d \<and> y \<le> y' \<and> 0 \<le> d' \<and> d' < year_days y'"
proof (induction y d rule: year_of.induct)
  case (1 y d)
  show ?case
  proof (cases "d < year_days y")
    case True
    with 1(2,3) show ?thesis by (simp add: year_of.simps[of y d])
  next
    case False
    with 1 have "days_to_year y' + d' = days_to_year (y + 1) + (d - year_days y) \<and> y + 1 \<le> y' \<and> 0 \<le> d' \<and> d' < year_days y'"
      by (simp add: year_of.simps[of y d])
    then show ?thesis by (simp add: days_to_year_Suc)
  qed
qed

lemma month_of_days:
  "month_of y k m d = (m', d') \<Longrightarrow> 0 \<le> d \<Longrightarrow> d < days_to_month y (Suc (m + k)) - days_to_month y m
    \<Longrightarrow> days_to_month y m' + d' = days_to_month y m + d \<and> m' \<le> m + k \<and> 0 \<le> d' \<and> d' < month_days y m'"
proof (induction k arbitrary: m d)
  case 0
  then show ?case by (simp add: days_to_month_def)
next
  case (Suc k)
  show ?case
  proof (cases "d < month_days y m")
    case True
    with Suc.prems show ?thesis by simp
  next
    case False
    have s: "days_to_month y (Suc m) = days_to_month y m + month_days y m" by (simp add: days_to_month_def)
    have "days_to_month y m' + d' = days_to_month y (Suc m) + (d - month_days y m)
        \<and> m' \<le> Suc m + k \<and> 0 \<le> d' \<and> d' < month_days y m'"
      by (rule Suc.IH) (use Suc.prems False s in auto)
    then show ?thesis by (simp add: s)
  qed
qed

lemma month_days_le: "m < 12 \<Longrightarrow> month_days y m \<le> 31"
proof -
  assume "m < 12"
  then have "m = 0 \<or> m = 1 \<or> m = 2 \<or> m = 3 \<or> m = 4 \<or> m = 5 \<or> m = 6 \<or> m = 7 \<or> m = 8 \<or> m = 9 \<or> m = 10 \<or> m = 11"
    by presburger
  then show ?thesis by (auto simp: month_days_def)
qed

lemma days_to_month_12: "days_to_month y 12 = year_days y"
proof -
  have "[0..<12] = [0,1,2,3,4,5,6,7,8,9,10,11::nat]" by code_simp
  then show ?thesis by (simp add: days_to_month_def month_days_def year_days_def)
qed

lemma days_to_year_mono: "a \<le> b \<Longrightarrow> days_to_year a \<le> days_to_year b"
  by (rule int_ge_induct[of a b]) (auto simp: days_to_year_Suc year_days_def split: if_splits)

definition last_second :: int where "last_second = 253402300799"

lemma gmtime_ranges:
  assumes "0 \<le> t" "t \<le> last_second"
  shows "timegm (gmtime t) = t" and "1970 \<le> tm_year (gmtime t)" "tm_year (gmtime t) \<le> 9999"
    and "tm_mon (gmtime t) < 12" "1 \<le> tm_mday (gmtime t)" "tm_mday (gmtime t) \<le> 31"
    and "0 \<le> tm_hour (gmtime t)" "tm_hour (gmtime t) \<le> 23" "0 \<le> tm_min (gmtime t)" "tm_min (gmtime t) \<le> 59"
    and "0 \<le> tm_sec (gmtime t)" "tm_sec (gmtime t) \<le> 59"
proof -
  obtain y d where y: "year_of 1970 (t div 86400) = (y, d)" by fastforce
  obtain m e where m: "month_of y 11 0 d = (m, e)" by fastforce
  have d0: "0 \<le> t div 86400" using assms(1) by simp
  have yd: "days_to_year y + d = t div 86400" "1970 \<le> y" "0 \<le> d" "d < year_days y"
    using year_of_days[OF y d0] by (simp_all add: days_to_year_def)
  have "\<not> 10000 \<le> y"
  proof
    assume "10000 \<le> y"
    then have "2932897 \<le> days_to_year y" using days_to_year_mono[of 10000 y] by (simp add: days_to_year_def)
    with yd assms(2) show False by (simp add: last_second_def)
  qed
  moreover have md: "days_to_month y m + e = d" "m \<le> 11" "0 \<le> e" "e < month_days y m"
    using month_of_days[OF m yd(3)] yd(4) days_to_month_12[of y] by (simp_all add: days_to_month_def)
  moreover have "e < 31" using md month_days_le[of m y] by simp
  moreover have "t mod 86400 div 3600 < 24" by (auto simp: div_less_iff_less_mult)
  ultimately have g: "gmtime t = \<lparr>tm_year = y, tm_mon = m, tm_mday = e + 1, tm_hour = t mod 86400 div 3600,
      tm_min = t mod 86400 mod 3600 div 60, tm_sec = t mod 86400 mod 60\<rparr>" "y \<le> 9999" "m < 12" "e \<le> 30"
      "t mod 86400 div 3600 \<le> 23"
    by (simp_all add: gmtime_def y m Let_def)
  have "3600 * (s div 3600) + 60 * (s mod 3600 div 60) + s mod 60 = s" for s :: int
  proof -
    have "60 * (s mod 3600 div 60) + s mod 3600 mod 60 = s mod 3600" by simp
    moreover have "s mod 3600 mod 60 = s mod 60" by (simp add: mod_mod_cancel)
    moreover have "3600 * (s div 3600) + s mod 3600 = s" by simp
    ultimately show ?thesis by linarith
  qed
  from this[of "t mod 86400"] have "timegm (gmtime t) = 86400 * (days_to_year y + (days_to_month y m + e)) + t mod 86400"
    by (simp add: g(1) timegm_def algebra_simps)
  then have "timegm (gmtime t) = 86400 * (t div 86400) + t mod 86400" using yd(1) md(1) by simp
  then show "timegm (gmtime t) = t" by simp
  have "s mod 3600 div 60 < 60" "s mod 60 < 60" for s :: int by (auto simp: div_less_iff_less_mult)
  from this[of "t mod 86400"] have mi: "t mod 86400 mod 3600 div 60 \<le> 59" "t mod 86400 mod 60 \<le> 59" by linarith+
  have pos: "0 \<le> t mod 86400 div 3600" "0 \<le> t mod 86400 mod 3600 div 60" "0 \<le> t mod 86400 mod 60"
    by (simp_all add: pos_imp_zdiv_nonneg_iff)
  have sel: "tm_year (gmtime t) = y" "tm_mon (gmtime t) = m" "tm_mday (gmtime t) = e + 1"
    "tm_hour (gmtime t) = t mod 86400 div 3600" "tm_min (gmtime t) = t mod 86400 mod 3600 div 60"
    "tm_sec (gmtime t) = t mod 86400 mod 60"
    unfolding g(1) by (rule tm.select_convs)+
  show "1970 \<le> tm_year (gmtime t)" "tm_year (gmtime t) \<le> 9999" "tm_mon (gmtime t) < 12"
    "1 \<le> tm_mday (gmtime t)" "tm_mday (gmtime t) \<le> 31"
    unfolding sel using g(2-4) yd(2) md(3) by linarith+
  show "0 \<le> tm_hour (gmtime t)" "tm_hour (gmtime t) \<le> 23" "0 \<le> tm_min (gmtime t)" "tm_min (gmtime t) \<le> 59"
    "0 \<le> tm_sec (gmtime t)" "tm_sec (gmtime t) \<le> 59"
    unfolding sel by (rule pos g(5) mi)+
qed

section \<open>Decimal digits\<close>

lemma number_of_append: "number_of (a @ b) = number_of a * 10 ^ length b + number_of b"
proof (induction b rule: rev_induct)
  case (snoc c b)
  have "number_of (xs @ [c]) = 10 * number_of xs + digit_val c" for xs by (simp add: number_of_def)
  from this[of "a @ b"] this[of b] snoc show ?case by (simp add: algebra_simps)
qed (simp add: number_of_def)

lemma digit_char: "n < 10 \<Longrightarrow> is_digit (char_of (48 + n :: nat)) \<and> digit_val (char_of (48 + n)) = int n"
proof -
  assume n: "n < 10"
  then have "of_char (char_of (48 + n)) = (48 + n :: nat)" by simp
  then have "of_char (char_of (48 + n)) = int (48 + n)" by (metis of_nat_of_char)
  with n show ?thesis by (simp add: is_digit_def digit_val_def)
qed

lemma string_of_nat_digits: "list_all is_digit (string_of_nat n) \<and> number_of (string_of_nat n) = int n \<and> string_of_nat n \<noteq> []"
proof (induction n rule: string_of_nat.induct)
  case (1 n)
  show ?case
  proof (cases "n < 10")
    case True
    then show ?thesis using digit_char[of n] by (simp add: string_of_nat.simps[of n] number_of_def)
  next
    case False
    have "number_of [char_of (48 + n mod 10)] = int (n mod 10)" "is_digit (char_of (48 + n mod 10 :: nat))"
      using digit_char[of "n mod 10"] by (simp_all add: number_of_def)
    with 1[OF False] False show ?thesis
      by (simp add: string_of_nat.simps[of n] number_of_append zdiv_int zmod_int)
  qed
qed

lemma string_of_nat_length: "n < 10 ^ w \<Longrightarrow> 0 < w \<Longrightarrow> length (string_of_nat n) \<le> w"
proof (induction w arbitrary: n)
  case (Suc w)
  show ?case
  proof (cases "n < 10")
    case False
    then have "0 < w" using Suc.prems by (cases w) auto
    moreover have "n div 10 < 10 ^ w" using Suc.prems by (simp add: less_mult_imp_div_less mult.commute)
    ultimately show ?thesis using Suc.IH[of "n div 10"] False by (simp add: string_of_nat.simps[of n])
  qed (simp add: string_of_nat.simps[of n])
qed simp

lemma pad_zeros_reads:
  assumes "n < 10 ^ w" "0 < w"
  shows "length (pad_zeros w (string_of_nat n)) = w" "list_all is_digit (pad_zeros w (string_of_nat n))"
    "number_of (pad_zeros w (string_of_nat n)) = int n"
proof -
  have z: "number_of (replicate k (CHR ''0'')) = 0" for k
    by (induction k) (simp_all add: number_of_def digit_val_def)
  show "length (pad_zeros w (string_of_nat n)) = w" using string_of_nat_length[OF assms] by (simp add: pad_zeros_def)
  show "list_all is_digit (pad_zeros w (string_of_nat n))"
    using string_of_nat_digits[of n] by (auto simp: pad_zeros_def list_all_iff is_digit_def)
  show "number_of (pad_zeros w (string_of_nat n)) = int n"
    using string_of_nat_digits[of n] by (simp add: pad_zeros_def number_of_append z)
qed

section \<open>Printing and reading agree\<close>

lemma get_time_Field:
  "length ds = w \<Longrightarrow> list_all is_digit ds \<Longrightarrow> lo \<le> number_of ds \<Longrightarrow> number_of ds \<le> hi \<Longrightarrow> rest \<noteq> []
    \<Longrightarrow> get_time (Field w lo hi put # fs) (ds @ rest) t = get_time fs rest (put (number_of ds) t)"
  by simp

lemma two_digits_reads:
  assumes "0 \<le> n" "n < 100"
  shows "length (two_digits n) = 2" "list_all is_digit (two_digits n)" "number_of (two_digits n) = n"
  using pad_zeros_reads[of "nat n" 2] assms by (simp_all add: two_digits_def nat_less_iff)

lemma year_reads:
  assumes "1970 \<le> y" "y \<le> 9999"
  shows "length (string_of_nat (nat y)) = 4" "list_all is_digit (string_of_nat (nat y))" "number_of (string_of_nat (nat y)) = y"
proof -
  have "length (string_of_nat n) = 4" if "1000 \<le> n" "n < 10000" for n
    using that by (simp add: string_of_nat.simps[of n] string_of_nat.simps[of "n div 10"]
        string_of_nat.simps[of "n div 100"] string_of_nat.simps[of "n div 1000"] div_mult2_eq[symmetric] less_mult_imp_div_less not_less
        div_le_mono[of 1000 n 100, simplified] div_le_mono[of 1000 n 10, simplified] div_le_mono[of 1000 n 1000, simplified])
  then show "length (string_of_nat (nat y)) = 4" using assms by (simp add: nat_less_iff nat_le_iff le_nat_iff)
qed (use string_of_nat_digits[of "nat y"] assms in auto)

lemma get_time_now:
  assumes "0 \<le> t" "t \<le> last_second"
  shows "get_time iso_format (now_iso t) zero_tm = Some (gmtime t)"
proof -
  note r = gmtime_ranges[OF assms]
  let ?g = "gmtime t"
  note y = year_reads[OF r(2,3)] and mo = two_digits_reads[of "int (tm_mon ?g) + 1"] and d = two_digits_reads[of "tm_mday ?g"]
    and h = two_digits_reads[of "tm_hour ?g"] and mi = two_digits_reads[of "tm_min ?g"] and s = two_digits_reads[of "tm_sec ?g"]
  show ?thesis
    unfolding iso_format_def now_iso_def Let_def
    using r y mo d h mi s
    by (simp add: get_time_Field zero_tm_def del: get_time.simps(2))
qed

lemma digits_no_space: "list_all is_digit ds \<Longrightarrow> ds \<noteq> [] \<Longrightarrow> dropWhile is_space (ds @ r) = ds @ r"
  by (cases ds) (auto simp: is_digit_def is_space_def)

lemma parse_now:
  assumes "0 \<le> t" "t \<le> last_second"
  shows "parse_iso (Some (now_iso t)) = Some (t * 1000000000)"
proof -
  note r = gmtime_ranges[OF assms]
  have "string_of_nat (nat (tm_year (gmtime t))) \<noteq> []" using string_of_nat_digits by blast
  then have "dropWhile is_space (now_iso t) = now_iso t" "now_iso t \<noteq> []"
    using digits_no_space[OF year_reads(2)[OF r(2,3)]] by (simp_all add: now_iso_def Let_def)
  then show ?thesis using get_time_now[OF assms] r(1) by (simp add: parse_iso_def)
qed

text \<open>
  the module reads back the timestamps it writes: any second from 1970 to the end of 9999,
  printed by \<^verbatim>\<open>now_iso\<close> and parsed by \<^verbatim>\<open>parse_iso\<close>, is the same instant, through the broken-down
  calendar time and its leap years.
\<close>

theorem timestamps_round_trip:
  assumes "0 \<le> t" and "t \<le> 253402300799"
  shows "parse_iso (Some (now_iso t)) = Some (t * 1000000000)"
  using parse_now assms by (simp add: last_second_def)

theorem timestamps_round_trip_witness:
  "parse_iso (Some (now_iso 1709210096)) = Some 1709210096000000000 \<and> tm_mday (gmtime 1709210096) = 29"
proof
  show "parse_iso (Some (now_iso 1709210096)) = Some 1709210096000000000"
    using timestamps_round_trip[of 1709210096] by simp
  show "tm_mday (gmtime 1709210096) = 29" by code_simp
qed

text \<open>
  A date and a time separated by a blank, the way a database prints a timestamp, is not read.
\<close>

lemma get_time_blank:
  assumes "s ! 10 = CHR '' ''" "10 < length s"
  shows "get_time iso_format s t = None"
proof -
  have "take (Suc 0) s = [s ! 0]" using assms(2) by (cases s) auto
  then have t: "take 10 s = [s!0, s!1, s!2, s!3, s!4, s!5, s!6, s!7, s!8, s!9]"
    using assms(2) by (simp add: take_Suc_conv_app_nth numeral_eq_Suc)
  have "s = take 10 s @ s ! 10 # drop (Suc 10) s" using assms(2) by (rule id_take_nth_drop)
  then have s: "s = s!0 # s!1 # s!2 # s!3 # s!4 # s!5 # s!6 # s!7 # s!8 # s!9 # CHR '' '' # drop 11 s"
    by (simp add: t assms(1))
  show ?thesis 
  proof -
    have "to_lower (CHR '' '') \<noteq> to_lower (CHR ''T'')" by code_simp
    then show ?thesis by (subst s) (simp add: iso_format_def Let_def)
  qed
qed

end
