(* ===== verification/Memory_Rules.thy ===== *)
theory Memory_Rules
  imports Clock_Text Season_Growth Value_Engine
begin

text \<open>
  The records and the pure rules of \<^verbatim>\<open>memory_module.hpp\<close> and \<^verbatim>\<open>memory_module.cpp\<close>: routing, likeness,
  monthly maintenance, the subconscious slope and the legacy review.  The time is an argument.
  \<^verbatim>\<open>std::exp\<close> and \<^verbatim>\<open>std::log\<close> are arguments too (\<open>ex\<close>, \<open>lg\<close>), because the standard does not fix
  their last bits; what the rules rely on is the contract \<open>libm\<close> below.
\<close>

section \<open>Constants and records\<close>

definition TIER_NAMES :: "string list" where "TIER_NAMES = [''t1'', ''t2'', ''t3'']"
definition TIER_GATES :: "dbl list" where "TIER_GATES = [GATE_T1_TO_T2, GATE_T2_TO_T3, GATE_TO_LONG_TERM]"

definition RECALL_WEIGHT_IMPORTANCE :: dbl where "RECALL_WEIGHT_IMPORTANCE = lit (5/10)"
definition RECALL_WEIGHT_SEMANTIC :: dbl where "RECALL_WEIGHT_SEMANTIC = lit (3/10)"
definition RECALL_WEIGHT_ETHICAL :: dbl where "RECALL_WEIGHT_ETHICAL = lit (2/10)"

definition SUBCONSCIOUS_LINE :: dbl where "SUBCONSCIOUS_LINE = Fin 4"
definition LEGACY_ENTER :: dbl where "LEGACY_ENTER = Fin (19/2)"
definition LEGACY_FLOOR :: dbl where "LEGACY_FLOOR = Fin 8"
definition GONE_LINE :: dbl where "GONE_LINE = Fin (1/2)"
definition SLOPE_HALF_LIFE_DAYS :: dbl where "SLOPE_HALF_LIFE_DAYS = Fin 200"
definition SLOPE_GONE_DAYS :: dbl where "SLOPE_GONE_DAYS = Fin 730"
definition RECENT_REWARD_DAYS :: dbl where "RECENT_REWARD_DAYS = Fin 30"
definition RECENT_REWARD :: dbl where "RECENT_REWARD = Fin (1/2)"
definition FALLOUT_RETENTION_HOURS :: dbl where "FALLOUT_RETENTION_HOURS = Fin 48"

record memory_item =
  mi_id :: string
  mi_narrative :: string
  mi_hemisphere :: string
  mi_coordinates :: "dbl list"
  mi_score :: dbl
  mi_geometric :: dbl
  mi_marker :: string
  mi_intensity :: dbl
  mi_source :: string
  mi_season :: string
  mi_concept :: "string option"
  mi_understanding :: "string option"
  mi_reflection :: "string option"
  mi_created_at :: string
  mi_trigger :: bool
  mi_kind :: string
  mi_status :: string
  mi_protected :: bool
  mi_failed_gate :: "dbl option"
  mi_entered_fallout_at :: "string option"
  mi_reference_count :: int
  mi_floor :: "dbl option"
  mi_must_keep :: bool
  mi_last_referenced_at :: "string option"
  mi_decay_started_at :: "string option"

definition new_memory_item :: memory_item where
  "new_memory_item =
     \<lparr>mi_id = [], mi_narrative = [], mi_hemisphere = ''personal'', mi_coordinates = [], mi_score = Fin 0,
      mi_geometric = Fin 0, mi_marker = ''neutral'', mi_intensity = Fin (1/2), mi_source = [], mi_season = [],
      mi_concept = None, mi_understanding = None, mi_reflection = None, mi_created_at = [], mi_trigger = False,
      mi_kind = ''episodic'', mi_status = ''active'', mi_protected = False, mi_failed_gate = None,
      mi_entered_fallout_at = None, mi_reference_count = 0, mi_floor = None, mi_must_keep = False,
      mi_last_referenced_at = None, mi_decay_started_at = None\<rparr>"

record memory_item_row =
  mr_id :: string
  mr_hemisphere :: string
  mr_kind :: string
  mr_status :: string
  mr_narrative :: string
  mr_concept :: "string option"
  mr_understanding :: "string option"
  mr_score :: dbl
  mr_floor :: "dbl option"
  mr_must_keep :: bool
  mr_protected :: bool
  mr_marker :: string
  mr_intensity :: dbl
  mr_source :: string
  mr_season :: "string option"
  mr_coordinates :: "dbl list"
  mr_reference_count :: int
  mr_last_referenced_at :: "string option"
  mr_created_at :: "string option"
  mr_decay_started_at :: "string option"

record route_decision =
  rd_stage :: string
  rd_status :: string
  rd_protected :: bool
  rd_kind :: string

record maintenance_decision =
  md_score :: dbl
  md_status :: string
  md_decay_started_at :: "string option"
  md_log_entry :: "(string \<times> string \<times> string) option"

section \<open>The rules\<close>

definition value_or :: "'a option \<Rightarrow> 'a \<Rightarrow> 'a" where
  "value_or x d = (case x of Some v \<Rightarrow> v | None \<Rightarrow> d)"

definition encode_coordinates :: "string \<Rightarrow> dbl list" where
  "encode_coordinates narrative = encode narrative None"

definition geometric_for :: "(rat \<Rightarrow> dbl) \<Rightarrow> value_engine \<Rightarrow> dbl list \<Rightarrow> dbl option" where
  "geometric_for gd ve coords =
     (if length coords < DIMENSION_COUNT then Some (Fin 0) else
      let arr = take DIMENSION_COUNT coords in
      case contains gd (ve_polytope ve) arr of None \<Rightarrow> None | Some (aligned, _) \<Rightarrow>
      case alignment_score gd (ve_polytope ve) arr of None \<Rightarrow> None | Some a \<Rightarrow>
      Some (geometric_significance (Some a) (\<not> aligned) (if aligned then Aligned else Violation)))"

definition route_item :: "memory_item \<Rightarrow> route_decision" where
  "route_item item =
     (if dle FORMATION_LONG_TERM_BYPASS (mi_score item)
      then \<lparr>rd_stage = ''long_term'', rd_status = ''legacy'', rd_protected = True, rd_kind = ''identity''\<rparr>
      else if dle GATE_TO_LONG_TERM (mi_score item)
      then \<lparr>rd_stage = ''long_term'', rd_status = ''active'', rd_protected = False, rd_kind = ''episodic''\<rparr>
      else \<lparr>rd_stage = ''t1'', rd_status = [], rd_protected = False, rd_kind = ''episodic''\<rparr>)"

definition dot_product :: "dbl list \<Rightarrow> dbl list \<Rightarrow> dbl" where
  "dot_product a b = foldl (\<lambda>s (x, y). dadd s (dmul x y)) (Fin 0) (zip a b)"

definition missing :: "dbl list option \<Rightarrow> dbl list option \<Rightarrow> bool" where
  "missing a b \<longleftrightarrow> (case (a, b) of (Some x, Some y) \<Rightarrow> x = [] \<or> y = [] \<or> length x \<noteq> length y | _ \<Rightarrow> True)"

definition cosine :: "dbl list option \<Rightarrow> dbl list option \<Rightarrow> dbl" where
  "cosine a b =
     (if missing a b then Fin 0 else
      let denom = dmul (dsqrt (dot_product (the a) (the a))) (dsqrt (dot_product (the b) (the b)))
      in if deq denom (Fin 0) then Fin 0 else ddiv (dot_product (the a) (the b)) denom)"

definition ethical_similarity :: "dbl list option \<Rightarrow> dbl list option \<Rightarrow> dbl" where
  "ethical_similarity a b =
     (if missing a b then Fin 0 else
      let d = map (\<lambda>(x, y). dsub x y) (zip (the a) (the b))
      in ddiv (Fin 1) (dadd (Fin 1) (dsqrt (dot_product d d))))"

definition recall_score :: "dbl \<Rightarrow> dbl \<Rightarrow> dbl \<Rightarrow> dbl" where
  "recall_score importance semantic ethical =
     dadd (dadd (dmul importance RECALL_WEIGHT_IMPORTANCE) (dmul semantic RECALL_WEIGHT_SEMANTIC))
       (dmul ethical RECALL_WEIGHT_ETHICAL)"

definition given :: "string option \<Rightarrow> bool" where
  "given ts \<longleftrightarrow> ts \<noteq> None \<and> ts \<noteq> Some []"

definition reference_reward :: "int \<Rightarrow> dbl" where
  "reference_reward n =
     (if 25 \<le> n then dmax (Fin 0) (Fin 2) else if 10 \<le> n then dmax (Fin 0) (Fin (3/2))
      else if 3 \<le> n then dmax (Fin 0) (Fin 1) else Fin 0)"

definition maintenance_delta :: "int \<Rightarrow> string option \<Rightarrow> string option \<Rightarrow> int \<Rightarrow> dbl" where
  "maintenance_delta references last_referenced created now =
     (let delta = reference_reward references in
      clamp_delta
       (if given last_referenced then
          (case parse_iso last_referenced of
             None \<Rightarrow> delta
           | Some p \<Rightarrow> let days = days_between now p
                      in if dle (Fin 0) days \<and> dle days RECENT_REWARD_DAYS then dadd delta RECENT_REWARD else delta)
        else if given created then
          (case parse_iso created of
             None \<Rightarrow> delta
           | Some p \<Rightarrow> let age = days_between now p
                      in if dle (Fin 180) age then dmin delta (Fin (-2))
                         else if dle (Fin 90) age then dmin delta (Fin (-1)) else delta)
        else delta))"

definition crown_reason :: string where
  "crown_reason = ''Earned the crown - score rose to the legacy line''"
definition slip_reason :: string where
  "slip_reason = ''Slipped below the retention line - the subconscious slope begins''"
definition demote_reason :: string where
  "demote_reason = ''No longer earning the crown - slipped to the subconscious''"

text \<open>\<open>clock\<close> is the text \<^verbatim>\<open>now_iso\<close> gives while the rule runs; \<open>now\<close> is the time it is asked for.\<close>

definition apply_monthly :: "string \<Rightarrow> memory_item_row \<Rightarrow> int \<Rightarrow> maintenance_decision" where
  "apply_monthly clock row now =
     (let score = mr_score row;
          flr = (if mr_must_keep row then score else value_or (mr_floor row) (Fin 0));
          delta = maintenance_delta (mr_reference_count row) (mr_last_referenced_at row) (mr_created_at row) now;
          new_score = dial_adjust score delta flr
      in if dle LEGACY_ENTER new_score
         then \<lparr>md_score = new_score, md_status = ''legacy'', md_decay_started_at = None,
               md_log_entry = Some (''active'', ''legacy'', crown_reason)\<rparr>
         else if dless new_score SUBCONSCIOUS_LINE
         then \<lparr>md_score = new_score, md_status = ''subconscious'', md_decay_started_at = Some clock,
               md_log_entry = Some (''active'', ''subconscious'', slip_reason)\<rparr>
         else \<lparr>md_score = new_score, md_status = ''active'', md_decay_started_at = None, md_log_entry = None\<rparr>)"

definition kSlopeLambda :: "(dbl \<Rightarrow> dbl) \<Rightarrow> dbl" where
  "kSlopeLambda lg = ddiv (lg (Fin 2)) SLOPE_HALF_LIFE_DAYS"

definition later :: "int option \<Rightarrow> int option \<Rightarrow> int option" where
  "later anchor t =
     (case t of None \<Rightarrow> anchor
      | Some x \<Rightarrow> (case anchor of None \<Rightarrow> Some x | Some a \<Rightarrow> if a < x then Some x else Some a))"

definition slope_anchor :: "memory_item_row \<Rightarrow> int option" where
  "slope_anchor row =
     later (later (parse_iso (mr_decay_started_at row)) (parse_iso (mr_last_referenced_at row)))
       (parse_iso (mr_created_at row))"

definition slope_effective :: "(dbl \<Rightarrow> dbl) \<Rightarrow> (dbl \<Rightarrow> dbl) \<Rightarrow> memory_item_row \<Rightarrow> int \<Rightarrow> dbl \<times> bool" where
  "slope_effective ex lg row now =
     (case slope_anchor row of
        None \<Rightarrow> (mr_score row, False)
      | Some anchor \<Rightarrow>
          let idle_days = days_between now anchor in
          if dle SLOPE_GONE_DAYS idle_days then (Fin 0, True) else
          let effective = dmul (mr_score row) (ex (dmul (dneg (kSlopeLambda lg)) idle_days)) in
          if dless effective GONE_LINE then (Fin 0, True)
          else (dmax effective (value_or (mr_floor row) (Fin 0)), False))"

definition apply_legacy_review :: "string \<Rightarrow> memory_item_row \<Rightarrow> int \<Rightarrow> maintenance_decision" where
  "apply_legacy_review clock row now =
     (let score = mr_score row;
          flr = (if mr_must_keep row then score else value_or (mr_floor row) (Fin 0));
          delta = maintenance_delta (mr_reference_count row) (mr_last_referenced_at row) (mr_created_at row) now
      in if mr_protected row
         then \<lparr>md_score = dial_adjust score delta flr, md_status = ''legacy'', md_decay_started_at = None, md_log_entry = None\<rparr>
         else let new_score = dial_adjust score delta (Fin 0)
              in if dless new_score LEGACY_FLOOR
                 then \<lparr>md_score = new_score, md_status = ''subconscious'', md_decay_started_at = Some clock,
                       md_log_entry = Some (''legacy'', ''subconscious'', demote_reason)\<rparr>
                 else \<lparr>md_score = new_score, md_status = ''legacy'', md_decay_started_at = None, md_log_entry = None\<rparr>)"

section \<open>What the rules compute\<close>

text \<open>What the slope relies on of \<^verbatim>\<open>std::exp\<close> and \<^verbatim>\<open>std::log\<close>.\<close>

locale libm =
  fixes ex lg :: "dbl \<Rightarrow> dbl"
  assumes lg_2: "\<exists>q. lg (Fin 2) = Fin q \<and> 0 < q \<and> q \<le> 1"
    and ex_range: "q \<le> 0 \<Longrightarrow> \<exists>r. ex (Fin q) = Fin r \<and> 0 \<le> r \<and> r \<le> 1"
begin

lemma lambda_range: "\<exists>l. kSlopeLambda lg = Fin l \<and> 0 \<le> l \<and> l \<le> 1"
proof -
  obtain q where q: "lg (Fin 2) = Fin q" "0 < q" "q \<le> 1" using lg_2 by blast
  have "0 \<le> q / 200" "q / 200 \<le> 1" using q by simp_all
  then show ?thesis using le3_rnd[of "q / 200" "q / 200" 1] by (auto simp: kSlopeLambda_def SLOPE_HALF_LIFE_DAYS_def q(1) le3_def)
qed

end

text \<open>A series for both, good enough to compute with.\<close>

fun exp_series :: "nat \<Rightarrow> rat \<Rightarrow> rat \<Rightarrow> rat" where
  "exp_series 0 q i = 1"
| "exp_series (Suc n) q i = 1 + q / i * exp_series n q (i + 1)"

definition series_exp :: "dbl \<Rightarrow> dbl" where
  "series_exp v =
     (case v of Fin q \<Rightarrow> (if q \<le> 0 then rnd (1 / exp_series 30 (- q) 1) else rnd (exp_series 30 q 1))
      | PInf \<Rightarrow> PInf | NInf \<Rightarrow> Fin 0 | NaN \<Rightarrow> NaN)"

definition series_log :: "dbl \<Rightarrow> dbl" where
  "series_log v = (if v = Fin 2 then lit (6931471805599453 / 10 ^ 16) else NaN)"

lemma exp_series_ge_1: "0 \<le> q \<Longrightarrow> 0 < i \<Longrightarrow> 1 \<le> exp_series n q i"
proof (induction n arbitrary: i)
  case (Suc n)
  then have "1 \<le> exp_series n q (i + 1)" by simp
  then have "0 \<le> q / i * exp_series n q (i + 1)" using Suc.prems by (intro mult_nonneg_nonneg) auto
  then show ?case by simp
qed simp

interpretation series: libm series_exp series_log
proof
  show "\<exists>q. series_log (Fin 2) = Fin q \<and> 0 < q \<and> q \<le> 1"
  proof -
    have "rep (1/2)" by (rule repI[of _ 1 "-1"]) (simp_all add: power_int_minus)
    then have "\<exists>q. rnd (6931471805599453 / 10 ^ 16) = Fin q \<and> 1/2 \<le> q \<and> q \<le> 1"
      using rnd_between[of "1/2" 1 "6931471805599453 / 10 ^ 16"] dbl_limit_big by simp
    then obtain q where "rnd (6931471805599453 / 10 ^ 16) = Fin q" "1/2 \<le> q" "q \<le> 1" by blast
    then show ?thesis by (auto simp: series_log_def)
  qed
  show "\<exists>r. series_exp (Fin q) = Fin r \<and> 0 \<le> r \<and> r \<le> 1" if "q \<le> 0" for q
  proof -
    have "1 \<le> exp_series 30 (- q) 1" using that by (intro exp_series_ge_1) auto
    then have "0 \<le> 1 / exp_series 30 (- q) 1" "1 / exp_series 30 (- q) 1 \<le> 1" by simp_all
    then show ?thesis using le3_rnd[of "1 / exp_series 30 (- q) 1" "1 / exp_series 30 (- q) 1" 1] that
      by (auto simp: series_exp_def le3_def simp del: exp_series.simps)
  qed
qed

text \<open>Whole days are counted exactly enough: the rounding never crosses a whole number of days.\<close>

lemma rep_days: "0 \<le> k \<Longrightarrow> k \<le> 50000 \<Longrightarrow> rep (of_int (k * 86400000000000))"
  by (rule repI[of _ "k * 168750000000" 9]) simp_all

lemma rnd_ge: "rep b \<Longrightarrow> 0 \<le> b \<Longrightarrow> b \<le> q \<Longrightarrow> dle (Fin b) (rnd q)"
  using round_rat_ge[of b q] by (auto simp: rnd_def Let_def dle_def deq_def dbl_limit_def)

lemma ddiv_ge: "dle (Fin (m * c)) x \<Longrightarrow> rep m \<Longrightarrow> 0 \<le> m \<Longrightarrow> 0 < c \<Longrightarrow> dle (Fin m) (ddiv x (Fin c))"
  using rnd_ge[of m] by (cases x) (auto simp: field_simps, auto simp: dle_def deq_def)

lemma days_between_ge:
  assumes "0 \<le> k" "k \<le> 50000" "k * 86400000000000 \<le> a - b"
  shows "dle (Fin (of_int k)) (days_between a b)"
proof -
  have r: "rep (of_int k)" using assms(1,2) by (intro rep_of_int) simp
  have "rep (of_int (k * 86400))" using assms(1,2) by (intro rep_of_int) simp
  then have r2: "rep (of_int k * 86400)" by simp
  have "of_int (k * 86400000000000) \<le> (of_int (a - b) :: rat)" using assms(3) by (simp only: of_int_le_iff)
  with rep_days[OF assms(1,2)] have "dle (Fin (of_int (k * 86400000000000))) (rnd (of_int (a - b)))"
    by (intro rnd_ge) (use assms(1) in simp_all)
  then have "dle (Fin (of_int k * 86400 * 1000000000)) (rnd (of_int (a - b)))" by (simp add: mult.commute)
  then have "dle (Fin (of_int k * 86400)) (ddiv (rnd (of_int (a - b))) (Fin 1000000000))"
    using ddiv_ge[OF _ r2] assms(1) by simp
  then show ?thesis unfolding days_between_def using ddiv_ge[OF _ r, of 86400] assms(1) by simp
qed

text \<open>A clock that has not run backwards gives a number of days that is not negative.\<close>

lemma days_between_nonneg: "b \<le> a \<Longrightarrow> dle (Fin 0) (days_between a b)"
  using days_between_ge[of 0 a b] by simp

subsection \<open>The monthly change\<close>

definition deltas :: "rat set" where
  "deltas = {-2, -1, 0, 1/2, 1, 3/2, 2, 5/2}"

lemma clamp_deltas: "d \<in> deltas \<Longrightarrow> clamp_delta (Fin d) = Fin d"
  by (auto simp: deltas_def clamp_delta_def DELTA_MIN_def DELTA_MAX_def dclamp_def)

lemma reference_reward_values: "\<exists>d\<in>{0, 1, 3/2, 2}. reference_reward n = Fin d"
  by (simp add: reference_reward_def dmax_def)

lemma halves: "rnd (1/2) = Fin (1/2)" "rnd (3/2) = Fin (3/2)" "rnd (5/2) = Fin (5/2)"
proof -
  have r: "rnd (of_int m / 2) = Fin (of_int m / 2)" if "\<bar>m\<bar> \<le> 5" for m
  proof (rule rnd_fix)
    show "rep (of_int m / 2)" by (rule repI[of _ m "-1"]) (use that in \<open>simp_all add: power_int_minus\<close>)
    have "\<bar>of_int m / 2 :: rat\<bar> \<le> 5" using that by (simp add: abs_le_iff)
    then show "\<bar>of_int m / 2 :: rat\<bar> < dbl_limit" using dbl_limit_big by simp
  qed
  show "rnd (1/2) = Fin (1/2)" "rnd (3/2) = Fin (3/2)" "rnd (5/2) = Fin (5/2)" using r[of 1] r[of 3] r[of 5] by simp_all
qed

lemma maintenance_delta_values:
  "\<exists>d\<in>deltas. maintenance_delta n l c now = Fin d \<and> (given l \<longrightarrow> 0 \<le> d)"
proof -
  obtain d where d: "d \<in> {0, 1, 3/2, 2}" "reference_reward n = Fin d" using reference_reward_values by blast
  have w: "dadd (Fin 0) RECENT_REWARD = Fin (1/2)" "dadd (Fin 1) RECENT_REWARD = Fin (3/2)"
    "dadd (Fin (3/2)) RECENT_REWARD = Fin 2" "dadd (Fin 2) RECENT_REWARD = Fin (5/2)"
    by (simp_all add: RECENT_REWARD_def halves)
  have e: "\<exists>e\<in>deltas. dadd (Fin d) RECENT_REWARD = Fin e \<and> 0 \<le> e"
  proof -
    consider "d = 0" | "d = 1" | "d = 3/2" | "d = 2" using d(1) by auto
    then show ?thesis
    proof cases
      case 1 show ?thesis unfolding 1 w by (simp add: deltas_def)
    next
      case 2 show ?thesis unfolding 2 w by (simp add: deltas_def)
    next
      case 3 show ?thesis unfolding 3 w by (simp add: deltas_def)
    next
      case 4 show ?thesis unfolding 4 w by (rule bexI[of _ "5/2"]) (simp_all add: deltas_def)
    qed
  qed
  have m: "\<exists>e\<in>deltas. dmin (Fin d) (Fin (-2)) = Fin e" "\<exists>e\<in>deltas. dmin (Fin d) (Fin (-1)) = Fin e"
    "d \<in> deltas" "0 \<le> d"
    using d(1) by (auto simp: dmin_def deltas_def)
  from e m show ?thesis
    by (auto simp: maintenance_delta_def d(2) Let_def clamp_deltas split: option.splits; metis clamp_deltas)
qed

lemma dial_deltas:
  assumes "\<bar>s\<bar> \<le> 1000" "d \<in> deltas"
  shows "dial_adjust (Fin s) (Fin d) (Fin f) = Fin (max f (round_rat (s + d)))"
    "0 \<le> d \<Longrightarrow> rep s \<Longrightarrow> s \<le> round_rat (s + d)"
proof -
  have "\<bar>s + d\<bar> \<le> 1003" using assms by (auto simp: deltas_def)
  then obtain r where "rnd (s + d) = Fin r" using rnd_close[of "s + d"] by auto
  then have "rnd (s + d) = Fin (round_rat (s + d))" by (auto simp: rnd_def Let_def split: if_splits)
  then show "dial_adjust (Fin s) (Fin d) (Fin f) = Fin (max f (round_rat (s + d)))"
    by (simp add: dial_adjust_def clamp_deltas[OF assms(2)] dmax_def max_def)
  show "s \<le> round_rat (s + d)" if "0 \<le> d" "rep s" using that by (intro round_rat_ge) simp_all
qed

subsection \<open>Reviews\<close>

definition small_row :: "memory_item_row \<Rightarrow> rat \<Rightarrow> rat \<Rightarrow> bool" where
  "small_row row s f \<longleftrightarrow> mr_score row = Fin s \<and> rep s \<and> 0 \<le> s \<and> s \<le> 1000 \<and>
     (if mr_must_keep row then f = s else value_or (mr_floor row) (Fin 0) = Fin f)"

lemma small_rowD:
  assumes "small_row row s f"
  obtains d where "maintenance_delta (mr_reference_count row) (mr_last_referenced_at row) (mr_created_at row) now = Fin d"
    "d \<in> deltas" "given (mr_last_referenced_at row) \<longrightarrow> 0 \<le> d"
    "dial_adjust (mr_score row) (Fin d) (Fin f) = Fin (max f (round_rat (s + d)))"
    "dial_adjust (mr_score row) (Fin d) (Fin 0) = Fin (max 0 (round_rat (s + d)))"
    "0 \<le> d \<longrightarrow> s \<le> round_rat (s + d)"
proof -
  obtain d where d: "d \<in> deltas" "given (mr_last_referenced_at row) \<longrightarrow> 0 \<le> d"
    "maintenance_delta (mr_reference_count row) (mr_last_referenced_at row) (mr_created_at row) now = Fin d"
    using maintenance_delta_values[of "mr_reference_count row" "mr_last_referenced_at row" "mr_created_at row" now] by blast
  have s: "\<bar>s\<bar> \<le> 1000" "mr_score row = Fin s" "rep s" using assms by (simp_all add: small_row_def)
  show thesis by (rule that[OF d(3,1,2)]) (simp_all add: s dial_deltas[OF s(1) d(1)])
qed

text \<open>
  the monthly review in full: the new score is the old one plus one of eight fixed changes
  between \<open>-2\<close> and \<open>5/2\<close>, rounded once and held at the floor; a memory that was returned to never
  loses, a memory marked to keep never falls; the status follows the new score alone, from 9.5 up
  the legacy, below 4 the subconscious, and exactly the items that leave the active status are
  logged, with the decay clock started exactly for the subconscious ones.
\<close>

theorem monthly_review:
  assumes "small_row row s f"
  shows "\<exists>d n. d \<in> deltas \<and> md_score (apply_monthly clock row now) = Fin n \<and> n = max f (round_rat (s + d))
     \<and> (given (mr_last_referenced_at row) \<or> mr_must_keep row \<longrightarrow> s \<le> n)
     \<and> md_status (apply_monthly clock row now) = (if 19/2 \<le> n then ''legacy'' else if n < 4 then ''subconscious'' else ''active'')
     \<and> (md_log_entry (apply_monthly clock row now) = None \<longleftrightarrow> md_status (apply_monthly clock row now) = ''active'')
     \<and> md_decay_started_at (apply_monthly clock row now) = (if n < 4 then Some clock else None)"
proof -
  obtain d where d: "maintenance_delta (mr_reference_count row) (mr_last_referenced_at row) (mr_created_at row) now = Fin d"
    "d \<in> deltas" "given (mr_last_referenced_at row) \<longrightarrow> 0 \<le> d"
    "dial_adjust (mr_score row) (Fin d) (Fin f) = Fin (max f (round_rat (s + d)))"
    "0 \<le> d \<longrightarrow> s \<le> round_rat (s + d)"
    using small_rowD[OF assms] by metis
  have fl: "(if mr_must_keep row then mr_score row else value_or (mr_floor row) (Fin 0)) = Fin f"
    using assms by (auto simp: small_row_def)
  show ?thesis
    by (rule exI[of _ d], rule exI[of _ "max f (round_rat (s + d))"])
      (use d assms in \<open>auto simp: apply_monthly_def Let_def fl LEGACY_ENTER_def SUBCONSCIOUS_LINE_def small_row_def\<close>)
qed

definition sample_row :: "dbl \<Rightarrow> bool \<Rightarrow> bool \<Rightarrow> memory_item_row" where
  "sample_row score keep crowned =
     \<lparr>mr_id = ''m-1'', mr_hemisphere = ''personal'', mr_kind = ''episodic'', mr_status = ''active'', mr_narrative = ''a walk'',
      mr_concept = None, mr_understanding = None, mr_score = score, mr_floor = None, mr_must_keep = keep,
      mr_protected = crowned, mr_marker = ''neutral'', mr_intensity = Fin (1/2), mr_source = ''reflection'', mr_season = None,
      mr_coordinates = [], mr_reference_count = 0, mr_last_referenced_at = None, mr_created_at = None,
      mr_decay_started_at = None\<rparr>"

lemma sample_row_sel [simp]:
  "mr_must_keep (sample_row x k c) = k" "mr_protected (sample_row x k c) = c" "mr_score (sample_row x k c) = x"
  "mr_floor (sample_row x k c) = None"
  by (simp_all add: sample_row_def)

theorem monthly_review_witness:
  "\<exists>d n. d \<in> deltas \<and> md_score (apply_monthly ''now'' (sample_row (Fin 3) True False) 0) = Fin n \<and> 3 \<le> n
     \<and> md_decay_started_at (apply_monthly ''now'' (sample_row (Fin 3) True False) 0) = (if n < 4 then Some ''now'' else None)"
proof -
  have "small_row (sample_row (Fin 3) True False) 3 3" by (simp add: small_row_def)
  from monthly_review[OF this, of "''now''" 0] show ?thesis unfolding sample_row_sel by blast
qed

text \<open>
  the yearly review in full: a protected memory keeps the legacy and its floor and is never
  logged; any other memory is moved by the same changes with no floor at all, not even that of a
  memory marked to keep, stays while it has 8 and goes to the subconscious below.
\<close>

theorem legacy_review_meaning:
  assumes "small_row row s f"
  shows "\<exists>d n. d \<in> deltas \<and> md_score (apply_legacy_review clock row now) = Fin n
     \<and> n = (if mr_protected row then max f (round_rat (s + d)) else max 0 (round_rat (s + d)))
     \<and> (given (mr_last_referenced_at row) \<or> mr_must_keep row \<and> mr_protected row \<longrightarrow> s \<le> n)
     \<and> md_status (apply_legacy_review clock row now) = (if mr_protected row \<or> 8 \<le> n then ''legacy'' else ''subconscious'')
     \<and> (md_log_entry (apply_legacy_review clock row now) = None \<longleftrightarrow> md_status (apply_legacy_review clock row now) = ''legacy'')"
proof -
  obtain d where d: "maintenance_delta (mr_reference_count row) (mr_last_referenced_at row) (mr_created_at row) now = Fin d"
    "d \<in> deltas" "given (mr_last_referenced_at row) \<longrightarrow> 0 \<le> d"
    "dial_adjust (mr_score row) (Fin d) (Fin f) = Fin (max f (round_rat (s + d)))"
    "dial_adjust (mr_score row) (Fin d) (Fin 0) = Fin (max 0 (round_rat (s + d)))"
    "0 \<le> d \<longrightarrow> s \<le> round_rat (s + d)"
    using small_rowD[OF assms] by metis
  have fl: "(if mr_must_keep row then mr_score row else value_or (mr_floor row) (Fin 0)) = Fin f"
    using assms by (auto simp: small_row_def)
  have keep: "mr_must_keep row \<longrightarrow> f = s" using assms by (simp add: small_row_def)
  show ?thesis
  proof (cases "mr_protected row")
    case True
    then show ?thesis
      by (intro exI[of _ d] exI[of _ "max f (round_rat (s + d))"])
        (use d(2-4,6) keep in \<open>auto simp: apply_legacy_review_def Let_def fl d(1)\<close>)
  next
    case False
    then show ?thesis
      by (intro exI[of _ d] exI[of _ "max 0 (round_rat (s + d))"])
        (use d(2,3,5,6) in \<open>auto simp: apply_legacy_review_def Let_def d(1) LEGACY_FLOOR_def\<close>)
  qed
qed

theorem legacy_review_meaning_witness:
  "\<exists>d n. d \<in> deltas \<and> md_score (apply_legacy_review ''now'' (sample_row (Fin 9) False True) 0) = Fin n
     \<and> n = max 0 (round_rat (9 + d)) \<and> md_status (apply_legacy_review ''now'' (sample_row (Fin 9) False True) 0) = ''legacy''"
proof -
  have "small_row (sample_row (Fin 9) False True) 9 0" by (simp add: small_row_def sample_row_def value_or_def)
  from legacy_review_meaning[OF this, of "''now''" 0] show ?thesis by fastforce
qed

subsection \<open>The subconscious slope\<close>

text \<open>
  the slope only takes: with a score of at most 1000 and a clock that is not behind the
  anchor, an item that survives keeps a number between one half and its old score or its floor,
  whichever is higher; an item that goes loses its whole score; after 730 days everything goes,
  whatever its score, its floor and its keep mark; and an item none of whose three timestamps can
  be read does not decay at all.
\<close>

theorem slope_only_takes:
  assumes "libm ex lg" and "mr_score row = Fin s" and "rep s" and "0 \<le> s" and "s \<le> 1000"
    and "value_or (mr_floor row) (Fin 0) = Fin f"
  shows "(slope_anchor row = None \<longrightarrow> slope_effective ex lg row now = (Fin s, False))
     \<and> (slope_anchor row = Some a \<and> a \<le> now \<longrightarrow>
          slope_effective ex lg row now = (Fin 0, True)
        \<or> (\<exists>e. slope_effective ex lg row now = (Fin e, False) \<and> 1/2 \<le> e \<and> f \<le> e \<and> e \<le> max s f))
     \<and> (slope_anchor row = Some a \<and> a + 730 * 86400000000000 \<le> now \<longrightarrow> slope_effective ex lg row now = (Fin 0, True))"
proof (intro conjI impI)
  assume "slope_anchor row = None"
  then show "slope_effective ex lg row now = (Fin s, False)" by (simp add: slope_effective_def assms(2))
next
  assume a: "slope_anchor row = Some a \<and> a + 730 * 86400000000000 \<le> now"
  then have "dle (Fin 730) (days_between now a)" using days_between_ge[of 730 now a] by simp
  with a show "slope_effective ex lg row now = (Fin 0, True)" by (simp add: slope_effective_def SLOPE_GONE_DAYS_def)
next
  assume a: "slope_anchor row = Some a \<and> a \<le> now"
  show "slope_effective ex lg row now = (Fin 0, True)
      \<or> (\<exists>e. slope_effective ex lg row now = (Fin e, False) \<and> 1/2 \<le> e \<and> f \<le> e \<and> e \<le> max s f)"
  proof (cases "dle SLOPE_GONE_DAYS (days_between now a)")
    case False
    have "dle (Fin 0) (days_between now a)" using a by (intro days_between_nonneg) simp
    with False obtain i where i: "days_between now a = Fin i" "0 \<le> i" "i < 730"
      by (cases "days_between now a") (auto simp: dle_def deq_def SLOPE_GONE_DAYS_def)
    obtain l where l: "kSlopeLambda lg = Fin l" "0 \<le> l" "l \<le> 1" using libm.lambda_range[OF assms(1)] by blast
    have "l * i \<le> 1 * 1000" using l i by (intro mult_mono) simp_all
    then have "le3 (rnd (l * i)) (rnd (l * i)) 1000" using l i by (intro le3_rnd) simp_all
    then obtain p where p: "rnd (l * i) = Fin p" "0 \<le> p" by (auto simp: le3_def)
    have "rnd (- (l * i)) = Fin (- p)"
      using p(1) round_rat_minus[of "l * i"] by (auto simp: rnd_def Let_def split: if_splits)
    then have x: "dmul (dneg (kSlopeLambda lg)) (days_between now a) = Fin (- p)" by (simp add: l i)
    obtain r where r: "ex (Fin (- p)) = Fin r" "0 \<le> r" "r \<le> 1" using libm.ex_range[OF assms(1), of "- p"] p by auto
    have "s * r \<le> s" "0 \<le> s * r" using r assms(4) mult_left_mono[of r 1 s] by simp_all
    then have e: "rnd (s * r) = Fin (round_rat (s * r))" "0 \<le> round_rat (s * r)" "round_rat (s * r) \<le> s"
      using rnd_between[OF rep_0 assms(3), of "s * r"] assms(5) dbl_limit_big by simp_all
    show ?thesis using a False e by (auto simp: slope_effective_def Let_def x assms(2,6) r(1) GONE_LINE_def dmax_def)
  qed (use a in \<open>simp add: slope_effective_def\<close>)
qed

lemma exp_series_0 [simp]: "exp_series n 0 i = 1"
  by (cases n) simp_all

lemma parse_iso_None: "parse_iso None = None"
  by (simp add: parse_iso_def)

theorem slope_only_takes_witness:
  "(\<exists>e. slope_effective series_exp series_log ((sample_row (Fin 8) True False)\<lparr>mr_created_at := Some ''2026-01-01T00:00:00Z''\<rparr>)
         1767225600000000000 = (Fin e, False) \<and> e \<le> 8)
   \<and> slope_effective series_exp series_log ((sample_row (Fin 8) True False)\<lparr>mr_created_at := Some ''2026-01-01T00:00:00Z''\<rparr>)
         1867225600000000000 = (Fin 0, True)"
proof -
  let ?row = "(sample_row (Fin 8) True False)\<lparr>mr_created_at := Some ''2026-01-01T00:00:00Z''\<rparr>"
  have n: "now_iso 1767225600 = ''2026-01-01T00:00:00Z''" by code_simp
  have "parse_iso (Some ''2026-01-01T00:00:00Z'') = Some 1767225600000000000"
    using parse_now[of 1767225600] by (simp add: n last_second_def)
  then have a: "slope_anchor ?row = Some 1767225600000000000"
    by (simp add: slope_anchor_def sample_row_def later_def parse_iso_None)
  have h: "mr_score ?row = Fin 8" "value_or (mr_floor ?row) (Fin 0) = Fin 0" by (simp_all add: sample_row_def value_or_def)
  note t = slope_only_takes[OF series.libm_axioms h(1) rep_numeral _ _ h(2), simplified a]
  have "days_between 1767225600000000000 1767225600000000000 = Fin 0" by (simp add: days_between_def)
  then have "\<not> snd (slope_effective series_exp series_log ?row 1767225600000000000)"
    using series.lambda_range h
    by (auto simp: slope_effective_def a SLOPE_GONE_DAYS_def series_exp_def GONE_LINE_def Let_def) 
  with t[of 1767225600000000000 1767225600000000000] t[of 1867225600000000000 1767225600000000000]
  show ?thesis by auto
qed

text \<open>
  a memory marked to keep is forgotten: one with a score of at most 1 goes to the subconscious at
  its next monthly review, whatever its references, its keep mark and its floor, and from then on
  there is an instant such that every maintenance at least 730 days later deletes it.
\<close>

theorem must_keep_is_forgotten:
  fixes now :: int
  assumes "small_row row s s" and "mr_must_keep row" and "s \<le> 1" and "parse_iso (Some clock) = Some c"
  defines "d \<equiv> apply_monthly clock row now"
  defines "row' \<equiv> row\<lparr>mr_score := md_score d, mr_status := md_status d, mr_decay_started_at := md_decay_started_at d\<rparr>"
  shows "mr_status row' = ''subconscious'' \<and> s \<le> val (mr_score row')
     \<and> (\<exists>a. \<forall>t \<ge> a + 730 * 86400000000000. slope_effective ex lg row' t = (Fin 0, True))"
proof -
  obtain e where e: "maintenance_delta (mr_reference_count row) (mr_last_referenced_at row) (mr_created_at row) now = Fin e"
    "e \<in> deltas" "dial_adjust (mr_score row) (Fin e) (Fin s) = Fin (max s (round_rat (s + e)))"
    using small_rowD[OF assms(1)] by metis
  have s: "mr_score row = Fin s" using assms(1) by (simp add: small_row_def)
  have "s + e \<le> 7/2" using e(2) assms(3) by (auto simp: deltas_def)
  moreover have "rep (7/2)" by (rule repI[of _ 7 "-1"]) (simp_all add: power_int_minus)
  ultimately have "round_rat (s + e) \<le> 7/2" by (rule round_rat_le)
  then have "max s (round_rat (s + e)) < 4" using assms(3) by simp
  then obtain n where m: "max s (round_rat (s + e)) = n" "n < 4" "s \<le> n" by fastforce
  have d: "md_status d = ''subconscious''" "md_score d = Fin n" "md_decay_started_at d = Some clock"
    using m assms(2) e(1,3) by (simp_all add: d_def apply_monthly_def Let_def s LEGACY_ENTER_def SUBCONSCIOUS_LINE_def)
  have "\<exists>a. slope_anchor row' = Some a"
    by (auto simp: slope_anchor_def row'_def d assms(4) later_def split: option.splits)
  then obtain a where a: "slope_anchor row' = Some a" by blast
  have "slope_effective ex lg row' t = (Fin 0, True)" if "a + 730 * 86400000000000 \<le> t" for t
    using days_between_ge[of 730 t a] that by (simp add: slope_effective_def a SLOPE_GONE_DAYS_def)
  then show ?thesis using m(3) by (auto simp: row'_def d)
qed

theorem must_keep_is_forgotten_witness:
  "\<exists>a. \<forall>t \<ge> a + 730 * 86400000000000.
     let d = apply_monthly (now_iso 0) (sample_row (Fin 1) True False) 0;
         row' = (sample_row (Fin 1) True False)\<lparr>mr_score := md_score d, mr_status := md_status d,
                  mr_decay_started_at := md_decay_started_at d\<rparr>
     in slope_effective series_exp series_log row' t = (Fin 0, True)"
proof -
  have "small_row (sample_row (Fin 1) True False) 1 1" by (simp add: small_row_def)
  moreover have "parse_iso (Some (now_iso 0)) = Some (0 * 1000000000)" by (rule parse_now) (simp_all add: last_second_def)
  ultimately show ?thesis
    using must_keep_is_forgotten[of "sample_row (Fin 1) True False" 1 "now_iso 0" "0 * 1000000000" 0 series_exp series_log]
    unfolding Let_def sample_row_sel by blast
qed

text \<open>
  the slope is taken again at every run: the decay is applied to a score that already carries
  it, from the same anchor, so a second maintenance at the same instant takes the same factor once
  more; when that factor is one half, a score of 8 is 4 after the first run and 2 after the second.
\<close>

theorem slope_compounds:
  assumes "slope_anchor row = Some a" and "dless (days_between now a) SLOPE_GONE_DAYS"
    and "ex (dmul (dneg (kSlopeLambda lg)) (days_between now a)) = Fin (1/2)"
    and "mr_score row = Fin 8" and "mr_floor row = None"
  shows "fst (slope_effective ex lg row now) = Fin 4
     \<and> fst (slope_effective ex lg (row\<lparr>mr_score := fst (slope_effective ex lg row now)\<rparr>) now) = Fin 2"
proof -
  have n: "\<not> dle SLOPE_GONE_DAYS (days_between now a)"
    using assms(2) by (cases "days_between now a") (auto simp: dle_def deq_def SLOPE_GONE_DAYS_def)
  have an: "slope_anchor (row\<lparr>mr_score := x\<rparr>) = Some a" for x using assms(1) by (simp add: slope_anchor_def)
  have e: "slope_effective ex lg (row\<lparr>mr_score := Fin x\<rparr>) now = (rnd (x * (1/2)), False)"
    if "rnd (x * (1/2)) = Fin y" "1/2 \<le> y" for x y
    using that by (simp add: slope_effective_def an n Let_def assms(3,5) GONE_LINE_def value_or_def dmax_def)
  have "row\<lparr>mr_score := Fin 8\<rparr> = row" using assms(4) by simp
  with e[of 8 4] e[of 4 2] show ?thesis by simp
qed

theorem slope_compounds_witness:
  "fst (slope_effective (\<lambda>_. Fin (1/2)) series_log
      ((sample_row (Fin 8) False False)\<lparr>mr_created_at := Some ''2026-01-01T00:00:00Z''\<rparr>) 1775865600000000000) = Fin 4"
proof -
  let ?row = "(sample_row (Fin 8) False False)\<lparr>mr_created_at := Some ''2026-01-01T00:00:00Z''\<rparr>"
  have n: "now_iso 1767225600 = ''2026-01-01T00:00:00Z''" by code_simp
  have "parse_iso (Some ''2026-01-01T00:00:00Z'') = Some 1767225600000000000"
    using parse_now[of 1767225600] by (simp add: n last_second_def)
  then have a: "slope_anchor ?row = Some 1767225600000000000"
    by (simp add: slope_anchor_def sample_row_def later_def parse_iso_None)
  have "days_between 1775865600000000000 1767225600000000000 = Fin 100" by (simp add: days_between_def)
  then show ?thesis using slope_compounds[OF a, of 1775865600000000000 "\<lambda>_. Fin (1/2)" series_log]
    by (simp add: SLOPE_GONE_DAYS_def sample_row_def)
qed

end
