(* ===== verification/Memory_Store.thy ===== *)
theory Memory_Store
  imports Memory_Rules
begin

text \<open>
  The storage interface \<^verbatim>\<open>MemoryStore\<close> of \<^verbatim>\<open>memory_module.hpp\<close>: one function per virtual method,
  over any type of states.  A method may throw; \<open>act\<close> is a state transformer that ends with a
  value or with an exception, and the combinators are sequencing, \<^verbatim>\<open>try\<close>/\<^verbatim>\<open>catch\<close> and the range
  \<^verbatim>\<open>for\<close>.  The locale \<open>tier_store\<close> is what the sweep relies on.
\<close>

section \<open>Actions on a store\<close>

datatype 'a outcome = Done 'a | Threw

type_synonym ('s, 'a) act = "'s \<Rightarrow> 's \<times> 'a outcome"

definition ret :: "'a \<Rightarrow> ('s, 'a) act" where
  "ret a s = (s, Done a)"

definition bind_act :: "('s, 'a) act \<Rightarrow> ('a \<Rightarrow> ('s, 'b) act) \<Rightarrow> ('s, 'b) act" where
  "bind_act m f s = (case m s of (s', Done a) \<Rightarrow> f a s' | (s', Threw) \<Rightarrow> (s', Threw))"

definition then_act :: "('s, 'a) act \<Rightarrow> ('s, 'b) act \<Rightarrow> ('s, 'b) act" where
  "then_act m n = bind_act m (\<lambda>_. n)"

definition try_act :: "('s, 'a) act \<Rightarrow> ('s, 'a) act \<Rightarrow> ('s, 'a) act" where
  "try_act m handler s = (case m s of (s', Threw) \<Rightarrow> handler s' | r \<Rightarrow> r)"

fun for_each :: "('a \<Rightarrow> 'b \<Rightarrow> ('s, 'b) act) \<Rightarrow> 'a list \<Rightarrow> 'b \<Rightarrow> ('s, 'b) act" where
  "for_each f [] acc = ret acc"
| "for_each f (x # xs) acc = bind_act (f x acc) (for_each f xs)"

lemma act_simps [simp]:
  "ret a s = (s, Done a)"
  "m s = (s', Done a) \<Longrightarrow> bind_act m f s = f a s'"
  "m s = (s', Threw) \<Longrightarrow> bind_act m f s = (s', Threw)"
  "m s = (s', Done a) \<Longrightarrow> then_act m n s = n s'"
  "m s = (s', Threw) \<Longrightarrow> then_act m n s = (s', Threw)"
  "m s = (s', Done a) \<Longrightarrow> try_act m h s = (s', Done a)"
  "m s = (s', Threw) \<Longrightarrow> try_act m h s = h s'"
  by (simp_all add: ret_def bind_act_def then_act_def try_act_def)

section \<open>The interface\<close>

record 's memory_store =
  op_store_tier :: "string \<Rightarrow> memory_item \<Rightarrow> ('s, unit) act"
  op_load_tier :: "string \<Rightarrow> string \<Rightarrow> ('s, memory_item option) act"
  op_delete_tier :: "string \<Rightarrow> string \<Rightarrow> ('s, unit) act"
  op_scan_tier :: "string \<Rightarrow> ('s, (string \<times> memory_item) list) act"
  op_has_tier :: "string \<Rightarrow> string \<Rightarrow> ('s, bool) act"
  op_store_long_term :: "memory_item \<Rightarrow> string \<Rightarrow> ('s, unit) act"
  op_fetch_by_status :: "string \<Rightarrow> ('s, memory_item_row list) act"
  op_update_item :: "memory_item_row \<Rightarrow> ('s, unit) act"
  op_delete_item :: "string \<Rightarrow> ('s, unit) act"
  op_log_promotion :: "string \<Rightarrow> string \<Rightarrow> string \<Rightarrow> dbl \<Rightarrow> string \<Rightarrow> ('s, unit) act"

definition printable :: "char \<Rightarrow> bool" where
  "printable c \<longleftrightarrow> 32 \<le> (of_char c :: nat) \<and> of_char c < (127 :: nat)"

definition stage_name :: "string \<Rightarrow> bool" where
  "stage_name t \<longleftrightarrow> list_all printable t \<and> length t \<le> 20"

text \<open>
  What the sweep relies on: the store holds every item in one place, reading changes nothing,
  storing moves the item (\<open>kept\<close> is what is read back of it, given what was there before), and
  deleting takes it out of the tier it names only.
\<close>

locale tier_store =
  fixes ops :: "'s memory_store"
    and place :: "'s \<Rightarrow> string \<Rightarrow> (string \<times> memory_item) option"
    and kept :: "memory_item option \<Rightarrow> memory_item \<Rightarrow> memory_item"
    and storable :: "memory_item \<Rightarrow> bool"
    and inv :: "'s \<Rightarrow> bool"
  assumes store_tier: "inv s \<Longrightarrow> storable i \<Longrightarrow>
        \<exists>s'. op_store_tier ops t i s = (s', Done ()) \<and> inv s'
           \<and> place s' = (place s)(mi_id i \<mapsto> (t, kept (map_option snd (place s (mi_id i))) i))"
    and store_long_term: "inv s \<Longrightarrow> storable i \<Longrightarrow>
        \<exists>s'. op_store_long_term ops i ''active'' s = (s', Done ()) \<and> inv s'
           \<and> place s' = (place s)(mi_id i \<mapsto>
                (''long_term'', kept (map_option snd (place s (mi_id i))) (i\<lparr>mi_status := ''active''\<rparr>)))"
    and delete_tier: "inv s \<Longrightarrow>
        \<exists>s'. op_delete_tier ops t k s = (s', Done ()) \<and> inv s'
           \<and> place s' = (if map_option fst (place s k) = Some t then (place s)(k := None) else place s)"
    and scan_tier: "inv s \<Longrightarrow>
        \<exists>xs. op_scan_tier ops t s = (s, Done xs) \<and> distinct (map fst xs)
           \<and> (\<forall>k i. (k, i) \<in> set xs \<longleftrightarrow> place s k = Some (t, i))"
    and log_promotion: "inv s \<Longrightarrow> storable i \<Longrightarrow> stage_name a \<Longrightarrow> stage_name b \<Longrightarrow> list_all printable r \<Longrightarrow>
        \<exists>s'. op_log_promotion ops (mi_id i) a b (mi_score i) r s = (s', Done ()) \<and> inv s' \<and> place s' = place s"
    and place_id: "inv s \<Longrightarrow> place s k = Some (t, i) \<Longrightarrow> mi_id i = k"
    and place_storable: "inv s \<Longrightarrow> place s k = Some (t, i) \<Longrightarrow> storable i"
    and storable_fallout: "storable i \<Longrightarrow> storable (i\<lparr>mi_failed_gate := g, mi_entered_fallout_at := e\<rparr>)"

end
