(* ===== verification/Memory_Module.thy ===== *)
theory Memory_Module
  imports Memory_Store Geometric_State "HOL-Library.Multiset"
begin

text \<open>
  The class \<^verbatim>\<open>MemoryModule\<close> of \<^verbatim>\<open>src/src/memory_module.cpp\<close>: formation, the trigger path, the sweep
  over the tiers, maintenance, the legacy review and recall.  The store is an argument, \<open>None\<close> for
  the null pointer; the clock of \<^verbatim>\<open>now_iso\<close> (seconds) and of \<^verbatim>\<open>system_clock::now\<close> (nanoseconds) and
  the random item ids are arguments as well.  A formation whose narrative stops the exact
  containment test ends in \<open>Threw\<close>, as does a method of the store that throws.
\<close>

section \<open>Counts\<close>

record sweep_counts =
  t1_to_t2 :: int
  t2_to_t3 :: int
  to_long_term :: int
  fallout_count :: int
  repurposed :: int
  purged :: int

record maintenance_counts =
  adjusted :: int
  to_subconscious :: int
  to_legacy :: int
  decayed :: int
  forgotten :: int

record review_counts =
  reviewed :: int
  demoted :: int

definition no_sweep :: sweep_counts where
  "no_sweep = \<lparr>t1_to_t2 = 0, t2_to_t3 = 0, to_long_term = 0, fallout_count = 0, repurposed = 0, purged = 0\<rparr>"
definition no_maintenance :: maintenance_counts where
  "no_maintenance = \<lparr>adjusted = 0, to_subconscious = 0, to_legacy = 0, decayed = 0, forgotten = 0\<rparr>"
definition no_review :: review_counts where
  "no_review = \<lparr>reviewed = 0, demoted = 0\<rparr>"

section \<open>Formation\<close>

type_synonym factors = "(string \<times> dbl) list"

definition get_factor :: "factors \<Rightarrow> string \<Rightarrow> dbl \<Rightarrow> dbl" where
  "get_factor fs key d = value_or (map_of fs key) d"

definition markers :: "string list" where
  "markers = [''curiosity'', ''concern'', ''satisfaction'', ''discovery'', ''honesty'', ''delight'',
              ''uncertainty'', ''care'', ''neutral'']"

text \<open>
  \<^verbatim>\<open>static_cast<int>\<close> of the factor: truncation toward zero.  Outside the range of \<^verbatim>\<open>int\<close> the cast has
  no defined value in the language; the processors the program runs on give the least \<^verbatim>\<open>int\<close>, which
  names no marker.
\<close>

definition to_int :: "dbl \<Rightarrow> int" where
  "to_int v = (case v of
     Fin q \<Rightarrow> (let t = (if 0 \<le> q then \<lfloor>q\<rfloor> else - \<lfloor>- q\<rfloor>)
              in if - (2 ^ 31) \<le> t \<and> t < 2 ^ 31 then t else - (2 ^ 31))
   | _ \<Rightarrow> - (2 ^ 31))"

definition emotional_marker_of :: "factors \<Rightarrow> string" where
  "emotional_marker_of fs =
     (case map_of fs ''emotional_marker'' of
        None \<Rightarrow> ''neutral''
      | Some v \<Rightarrow> let idx = to_int v in if 0 \<le> idx \<and> idx < 9 then markers ! nat idx else ''neutral'')"

definition crown_texts :: "factors \<Rightarrow> memory_item \<Rightarrow> memory_item" where
  "crown_texts fs item =
     (case map_of fs ''reflection'' of
        Some r \<Rightarrow>
          if dle FORMATION_LONG_TERM_BYPASS (mi_score item) then
            item\<lparr>mi_reflection := Some (string_of_double r),
                 mi_understanding := Some
                   (case map_of fs ''what_changed'' of
                      Some c \<Rightarrow> string_of_double r @ newline @ newline @ ''What changed: '' @ string_of_double c
                    | None \<Rightarrow> string_of_double r)\<rparr>
          else item
      | None \<Rightarrow> item)"

definition build_item ::
  "(rat \<Rightarrow> dbl) \<Rightarrow> value_engine \<Rightarrow> string \<Rightarrow> string \<Rightarrow> string \<Rightarrow> factors \<Rightarrow> string \<Rightarrow> string option \<Rightarrow> bool
     \<Rightarrow> memory_item option" where
  "build_item gd ve fresh_id clock narrative fs source seas trigger =
     (let coords = encode_coordinates narrative in
      case geometric_for gd ve coords of None \<Rightarrow> None | Some geo \<Rightarrow>
      let scored = score_memory (get_factor fs ''emotional_weight'' (Fin 0)) (get_factor fs ''relational_significance'' (Fin 0))
                     (get_factor fs ''identity_significance'' (Fin 0)) geo (get_factor fs ''emotional_intensity'' (Fin (1/2)));
          importance = (if trigger then dmax scored TRIGGER_RETENTION_FLOOR else scored);
          item = new_memory_item\<lparr>mi_id := fresh_id, mi_narrative := narrative, mi_hemisphere := ''personal'',
                   mi_source := source, mi_season := value_or seas [], mi_created_at := clock, mi_trigger := trigger,
                   mi_coordinates := coords, mi_geometric := geo, mi_marker := emotional_marker_of fs,
                   mi_intensity := get_factor fs ''emotional_intensity'' (Fin (1/2)), mi_score := importance\<rparr>;
          item1 = crown_texts fs item
      in Some (case map_of fs ''concept'' of
                 Some c \<Rightarrow> item1\<lparr>mi_concept := Some (string_of_double c)\<rparr> | None \<Rightarrow> item1))"

definition moment_factors :: "memory_item \<Rightarrow> factors" where
  "moment_factors moment =
     [(''emotional_weight'', mi_score moment), (''relational_significance'', Fin 0),
      (''identity_significance'', Fin 0), (''emotional_intensity'', mi_intensity moment)]"

text \<open>One moment of \<^verbatim>\<open>form_items\<close>; the counts are tier one, long term and crowns.\<close>

definition form_one ::
  "(rat \<Rightarrow> dbl) \<Rightarrow> value_engine \<Rightarrow> 's memory_store option \<Rightarrow> string \<Rightarrow> string \<Rightarrow> string option \<Rightarrow> bool
     \<Rightarrow> string \<times> memory_item \<Rightarrow> int \<times> int \<times> int \<Rightarrow> ('s, int \<times> int \<times> int) act" where
  "form_one gd ve store clock source seas trigger idm counts s =
     (let (fresh_id, moment) = idm; (t1, lt, crown) = counts in
      if mi_narrative moment = [] then ret counts s else
      case build_item gd ve fresh_id clock (mi_narrative moment) (moment_factors moment) source seas trigger of
        None \<Rightarrow> (s, Threw)
      | Some item \<Rightarrow>
          let route = route_item item in
          (case store of
             None \<Rightarrow> ret counts s
           | Some ops \<Rightarrow>
               if rd_stage route = ''t1''
               then then_act (op_store_tier ops ''t1'' item) (ret (t1 + 1, lt, crown)) s
               else then_act (op_store_long_term ops item (rd_status route))
                      (ret (t1, lt + 1, if rd_protected route then crown + 1 else crown)) s))"

definition form_items ::
  "(rat \<Rightarrow> dbl) \<Rightarrow> value_engine \<Rightarrow> 's memory_store option \<Rightarrow> string \<Rightarrow> (string \<times> memory_item) list
     \<Rightarrow> string \<Rightarrow> string option \<Rightarrow> bool \<Rightarrow> ('s, int \<times> int \<times> int) act" where
  "form_items gd ve store clock moments source seas trigger =
     for_each (form_one gd ve store clock source seas trigger) moments (0, 0, 0)"

definition trim :: "string \<Rightarrow> string" where
  "trim s = rev (dropWhile is_space (rev (dropWhile is_space s)))"

definition default_factors :: factors where
  "default_factors =
     [(''emotional_marker'', Fin 7), (''emotional_intensity'', Fin (1/2)), (''emotional_weight'', Fin 5),
      (''relational_significance'', Fin 5), (''identity_significance'', Fin 3)]"

definition ingest_trigger ::
  "(rat \<Rightarrow> dbl) \<Rightarrow> value_engine \<Rightarrow> 's memory_store option \<Rightarrow> string \<Rightarrow> string \<Rightarrow> string \<Rightarrow> string \<Rightarrow> string option
     \<Rightarrow> factors option \<Rightarrow> ('s, memory_item option) act" where
  "ingest_trigger gd ve store fresh_id clock narrative kind seas fs s =
     (let trimmed = trim narrative in
      if trimmed = [] then ret None s else
      case store of None \<Rightarrow> ret None s | Some ops \<Rightarrow>
      case build_item gd ve fresh_id clock trimmed (value_or fs default_factors) kind seas True of
        None \<Rightarrow> (s, Threw)
      | Some item \<Rightarrow>
          let route = route_item item in
          then_act (op_store_long_term ops item (rd_status route))
           (then_act (op_log_promotion ops (mi_id item) ''formation'' (rd_status route) (mi_score item)
                        (''Triggered - score '' @ string_of_double (mi_score item)))
              (ret (Some item))) s)"

section \<open>The sweep\<close>

definition promote_reason :: "dbl \<Rightarrow> dbl \<Rightarrow> string" where
  "promote_reason score gate =
     ''Sweep - score '' @ string_of_double score @ '' >= gate '' @ string_of_double gate"

definition permanence_reason :: "dbl \<Rightarrow> string" where
  "permanence_reason score = ''48h sweep - score '' @ string_of_double score @ '' (earned permanence)''"

definition repurposed_reason :: "dbl \<Rightarrow> dbl \<Rightarrow> string" where
  "repurposed_reason score gate =
     ''Repurposed - score '' @ string_of_double score @ '' >= gate '' @ string_of_double gate"

text \<open>One item of the snapshot of tier number \<open>ti\<close>.\<close>

definition sweep_item ::
  "'s memory_store \<Rightarrow> string \<Rightarrow> nat \<Rightarrow> string \<times> memory_item \<Rightarrow> sweep_counts \<Rightarrow> ('s, sweep_counts) act" where
  "sweep_item ops clock ti ki counts =
     (let item = snd ki; tier = TIER_NAMES ! ti; gate = TIER_GATES ! ti; score = mi_score item in
      if dle gate score then
        (if tier = ''t3'' then
           try_act
             (then_act (op_store_long_term ops item ''active'')
               (then_act (op_log_promotion ops (mi_id item) ''t3'' ''active'' score (permanence_reason score))
                 (then_act (op_delete_tier ops ''t3'' (mi_id item))
                   (ret (counts\<lparr>to_long_term := to_long_term counts + 1\<rparr>)))))
             (then_act (op_delete_tier ops ''t3'' (mi_id item)) (ret (counts\<lparr>purged := purged counts + 1\<rparr>)))
         else
           (let next_tier = TIER_NAMES ! (ti + 1) in
            then_act (op_store_tier ops next_tier item)
             (then_act (op_delete_tier ops tier (mi_id item))
               (then_act (op_log_promotion ops (mi_id item) tier next_tier score (promote_reason score gate))
                 (ret (if tier = ''t1'' then counts\<lparr>t1_to_t2 := t1_to_t2 counts + 1\<rparr>
                       else if tier = ''t2'' then counts\<lparr>t2_to_t3 := t2_to_t3 counts + 1\<rparr> else counts))))))
      else
        (let fallen = item\<lparr>mi_failed_gate := Some gate, mi_entered_fallout_at := Some clock\<rparr> in
         then_act (op_store_tier ops ''fallout'' fallen)
          (then_act (op_delete_tier ops tier (mi_id item))
            (ret (counts\<lparr>fallout_count := fallout_count counts + 1\<rparr>)))))"

definition in_grace :: "int \<Rightarrow> memory_item \<Rightarrow> bool" where
  "in_grace now item =
     (case parse_iso (mi_entered_fallout_at item) of
        None \<Rightarrow> False
      | Some entered \<Rightarrow> dless (days_between now entered) (ddiv FALLOUT_RETENTION_HOURS (Fin 24)))"

definition fallout_item ::
  "'s memory_store \<Rightarrow> int \<Rightarrow> string \<times> memory_item \<Rightarrow> sweep_counts \<Rightarrow> ('s, sweep_counts) act" where
  "fallout_item ops now ki counts =
     (let item = snd ki; gate = value_or (mi_failed_gate item) GATE_T1_TO_T2; score = mi_score item in
      if in_grace now item then ret counts
      else if dle gate score then
        then_act (op_store_tier ops ''t1'' item)
         (then_act (op_delete_tier ops ''fallout'' (mi_id item))
           (then_act (op_log_promotion ops (mi_id item) ''fallout'' ''t1'' score (repurposed_reason score gate))
             (ret (counts\<lparr>repurposed := repurposed counts + 1\<rparr>))))
      else then_act (op_delete_tier ops ''fallout'' (mi_id item)) (ret (counts\<lparr>purged := purged counts + 1\<rparr>)))"

definition run_sweep :: "'s memory_store option \<Rightarrow> string \<Rightarrow> int \<Rightarrow> ('s, sweep_counts) act" where
  "run_sweep store clock now =
     (case store of None \<Rightarrow> ret no_sweep | Some ops \<Rightarrow>
      bind_act (op_scan_tier ops ''t1'') (\<lambda>items1.
      bind_act (op_scan_tier ops ''t2'') (\<lambda>items2.
      bind_act (op_scan_tier ops ''t3'') (\<lambda>items3.
      bind_act (op_scan_tier ops ''fallout'') (\<lambda>fallen.
      bind_act (for_each (sweep_item ops clock 0) items1 no_sweep) (\<lambda>c1.
      bind_act (for_each (sweep_item ops clock 1) items2 c1) (\<lambda>c2.
      bind_act (for_each (sweep_item ops clock 2) items3 c2) (\<lambda>c3.
      for_each (fallout_item ops now) fallen c3))))))))"

section \<open>Maintenance\<close>

definition decided :: "memory_item_row \<Rightarrow> maintenance_decision \<Rightarrow> memory_item_row" where
  "decided row d = row\<lparr>mr_score := md_score d, mr_status := md_status d, mr_decay_started_at := md_decay_started_at d\<rparr>"

definition log_decision :: "'s memory_store \<Rightarrow> memory_item_row \<Rightarrow> maintenance_decision \<Rightarrow> ('s, unit) act" where
  "log_decision ops row d =
     (case md_log_entry d of
        None \<Rightarrow> ret ()
      | Some (from_s, to_s, reason) \<Rightarrow> op_log_promotion ops (mr_id row) from_s to_s (md_score d) reason)"

definition maintain_active ::
  "'s memory_store \<Rightarrow> string \<Rightarrow> int \<Rightarrow> memory_item_row \<Rightarrow> maintenance_counts \<Rightarrow> ('s, maintenance_counts) act" where
  "maintain_active ops clock now row counts =
     (let d = apply_monthly clock row now;
          counted = (case md_log_entry d of
             None \<Rightarrow> counts
           | Some (_, to_s, _) \<Rightarrow>
               if to_s = ''subconscious'' then counts\<lparr>to_subconscious := to_subconscious counts + 1\<rparr>
               else counts\<lparr>to_legacy := to_legacy counts + 1\<rparr>)
      in then_act (log_decision ops row d)
          (then_act (op_update_item ops (decided row d))
            (ret (counted\<lparr>adjusted := adjusted counted + 1\<rparr>))))"

definition maintain_subconscious ::
  "(dbl \<Rightarrow> dbl) \<Rightarrow> (dbl \<Rightarrow> dbl) \<Rightarrow> 's memory_store \<Rightarrow> int \<Rightarrow> memory_item_row \<Rightarrow> maintenance_counts
     \<Rightarrow> ('s, maintenance_counts) act" where
  "maintain_subconscious ex lg ops now row counts =
     (let (effective, gone) = slope_effective ex lg row now in
      if gone then then_act (op_delete_item ops (mr_id row)) (ret (counts\<lparr>forgotten := forgotten counts + 1\<rparr>))
      else then_act (op_update_item ops (row\<lparr>mr_score := effective\<rparr>)) (ret (counts\<lparr>decayed := decayed counts + 1\<rparr>)))"

definition run_maintenance ::
  "(dbl \<Rightarrow> dbl) \<Rightarrow> (dbl \<Rightarrow> dbl) \<Rightarrow> 's memory_store option \<Rightarrow> string \<Rightarrow> int \<Rightarrow> ('s, maintenance_counts) act" where
  "run_maintenance ex lg store clock now =
     (case store of None \<Rightarrow> ret no_maintenance | Some ops \<Rightarrow>
      bind_act (op_fetch_by_status ops ''active'') (\<lambda>active.
      bind_act (for_each (maintain_active ops clock now) active no_maintenance) (\<lambda>counts.
      bind_act (op_fetch_by_status ops ''subconscious'') (\<lambda>sub.
      for_each (maintain_subconscious ex lg ops now) sub counts))))"

definition review_legacy ::
  "'s memory_store \<Rightarrow> string \<Rightarrow> int \<Rightarrow> memory_item_row \<Rightarrow> review_counts \<Rightarrow> ('s, review_counts) act" where
  "review_legacy ops clock now row counts =
     (let d = apply_legacy_review clock row now;
          counted = (if md_log_entry d \<noteq> None then counts\<lparr>demoted := demoted counts + 1\<rparr> else counts)
      in then_act (log_decision ops row d)
          (then_act (op_update_item ops (decided row d))
            (ret (counted\<lparr>reviewed := reviewed counted + 1\<rparr>))))"

definition run_legacy_review :: "'s memory_store option \<Rightarrow> string \<Rightarrow> int \<Rightarrow> ('s, review_counts) act" where
  "run_legacy_review store clock now =
     (case store of None \<Rightarrow> ret no_review | Some ops \<Rightarrow>
      bind_act (op_fetch_by_status ops ''legacy'') (\<lambda>legacy.
      for_each (review_legacy ops clock now) legacy no_review))"

section \<open>Recall\<close>

text \<open>
  The embedder is the function \<open>emb\<close>; \<^verbatim>\<open>NullEmbeddingEngine\<close>, the one the constructor installs
  when none is given, answers \<open>None\<close> to every text.
\<close>

definition null_embed :: "string \<Rightarrow> dbl list option" where
  "null_embed txt = None"

definition likeness ::
  "(string \<Rightarrow> dbl list option) \<Rightarrow> dbl list option \<Rightarrow> dbl list \<Rightarrow> memory_item_row \<Rightarrow> dbl" where
  "likeness emb query_embedding query_coords row =
     (let row_embedding = (if query_embedding \<noteq> None \<and> mr_narrative row \<noteq> [] then emb (mr_narrative row) else None);
          sem = cosine query_embedding row_embedding;
          eth = ethical_similarity (if query_coords = [] then None else Some query_coords)
                  (if mr_coordinates row = [] then None else Some (mr_coordinates row))
      in recall_score (ddiv (mr_score row) (Fin 10)) sem eth)"

text \<open>
  \<^verbatim>\<open>std::sort\<close> by descending score.  The order of equal scores is not specified; here they keep the
  order they were fetched in.
\<close>

fun insert_desc :: "dbl \<times> 'a \<Rightarrow> (dbl \<times> 'a) list \<Rightarrow> (dbl \<times> 'a) list" where
  "insert_desc x [] = [x]"
| "insert_desc x (y # ys) = (if dless (fst x) (fst y) then y # insert_desc x ys else x # y # ys)"

definition sort_desc :: "(dbl \<times> 'a) list \<Rightarrow> (dbl \<times> 'a) list" where
  "sort_desc xs = foldr insert_desc xs []"

definition recall ::
  "(string \<Rightarrow> dbl list option) \<Rightarrow> 's memory_store option \<Rightarrow> string \<Rightarrow> string option \<Rightarrow> int \<Rightarrow> bool
     \<Rightarrow> ('s, memory_item_row list) act" where
  "recall emb store query hemisphere limit include_subconscious =
     (case store of None \<Rightarrow> ret [] | Some ops \<Rightarrow>
      let query_embedding = (if query = [] then None else emb query);
          query_coords = (if query = [] then [] else encode_coordinates query) in
      bind_act (op_fetch_by_status ops ''active'') (\<lambda>active.
      bind_act (op_fetch_by_status ops ''legacy'') (\<lambda>legacy.
      bind_act (if include_subconscious then op_fetch_by_status ops ''subconscious'' else ret []) (\<lambda>sub.
      let candidates = filter (\<lambda>row. hemisphere = None \<or> Some (mr_hemisphere row) = hemisphere) (active @ legacy @ sub);
          scored = sort_desc (map (\<lambda>row. (likeness emb query_embedding query_coords row, row)) candidates)
      in ret (map snd (take (nat limit) scored))))))"

definition episodic_entry :: "memory_item_row \<Rightarrow> (string \<times> string) list" where
  "episodic_entry row =
     [(''narrative'', mr_narrative row), (''emotional_marker'', mr_marker row),
      (''importance'', string_of_double (mr_score row))]"

definition semantic_entry :: "memory_item_row \<Rightarrow> (string \<times> string) list" where
  "semantic_entry row =
     [(''concept'', value_or (mr_concept row) (substr (mr_narrative row) 0 80)),
      (''understanding'', value_or (mr_understanding row) (mr_narrative row)), (''type'', mr_kind row)]"

definition inject_context ::
  "(string \<Rightarrow> dbl list option) \<Rightarrow> 's memory_store option \<Rightarrow> string \<Rightarrow> int \<Rightarrow> int
     \<Rightarrow> ('s, (string \<times> (string \<times> string) list list) list) act" where
  "inject_context emb store query personal_limit wisdom_limit =
     bind_act (recall emb store query (Some ''personal'') personal_limit False) (\<lambda>personal.
     bind_act (recall emb store query (Some ''impersonal'') wisdom_limit False) (\<lambda>wisdom.
     ret [(''recent_episodic'', map episodic_entry personal), (''key_semantic'', map semantic_entry wisdom)]))"

section \<open>What a sweep does\<close>

lemma printable_append [simp]: "list_all printable (a @ b) \<longleftrightarrow> list_all printable a \<and> list_all printable b"
  by simp

lemma printable_digits: "list_all is_digit s \<Longrightarrow> list_all printable s"
  by (auto simp: list_all_iff is_digit_def printable_def)

lemma printable_string_of_double: "list_all printable (string_of_double v)"
proof -
  have d: "list_all printable (string_of_nat n)" for n using string_of_nat_digits printable_digits by blast
  have z: "list_all printable (replicate n (CHR ''0''))" for n by (simp add: list_all_iff printable_def)
  show ?thesis
    by (cases v) (simp_all add: string_of_double_def fixed_string_def fixed_digits_def pad_zeros_def d z printable_def)
qed

lemma reasons_printable:
  "list_all printable (promote_reason v g)" "list_all printable (permanence_reason v)" "list_all printable (repurposed_reason v g)"
  using printable_string_of_double by (simp_all add: promote_reason_def permanence_reason_def repurposed_reason_def printable_def)

text \<open>
  Where an item of tier \<open>t\<close> is after a sweep, in a store that gives back \<open>kept old new\<close> of an item
  \<open>new\<close> written over \<open>old\<close>.
\<close>

definition swept ::
  "(memory_item option \<Rightarrow> memory_item \<Rightarrow> memory_item) \<Rightarrow> string \<Rightarrow> int \<Rightarrow> string \<times> memory_item
     \<Rightarrow> (string \<times> memory_item) option" where
  "swept kept clock now ti =
     (let (t, i) = ti;
          step = (\<lambda>gate next j. if dle gate (mi_score i) then Some (next, kept (Some i) j)
                     else Some (''fallout'', kept (Some i) (i\<lparr>mi_failed_gate := Some gate, mi_entered_fallout_at := Some clock\<rparr>)))
      in if t = ''t1'' then step GATE_T1_TO_T2 ''t2'' i
         else if t = ''t2'' then step GATE_T2_TO_T3 ''t3'' i
         else if t = ''t3'' then step GATE_TO_LONG_TERM ''long_term'' (i\<lparr>mi_status := ''active''\<rparr>)
         else if t = ''fallout'' then
           (if in_grace now i then Some (t, i)
            else if dle (value_or (mi_failed_gate i) GATE_T1_TO_T2) (mi_score i) then Some (''t1'', kept (Some i) i)
            else None)
         else Some (t, i))"

lemma tier_consts: "TIER_NAMES ! 0 = ''t1''" "TIER_NAMES ! Suc 0 = ''t2''" "TIER_NAMES ! 2 = ''t3''"
  "TIER_GATES ! 0 = GATE_T1_TO_T2" "TIER_GATES ! Suc 0 = GATE_T2_TO_T3" "TIER_GATES ! 2 = GATE_TO_LONG_TERM"
  by (simp_all add: TIER_NAMES_def TIER_GATES_def)

context tier_store begin

text \<open>A loop over a snapshot whose step rewrites the place of its own item only.\<close>

lemma for_each_places:
  assumes "\<And>k i c s. (k, i) \<in> set xs \<Longrightarrow> inv s \<Longrightarrow> place s k = Some (t, i) \<Longrightarrow>
             \<exists>s' c'. step (k, i) c s = (s', Done c') \<and> inv s' \<and> place s' = (place s)(k := dest i)"
    and "distinct (map fst xs)" and "inv s" and "\<And>k i. (k, i) \<in> set xs \<Longrightarrow> place s k = Some (t, i)"
  shows "\<exists>s' c'. for_each step xs c s = (s', Done c') \<and> inv s'
     \<and> place s' = (\<lambda>k. case map_of xs k of Some i \<Rightarrow> dest i | None \<Rightarrow> place s k)"
  using assms
proof (induction xs arbitrary: c s)
  case (Cons x xs)
  obtain k i where x: "x = (k, i)" by fastforce
  have "place s k = Some (t, i)" by (rule Cons.prems(4)) (simp add: x)
  then obtain s1 c1 where 1: "step (k, i) c s = (s1, Done c1)" "inv s1" "place s1 = (place s)(k := dest i)"
    using Cons.prems(1)[of k i s c] Cons.prems(3) unfolding x by (meson list.set_intros(1))
  have nk: "k \<notin> fst ` set xs" using Cons.prems(2) by (simp add: x)
  have "\<exists>s' c'. for_each step xs c1 s1 = (s', Done c') \<and> inv s'
      \<and> place s' = (\<lambda>k. case map_of xs k of Some i \<Rightarrow> dest i | None \<Rightarrow> place s1 k)"
  proof (rule Cons.IH)
    show "\<exists>s' c'. step (k', i') c s = (s', Done c') \<and> inv s' \<and> place s' = (place s)(k' := dest i')"
      if "(k', i') \<in> set xs" "inv s" "place s k' = Some (t, i')" for k' i' c s
      by (rule Cons.prems(1)) (use that in auto)
    show "place s1 k' = Some (t, i')" if "(k', i') \<in> set xs" for k' i'
    proof -
      have "k' \<noteq> k" using that nk by force
      with that Cons.prems(4)[of k' i'] show ?thesis by (simp add: 1(3))
    qed
  qed (use Cons.prems(2) 1(2) in \<open>simp_all add: x\<close>)
  then obtain s' c' where 2: "for_each step xs c1 s1 = (s', Done c')" "inv s'"
    "place s' = (\<lambda>k. case map_of xs k of Some i \<Rightarrow> dest i | None \<Rightarrow> place s1 k)" by blast
  have "map_of xs k = None" using nk by (simp add: map_of_eq_None_iff)
  then have "place s' = (\<lambda>k'. case map_of (x # xs) k' of Some i \<Rightarrow> dest i | None \<Rightarrow> place s k')"
    by (auto simp: 2(3) 1(3) x split: option.splits)
  with 1(1) 2 show ?case by (auto simp: x)
qed simp

lemma tier_step:
  assumes "t = TIER_NAMES ! n" "n < 3" "inv s" "place s k = Some (t, i)"
  shows "\<exists>s' c'. sweep_item ops clock n (k, i) c s = (s', Done c') \<and> inv s'
     \<and> place s' = (place s)(k := swept kept clock now (t, i))"
proof -
  have i: "mi_id i = k" "storable i" using place_id[OF assms(3,4)] place_storable[OF assms(3,4)] by auto
  have st: "stage_name ''t1''" "stage_name ''t2''" "stage_name ''t3''" "stage_name ''active''"
    by (simp_all add: stage_name_def printable_def)
  note rp = reasons_printable
  have fall: "\<exists>s' c'. then_act (op_store_tier ops ''fallout'' (i\<lparr>mi_failed_gate := Some g, mi_entered_fallout_at := Some clock\<rparr>))
      (then_act (op_delete_tier ops t k) (ret d)) s = (s', Done c') \<and> inv s'
      \<and> place s' = (place s)(k \<mapsto> (''fallout'', kept (Some i) (i\<lparr>mi_failed_gate := Some g, mi_entered_fallout_at := Some clock\<rparr>)))"
    if "''fallout'' \<noteq> t" for g d
  proof -
    note ne = that
    let ?j = "i\<lparr>mi_failed_gate := Some g, mi_entered_fallout_at := Some clock\<rparr>"
    obtain s1 where s1: "op_store_tier ops ''fallout'' ?j s = (s1, Done ())" "inv s1"
      "place s1 = (place s)(k \<mapsto> (''fallout'', kept (Some i) ?j))"
      using store_tier[OF assms(3) storable_fallout[OF i(2), where g = "Some g" and e = "Some clock"], of "''fallout''"] by (auto simp: i assms(4))
    obtain s2 where "op_delete_tier ops t k s1 = (s2, Done ())" "inv s2" "place s2 = place s1"
      using delete_tier[OF s1(2), of t k] ne by (auto simp: s1(3))
    with s1 show ?thesis by auto
  qed
  have up: "\<exists>s' c'. then_act (op_store_tier ops u i) (then_act (op_delete_tier ops t k)
      (then_act (op_log_promotion ops k t u (mi_score i) r) (ret d))) s = (s', Done c') \<and> inv s'
      \<and> place s' = (place s)(k \<mapsto> (u, kept (Some i) i))"
    if "u \<noteq> t" "stage_name t" "stage_name u" "list_all printable r" for u r d
  proof -
    note ne = that
    obtain s1 where s1: "op_store_tier ops u i s = (s1, Done ())" "inv s1" "place s1 = (place s)(k \<mapsto> (u, kept (Some i) i))"
      using store_tier[OF assms(3) i(2), of u] by (auto simp: i assms(4))
    obtain s2 where s2: "op_delete_tier ops t k s1 = (s2, Done ())" "inv s2" "place s2 = place s1"
      using delete_tier[OF s1(2), of t k] ne(1) by (auto simp: s1(3))
    obtain s3 where "op_log_promotion ops k t u (mi_score i) r s2 = (s3, Done ())" "inv s3" "place s3 = place s2"
      using log_promotion[OF s2(2) i(2) ne(2-4)] by (auto simp: i(1))
    with s1 s2 show ?thesis by auto
  qed
  have last: "\<exists>s' c'. try_act (then_act (op_store_long_term ops i ''active'')
      (then_act (op_log_promotion ops k ''t3'' ''active'' (mi_score i) (permanence_reason (mi_score i)))
        (then_act (op_delete_tier ops ''t3'' k) (ret d)))) h s = (s', Done c') \<and> inv s'
      \<and> place s' = (place s)(k \<mapsto> (''long_term'', kept (Some i) (i\<lparr>mi_status := ''active''\<rparr>)))"
    for d :: sweep_counts and h
  proof -
    obtain s1 where s1: "op_store_long_term ops i ''active'' s = (s1, Done ())" "inv s1"
      "place s1 = (place s)(k \<mapsto> (''long_term'', kept (Some i) (i\<lparr>mi_status := ''active''\<rparr>)))"
      using store_long_term[OF assms(3) i(2)] by (auto simp: i assms(4))
    obtain s2 where s2: "op_log_promotion ops k ''t3'' ''active'' (mi_score i) (permanence_reason (mi_score i)) s1 = (s2, Done ())"
      "inv s2" "place s2 = place s1" using log_promotion[OF s1(2) i(2) st(3,4) rp(2)] by (auto simp: i(1))
    obtain s3 where "op_delete_tier ops ''t3'' k s2 = (s3, Done ())" "inv s3" "place s3 = place s2"
      using delete_tier[OF s2(2), of "''t3''" k] by (auto simp: s1(3) s2(3))
    with s1 s2 show ?thesis by (auto simp: try_act_def)
  qed
  consider "n = 0" | "n = 1" | "n = 2" using assms(2) by linarith
  then show ?thesis
  proof cases
    case 1
    then show ?thesis by (cases "dle GATE_T1_TO_T2 (mi_score i)") (use fall[of GATE_T1_TO_T2] up[of "''t2''" "promote_reason (mi_score i) GATE_T1_TO_T2"] st rp assms(1)
      in \<open>simp_all add: sweep_item_def tier_consts swept_def i(1) Let_def\<close>)
  next
    case 2
    then show ?thesis by (cases "dle GATE_T2_TO_T3 (mi_score i)") (use fall[of GATE_T2_TO_T3] up[of "''t3''" "promote_reason (mi_score i) GATE_T2_TO_T3"] st rp assms(1)
      in \<open>simp_all add: sweep_item_def tier_consts swept_def i(1) Let_def numeral_2_eq_2[symmetric]\<close>)
  next
    case 3
    then show ?thesis by (cases "dle GATE_TO_LONG_TERM (mi_score i)") (use fall[of GATE_TO_LONG_TERM] last assms(1)
      in \<open>simp_all add: sweep_item_def tier_consts swept_def i(1) Let_def\<close>)
  qed
qed

lemma fallout_step:
  assumes "inv s" "place s k = Some (''fallout'', i)"
  shows "\<exists>s' c'. fallout_item ops now (k, i) c s = (s', Done c') \<and> inv s'
     \<and> place s' = (place s)(k := swept kept clock now (''fallout'', i))"
proof -
  have i: "mi_id i = k" "storable i" using place_id[OF assms] place_storable[OF assms] by auto
  have st: "stage_name ''t1''" "stage_name ''fallout''" by (simp_all add: stage_name_def printable_def)
  let ?g = "value_or (mi_failed_gate i) GATE_T1_TO_T2"
  consider (grace) "in_grace now i" | (up) "\<not> in_grace now i" "dle ?g (mi_score i)"
    | (gone) "\<not> in_grace now i" "\<not> dle ?g (mi_score i)" by blast
  then show ?thesis
  proof cases
    case grace
    then have "(place s)(k := swept kept clock now (''fallout'', i)) = place s"
      using assms(2) by (auto simp: swept_def)
    with grace assms(1) show ?thesis by (simp add: fallout_item_def)
  next
    case up
    obtain s1 where s1: "op_store_tier ops ''t1'' i s = (s1, Done ())" "inv s1" "place s1 = (place s)(k \<mapsto> (''t1'', kept (Some i) i))"
      using store_tier[OF assms(1) i(2), of "''t1''"] by (auto simp: i assms(2))
    obtain s2 where s2: "op_delete_tier ops ''fallout'' k s1 = (s2, Done ())" "inv s2" "place s2 = place s1"
      using delete_tier[OF s1(2), of "''fallout''" k] by (auto simp: s1(3))
    obtain s3 where "op_log_promotion ops k ''fallout'' ''t1'' (mi_score i) (repurposed_reason (mi_score i) ?g) s2 = (s3, Done ())"
      "inv s3" "place s3 = place s2" using log_promotion[OF s2(2) i(2) st(2,1) reasons_printable(3)] by (auto simp: i(1))
    with s1 s2 up show ?thesis by (simp add: fallout_item_def swept_def i(1) Let_def)
  next
    case gone
    obtain s1 where "op_delete_tier ops ''fallout'' k s = (s1, Done ())" "inv s1" "place s1 = (place s)(k := None)"
      using delete_tier[OF assms(1), of "''fallout''" k] by (auto simp: assms(2))
    with gone show ?thesis by (simp add: fallout_item_def swept_def i(1) Let_def)
  qed
qed

text \<open>A loop over the snapshot of a tier taken in an earlier state \<open>s0\<close>.\<close>

lemma phase:
  assumes "\<And>k i c s. inv s \<Longrightarrow> place s k = Some (t, i) \<Longrightarrow>
             \<exists>s' c'. step (k, i) c s = (s', Done c') \<and> inv s' \<and> place s' = (place s)(k := swept kept clock now (t, i))"
    and "distinct (map fst xs)" and "\<And>k i. (k, i) \<in> set xs \<longleftrightarrow> place s0 k = Some (t, i)"
    and "inv s" and "\<And>k i. place s0 k = Some (t, i) \<Longrightarrow> place s k = Some (t, i)"
  obtains s' c' where "for_each step xs c s = (s', Done c')" "inv s'"
    "place s' = (\<lambda>k. if map_option fst (place s0 k) = Some t then Option.bind (place s0 k) (swept kept clock now) else place s k)"
proof -
  have "\<exists>s' c'. for_each step xs c s = (s', Done c') \<and> inv s'
     \<and> place s' = (\<lambda>k. case map_of xs k of Some i \<Rightarrow> swept kept clock now (t, i) | None \<Rightarrow> place s k)"
    by (rule for_each_places[where t = t]) (use assms in auto)
  then obtain s' c' where r: "for_each step xs c s = (s', Done c')" "inv s'"
    "place s' = (\<lambda>k. case map_of xs k of Some i \<Rightarrow> swept kept clock now (t, i) | None \<Rightarrow> place s k)" by blast
  have m: "map_of xs k = Some i \<longleftrightarrow> place s0 k = Some (t, i)" for k i
    using assms(2,3) by (simp add: map_of_eq_Some_iff)
  have "place s' k = (if map_option fst (place s0 k) = Some t then Option.bind (place s0 k) (swept kept clock now) else place s k)" for k
  proof (cases "map_of xs k")
    case None
    then have "map_option fst (place s0 k) \<noteq> Some t" using m[of k] by auto
    with None show ?thesis by (simp add: r(3))
  next
    case (Some i)
    then have "place s0 k = Some (t, i)" using m by simp
    with Some show ?thesis by (simp add: r(3))
  qed
  with r that show thesis by blast
qed

lemma sweep_places:
  assumes "inv s"
  shows "\<exists>s' c. run_sweep (Some ops) clock now s = (s', Done c) \<and> inv s'
     \<and> (\<forall>k. place s' k = Option.bind (place s k) (swept kept clock now))"
proof -
  note scan = scan_tier[OF assms]
  obtain x1 x2 x3 x4 where x: "op_scan_tier ops ''t1'' s = (s, Done x1)" "op_scan_tier ops ''t2'' s = (s, Done x2)"
    "op_scan_tier ops ''t3'' s = (s, Done x3)" "op_scan_tier ops ''fallout'' s = (s, Done x4)"
    and d: "distinct (map fst x1)" "distinct (map fst x2)" "distinct (map fst x3)" "distinct (map fst x4)"
    and p: "\<And>k i. (k, i) \<in> set x1 \<longleftrightarrow> place s k = Some (''t1'', i)" "\<And>k i. (k, i) \<in> set x2 \<longleftrightarrow> place s k = Some (''t2'', i)"
      "\<And>k i. (k, i) \<in> set x3 \<longleftrightarrow> place s k = Some (''t3'', i)" "\<And>k i. (k, i) \<in> set x4 \<longleftrightarrow> place s k = Some (''fallout'', i)"
    using scan[of "''t1''"] scan[of "''t2''"] scan[of "''t3''"] scan[of "''fallout''"] by blast
  have st: "\<exists>s' c'. sweep_item ops clock n (k, i) c s = (s', Done c') \<and> inv s' \<and> place s' = (place s)(k := swept kept clock now (t, i))"
    if "inv s" "place s k = Some (t, i)" "t = TIER_NAMES ! n" "n < 3" for s k i c n t
    by (rule tier_step[OF that(3,4,1,2)])
  obtain s1 c1 where 1: "for_each (sweep_item ops clock 0) x1 no_sweep s = (s1, Done c1)" "inv s1"
    "place s1 = (\<lambda>k. if map_option fst (place s k) = Some ''t1'' then Option.bind (place s k) (swept kept clock now) else place s k)"
  proof (rule phase[of "''t1''" "sweep_item ops clock 0" clock now x1 s s no_sweep])
    show "\<exists>s' c'. sweep_item ops clock 0 (k, i) c s = (s', Done c') \<and> inv s' \<and> place s' = (place s)(k := swept kept clock now (''t1'', i))"
      if "inv s" "place s k = Some (''t1'', i)" for k i c s using that by (rule st) (simp_all add: tier_consts)
    show "place s k = Some (''t1'', i)" if "place s k = Some (''t1'', i)" for k i using that by (simp)
  qed (rule d p assms | assumption)+
  obtain s2 c2 where 2: "for_each (sweep_item ops clock 1) x2 c1 s1 = (s2, Done c2)" "inv s2"
    "place s2 = (\<lambda>k. if map_option fst (place s k) = Some ''t2'' then Option.bind (place s k) (swept kept clock now) else place s1 k)"
  proof (rule phase[of "''t2''" "sweep_item ops clock 1" clock now x2 s s1 c1])
    show "\<exists>s' c'. sweep_item ops clock 1 (k, i) c s = (s', Done c') \<and> inv s' \<and> place s' = (place s)(k := swept kept clock now (''t2'', i))"
      if "inv s" "place s k = Some (''t2'', i)" for k i c s using that by (rule st) (simp_all add: tier_consts)
    show "place s1 k = Some (''t2'', i)" if "place s k = Some (''t2'', i)" for k i using that by (simp add: 1(3))
  qed (rule d p 1(2) | assumption)+
  obtain s3 c3 where 3: "for_each (sweep_item ops clock 2) x3 c2 s2 = (s3, Done c3)" "inv s3"
    "place s3 = (\<lambda>k. if map_option fst (place s k) = Some ''t3'' then Option.bind (place s k) (swept kept clock now) else place s2 k)"
  proof (rule phase[of "''t3''" "sweep_item ops clock 2" clock now x3 s s2 c2])
    show "\<exists>s' c'. sweep_item ops clock 2 (k, i) c s = (s', Done c') \<and> inv s' \<and> place s' = (place s)(k := swept kept clock now (''t3'', i))"
      if "inv s" "place s k = Some (''t3'', i)" for k i c s using that by (rule st) (simp_all add: tier_consts)
    show "place s2 k = Some (''t3'', i)" if "place s k = Some (''t3'', i)" for k i using that by (simp add: 1(3) 2(3))
  qed (rule d p 2(2) | assumption)+
  obtain s4 c4 where 4: "for_each (fallout_item ops now) x4 c3 s3 = (s4, Done c4)" "inv s4"
    "place s4 = (\<lambda>k. if map_option fst (place s k) = Some ''fallout'' then Option.bind (place s k) (swept kept clock now) else place s3 k)"
  proof (rule phase[of "''fallout''" "fallout_item ops now" clock now x4 s s3 c3])
    show "\<exists>s' c'. fallout_item ops now (k, i) c s = (s', Done c') \<and> inv s' \<and> place s' = (place s)(k := swept kept clock now (''fallout'', i))"
      if "inv s" "place s k = Some (''fallout'', i)" for k i c s using that by (rule fallout_step)
    show "place s3 k = Some (''fallout'', i)" if "place s k = Some (''fallout'', i)" for k i
      using that by (simp add: 1(3) 2(3) 3(3))
  qed (rule d p 3(2) | assumption)+
  have "run_sweep (Some ops) clock now s = (s4, Done c4)"
    using 1(1) 2(1) 3(1) 4(1) x by (simp add: run_sweep_def)
  moreover have "place s4 k = Option.bind (place s k) (swept kept clock now)" for k
    by (cases "place s k") (auto simp: 1(3) 2(3) 3(3) 4(3) swept_def)
  ultimately show ?thesis using 4(2) by blast
qed

end

section \<open>Formation and protection\<close>

lemma crown_texts_fields [simp]:
  "mi_protected (crown_texts fs i) = mi_protected i" "mi_kind (crown_texts fs i) = mi_kind i"
  "mi_must_keep (crown_texts fs i) = mi_must_keep i" "mi_floor (crown_texts fs i) = mi_floor i"
  "mi_status (crown_texts fs i) = mi_status i" "mi_narrative (crown_texts fs i) = mi_narrative i"
  "mi_hemisphere (crown_texts fs i) = mi_hemisphere i" "mi_failed_gate (crown_texts fs i) = mi_failed_gate i"
  "mi_entered_fallout_at (crown_texts fs i) = mi_entered_fallout_at i" "mi_created_at (crown_texts fs i) = mi_created_at i"
  "mi_id (crown_texts fs i) = mi_id i" "mi_score (crown_texts fs i) = mi_score i"
  by (simp_all add: crown_texts_def split: option.split)

lemma build_item_fields:
  assumes "build_item gd ve fresh_id clock narrative fs source seas trigger = Some item"
  shows "mi_protected item = False" "mi_kind item = ''episodic''" "mi_must_keep item = False" "mi_floor item = None"
    "mi_status item = ''active''" "mi_narrative item = narrative" "mi_hemisphere item = ''personal''"
    "mi_failed_gate item = None" "mi_entered_fallout_at item = None" "mi_created_at item = clock" "mi_id item = fresh_id"
  using assms by (simp_all add: build_item_def Let_def new_memory_item_def split: option.splits) (auto split: option.splits)

lemma geometric_for_ok:
  assumes "gmp_get_d gd" "engine_ok ve"
  shows "\<exists>g. geometric_for gd ve (encode_coordinates narrative) = Some (Fin g) \<and> 0 \<le> g \<and> g \<le> 10"
proof -
  obtain s where s: "ve_polytope ve = new_polytope (from_season s)" using assms(2) by (auto simp: engine_ok_def)
  obtain q where q: "encode narrative None = map Fin q" "length q = 14" by (rule encode_unit)
  obtain aligned vs where c: "contains gd (ve_polytope ve) (map Fin q) = Some (aligned, vs)"
    using contains_new[of gd "from_season s" q] by (auto simp: s)
  obtain r where r: "alignment_score gd (ve_polytope ve) (map Fin q) = Some (Fin r)" "0 \<le> r" "r \<le> 1"
    using score_meaning[OF assms(1), of "ve_polytope ve" s q] by (auto simp: s)
  obtain x where "geometric_significance (Some (Fin r)) (\<not> aligned) (if aligned then Aligned else Violation) = Fin x" "0 \<le> x" "x \<le> 10"
    using significance_monotone[of r r "\<not> aligned" "if aligned then Aligned else Violation"] r by auto
  then show ?thesis using q c r by (simp add: geometric_for_def encode_coordinates_def DIMENSION_COUNT_def)
qed

lemma score_small:
  assumes "0 \<le> e" "e \<le> 10" "0 \<le> g" "g \<le> 10" "0 \<le> t" "t \<le> 1"
  shows "\<exists>q. score_memory (Fin e) (Fin 0) (Fin 0) (Fin g) (Fin t) = Fin q \<and> 0 \<le> q \<and> q \<le> 15/2"
proof -
  have reps: "rep (3/4)" "rep (1/4)" "rep (5/2)" "rep (3/2)" "rep (15/2)"
    by (rule repI[of _ 3 "-2"], simp_all add: power_int_minus) (rule repI[of _ 1 "-2"] repI[of _ 5 "-1"] repI[of _ 3 "-1"] repI[of _ 15 "-1"],
        simp_all add: power_int_minus)+
  have "(100::rat) < 2 ^ 53" by simp
  then have lim: "b \<le> 100 \<Longrightarrow> b < dbl_limit" for b :: rat using dbl_limit_big by linarith
  have n: "- dbl_limit < 0" by (simp add: dbl_limit_def)
  have up: "\<exists>r. rnd x = Fin r \<and> 0 \<le> r \<and> r \<le> b" if "0 \<le> x" "x \<le> b" "rep b" "b \<le> 100" for x b
    using rnd_between[OF rep_0 that(3) that(1,2) n lim[OF that(4)]] by auto
  obtain a where a: "lit (7/10) = Fin a" "0 \<le> a" "a \<le> 3/4" using up[of "7/10" "3/4"] reps by auto
  obtain b where b: "lit (6/10) = Fin b" "0 \<le> b" "b \<le> 3/4" using up[of "6/10" "3/4"] reps by auto
  have c: "lit (25/100) = Fin (1/4)" using rnd_fix[OF reps(2)] lim[of "1/4"] by simp
  obtain z1 z2 where z: "lit (30/100) = Fin z1" "lit (20/100) = Fin z2"
    using up[of "30/100" "3/4"] up[of "20/100" "3/4"] reps by auto
  have "t * b \<le> 1 * (3/4)" using assms b by (intro mult_mono) simp_all
  then obtain tb where tb: "rnd (t * b) = Fin tb" "0 \<le> tb" "tb \<le> 3/4" using up[of "t * b" "3/4"] reps assms b by auto
  obtain m where m: "rnd (a + tb) = Fin m" "0 \<le> m" "m \<le> 3/2" using up[of "a + tb" "3/2"] reps a tb by auto
  obtain g4 where g4: "rnd (g * (1/4)) = Fin g4" "0 \<le> g4" "g4 \<le> 5/2" using up[of "g * (1/4)" "5/2"] reps assms by auto
  obtain e4 where e4: "rnd (e * (1/4)) = Fin e4" "0 \<le> e4" "e4 \<le> 5/2" using up[of "e * (1/4)" "5/2"] reps assms by auto
  have rg: "rep g4" using g4(1) by (auto simp: rnd_def Let_def rep_round_rat split: if_splits)
  obtain s where s: "rnd (g4 + e4) = Fin s" "0 \<le> s" "s \<le> 5" using up[of "g4 + e4" 5] g4 e4 by auto
  have rs: "rep s" using s(1) by (auto simp: rnd_def Let_def rep_round_rat split: if_splits)
  have fg: "rnd g4 = Fin g4" "rnd s = Fin s" using rnd_fix[OF rg] rnd_fix[OF rs] lim[of g4] lim[of s] g4 s by auto
  have "s * m \<le> 5 * (3/2)" using s m by (intro mult_mono) simp_all
  then obtain p where p: "rnd (s * m) = Fin p" "0 \<le> p" "p \<le> 15/2" using up[of "s * m" "15/2"] reps s m by auto
  have "score_memory (Fin e) (Fin 0) (Fin 0) (Fin g) (Fin t) = dmin (Fin p) (Fin 10)"
    unfolding score_memory_def Let_def a(1) b(1) c z
    by (simp only: dmul.simps dadd.simps mult_zero_left lit_0 add_0_left add_0_right tb(1) m(1) g4(1) e4(1) s(1) fg p(1))
  then show ?thesis using p by (auto simp: dmin_def)
qed

text \<open>
  the crown is never put on: whatever a formation is given, the item it builds is not protected,
  is of the episodic kind, has no floor and no keep mark, also when its route says that it is a
  protected identity item; so the yearly review of the row such an item becomes always takes the
  branch of the unprotected ones.
\<close>

theorem crown_is_never_put_on:
  assumes "build_item gd ve fresh_id clock narrative fs source seas trigger = Some item"
  shows "\<not> mi_protected item \<and> mi_kind item = ''episodic'' \<and> mi_floor item = None \<and> \<not> mi_must_keep item
     \<and> (rd_status (route_item item) = ''legacy'' \<longleftrightarrow> rd_protected (route_item item))
     \<and> (mr_protected row = mi_protected item \<and> mr_score row = Fin s \<and> md_status (apply_legacy_review clock row now) = ''legacy''
          \<longrightarrow> md_score (apply_legacy_review clock row now) = dial_adjust (Fin s)
                (maintenance_delta (mr_reference_count row) (mr_last_referenced_at row) (mr_created_at row) now) (Fin 0))"
  using build_item_fields[OF assms] by (simp add: route_item_def apply_legacy_review_def Let_def)

theorem crown_is_never_put_on_witness:
  "\<exists>item. build_item trunc_d (new_value_engine (from_season ''spring'') ''spring'') ''m-1'' ''now'' ''I am free''
        [(''emotional_weight'', Fin 10), (''relational_significance'', Fin 10), (''identity_significance'', Fin 10),
         (''emotional_intensity'', Fin 1)] ''reflection'' None False = Some item \<and> \<not> mi_protected item"
proof -
  obtain g where "geometric_for trunc_d (new_value_engine (from_season ''spring'') ''spring'') (encode_coordinates ''I am free'') = Some g"
    using geometric_for_ok[OF gmp.gmp_get_d_axioms engine_ok_new] by blast
  then obtain item where i: "build_item trunc_d (new_value_engine (from_season ''spring'') ''spring'') ''m-1'' ''now'' ''I am free''
        [(''emotional_weight'', Fin 10), (''relational_significance'', Fin 10), (''identity_significance'', Fin 10),
         (''emotional_intensity'', Fin 1)] ''reflection'' None False = Some item" by (simp add: build_item_def)
  with crown_is_never_put_on[OF i] show ?thesis by blast
qed

text \<open>
  a reflection is never a crown: \<^verbatim>\<open>form_items\<close> passes no relational and no identity weight, so
  with an emotional weight of at most 10 and an intensity of at most 1 the score stays below the
  crown line and no moment goes to the legacy.
\<close>

theorem reflections_never_crown:
  assumes "gmp_get_d gd" and "engine_ok ve" and "mi_score moment = Fin e" and "0 \<le> e" and "e \<le> 10"
    and "mi_intensity moment = Fin t" and "0 \<le> t" and "t \<le> 1"
  shows "\<exists>item q. build_item gd ve fresh_id clock (mi_narrative moment) (moment_factors moment) source seas False = Some item
     \<and> mi_score item = Fin q \<and> 0 \<le> q \<and> q \<le> 15/2 \<and> \<not> rd_protected (route_item item)
     \<and> rd_status (route_item item) \<noteq> ''legacy''"
proof -
  obtain g where g: "geometric_for gd ve (encode_coordinates (mi_narrative moment)) = Some (Fin g)" "0 \<le> g" "g \<le> 10"
    using geometric_for_ok[OF assms(1,2)] by blast
  obtain q where q: "score_memory (Fin e) (Fin 0) (Fin 0) (Fin g) (Fin t) = Fin q" "0 \<le> q" "q \<le> 15/2"
    using score_small[OF assms(4,5) g(2,3) assms(7,8)] by blast
  have f: "get_factor (moment_factors moment) ''emotional_weight'' (Fin 0) = Fin e"
    "get_factor (moment_factors moment) ''relational_significance'' (Fin 0) = Fin 0"
    "get_factor (moment_factors moment) ''identity_significance'' (Fin 0) = Fin 0"
    "get_factor (moment_factors moment) ''emotional_intensity'' (Fin (1/2)) = Fin t"
    "map_of (moment_factors moment) ''reflection'' = None" "map_of (moment_factors moment) ''concept'' = None"
    by (simp_all add: get_factor_def moment_factors_def value_or_def assms(3,6))
  show ?thesis
    using q by (simp add: build_item_def g(1) f crown_texts_def Let_def route_item_def
        FORMATION_LONG_TERM_BYPASS_def GATE_TO_LONG_TERM_def)
qed

theorem reflections_never_crown_witness:
  "\<exists>item q. build_item trunc_d (new_value_engine (from_season ''spring'') ''spring'') ''m-1'' ''now'' ''I am free''
        (moment_factors (new_memory_item\<lparr>mi_score := Fin 10, mi_intensity := Fin 1\<rparr>)) ''reflection'' None False = Some item
     \<and> mi_score item = Fin q \<and> q \<le> 15/2"
  using reflections_never_crown[OF gmp.gmp_get_d_axioms engine_ok_new, of
      "new_memory_item\<lparr>mi_narrative := ''I am free'', mi_score := Fin 10, mi_intensity := Fin 1\<rparr>" 10 1
      "''spring''" "''m-1''" "''now''" "''reflection''" None]
  by (auto simp: moment_factors_def)

text \<open>
  a trigger is kept: with factors in their ranges and a narrative that is not blank, the item
  built has a score between the retention floor 5 and 10, it is routed past the tiers to the long
  term as active or legacy, and the whole operation is the store, the log and the item returned; a
  blank narrative and a missing store give nothing and leave the state alone.
\<close>

theorem triggers_are_kept:
  assumes "gmp_get_d gd" and "engine_ok ve" and "trim narrative \<noteq> []"
    and "get_factor fs ''emotional_weight'' (Fin 0) = Fin e" "0 \<le> e" "e \<le> 10"
    and "get_factor fs ''relational_significance'' (Fin 0) = Fin r" "0 \<le> r" "r \<le> 10"
    and "get_factor fs ''identity_significance'' (Fin 0) = Fin i" "0 \<le> i" "i \<le> 10"
    and "get_factor fs ''emotional_intensity'' (Fin (1/2)) = Fin t" "0 \<le> t" "t \<le> 1"
  shows "(\<exists>item q. build_item gd ve fresh_id clock (trim narrative) fs kind seas True = Some item
     \<and> mi_score item = Fin q \<and> 5 \<le> q \<and> q \<le> 10 \<and> rd_stage (route_item item) = ''long_term''
     \<and> rd_status (route_item item) = (if 8 \<le> q then ''legacy'' else ''active'')
     \<and> (op_store_long_term ops item (rd_status (route_item item)) s = (s1, Done ())
        \<and> op_log_promotion ops fresh_id ''formation'' (rd_status (route_item item)) (Fin q)
             (''Triggered - score '' @ string_of_double (Fin q)) s1 = (s2, Done ())
        \<longrightarrow> ingest_trigger gd ve (Some ops) fresh_id clock narrative kind seas (Some fs) s = (s2, Done (Some item))))
   \<and> ingest_trigger gd ve None fresh_id clock narrative kind seas (Some fs) s = (s, Done None)"
proof -
  obtain g where g: "geometric_for gd ve (encode_coordinates (trim narrative)) = Some (Fin g)" "0 \<le> g" "g \<le> 10"
    using geometric_for_ok[OF assms(1,2)] by blast
  have "le3 (score_memory (Fin e) (Fin r) (Fin i) (Fin g) (Fin t)) (score_memory (Fin e) (Fin r) (Fin i) (Fin g) (Fin t)) 10"
    by (intro score_le3 le3_const) (use assms(5,6,8,9,11,12,14,15) g in simp_all)
  then obtain a where a: "score_memory (Fin e) (Fin r) (Fin i) (Fin g) (Fin t) = Fin a" "0 \<le> a" "a \<le> 10" by (auto simp: le3_def)
  obtain item where item: "build_item gd ve fresh_id clock (trim narrative) fs kind seas True = Some item"
    by (simp add: build_item_def g(1) Let_def)
  have q: "mi_score item = Fin (max 5 a)"
    using item by (auto simp: build_item_def g(1) assms(4,7,10,13) a(1) Let_def TRIGGER_RETENTION_FLOOR_def dmax_def max_def
        split: option.splits)
  have i: "mi_id item = fresh_id" using build_item_fields[OF item] by simp
  have rt: "rd_stage (route_item item) = ''long_term''"
    "rd_status (route_item item) = (if 8 \<le> max 5 a then ''legacy'' else ''active'')"
    by (simp_all add: route_item_def q FORMATION_LONG_TERM_BYPASS_def GATE_TO_LONG_TERM_def max_def)
  have "ingest_trigger gd ve (Some ops) fresh_id clock narrative kind seas (Some fs) s = (s2, Done (Some item))"
    if "op_store_long_term ops item (rd_status (route_item item)) s = (s1, Done ())"
      "op_log_promotion ops fresh_id ''formation'' (rd_status (route_item item)) (Fin (max 5 a))
             (''Triggered - score '' @ string_of_double (Fin (max 5 a))) s1 = (s2, Done ())"
    using that assms(3) by (simp add: ingest_trigger_def value_or_def item Let_def i q)
  note run = this
  have "ingest_trigger gd ve None fresh_id clock narrative kind seas (Some fs) s = (s, Done None)"
    using assms(3) by (simp add: ingest_trigger_def)
  then show ?thesis
    by (intro conjI exI[of _ item] exI[of _ "max 5 a"] impI) (use item q rt a(3) run in simp_all)
qed

theorem triggers_are_kept_witness:
  "\<exists>item q. build_item trunc_d (new_value_engine (from_season ''spring'') ''spring'') ''m-1'' ''now'' (trim '' keep this '')
       default_factors ''user'' None True = Some item \<and> mi_score item = Fin q \<and> 5 \<le> q"
proof -
  have f: "get_factor default_factors ''emotional_weight'' (Fin 0) = Fin 5"
    "get_factor default_factors ''relational_significance'' (Fin 0) = Fin 5"
    "get_factor default_factors ''identity_significance'' (Fin 0) = Fin 3"
    "get_factor default_factors ''emotional_intensity'' (Fin (1/2)) = Fin (1/2)"
    by (simp_all add: get_factor_def default_factors_def value_or_def)
  have t: "trim '' keep this '' \<noteq> []" by (simp add: trim_def is_space_def)
  note k = triggers_are_kept[OF gmp.gmp_get_d_axioms engine_ok_new[of "''spring''"] t f(1) _ _ f(2) _ _ f(3) _ _ f(4),
      where fresh_id = "''m-1''" and clock = "''now''" and kind = "''user''" and seas = None]
  from k[where ops = "undefined :: unit memory_store"] show ?thesis by auto
qed

section \<open>Recall ranks by likeness\<close>

lemma dless_total: "a \<noteq> NaN \<Longrightarrow> b \<noteq> NaN \<Longrightarrow> dless a b \<or> a = b \<or> dless b a"
  by (cases a; cases b) auto

lemma dless_asym: "dless a b \<Longrightarrow> \<not> dless b a"
  by (cases a; cases b) auto

lemma not_dless_trans: "\<not> dless a b \<Longrightarrow> \<not> dless b c \<Longrightarrow> a \<noteq> NaN \<Longrightarrow> b \<noteq> NaN \<Longrightarrow> c \<noteq> NaN \<Longrightarrow> \<not> dless a c"
  by (metis dless_total dless_trans)

definition descending :: "(dbl \<times> 'a) list \<Rightarrow> bool" where
  "descending = sorted_wrt (\<lambda>x y. \<not> dless (fst x) (fst y))"

lemma mset_insert_desc [simp]: "mset (insert_desc x ys) = add_mset x (mset ys)"
  by (induction ys) auto

lemma mset_sort_desc [simp]: "mset (sort_desc xs) = mset xs"
  by (induction xs) (auto simp: sort_desc_def)

lemma set_insert_desc [simp]: "set (insert_desc x ys) = insert x (set ys)"
  using mset_insert_desc[of x ys] by (metis set_mset_add_mset_insert set_mset_mset)

lemma descending_insert:
  "descending ys \<Longrightarrow> \<forall>y\<in>insert x (set ys). fst y \<noteq> NaN \<Longrightarrow> descending (insert_desc x ys)"
proof (induction ys)
  case (Cons y ys)
  show ?case
  proof (cases "dless (fst x) (fst y)")
    case True
    have "descending (insert_desc x ys)" using Cons by (simp add: descending_def)
    moreover have "\<forall>z\<in>insert x (set ys). \<not> dless (fst y) (fst z)"
      using Cons.prems True by (auto simp: descending_def dless_asym)
    ultimately show ?thesis using True by (simp add: descending_def)
  next
    case False
    then have "\<forall>z\<in>set (y # ys). \<not> dless (fst x) (fst z)"
      using Cons.prems not_dless_trans[of "fst x" "fst y"] by (auto simp: descending_def)
    with False Cons.prems show ?thesis by (simp add: descending_def)
  qed
qed (simp add: descending_def)

lemma descending_sort: "\<forall>x\<in>set xs. fst x \<noteq> NaN \<Longrightarrow> descending (sort_desc xs)"
proof (induction xs)
  case (Cons x xs)
  have "set (sort_desc xs) = set xs" by (metis mset_sort_desc set_mset_mset)
  with Cons show ?case by (simp add: sort_desc_def descending_insert)
qed (simp add: sort_desc_def descending_def)


text \<open>A store that only answers: the rows it is given, by their status.\<close>

definition reading_store :: "memory_item_row list \<Rightarrow> unit memory_store" where
  "reading_store rows =
     \<lparr>op_store_tier = (\<lambda>_ _. ret ()), op_load_tier = (\<lambda>_ _. ret None), op_delete_tier = (\<lambda>_ _. ret ()),
      op_scan_tier = (\<lambda>_. ret []), op_has_tier = (\<lambda>_ _. ret False), op_store_long_term = (\<lambda>_ _. ret ()),
      op_fetch_by_status = (\<lambda>st. ret (filter (\<lambda>r. mr_status r = st) rows)), op_update_item = (\<lambda>_. ret ()),
      op_delete_item = (\<lambda>_. ret ()), op_log_promotion = (\<lambda>_ _ _ _ _. ret ())\<rparr>"


end
