(* ===== verification/Postgres_Memory.thy ===== *)
theory Postgres_Memory
  imports Memory_Module
begin

text \<open>
  The provider of the storage interface: the memory part of \<^verbatim>\<open>src/src/postgres_backend.cpp\<close>.  The
  state is the table \<^verbatim>\<open>lina_memory_items\<close> of \<^verbatim>\<open>sql/lina_schema.sql\<close> and the promotion log, a row the
  texts of its columns as the library hands them out (\<open>None\<close> is NULL).  What a column makes of the
  text of a parameter is an argument (\<open>columns\<close>; \<open>None\<close> when the server refuses the statement), and
  so is the clock.  A refused statement changes nothing and makes the method throw.  The order in
  which a SELECT without ORDER BY gives its rows is that of the list.
\<close>

section \<open>Texts and numbers\<close>

definition vector_to_pgarray :: "dbl list \<Rightarrow> string" where
  "vector_to_pgarray v = ''['' @ concat (map (\<lambda>i. (if 0 < i then '','' else []) @ fixed_string 10 (v ! i)) [0..<length v]) @ '']''"

definition sign_of :: "string \<Rightarrow> bool \<times> string" where
  "sign_of s = (case s of c # r \<Rightarrow> if c = CHR ''-'' then (True, r) else if c = CHR ''+'' then (False, r) else (False, s)
                 | [] \<Rightarrow> (False, s))"

definition exponent_of :: "string \<Rightarrow> int" where
  "exponent_of s =
     (case s of
        c # r \<Rightarrow> if to_lower c = CHR ''e'' then
                   (let (neg, d) = sign_of r; ds = takeWhile is_digit d
                    in if neg then - number_of ds else number_of ds)
                 else 0
      | [] \<Rightarrow> 0)"

text \<open>
  \<^verbatim>\<open>std::stod\<close> of a decimal text: \<open>None\<close> when it throws, because no number starts there or because
  the number is out of the range of doubles.  Hexadecimal texts are not modelled.
\<close>

definition in_range :: "rat \<Rightarrow> dbl option" where
  "in_range q = (case rnd q of Fin r \<Rightarrow> if q \<noteq> 0 \<and> \<bar>r\<bar> < 2 powi (-1022) \<and> r \<noteq> q then None else Some (Fin r) | _ \<Rightarrow> None)"

definition stod :: "string \<Rightarrow> dbl option" where
  "stod s =
     (let (neg, u) = sign_of (dropWhile is_space s);
          ip = takeWhile is_digit u; r1 = dropWhile is_digit u;
          (fp, r2) = (case r1 of c # r \<Rightarrow> if c = CHR ''.'' then (takeWhile is_digit r, dropWhile is_digit r) else ([], r1)
                               | [] \<Rightarrow> ([], []))
      in if ip = [] \<and> fp = [] then
           (if prefix ''nan'' (lower_string u) then Some NaN
            else if prefix ''inf'' (lower_string u) then Some (if neg then NInf else PInf) else None)
         else in_range ((if neg then -1 else 1) * of_int (number_of (ip @ fp)) / 10 ^ length fp * 10 powi exponent_of r2))"

definition safe_stod :: "string \<Rightarrow> dbl option" where
  "safe_stod s = (if s = [] then Some (Fin 0) else stod s)"

text \<open>\<^verbatim>\<open>std::stoi\<close>, which throws outside the range of \<^verbatim>\<open>int\<close>.\<close>

definition stoi :: "string \<Rightarrow> int option" where
  "stoi s =
     (let (neg, u) = sign_of (dropWhile is_space s); ds = takeWhile is_digit u;
          n = (if neg then - number_of ds else number_of ds)
      in if ds = [] \<or> n < - (2 ^ 31) \<or> 2 ^ 31 \<le> n then None else Some n)"

definition safe_stoi :: "string \<Rightarrow> int option" where
  "safe_stoi s = (if s = [] then Some 0 else stoi s)"

text \<open>The numbers between commas and blanks.\<close>

fun tokens :: "string \<Rightarrow> string \<Rightarrow> string list" where
  "tokens acc [] = (if acc = [] then [] else [acc])"
| "tokens acc (c # cs) =
     (if c = CHR '','' \<or> c = CHR '' '' then (if acc = [] then tokens [] cs else acc # tokens [] cs)
      else tokens (acc @ [c]) cs)"

definition pgarray_to_vector :: "string \<Rightarrow> dbl list option" where
  "pgarray_to_vector s =
     (case s of
        c # r \<Rightarrow> if c = CHR ''['' \<or> c = CHR ''{'' then those (map stod (tokens [] (take (length s - 2) r))) else Some []
      | [] \<Rightarrow> Some [])"

section \<open>Rows\<close>

record db_row =
  c_item_id :: string
  c_narrative :: "string option"
  c_hemisphere :: "string option"
  c_coordinates :: "string option"
  c_score :: "string option"
  c_geometric :: "string option"
  c_marker :: "string option"
  c_intensity :: "string option"
  c_source :: "string option"
  c_season :: "string option"
  c_concept :: "string option"
  c_understanding :: "string option"
  c_reflection :: "string option"
  c_created_at :: "string option"
  c_trigger :: "string option"
  c_kind :: "string option"
  c_status :: "string option"
  c_protected :: "string option"
  c_failed_gate :: "string option"
  c_entered_fallout_at :: "string option"
  c_reference_count :: "string option"
  c_floor :: "string option"
  c_must_keep :: "string option"
  c_last_referenced_at :: "string option"
  c_decay_started_at :: "string option"
  c_tier :: string

record pg =
  items :: "db_row list"
  promotions :: "(string \<times> string \<times> string \<times> string \<times> string) list"

text \<open>What a column of each type makes of a parameter.\<close>

record columns =
  text_col :: "string \<Rightarrow> string option"
  name_col :: "string \<Rightarrow> string option"
  decimal_col :: "string \<Rightarrow> string option"
  time_col :: "string \<Rightarrow> string option"
  vector_col :: "string \<Rightarrow> string option"

definition bool_text :: "bool \<Rightarrow> string" where "bool_text b = (if b then ''t'' else ''f'')"

definition pq :: "string option \<Rightarrow> string" where "pq v = value_or v []"

definition nonempty :: "string \<Rightarrow> string option" where "nonempty s = (if s = [] then None else Some s)"

text \<open>A number of an optional column: NULL and the empty text are no number.\<close>

definition opt_stod :: "string option \<Rightarrow> dbl option option" where
  "opt_stod v = (case nonempty (pq v) of None \<Rightarrow> Some None | Some s \<Rightarrow> map_option Some (stod s))"

definition row_to_memory_item :: "db_row \<Rightarrow> memory_item option" where
  "row_to_memory_item r =
     (case pgarray_to_vector (pq (c_coordinates r)) of None \<Rightarrow> None | Some coords \<Rightarrow>
      case safe_stod (pq (c_score r)) of None \<Rightarrow> None | Some score \<Rightarrow>
      case safe_stod (pq (c_geometric r)) of None \<Rightarrow> None | Some geo \<Rightarrow>
      case safe_stod (pq (c_intensity r)) of None \<Rightarrow> None | Some intensity \<Rightarrow>
      case opt_stod (c_failed_gate r) of None \<Rightarrow> None | Some gate \<Rightarrow>
      case safe_stoi (pq (c_reference_count r)) of None \<Rightarrow> None | Some refs \<Rightarrow>
      case opt_stod (c_floor r) of None \<Rightarrow> None | Some flr \<Rightarrow>
      Some \<lparr>mi_id = c_item_id r, mi_narrative = pq (c_narrative r), mi_hemisphere = pq (c_hemisphere r),
            mi_coordinates = coords, mi_score = score, mi_geometric = geo, mi_marker = pq (c_marker r),
            mi_intensity = intensity, mi_source = pq (c_source r), mi_season = pq (c_season r),
            mi_concept = nonempty (pq (c_concept r)), mi_understanding = nonempty (pq (c_understanding r)),
            mi_reflection = nonempty (pq (c_reflection r)), mi_created_at = pq (c_created_at r),
            mi_trigger = (pq (c_trigger r) = ''t''), mi_kind = pq (c_kind r), mi_status = pq (c_status r),
            mi_protected = (pq (c_protected r) = ''t''), mi_failed_gate = gate,
            mi_entered_fallout_at = nonempty (pq (c_entered_fallout_at r)), mi_reference_count = refs, mi_floor = flr,
            mi_must_keep = (pq (c_must_keep r) = ''t''), mi_last_referenced_at = nonempty (pq (c_last_referenced_at r)),
            mi_decay_started_at = nonempty (pq (c_decay_started_at r))\<rparr>)"

definition row_to_memory_item_row :: "db_row \<Rightarrow> memory_item_row option" where
  "row_to_memory_item_row r =
     (case safe_stod (pq (c_score r)) of None \<Rightarrow> None | Some score \<Rightarrow>
      case opt_stod (c_floor r) of None \<Rightarrow> None | Some flr \<Rightarrow>
      case safe_stod (pq (c_intensity r)) of None \<Rightarrow> None | Some intensity \<Rightarrow>
      case pgarray_to_vector (pq (c_coordinates r)) of None \<Rightarrow> None | Some coords \<Rightarrow>
      case safe_stoi (pq (c_reference_count r)) of None \<Rightarrow> None | Some refs \<Rightarrow>
      Some \<lparr>mr_id = c_item_id r, mr_hemisphere = pq (c_hemisphere r), mr_kind = pq (c_kind r), mr_status = pq (c_status r),
            mr_narrative = pq (c_narrative r), mr_concept = nonempty (pq (c_concept r)),
            mr_understanding = nonempty (pq (c_understanding r)), mr_score = score, mr_floor = flr,
            mr_must_keep = (pq (c_must_keep r) = ''t''), mr_protected = (pq (c_protected r) = ''t''),
            mr_marker = pq (c_marker r), mr_intensity = intensity, mr_source = pq (c_source r),
            mr_season = nonempty (pq (c_season r)), mr_coordinates = coords, mr_reference_count = refs,
            mr_last_referenced_at = nonempty (pq (c_last_referenced_at r)), mr_created_at = nonempty (pq (c_created_at r)),
            mr_decay_started_at = nonempty (pq (c_decay_started_at r))\<rparr>)"

section \<open>Statements\<close>

definition fresh_row :: "string \<Rightarrow> string \<Rightarrow> string \<Rightarrow> db_row" where
  "fresh_row key created tier =
     \<lparr>c_item_id = key, c_narrative = None, c_hemisphere = None, c_coordinates = None, c_score = None, c_geometric = None,
      c_marker = None, c_intensity = None, c_source = None, c_season = None, c_concept = None, c_understanding = None,
      c_reflection = None, c_created_at = Some created, c_trigger = None, c_kind = None, c_status = None, c_protected = None,
      c_failed_gate = None, c_entered_fallout_at = None, c_reference_count = None, c_floor = None, c_must_keep = None,
      c_last_referenced_at = None, c_decay_started_at = None, c_tier = tier\<rparr>"

text \<open>The parameters of the INSERT, as their columns take them.\<close>

definition item_texts :: "columns \<Rightarrow> string \<Rightarrow> memory_item \<Rightarrow> string list option" where
  "item_texts cols clock i = those
     [text_col cols (mi_id i), text_col cols (mi_narrative i), name_col cols (mi_hemisphere i),
      vector_col cols (vector_to_pgarray (mi_coordinates i)), decimal_col cols (string_of_double (mi_score i)),
      decimal_col cols (string_of_double (mi_geometric i)), name_col cols (mi_marker i),
      decimal_col cols (string_of_double (mi_intensity i)), text_col cols (mi_source i), name_col cols (mi_season i),
      time_col cols (if mi_created_at i = [] then clock else mi_created_at i), name_col cols (mi_kind i),
      name_col cols (mi_status i)]"

text \<open>The assignments of the INSERT, and of ON CONFLICT, which keeps the creation time.\<close>

definition put_item :: "string list \<Rightarrow> memory_item \<Rightarrow> db_row \<Rightarrow> db_row" where
  "put_item v i r =
     r\<lparr>c_narrative := Some (v ! 1), c_hemisphere := Some (v ! 2), c_coordinates := Some (v ! 3), c_score := Some (v ! 4),
       c_geometric := Some (v ! 5), c_marker := Some (v ! 6), c_intensity := Some (v ! 7), c_source := Some (v ! 8),
       c_season := Some (v ! 9), c_trigger := Some (bool_text (mi_trigger i)), c_kind := Some (v ! 11),
       c_status := Some (v ! 12), c_protected := Some (bool_text (mi_protected i)),
       c_reference_count := Some (string_of_int (mi_reference_count i)), c_must_keep := Some (bool_text (mi_must_keep i))\<rparr>"

definition update_where :: "(db_row \<Rightarrow> bool) \<Rightarrow> (db_row \<Rightarrow> db_row) \<Rightarrow> pg \<Rightarrow> pg" where
  "update_where P f db = db\<lparr>items := map (\<lambda>r. if P r then f r else r) (items db)\<rparr>"

definition has_id :: "string \<Rightarrow> db_row \<Rightarrow> bool" where "has_id k r \<longleftrightarrow> c_item_id r = k"

text \<open>The two follow-up updates, made only with a text that is not empty.\<close>

definition set_text :: "columns \<Rightarrow> (string \<Rightarrow> db_row \<Rightarrow> db_row) \<Rightarrow> string option \<Rightarrow> string \<Rightarrow> (pg, unit) act" where
  "set_text cols put value key db =
     (if value = None \<or> value = Some [] then ret () db else
      case text_col cols (the value) of
        None \<Rightarrow> (db, Threw)
      | Some t \<Rightarrow> ret () (update_where (has_id key) (put t) db))"

definition follow_up :: "columns \<Rightarrow> memory_item \<Rightarrow> (pg, unit) act" where
  "follow_up cols i =
     then_act (set_text cols (\<lambda>t r. r\<lparr>c_concept := Some t\<rparr>) (mi_concept i) (mi_id i))
       (set_text cols (\<lambda>t r. r\<lparr>c_understanding := Some t\<rparr>) (mi_understanding i) (mi_id i))"

definition pg_store_tier :: "columns \<Rightarrow> string \<Rightarrow> string \<Rightarrow> memory_item \<Rightarrow> (pg, unit) act" where
  "pg_store_tier cols clock tier i db =
     (case item_texts cols clock i of
        None \<Rightarrow> (db, Threw)
      | Some v \<Rightarrow>
          let put = (\<lambda>r. (put_item v i r)\<lparr>c_tier := tier\<rparr>);
              db1 = (if \<exists>r\<in>set (items db). has_id (v ! 0) r then update_where (has_id (v ! 0)) put db
                     else db\<lparr>items := items db @ [put (fresh_row (v ! 0) (v ! 10) tier)]\<rparr>)
          in follow_up cols i db1)"

definition store_memory_item :: "columns \<Rightarrow> string \<Rightarrow> memory_item \<Rightarrow> (pg, unit) act" where
  "store_memory_item cols clock i db =
     (case item_texts cols clock i of
        None \<Rightarrow> (db, Threw)
      | Some v \<Rightarrow>
          if \<exists>r\<in>set (items db). has_id (v ! 0) r then (db, Threw)
          else follow_up cols i (db\<lparr>items := items db @ [put_item v i (fresh_row (v ! 0) (v ! 10) ''t1'')]\<rparr>))"

definition select_items :: "(db_row \<Rightarrow> bool) \<Rightarrow> (db_row \<Rightarrow> 'a option) \<Rightarrow> (pg, 'a list) act" where
  "select_items P read db =
     (case those (map read (filter P (items db))) of None \<Rightarrow> (db, Threw) | Some xs \<Rightarrow> ret xs db)"

definition pg_load_tier :: "string \<Rightarrow> string \<Rightarrow> (pg, memory_item option) act" where
  "pg_load_tier tier key db =
     (case filter (\<lambda>r. c_tier r = tier \<and> has_id key r) (items db) of
        [] \<Rightarrow> ret None db
      | r # _ \<Rightarrow> (case row_to_memory_item r of None \<Rightarrow> (db, Threw) | Some i \<Rightarrow> ret (Some i) db))"

definition load_memory_item :: "string \<Rightarrow> (pg, memory_item option) act" where
  "load_memory_item key db =
     (case filter (has_id key) (items db) of
        [] \<Rightarrow> ret None db
      | r # _ \<Rightarrow> (case row_to_memory_item r of None \<Rightarrow> (db, Threw) | Some i \<Rightarrow> ret (Some i) db))"

definition delete_where :: "(db_row \<Rightarrow> bool) \<Rightarrow> (pg, unit) act" where
  "delete_where P db = ret () (db\<lparr>items := filter (\<lambda>r. \<not> P r) (items db)\<rparr>)"

definition pg_delete_tier :: "string \<Rightarrow> string \<Rightarrow> (pg, unit) act" where
  "pg_delete_tier tier key = delete_where (\<lambda>r. c_tier r = tier \<and> has_id key r)"

definition pg_scan_tier :: "string \<Rightarrow> (pg, (string \<times> memory_item) list) act" where
  "pg_scan_tier tier = select_items (\<lambda>r. c_tier r = tier) (\<lambda>r. map_option (\<lambda>i. (mi_id i, i)) (row_to_memory_item r))"

definition pg_has_tier :: "string \<Rightarrow> string \<Rightarrow> (pg, bool) act" where
  "pg_has_tier tier key db = ret (\<exists>r\<in>set (items db). c_tier r = tier \<and> has_id key r) db"

definition pg_store_long_term :: "columns \<Rightarrow> string \<Rightarrow> memory_item \<Rightarrow> string \<Rightarrow> (pg, unit) act" where
  "pg_store_long_term cols clock i status = pg_store_tier cols clock ''long_term'' (i\<lparr>mi_status := status\<rparr>)"

definition fetch_by_status :: "string \<Rightarrow> (pg, memory_item_row list) act" where
  "fetch_by_status status = select_items (\<lambda>r. pq (c_status r) = status \<and> c_status r \<noteq> None) row_to_memory_item_row"

text \<open>NULLIF: the empty text becomes NULL before the column sees it.\<close>

definition null_if_empty :: "(string \<Rightarrow> string option) \<Rightarrow> string \<Rightarrow> string option option" where
  "null_if_empty col s = (if s = [] then Some None else map_option Some (col s))"

definition update_memory_item :: "columns \<Rightarrow> memory_item_row \<Rightarrow> (pg, unit) act" where
  "update_memory_item cols row db =
     (case decimal_col cols (string_of_double (mr_score row)) of None \<Rightarrow> (db, Threw) | Some score \<Rightarrow>
      case name_col cols (mr_status row) of None \<Rightarrow> (db, Threw) | Some status \<Rightarrow>
      case null_if_empty (time_col cols) (pq (mr_last_referenced_at row)) of None \<Rightarrow> (db, Threw) | Some refd \<Rightarrow>
      case null_if_empty (time_col cols) (pq (mr_decay_started_at row)) of None \<Rightarrow> (db, Threw) | Some decay \<Rightarrow>
      case null_if_empty (text_col cols) (pq (mr_concept row)) of None \<Rightarrow> (db, Threw) | Some concept \<Rightarrow>
      case null_if_empty (text_col cols) (pq (mr_understanding row)) of None \<Rightarrow> (db, Threw) | Some understanding \<Rightarrow>
      ret () (update_where (has_id (mr_id row))
        (\<lambda>r. r\<lparr>c_score := Some score, c_status := Some status,
               c_reference_count := Some (string_of_int (mr_reference_count row)), c_last_referenced_at := refd,
               c_decay_started_at := decay, c_concept := (if concept = None then c_concept r else concept),
               c_understanding := (if understanding = None then c_understanding r else understanding)\<rparr>) db))"

definition delete_memory_item :: "string \<Rightarrow> (pg, unit) act" where
  "delete_memory_item key = delete_where (has_id key)"

definition log_memory_promotion ::
  "columns \<Rightarrow> string \<Rightarrow> string \<Rightarrow> string \<Rightarrow> dbl \<Rightarrow> string \<Rightarrow> (pg, unit) act" where
  "log_memory_promotion cols key from_stage to_stage score reason db =
     (case those [text_col cols key, name_col cols from_stage, name_col cols to_stage,
                  decimal_col cols (string_of_double score), text_col cols reason] of
        None \<Rightarrow> (db, Threw)
      | Some v \<Rightarrow> ret () (db\<lparr>promotions := promotions db @ [(v ! 0, v ! 1, v ! 2, v ! 3, v ! 4)]\<rparr>))"

definition count_memories :: "pg \<Rightarrow> nat" where "count_memories db = length (items db)"

definition count_memories_by_kind :: "string \<Rightarrow> pg \<Rightarrow> nat" where
  "count_memories_by_kind kind db = length (filter (\<lambda>r. c_kind r = Some kind) (items db))"

definition count_qualifying_memories :: "pg \<Rightarrow> nat" where
  "count_qualifying_memories db =
     length (filter (\<lambda>r. c_source r \<in> Some ` {''reflection'', ''self_initiated'', ''voluntary'', ''chosen''}) (items db))"

definition pg_store :: "columns \<Rightarrow> string \<Rightarrow> pg memory_store" where
  "pg_store cols clock =
     \<lparr>op_store_tier = pg_store_tier cols clock, op_load_tier = pg_load_tier, op_delete_tier = pg_delete_tier,
      op_scan_tier = pg_scan_tier, op_has_tier = pg_has_tier, op_store_long_term = pg_store_long_term cols clock,
      op_fetch_by_status = fetch_by_status, op_update_item = update_memory_item cols, op_delete_item = delete_memory_item,
      op_log_promotion = log_memory_promotion cols\<rparr>"

section \<open>The table is a tier store\<close>

text \<open>What the columns of the server do; the numbers are those the program writes.\<close>

locale pg_columns =
  fixes cols :: columns
  assumes text_id: "text_col cols t = Some u \<Longrightarrow> u = t"
    and text_printable: "list_all printable t \<Longrightarrow> text_col cols t = Some t"
    and name_id: "name_col cols t = Some u \<Longrightarrow> u = t"
    and name_printable: "stage_name t \<Longrightarrow> name_col cols t = Some t"
    and decimal_ok: "\<bar>q\<bar> \<le> 100 \<Longrightarrow>
          \<exists>t w. decimal_col cols (string_of_double (Fin q)) = Some t \<and> safe_stod t = Some (Fin w) \<and> \<bar>w\<bar> \<le> 100"
    and time_blank: "time_col cols t = Some u \<Longrightarrow>
          10 < length u \<and> is_digit (u ! 0) \<and> u ! 10 = CHR '' '' \<and> time_col cols u = Some u"
    and vector_ok: "unit_point v \<Longrightarrow>
          \<exists>t w. vector_col cols (vector_to_pgarray v) = Some t \<and> pgarray_to_vector t = Some w \<and> unit_point w"

definition text_ok :: "columns \<Rightarrow> string option \<Rightarrow> bool" where
  "text_ok cols v \<longleftrightarrow> \<not> given v \<or> text_col cols (the v) \<noteq> None"

lemma text_ok_none [simp]: "text_ok cols None"
  by (simp add: text_ok_def given_def)

definition num_ok :: "dbl \<Rightarrow> bool" where
  "num_ok v \<longleftrightarrow> (\<exists>q. v = Fin q \<and> \<bar>q\<bar> \<le> 100)"

definition pg_storable :: "columns \<Rightarrow> memory_item \<Rightarrow> bool" where
  "pg_storable cols i \<longleftrightarrow>
     text_col cols (mi_id i) \<noteq> None \<and> text_col cols (mi_narrative i) \<noteq> None \<and> text_col cols (mi_source i) \<noteq> None
   \<and> name_col cols (mi_hemisphere i) \<noteq> None \<and> name_col cols (mi_marker i) \<noteq> None \<and> name_col cols (mi_season i) \<noteq> None
   \<and> name_col cols (mi_kind i) \<noteq> None \<and> name_col cols (mi_status i) \<noteq> None \<and> unit_point (mi_coordinates i)
   \<and> num_ok (mi_score i) \<and> num_ok (mi_geometric i) \<and> num_ok (mi_intensity i)
   \<and> mi_created_at i \<noteq> [] \<and> time_col cols (mi_created_at i) \<noteq> None
   \<and> text_ok cols (mi_concept i) \<and> text_ok cols (mi_understanding i)
   \<and> - (2 ^ 31) \<le> mi_reference_count i \<and> mi_reference_count i < 2 ^ 31"

definition pg_inv :: "columns \<Rightarrow> pg \<Rightarrow> bool" where
  "pg_inv cols db \<longleftrightarrow> distinct (map c_item_id (items db))
     \<and> (\<forall>r\<in>set (items db). \<exists>i. row_to_memory_item r = Some i \<and> pg_storable cols i)"

definition pg_place :: "pg \<Rightarrow> string \<Rightarrow> (string \<times> memory_item) option" where
  "pg_place db k =
     (case find (has_id k) (items db) of
        None \<Rightarrow> None | Some r \<Rightarrow> map_option (\<lambda>i. (c_tier r, i)) (row_to_memory_item r))"

text \<open>
  What is read back of an item written over an older one: the columns the statement assigns come
  from the new item, the creation time and the fall-out columns, the floor, the reflection and the
  two maintenance times from the old one.
\<close>

definition pg_kept :: "columns \<Rightarrow> string \<Rightarrow> memory_item option \<Rightarrow> memory_item \<Rightarrow> memory_item" where
  "pg_kept cols clock old i =
     (let v = the (item_texts cols clock i) in
      i\<lparr>mi_coordinates := the (pgarray_to_vector (v ! 3)), mi_score := the (safe_stod (v ! 4)),
        mi_geometric := the (safe_stod (v ! 5)), mi_intensity := the (safe_stod (v ! 7)),
        mi_concept := (if given (mi_concept i) then mi_concept i else Option.bind old mi_concept),
        mi_understanding := (if given (mi_understanding i) then mi_understanding i else Option.bind old mi_understanding),
        mi_reflection := Option.bind old mi_reflection,
        mi_created_at := (case old of None \<Rightarrow> v ! 10 | Some p \<Rightarrow> mi_created_at p),
        mi_failed_gate := Option.bind old mi_failed_gate, mi_entered_fallout_at := Option.bind old mi_entered_fallout_at,
        mi_floor := Option.bind old mi_floor, mi_last_referenced_at := Option.bind old mi_last_referenced_at,
        mi_decay_started_at := Option.bind old mi_decay_started_at\<rparr>)"

lemma stoi_string_of_int:
  assumes "- (2 ^ 31) \<le> n" "n < 2 ^ 31" shows "safe_stoi (string_of_int n) = Some n"
proof -
  have d: "list_all is_digit (string_of_nat m)" "number_of (string_of_nat m) = int m" "string_of_nat m \<noteq> []" for m
    using string_of_nat_digits by blast+
  have tw: "takeWhile is_digit (string_of_nat m) = string_of_nat m" for m
    using d(1)[of m] by (simp add: takeWhile_eq_all_conv list_all_iff)
  have sg: "sign_of (dropWhile is_space (string_of_nat m)) = (False, string_of_nat m)" for m
  proof -
    have "dropWhile is_space (string_of_nat m) = string_of_nat m"
      using digits_no_space[OF d(1,3), of m "[]"] by simp
    moreover obtain c r where "string_of_nat m = c # r" using d(3)[of m] by (cases "string_of_nat m") auto
    moreover from this have "c \<noteq> CHR ''-'' \<and> c \<noteq> CHR ''+''" using d(1)[of m] by (auto simp: is_digit_def)
    ultimately show ?thesis by (simp add: sign_of_def)
  qed
  show ?thesis
  proof (cases "n < 0")
    case True
    have "sign_of (dropWhile is_space (string_of_int n)) = (True, string_of_nat (nat (- n)))"
      using True by (simp add: string_of_int_def sign_of_def is_space_def)
    with True assms d(3) show ?thesis by (auto simp: safe_stoi_def stoi_def tw d(2) string_of_int_def)
  next
    case False
    with assms d(3) sg show ?thesis by (auto simp: safe_stoi_def stoi_def tw d(2) string_of_int_def)
  qed
qed

context pg_columns begin

lemma item_texts_ok:
  assumes "pg_storable cols i"
  obtains c s g n t where "item_texts cols clock i =
      Some [mi_id i, mi_narrative i, mi_hemisphere i, c, s, g, mi_marker i, n, mi_source i, mi_season i, t, mi_kind i, mi_status i]"
    "\<exists>w. pgarray_to_vector c = Some w \<and> unit_point w" "\<exists>w. safe_stod s = Some (Fin w) \<and> \<bar>w\<bar> \<le> 100"
    "\<exists>w. safe_stod g = Some (Fin w) \<and> \<bar>w\<bar> \<le> 100" "\<exists>w. safe_stod n = Some (Fin w) \<and> \<bar>w\<bar> \<le> 100"
    "time_col cols (mi_created_at i) = Some t" "t \<noteq> []" "time_col cols t = Some t"
proof -
  note s = assms[unfolded pg_storable_def]
  obtain c w where c: "vector_col cols (vector_to_pgarray (mi_coordinates i)) = Some c" "pgarray_to_vector c = Some w" "unit_point w"
    using vector_ok s by blast
  have num: "\<exists>t w. decimal_col cols (string_of_double v) = Some t \<and> safe_stod t = Some (Fin w) \<and> \<bar>w\<bar> \<le> 100" if "num_ok v" for v
    using that decimal_ok by (auto simp: num_ok_def)
  obtain s' ws where ds: "decimal_col cols (string_of_double (mi_score i)) = Some s'" "safe_stod s' = Some (Fin ws)" "\<bar>ws\<bar> \<le> 100"
    using num s by blast
  obtain g wg where dg: "decimal_col cols (string_of_double (mi_geometric i)) = Some g" "safe_stod g = Some (Fin wg)" "\<bar>wg\<bar> \<le> 100"
    using num s by blast
  obtain n wn where dn: "decimal_col cols (string_of_double (mi_intensity i)) = Some n" "safe_stod n = Some (Fin wn)" "\<bar>wn\<bar> \<le> 100"
    using num s by blast
  obtain t where t: "time_col cols (mi_created_at i) = Some t" using s by blast
  have tx: "text_col cols (mi_id i) = Some (mi_id i)" "text_col cols (mi_narrative i) = Some (mi_narrative i)"
    "text_col cols (mi_source i) = Some (mi_source i)" using s text_id by blast+
  have nm: "name_col cols (mi_hemisphere i) = Some (mi_hemisphere i)" "name_col cols (mi_marker i) = Some (mi_marker i)"
    "name_col cols (mi_season i) = Some (mi_season i)" "name_col cols (mi_kind i) = Some (mi_kind i)"
    "name_col cols (mi_status i) = Some (mi_status i)" using s name_id by blast+
  have "t \<noteq> []" "time_col cols t = Some t" using time_blank[OF t] by auto
  moreover have "item_texts cols clock i =
      Some [mi_id i, mi_narrative i, mi_hemisphere i, c, s', g, mi_marker i, n, mi_source i, mi_season i, t, mi_kind i, mi_status i]"
    using s by (simp add: item_texts_def tx nm c ds dg dn t)
  ultimately show thesis using that c ds dg dn t by blast
qed

lemma kept_storable:
  assumes "pg_storable cols i" "\<And>p. old = Some p \<Longrightarrow> pg_storable cols p"
  shows "pg_storable cols (pg_kept cols clock old i)" "mi_id (pg_kept cols clock old i) = mi_id i"
proof -
  obtain c s g n t where v: "item_texts cols clock i =
      Some [mi_id i, mi_narrative i, mi_hemisphere i, c, s, g, mi_marker i, n, mi_source i, mi_season i, t, mi_kind i, mi_status i]"
    "\<exists>w. pgarray_to_vector c = Some w \<and> unit_point w" "\<exists>w. safe_stod s = Some (Fin w) \<and> \<bar>w\<bar> \<le> 100"
    "\<exists>w. safe_stod g = Some (Fin w) \<and> \<bar>w\<bar> \<le> 100" "\<exists>w. safe_stod n = Some (Fin w) \<and> \<bar>w\<bar> \<le> 100"
    "time_col cols (mi_created_at i) = Some t" "t \<noteq> []" "time_col cols t = Some t"
    by (rule item_texts_ok[OF assms(1)])
  obtain wc ws wg wn where w: "pgarray_to_vector c = Some wc" "unit_point wc" "safe_stod s = Some (Fin ws)" "\<bar>ws\<bar> \<le> 100"
    "safe_stod g = Some (Fin wg)" "\<bar>wg\<bar> \<le> 100" "safe_stod n = Some (Fin wn)" "\<bar>wn\<bar> \<le> 100" using v(2-5) by blast
  note a = assms(1)[unfolded pg_storable_def]
  show "pg_storable cols (pg_kept cols clock old i)"
  proof (cases old)
    case None
    then show ?thesis
      unfolding pg_storable_def pg_kept_def v(1) Let_def
      using a v(7,8) w by (simp add: num_ok_def text_ok_none)
  next
    case (Some p)
    note b = assms(2)[OF Some, unfolded pg_storable_def]
    show ?thesis
      unfolding pg_storable_def pg_kept_def v(1) Let_def Some
      using a b w by (simp add: num_ok_def)
  qed
  show "mi_id (pg_kept cols clock old i) = mi_id i" by (simp add: pg_kept_def Let_def)
qed

end

subsection \<open>Reading back\<close>

definition put_texts :: "memory_item \<Rightarrow> db_row \<Rightarrow> db_row" where
  "put_texts i r = r\<lparr>c_concept := (if given (mi_concept i) then mi_concept i else c_concept r),
                    c_understanding := (if given (mi_understanding i) then mi_understanding i else c_understanding r)\<rparr>"

lemma update_where_twice:
  assumes "\<And>r. P (f r) = P r"
  shows "update_where P g (update_where P f db) = update_where P (\<lambda>r. g (f r)) db"
  using assms by (simp add: update_where_def)

lemma update_where_id [simp]: "update_where P (\<lambda>r. r) db = db"
  by (simp add: update_where_def)

lemma find_updated:
  assumes "\<And>r. c_item_id (G r) = c_item_id r"
  shows "find (has_id k) (items (update_where (has_id key) G db))
           = map_option (\<lambda>r. if has_id key r then G r else r) (find (has_id k) (items db))"
proof -
  let ?f = "\<lambda>r. if has_id key r then G r else r"
  have "has_id k \<circ> ?f = has_id k" using assms by (auto simp: has_id_def fun_eq_iff)
  then have "find (has_id k) (map ?f xs) = map_option ?f (find (has_id k) xs)" for xs
    by (induction xs) (auto simp: fun_eq_iff comp_def)
  then show ?thesis by (simp add: update_where_def)
qed

lemma read_fields:
  assumes "row_to_memory_item r = Some p"
  shows "opt_stod (c_failed_gate r) = Some (mi_failed_gate p)" "opt_stod (c_floor r) = Some (mi_floor p)"
    "nonempty (pq (c_entered_fallout_at r)) = mi_entered_fallout_at p" "nonempty (pq (c_reflection r)) = mi_reflection p"
    "nonempty (pq (c_concept r)) = mi_concept p" "nonempty (pq (c_understanding r)) = mi_understanding p"
    "nonempty (pq (c_last_referenced_at r)) = mi_last_referenced_at p" "nonempty (pq (c_decay_started_at r)) = mi_decay_started_at p"
    "pq (c_created_at r) = mi_created_at p" "c_item_id r = mi_id p"
  using assms by (auto simp: row_to_memory_item_def split: option.splits)

lemma given_pq: "given v \<Longrightarrow> nonempty (pq v) = v"
  by (cases v) (auto simp: given_def nonempty_def pq_def value_or_def)

lemma pq_Some [simp]: "pq (Some t) = t"
  by (simp add: pq_def value_or_def)

lemma bool_text_t [simp]: "bool_text b = ''t'' \<longleftrightarrow> b"
  by (simp add: bool_text_def)

lemma opt_stod_None [simp]: "opt_stod None = Some None"
  by (simp add: opt_stod_def pq_def value_or_def nonempty_def)

lemma nonempty_pq_None [simp]: "nonempty (pq None) = None"
  by (simp add: pq_def value_or_def nonempty_def)

context pg_columns begin

lemma follow_up_eq:
  assumes "pg_storable cols i"
  shows "follow_up cols i db = (update_where (has_id (mi_id i)) (put_texts i) db, Done ())"
proof -
  have st: "set_text cols put v key db = (update_where (has_id key) (\<lambda>r. if given v then put (the v) r else r) db, Done ())"
    if "text_ok cols v" for put v key db
  proof (cases "given v")
    case True
    then obtain u where "text_col cols (the v) = Some u" using \<open>text_ok cols v\<close> by (auto simp: text_ok_def)
    moreover from this have "u = the v" by (rule text_id)
    ultimately show ?thesis using True by (auto simp: set_text_def given_def)
  next
    case False
    then show ?thesis by (auto simp: set_text_def given_def)
  qed
  have ok: "text_ok cols (mi_concept i)" "text_ok cols (mi_understanding i)" using assms by (simp_all add: pg_storable_def)
  have g: "given v \<Longrightarrow> Some (the v) = v" for v :: "string option" by (auto simp: given_def)
  have "(\<lambda>r. if given (mi_understanding i) then (if given (mi_concept i) then r\<lparr>c_concept := Some (the (mi_concept i))\<rparr> else r)
             \<lparr>c_understanding := Some (the (mi_understanding i))\<rparr>
          else if given (mi_concept i) then r\<lparr>c_concept := Some (the (mi_concept i))\<rparr> else r) = put_texts i"
    using g by (auto simp: put_texts_def fun_eq_iff)
  then show ?thesis
    by (simp add: follow_up_def then_act_def bind_act_def st[OF ok(1)] st[OF ok(2)] update_where_twice has_id_def cong: if_cong)
qed

lemma read_back:
  assumes i: "pg_storable cols i" and v: "item_texts cols clock i = Some v"
    and r: "case old of None \<Rightarrow> r = fresh_row (v ! 0) (v ! 10) t0 | Some p \<Rightarrow> row_to_memory_item r = Some p \<and> c_item_id r = mi_id i"
  shows "row_to_memory_item (put_texts i ((put_item v i r)\<lparr>c_tier := tier\<rparr>)) = Some (pg_kept cols clock old i)"
proof -
  obtain c s g n t where iv: "item_texts cols clock i =
      Some [mi_id i, mi_narrative i, mi_hemisphere i, c, s, g, mi_marker i, n, mi_source i, mi_season i, t, mi_kind i, mi_status i]"
    and w: "\<exists>w. pgarray_to_vector c = Some w \<and> unit_point w" "\<exists>w. safe_stod s = Some (Fin w) \<and> \<bar>w\<bar> \<le> 100"
    "\<exists>w. safe_stod g = Some (Fin w) \<and> \<bar>w\<bar> \<le> 100" "\<exists>w. safe_stod n = Some (Fin w) \<and> \<bar>w\<bar> \<le> 100"
    by (rule item_texts_ok[OF i, of clock])
  then have v': "v = [mi_id i, mi_narrative i, mi_hemisphere i, c, s, g, mi_marker i, n, mi_source i, mi_season i, t, mi_kind i, mi_status i]"
    using v by simp
  obtain wc ws wg wn where w': "pgarray_to_vector c = Some wc" "safe_stod s = Some (Fin ws)" "safe_stod g = Some (Fin wg)"
    "safe_stod n = Some (Fin wn)" using w by blast
  have refs: "safe_stoi (string_of_int (mi_reference_count i)) = Some (mi_reference_count i)"
    using i by (intro stoi_string_of_int) (simp_all add: pg_storable_def)
  show ?thesis
  proof (cases old)
    case None
    then have r0: "r = fresh_row (mi_id i) t t0" using r by (simp add: v')
    show ?thesis
      unfolding pg_kept_def v Let_def r0 None
      by (simp add: row_to_memory_item_def put_texts_def put_item_def fresh_row_def v' w' refs given_pq)
  next
    case (Some p)
    then have p: "row_to_memory_item r = Some p" "c_item_id r = mi_id i" using r by auto
    show ?thesis
      unfolding pg_kept_def v Let_def Some
      by (simp add: row_to_memory_item_def put_texts_def put_item_def v' w' refs given_pq p(2) read_fields(1-9)[OF p(1)])
  qed
qed

end

subsection \<open>The laws\<close>

lemma find_has_id: "find (has_id k) xs = Some r \<Longrightarrow> r \<in> set xs \<and> c_item_id r = k"
  by (auto simp: find_Some_iff has_id_def)

lemma find_has_id_unique:
  "distinct (map c_item_id xs) \<Longrightarrow> find (has_id k) xs = Some r \<longleftrightarrow> r \<in> set xs \<and> c_item_id r = k"
  by (induction xs) (auto simp: has_id_def image_iff)

lemma those_all: "\<forall>x\<in>set xs. f x \<noteq> None \<Longrightarrow> those (map f xs) = Some (map (\<lambda>x. the (f x)) xs)"
  by (induction xs) auto

lemma pg_place_eq:
  assumes "pg_inv cols db"
  shows "pg_place db k = Some (t, i) \<longleftrightarrow> (\<exists>r\<in>set (items db). c_item_id r = k \<and> c_tier r = t \<and> row_to_memory_item r = Some i)"
proof -
  have "find (has_id k) (items db) = Some r \<longleftrightarrow> r \<in> set (items db) \<and> c_item_id r = k" for r
    using assms by (intro find_has_id_unique) (simp add: pg_inv_def)
  moreover have "pg_place db k = Some (t, i) \<longleftrightarrow>
      (\<exists>r. find (has_id k) (items db) = Some r \<and> c_tier r = t \<and> row_to_memory_item r = Some i)"
    by (auto simp: pg_place_def split: option.splits)
  ultimately show ?thesis by blast
qed

context pg_columns begin

definition written :: "string \<Rightarrow> string \<Rightarrow> memory_item \<Rightarrow> db_row \<Rightarrow> db_row" where
  "written clock tier i r = put_texts i ((put_item (the (item_texts cols clock i)) i r)\<lparr>c_tier := tier\<rparr>)"

lemma written_id [simp]: "c_item_id (written clock tier i r) = c_item_id r" "c_tier (written clock tier i r) = tier"
  by (simp_all add: written_def put_texts_def put_item_def)

lemma store_tier_eq:
  assumes "pg_storable cols i" and v: "item_texts cols clock i = Some v"
  shows "v ! 0 = mi_id i"
    "pg_store_tier cols clock tier i db =
       (if \<exists>r\<in>set (items db). has_id (mi_id i) r then update_where (has_id (mi_id i)) (written clock tier i) db
        else db\<lparr>items := items db @ [written clock tier i (fresh_row (v ! 0) (v ! 10) tier)]\<rparr>, Done ())"
proof -
  show v0: "v ! 0 = mi_id i"
    by (rule item_texts_ok[OF assms(1), of clock]) (use v in simp)
  show "pg_store_tier cols clock tier i db =
       (if \<exists>r\<in>set (items db). has_id (mi_id i) r then update_where (has_id (mi_id i)) (written clock tier i) db
        else db\<lparr>items := items db @ [written clock tier i (fresh_row (v ! 0) (v ! 10) tier)]\<rparr>, Done ())"
  proof (cases "\<exists>r\<in>set (items db). has_id (mi_id i) r")
    case True
    have h: "has_id (mi_id i) ((put_item v i r)\<lparr>c_tier := tier\<rparr>) = has_id (mi_id i) r" for r
      by (simp add: has_id_def put_item_def)
    have w: "written clock tier i = (\<lambda>r. put_texts i ((put_item v i r)\<lparr>c_tier := tier\<rparr>))"
      by (simp add: written_def v fun_eq_iff)
    show ?thesis using True
      by (simp add: pg_store_tier_def v v0 follow_up_eq[OF assms(1)] Let_def w
          update_where_twice[where P = "has_id (mi_id i)" and f = "\<lambda>r. (put_item v i r)\<lparr>c_tier := tier\<rparr>", OF h])
  next
    case False
    have "map (\<lambda>r. if has_id (mi_id i) r then put_texts i r else r) (items db) = items db"
      using False by (auto intro!: map_idI)
    moreover have "has_id (mi_id i) ((put_item v i (fresh_row (mi_id i) (v ! 10) tier))\<lparr>c_tier := tier\<rparr>)"
      by (simp add: has_id_def put_item_def fresh_row_def)
    ultimately show ?thesis using False
      by (simp add: pg_store_tier_def v v0 follow_up_eq[OF assms(1)] Let_def update_where_def written_def)
  qed
qed

lemma store_tier_law:
  assumes inv: "pg_inv cols db" and i: "pg_storable cols i"
  shows "\<exists>db'. pg_store_tier cols clock tier i db = (db', Done ()) \<and> pg_inv cols db'
     \<and> pg_place db' = (pg_place db)(mi_id i \<mapsto> (tier, pg_kept cols clock (map_option snd (pg_place db (mi_id i))) i))"
proof -
  obtain v where v: "item_texts cols clock i = Some v" by (rule item_texts_ok[OF i, of clock]) blast
  note st = store_tier_eq[OF i v]
  have rb: "row_to_memory_item (written clock tier i r) = Some (pg_kept cols clock (Some p) i) \<and> pg_storable cols (pg_kept cols clock (Some p) i)"
    if "row_to_memory_item r = Some p" "c_item_id r = mi_id i" "pg_storable cols p" for r p
    using read_back[OF i v, where old = "Some p" and r = r] kept_storable(1)[OF i, where old = "Some p"] that by (simp add: written_def v)
  have rf: "row_to_memory_item (written clock tier i (fresh_row (v ! 0) (v ! 10) t)) = Some (pg_kept cols clock None i)
      \<and> pg_storable cols (pg_kept cols clock None i)" for t
    using read_back[OF i v, where old = None] kept_storable(1)[OF i, where old = None] by (simp add: written_def v)
  show ?thesis
  proof (cases "find (has_id (mi_id i)) (items db)")
    case None
    then have ne: "\<forall>r\<in>set (items db). c_item_id r \<noteq> mi_id i" by (simp add: find_None_iff has_id_def)
    let ?db = "db\<lparr>items := items db @ [written clock tier i (fresh_row (v ! 0) (v ! 10) tier)]\<rparr>"
    have "pg_inv cols ?db" using inv rf ne by (auto simp: pg_inv_def st(1) fresh_row_def)
    moreover have "find (has_id k) (xs @ [x]) = (case find (has_id k) xs of Some r \<Rightarrow> Some r | None \<Rightarrow> if has_id k x then Some x else None)"
      for k xs x by (induction xs) auto
    then have "pg_place ?db = (pg_place db)(mi_id i \<mapsto> (tier, pg_kept cols clock (map_option snd (pg_place db (mi_id i))) i))"
      using None rf by (auto simp: fun_eq_iff pg_place_def has_id_def fresh_row_def st(1) split: option.splits)
    ultimately show ?thesis using st(2) ne by (simp add: has_id_def)
  next
    case (Some r)
    then have r: "r \<in> set (items db)" "c_item_id r = mi_id i" using find_has_id by auto
    then obtain p where p: "row_to_memory_item r = Some p" "pg_storable cols p" using inv by (auto simp: pg_inv_def)
    let ?db = "update_where (has_id (mi_id i)) (written clock tier i) db"
    have f: "find (has_id k) (items ?db) = map_option (\<lambda>r. if has_id (mi_id i) r then written clock tier i r else r) (find (has_id k) (items db))" for k
      by (rule find_updated) simp
    have "map c_item_id (items ?db) = map c_item_id (items db)" by (simp add: update_where_def)
    moreover have "\<exists>j. row_to_memory_item r' = Some j \<and> pg_storable cols j" if m: "r' \<in> set (items ?db)" for r'
    proof -
      obtain r0 where r0: "r0 \<in> set (items db)" "r' = (if has_id (mi_id i) r0 then written clock tier i r0 else r0)"
        using m by (auto simp: update_where_def)
      obtain p0 where p0: "row_to_memory_item r0 = Some p0" "pg_storable cols p0" using inv r0(1) by (auto simp: pg_inv_def)
      show ?thesis
      proof (cases "c_item_id r0 = mi_id i")
        case True
        then show ?thesis using rb[OF p0(1) True p0(2)] r0(2) by (simp add: has_id_def)
      next
        case False
        then show ?thesis using p0 r0(2) by (simp add: has_id_def)
      qed
    qed
    ultimately have "pg_inv cols ?db" using inv by (simp add: pg_inv_def)
    moreover have "pg_place ?db k = ((pg_place db)(mi_id i \<mapsto> (tier, pg_kept cols clock (map_option snd (pg_place db (mi_id i))) i))) k" for k
    proof (cases "k = mi_id i")
      case True
      then show ?thesis using Some rb[OF p(1) r(2) p(2)] p(1) r(2) by (simp add: pg_place_def f has_id_def)
    next
      case False
      have "find (has_id k) (items db) = Some r' \<Longrightarrow> \<not> has_id (mi_id i) r'" for r'
        using False find_has_id[of k] by (auto simp: has_id_def)
      with False show ?thesis by (auto simp: pg_place_def f split: option.splits)
    qed
    ultimately show ?thesis using st(2) r by (auto simp: has_id_def fun_eq_iff)
  qed
qed

lemma delete_law:
  assumes inv: "pg_inv cols db"
  shows "\<exists>db'. pg_delete_tier tier key db = (db', Done ()) \<and> pg_inv cols db'
     \<and> pg_place db' = (if map_option fst (pg_place db key) = Some tier then (pg_place db)(key := None) else pg_place db)"
proof -
  let ?db = "db\<lparr>items := filter (\<lambda>r. \<not> (c_tier r = tier \<and> has_id key r)) (items db)\<rparr>"
  have i: "pg_inv cols ?db" using inv by (auto simp: pg_inv_def distinct_map_filter)
  have "pg_place ?db k = (if map_option fst (pg_place db key) = Some tier then (pg_place db)(key := None) else pg_place db) k" for k
  proof (rule option.expand)
    have e: "pg_place ?db k = Some (t, j) \<longleftrightarrow> pg_place db k = Some (t, j) \<and> \<not> (t = tier \<and> k = key)" for t j
      unfolding pg_place_eq[OF i] pg_place_eq[OF inv] by (auto simp: has_id_def)
    then have n: "pg_place ?db k = (if map_option fst (pg_place db key) = Some tier \<and> k = key then None else pg_place db k)"
      by (cases "pg_place ?db k"; cases "pg_place db k") (force split: if_splits)+
    then show "(pg_place ?db k = None) = ((if map_option fst (pg_place db key) = Some tier then (pg_place db)(key := None) else pg_place db) k = None)"
      by auto
    show "the (pg_place ?db k) = the ((if map_option fst (pg_place db key) = Some tier then (pg_place db)(key := None) else pg_place db) k)"
      using n by auto
  qed
  then show ?thesis using i by (auto simp: pg_delete_tier_def delete_where_def fun_eq_iff)
qed

lemma scan_law:
  assumes inv: "pg_inv cols db"
  shows "\<exists>xs. pg_scan_tier tier db = (db, Done xs) \<and> distinct (map fst xs)
     \<and> (\<forall>k i. (k, i) \<in> set xs \<longleftrightarrow> pg_place db k = Some (tier, i))"
proof -
  let ?read = "\<lambda>r. map_option (\<lambda>i. (mi_id i, i)) (row_to_memory_item r)"
  let ?rows = "filter (\<lambda>r. c_tier r = tier) (items db)"
  let ?xs = "map (\<lambda>r. the (?read r)) ?rows"
  have ok: "\<exists>i. row_to_memory_item r = Some i \<and> mi_id i = c_item_id r" if m: "r \<in> set (items db)" for r
  proof -
    obtain i where "row_to_memory_item r = Some i" using m inv by (auto simp: pg_inv_def)
    then show ?thesis using read_fields(10) by auto
  qed
  have "those (map ?read ?rows) = Some ?xs" by (rule those_all) (use ok in force)
  then have s: "pg_scan_tier tier db = (db, Done ?xs)" by (simp add: pg_scan_tier_def select_items_def)
  have m: "map fst ?xs = map c_item_id ?rows" using ok by (force simp: comp_def)
  have "distinct (map c_item_id ?rows)" using inv by (simp add: pg_inv_def distinct_map_filter)
  then have d: "distinct (map fst ?xs)" by (simp only: m)
  have "(k, i) \<in> set ?xs \<longleftrightarrow> (\<exists>r\<in>set (items db). c_item_id r = k \<and> c_tier r = tier \<and> row_to_memory_item r = Some i)" for k i
  proof
    assume "(k, i) \<in> set ?xs"
    then obtain r where r: "r \<in> set (items db)" "c_tier r = tier" "(k, i) = the (?read r)" by auto
    with ok[OF r(1)] show "\<exists>r\<in>set (items db). c_item_id r = k \<and> c_tier r = tier \<and> row_to_memory_item r = Some i" by force
  next
    assume "\<exists>r\<in>set (items db). c_item_id r = k \<and> c_tier r = tier \<and> row_to_memory_item r = Some i"
    then obtain r where r: "r \<in> set (items db)" "c_item_id r = k" "c_tier r = tier" "row_to_memory_item r = Some i" by blast
    with ok[OF r(1)] have "(k, i) = the (?read r)" by auto
    moreover have "r \<in> set ?rows" using r(1,3) by simp
    ultimately show "(k, i) \<in> set ?xs" unfolding list.set_map by (rule image_eqI)
  qed
  with s d show ?thesis using pg_place_eq[OF inv] by blast
qed

lemma log_law:
  assumes inv: "pg_inv cols db" and i: "pg_storable cols i" and n: "stage_name a" "stage_name b" "list_all printable r"
  shows "\<exists>db'. log_memory_promotion cols (mi_id i) a b (mi_score i) r db = (db', Done ()) \<and> pg_inv cols db' \<and> pg_place db' = pg_place db"
proof -
  obtain t where "text_col cols (mi_id i) = Some t" using i by (auto simp: pg_storable_def)
  moreover obtain u where "decimal_col cols (string_of_double (mi_score i)) = Some u"
    using i decimal_ok by (fastforce simp: pg_storable_def num_ok_def)
  moreover have "pg_inv cols (db\<lparr>promotions := p\<rparr>)" "pg_place (db\<lparr>promotions := p\<rparr>) = pg_place db" for p
    using inv by (auto simp: pg_inv_def pg_place_def fun_eq_iff)
  ultimately show ?thesis
    using name_printable[OF n(1)] name_printable[OF n(2)] text_printable[OF n(3)] by (simp add: log_memory_promotion_def)
qed

end

sublocale pg_columns \<subseteq> tier: tier_store "pg_store cols clock" pg_place "pg_kept cols clock" "pg_storable cols" "pg_inv cols"
  for clock
proof
  fix s :: pg and i :: memory_item and t k a b r :: string
  assume inv: "pg_inv cols s"
  show "\<exists>s'. op_delete_tier (pg_store cols clock) t k s = (s', Done ()) \<and> pg_inv cols s'
      \<and> pg_place s' = (if map_option fst (pg_place s k) = Some t then (pg_place s)(k := None) else pg_place s)"
    using delete_law[OF inv] by (simp add: pg_store_def)
  show "\<exists>xs. op_scan_tier (pg_store cols clock) t s = (s, Done xs) \<and> distinct (map fst xs)
      \<and> (\<forall>k i. ((k, i) \<in> set xs) = (pg_place s k = Some (t, i)))"
    using scan_law[OF inv] by (simp add: pg_store_def)
  show "mi_id i = k" if "pg_place s k = Some (t, i)"
    using that read_fields(10) by (auto simp: pg_place_eq[OF inv])
  show "pg_storable cols i" if "pg_place s k = Some (t, i)"
    using that inv by (auto simp: pg_place_eq[OF inv] pg_inv_def)
  assume i: "pg_storable cols i"
  show "\<exists>s'. op_store_tier (pg_store cols clock) t i s = (s', Done ()) \<and> pg_inv cols s'
      \<and> pg_place s' = (pg_place s)(mi_id i \<mapsto> (t, pg_kept cols clock (map_option snd (pg_place s (mi_id i))) i))"
    using store_tier_law[OF inv i] by (simp add: pg_store_def)
  have "name_col cols ''active'' = Some ''active''" by (rule name_printable) (simp add: stage_name_def printable_def)
  then have "pg_storable cols (i\<lparr>mi_status := ''active''\<rparr>)" using i by (simp add: pg_storable_def)
  from store_tier_law[OF inv this]
  show "\<exists>s'. op_store_long_term (pg_store cols clock) i ''active'' s = (s', Done ()) \<and> pg_inv cols s'
      \<and> pg_place s' = (pg_place s)(mi_id i \<mapsto>
           (''long_term'', pg_kept cols clock (map_option snd (pg_place s (mi_id i))) (i\<lparr>mi_status := ''active''\<rparr>)))"
    by (simp add: pg_store_def pg_store_long_term_def)
  show "\<exists>s'. op_log_promotion (pg_store cols clock) (mi_id i) a b (mi_score i) r s = (s', Done ()) \<and> pg_inv cols s' \<and> pg_place s' = pg_place s"
    if "stage_name a" "stage_name b" "list_all printable r"
    using log_law[OF inv i that] by (simp add: pg_store_def)
next
  show "pg_storable cols (i\<lparr>mi_failed_gate := g, mi_entered_fallout_at := e\<rparr>)" if "pg_storable cols i" for i g e
    using that by (simp add: pg_storable_def)
qed

context pg_columns begin

lemma sweep_law:
  "pg_inv cols db \<Longrightarrow> \<exists>db' c. run_sweep (Some (pg_store cols clock)) clock now db = (db', Done c) \<and> pg_inv cols db'
     \<and> (\<forall>k. pg_place db' k = Option.bind (pg_place db k) (swept (pg_kept cols clock) clock now))"
  by (rule tier.sweep_places)

end

section \<open>Columns that keep their texts\<close>

definition plain_columns :: columns where
  "plain_columns =
     \<lparr>text_col = Some, name_col = (\<lambda>t. if length t \<le> 20 then Some t else None), decimal_col = Some,
      time_col = (\<lambda>t. if 10 < length t \<and> is_digit (t ! 0) then Some (t[10 := CHR '' '']) else None), vector_col = Some\<rparr>"

lemma takeWhile_digits: "list_all is_digit a \<Longrightarrow> takeWhile is_digit (a @ CHR ''.'' # b) = a \<and> dropWhile is_digit (a @ CHR ''.'' # b) = CHR ''.'' # b"
  by (induction a) (auto simp: is_digit_def)

lemma stod_decimal:
  assumes "list_all is_digit a" "a \<noteq> []" "list_all is_digit b"
  shows "stod ((if neg then ''-'' else []) @ a @ ''.'' @ b)
           = in_range ((if neg then -1 else 1) * of_int (number_of (a @ b)) / 10 ^ length b)"
proof -
  obtain c r where cr: "a = c # r" using assms(2) by (cases a) auto
  then have c: "\<not> is_space c" "c \<noteq> CHR ''-''" "c \<noteq> CHR ''+''" using assms(1) by (auto simp: is_digit_def is_space_def)
  have s: "sign_of (dropWhile is_space ((if neg then ''-'' else []) @ a @ ''.'' @ b)) = (neg, a @ CHR ''.'' # b)"
  proof -
    have "\<not> is_space (CHR ''-'')" by (simp add: is_space_def)
    with c show ?thesis by (cases neg) (simp_all add: sign_of_def cr)
  qed
  have tw: "takeWhile is_digit b = b" "dropWhile is_digit b = []"
    using assms(3) by (simp_all add: takeWhile_eq_all_conv dropWhile_eq_Nil_conv list_all_iff)
  show ?thesis
    unfolding stod_def s Let_def prod.case takeWhile_digits[OF assms(1), THEN conjunct1] takeWhile_digits[OF assms(1), THEN conjunct2]
    using assms(2) by (simp add: tw exponent_of_def)
qed

lemma stod_fixed:
  assumes p: "0 < p"
  shows "stod (fixed_string p (Fin q)) = in_range ((if q < 0 then -1 else 1) * of_int (rne (\<bar>q\<bar> * 10 ^ p)) / 10 ^ p)"
proof -
  define m where "m = nat (rne (\<bar>q\<bar> * 10 ^ p))"
  define a where "a = string_of_nat (m div 10 ^ p)"
  define b where "b = pad_zeros p (string_of_nat (m mod 10 ^ p))"
  have a: "list_all is_digit a" "number_of a = int (m div 10 ^ p)" "a \<noteq> []"
    using string_of_nat_digits unfolding a_def by blast+
  have b: "length b = p" "list_all is_digit b" "number_of b = int (m mod 10 ^ p)"
    using pad_zeros_reads[of "m mod 10 ^ p" p] p by (simp_all add: b_def)
  have "number_of (a @ b) = int (m div 10 ^ p * 10 ^ p + m mod 10 ^ p)"
    unfolding number_of_append b a(2) by simp
  then have "number_of (a @ b) = int m" by (simp only: div_mult_mod_eq)
  then have n: "number_of (a @ b) = rne (\<bar>q\<bar> * 10 ^ p)" by (simp add: m_def rne_nonneg)
  have f: "fixed_string p (Fin q) = (if q < 0 then ''-'' else []) @ a @ ''.'' @ b"
    by (simp add: fixed_string_def fixed_digits_def m_def a_def b_def)
  show ?thesis unfolding f stod_decimal[OF a(1,3) b(2)] n b(1) ..
qed

lemma in_range_ok:
  assumes "\<bar>q\<bar> \<le> b" "b \<le> 100" "rep b" "q = 0 \<or> 1 / 10 ^ 10 \<le> \<bar>q\<bar>"
  shows "\<exists>w. in_range q = Some (Fin w) \<and> \<bar>w\<bar> \<le> b \<and> (0 \<le> q \<longrightarrow> 0 \<le> w)"
proof -
  have b0: "0 \<le> b" using assms(1) by (meson abs_ge_zero order_trans)
  have "(100::rat) < 2 ^ 53" by simp
  then have l: "b < dbl_limit" using dbl_limit_big assms(2) by linarith
  have r: "rnd q = Fin (round_rat q)" "- b \<le> round_rat q" "round_rat q \<le> b"
    using rnd_between[OF rep_minus[OF assms(3)] assms(3), of q] assms(1) l by auto
  have z: "0 \<le> q \<Longrightarrow> 0 \<le> round_rat q" by (rule round_rat_nonneg)
  have "2 powi (-1022) \<le> \<bar>round_rat q\<bar>" if "q \<noteq> 0"
  proof -
    have e: "(2::rat) powi (-40) \<le> 1 / 10 ^ 10" by (simp add: power_int_minus)
    have rp: "rep (2 powi (-40))" by (rule repI[of _ 1 "-40"]) simp_all
    have "\<bar>round_rat q\<bar> = round_rat \<bar>q\<bar>"
      using round_rat_minus[of q] round_rat_nonneg[of q] round_rat_nonpos[of q] by (cases "0 \<le> q") simp_all
    moreover have "2 powi (-40) \<le> round_rat \<bar>q\<bar>"
      using round_rat_ge[OF _ rp, of "\<bar>q\<bar>"] assms(4) that e by linarith
    moreover have "(2::rat) powi (-1022) \<le> 2 powi (-40)" by (subst powi_le_iff) simp
    ultimately show ?thesis by linarith
  qed
  then have "\<not> (q \<noteq> 0 \<and> \<bar>round_rat q\<bar> < 2 powi (-1022) \<and> round_rat q \<noteq> q)" by (metis not_less)
  then have "in_range q = Some (Fin (round_rat q))" unfolding in_range_def r(1) dbl.case by (rule if_not_P)
  with r z show ?thesis by (auto simp: abs_le_iff)
qed

lemma stod_fixed_ok:
  assumes "0 < p" "p \<le> 10" "\<bar>q\<bar> \<le> of_int n" "n \<le> 100"
  shows "\<exists>w. stod (fixed_string p (Fin q)) = Some (Fin w) \<and> \<bar>w\<bar> \<le> of_int n \<and> (0 \<le> q \<longrightarrow> 0 \<le> w)"
proof -
  let ?m = "rne (\<bar>q\<bar> * 10 ^ p)"
  let ?v = "(if q < 0 then -1 else 1) * of_int ?m / 10 ^ p :: rat"
  have n0: "0 \<le> n" using assms(3) by (metis abs_ge_zero of_int_0_le_iff order_trans)
  have "\<bar>q\<bar> * 10 ^ p \<le> of_int n * 10 ^ p" using assms(3) by (intro mult_right_mono) simp_all
  then have "\<bar>q\<bar> * 10 ^ p \<le> of_int (n * 10 ^ p)" by simp
  then have "?m \<le> n * 10 ^ p" by (rule rne_le_of_int)
  then have "(of_int ?m :: rat) \<le> of_int (n * 10 ^ p)" by (simp only: of_int_le_iff)
  then have u: "of_int ?m / 10 ^ p \<le> (of_int n :: rat)" by (simp add: field_simps)
  have m0: "0 \<le> ?m" by (rule rne_nonneg) simp
  have "\<bar>?v\<bar> = of_int ?m / 10 ^ p" using m0 by (simp add: abs_mult)
  with u have 1: "\<bar>?v\<bar> \<le> of_int n" by simp
  have "?v = 0 \<or> 1 / 10 ^ 10 \<le> \<bar>?v\<bar>"
  proof (cases "?m = 0")
    case False
    then have "1 \<le> (of_int ?m :: rat)" using m0 by (metis int_one_le_iff_zero_less le_less of_int_1_le_iff)
    moreover have "(10::rat) ^ p \<le> 10 ^ 10" using assms(2) by (intro power_increasing) simp_all
    ultimately have "1 / 10 ^ 10 \<le> of_int ?m / (10::rat) ^ p" by (intro frac_le) simp_all
    with \<open>\<bar>?v\<bar> = of_int ?m / 10 ^ p\<close> show ?thesis by simp
  qed simp
  then have "\<exists>w. in_range ?v = Some (Fin w) \<and> \<bar>w\<bar> \<le> of_int n \<and> (0 \<le> ?v \<longrightarrow> 0 \<le> w)"
    using in_range_ok[OF 1] assms(4) n0 by (simp add: rep_of_int)
  moreover have "0 \<le> q \<Longrightarrow> 0 \<le> ?v" using m0 by simp
  ultimately show ?thesis unfolding stod_fixed[OF assms(1)] by blast
qed

lemma vector_to_pgarray_tokens:
  "concat (map (\<lambda>i. (if 0 < i then '','' else []) @ f (v ! i)) [0..<length v])
     = (case v of [] \<Rightarrow> [] | x # xs \<Rightarrow> f x @ concat (map (\<lambda>y. CHR '','' # f y) xs))"
proof (cases v)
  case (Cons x xs)
  have "concat (map (\<lambda>i. (if 0 < i then '','' else []) @ f (v ! i)) [0..<Suc (length xs)])
      = f x @ concat (map (\<lambda>i. CHR '','' # f (xs ! i)) [0..<length xs])"
    unfolding upt_conv_Cons[OF zero_less_Suc] map_Suc_upt[symmetric] by (simp add: Cons comp_def)
  also have "map (\<lambda>i. CHR '','' # f (xs ! i)) [0..<length xs] = map (\<lambda>y. CHR '','' # f y) xs"
    by (rule nth_equalityI) simp_all
  finally show ?thesis by (simp add: Cons)
qed simp

definition plain_token :: "string \<Rightarrow> bool" where
  "plain_token t \<longleftrightarrow> t \<noteq> [] \<and> CHR '','' \<notin> set t \<and> CHR '' '' \<notin> set t"

lemma tokens_append: "CHR '','' \<notin> set t \<Longrightarrow> CHR '' '' \<notin> set t \<Longrightarrow> tokens acc (t @ r) = tokens (acc @ t) r"
  by (induction t arbitrary: acc) auto

lemma tokens_list:
  "plain_token t \<Longrightarrow> list_all plain_token ts \<Longrightarrow> tokens [] (t @ concat (map (\<lambda>y. CHR '','' # y) ts)) = t # ts"
proof (induction ts arbitrary: t)
  case Nil
  then show ?case using tokens_append[of t "[]" "[]"] by (simp add: plain_token_def)
next
  case (Cons u us)
  have "tokens [] (t @ CHR '','' # u @ concat (map (\<lambda>y. CHR '','' # y) us)) = t # tokens [] (u @ concat (map (\<lambda>y. CHR '','' # y) us))"
    using Cons.prems(1) by (simp add: tokens_append plain_token_def)
  then show ?case using Cons by simp
qed

lemma fixed_plain: "plain_token (fixed_string p (Fin q))"
proof -
  have d: "list_all is_digit s \<Longrightarrow> CHR '','' \<notin> set s \<and> CHR '' '' \<notin> set s" for s
    by (auto simp: list_all_iff is_digit_def)
  have z: "set (replicate k (CHR ''0'')) \<subseteq> {CHR ''0''}" for k by auto
  have n: "CHR '','' \<notin> set (string_of_nat n) \<and> CHR '' '' \<notin> set (string_of_nat n)" for n
    using string_of_nat_digits d by blast
  show ?thesis using n z by (auto simp: plain_token_def fixed_string_def fixed_digits_def pad_zeros_def)
qed

lemma pgarray_round:
  assumes "unit_point v"
  shows "\<exists>w. pgarray_to_vector (vector_to_pgarray v) = Some w \<and> unit_point w"
proof -
  obtain q where q: "v = map Fin q" "length q = 14" "\<forall>i<14. 0 \<le> q ! i \<and> q ! i \<le> 1"
    using assms by (auto simp: unit_point_map)
  then obtain x xs where xs: "q = x # xs" by (cases q) auto
  let ?f = "\<lambda>y. fixed_string 10 (Fin y)"
  have t: "tokens [] (?f x @ concat (map (\<lambda>y. CHR '','' # ?f y) xs)) = map ?f q"
    using tokens_list[of "?f x" "map ?f xs"] fixed_plain by (simp add: xs list_all_iff comp_def)
  have "vector_to_pgarray v = CHR ''['' # (?f x @ concat (map (\<lambda>y. CHR '','' # ?f y) xs)) @ '']''"
    using vector_to_pgarray_tokens[of "fixed_string 10" v] by (simp add: vector_to_pgarray_def q(1) xs comp_def)
  then have p: "pgarray_to_vector (vector_to_pgarray v) = those (map stod (map ?f q))"
    by (simp add: pgarray_to_vector_def t)
  have ok: "\<exists>w. stod (?f y) = Some (Fin w) \<and> 0 \<le> w \<and> w \<le> 1" if "y \<in> set q" for y
  proof -
    have "0 \<le> y" "y \<le> 1" using that q(2,3) by (auto simp: in_set_conv_nth)
    then show ?thesis using stod_fixed_ok[of 10 y 1] by auto
  qed
  then have "those (map (stod \<circ> ?f) q) = Some (map (\<lambda>y. the (stod (?f y))) q)"
    using those_all[of q "stod \<circ> ?f"] by force
  moreover have "unit_point (map (\<lambda>y. the (stod (?f y))) q)"
    unfolding unit_point_def using ok q(2) by (force simp: in_set_conv_nth)
  ultimately show ?thesis by (simp add: p)
qed

interpretation plain: pg_columns plain_columns
proof
  show "\<exists>t w. decimal_col plain_columns (string_of_double (Fin q)) = Some t \<and> safe_stod t = Some (Fin w) \<and> \<bar>w\<bar> \<le> 100"
    if "\<bar>q\<bar> \<le> 100" for q
  proof -
    have "fixed_string 6 (Fin q) \<noteq> []" using fixed_plain by (auto simp: plain_token_def)
    then show ?thesis using stod_fixed_ok[of 6 q 100] that
      by (auto simp: plain_columns_def string_of_double_def safe_stod_def)
  qed
  show "\<exists>t w. vector_col plain_columns (vector_to_pgarray v) = Some t \<and> pgarray_to_vector t = Some w \<and> unit_point w"
    if "unit_point v" for v
    using pgarray_round[OF that] by (simp add: plain_columns_def)
qed (auto simp: plain_columns_def stage_name_def split: if_splits)

section \<open>The sweep on the database\<close>

text \<open>
  C7: a sweep moves every memory by one step: on a readable table the sweep does not throw, keeps
  the table readable, and leaves every item in the one place that its tier, its score and its gate
  fix: an item of a tier that reaches the gate is in the next tier, from the third in the long term,
  one that does not is in the fallout; an item of the fallout that can be read as within its 48
  hours stays, one beyond them goes back to the first tier when it reaches the gate it failed, and
  only the others are gone; items elsewhere do not move and none appears twice or from nowhere.
\<close>

theorem sweep_moves_each_once:
  assumes "pg_columns cols" and "pg_inv cols db"
  shows "\<exists>db' c. run_sweep (Some (pg_store cols clock)) clock now db = (db', Done c) \<and> pg_inv cols db'
     \<and> (\<forall>k. pg_place db' k = Option.bind (pg_place db k) (swept (pg_kept cols clock) clock now))"
  using assms by (rule pg_columns.sweep_law)

definition sample_item :: memory_item where
  "sample_item = new_memory_item\<lparr>mi_id := ''m-1'', mi_narrative := ''a walk'', mi_coordinates := map Fin (replicate 14 (1/2)),
     mi_score := Fin 2, mi_created_at := ''2026-01-01T00:00:00Z''\<rparr>"

definition sample_db :: pg where
  "sample_db = fst (pg_store_tier plain_columns [] ''t1'' sample_item \<lparr>items = [], promotions = []\<rparr>)"

lemma sample_item_storable: "pg_storable plain_columns sample_item"
proof -
  have "num_ok (Fin (1/2))" "num_ok (Fin 2)" "num_ok (Fin 0)" by (auto simp: num_ok_def intro!: exI[of _ "1/2"])
  then show ?thesis
    using unit_point_replicate[of "1/2"]
    by (simp add: pg_storable_def sample_item_def new_memory_item_def plain_columns_def is_digit_def
        del: map_replicate)
qed

lemma sample_db:
  "pg_inv plain_columns sample_db"
  "\<exists>j. pg_place sample_db ''m-1'' = Some (''t1'', j) \<and> mi_entered_fallout_at j = None \<and> mi_failed_gate j = None
      \<and> mi_status j = ''active'' \<and> (\<exists>q. mi_score j = Fin q \<and> q < 3)"
proof -
  have e: "pg_inv plain_columns \<lparr>items = [], promotions = []\<rparr>" by (simp add: pg_inv_def)
  obtain db where db: "pg_store_tier plain_columns [] ''t1'' sample_item \<lparr>items = [], promotions = []\<rparr> = (db, Done ())"
    "pg_inv plain_columns db"
    "pg_place db = (pg_place \<lparr>items = [], promotions = []\<rparr>)(''m-1'' \<mapsto> (''t1'', pg_kept plain_columns [] None sample_item))"
    using plain.store_tier_law[OF e sample_item_storable, of "[]" "''t1''"]
    by (auto simp: sample_item_def pg_place_def)
  then have s: "sample_db = db" by (simp add: sample_db_def)
  show "pg_inv plain_columns sample_db" using db(2) by (simp add: s)
  obtain v where v: "item_texts plain_columns [] sample_item = Some v" "v ! 4 = string_of_double (Fin 2)"
    by (rule plain.item_texts_ok[OF sample_item_storable, of "[]"])
       (auto simp: item_texts_def plain_columns_def sample_item_def new_memory_item_def)
  have "\<exists>w. safe_stod (v ! 4) = Some (Fin w) \<and> \<bar>w\<bar> \<le> 2"
    using stod_fixed_ok[of 6 2 2] fixed_plain[of 6 2] by (auto simp: v(2) string_of_double_def safe_stod_def plain_token_def)
  then obtain w where w: "safe_stod (v ! 4) = Some (Fin w)" "w < 3" by fastforce
  have "pg_place sample_db ''m-1'' = Some (''t1'', pg_kept plain_columns [] None sample_item)" by (simp add: s db(3))
  then show "\<exists>j. pg_place sample_db ''m-1'' = Some (''t1'', j) \<and> mi_entered_fallout_at j = None \<and> mi_failed_gate j = None
      \<and> mi_status j = ''active'' \<and> (\<exists>q. mi_score j = Fin q \<and> q < 3)"
    unfolding pg_kept_def v(1) Let_def option.sel using w by (simp add: sample_item_def new_memory_item_def)
qed

theorem sweep_moves_each_once_witness:
  "\<exists>db' c. run_sweep (Some (pg_store plain_columns ''2026-01-02T00:00:00Z'')) ''2026-01-02T00:00:00Z'' 0 sample_db = (db', Done c)
     \<and> map_option fst (pg_place db' ''m-1'') = Some ''fallout''"
proof -
  obtain j q where j: "pg_place sample_db ''m-1'' = Some (''t1'', j)" "mi_score j = Fin q" "q < 3" using sample_db(2) by blast
  have "pg_columns plain_columns" ..
  from sweep_moves_each_once[OF this sample_db(1), of "''2026-01-02T00:00:00Z''" 0]
  show ?thesis using j by (auto simp: swept_def GATE_T1_TO_T2_def)
qed

section \<open>What the database can come to hold\<close>

text \<open>The tables that the methods of the backend can make of an empty one.\<close>

inductive pg_reach :: "columns \<Rightarrow> pg \<Rightarrow> bool" for cols :: columns where
  empty: "pg_reach cols \<lparr>items = [], promotions = []\<rparr>"
| store_tier: "pg_reach cols db \<Longrightarrow> pg_reach cols (fst (pg_store_tier cols clock tier i db))"
| store_item: "pg_reach cols db \<Longrightarrow> pg_reach cols (fst (store_memory_item cols clock i db))"
| delete_tier: "pg_reach cols db \<Longrightarrow> pg_reach cols (fst (pg_delete_tier tier k db))"
| delete_item: "pg_reach cols db \<Longrightarrow> pg_reach cols (fst (delete_memory_item k db))"
| update_item: "pg_reach cols db \<Longrightarrow> pg_reach cols (fst (update_memory_item cols row db))"
| log_promotion: "pg_reach cols db \<Longrightarrow> pg_reach cols (fst (log_memory_promotion cols k a b v r db))"

inductive_cases pg_reachE: "pg_reach cols db"

definition row_bare :: "columns \<Rightarrow> db_row \<Rightarrow> bool" where
  "row_bare cols r \<longleftrightarrow> c_failed_gate r = None \<and> c_entered_fallout_at r = None \<and> c_floor r = None \<and> c_reflection r = None
     \<and> (\<forall>t. c_created_at r = Some t \<or> c_last_referenced_at r = Some t \<or> c_decay_started_at r = Some t \<longrightarrow> (\<exists>s. time_col cols s = Some t))"

definition rows_bare :: "columns \<Rightarrow> pg \<Rightarrow> bool" where
  "rows_bare cols db \<longleftrightarrow> list_all (row_bare cols) (items db)"

lemma bare_update: "rows_bare cols db \<Longrightarrow> (\<And>r. row_bare cols r \<Longrightarrow> row_bare cols (f r)) \<Longrightarrow> rows_bare cols (update_where P f db)"
  by (auto simp: rows_bare_def update_where_def list_all_iff)

lemma bare_texts [simp]:
  "row_bare cols (r\<lparr>c_concept := v\<rparr>) = row_bare cols r" "row_bare cols (r\<lparr>c_understanding := v\<rparr>) = row_bare cols r"
  "row_bare cols (put_item w i r) = row_bare cols r" "row_bare cols (r\<lparr>c_tier := t\<rparr>) = row_bare cols r"
  by (simp_all add: row_bare_def put_item_def)

lemma bare_follow_up: "rows_bare cols db \<Longrightarrow> rows_bare cols (fst (follow_up cols i db))"
proof -
  have "rows_bare cols db \<Longrightarrow> rows_bare cols (fst (set_text cols put v key db))"
    if "\<And>t r. row_bare cols r \<Longrightarrow> row_bare cols (put t r)" for put v key db
    using that by (auto simp: set_text_def ret_def split: option.splits intro: bare_update)
  from this[where put = "\<lambda>t r. r\<lparr>c_concept := Some t\<rparr>"] this[where put = "\<lambda>t r. r\<lparr>c_understanding := Some t\<rparr>"]
  show "rows_bare cols db \<Longrightarrow> ?thesis"
    by (auto simp: follow_up_def then_act_def bind_act_def split: prod.splits outcome.splits) (metis fst_conv)+
qed

lemma item_texts_time: "item_texts cols clock i = Some v \<Longrightarrow> \<exists>s. time_col cols s = Some (v ! 10)"
  by (auto simp: item_texts_def split: option.splits)

lemma those_map_in: "those (map f xs) = Some ys \<Longrightarrow> y \<in> set ys \<Longrightarrow> \<exists>x\<in>set xs. f x = Some y"
  by (induction xs arbitrary: ys) (auto split: option.splits)

lemma bare_fresh: "\<exists>s. time_col cols s = Some c \<Longrightarrow> row_bare cols (fresh_row k c t)"
  by (auto simp: row_bare_def fresh_row_def)

lemma null_if_empty_time: "null_if_empty (time_col cols) s = Some v \<Longrightarrow> v = Some t \<Longrightarrow> \<exists>s. time_col cols s = Some t"
  by (auto simp: null_if_empty_def split: if_splits)

lemma reach_bare: "pg_reach cols db \<Longrightarrow> rows_bare cols db"
proof (induction rule: pg_reach.induct)
  case (store_tier db clock tier i)
  then show ?case
    by (auto simp: pg_store_tier_def Let_def rows_bare_def[of _ "_\<lparr>items := _\<rparr>"] split: option.splits
        intro!: bare_follow_up bare_update bare_fresh item_texts_time) (auto simp: rows_bare_def)
next
  case (store_item db clock i)
  then show ?case
    by (auto simp: store_memory_item_def Let_def rows_bare_def[of _ "_\<lparr>items := _\<rparr>"] split: option.splits
        intro!: bare_follow_up bare_fresh item_texts_time) (auto simp: rows_bare_def)
next
  case (update_item db row)
  have "row_bare cols r \<Longrightarrow> null_if_empty (time_col cols) s = Some v \<Longrightarrow> null_if_empty (time_col cols) s' = Some w \<Longrightarrow>
      row_bare cols (r\<lparr>c_score := a, c_status := b, c_reference_count := c, c_last_referenced_at := v, c_decay_started_at := w,
        c_concept := d, c_understanding := e\<rparr>)" for r s v s' w a b c d e
    using null_if_empty_time by (fastforce simp: row_bare_def)
  with update_item show ?case
    by (auto simp: update_memory_item_def ret_def split: option.splits intro!: bare_update)
qed (auto simp: rows_bare_def pg_delete_tier_def delete_memory_item_def delete_where_def list_all_iff
      log_memory_promotion_def ret_def split: option.splits)

subsection \<open>Runs stay within it\<close>

definition keeps :: "('s \<Rightarrow> bool) \<Rightarrow> ('s, 'a) act \<Rightarrow> bool" where
  "keeps P m \<longleftrightarrow> (\<forall>s. P s \<longrightarrow> P (fst (m s)))"

lemma keeps_ret [intro]: "keeps P (ret a)"
  by (simp add: keeps_def)

lemma keeps_bind [intro]: "keeps P m \<Longrightarrow> (\<And>a. keeps P (f a)) \<Longrightarrow> keeps P (bind_act m f)"
  by (force simp: keeps_def bind_act_def split: prod.splits outcome.splits)

lemma keeps_then [intro]: "keeps P m \<Longrightarrow> keeps P n \<Longrightarrow> keeps P (then_act m n)"
  by (simp add: then_act_def keeps_bind)

lemma keeps_try [intro]: "keeps P m \<Longrightarrow> keeps P n \<Longrightarrow> keeps P (try_act m n)"
  by (force simp: keeps_def try_act_def split: prod.splits outcome.splits)

lemma keeps_for_each [intro]: "(\<And>x acc. keeps P (f x acc)) \<Longrightarrow> keeps P (for_each f xs acc)"
  by (induction xs arbitrary: acc) auto

lemma keeps_select [intro]: "keeps P (select_items Q r)"
  by (auto simp: keeps_def select_items_def split: option.splits)

lemma keeps_ops [intro]:
  "keeps (pg_reach cols) (pg_store_tier cols clock t i)" "keeps (pg_reach cols) (pg_delete_tier t k)"
  "keeps (pg_reach cols) (pg_store_long_term cols clock i st)" "keeps (pg_reach cols) (update_memory_item cols row)"
  "keeps (pg_reach cols) (delete_memory_item k)" "keeps (pg_reach cols) (log_memory_promotion cols k a b v r)"
  by (auto simp: keeps_def pg_store_long_term_def intro: pg_reach.intros)


lemma pg_store_ops [simp]:
  "op_store_tier (pg_store cols clock) = pg_store_tier cols clock" "op_delete_tier (pg_store cols clock) = pg_delete_tier"
  "op_scan_tier (pg_store cols clock) = pg_scan_tier" "op_store_long_term (pg_store cols clock) = pg_store_long_term cols clock"
  "op_fetch_by_status (pg_store cols clock) = fetch_by_status" "op_update_item (pg_store cols clock) = update_memory_item cols"
  "op_delete_item (pg_store cols clock) = delete_memory_item" "op_log_promotion (pg_store cols clock) = log_memory_promotion cols"
  by (simp_all add: pg_store_def)

lemma sweep_reach: "pg_reach cols db \<Longrightarrow> pg_reach cols (fst (run_sweep (Some (pg_store cols clock)) clock now db))"
proof -
  have 1: "keeps (pg_reach cols) (sweep_item (pg_store cols clock) clock n ki c)" for n ki c
    by (auto simp: sweep_item_def Let_def intro!: keeps_try keeps_then keeps_ret keeps_ops)
  have 2: "keeps (pg_reach cols) (fallout_item (pg_store cols clock) now ki c)" for ki c
    by (auto simp: fallout_item_def Let_def)
  have "keeps (pg_reach cols) (run_sweep (Some (pg_store cols clock)) clock now)"
    unfolding run_sweep_def option.case pg_store_ops pg_scan_tier_def
    by (intro keeps_bind keeps_select keeps_for_each 1 2)
  then show "pg_reach cols db \<Longrightarrow> ?thesis" by (simp add: keeps_def)
qed

text \<open>
  the grace of the fallout is void: the statement that writes an item leaves out the gate it
  failed and the time it fell, so on a table that the backend has made an item that misses the gate
  of its tier is in the fallout after the sweep, but the very next sweep, however soon, either
  puts it back in the first tier or erases it: none stays in the fallout for its 48 hours.
\<close>

theorem grace_is_void:
  assumes cols: "pg_columns cols" and inv: "pg_inv cols db" and reach: "pg_reach cols db"
    and k: "pg_place db k = Some (TIER_NAMES ! n, i)" "n < 3" "\<not> dle (TIER_GATES ! n) (mi_score i)"
    and first: "run_sweep (Some (pg_store cols clock)) clock now db = (db1, Done c1)"
    and second: "run_sweep (Some (pg_store cols clock')) clock' now' db1 = (db2, Done c2)"
  shows "map_option fst (pg_place db1 k) = Some ''fallout'' \<and> map_option fst (pg_place db2 k) \<in> {None, Some ''t1''}"
proof -
  note s1 = pg_columns.sweep_law[OF cols inv, of clock now, unfolded first]
  have inv1: "pg_inv cols db1" using s1 by auto
  note s2 = pg_columns.sweep_law[OF cols inv1, of clock' now', unfolded second]
  have "pg_reach cols db1" using sweep_reach[OF reach, of clock now] by (simp add: first)
  have n: "n = 0 \<or> n = Suc 0 \<or> n = 2" using k(2) by auto
  have "pg_place db1 k = swept (pg_kept cols clock) clock now (TIER_NAMES ! n, i)" using s1 k(1) by auto
  then obtain j where j: "pg_place db1 k = Some (''fallout'', j)"
    using n k(3) by (auto simp: swept_def Let_def tier_consts)
  then obtain r where "r \<in> set (items db1)" "row_to_memory_item r = Some j" using pg_place_eq[OF inv1] by blast
  then have "mi_entered_fallout_at j = None"
    using reach_bare[OF \<open>pg_reach cols db1\<close>] read_fields(3)[of r j]
    by (auto simp: rows_bare_def list_all_iff row_bare_def pq_def value_or_def nonempty_def)
  then have "\<not> in_grace now' j" by (simp add: in_grace_def parse_iso_def)
  moreover have "pg_place db2 k = swept (pg_kept cols clock') clock' now' (''fallout'', j)" using s2 j by auto
  ultimately have "map_option fst (pg_place db2 k) \<in> {None, Some ''t1''}" by (simp add: swept_def Let_def)
  with j show ?thesis by simp
qed

theorem grace_is_void_witness:
  "\<exists>db1 db2 c1 c2.
      run_sweep (Some (pg_store plain_columns ''2026-01-02T00:00:00Z'')) ''2026-01-02T00:00:00Z'' 0 sample_db = (db1, Done c1)
    \<and> run_sweep (Some (pg_store plain_columns ''2026-01-02T00:00:01Z'')) ''2026-01-02T00:00:01Z'' 1000000000 db1 = (db2, Done c2)
    \<and> map_option fst (pg_place db1 ''m-1'') = Some ''fallout'' \<and> map_option fst (pg_place db2 ''m-1'') \<in> {None, Some ''t1''}"
proof -
  have pc: "pg_columns plain_columns" ..
  obtain j q where j: "pg_place sample_db ''m-1'' = Some (''t1'', j)" "mi_score j = Fin q" "q < 3" using sample_db(2) by blast
  obtain db1 c1 where 1: "run_sweep (Some (pg_store plain_columns ''2026-01-02T00:00:00Z'')) ''2026-01-02T00:00:00Z'' 0 sample_db = (db1, Done c1)"
    "pg_inv plain_columns db1" using plain.sweep_law[OF sample_db(1)] by blast
  obtain db2 c2 where 2: "run_sweep (Some (pg_store plain_columns ''2026-01-02T00:00:01Z'')) ''2026-01-02T00:00:01Z'' 1000000000 db1 = (db2, Done c2)"
    using plain.sweep_law[OF 1(2)] by blast
  have "pg_reach plain_columns sample_db" unfolding sample_db_def by (intro pg_reach.intros)
  from grace_is_void[OF pc sample_db(1) this _ _ _ 1(1) 2, of "''m-1''" 0 j] j 1 2
  show ?thesis by (auto simp: tier_consts GATE_T1_TO_T2_def)
qed

text \<open>
  on this backend no memory ages: a timestamp comes back from the database as the server prints
  it, with a blank where the module reads a T, and cannot be read, so for every row of a table that
  the backend has made the slope takes nothing, whatever the clock, and the change of a review is
  the reward of its references alone.
\<close>

theorem no_memory_ages:
  assumes "pg_columns cols" and "pg_reach cols db" and "fetch_by_status status db = (db', Done rows)" and "row \<in> set rows"
  shows "slope_effective ex lg row now = (mr_score row, False)
     \<and> maintenance_delta (mr_reference_count row) (mr_last_referenced_at row) (mr_created_at row) now
         = clamp_delta (reference_reward (mr_reference_count row))"
proof -
  have blank: "parse_iso (nonempty (pq v)) = None" if t: "\<And>t. v = Some t \<Longrightarrow> \<exists>s. time_col cols s = Some t" for v
  proof (cases v)
    case (Some t)
    then obtain s where "time_col cols s = Some t" using t by blast
    then have t: "10 < length t" "is_digit (t ! 0)" "t ! 10 = CHR '' ''" using pg_columns.time_blank[OF assms(1)] by blast+
    then have "dropWhile is_space t = t" by (cases t) (auto simp: is_digit_def is_space_def)
    then show ?thesis using get_time_blank[OF t(3,1)] by (simp add: Some parse_iso_def nonempty_def)
  qed (simp add: parse_iso_def)
  obtain r where r: "r \<in> set (items db)" "row_to_memory_item_row r = Some row"
    using assms(3,4) by (auto simp: fetch_by_status_def select_items_def split: option.splits dest!: those_map_in)
  have "row_bare cols r" using reach_bare[OF assms(2)] r(1) by (simp add: rows_bare_def list_all_iff)
  then have "parse_iso (nonempty (pq (c_created_at r))) = None" "parse_iso (nonempty (pq (c_last_referenced_at r))) = None"
    "parse_iso (nonempty (pq (c_decay_started_at r))) = None"
    by (auto intro!: blank simp: row_bare_def)
  moreover have "mr_created_at row = nonempty (pq (c_created_at r))" "mr_last_referenced_at row = nonempty (pq (c_last_referenced_at r))"
    "mr_decay_started_at row = nonempty (pq (c_decay_started_at r))"
    using r(2) by (auto simp: row_to_memory_item_row_def split: option.splits)
  ultimately have "parse_iso (mr_created_at row) = None" "parse_iso (mr_last_referenced_at row) = None"
    "parse_iso (mr_decay_started_at row) = None" by simp_all
  then show ?thesis by (simp add: slope_effective_def slope_anchor_def later_def maintenance_delta_def Let_def)
qed

lemma row_reads_both_ways:
  assumes "row_to_memory_item r = Some i"
  shows "\<exists>row. row_to_memory_item_row r = Some row \<and> mr_id row = mi_id i \<and> mr_status row = mi_status i \<and> mr_score row = mi_score i"
  using assms by (auto simp: row_to_memory_item_def row_to_memory_item_row_def split: option.splits)

lemma fetch_ids:
  assumes inv: "pg_inv cols db" and "status \<noteq> []"
  shows "\<exists>rows. fetch_by_status status db = (db, Done rows) \<and> distinct (map mr_id rows)
     \<and> set (map mr_id rows) = {k. \<exists>t i. pg_place db k = Some (t, i) \<and> mi_status i = status}"
proof -
  let ?P = "\<lambda>r. pq (c_status r) = status \<and> c_status r \<noteq> None"
  let ?rows = "map (\<lambda>r. the (row_to_memory_item_row r)) (filter ?P (items db))"
  have read: "\<exists>i row. row_to_memory_item r = Some i \<and> row_to_memory_item_row r = Some row \<and> mr_id row = c_item_id r
      \<and> mi_status i = pq (c_status r)" if r: "r \<in> set (items db)" for r
  proof -
    obtain i where i: "row_to_memory_item r = Some i" using r inv by (auto simp: pg_inv_def)
    then have "mi_status i = pq (c_status r)" by (auto simp: row_to_memory_item_def split: option.splits)
    with i row_reads_both_ways[OF i] read_fields(10)[OF i] show ?thesis by auto
  qed
  have P: "?P r \<longleftrightarrow> pq (c_status r) = status" for r
    using assms(2) by (cases "c_status r") (auto simp: pq_def value_or_def)
  have "those (map row_to_memory_item_row (filter ?P (items db))) = Some ?rows"
    by (rule those_all) (use read in force)
  then have f: "fetch_by_status status db = (db, Done ?rows)" by (simp add: fetch_by_status_def select_items_def)
  have ids: "map mr_id ?rows = map c_item_id (filter ?P (items db))" using read by (force simp: comp_def)
  have "distinct (map c_item_id (filter ?P (items db)))" using inv by (simp add: pg_inv_def distinct_map_filter)
  then have d: "distinct (map mr_id ?rows)" by (simp only: ids)
  have "set (map mr_id ?rows) = c_item_id ` {r \<in> set (items db). pq (c_status r) = status}"
    using arg_cong[OF ids, of set] unfolding set_map set_filter P .
  also have "\<dots> = {k. \<exists>t i. pg_place db k = Some (t, i) \<and> mi_status i = status}"
  proof -
    have st: "row_to_memory_item r = Some i \<Longrightarrow> mi_status i = pq (c_status r)" for r i
      by (auto simp: row_to_memory_item_def split: option.splits)
    show ?thesis unfolding pg_place_eq[OF inv] using read st by (simp add: set_eq_iff image_iff) metis
  qed
  finally show ?thesis using f d by blast
qed

theorem no_memory_ages_witness:
  "\<exists>rows. fetch_by_status ''active'' sample_db = (sample_db, Done rows) \<and> rows \<noteq> []
     \<and> (\<forall>row\<in>set rows. slope_effective series_exp series_log row 0 = (mr_score row, False))"
proof -
  have pc: "pg_columns plain_columns" ..
  have reach: "pg_reach plain_columns sample_db" unfolding sample_db_def by (intro pg_reach.intros)
  obtain rows where rows: "fetch_by_status ''active'' sample_db = (sample_db, Done rows)"
    "set (map mr_id rows) = {k. \<exists>t i. pg_place sample_db k = Some (t, i) \<and> mi_status i = ''active''}"
    using fetch_ids[OF sample_db(1), of "''active''"] by blast
  then have "''m-1'' \<in> set (map mr_id rows)" using sample_db(2) by auto
  then have "rows \<noteq> []" by auto
  with rows(1) show ?thesis using no_memory_ages[OF pc reach rows(1)] by blast
qed

text \<open>
  the status is not a tier: asked for the items of a status the backend gives, once each, those
  of every tier that carry it.  An item keeps its status when it moves through the first tiers and
  when it falls out, so the maintenance and the recall of active memories also take the items that
  wait in the first three tiers and those in the fallout.
\<close>

theorem status_is_not_a_tier:
  assumes "pg_inv cols db" and "status \<noteq> []"
  shows "\<exists>rows. fetch_by_status status db = (db, Done rows) \<and> distinct (map mr_id rows)
     \<and> set (map mr_id rows) = {k. \<exists>t i. pg_place db k = Some (t, i) \<and> mi_status i = status}"
  using assms by (rule fetch_ids)

theorem status_is_not_a_tier_witness:
  "\<exists>rows. fetch_by_status ''active'' sample_db = (sample_db, Done rows) \<and> ''m-1'' \<in> set (map mr_id rows)
     \<and> map_option fst (pg_place sample_db ''m-1'') = Some ''t1''"
  using status_is_not_a_tier[OF sample_db(1), of "''active''"] sample_db(2) by auto

end
