(* ===== verification/Storage_Backend.thy ===== *)
theory Storage_Backend
  imports Memory_Store Region_Poles
begin

text \<open>
  The storage contract \<^verbatim>\<open>StorageBackend\<close> of \<^verbatim>\<open>src/include/storage_backend.hpp\<close>: its records, and one
  function per virtual method over any type of states.  The telemetry methods take the optional
  latency.  The locale \<open>evaluation_ledger\<close> states what the gate of the core relies on: an accepted
  evaluation is stored without an exception, the last ones can be read, with usable vectors, and the
  identity is always there.
\<close>

section \<open>Records\<close>

record transcript_entry =
  te_id :: string
  te_session_id :: string
  te_role :: string
  te_content :: string
  te_msg_type :: string
  te_evaluation_id :: string
  te_created_at :: string

record session_record =
  sr_id :: string
  sr_session_number :: int
  sr_season :: string
  sr_depth :: string
  sr_finalized :: bool
  sr_created_at :: string
  sr_finalized_at :: string

record action_record =
  ac_id :: string
  ac_tool_name :: string
  ac_params_json :: string
  ac_state :: string
  ac_result :: string
  ac_error :: string
  ac_created_at :: string
  ac_updated_at :: string

record evaluation_record =
  er_session_id :: string
  er_response_text :: string
  er_input_vector :: "dbl list"
  er_output_vector :: "dbl list"
  er_corrected_vector :: "dbl list"
  er_is_aligned :: bool
  er_alignment_score :: dbl
  er_correction_magnitude :: dbl
  er_zone :: string
  er_season :: string
  er_created_at :: string

record telemetry_record =
  tl_id :: int
  tl_timestamp :: string
  tl_subsystem :: string
  tl_message :: string
  tl_severity :: string
  tl_latency :: "dbl option"

record identity_record =
  id_season :: string
  id_depth :: string
  id_self_description :: string
  id_session_count :: int
  id_total_evaluations :: int
  id_alignment_rate :: dbl
  id_created_at :: string
  id_updated_at :: string

section \<open>The interface\<close>

record 's storage =
  so_get_identity :: "('s, identity_record) act"
  so_update_identity :: "identity_record \<Rightarrow> ('s, unit) act"
  so_get_session_number :: "('s, int) act"
  so_store_memory_item :: "memory_item \<Rightarrow> ('s, unit) act"
  so_load_memory_item :: "string \<Rightarrow> ('s, memory_item option) act"
  so_fetch_memories_by_status :: "string \<Rightarrow> ('s, memory_item_row list) act"
  so_update_memory_item :: "memory_item_row \<Rightarrow> ('s, unit) act"
  so_delete_memory_item :: "string \<Rightarrow> ('s, unit) act"
  so_log_memory_promotion :: "string \<Rightarrow> string \<Rightarrow> string \<Rightarrow> dbl \<Rightarrow> string \<Rightarrow> ('s, unit) act"
  so_store_transcript :: "transcript_entry \<Rightarrow> ('s, unit) act"
  so_get_transcripts :: "string \<Rightarrow> ('s, transcript_entry list) act"
  so_create_session :: "session_record \<Rightarrow> ('s, unit) act"
  so_finalize_session :: "string \<Rightarrow> ('s, unit) act"
  so_get_session :: "string \<Rightarrow> ('s, session_record option) act"
  so_store_action :: "action_record \<Rightarrow> ('s, unit) act"
  so_load_action :: "string \<Rightarrow> ('s, action_record option) act"
  so_update_action_state :: "string \<Rightarrow> string \<Rightarrow> ('s, unit) act"
  so_get_pending_actions :: "('s, action_record list) act"
  so_action_resolution_stats :: "('s, int \<times> int) act"
  so_count_memories_by_kind :: "string \<Rightarrow> ('s, int) act"
  so_count_memories :: "('s, int) act"
  so_count_qualifying_memories :: "('s, int) act"
  so_store_evaluation :: "evaluation_record \<Rightarrow> ('s, unit) act"
  so_fetch_evaluations :: "int \<Rightarrow> ('s, evaluation_record list) act"
  so_append_telemetry_log :: "string \<Rightarrow> string \<Rightarrow> string \<Rightarrow> dbl option \<Rightarrow> ('s, unit) act"
  so_fetch_telemetry_logs :: "int \<Rightarrow> ('s, telemetry_record list) act"

section \<open>What the gate relies on\<close>

definition usable_vector :: "dbl list \<Rightarrow> bool" where
  "usable_vector v \<longleftrightarrow> (length v = DIMENSION_COUNT \<longrightarrow> unit_point v)"

definition usable_reading :: "evaluation_record \<Rightarrow> bool" where
  "usable_reading e \<longleftrightarrow> usable_vector (er_input_vector e) \<and> usable_vector (er_output_vector e)"

locale evaluation_ledger =
  fixes store :: "'s storage" and good :: "'s \<Rightarrow> bool" and fit :: "evaluation_record \<Rightarrow> bool"
  assumes stores: "good d \<Longrightarrow> fit e \<Longrightarrow> \<exists>d'. so_store_evaluation store e d = (d', Done ()) \<and> good d'"
    and fetches: "good d \<Longrightarrow> 0 \<le> n \<Longrightarrow>
          \<exists>es. so_fetch_evaluations store n d = (d, Done es) \<and> int (length es) \<le> n \<and> list_all usable_reading es"
    and identifies: "good d \<Longrightarrow> \<exists>d' i. so_get_identity store d = (d', Done i) \<and> good d'"

end
