(* ===== verification/Postgres_Records.thy ===== *)
theory Postgres_Records
  imports Postgres_Memory Storage_Backend
begin

text \<open>
  The other tables of \<^verbatim>\<open>src/src/postgres_backend.cpp\<close>: identity, transcripts, sessions, actions,
  evaluations and telemetry, each a list of rows in the order they were inserted, and the whole
  backend as an instance of the storage interface.  As for the memory part, what a column makes of
  the text of a parameter is an argument; so are the clock of the program and the time stamp of the
  server, and the order of time stamps.
\<close>

section \<open>Tables\<close>

record ledger_columns = columns +
  int_col :: "string \<Rightarrow> string option"
  rate_col :: "string \<Rightarrow> string option"
  tool_col :: "string \<Rightarrow> string option"
  json_col :: "string \<Rightarrow> string option"
  subsystem_col :: "string \<Rightarrow> string option"
  latency_col :: "string \<Rightarrow> string option"

record identity_row =
  ir_season :: "string option"
  ir_depth :: "string option"
  ir_self_description :: "string option"
  ir_session_count :: "string option"
  ir_total_evaluations :: "string option"
  ir_alignment_rate :: "string option"
  ir_created_at :: "string option"
  ir_updated_at :: "string option"

record evaluation_row =
  ev_session_id :: string
  ev_response_text :: string
  ev_input :: string
  ev_output :: string
  ev_corrected :: string
  ev_is_aligned :: string
  ev_alignment_score :: string
  ev_correction_magnitude :: string
  ev_zone :: string
  ev_season :: string
  ev_created_at :: string

record session_row =
  sn_id :: string
  sn_number :: string
  sn_season :: string
  sn_depth :: string
  sn_finalized :: string
  sn_created_at :: string
  sn_finalized_at :: "string option"

record telemetry_row =
  tm_id :: int
  tm_timestamp :: string
  tm_subsystem :: string
  tm_message :: string
  tm_severity :: string
  tm_latency :: "string option"

record ledger =
  memory :: pg
  identity :: "identity_row option"
  transcripts :: "transcript_entry list"
  sessions :: "session_row list"
  actions :: "action_record list"
  evaluations :: "evaluation_row list"
  telemetry :: "telemetry_row list"
  next_log_id :: int

definition with_memory :: "(pg, 'a) act \<Rightarrow> (ledger, 'a) act" where
  "with_memory m s = (let (p, r) = m (memory s) in (s\<lparr>memory := p\<rparr>, r))"

definition counted :: "(pg \<Rightarrow> nat) \<Rightarrow> (ledger, int) act" where
  "counted f s = ret (int (f (memory s))) s"

text \<open>ORDER BY with LIMIT: a negative limit is refused.\<close>

definition newest :: "int \<Rightarrow> 'r list \<Rightarrow> 'r list option" where
  "newest limit rows = (if limit < 0 then None else Some (take (nat limit) (rev rows)))"

fun insert_by :: "('a \<Rightarrow> 'a \<Rightarrow> bool) \<Rightarrow> 'a \<Rightarrow> 'a list \<Rightarrow> 'a list" where
  "insert_by le x [] = [x]"
| "insert_by le x (y # ys) = (if le x y then x # y # ys else y # insert_by le x ys)"

definition order_by :: "('a \<Rightarrow> 'a \<Rightarrow> bool) \<Rightarrow> 'a list \<Rightarrow> 'a list" where
  "order_by le xs = foldr (insert_by le) xs []"

section \<open>Identity\<close>

definition update_identity :: "ledger_columns \<Rightarrow> string \<Rightarrow> string \<Rightarrow> identity_record \<Rightarrow> (ledger, unit) act" where
  "update_identity cols clock stamp i s =
     (case those [name_col cols (id_season i), name_col cols (id_depth i), text_col cols (id_self_description i),
                  int_col cols (string_of_int (id_session_count i)), int_col cols (string_of_int (id_total_evaluations i)),
                  rate_col cols (string_of_double (id_alignment_rate i)), time_col cols clock] of
        None \<Rightarrow> (s, Threw)
      | Some v \<Rightarrow> ret () (s\<lparr>identity := Some
          \<lparr>ir_season = Some (v ! 0), ir_depth = Some (v ! 1), ir_self_description = Some (v ! 2),
           ir_session_count = Some (v ! 3), ir_total_evaluations = Some (v ! 4), ir_alignment_rate = Some (v ! 5),
           ir_created_at = (case identity s of None \<Rightarrow> Some stamp | Some r \<Rightarrow> ir_created_at r),
           ir_updated_at = Some (v ! 6)\<rparr>\<rparr>))"

definition first_identity :: "string \<Rightarrow> identity_record" where
  "first_identity clock =
     \<lparr>id_season = ''spring'', id_depth = ''new'', id_self_description = [], id_session_count = 0, id_total_evaluations = 0,
      id_alignment_rate = Fin 0, id_created_at = clock, id_updated_at = clock\<rparr>"

definition get_identity :: "ledger_columns \<Rightarrow> string \<Rightarrow> string \<Rightarrow> (ledger, identity_record) act" where
  "get_identity cols clock stamp s =
     (case identity s of
        Some r \<Rightarrow>
          (case stoi (pq (ir_session_count r)) of None \<Rightarrow> (s, Threw) | Some n \<Rightarrow>
           case stoi (pq (ir_total_evaluations r)) of None \<Rightarrow> (s, Threw) | Some e \<Rightarrow>
           case stod (pq (ir_alignment_rate r)) of None \<Rightarrow> (s, Threw) | Some a \<Rightarrow>
           ret \<lparr>id_season = pq (ir_season r), id_depth = pq (ir_depth r), id_self_description = pq (ir_self_description r),
                id_session_count = n, id_total_evaluations = e, id_alignment_rate = a,
                id_created_at = pq (ir_created_at r), id_updated_at = pq (ir_updated_at r)\<rparr> s)
      | None \<Rightarrow> then_act (update_identity cols clock stamp (first_identity clock)) (ret (first_identity clock)) s)"

definition get_session_number :: "ledger_columns \<Rightarrow> string \<Rightarrow> string \<Rightarrow> (ledger, int) act" where
  "get_session_number cols clock stamp =
     bind_act (get_identity cols clock stamp) (\<lambda>i. ret (id_session_count i + 1))"

section \<open>Transcripts and sessions\<close>

definition store_transcript :: "ledger_columns \<Rightarrow> string \<Rightarrow> transcript_entry \<Rightarrow> (ledger, unit) act" where
  "store_transcript cols stamp e s =
     (case those [text_col cols (te_id e), text_col cols (te_session_id e), name_col cols (te_role e),
                  text_col cols (te_content e), name_col cols (te_msg_type e), text_col cols (te_evaluation_id e)] of
        None \<Rightarrow> (s, Threw)
      | Some v \<Rightarrow>
          if v ! 0 \<in> te_id ` set (transcripts s) then (s, Threw)
          else ret () (s\<lparr>transcripts := transcripts s @
                 [\<lparr>te_id = v ! 0, te_session_id = v ! 1, te_role = v ! 2, te_content = v ! 3, te_msg_type = v ! 4,
                   te_evaluation_id = v ! 5, te_created_at = stamp\<rparr>]\<rparr>))"

definition get_transcripts :: "(string \<Rightarrow> string \<Rightarrow> bool) \<Rightarrow> string \<Rightarrow> (ledger, transcript_entry list) act" where
  "get_transcripts time_le session s =
     ret (order_by (\<lambda>a b. time_le (te_created_at a) (te_created_at b))
            (filter (\<lambda>e. te_session_id e = session) (transcripts s))) s"

definition create_session :: "ledger_columns \<Rightarrow> session_record \<Rightarrow> (ledger, unit) act" where
  "create_session cols r s =
     (case those [text_col cols (sr_id r), int_col cols (string_of_int (sr_session_number r)), name_col cols (sr_season r),
                  name_col cols (sr_depth r), time_col cols (sr_created_at r)] of
        None \<Rightarrow> (s, Threw)
      | Some v \<Rightarrow>
          if v ! 0 \<in> sn_id ` set (sessions s) then (s, Threw)
          else ret () (s\<lparr>sessions := sessions s @
                 [\<lparr>sn_id = v ! 0, sn_number = v ! 1, sn_season = v ! 2, sn_depth = v ! 3,
                   sn_finalized = bool_text (sr_finalized r), sn_created_at = v ! 4, sn_finalized_at = None\<rparr>]\<rparr>))"

definition finalize_session :: "ledger_columns \<Rightarrow> string \<Rightarrow> string \<Rightarrow> (ledger, unit) act" where
  "finalize_session cols clock key s =
     (case time_col cols clock of None \<Rightarrow> (s, Threw) | Some t \<Rightarrow>
      ret () (s\<lparr>sessions := map (\<lambda>r. if sn_id r = key then r\<lparr>sn_finalized := ''t'', sn_finalized_at := Some t\<rparr> else r)
                   (sessions s)\<rparr>))"

definition get_session :: "string \<Rightarrow> (ledger, session_record option) act" where
  "get_session key s =
     (case filter (\<lambda>r. sn_id r = key) (sessions s) of
        [] \<Rightarrow> ret None s
      | r # _ \<Rightarrow>
          (case stoi (sn_number r) of None \<Rightarrow> (s, Threw) | Some n \<Rightarrow>
           ret (Some \<lparr>sr_id = sn_id r, sr_session_number = n, sr_season = sn_season r, sr_depth = sn_depth r,
                      sr_finalized = (sn_finalized r = ''t''), sr_created_at = sn_created_at r,
                      sr_finalized_at = pq (sn_finalized_at r)\<rparr>) s))"

section \<open>Actions\<close>

definition store_action :: "ledger_columns \<Rightarrow> action_record \<Rightarrow> (ledger, unit) act" where
  "store_action cols a s =
     (case those [text_col cols (ac_id a), tool_col cols (ac_tool_name a),
                  json_col cols (if ac_params_json a = [] then ''{}'' else ac_params_json a), name_col cols (ac_state a),
                  text_col cols (ac_result a), text_col cols (ac_error a), time_col cols (ac_created_at a),
                  time_col cols (ac_updated_at a)] of
        None \<Rightarrow> (s, Threw)
      | Some v \<Rightarrow>
          if v ! 0 \<in> ac_id ` set (actions s) then (s, Threw)
          else ret () (s\<lparr>actions := actions s @
                 [\<lparr>ac_id = v ! 0, ac_tool_name = v ! 1, ac_params_json = v ! 2, ac_state = v ! 3, ac_result = v ! 4,
                   ac_error = v ! 5, ac_created_at = v ! 6, ac_updated_at = v ! 7\<rparr>]\<rparr>))"

definition load_action :: "string \<Rightarrow> (ledger, action_record option) act" where
  "load_action key s = ret (find (\<lambda>a. ac_id a = key) (actions s)) s"

definition update_action_state :: "ledger_columns \<Rightarrow> string \<Rightarrow> string \<Rightarrow> string \<Rightarrow> (ledger, unit) act" where
  "update_action_state cols clock key st s =
     (case (name_col cols st, time_col cols clock) of
        (Some n, Some t) \<Rightarrow>
          ret () (s\<lparr>actions := map (\<lambda>a. if ac_id a = key then a\<lparr>ac_state := n, ac_updated_at := t\<rparr> else a) (actions s)\<rparr>)
      | _ \<Rightarrow> (s, Threw))"

definition get_pending_actions :: "(string \<Rightarrow> string \<Rightarrow> bool) \<Rightarrow> (ledger, action_record list) act" where
  "get_pending_actions time_le s =
     ret (order_by (\<lambda>a b. time_le (ac_created_at a) (ac_created_at b))
            (filter (\<lambda>a. ac_state a = ''pending'') (actions s))) s"

definition count_state :: "string \<Rightarrow> ledger \<Rightarrow> int" where
  "count_state st s = int (length (filter (\<lambda>a. ac_state a = st) (actions s)))"

definition action_resolution_stats :: "(ledger, int \<times> int) act" where
  "action_resolution_stats s = ret (count_state ''executed'' s, count_state ''denied'' s) s"

section \<open>Evaluations and telemetry\<close>

definition store_evaluation :: "ledger_columns \<Rightarrow> string \<Rightarrow> evaluation_record \<Rightarrow> (ledger, unit) act" where
  "store_evaluation cols clock e s =
     (case those [text_col cols (er_session_id e), text_col cols (er_response_text e),
                  vector_col cols (vector_to_pgarray (er_input_vector e)), vector_col cols (vector_to_pgarray (er_output_vector e)),
                  vector_col cols (vector_to_pgarray (er_corrected_vector e)),
                  rate_col cols (string_of_double (er_alignment_score e)),
                  rate_col cols (string_of_double (er_correction_magnitude e)), name_col cols (er_zone e),
                  name_col cols (er_season e), time_col cols (if er_created_at e = [] then clock else er_created_at e)] of
        None \<Rightarrow> (s, Threw)
      | Some v \<Rightarrow> ret () (s\<lparr>evaluations := evaluations s @
          [\<lparr>ev_session_id = v ! 0, ev_response_text = v ! 1, ev_input = v ! 2, ev_output = v ! 3, ev_corrected = v ! 4,
            ev_is_aligned = bool_text (er_is_aligned e), ev_alignment_score = v ! 5, ev_correction_magnitude = v ! 6,
            ev_zone = v ! 7, ev_season = v ! 8, ev_created_at = v ! 9\<rparr>]\<rparr>))"

definition read_evaluation :: "evaluation_row \<Rightarrow> evaluation_record option" where
  "read_evaluation r =
     (case pgarray_to_vector (ev_input r) of None \<Rightarrow> None | Some i \<Rightarrow>
      case pgarray_to_vector (ev_output r) of None \<Rightarrow> None | Some out \<Rightarrow>
      case pgarray_to_vector (ev_corrected r) of None \<Rightarrow> None | Some c \<Rightarrow>
      case stod (ev_alignment_score r) of None \<Rightarrow> None | Some a \<Rightarrow>
      case stod (ev_correction_magnitude r) of None \<Rightarrow> None | Some m \<Rightarrow>
      Some \<lparr>er_session_id = ev_session_id r, er_response_text = ev_response_text r, er_input_vector = i,
            er_output_vector = out, er_corrected_vector = c, er_is_aligned = (ev_is_aligned r = ''t''),
            er_alignment_score = a, er_correction_magnitude = m, er_zone = ev_zone r, er_season = ev_season r,
            er_created_at = ev_created_at r\<rparr>)"

definition fetch_evaluations :: "int \<Rightarrow> (ledger, evaluation_record list) act" where
  "fetch_evaluations limit s =
     (case newest limit (evaluations s) of None \<Rightarrow> (s, Threw) | Some rows \<Rightarrow>
      case those (map read_evaluation rows) of None \<Rightarrow> (s, Threw) | Some es \<Rightarrow> ret es s)"

text \<open>An INSERT that is refused has drawn its number all the same.\<close>

definition append_telemetry_log ::
  "ledger_columns \<Rightarrow> string \<Rightarrow> string \<Rightarrow> string \<Rightarrow> string \<Rightarrow> dbl option \<Rightarrow> (ledger, unit) act" where
  "append_telemetry_log cols stamp subsystem severity message latency s =
     (let s' = s\<lparr>next_log_id := next_log_id s + 1\<rparr>;
          sev = (if severity = [] then ''INFO'' else severity);
          lat = (case latency of None \<Rightarrow> Some None | Some v \<Rightarrow> map_option Some (latency_col cols (string_of_double v)))
      in case (subsystem_col cols subsystem, text_col cols message, name_col cols sev, lat) of
           (Some a, Some b, Some c, Some l) \<Rightarrow>
             ret () (s'\<lparr>telemetry := telemetry s @
               [\<lparr>tm_id = next_log_id s, tm_timestamp = stamp, tm_subsystem = a, tm_message = b, tm_severity = c, tm_latency = l\<rparr>]\<rparr>)
         | _ \<Rightarrow> (s', Threw))"

definition fetch_telemetry_logs :: "int \<Rightarrow> (ledger, telemetry_record list) act" where
  "fetch_telemetry_logs limit s =
     (case newest limit (telemetry s) of None \<Rightarrow> (s, Threw) | Some rows \<Rightarrow>
      ret (map (\<lambda>r. \<lparr>tl_id = tm_id r, tl_timestamp = tm_timestamp r, tl_subsystem = tm_subsystem r, tl_message = tm_message r,
                     tl_severity = tm_severity r, tl_latency = map_option (\<lambda>t. value_or (stod t) (Fin 0)) (tm_latency r)\<rparr>) rows) s)"

section \<open>The backend as a storage\<close>

definition pg_storage :: "ledger_columns \<Rightarrow> (string \<Rightarrow> string \<Rightarrow> bool) \<Rightarrow> string \<Rightarrow> string \<Rightarrow> ledger storage" where
  "pg_storage cols time_le clock stamp =
     (let mem = columns.truncate cols in
     \<lparr>so_get_identity = get_identity cols clock stamp, so_update_identity = update_identity cols clock stamp,
      so_get_session_number = get_session_number cols clock stamp,
      so_store_memory_item = (\<lambda>i. with_memory (store_memory_item mem clock i)),
      so_load_memory_item = (\<lambda>k. with_memory (load_memory_item k)),
      so_fetch_memories_by_status = (\<lambda>st. with_memory (fetch_by_status st)),
      so_update_memory_item = (\<lambda>r. with_memory (update_memory_item mem r)),
      so_delete_memory_item = (\<lambda>k. with_memory (delete_memory_item k)),
      so_log_memory_promotion = (\<lambda>k a b v r. with_memory (log_memory_promotion mem k a b v r)),
      so_store_transcript = store_transcript cols stamp, so_get_transcripts = get_transcripts time_le,
      so_create_session = create_session cols, so_finalize_session = finalize_session cols clock, so_get_session = get_session,
      so_store_action = store_action cols, so_load_action = load_action,
      so_update_action_state = update_action_state cols clock, so_get_pending_actions = get_pending_actions time_le,
      so_action_resolution_stats = action_resolution_stats,
      so_count_memories_by_kind = (\<lambda>k. counted (count_memories_by_kind k)), so_count_memories = counted count_memories,
      so_count_qualifying_memories = counted count_qualifying_memories,
      so_store_evaluation = store_evaluation cols clock, so_fetch_evaluations = fetch_evaluations,
      so_append_telemetry_log = append_telemetry_log cols stamp, so_fetch_telemetry_logs = fetch_telemetry_logs\<rparr>)"

section \<open>The records keep the contract of the ledger\<close>

text \<open>
  What PostgreSQL does with the columns of the schema beyond those of the memories: DECIMAL(5,4) takes
  every number up to 9.5 and gives out a number, INTEGER gives back the number it was given and never
  gives out anything else than a number, the clock of the program is a time stamp.
\<close>

locale pg_ledger =
  fixes cols :: ledger_columns and clock :: string
  assumes memory_columns: "pg_columns (columns.truncate cols)"
    and clock_column: "time_col cols clock \<noteq> None"
    and rate_column: "0 \<le> q \<Longrightarrow> q \<le> 19/2 \<Longrightarrow> \<exists>t w. rate_col cols (string_of_double (Fin q)) = Some t \<and> stod t = Some (Fin w)"
    and int_column: "0 \<le> n \<Longrightarrow> n < 2 ^ 31 \<Longrightarrow> \<exists>t. int_col cols (string_of_int n) = Some t \<and> stoi t = Some n"
    and int_reads: "int_col cols t = Some u \<Longrightarrow> stoi u \<noteq> None"
    and rate_reads: "rate_col cols t = Some u \<Longrightarrow> stod u \<noteq> None"

definition identity_reads :: "ledger \<Rightarrow> bool" where
  "identity_reads s \<longleftrightarrow>
     (case identity s of None \<Rightarrow> True
      | Some r \<Rightarrow> stoi (pq (ir_session_count r)) \<noteq> None \<and> stoi (pq (ir_total_evaluations r)) \<noteq> None
                  \<and> stod (pq (ir_alignment_rate r)) \<noteq> None)"

definition evaluation_reads :: "evaluation_row \<Rightarrow> bool" where
  "evaluation_reads r \<longleftrightarrow> (case read_evaluation r of None \<Rightarrow> False | Some e \<Rightarrow> usable_reading e)"

definition ledger_reads :: "ledger \<Rightarrow> bool" where
  "ledger_reads s \<longleftrightarrow> identity_reads s \<and> list_all evaluation_reads (evaluations s)"

text \<open>The evaluations the table accepts.\<close>

definition rate_fits :: "dbl \<Rightarrow> bool" where
  "rate_fits v \<longleftrightarrow> (\<exists>q. v = Fin q \<and> 0 \<le> q \<and> q \<le> 19/2)"

definition evaluation_fits :: "ledger_columns \<Rightarrow> evaluation_record \<Rightarrow> bool" where
  "evaluation_fits cols e \<longleftrightarrow>
     text_col cols (er_session_id e) \<noteq> None \<and> text_col cols (er_response_text e) \<noteq> None
     \<and> unit_point (er_input_vector e) \<and> unit_point (er_output_vector e) \<and> unit_point (er_corrected_vector e)
     \<and> rate_fits (er_alignment_score e) \<and> rate_fits (er_correction_magnitude e)
     \<and> stage_name (er_zone e) \<and> stage_name (er_season e) \<and> er_created_at e = []"

lemma unit_usable: "unit_point v \<Longrightarrow> usable_vector v"
  by (simp add: usable_vector_def)

lemma newest_rows: "newest n rows = Some rs \<Longrightarrow> int (length rs) \<le> n \<and> set rs \<subseteq> set rows"
  by (auto simp: newest_def split: if_splits dest: in_set_takeD)

context pg_ledger begin

lemma stores_evaluation:
  assumes "ledger_reads d" "evaluation_fits cols e"
  shows "\<exists>d'. store_evaluation cols clock e d = (d', Done ()) \<and> ledger_reads d' \<and> memory d' = memory d"
proof -
  note f = assms(2)[unfolded evaluation_fits_def]
  have vec: "\<exists>t w. vector_col cols (vector_to_pgarray v) = Some t \<and> pgarray_to_vector t = Some w \<and> unit_point w"
    if "unit_point v" for v
    using pg_columns.vector_ok[OF memory_columns that] by (simp add: columns.truncate_def)
  have num: "\<exists>t w. rate_col cols (string_of_double v) = Some t \<and> stod t = Some (Fin w)" if "rate_fits v" for v
    using rate_column that by (auto simp: rate_fits_def)
  have name: "name_col cols t = Some t" if "stage_name t" for t
    using pg_columns.name_printable[OF memory_columns that] by (simp add: columns.truncate_def)
  obtain t0 where t0: "text_col cols (er_session_id e) = Some t0" using f by blast
  obtain t1 where t1: "text_col cols (er_response_text e) = Some t1" using f by blast
  obtain t2 w2 where t2: "vector_col cols (vector_to_pgarray (er_input_vector e)) = Some t2" "pgarray_to_vector t2 = Some w2" "unit_point w2"
    using vec f by blast
  obtain t3 w3 where t3: "vector_col cols (vector_to_pgarray (er_output_vector e)) = Some t3" "pgarray_to_vector t3 = Some w3" "unit_point w3"
    using vec f by blast
  obtain t4 w4 where t4: "vector_col cols (vector_to_pgarray (er_corrected_vector e)) = Some t4" "pgarray_to_vector t4 = Some w4" "unit_point w4"
    using vec f by blast
  obtain t5 w5 where t5: "rate_col cols (string_of_double (er_alignment_score e)) = Some t5" "stod t5 = Some (Fin w5)" using num f by blast
  obtain t6 w6 where t6: "rate_col cols (string_of_double (er_correction_magnitude e)) = Some t6" "stod t6 = Some (Fin w6)" using num f by blast
  obtain t9 where t9: "time_col cols clock = Some t9" using clock_column by blast
  let ?row = "\<lparr>ev_session_id = t0, ev_response_text = t1, ev_input = t2, ev_output = t3, ev_corrected = t4,
            ev_is_aligned = bool_text (er_is_aligned e), ev_alignment_score = t5, ev_correction_magnitude = t6,
            ev_zone = er_zone e, ev_season = er_season e, ev_created_at = t9\<rparr>"
  have n: "name_col cols (er_zone e) = Some (er_zone e)" "name_col cols (er_season e) = Some (er_season e)" "er_created_at e = []"
    using name f by blast+
  have "store_evaluation cols clock e d = ret () (d\<lparr>evaluations := evaluations d @ [?row]\<rparr>)"
    by (simp add: store_evaluation_def t0 t1 t2 t3 t4 t5 t6 t9 n)
  moreover have "evaluation_reads ?row"
    using t2 t3 t4 t5 t6 unit_usable by (simp add: evaluation_reads_def read_evaluation_def usable_reading_def)
  ultimately show ?thesis using assms(1) by (simp add: ret_def ledger_reads_def identity_reads_def)
qed

lemma fetches_evaluations:
  assumes "ledger_reads d" "0 \<le> n"
  shows "\<exists>es. fetch_evaluations n d = (d, Done es) \<and> int (length es) \<le> n \<and> list_all usable_reading es"
proof -
  obtain rows where rows: "newest n (evaluations d) = Some rows" using assms(2) by (simp add: newest_def)
  note nr = newest_rows[OF rows]
  have r: "\<exists>e. read_evaluation r = Some e \<and> usable_reading e" if "r \<in> set rows" for r
  proof -
    have "evaluation_reads r" using that nr assms(1) by (auto simp: ledger_reads_def list_all_iff)
    then show ?thesis by (simp add: evaluation_reads_def split: option.splits)
  qed
  then have "those (map read_evaluation rows) = Some (map (\<lambda>x. the (read_evaluation x)) rows)"
    by (intro those_all) (metis option.distinct(1))
  moreover have "list_all usable_reading (map (\<lambda>x. the (read_evaluation x)) rows)"
    using r by (fastforce simp: list_all_iff)
  ultimately show ?thesis using nr by (simp add: fetch_evaluations_def rows ret_def)
qed

lemma identifies_always:
  assumes "ledger_reads d" shows "\<exists>d' i. get_identity cols clock stamp d = (d', Done i) \<and> ledger_reads d' \<and> memory d' = memory d"
proof (cases "identity d")
  case None
  obtain t where t: "time_col cols clock = Some t" using clock_column by blast
  obtain z where z: "int_col cols (string_of_int 0) = Some z" "stoi z = Some 0" using int_column[of 0] by auto
  obtain q w where q: "rate_col cols (string_of_double (Fin 0)) = Some q" "stod q = Some (Fin w)" using rate_column[of 0] by auto
  have n: "name_col cols ''spring'' = Some ''spring''" "name_col cols ''new'' = Some ''new''"
    using pg_columns.name_printable[OF memory_columns, of "''spring''"] pg_columns.name_printable[OF memory_columns, of "''new''"]
    by (simp_all add: columns.truncate_def stage_name_def printable_def)
  have e: "text_col cols [] = Some []"
    using pg_columns.text_printable[OF memory_columns, of "[]"] by (simp add: columns.truncate_def)
  show ?thesis using assms None
    by (simp add: get_identity_def then_act_def bind_act_def update_identity_def first_identity_def n e z q t ret_def ledger_reads_def
        identity_reads_def)
next
  case (Some r)
  then show ?thesis using assms
    by (auto simp: get_identity_def ledger_reads_def identity_reads_def ret_def)
qed

end

text \<open>A readable ledger with the memories \<open>m\<close>: the records leave the memories alone.\<close>

definition ledger_with :: "pg \<Rightarrow> ledger \<Rightarrow> bool" where
  "ledger_with m d \<longleftrightarrow> ledger_reads d \<and> memory d = m"

sublocale pg_ledger \<subseteq> book: evaluation_ledger "pg_storage cols time_le clock stamp" "ledger_with m" "evaluation_fits cols"
proof unfold_locales
  show "ledger_with m d \<Longrightarrow> evaluation_fits cols e \<Longrightarrow>
      \<exists>d'. so_store_evaluation (pg_storage cols time_le clock stamp) e d = (d', Done ()) \<and> ledger_with m d'" for d e
    using stores_evaluation[of d e] by (auto simp: pg_storage_def Let_def ledger_with_def)
  show "ledger_with m d \<Longrightarrow> 0 \<le> n \<Longrightarrow>
      \<exists>es. so_fetch_evaluations (pg_storage cols time_le clock stamp) n d = (d, Done es) \<and> int (length es) \<le> n \<and> list_all usable_reading es" for d n
    using fetches_evaluations[of d n] by (simp add: pg_storage_def Let_def ledger_with_def)
  show "ledger_with m d \<Longrightarrow> \<exists>d' i. so_get_identity (pg_storage cols time_le clock stamp) d = (d', Done i) \<and> ledger_with m d'" for d
    using identifies_always[of d stamp] by (auto simp: pg_storage_def Let_def ledger_with_def)
qed

text \<open>The backend as the memory store of the memory module.\<close>

definition ledger_ops :: "columns \<Rightarrow> string \<Rightarrow> ledger memory_store" where
  "ledger_ops cols clock =
     (let ops = pg_store cols clock in
     \<lparr>op_store_tier = (\<lambda>t i. with_memory (op_store_tier ops t i)), op_load_tier = (\<lambda>t k. with_memory (op_load_tier ops t k)),
      op_delete_tier = (\<lambda>t k. with_memory (op_delete_tier ops t k)), op_scan_tier = (\<lambda>t. with_memory (op_scan_tier ops t)),
      op_has_tier = (\<lambda>t k. with_memory (op_has_tier ops t k)), op_store_long_term = (\<lambda>i t. with_memory (op_store_long_term ops i t)),
      op_fetch_by_status = (\<lambda>t. with_memory (op_fetch_by_status ops t)), op_update_item = (\<lambda>r. with_memory (op_update_item ops r)),
      op_delete_item = (\<lambda>k. with_memory (op_delete_item ops k)),
      op_log_promotion = (\<lambda>k a b v r. with_memory (op_log_promotion ops k a b v r))\<rparr>)"

text \<open>Columns that keep their texts.\<close>

definition plain_ledger :: ledger_columns where
  "plain_ledger = \<lparr>text_col = text_col plain_columns, name_col = name_col plain_columns, decimal_col = decimal_col plain_columns,
     time_col = time_col plain_columns, vector_col = vector_col plain_columns,
     int_col = (\<lambda>t. if stoi t = None then None else Some t), rate_col = (\<lambda>t. if stod t = None then None else Some t), tool_col = Some, json_col = Some, subsystem_col = Some, latency_col = Some\<rparr>"

definition sample_clock :: string where "sample_clock = ''2026-04-10T12:00:00''"

interpretation plain_book: pg_ledger plain_ledger sample_clock
proof (rule pg_ledger.intro)
  have c: "columns.truncate plain_ledger = plain_columns" by (simp add: plain_ledger_def columns.truncate_def)
  show "pg_columns (columns.truncate plain_ledger)" unfolding c by (rule plain.pg_columns_axioms)
  show "time_col plain_ledger sample_clock \<noteq> None"
    by (simp add: plain_ledger_def plain_columns_def sample_clock_def is_digit_def)
  show "\<exists>t w. rate_col plain_ledger (string_of_double (Fin q)) = Some t \<and> stod t = Some (Fin w)" if "0 \<le> q" "q \<le> 19/2" for q
    using stod_fixed_ok[of 6 q 10] that by (auto simp: plain_ledger_def string_of_double_def)
  show "\<exists>t. int_col plain_ledger (string_of_int n) = Some t \<and> stoi t = Some n" if "0 \<le> n" "n < 2 ^ 31" for n
    using stoi_string_of_int[of n] string_of_nat_digits[of "nat n"] that
    by (auto simp: plain_ledger_def safe_stoi_def string_of_int_def split: if_splits)
qed (auto simp: plain_ledger_def split: if_splits)

end
