(* ===== verification/Tool_Engine.thy ===== *)
theory Tool_Engine
  imports Memory_Store
begin

text \<open>
  The tool engine, \<^verbatim>\<open>src/src/tool_engine.cpp\<close> with \<^verbatim>\<open>tool_engine.hpp\<close> and \<^verbatim>\<open>approval_gate.hpp\<close>:
  the tolerant reader of flat JSON, the five tools of the first version, and the engine with its one
  gate.  The world a tool acts on is a type variable; what the file system and a started process do
  to it are arguments (\<open>machine\<close>).  A call that never comes back is \<open>None\<close>; one that does ends with
  a value or an exception.
\<close>

section \<open>Results and requests\<close>

record tool_result =
  tr_ok :: bool
  tr_output :: string
  tr_error :: string
  tr_exit_code :: int
  tr_summary :: string
  tr_action_id :: string

definition new_tool_result :: tool_result where
  "new_tool_result = \<lparr>tr_ok = False, tr_output = [], tr_error = [], tr_exit_code = 0, tr_summary = [], tr_action_id = []\<rparr>"

definition failed :: "string \<Rightarrow> tool_result" where
  "failed message = new_tool_result\<lparr>tr_error := message, tr_exit_code := 1\<rparr>"

record tool_request =
  rq_name :: string
  rq_arguments :: string
  rq_description :: string
  rq_action_id :: string

record approval_request =
  ap_action_id :: string
  ap_tool_name :: string
  ap_description :: string
  ap_timeout_ms :: int

datatype approval_decision = Approved | Denied | TimedOut

definition kSummaryLimit :: nat where "kSummaryLimit = 400"

definition truncate_text :: "string \<Rightarrow> nat \<Rightarrow> string" where
  "truncate_text text limit =
     (if length text \<le> limit then text
      else take limit text @ ''...['' @ string_of_nat (length text - limit) @ '' bytes more]'')"

section \<open>Paths\<close>

definition is_absolute :: "string \<Rightarrow> bool" where "is_absolute p \<longleftrightarrow> prefix ''/'' p"

text \<open>\<^verbatim>\<open>fs::path(a) / p\<close> and \<^verbatim>\<open>parent_path\<close> on a POSIX system.\<close>

definition join_path :: "string \<Rightarrow> string \<Rightarrow> string" where
  "join_path a p = (if is_absolute p then p else if a = [] \<or> last a = CHR ''/'' then a @ p else a @ ''/'' @ p)"

definition resolve_path :: "string \<Rightarrow> string \<Rightarrow> string" where
  "resolve_path workspace path =
     (if path = [] then workspace else if is_absolute path then path else join_path workspace path)"

definition parent_path :: "string \<Rightarrow> string" where
  "parent_path p =
     (let is_slash = (\<lambda>c. c = CHR ''/'');
          upto = rev (dropWhile (\<lambda>c. \<not> is_slash c) (rev p));
          stripped = rev (dropWhile is_slash (rev upto))
      in if stripped = [] then upto else stripped)"

section \<open>Reading flat JSON\<close>

text \<open>
  The position past the first occurrence of the quoted key and the first colon after it.  The loop of
  the code returns in its first round, whatever that round finds.
\<close>

definition find_key :: "string \<Rightarrow> string \<Rightarrow> nat option" where
  "find_key json key =
     (let needle = ''\"'' @ key @ ''\"'' in
      case str_find needle json 0 of None \<Rightarrow> None | Some pos \<Rightarrow>
      case str_find '':'' json (pos + length needle) of None \<Rightarrow> None | Some colon \<Rightarrow>
      Some (colon + 1 + length (takeWhile is_space (drop (colon + 1) json))))"

fun unescape :: "bool \<Rightarrow> string \<Rightarrow> string" where
  "unescape escaped [] = []"
| "unescape escaped (c # cs) =
     (if c = CHR ''\"'' \<and> \<not> escaped then []
      else if c = CHR 0x5C \<and> \<not> escaped then unescape True cs
      else if escaped then (if c = CHR ''n'' then CHR ''\<newline>'' else if c = CHR ''t'' then CHR 0x09 else c) # unescape False cs
      else c # unescape False cs)"

definition ends_bare :: "char \<Rightarrow> bool" where
  "ends_bare c \<longleftrightarrow> is_space c \<or> c = CHR '','' \<or> c = CHR ''}'' \<or> c = CHR '']''"

definition json_string :: "string \<Rightarrow> string \<Rightarrow> string" where
  "json_string json key =
     (case find_key json key of None \<Rightarrow> [] | Some v \<Rightarrow>
      (case drop v json of
         [] \<Rightarrow> []
       | c # cs \<Rightarrow> if c = CHR ''\"'' then unescape False cs else takeWhile (\<lambda>x. \<not> ends_bare x) (c # cs)))"

text \<open>\<^verbatim>\<open>std::stoll\<close>, which throws when no digit starts the text or the number is out of range.\<close>

definition stoll :: "string \<Rightarrow> int option" where
  "stoll s =
     (let u = dropWhile is_space s;
          neg = prefix ''-'' u;
          ds = takeWhile is_digit (if neg \<or> prefix ''+'' u then drop 1 u else u);
          n = (if neg then - number_of ds else number_of ds)
      in if ds = [] \<or> n < - (2 ^ 63) \<or> 2 ^ 63 \<le> n then None else Some n)"

definition json_int :: "string \<Rightarrow> string \<Rightarrow> int \<Rightarrow> int" where
  "json_int json key fallback =
     (let raw = json_string json key in
      if raw = [] then fallback else case stoll raw of None \<Rightarrow> fallback | Some n \<Rightarrow> n)"

text \<open>
  The scan of \<^verbatim>\<open>json_object\<close>: the depth, whether it is inside a string, whether the last character
  was an escape; it gives the length of the object.
\<close>

fun object_end :: "int \<Rightarrow> bool \<Rightarrow> bool \<Rightarrow> nat \<Rightarrow> string \<Rightarrow> nat option" where
  "object_end depth in_string escaped i [] = None"
| "object_end depth in_string escaped i (c # cs) =
     (if in_string then
        (if c = CHR 0x5C \<and> \<not> escaped then object_end depth True True (i + 1) cs
         else if c = CHR ''\"'' \<and> \<not> escaped then object_end depth False escaped (i + 1) cs
         else object_end depth True False (i + 1) cs)
      else if c = CHR ''\"'' then object_end depth True escaped (i + 1) cs
      else if c = CHR ''{'' then object_end (depth + 1) False escaped (i + 1) cs
      else if c = CHR ''}'' then
        (if depth - 1 = 0 then Some (i + 1) else object_end (depth - 1) False escaped (i + 1) cs)
      else object_end depth False escaped (i + 1) cs)"

definition json_object :: "string \<Rightarrow> string \<Rightarrow> string" where
  "json_object json key =
     (case find_key json key of None \<Rightarrow> [] | Some v \<Rightarrow>
      let r = drop v json in
      if r = [] \<or> hd r \<noteq> CHR ''{'' then [] else
      case object_end 0 False False 0 r of None \<Rightarrow> [] | Some n \<Rightarrow> take n r)"

section \<open>Running a command\<close>

text \<open>
  A started shell: what it writes and when (in milliseconds from its start), when it ends (never:
  \<open>None\<close>), and its exit code (\<open>None\<close>: ended by a signal).  It holds the pipe open until it ends.
  Time passes in \<^verbatim>\<open>poll\<close> and in a blocking \<^verbatim>\<open>read\<close> only.
\<close>

record child =
  writes :: "(nat \<times> string) list"
  ends_at :: "nat option"
  ends_with :: "nat option"

datatype spawned = Pipe_failed string | Fork_failed string | Spawned child

definition ended :: "child \<Rightarrow> nat \<Rightarrow> bool" where
  "ended c t \<longleftrightarrow> (case ends_at c of None \<Rightarrow> False | Some e \<Rightarrow> e \<le> t)"

text \<open>The moment at which \<^verbatim>\<open>poll\<close> finds the pipe ready: the next data, or the end of file.\<close>

definition ready_at :: "child \<Rightarrow> (nat \<times> string) list \<Rightarrow> nat option" where
  "ready_at c rest = (case rest of [] \<Rightarrow> ends_at c | (a, _) # _ \<Rightarrow> Some a)"

text \<open>
  The read loop goes on until the end of file, so it comes back only when the child has ended.  The
  result is whether the time ran out, the clock, what is left in the pipe and the output.
\<close>

partial_function (option) wait_loop ::
  "child \<Rightarrow> int \<Rightarrow> nat \<Rightarrow> (nat \<times> string) list \<Rightarrow> string \<Rightarrow> (bool \<times> nat \<times> (nat \<times> string) list \<times> string) option" where
  "wait_loop c timeout t rest out =
     (if ended c t then Some (False, t, rest, out)
      else Option.bind
        (case ready_at c rest of
           None \<Rightarrow> Some (t + 100, rest, out)
         | Some a \<Rightarrow>
             if t + 100 < a then Some (t + 100, rest, out)
             else map_option (\<lambda>e. (max t e, [], out @ concat (map snd rest))) (ends_at c))
        (\<lambda>(t', rest', out').
           if 0 < timeout \<and> timeout * 1000 < int t' then Some (True, t', rest', out')
           else wait_loop c timeout t' rest' out'))"

definition finish_command :: "child \<Rightarrow> int \<Rightarrow> bool \<times> nat \<times> (nat \<times> string) list \<times> string \<Rightarrow> tool_result" where
  "finish_command c timeout r =
     (let (timed_out, t, rest, out) = r;
          output = out @ concat (map snd (filter (\<lambda>(a, _). a \<le> t) rest));
          base = new_tool_result\<lparr>tr_output := output, tr_summary := truncate_text output kSummaryLimit\<rparr>
      in if timed_out then
           base\<lparr>tr_ok := False, tr_exit_code := -1, tr_error := ''command timed out after '' @ string_of_int timeout @ ''s''\<rparr>
         else
           let code = (case ends_with c of Some n \<Rightarrow> int n | None \<Rightarrow> 128) in
           if code = 0 then base\<lparr>tr_ok := True, tr_exit_code := code\<rparr>
           else base\<lparr>tr_ok := False, tr_exit_code := code, tr_error := ''exit code '' @ string_of_int code\<rparr>)"

definition run_command :: "spawned \<Rightarrow> int \<Rightarrow> tool_result option" where
  "run_command s timeout =
     (case s of
        Pipe_failed e \<Rightarrow> Some (failed (''pipe failed: '' @ e))
      | Fork_failed e \<Rightarrow> Some (failed (''fork failed: '' @ e))
      | Spawned c \<Rightarrow> map_option (finish_command c timeout) (wait_loop c timeout 0 (writes c) []))"

section \<open>The tools\<close>

text \<open>
  What a tool asks of the machine.  \<open>Inl\<close> is the text of a \<^verbatim>\<open>filesystem_error\<close>.
\<close>

record 'w machine =
  make_dirs :: "string \<Rightarrow> 'w \<Rightarrow> 'w \<times> (string + unit)"
  entries :: "string \<Rightarrow> 'w \<Rightarrow> string + (bool \<times> string) list"
  is_directory :: "string \<Rightarrow> 'w \<Rightarrow> string + bool"
  read_file :: "string \<Rightarrow> 'w \<Rightarrow> string option"
  write_file :: "string \<Rightarrow> string \<Rightarrow> 'w \<Rightarrow> 'w \<times> bool"
  start_shell :: "string \<Rightarrow> 'w \<Rightarrow> 'w \<times> spawned"

type_synonym 'w tool_run = "string \<Rightarrow> 'w \<Rightarrow> ('w \<times> tool_result outcome) option"

record 'w tool =
  tl_name :: string
  tl_description :: string
  tl_run :: "string \<Rightarrow> 'w \<Rightarrow> ('w \<times> tool_result outcome) option"

definition workspace_status :: "'w machine \<Rightarrow> string \<Rightarrow> 'w tool_run" where
  "workspace_status m workspace args w =
     (case make_dirs m workspace w of
        (w', Inl e) \<Rightarrow> Some (w', Done (failed e))
      | (w', Inr _) \<Rightarrow>
          (case entries m workspace w' of
             Inl e \<Rightarrow> Some (w', Done (failed e))
           | Inr xs \<Rightarrow>
               let text = ''workspace: '' @ workspace @ ''\<newline>entries: '' @ string_of_nat (length xs)
               in Some (w', Done (new_tool_result\<lparr>tr_ok := True, tr_output := text, tr_summary := text\<rparr>))))"

definition file_read :: "'w machine \<Rightarrow> string \<Rightarrow> 'w tool_run" where
  "file_read m workspace args w =
     (let raw_path = json_string args ''path''; path = resolve_path workspace raw_path in
      if raw_path = [] then Some (w, Done (failed ''path is required'')) else
      case is_directory m path w of
        Inl _ \<Rightarrow> Some (w, Threw)
      | Inr True \<Rightarrow> Some (w, Done (failed (''is a directory: '' @ path)))
      | Inr False \<Rightarrow>
          (case read_file m path w of
             None \<Rightarrow> Some (w, Done (failed (''cannot open: '' @ path)))
           | Some text \<Rightarrow> Some (w, Done (new_tool_result\<lparr>tr_output := text, tr_ok := True,
                                            tr_summary := truncate_text text kSummaryLimit\<rparr>))))"

definition file_write :: "'w machine \<Rightarrow> string \<Rightarrow> 'w tool_run" where
  "file_write m workspace args w =
     (let raw_path = json_string args ''path''; path = resolve_path workspace raw_path;
          content = json_string args ''content'' in
      if raw_path = [] then Some (w, Done (failed ''path is required'')) else
      case make_dirs m (parent_path path) w of
        (w', Inl e) \<Rightarrow> Some (w', Done (failed e))
      | (w', Inr _) \<Rightarrow>
          (case write_file m path content w' of
             (w'', False) \<Rightarrow> Some (w'', Done (failed (''cannot write: '' @ path)))
           | (w'', True) \<Rightarrow>
               let text = ''wrote '' @ string_of_nat (length content) @ '' bytes to '' @ path
               in Some (w'', Done (new_tool_result\<lparr>tr_ok := True, tr_output := text, tr_summary := text\<rparr>))))"

definition file_list :: "'w machine \<Rightarrow> string \<Rightarrow> 'w tool_run" where
  "file_list m workspace args w =
     (let dir = resolve_path workspace (json_string args ''path'') in
      case entries m dir w of
        Inl e \<Rightarrow> Some (w, Done (failed e))
      | Inr xs \<Rightarrow>
          let text = concat (map (\<lambda>(d, f). (if d then ''[dir]  '' else ''[file] '') @ f @ ''\<newline>'') xs)
                     @ ''('' @ string_of_nat (length xs) @ '' entries in '' @ dir @ '')''
          in Some (w, Done (new_tool_result\<lparr>tr_ok := True, tr_output := text, tr_summary := truncate_text text kSummaryLimit\<rparr>)))"

definition terminal_run :: "'w machine \<Rightarrow> 'w tool_run" where
  "terminal_run m args w =
     (let command = json_string args ''command'' in
      if command = [] then Some (w, Done (failed ''command is required'')) else
      let (w', s) = start_shell m command w
      in map_option (\<lambda>r. (w', Done r)) (run_command s (json_int args ''timeout_seconds'' 120)))"

definition workspace_status_tool :: "'w machine \<Rightarrow> string \<Rightarrow> 'w tool" where
  "workspace_status_tool m workspace =
     \<lparr>tl_name = ''workspace.status'', tl_description = ''Report the private workspace path and its current contents.'',
      tl_run = workspace_status m workspace\<rparr>"

definition file_read_tool :: "'w machine \<Rightarrow> string \<Rightarrow> 'w tool" where
  "file_read_tool m workspace =
     \<lparr>tl_name = ''file.read'',
      tl_description = ''Read a text file. args: {\"path\": \"<absolute or workspace-relative>\"}.'',
      tl_run = file_read m workspace\<rparr>"

definition file_write_tool :: "'w machine \<Rightarrow> string \<Rightarrow> 'w tool" where
  "file_write_tool m workspace =
     \<lparr>tl_name = ''file.write'',
      tl_description = ''Write text to a file (parent directories are created). args: {\"path\": \"...\", \"content\": \"...\"}.'',
      tl_run = file_write m workspace\<rparr>"

definition file_list_tool :: "'w machine \<Rightarrow> string \<Rightarrow> 'w tool" where
  "file_list_tool m workspace =
     \<lparr>tl_name = ''file.list'',
      tl_description = ''List a directory. args: {\"path\": \"<optional, defaults to the workspace>\"}.'',
      tl_run = file_list m workspace\<rparr>"

definition terminal_run_tool :: "'w machine \<Rightarrow> 'w tool" where
  "terminal_run_tool m =
     \<lparr>tl_name = ''terminal.run'',
      tl_description = ''Run a shell command and return its combined output. args: {\"command\": \"...\", \"timeout_seconds\": <optional, 0 = unlimited>}.'',
      tl_run = terminal_run m\<rparr>"

section \<open>The engine\<close>

type_synonym 'w approver = "approval_request \<Rightarrow> 'w \<Rightarrow> 'w \<times> approval_decision"

record 'w tool_engine =
  workspace_dir :: string
  tools :: "'w tool list"
  approver :: "'w approver option"

definition new_tool_engine :: "string \<Rightarrow> 'w tool_engine" where
  "new_tool_engine workspace = \<lparr>workspace_dir = workspace, tools = [], approver = None\<rparr>"

definition register_tool :: "'w tool \<Rightarrow> 'w tool_engine \<Rightarrow> 'w tool_engine" where
  "register_tool t e = e\<lparr>tools := tools e @ [t]\<rparr>"

definition set_approver :: "'w approver \<Rightarrow> 'w tool_engine \<Rightarrow> 'w tool_engine" where
  "set_approver a e = e\<lparr>approver := Some a\<rparr>"

definition tool_names :: "'w tool_engine \<Rightarrow> string list" where
  "tool_names e = map tl_name (tools e)"

definition registry_block :: "'w tool_engine \<Rightarrow> string" where
  "registry_block e =
     ''[TOOL REGISTRY]\<newline>'' @ concat (map (\<lambda>t. ''- '' @ tl_name t @ '': '' @ tl_description t @ ''\<newline>'') (tools e))
     @ ''To call a tool, emit: <tool_call>{\"name\":\"<tool>\",\"arguments\":{...}}</tool_call>''"

definition ensure_workspace :: "'w machine \<Rightarrow> 'w tool_engine \<Rightarrow> 'w \<Rightarrow> 'w \<times> string outcome" where
  "ensure_workspace m e w =
     (case make_dirs m (workspace_dir e) w of (w', Inl _) \<Rightarrow> (w', Threw) | (w', Inr _) \<Rightarrow> (w', Done (workspace_dir e)))"

definition approval_for :: "'w tool \<Rightarrow> int \<Rightarrow> tool_request \<Rightarrow> approval_request" where
  "approval_for t clock req =
     \<lparr>ap_action_id = (if rq_action_id req = [] then ''act_'' @ string_of_int clock else rq_action_id req),
      ap_tool_name = rq_name req,
      ap_description = (if rq_description req = [] then tl_description t @ '' args='' @ rq_arguments req
                        else rq_description req),
      ap_timeout_ms = 30000\<rparr>"

definition execute :: "'w tool_engine \<Rightarrow> int \<Rightarrow> tool_request \<Rightarrow> 'w \<Rightarrow> ('w \<times> tool_result outcome) option" where
  "execute e clock req w =
     (case find (\<lambda>t. tl_name t = rq_name req) (tools e) of
        None \<Rightarrow> Some (w, Done (failed (''unknown tool: '' @ rq_name req)))
      | Some t \<Rightarrow>
          (case approver e of
             None \<Rightarrow> Some (w, Done (failed ''denied: no approval handler registered''))
           | Some ask \<Rightarrow>
               let approval = approval_for t clock req; (w', decision) = ask approval w in
               if decision \<noteq> Approved then
                 Some (w', Done ((failed (if decision = Denied then ''denied by human'' else ''approval timed out''))
                                   \<lparr>tr_action_id := ap_action_id approval\<rparr>))
               else
                 map_option
                   (\<lambda>(w'', r). (w'', case r of Done x \<Rightarrow> Done (x\<lparr>tr_action_id := ap_action_id approval\<rparr>) | Threw \<Rightarrow> Threw))
                   (tl_run t (rq_arguments req) w')))"

section \<open>When a command comes back\<close>

lemma wait_ends:
  assumes "ends_at c = Some e"
  shows "wait_loop c timeout t rest out \<noteq> None"
proof (induction "e - t" arbitrary: t rest out rule: less_induct)
  case less
  have over: "wait_loop c timeout t' rest' out' \<noteq> None" if "e \<le> t'" for t' rest' out'
    using assms that by (subst wait_loop.simps) (simp add: ended_def)
  show ?case
  proof (cases "e \<le> t")
    case False
    then have "wait_loop c timeout (t + 100) rest out \<noteq> None" by (intro less) simp
    moreover obtain a where "ready_at c rest = Some a" using assms by (cases rest) (auto simp: ready_at_def)
    moreover have "wait_loop c timeout (max t e) [] o' \<noteq> None" for o' by (rule over) simp
    ultimately show ?thesis using False assms by (subst wait_loop.simps) (auto simp: ended_def)
  qed (rule over)
qed

lemma wait_forever:
  assumes "wait_loop c timeout t rest out = Some r"
  shows "ends_at c = None \<longrightarrow> 0 < timeout"
proof (rule wait_loop.raw_induct[OF _ assms])
  fix f :: "child \<Rightarrow> int \<Rightarrow> nat \<Rightarrow> (nat \<times> string) list \<Rightarrow> string \<Rightarrow> (bool \<times> nat \<times> (nat \<times> string) list \<times> string) option"
  fix c timeout t rest out r
  assume ih: "\<And>c timeout t rest out r. f c timeout t rest out = Some r \<Longrightarrow> ends_at c = None \<longrightarrow> 0 < timeout"
  assume "(if ended c t then Some (False, t, rest, out)
      else Option.bind
        (case ready_at c rest of
           None \<Rightarrow> Some (t + 100, rest, out)
         | Some a \<Rightarrow>
             if t + 100 < a then Some (t + 100, rest, out)
             else map_option (\<lambda>e. (max t e, [], out @ concat (map snd rest))) (ends_at c))
        (\<lambda>(t', rest', out').
           if 0 < timeout \<and> timeout * 1000 < int t' then Some (True, t', rest', out')
           else f c timeout t' rest' out')) = Some r"
  then show "ends_at c = None \<longrightarrow> 0 < timeout"
    by (auto simp: ended_def bind_eq_Some_conv split: if_splits option.splits dest: ih)
qed

lemma wait_blocks:
  assumes "wait_loop c timeout t rest out = Some r"
  shows "ends_at c = None \<longrightarrow> rest = (a, s) # ws \<longrightarrow> int a \<le> timeout * 1000 + 100 \<longrightarrow> int t \<le> timeout * 1000
    \<longrightarrow> 100 dvd t \<longrightarrow> False"
proof (rule wait_loop.raw_induct[OF _ assms])
  fix f :: "child \<Rightarrow> int \<Rightarrow> nat \<Rightarrow> (nat \<times> string) list \<Rightarrow> string \<Rightarrow> (bool \<times> nat \<times> (nat \<times> string) list \<times> string) option"
  fix c timeout t rest out r
  assume ih: "\<And>c timeout t rest out r. f c timeout t rest out = Some r \<Longrightarrow> ends_at c = None \<longrightarrow> rest = (a, s) # ws
    \<longrightarrow> int a \<le> timeout * 1000 + 100 \<longrightarrow> int t \<le> timeout * 1000 \<longrightarrow> 100 dvd t \<longrightarrow> False"
  assume b: "(if ended c t then Some (False, t, rest, out)
      else Option.bind
        (case ready_at c rest of
           None \<Rightarrow> Some (t + 100, rest, out)
         | Some a \<Rightarrow>
             if t + 100 < a then Some (t + 100, rest, out)
             else map_option (\<lambda>e. (max t e, [], out @ concat (map snd rest))) (ends_at c))
        (\<lambda>(t', rest', out').
           if 0 < timeout \<and> timeout * 1000 < int t' then Some (True, t', rest', out')
           else f c timeout t' rest' out')) = Some r"
  show "ends_at c = None \<longrightarrow> rest = (a, s) # ws \<longrightarrow> int a \<le> timeout * 1000 + 100 \<longrightarrow> int t \<le> timeout * 1000 \<longrightarrow> 100 dvd t \<longrightarrow> False"
  proof (intro impI)
    assume h: "ends_at c = None" "rest = (a, s) # ws" "int a \<le> timeout * 1000 + 100" "int t \<le> timeout * 1000" "100 dvd t"
    have soon: "t + 100 < a \<Longrightarrow> int (t + 100) \<le> timeout * 1000"
    proof -
      assume "t + 100 < a"
      moreover obtain k where k: "t = 100 * k" using h(5) by (rule dvdE)
      ultimately have "100 * int k < 100 * (timeout * 10)" using h(3) by simp
      then have "int k < timeout * 10" by simp
      then show ?thesis by (simp add: k)
    qed
    show False
    proof (cases "t + 100 < a")
      case True
      then have "f c timeout (t + 100) rest out = Some r"
        using b h soon by (simp add: ended_def ready_at_def)
      moreover have "100 dvd t + 100" using h(5) by simp
      ultimately show False using ih[of c timeout "t + 100" rest out r] h soon[OF True] by blast
    next
      case False
      then show False using b h by (simp add: ended_def ready_at_def)
    qed
  qed
qed

lemma wait_silent:
  assumes "ends_at c = None" "0 < timeout"
  shows "int t \<le> timeout * 1000 \<Longrightarrow> (\<And>a s r. rest = (a, s) # r \<Longrightarrow> timeout * 1000 + 100 < int a) \<Longrightarrow>
    wait_loop c timeout t rest out \<noteq> None"
proof (induction "nat (timeout * 1000 - int t)" arbitrary: t rule: less_induct)
  case less
  have "ready_at c rest = None \<or> (\<exists>a. ready_at c rest = Some a \<and> t + 100 < a)"
    using less.prems assms(1) by (cases rest) (auto simp: ready_at_def)
  moreover have "wait_loop c timeout (t + 100) rest out \<noteq> None" if "int (t + 100) \<le> timeout * 1000"
    using less.prems that by (intro less) auto
  ultimately show ?case
    by (subst wait_loop.simps) (auto simp: ended_def assms)
qed

text \<open>
  when a command comes back: the call never returns exactly when the child never ends and either
  there is no timeout or the child writes something no later than the last poll: the read loop
  waits for the end of the file, so the timeout works for a silent child only.
\<close>

theorem command_hangs:
  "run_command (Spawned c) timeout = None \<longleftrightarrow>
     ends_at c = None \<and> (timeout \<le> 0 \<or> (\<exists>a s r. writes c = (a, s) # r \<and> int a \<le> timeout * 1000 + 100))"
proof -
  let ?l = "wait_loop c timeout 0 (writes c) []"
  consider (ends) e where "ends_at c = Some e" | (free) "ends_at c = None" "timeout \<le> 0"
    | (blocks) a s r where "ends_at c = None" "0 < timeout" "writes c = (a, s) # r" "int a \<le> timeout * 1000 + 100"
    | (silent) "ends_at c = None" "0 < timeout" "\<And>a s r. writes c = (a, s) # r \<Longrightarrow> timeout * 1000 + 100 < int a"
    by (metis not_Some_eq not_less)
  then show ?thesis
  proof cases
    case ends
    then show ?thesis using wait_ends[OF ends] by (force simp: run_command_def)
  next
    case free
    then have "?l = None" using wait_forever[of c timeout 0 "writes c" "[]"] by (cases ?l) auto
    then show ?thesis using free by (simp add: run_command_def)
  next
    case blocks
    then have "?l = None" using wait_blocks[of c timeout 0 "writes c" "[]" _ a s r] by (cases ?l) auto
    then show ?thesis using blocks by (simp add: run_command_def)
  next
    case silent
    then have "?l \<noteq> None" using wait_silent[of c timeout 0 "writes c" "[]"] by simp
    moreover have "\<not> (\<exists>a s r. writes c = (a, s) # r \<and> int a \<le> timeout * 1000 + 100)" using silent(3) by fastforce
    ultimately show ?thesis using silent by (auto simp: run_command_def)
  qed
qed

section \<open>The gate\<close>

text \<open>
  C9: no tool moves without approval: when a call of the engine returns, either a tool of that name
  is registered, the approver was asked for that name and said yes, and what happened after that is
  what the tool did with the arguments of the request; or the world is as it was but for the asking,
  and the result is an error without output.
\<close>

theorem only_approved_tools_run:
  assumes "execute e clock req w = Some (w', r)"
  shows "(\<exists>t ask ap w1 r1. t \<in> set (tools e) \<and> tl_name t = rq_name req \<and> approver e = Some ask
            \<and> ap_tool_name ap = rq_name req \<and> ask ap w = (w1, Approved) \<and> tl_run t (rq_arguments req) w1 = Some (w', r1)
            \<and> (case r1 of Threw \<Rightarrow> r = Threw | Done x \<Rightarrow> r = Done (x\<lparr>tr_action_id := ap_action_id ap\<rparr>)))
       \<or> ((w' = w \<or> (\<exists>ask ap d. approver e = Some ask \<and> ask ap w = (w', d) \<and> d \<noteq> Approved))
            \<and> (\<exists>x. r = Done x \<and> \<not> tr_ok x \<and> tr_output x = [] \<and> tr_error x \<noteq> []))"
proof (cases "find (\<lambda>t. tl_name t = rq_name req) (tools e)")
  case None
  then show ?thesis using assms by (auto simp: execute_def failed_def new_tool_result_def)
next
  case (Some t)
  then have t: "t \<in> set (tools e)" "tl_name t = rq_name req" by (auto simp: find_Some_iff)
  show ?thesis
  proof (cases "approver e")
    case None
    then show ?thesis using assms Some by (auto simp: execute_def failed_def new_tool_result_def)
  next
    case (Some ask)
    let ?ap = "approval_for t clock req"
    obtain w1 d where a: "ask ?ap w = (w1, d)" by fastforce
    show ?thesis
    proof (cases "d = Approved")
      case True
      then obtain r1 where "tl_run t (rq_arguments req) w1 = Some (w', r1)"
        "r = (case r1 of Done x \<Rightarrow> Done (x\<lparr>tr_action_id := ap_action_id ?ap\<rparr>) | Threw \<Rightarrow> Threw)"
        using assms Some \<open>find _ _ = Some t\<close> a by (auto simp: execute_def)
      moreover have "ap_tool_name ?ap = rq_name req" by (simp add: approval_for_def)
      ultimately show ?thesis using t Some a True by (intro disjI1) (force split: outcome.splits)
    next
      case False
      then show ?thesis using assms Some \<open>find _ _ = Some t\<close> a
        by (auto simp: execute_def failed_def new_tool_result_def)
    qed
  qed
qed

section \<open>What the reader of JSON finds\<close>

text \<open>The text of a string value, as a writer of JSON spells it.\<close>

definition escape :: "string \<Rightarrow> string" where
  "escape t = concat (map (\<lambda>c. if c = CHR ''\"'' \<or> c = CHR 0x5C then [CHR 0x5C, c]
     else if c = CHR ''\<newline>'' then [CHR 0x5C, CHR ''n''] else if c = CHR 0x09 then [CHR 0x5C, CHR ''t''] else [c]) t)"

definition needle :: "string \<Rightarrow> string" where
  "needle k = ''\"'' @ k @ ''\"''"

lemma unescape_escape: "unescape False (escape t @ CHR ''\"'' # rest) = t"
  by (induction t) (auto simp: escape_def)

lemma find0_char: "CHR '':'' \<notin> set mid \<Longrightarrow> find0 '':'' (mid @ CHR '':'' # v) = Some (length mid)"
  by (induction mid) auto

lemma find_key_at:
  assumes "find0 (needle k) (pre @ needle k) = Some (length pre)" "CHR '':'' \<notin> set mid" "list_all is_space bl" "\<not> is_space c"
  shows "\<exists>n. find_key (pre @ needle k @ mid @ '':'' @ bl @ c # v) k = Some n
     \<and> drop n (pre @ needle k @ mid @ '':'' @ bl @ c # v) = c # v"
proof -
  let ?json = "pre @ needle k @ mid @ '':'' @ bl @ c # v"
  have 1: "str_find (needle k) ?json 0 = Some (length pre)"
    using find0_append[OF assms(1), of "mid @ '':'' @ bl @ c # v"] by (simp add: str_find_0)
  have d: "drop (length pre + length (needle k)) ?json = mid @ CHR '':'' # bl @ c # v" by simp
  have 2: "str_find '':'' ?json (length pre + length (needle k)) = Some (length pre + length (needle k) + length mid)"
    unfolding str_find_def d by (simp add: find0_char[OF assms(2)])
  have d2: "drop (length pre + length (needle k) + length mid + 1) ?json = bl @ c # v" by simp
  have "takeWhile is_space (bl @ c # v) = bl"
    using assms(3,4) by (induction bl) auto
  then have "find_key ?json k = Some (length pre + length (needle k) + length mid + 1 + length bl)"
    unfolding find_key_def Let_def needle_def[symmetric] 1 option.case 2 d2 by simp
  then show ?thesis by (auto simp: drop_Cons')
qed

text \<open>
  C17: what was written is read back: for any text, spelled with the usual escapes as the value of a
  key whose quoted name does not occur earlier, \<^verbatim>\<open>json_string\<close> of that key is the text, whatever
  comes before and after, with any blanks after the colon.
\<close>

theorem json_reads_back:
  assumes "find0 (needle k) (pre @ needle k) = Some (length pre)" and "list_all is_space bl"
  shows "json_string (pre @ needle k @ '':'' @ bl @ ''\"'' @ escape t @ ''\"'' @ rest) k = t"
proof -
  have "\<not> is_space (CHR ''\"'')" by (simp add: is_space_def)
  from find_key_at[OF assms(1) _ assms(2) this, of "[]" "escape t @ ''\"'' @ rest"]
  show ?thesis by (auto simp: json_string_def unescape_escape)
qed

theorem json_reads_back_witness:
  "json_string (''{'' @ needle ''path'' @ '':'' @ '' '' @ ''\"'' @ escape ''/tmp/a \"b\"'' @ ''\"'' @ ''}'') ''path'' = ''/tmp/a \"b\"''"
  by (rule json_reads_back) (simp_all add: needle_def is_space_def)

text \<open>
  a value can stand in for a key: the reader takes the first quoted occurrence of the name,
  whether it is a key or a value, and the next colon after it; so a file whose content is the word
  path is not written where the request says, but at the value of whatever key comes next.
\<close>

theorem value_taken_for_key:
  assumes "args = ''{'' @ needle ''content'' @ '':'' @ needle ''path'' @ '','' @ needle ''mode'' @ '':\"'' @ escape m @ ''\",''
                  @ needle ''path'' @ '':\"'' @ escape p @ ''\"}''" and "m \<noteq> []"
  shows "file_write mach ws args w =
     (case make_dirs mach (parent_path (resolve_path ws m)) w of
        (w', Inl e) \<Rightarrow> Some (w', Done (failed e))
      | (w', Inr _) \<Rightarrow>
          (case write_file mach (resolve_path ws m) ''path'' w' of
             (w'', False) \<Rightarrow> Some (w'', Done (failed (''cannot write: '' @ resolve_path ws m)))
           | (w'', True) \<Rightarrow>
               let text = ''wrote 4 bytes to '' @ resolve_path ws m
               in Some (w'', Done (new_tool_result\<lparr>tr_ok := True, tr_output := text, tr_summary := text\<rparr>))))"
proof -
  have q: "\<not> is_space (CHR ''\"'')" by (simp add: is_space_def)
  let ?pre = "''{'' @ needle ''content'' @ '':''"
  have f: "find0 (needle ''path'') (?pre @ needle ''path'') = Some (length ?pre)" by (simp add: needle_def)
  have "\<exists>n. find_key args ''path'' = Some n \<and> drop n args = ''\"'' @ escape m @ ''\",'' @ needle ''path'' @ '':\"'' @ escape p @ ''\"}''"
    using find_key_at[OF f _ _ q, of "'','' @ needle ''mode''" "[]" "escape m @ ''\",'' @ needle ''path'' @ '':\"'' @ escape p @ ''\"}''"]
    by (simp add: assms(1) needle_def)
  then have 1: "json_string args ''path'' = m" by (auto simp: json_string_def unescape_escape)
  have c: "find0 (needle ''content'') (''{'' @ needle ''content'') = Some (length ''{'')" by (simp add: needle_def)
  have "\<exists>n R. find_key args ''content'' = Some n \<and> drop n args = ''\"'' @ ''path'' @ CHR ''\"'' # R"
    using find_key_at[OF c _ _ q, of "[]" "[]" "''path\",'' @ needle ''mode'' @ '':\"'' @ escape m @ ''\",'' @ needle ''path'' @ '':\"'' @ escape p @ ''\"}''"]
    by (simp add: assms(1) needle_def) blast
  moreover have "unescape False (''path'' @ CHR ''\"'' # r) = ''path''" for r by simp
  ultimately have 2: "json_string args ''content'' = ''path''" by (auto simp: json_string_def)
  have "string_of_nat (Suc (Suc (Suc (Suc 0)))) = ''4''" by code_simp
  then show ?thesis by (simp add: file_write_def 1 2 assms(2) Let_def split: prod.split sum.split bool.split)
qed

text \<open>A machine whose world is the list of its files, for the instances below.\<close>

definition file_machine :: "(string \<times> string) list machine" where
  "file_machine =
     \<lparr>make_dirs = (\<lambda>_ w. (w, Inr ())), entries = (\<lambda>_ w. Inr (map (\<lambda>(f, _). (False, f)) w)),
      is_directory = (\<lambda>_ _. Inr False), read_file = (\<lambda>p w. map_of w p), write_file = (\<lambda>p t w. ((p, t) # w, True)),
      start_shell = (\<lambda>_ w. (w, Spawned \<lparr>writes = [(0, ''ok'')], ends_at = Some 5, ends_with = Some 0\<rparr>))\<rparr>"

theorem value_taken_for_key_witness:
  "\<exists>r. file_write file_machine ''/ws'' (''{'' @ needle ''content'' @ '':'' @ needle ''path'' @ '','' @ needle ''mode''
      @ '':\"'' @ escape ''w'' @ ''\",'' @ needle ''path'' @ '':\"'' @ escape ''/etc/motd'' @ ''\"}'') []
     = Some ([(''/ws/w'', ''path'')], Done r) \<and> tr_ok r"
  using value_taken_for_key[OF refl, of "''w''" file_machine "''/ws''" "''/etc/motd''" "[]"]
  by (simp add: file_machine_def resolve_path_def join_path_def is_absolute_def Let_def)

theorem only_approved_tools_run_witness:
  "\<exists>r. execute (set_approver (\<lambda>_ w. (w, Denied)) (register_tool (file_write_tool file_machine ''/ws'') (new_tool_engine ''/ws'')))
       0 \<lparr>rq_name = ''file.write'', rq_arguments = ''{}'', rq_description = [], rq_action_id = ''a1''\<rparr> [] = Some ([], Done r)
     \<and> \<not> tr_ok r \<and> tr_output r = []"
proof -
  let ?e = "set_approver (\<lambda>_ w. (w, Denied)) (register_tool (file_write_tool file_machine ''/ws'') (new_tool_engine ''/ws''))"
  let ?q = "\<lparr>rq_name = ''file.write'', rq_arguments = ''{}'', rq_description = [], rq_action_id = ''a1''\<rparr>"
  obtain w' r where e: "execute ?e 0 ?q [] = Some (w', r)" "w' = []"
    by (simp add: execute_def set_approver_def register_tool_def new_tool_engine_def file_write_tool_def)
  moreover have "approver ?e = Some (\<lambda>_ w. (w, Denied))" by (simp add: set_approver_def)
  ultimately show ?thesis using only_approved_tools_run[OF e(1)] by auto
qed

text \<open>A relative path stays below the workspace as a text only; an absolute one is taken as it is.\<close>

lemma resolved_absolute: "is_absolute ws \<Longrightarrow> is_absolute (resolve_path ws p)"
  by (cases ws) (auto simp: resolve_path_def join_path_def is_absolute_def)

end
