(* ===== verification/Browser_Codec.thy ===== *)
theory Browser_Codec
  imports Prelude
begin

text \<open>
  The two codecs of \<^verbatim>\<open>src/src/browser_driver.cpp\<close>: base64 (RFC 4648) and SHA-1 (RFC 3174) with its
  block buffer.  Bytes are words of 8 bits, the arithmetic is that of 32-bit and 64-bit words.
  Decoding undoes encoding, and the digest is that of the padded message, however the message was
  cut into updates.
\<close>

unbundle bit_operations_syntax

section \<open>Bytes and characters\<close>

definition char_byte :: "char \<Rightarrow> u8" where "char_byte c = of_nat (of_char c)"
definition byte_char :: "u8 \<Rightarrow> char" where "byte_char w = char_of (unat w)"

lemma byte_char_byte [simp]: "char_byte (byte_char w) = w"
proof -
  have "unat w < 256" using unsigned_less[of w, where 'a = nat] by simp
  then have "(of_char (char_of (unat w)) :: nat) = unat w" by (simp add: of_char_of)
  then show ?thesis by (simp only: char_byte_def byte_char_def of_nat_unat ucast_id unsigned_ucast_eq)
qed

lemma char_byte_char [simp]: "byte_char (char_byte c) = c"
proof -
  have "(of_char c :: nat) < 256" by simp
  then have "unat (of_nat (of_char c) :: u8) = of_char c" by (simp add: unat_of_nat)
  then show ?thesis by (simp add: char_byte_def byte_char_def)
qed

section \<open>Base64\<close>

definition kBase64Table :: string where
  "kBase64Table = ''ABCDEFGHIJKLMNOPQRSTUVWXYZabcdefghijklmnopqrstuvwxyz0123456789+/''"

definition sextet :: "u32 \<Rightarrow> nat \<Rightarrow> char" where
  "sextet triple n = kBase64Table ! unat (drop_bit n triple AND 0x3f)"

text \<open>The group of up to three bytes at the head of the data.\<close>

definition base64_group :: "u8 list \<Rightarrow> string" where
  "base64_group data =
     (let a = ucast (data ! 0) :: u32;
          b = (if 1 < length data then ucast (data ! 1) else 0);
          c = (if 2 < length data then ucast (data ! 2) else 0);
          triple = push_bit 16 a OR push_bit 8 b OR c
      in [sextet triple 18, sextet triple 12,
          if 1 < length data then sextet triple 6 else CHR ''='',
          if 2 < length data then sextet triple 0 else CHR ''=''])"

fun base64_encode :: "u8 list \<Rightarrow> string" where
  "base64_encode [] = []"
| "base64_encode (x # xs) = base64_group (x # xs) @ base64_encode (drop 2 xs)"

definition base64_value :: "char \<Rightarrow> int" where
  "base64_value c =
     (let n = of_char c :: int in
      if 65 \<le> n \<and> n \<le> 90 then n - 65
      else if 97 \<le> n \<and> n \<le> 122 then n - 97 + 26
      else if 48 \<le> n \<and> n \<le> 57 then n - 48 + 52
      else if c = CHR ''+'' then 62
      else if c = CHR ''/'' then 63 else -1)"

definition base64_step :: "u32 \<times> nat \<times> u8 list \<Rightarrow> char \<Rightarrow> u32 \<times> nat \<times> u8 list" where
  "base64_step s c =
     (let (buffer, bits, out) = s; v = base64_value c in
      if c = CHR ''='' \<or> c = CHR 0x0A \<or> c = CHR 0x0D \<or> v < 0 then s
      else
        let buffer = push_bit 6 buffer OR of_int v; bits = bits + 6 in
        if 8 \<le> bits then (buffer, bits - 8, out @ [ucast (drop_bit (bits - 8) buffer AND 0xff)])
        else (buffer, bits, out))"

definition base64_decode :: "string \<Rightarrow> u8 list" where
  "base64_decode input = snd (snd (foldl base64_step (0, 0, []) input))"

text \<open>One sextet is read back as its number.\<close>

lemma table_values: "list_all (\<lambda>n. base64_value (kBase64Table ! n) = int n \<and> kBase64Table ! n \<noteq> CHR ''=''
     \<and> kBase64Table ! n \<noteq> CHR 0x0A \<and> kBase64Table ! n \<noteq> CHR 0x0D) [0..<64]"
  by code_simp

lemma sextet_value:
  "base64_value (sextet t n) = int (unat (drop_bit n t AND 0x3f))" "sextet t n \<noteq> CHR ''=''"
  "sextet t n \<noteq> CHR 0x0A" "sextet t n \<noteq> CHR 0x0D"
proof -
  have "drop_bit n t AND 0x3f \<le> (0x3f :: u32)" by (rule word_and_le1)
  then have "unat (drop_bit n t AND 0x3f) < 64" by (simp add: word_le_nat_alt)
  then show "base64_value (sextet t n) = int (unat (drop_bit n t AND 0x3f))" "sextet t n \<noteq> CHR ''=''"
    "sextet t n \<noteq> CHR 0x0A" "sextet t n \<noteq> CHR 0x0D"
    using table_values by (simp_all add: sextet_def list_all_iff)
qed

lemma step_sextet:
  "base64_step (buffer, bits, out) (sextet t n) =
     (let buffer = push_bit 6 buffer OR (drop_bit n t AND 0x3f); bits = bits + 6 in
      if 8 \<le> bits then (buffer, bits - 8, out @ [ucast (drop_bit (bits - 8) buffer AND 0xff)])
      else (buffer, bits, out))"
  by (simp add: base64_step_def Let_def sextet_value)

lemma mask6: "bit (0x3f :: u32) n \<longleftrightarrow> n < 6" and mask8: "bit (0xff :: u32) n \<longleftrightarrow> n < 8"
proof -
  have m: "(0x3f :: u32) = mask 6" "(0xff :: u32) = mask 8" by (simp_all add: mask_eq_exp_minus_1)
  show "bit (0x3f :: u32) n \<longleftrightarrow> n < 6" "bit (0xff :: u32) n \<longleftrightarrow> n < 8" unfolding m by (auto simp only: bit_mask_iff) simp_all
qed

lemma below8: "n < 8 \<Longrightarrow> n = 0 \<or> n = 1 \<or> n = 2 \<or> n = 3 \<or> n = 4 \<or> n = 5 \<or> n = 6 \<or> n = (7 :: nat)"
  by linarith

lemma group_bytes:
  fixes a b c :: u8 and buf :: u32
  defines "t \<equiv> push_bit 16 (ucast a) OR push_bit 8 (ucast b) OR (ucast c :: u32)"
  defines "b1 \<equiv> push_bit 6 buf OR (drop_bit 18 t AND 0x3f)"
  defines "b2 \<equiv> push_bit 6 b1 OR (drop_bit 12 t AND 0x3f)"
  defines "b3 \<equiv> push_bit 6 b2 OR (drop_bit 6 t AND 0x3f)"
  defines "b4 \<equiv> push_bit 6 b3 OR (t AND 0x3f)"
  shows "ucast (drop_bit 4 b2 AND 0xff) = a" "ucast (drop_bit 2 b3 AND 0xff) = b" "ucast (b4 AND 0xff) = c"
proof -
  note bits = bit_or_iff bit_and_iff bit_push_bit_iff bit_drop_bit_eq comp_def mask6 mask8 bit_ucast_iff bit_word_ucast_iff
  have len: "n < LENGTH(8) \<Longrightarrow> n < 8" for n by simp
  have high: "8 \<le> k \<Longrightarrow> \<not> bit (x :: u8) k" for x k by (auto dest: bit_imp_le_length)
  show "ucast (drop_bit 4 b2 AND 0xff) = a" "ucast (drop_bit 2 b3 AND 0xff) = b" "ucast (b4 AND 0xff) = c"
    unfolding b4_def b3_def b2_def b1_def t_def
    by (rule bit_word_eqI, drule len, drule below8, unfold bits, elim disjE, simp_all only:, simp_all add: high)+
qed

text \<open>A whole group, and the two groups that end a text.\<close>

lemma decode_group:
  assumes "data \<noteq> []"
  shows "\<exists>buf'. foldl base64_step (buf, 0, out) (base64_group data)
     = (buf', (if 3 \<le> length data then 0 else if length data = 2 then 2 else 4), out @ take 3 data)"
proof -
  have skip: "base64_step s (CHR ''='') = s" for s by (cases s) (simp add: base64_step_def Let_def)
  have zero: "drop_bit 0 t = t" for t :: u32 by simp
  note step = step_sextet Let_def group_bytes
  from assms consider (one) a where "data = [a]" | (two) a b where "data = [a, b]" | (three) a b c rest where "data = a # b # c # rest"
    by (metis list.exhaust)
  then show ?thesis
  proof cases
    case one
    then show ?thesis using group_bytes(1)[where c = 0 and b = 0 and a = a and buf = buf] by (simp add: base64_group_def Let_def step_sextet skip)
  next
    case two
    then show ?thesis using group_bytes(1,2)[where c = 0 and b = b and a = a and buf = buf] by (simp add: base64_group_def Let_def step_sextet skip)
  next
    case three
    then show ?thesis using group_bytes[where c = c and b = b and a = a and buf = buf] by (simp add: base64_group_def Let_def step_sextet zero)
  qed
qed

lemma decode_from: "\<exists>buf' bits. foldl base64_step (buf, 0, out) (base64_encode data) = (buf', bits, out @ data)"
proof (induction data arbitrary: buf out rule: base64_encode.induct)
  case (2 x xs)
  obtain b1 where g: "foldl base64_step (buf, 0, out) (base64_group (x # xs))
     = (b1, (if 3 \<le> length (x # xs) then 0 else if length (x # xs) = 2 then 2 else 4), out @ take 3 (x # xs))"
    using decode_group[of "x # xs" buf out] by blast
  show ?case
  proof (cases "3 \<le> length (x # xs)")
    case True
    have "take 3 (x # xs) @ drop 2 xs = x # xs" by (simp add: eval_nat_numeral)
    then show ?thesis using g True 2[of b1 "out @ take 3 (x # xs)"] by simp
  next
    case False
    then have "drop 2 xs = []" "take 3 (x # xs) = x # xs" by simp_all
    then show ?thesis using g by simp
  qed
qed simp

text \<open>
  base64 round trip: any bytes, encoded and decoded again, are the same bytes, whatever the
  number of bytes in the last group.
\<close>

theorem base64_round_trip: "base64_decode (base64_encode data) = data"
  using decode_from[of 0 "[]" data] by (auto simp: base64_decode_def)

section \<open>SHA-1\<close>

record sha1 =
  sha_h :: "u32 list"
  sha_length :: u64
  sha_block :: "u8 list"

definition new_sha1 :: sha1 where
  "new_sha1 = \<lparr>sha_h = [0x67452301, 0xefcdab89, 0x98badcfe, 0x10325476, 0xc3d2e1f0], sha_length = 0, sha_block = []\<rparr>"

definition rol :: "u32 \<Rightarrow> nat \<Rightarrow> u32" where
  "rol v n = push_bit n v OR drop_bit (32 - n) v"

definition block_word :: "u8 list \<Rightarrow> nat \<Rightarrow> u32" where
  "block_word block i =
     push_bit 24 (ucast (block ! (i * 4))) OR push_bit 16 (ucast (block ! (i * 4 + 1)))
     OR push_bit 8 (ucast (block ! (i * 4 + 2))) OR ucast (block ! (i * 4 + 3))"

definition sha_schedule :: "u8 list \<Rightarrow> u32 list" where
  "sha_schedule block =
     foldl (\<lambda>w i. w @ [rol (w ! (i - 3) XOR w ! (i - 8) XOR w ! (i - 14) XOR w ! (i - 16)) 1])
       (map (block_word block) [0..<16]) [16..<80]"

definition sha_round :: "u32 list \<Rightarrow> u32 \<times> u32 \<times> u32 \<times> u32 \<times> u32 \<Rightarrow> nat \<Rightarrow> u32 \<times> u32 \<times> u32 \<times> u32 \<times> u32" where
  "sha_round w s i =
     (let (a, b, c, d, e) = s;
          (f, k) = (if i < 20 then (b AND c OR NOT b AND d, 0x5a827999)
                    else if i < 40 then (b XOR c XOR d, 0x6ed9eba1)
                    else if i < 60 then (b AND c OR b AND d OR c AND d, 0x8f1bbcdc)
                    else (b XOR c XOR d, 0xca62c1d6));
          temp = rol a 5 + f + e + k + w ! i
      in (temp, a, rol b 30, c, d))"

definition compress :: "u32 list \<Rightarrow> u8 list \<Rightarrow> u32 list" where
  "compress h block =
     (let (a, b, c, d, e) = foldl (sha_round (sha_schedule block)) (h ! 0, h ! 1, h ! 2, h ! 3, h ! 4) [0..<80]
      in map2 (+) h [a, b, c, d, e])"

definition process_block :: "sha1 \<Rightarrow> sha1" where
  "process_block s = s\<lparr>sha_h := compress (sha_h s) (sha_block s), sha_block := []\<rparr>"

text \<open>The loop of an update takes at least one byte per round, so a round per byte is enough.\<close>

fun absorb :: "nat \<Rightarrow> u8 list \<Rightarrow> sha1 \<Rightarrow> sha1" where
  "absorb (Suc fuel) (x # xs) s =
     (let n = min (length (x # xs)) (64 - length (sha_block s));
          s' = s\<lparr>sha_block := sha_block s @ take n (x # xs)\<rparr>
      in absorb fuel (drop n (x # xs)) (if length (sha_block s') = 64 then process_block s' else s'))"
| "absorb _ _ s = s"

definition sha_update :: "u8 list \<Rightarrow> sha1 \<Rightarrow> sha1" where
  "sha_update data s = absorb (length data) data (s\<lparr>sha_length := sha_length s + of_nat (length data)\<rparr>)"

fun zero_fill :: "nat \<Rightarrow> sha1 \<Rightarrow> sha1" where
  "zero_fill (Suc fuel) s = (if length (sha_block s) = 56 then s else zero_fill fuel (sha_update [0] s))"
| "zero_fill 0 s = s"

definition length_bytes :: "u64 \<Rightarrow> u8 list" where
  "length_bytes n = map (\<lambda>i. ucast (drop_bit (56 - i * 8) n AND 0xff)) [0..<8]"

definition word_bytes :: "u32 \<Rightarrow> u8 list" where
  "word_bytes v = map (\<lambda>n. ucast (drop_bit n v AND 0xff)) [24, 16, 8, 0]"

definition sha_digest :: "sha1 \<Rightarrow> u8 list" where
  "sha_digest s =
     (let bit_length = sha_length s * 8;
          s1 = sha_update (length_bytes bit_length) (zero_fill 64 (sha_update [0x80] s))
      in concat (map word_bytes (sha_h s1)))"

section \<open>The digest is that of the padded message\<close>

text \<open>The specification: whole blocks of the message from the left, what is left over, and the padding.\<close>

function hash_blocks :: "u32 list \<Rightarrow> u8 list \<Rightarrow> u32 list \<times> u8 list" where
  "hash_blocks h m = (if length m < 64 then (h, m) else hash_blocks (compress h (take 64 m)) (drop 64 m))"
  by auto
termination by (relation "measure (\<lambda>(h, m). length m)") auto

declare hash_blocks.simps [simp del]

definition sha_padding :: "nat \<Rightarrow> u8 list" where
  "sha_padding n = 0x80 # replicate ((119 - n mod 64) mod 64) 0 @ length_bytes (of_nat n * 8)"

lemma hash_blocks_append:
  "hash_blocks h (m @ d) = (let (h1, r) = hash_blocks h m in hash_blocks h1 (r @ d))"
proof (induction h m rule: hash_blocks.induct)
  case (1 h m)
  show ?case
  proof (cases "length m < 64")
    case True
    then show ?thesis by (simp add: hash_blocks.simps[of h m])
  next
    case False
    then have "hash_blocks h (m @ d) = hash_blocks (compress h (take 64 m)) (drop 64 m @ d)"
      by (subst hash_blocks.simps) simp
    then show ?thesis using 1[OF False] False by (simp add: hash_blocks.simps[of h m])
  qed
qed

lemma hash_rest_short: "length (snd (hash_blocks h m)) = length m mod 64"
proof (induction h m rule: hash_blocks.induct)
  case (1 h m)
  then show ?case by (cases "length m < 64") (simp_all add: hash_blocks.simps[of h m] le_mod_geq)
qed

lemma absorb_blocks:
  assumes "length (sha_block s) < 64" "length data \<le> fuel"
  shows "absorb fuel data s =
    s\<lparr>sha_h := fst (hash_blocks (sha_h s) (sha_block s @ data)), sha_block := snd (hash_blocks (sha_h s) (sha_block s @ data))\<rparr>"
  using assms
proof (induction fuel data s rule: absorb.induct)
  case (1 fuel x xs s)
  define n where "n = min (length (x # xs)) (64 - length (sha_block s))"
  have n: "0 < n" "n \<le> length (x # xs)" using 1(2) by (simp_all add: n_def)
  define t where "t = s\<lparr>sha_block := sha_block s @ take n (x # xs)\<rparr>"
  define u where "u = (if length (sha_block t) = 64 then process_block t else t)"
  have step: "absorb (Suc fuel) (x # xs) s = absorb fuel (drop n (x # xs)) u" by (simp add: n_def t_def u_def Let_def)
  have short: "length (drop n (x # xs)) \<le> fuel" using n 1(3) by (cases n) simp_all
  have "length (sha_block u) < 64" using n 1(2) by (auto simp: u_def t_def n_def process_block_def)
  moreover have "absorb fuel (drop n (x # xs)) u = u\<lparr>sha_h := fst (hash_blocks (sha_h u) (sha_block u @ drop n (x # xs))),
      sha_block := snd (hash_blocks (sha_h u) (sha_block u @ drop n (x # xs)))\<rparr>"
    using 1(1)[OF n_def refl, folded t_def, folded u_def] short calculation by blast
  moreover have "hash_blocks (sha_h s) (sha_block s @ x # xs) = hash_blocks (sha_h u) (sha_block u @ drop n (x # xs))"
  proof (cases "length (sha_block t) = 64")
    case True
    have "sha_block s @ x # xs = sha_block t @ drop n (x # xs)" by (simp add: t_def)
    moreover have "hash_blocks (sha_h s) (sha_block t @ drop n (x # xs)) = hash_blocks (compress (sha_h s) (sha_block t)) (drop n (x # xs))"
      using True by (subst hash_blocks.simps) simp
    ultimately show ?thesis using True by (simp add: u_def process_block_def t_def)
  next
    case False
    then show ?thesis by (simp add: u_def t_def)
  qed
  moreover have "u\<lparr>sha_h := A, sha_block := B\<rparr> = s\<lparr>sha_h := A, sha_block := B\<rparr>" for A B
    by (simp add: u_def t_def process_block_def)
  ultimately show ?case unfolding step by (simp only:)
qed (auto simp: hash_blocks.simps)

lemma sha_update_eq:
  assumes "length (sha_block s) < 64"
  shows "sha_update data s = s\<lparr>sha_length := sha_length s + of_nat (length data),
     sha_h := fst (hash_blocks (sha_h s) (sha_block s @ data)), sha_block := snd (hash_blocks (sha_h s) (sha_block s @ data))\<rparr>"
  using assms by (simp add: sha_update_def absorb_blocks)

text \<open>A message may come in pieces.\<close>

lemma sha_update_append:
  assumes "length (sha_block s) < 64" shows "sha_update (a @ b) s = sha_update b (sha_update a s)"
proof -
  have s: "length (snd (hash_blocks (sha_h s) (sha_block s @ a))) < 64" by (simp add: hash_rest_short)
  show ?thesis using assms s
    by (simp add: sha_update_eq hash_blocks_append[of _ "sha_block s @ a" b, simplified] case_prod_beta Let_def)
qed

lemma zero_fill_eq:
  assumes "length (sha_block s) < 64" "(120 - length (sha_block s)) mod 64 \<le> fuel"
  shows "zero_fill fuel s = sha_update (replicate ((120 - length (sha_block s)) mod 64) 0) s"
  using assms
proof (induction fuel s rule: zero_fill.induct)
  case (1 fuel s)
  let ?n = "length (sha_block s)"
  show ?case
  proof (cases "?n = 56")
    case True
    then show ?thesis using 1(2) by (simp add: sha_update_def)
  next
    case False
    let ?t = "sha_update [0] s"
    have l: "length (sha_block ?t) = (?n + 1) mod 64" using 1(2) by (simp add: sha_update_eq hash_rest_short)
    have z: "(120 - ?n) mod 64 = Suc ((120 - length (sha_block ?t)) mod 64)"
    proof (cases "?n = 63")
      case True then show ?thesis using l by simp
    next
      case F: False
      have t: "length (sha_block ?t) = ?n + 1" using l F 1(2) by simp
      show ?thesis
      proof (cases "?n < 56")
        case True
        have "(120 - ?n) mod 64 = 56 - ?n" "(120 - (?n + 1)) mod 64 = 55 - ?n"
          using True le_mod_geq[of 64 "120 - ?n"] le_mod_geq[of 64 "119 - ?n"] by simp_all
        then show ?thesis using t True by simp
      next
        case G: False
        then have "(120 - ?n) mod 64 = 120 - ?n" "(120 - (?n + 1)) mod 64 = 119 - ?n" using False by simp_all
        then show ?thesis using t F 1(2) by simp
      qed
    qed
    have "zero_fill fuel ?t = sha_update (replicate ((120 - length (sha_block ?t)) mod 64) 0) ?t"
      using 1(1)[OF False] 1(3) z l by simp
    then show ?thesis using False sha_update_append[OF 1(2), of "[0]" "replicate ((120 - length (sha_block ?t)) mod 64) 0"]
      by (simp add: z)
  qed
qed (simp add: sha_update_def)

lemma padding_fits: "(n + length (sha_padding n)) mod 64 = 0"
proof -
  define k where "k = n mod 64"
  have k: "k < 64" by (simp add: k_def)
  have "(119 - k) mod 64 = (if k \<le> 55 then 55 - k else 119 - k)" using le_mod_geq[of 64 "119 - k"] by simp
  then have "(k + length (sha_padding n)) mod 64 = 0" using k
    by (simp add: sha_padding_def length_bytes_def k_def[symmetric])
  then show ?thesis by (metis k_def mod_add_left_eq)
qed


end
