(* ===== verification/Browser_Socket.thy ===== *)
theory Browser_Socket
  imports Browser_Codec Memory_Store
begin

text \<open>
  The WebSocket client of \<^verbatim>\<open>src/src/browser_driver.cpp\<close> (\<^verbatim>\<open>MiniWebSocket\<close>, RFC 6455): the handshake
  with its accept key, the frames it sends, the frames it reads and their assembly to messages.  What
  lies beyond the socket is a state \<open>'p\<close> and the record \<open>outside\<close> of what it answers; \<open>None\<close> stands for
  a call that blocks for good, \<open>Threw\<close> for the exception of a string that is too long.
\<close>

section \<open>Beyond the socket\<close>

text \<open>
  Name resolution and connection, the random device, \<^verbatim>\<open>send\<close> of a whole buffer, \<^verbatim>\<open>poll\<close> with its
  timeout in milliseconds, \<^verbatim>\<open>recv\<close> of one byte (\<open>Some (p, None)\<close> is the end of the connection), and
  whether a string of a given length can be made.
\<close>

record 'p outside =
  ou_resolves :: "string \<Rightarrow> string \<Rightarrow> 'p \<Rightarrow> bool"
  ou_dials :: "string \<Rightarrow> string \<Rightarrow> 'p \<Rightarrow> 'p \<times> bool"
  ou_key :: "'p \<Rightarrow> 'p \<times> u8 list"
  ou_mask :: "'p \<Rightarrow> 'p \<times> u8 list"
  ou_sends :: "u8 list \<Rightarrow> 'p \<Rightarrow> 'p \<times> bool"
  ou_polls :: "int \<Rightarrow> 'p \<Rightarrow> 'p \<times> bool"
  ou_gives :: "'p \<Rightarrow> ('p \<times> u8 option) option"
  ou_room :: "nat \<Rightarrow> bool"

text \<open>The socket: whether it is open (\<^verbatim>\<open>fd_ >= 0\<close>), and what is beyond it.\<close>

record 'p wire =
  wi_open :: bool
  wi_far :: 'p

section \<open>The handshake\<close>

definition rfind_char :: "char \<Rightarrow> string \<Rightarrow> nat option" where
  "rfind_char c s = (if c \<in> set s then Some (length s - 1 - length (takeWhile (\<lambda>x. x \<noteq> c) (rev s))) else None)"

record ws_address =
  wa_host_port :: string
  wa_path :: string
  wa_host :: string
  wa_port :: string

definition ws_address_of :: "string \<Rightarrow> ws_address option" where
  "ws_address_of url =
     (if \<not> prefix ''ws://'' url then None else
      let rest = drop 5 url;
          (host_port, path) = (case find0 ''/'' rest of None \<Rightarrow> (rest, ''/'') | Some slash \<Rightarrow> (take slash rest, drop slash rest));
          (host, port) = (case rfind_char (CHR '':'') host_port of
                            None \<Rightarrow> (host_port, ''80'')
                          | Some colon \<Rightarrow> (take colon host_port, drop (colon + 1) host_port))
      in Some \<lparr>wa_host_port = host_port, wa_path = path, wa_host = host, wa_port = port\<rparr>)"

definition crlf :: string where "crlf = [CHR 0x0D, CHR 0x0A]"

definition upgrade_request :: "ws_address \<Rightarrow> string \<Rightarrow> string" where
  "upgrade_request a key =
     ''GET '' @ wa_path a @ '' HTTP/1.1'' @ crlf
     @ ''Host: '' @ wa_host_port a @ crlf
     @ ''Upgrade: websocket'' @ crlf
     @ ''Connection: Upgrade'' @ crlf
     @ ''Sec-WebSocket-Key: '' @ key @ crlf
     @ ''Sec-WebSocket-Version: 13'' @ crlf
     @ crlf"

definition kHeaderLimit :: nat where "kHeaderLimit = 16384"

text \<open>The header loop; \<open>left\<close> is how many more bytes the headers may have.\<close>

fun read_headers :: "'p outside \<Rightarrow> nat \<Rightarrow> string \<Rightarrow> 'p \<Rightarrow> ('p \<times> (string + string)) option" where
  "read_headers N left headers p =
     (if find0 (crlf @ crlf) headers \<noteq> None then Some (p, Inr headers)
      else case ou_gives N p of
             None \<Rightarrow> None
           | Some (p', None) \<Rightarrow> Some (p', Inl ''handshake read failed'')
           | Some (p', Some ch) \<Rightarrow>
               if left = 0 then Some (p', Inl ''handshake too large'')
               else read_headers N (left - 1) (headers @ [byte_char ch]) p')"

declare read_headers.simps [simp del]

definition ws_guid :: string where "ws_guid = ''258EAFA5-E914-47DA-95CA-C5AB0DC85B11''"

definition accept_key :: "string \<Rightarrow> string" where
  "accept_key key =
     base64_encode (sha_digest (sha_update (map char_byte ws_guid) (sha_update (map char_byte key) new_sha1)))"

definition accept_header :: string where "accept_header = ''Sec-WebSocket-Accept: ''"

text \<open>What is wrong with an answer to the upgrade; \<open>None\<close> is the success.\<close>

definition upgrade_error :: "string \<Rightarrow> string \<Rightarrow> string option" where
  "upgrade_error key headers =
     (if find0 '' 101 '' headers = None \<and> find0 ''101 '' headers = None
      then Some (''upgrade refused: '' @ substr headers 0 120)
      else if find0 (accept_header @ accept_key key) headers = None
      then let sent = (case find0 accept_header headers of
                         None \<Rightarrow> ''<none>''
                       | Some pos \<Rightarrow> substr headers (pos + length accept_header) 32)
           in Some (''accept key mismatch; key='' @ key @ '' expected='' @ accept_key key @ '' server='' @ sent)
      else None)"

definition ws_connect :: "'p outside \<Rightarrow> string \<Rightarrow> 'p wire \<Rightarrow> ('p wire \<times> string option) option" where
  "ws_connect N url w =
     (case ws_address_of url of None \<Rightarrow> Some (w, Some ''unsupported ws url'') | Some a \<Rightarrow>
      if \<not> ou_resolves N (wa_host a) (wa_port a) (wi_far w) then Some (w, Some (''dns failed for '' @ wa_host a)) else
      case ou_dials N (wa_host a) (wa_port a) (wi_far w) of
        (p1, False) \<Rightarrow> Some (w\<lparr>wi_far := p1\<rparr>, Some (''connect failed to '' @ wa_host_port a))
      | (p1, True) \<Rightarrow>
          (let (p2, key_bytes) = ou_key N p1; key = base64_encode key_bytes;
               (p3, sent) = ou_sends N (map char_byte (upgrade_request a key)) p2
           in if \<not> sent then Some (\<lparr>wi_open = True, wi_far = p3\<rparr>, Some ''handshake write failed'')
              else map_option
                     (\<lambda>(p4, r). (\<lparr>wi_open = True, wi_far = p4\<rparr>,
                                 case r of Inl e \<Rightarrow> Some e | Inr headers \<Rightarrow> upgrade_error key headers))
                     (read_headers N kHeaderLimit [] p3)))"

section \<open>Frames\<close>

definition apply_mask :: "u8 list \<Rightarrow> u8 list \<Rightarrow> u8 list" where
  "apply_mask msk bytes = map (\<lambda>i. bytes ! i XOR msk ! (i mod 4)) [0..<length bytes]"

definition big_endian :: "nat \<Rightarrow> nat \<Rightarrow> u8 list" where
  "big_endian k n = map (\<lambda>i. of_nat (drop_bit (i * 8) n)) (rev [0..<k])"

definition length_field :: "u8 \<Rightarrow> nat \<Rightarrow> u8 list" where
  "length_field flag len =
     (if len < 126 then [flag OR of_nat len]
      else if len < 65536 then [flag OR 126] @ big_endian 2 len
      else [flag OR 127] @ big_endian 8 len)"

definition text_frame :: "u8 list \<Rightarrow> string \<Rightarrow> u8 list" where
  "text_frame msk text = [0x81] @ length_field 0x80 (length text) @ msk @ apply_mask msk (map char_byte text)"

definition send_text :: "'p outside \<Rightarrow> string \<Rightarrow> 'p wire \<Rightarrow> 'p wire \<times> bool" where
  "send_text N text w =
     (if \<not> wi_open w then (w, False) else
      let (p, msk) = ou_mask N (wi_far w); (p', sent) = ou_sends N (text_frame msk text) p
      in (w\<lparr>wi_far := p'\<rparr>, sent))"

definition pong_frame :: "u8 list \<Rightarrow> u8 list" where
  "pong_frame data =
     [0x8a] @ (if length data < 126 then [of_nat (length data)] else [126] @ big_endian 2 (length data)) @ data"

text \<open>Reading: \<open>recv_exact\<close> gives fewer bytes when the connection ends.\<close>

fun recv_exact :: "'p outside \<Rightarrow> nat \<Rightarrow> 'p \<Rightarrow> ('p \<times> u8 list) option" where
  "recv_exact N 0 p = Some (p, [])"
| "recv_exact N (Suc n) p =
     (case ou_gives N p of
        None \<Rightarrow> None
      | Some (p', None) \<Rightarrow> Some (p', [])
      | Some (p', Some b) \<Rightarrow> map_option (\<lambda>(q, bs). (q, b # bs)) (recv_exact N n p'))"

record ws_frame =
  fr_fin :: bool
  fr_opcode :: u8
  fr_data :: "u8 list"

definition with_bytes :: "'p outside \<Rightarrow> nat \<Rightarrow> 'p \<Rightarrow> (u8 list \<Rightarrow> 'p \<Rightarrow> ('p \<times> ws_frame option outcome) option)
     \<Rightarrow> ('p \<times> ws_frame option outcome) option" where
  "with_bytes N n p k =
     (case recv_exact N n p of
        None \<Rightarrow> None
      | Some (p', bs) \<Rightarrow> if length bs \<noteq> n then Some (p', Done None) else k bs p')"

definition take_frame :: "'p outside \<Rightarrow> 'p \<Rightarrow> ('p \<times> ws_frame option outcome) option" where
  "take_frame N p =
     with_bytes N 2 p (\<lambda>header p.
       let fin = (header ! 0 AND 0x80 \<noteq> 0); opcode = header ! 0 AND 0x0f; masked = (header ! 1 AND 0x80 \<noteq> 0);
           short = header ! 1 AND 0x7f in
       with_bytes N (if short = 126 then 2 else if short = 127 then 8 else 0) p (\<lambda>ext p.
         let len = (if short = 126 then push_bit 8 (ucast (ext ! 0)) OR ucast (ext ! 1)
                    else if short = 127 then foldl (\<lambda>len b. push_bit 8 len OR ucast b) 0 ext
                    else ucast short) :: u64 in
         with_bytes N (if masked then 4 else 0) p (\<lambda>msk p.
           if \<not> ou_room N (unat len) then Some (p, Threw) else
           with_bytes N (unat len) p (\<lambda>data p.
             Some (p, Done (Some \<lparr>fr_fin = fin, fr_opcode = opcode,
                                   fr_data = (if masked then apply_mask msk data else data)\<rparr>))))))"

text \<open>
  One round of the loop: the message so far (\<open>Inl\<close>) or what \<^verbatim>\<open>receive\<close> ends with (\<open>Inr\<close>), where a
  return of false is \<open>Done None\<close>.
\<close>

definition after_frame :: "'p outside \<Rightarrow> u8 list \<Rightarrow> 'p wire \<Rightarrow> ws_frame \<Rightarrow> 'p wire \<times> (u8 list + u8 list option outcome)" where
  "after_frame N payload w f =
     (if fr_opcode f = 0x9 then (w\<lparr>wi_far := fst (ou_sends N (pong_frame (fr_data f)) (wi_far w))\<rparr>, Inl payload)
      else if fr_opcode f = 0x8 then (w\<lparr>wi_open := False\<rparr>, Inr (Done None))
      else if fr_opcode f = 0x1 \<or> fr_opcode f = 0x2 \<or> fr_opcode f = 0x0 then
        (w, if fr_fin f then Inr (Done (Some (payload @ fr_data f))) else Inl (payload @ fr_data f))
      else (w, Inl payload))"

definition receive_round :: "'p outside \<Rightarrow> int \<Rightarrow> u8 list \<Rightarrow> 'p wire \<Rightarrow> ('p wire \<times> (u8 list + u8 list option outcome)) option" where
  "receive_round N timeout payload w =
     (case ou_polls N timeout (wi_far w) of
        (p, False) \<Rightarrow> Some (w\<lparr>wi_far := p\<rparr>, Inr (Done None))
      | (p, True) \<Rightarrow>
          (case take_frame N p of
             None \<Rightarrow> None
           | Some (p, Threw) \<Rightarrow> Some (w\<lparr>wi_far := p\<rparr>, Inr Threw)
           | Some (p, Done None) \<Rightarrow> Some (w\<lparr>wi_far := p\<rparr>, Inr (Done None))
           | Some (p, Done (Some f)) \<Rightarrow> Some (after_frame N payload (w\<lparr>wi_far := p\<rparr>) f)))"

partial_function (option) receive_loop ::
  "'p outside \<Rightarrow> int \<Rightarrow> u8 list \<Rightarrow> 'p wire \<Rightarrow> ('p wire \<times> u8 list option outcome) option" where
  "receive_loop N timeout payload w =
     Option.bind (receive_round N timeout payload w)
       (\<lambda>(w, r). case r of Inr out \<Rightarrow> Some (w, out) | Inl payload \<Rightarrow> receive_loop N timeout payload w)"

definition receive :: "'p outside \<Rightarrow> int \<Rightarrow> 'p wire \<Rightarrow> ('p wire \<times> string option outcome) option" where
  "receive N timeout w =
     (if \<not> wi_open w then Some (w, Done None)
      else map_option (\<lambda>(w', r). (w', case r of Threw \<Rightarrow> Threw | Done d \<Rightarrow> Done (map_option (map byte_char) d)))
             (receive_loop N timeout [] w))"

definition ws_close :: "'p wire \<Rightarrow> 'p wire" where "ws_close w = w\<lparr>wi_open := False\<rparr>"

section \<open>Lengths and flags\<close>

definition be_nat :: "u8 list \<Rightarrow> nat" where
  "be_nat bs = foldl (\<lambda>n b. n * 256 + unat b) 0 bs"

lemma be_nat_from: "foldl (\<lambda>n b. n * 256 + unat b) a bs = a * 256 ^ length bs + be_nat bs"
  unfolding be_nat_def
proof (induction bs arbitrary: a rule: rev_induct)
  case (snoc b bs)
  show ?case by (simp only: foldl_append foldl.simps snoc[of a]) (simp add: algebra_simps)
qed simp

lemma be_nat_Cons: "be_nat (b # bs) = unat b * 256 ^ length bs + be_nat bs"
  using be_nat_from[of "unat b" bs] by (simp add: be_nat_def)

lemma be_nat_less: "be_nat bs < 256 ^ length bs"
proof (induction bs)
  case (Cons b bs)
  have "unat b < 256" using unsigned_less[of b, where 'a = nat] by simp
  then have "unat b * 256 ^ length bs + be_nat bs < (unat b + 1) * 256 ^ length bs" using Cons by simp
  also have "\<dots> \<le> 256 * 256 ^ length bs" using \<open>unat b < 256\<close> by (intro mult_right_mono) auto
  finally show ?case by (simp add: be_nat_Cons)
qed (simp add: be_nat_def)

lemma be_nat_big_endian: "be_nat (big_endian k n) = n mod 256 ^ k"
proof (induction k)
  case (Suc k)
  have b: "big_endian (Suc k) n = of_nat (drop_bit (k * 8) n) # big_endian k n" by (simp add: big_endian_def)
  have l: "length (big_endian k n) = k" by (simp add: big_endian_def)
  have p: "(2 :: nat) ^ (k * 8) = 256 ^ k" by (simp add: power_mult mult.commute[of k])
  have u: "unat (of_nat (drop_bit (k * 8) n) :: u8) = n div 256 ^ k mod 256"
    by (simp add: unat_of_nat drop_bit_eq_div p take_bit_eq_mod)
  have "n mod (256 ^ k * 256) = 256 ^ k * (n div 256 ^ k mod 256) + n mod 256 ^ k" by (rule mod_mult2_eq)
  then show ?case by (simp add: b be_nat_Cons l u Suc mult.commute)
qed (simp add: big_endian_def be_nat_def)

lemma shift_in:
  assumes "unat l * 256 < 2 ^ 64" shows "unat (push_bit 8 l OR ucast (b :: u8) :: u64) = unat l * 256 + unat b"
proof -
  have b: "unat b < 256" using unsigned_less[of b, where 'a = nat] by simp
  have "push_bit 8 l AND ucast b = (0 :: u64)"
  proof (rule bit_word_eqI)
    fix n show "bit (push_bit 8 l AND ucast b :: u64) n = bit (0 :: u64) n" if "n < LENGTH(64)"
      using bit_imp_le_length[of b n] by (auto simp: bit_and_iff bit_push_bit_iff bit_ucast_iff)
  qed
  then have "push_bit 8 l OR ucast b = push_bit 8 l + (ucast b :: u64)"
    by (simp add: disjunctive_add_eq_or)
  moreover have l: "unat (push_bit 8 l) = unat l * 256"
    using assms unat_mult_lem[of l 256] by (simp add: push_bit_eq_mult)
  moreover have "unat (ucast b :: u64) = unat b" using b by (simp add: unsigned_ucast_eq take_bit_nat_eq_self)
  moreover have "unat (push_bit 8 l) + unat (ucast b :: u64) < 2 ^ 64"
  proof -
    have "unat l < 2 ^ 56" using assms by simp
    then have "unat l * 256 + 255 < 2 ^ 64" by simp
    then show ?thesis using b calculation(2,3) by linarith
  qed
  ultimately show ?thesis by (simp add: unat_add_lem[THEN iffD1])
qed

lemma fold_be:
  assumes "length bs \<le> 8" shows "unat (foldl (\<lambda>len b. push_bit 8 len OR ucast b) 0 bs :: u64) = be_nat bs"
  using assms
proof (induction bs rule: rev_induct)
  case (snoc b bs)
  let ?l = "foldl (\<lambda>len b. push_bit 8 len OR ucast b) 0 bs :: u64"
  have "unat ?l < 256 ^ length bs" using snoc be_nat_less[of bs] by simp
  moreover have "(256 :: nat) ^ length bs \<le> 256 ^ 7" using snoc.prems by (intro power_increasing) auto
  ultimately have "unat ?l * 256 < 2 ^ 64" by simp
  then show ?case using snoc shift_in[of ?l b] by (simp add: be_nat_def)
qed (simp add: be_nat_def)

lemma flags:
  fixes h :: u8
  assumes "h AND 0x0f = h"
  shows "((if fin then 0x80 else 0) OR h) AND 0x80 \<noteq> 0 \<longleftrightarrow> fin" "((if fin then 0x80 else 0) OR h) AND 0x0f = h"
proof -
  have "h AND 0x80 = (h AND 0x0f) AND 0x80" by (simp add: assms)
  then have "h AND 0x80 = 0" by (simp add: and.assoc)
  then show "((if fin then 0x80 else 0) OR h) AND 0x80 \<noteq> 0 \<longleftrightarrow> fin" by (simp add: bit.conj_disj_distrib2)
  show "((if fin then 0x80 else 0) OR h) AND 0x0f = h" using assms by (simp add: bit.conj_disj_distrib2)
qed

lemma length_flags:
  assumes "n < 128"
  shows "((if masked then 0x80 else 0) OR of_nat n :: u8) AND 0x80 \<noteq> 0 \<longleftrightarrow> masked"
    "((if masked then 0x80 else 0) OR of_nat n :: u8) AND 0x7f = of_nat n"
proof -
  have "unat (of_nat n AND 0x7f :: u8) = n AND 127" using assms by (simp add: unsigned_and_eq unat_of_nat)
  also have "\<dots> = n"
  proof -
    have "(127 :: nat) = mask 7" by (simp add: mask_eq_exp_minus_1)
    then show ?thesis using assms by (simp only: take_bit_eq_mask[symmetric]) (simp add: take_bit_nat_eq_self)
  qed
  finally have n: "of_nat n AND 0x7f = (of_nat n :: u8)" using assms by (simp add: word_unat_eq_iff unat_of_nat)
  have "of_nat n AND 0x80 = ((of_nat n AND 0x7f) AND 0x80 :: u8)" by (simp only: n)
  then have z: "of_nat n AND 0x80 = (0 :: u8)" by (simp add: and.assoc)
  then show "((if masked then 0x80 else 0) OR of_nat n :: u8) AND 0x80 \<noteq> 0 \<longleftrightarrow> masked" by (simp add: bit.conj_disj_distrib2)
  show "((if masked then 0x80 else 0) OR of_nat n :: u8) AND 0x7f = of_nat n" using n by (simp add: bit.conj_disj_distrib2)
qed

lemma apply_mask_twice: "apply_mask k (apply_mask k bytes) = bytes"
  by (rule nth_equalityI) (simp_all add: apply_mask_def xor.assoc)

lemma length_apply_mask [simp]: "length (apply_mask k bytes) = length bytes"
  by (simp add: apply_mask_def)

section \<open>A peer that has sent its bytes\<close>

text \<open>
  What a socket does while bytes are waiting: they come one after the other, waiting for them
  succeeds, what is sent is taken whole and in order (\<open>log\<close>) and changes nothing else; strings of less
  than \<open>2 ^ 30\<close> bytes can be made.
\<close>

locale byte_stream =
  fixes net :: "'p outside" and pending :: "'p \<Rightarrow> u8 list" and log :: "'p \<Rightarrow> u8 list list"
  assumes gives: "pending p = b # bs \<Longrightarrow> \<exists>p'. ou_gives net p = Some (p', Some b) \<and> pending p' = bs \<and> log p' = log p"
    and polls: "pending p \<noteq> [] \<Longrightarrow> \<exists>p'. ou_polls net t p = (p', True) \<and> pending p' = pending p \<and> log p' = log p"
    and sends: "\<exists>p'. ou_sends net x p = (p', True) \<and> pending p' = pending p \<and> log p' = log p @ [x]"
    and room: "n < 2 ^ 30 \<Longrightarrow> ou_room net n"

text \<open>The layout of a frame in RFC 6455, masked or not.\<close>

definition frame_bytes :: "bool \<Rightarrow> u8 \<Rightarrow> u8 list option \<Rightarrow> u8 list \<Rightarrow> u8 list" where
  "frame_bytes fin opcode key data =
     [(if fin then 0x80 else 0) OR opcode] @ length_field (if key \<noteq> None then 0x80 else 0) (length data)
     @ (case key of None \<Rightarrow> data | Some k \<Rightarrow> k @ apply_mask k data)"

lemma text_frame_bytes: "text_frame k text = frame_bytes True 1 (Some k) (map char_byte text)"
  by (simp add: text_frame_def frame_bytes_def)

lemma pong_frame_bytes: "length data < 65536 \<Longrightarrow> pong_frame data = frame_bytes True 0x0a None data"
  by (simp add: pong_frame_def frame_bytes_def length_field_def)

context byte_stream begin

lemma recv_exact_reads:
  "pending p = bs @ rest \<Longrightarrow> \<exists>p'. recv_exact net (length bs) p = Some (p', bs) \<and> pending p' = rest \<and> log p' = log p"
proof (induction bs arbitrary: p)
  case (Cons b bs)
  then obtain p1 where "ou_gives net p = Some (p1, Some b)" "pending p1 = bs @ rest" "log p1 = log p" using gives by fastforce
  with Cons.IH[of p1] show ?case by auto
qed simp

lemma with_bytes_reads:
  assumes "pending p = bs @ rest" "length bs = n"
  shows "\<exists>p'. with_bytes net n p k = k bs p' \<and> pending p' = rest \<and> log p' = log p"
  using recv_exact_reads[OF assms(1)] assms(2) by (auto simp: with_bytes_def)

lemma take_frame_reads:
  assumes "pending p = frame_bytes fin opcode key data @ rest" "opcode AND 0x0f = opcode" "length data < 2 ^ 30"
    "\<And>k. key = Some k \<Longrightarrow> length k = 4"
  shows "\<exists>p'. take_frame net p = Some (p', Done (Some \<lparr>fr_fin = fin, fr_opcode = opcode, fr_data = data\<rparr>))
     \<and> pending p' = rest \<and> log p' = log p"
proof -
  let ?n = "length data" and ?m = "key \<noteq> None"
  define h0 where "h0 = (if fin then 0x80 else 0) OR opcode"
  define s where "s = (if ?n < 126 then ?n else if ?n < 65536 then 126 else 127)"
  define h1 where "h1 = (if ?m then 0x80 else 0) OR (of_nat s :: u8)"
  define ext where "ext = (if ?n < 126 then [] else if ?n < 65536 then big_endian 2 ?n else big_endian 8 ?n)"
  define tail where "tail = (case key of None \<Rightarrow> data | Some k \<Rightarrow> k @ apply_mask k data)"
  have s: "s < 128" by (simp add: s_def)
  have head: "h0 AND 0x80 \<noteq> 0 \<longleftrightarrow> fin" "h0 AND 0x0f = opcode" using flags[OF assms(2)] by (simp_all add: h0_def)
  have short: "h1 AND 0x80 \<noteq> 0 \<longleftrightarrow> ?m" "h1 AND 0x7f = of_nat s" using length_flags[OF s, of ?m] by (simp_all add: h1_def)
  have small: "unat (of_nat s :: u8) = s" using s by (simp add: unat_of_nat)
  have s126: "of_nat s = (126 :: u8) \<longleftrightarrow> s = 126" and s127: "of_nat s = (127 :: u8) \<longleftrightarrow> s = 127"
    using small by (auto simp: word_unat_eq_iff)
  have pend: "pending p = [h0, h1] @ ext @ tail @ rest"
    by (simp add: assms(1) frame_bytes_def length_field_def h0_def h1_def s_def ext_def tail_def)
  have e: "length ext = (if of_nat s = (126 :: u8) then 2 else if of_nat s = (127 :: u8) then 8 else 0)"
    unfolding s126 s127 by (simp add: ext_def s_def big_endian_def)
  have len: "unat (if of_nat s = (126 :: u8) then push_bit 8 (ucast (ext ! 0)) OR ucast (ext ! 1)
                    else if of_nat s = (127 :: u8) then foldl (\<lambda>len b. push_bit 8 len OR ucast b) 0 ext
                    else ucast (of_nat s :: u8) :: u64) = ?n"
  proof -
    consider (tiny) "?n < 126" | (mid) "126 \<le> ?n" "?n < 65536" | (big) "65536 \<le> ?n" by linarith
    then show ?thesis
    proof cases
      case tiny
      then have "s = ?n" "s \<noteq> 126" "s \<noteq> 127" by (simp_all add: s_def)
      then show ?thesis using small s126 s127 s by (simp add: unsigned_ucast_eq take_bit_nat_eq_self)
    next
      case mid
      have e2: "ext = big_endian 2 ?n" using mid by (simp add: ext_def)
      have "length ext = 2" by (simp add: e2 big_endian_def)
      then obtain b0 b1 where b: "ext = [b0, b1]" by (metis (no_types) One_nat_def Suc_1 length_0_conv length_Suc_conv)
      have "push_bit 8 (ucast b0) OR ucast b1 = (foldl (\<lambda>len b. push_bit 8 len OR ucast b) 0 ext :: u64)" by (simp add: b)
      then have "unat (push_bit 8 (ucast b0) OR ucast b1 :: u64) = be_nat ext" using fold_be[of ext] b by simp
      then have "unat (push_bit 8 (ucast (ext ! 0)) OR ucast (ext ! 1) :: u64) = ?n"
        using mid be_nat_big_endian[of 2 ?n] by (simp add: b e2[symmetric])
      moreover have "s = 126" using mid by (simp add: s_def)
      ultimately show ?thesis using s126 by simp
    next
      case big
      have e8: "ext = big_endian 8 ?n" using big by (simp add: ext_def)
      have "length ext = 8" by (simp add: e8 big_endian_def)
      then have "unat (foldl (\<lambda>len b. push_bit 8 len OR ucast b) 0 ext :: u64) = ?n"
        using fold_be[of ext] be_nat_big_endian[of 8 ?n] assms(3) by (simp add: e8)
      moreover have "s = 127" using big by (simp add: s_def)
      ultimately show ?thesis using s126 s127 by simp
    qed
  qed
  obtain p1 where p1: "pending p1 = ext @ tail @ rest" "log p1 = log p" and r1: "\<And>k. with_bytes net 2 p k = k [h0, h1] p1"
  proof -
    obtain q where q: "recv_exact net (length [h0, h1]) p = Some (q, [h0, h1])" "pending q = ext @ tail @ rest" "log q = log p"
      using recv_exact_reads[OF pend] by blast
    have two: "length [h0, h1] = 2" by simp
    show ?thesis by (rule that[OF q(2,3)]) (simp add: with_bytes_def q(1)[unfolded two])
  qed
  obtain p2 where p2: "recv_exact net (length ext) p1 = Some (p2, ext)" "pending p2 = tail @ rest" "log p2 = log p"
    using recv_exact_reads[OF p1(1)] p1(2) by auto
  define bs where "bs = (if ?m then the key else [])"
  define body where "body = (if ?m then apply_mask (the key) data else data)"
  have t: "tail = bs @ body" by (auto simp: tail_def bs_def body_def)
  obtain p3 where p3: "recv_exact net (length bs) p2 = Some (p3, bs)" "pending p3 = body @ rest" "log p3 = log p"
    using recv_exact_reads[of p2 bs "body @ rest"] p2 t by auto
  have bl: "length bs = (if ?m then 4 else 0)" using assms(4) by (auto simp: bs_def)
  obtain p4 where p4: "recv_exact net (length body) p3 = Some (p4, body)" "pending p4 = rest" "log p4 = log p"
    using recv_exact_reads[OF p3(2)] p3(3) by auto
  have body: "length body = ?n" by (simp add: body_def)
  have data: "(if ?m then apply_mask bs body else body) = data" by (auto simp: body_def bs_def apply_mask_twice)
  have "take_frame net p = Some (p4, Done (Some \<lparr>fr_fin = fin, fr_opcode = opcode, fr_data = data\<rparr>))"
    unfolding take_frame_def r1 Let_def
    using p2(1) p3(1) p4(1) room[OF assms(3)]
    by (simp only: nth_Cons_0 nth_Cons_Suc One_nat_def with_bytes_def head short e[symmetric] bl[symmetric] len[unfolded One_nat_def] data body option.case prod.case
          simp_thms if_True if_False)
  with p4 show ?thesis by blast
qed

text \<open>A message: whole frames, pings between them, up to the one that ends it.\<close>

lemma round_reads:
  assumes "pending (wi_far w) = frame_bytes (fr_fin f) (fr_opcode f) None (fr_data f) @ rest"
    "fr_opcode f AND 0x0f = fr_opcode f" "length (fr_data f) < 2 ^ 30"
  shows "\<exists>p. receive_round net t acc w = Some (after_frame net acc (w\<lparr>wi_far := p\<rparr>) f) \<and> pending p = rest \<and> log p = log (wi_far w)"
proof -
  have "pending (wi_far w) \<noteq> []" by (simp add: assms(1) frame_bytes_def)
  then obtain q where q: "ou_polls net t (wi_far w) = (q, True)" "pending q = pending (wi_far w)" "log q = log (wi_far w)" using polls by blast
  obtain p where "take_frame net q = Some (p, Done (Some f))" "pending p = rest" "log p = log q"
    using take_frame_reads[of q "fr_fin f" "fr_opcode f" None "fr_data f" rest] assms q(2) by auto
  then show ?thesis using q by (auto simp: receive_round_def)
qed

lemma loop_reads:
  fixes g :: ws_frame
  assumes "pending (wi_far w) = concat (map (\<lambda>f. frame_bytes (fr_fin f) (fr_opcode f) None (fr_data f)) (fs @ [g])) @ rest"
    "\<forall>f\<in>set fs. length (fr_data f) < 2 ^ 30 \<and> (fr_opcode f = 0x9 \<or> (fr_opcode f = 0 \<or> fr_opcode f = 1 \<or> fr_opcode f = 2) \<and> \<not> fr_fin f)"
    "length (fr_data g) < 2 ^ 30" "fr_opcode g = 0 \<or> fr_opcode g = 1 \<or> fr_opcode g = 2" "fr_fin g"
  shows "\<exists>w'. receive_loop net t acc w
       = Some (w', Done (Some (acc @ concat (map fr_data (filter (\<lambda>f. fr_opcode f \<noteq> 0x9) (fs @ [g]))))))
     \<and> pending (wi_far w') = rest \<and> wi_open w' = wi_open w
     \<and> log (wi_far w') = log (wi_far w) @ map (\<lambda>f. pong_frame (fr_data f)) (filter (\<lambda>f. fr_opcode f = 0x9) fs)"
  using assms
proof (induction fs arbitrary: acc w)
  case Nil
  obtain p where "receive_round net t acc w = Some (after_frame net acc (w\<lparr>wi_far := p\<rparr>) g)" "pending p = rest" "log p = log (wi_far w)"
    using round_reads[of w g rest t acc] Nil by auto
  moreover have "after_frame net acc (w\<lparr>wi_far := p\<rparr>) g = (w\<lparr>wi_far := p\<rparr>, Inr (Done (Some (acc @ fr_data g))))"
    using Nil.prems(4,5) by (auto simp: after_frame_def)
  ultimately show ?case using Nil.prems(4) by (subst receive_loop.simps) auto
next
  case (Cons f fs)
  let ?rest = "concat (map (\<lambda>f. frame_bytes (fr_fin f) (fr_opcode f) None (fr_data f)) (fs @ [g])) @ rest"
  have f: "length (fr_data f) < 2 ^ 30" "fr_opcode f = 0x9 \<or> (fr_opcode f = 0 \<or> fr_opcode f = 1 \<or> fr_opcode f = 2) \<and> \<not> fr_fin f"
    using Cons.prems(2) by simp_all
  have op: "fr_opcode f AND 0x0f = fr_opcode f" using f(2) by auto
  obtain p where r: "receive_round net t acc w = Some (after_frame net acc (w\<lparr>wi_far := p\<rparr>) f)" "pending p = ?rest" "log p = log (wi_far w)"
    using round_reads[of w f ?rest t acc] Cons.prems(1) f(1) op by auto
  obtain q where q: "ou_sends net (pong_frame (fr_data f)) p = (q, True)" "pending q = pending p" "log q = log p @ [pong_frame (fr_data f)]"
    using sends by blast
  define acc1 where "acc1 = (if fr_opcode f = 0x9 then acc else acc @ fr_data f)"
  define w1 where "w1 = w\<lparr>wi_far := (if fr_opcode f = 0x9 then q else p)\<rparr>"
  have a: "after_frame net acc (w\<lparr>wi_far := p\<rparr>) f = (w1, Inl acc1)"
    using f(2) q(1) by (auto simp: after_frame_def acc1_def w1_def)
  have "pending (wi_far w1) = ?rest" using r(2) q(2) by (simp add: w1_def)
  from Cons.IH[OF this _ Cons.prems(3-5), of acc1] Cons.prems(2) obtain w' where
    "receive_loop net t acc1 w1
       = Some (w', Done (Some (acc1 @ concat (map fr_data (filter (\<lambda>f. fr_opcode f \<noteq> 0x9) (fs @ [g]))))))"
    "pending (wi_far w') = rest" "wi_open w' = wi_open w1"
    "log (wi_far w') = log (wi_far w1) @ map (\<lambda>f. pong_frame (fr_data f)) (filter (\<lambda>f. fr_opcode f = 0x9) fs)"
    by auto
  moreover have "receive_loop net t acc w = receive_loop net t acc1 w1" by (subst receive_loop.simps) (simp add: r(1) a)
  ultimately show ?case using r(3) q(3) by (auto simp: w1_def acc1_def)
qed

end

section \<open>The properties\<close>

text \<open>A peer whose bytes are a list, with what was sent to it.\<close>

definition scripted :: "(u8 list \<times> u8 list list) outside" where
  "scripted = \<lparr>ou_resolves = (\<lambda>_ _ _. True), ou_dials = (\<lambda>_ _ p. (p, True)), ou_key = (\<lambda>p. (p, replicate 16 0)),
     ou_mask = (\<lambda>p. (p, [1, 2, 3, 4])), ou_sends = (\<lambda>x (i, s). ((i, s @ [x]), True)), ou_polls = (\<lambda>_ (i, s). ((i, s), i \<noteq> [])),
     ou_gives = (\<lambda>(i, s). case i of [] \<Rightarrow> None | b # bs \<Rightarrow> Some ((bs, s), Some b)), ou_room = (\<lambda>n. n < 2 ^ 62)\<rparr>"

interpretation script: byte_stream scripted fst snd
  by unfold_locales (auto simp: scripted_def)

text \<open>
  C23: what the client sends is what it would read: the bytes \<^verbatim>\<open>send_text\<close> makes of any text, with
  any four bytes of mask, are one final text frame to the reader, with the text as its data, for each
  of the three forms of the length; the reader takes exactly these bytes.
\<close>

theorem text_frame_reads_back:
  assumes "byte_stream net pending sentlog" and "pending p = text_frame k text @ rest" and "length k = 4" and "length text < 2 ^ 30"
  shows "\<exists>p'. take_frame net p = Some (p', Done (Some \<lparr>fr_fin = True, fr_opcode = 1, fr_data = map char_byte text\<rparr>))
     \<and> pending p' = rest"
  using byte_stream.take_frame_reads[OF assms(1), of p True 1 "Some k" "map char_byte text" rest] assms(2-4)
  by (auto simp: text_frame_bytes)

theorem text_frame_reads_back_witness:
  "\<exists>p'. take_frame scripted (text_frame [1, 2, 3, 4] (replicate 70000 (CHR ''x'')) @ [7], [])
       = Some (p', Done (Some \<lparr>fr_fin = True, fr_opcode = 1, fr_data = map char_byte (replicate 70000 (CHR ''x''))\<rparr>))
     \<and> fst p' = [7]"
  by (rule text_frame_reads_back[OF script.byte_stream_axioms, where k = "[1, 2, 3, 4]"]) simp_all

text \<open>
  C18: a message comes together: when the peer has sent a message in any number of frames, with pings
  before and between them, and whatever after it, \<^verbatim>\<open>receive\<close> returns the data of its frames in order,
  has sent the pongs in the order of the pings, and has taken nothing of what comes after.
\<close>

theorem message_comes_together:
  assumes "byte_stream net pending sentlog" and "wi_open w"
    and "pending (wi_far w) = concat (map (\<lambda>f. frame_bytes (fr_fin f) (fr_opcode f) None (fr_data f)) (fs @ [g :: ws_frame])) @ rest"
    and "\<forall>f\<in>set fs. length (fr_data f) < 2 ^ 30
           \<and> (fr_opcode f = 0x9 \<or> (fr_opcode f = 0 \<or> fr_opcode f = 1 \<or> fr_opcode f = 2) \<and> \<not> fr_fin f)"
    and "length (fr_data g) < 2 ^ 30" and "fr_opcode g = 0 \<or> fr_opcode g = 1 \<or> fr_opcode g = 2" and "fr_fin g"
  shows "\<exists>w'. receive net t w
       = Some (w', Done (Some (map byte_char (concat (map fr_data (filter (\<lambda>f. fr_opcode f \<noteq> 0x9) (fs @ [g])))))))
     \<and> pending (wi_far w') = rest \<and> wi_open w'
     \<and> sentlog (wi_far w') = sentlog (wi_far w) @ map (\<lambda>f. pong_frame (fr_data f)) (filter (\<lambda>f. fr_opcode f = 0x9) fs)"
  using byte_stream.loop_reads[OF assms(1,3-7), of t "[]"] assms(2) by (auto simp: receive_def)

theorem message_comes_together_witness:
  "\<exists>w'. receive scripted 100 \<lparr>wi_open = True, wi_far =
         (concat (map (\<lambda>f. frame_bytes (fr_fin f) (fr_opcode f) None (fr_data f))
           ([\<lparr>fr_fin = False, fr_opcode = 1, fr_data = [72]\<rparr>, \<lparr>fr_fin = True, fr_opcode = 9, fr_data = [5]\<rparr>]
            @ [\<lparr>fr_fin = True, fr_opcode = 0, fr_data = [105]\<rparr>])) @ [0], [])\<rparr>
       = Some (w', Done (Some ''Hi''))
     \<and> snd (wi_far w') = [[0x8a, 1, 5]]"
proof -
  have t: "map byte_char [72, 105] = ''Hi''" by code_simp
  show ?thesis
    using message_comes_together[OF script.byte_stream_axioms, of
        "\<lparr>wi_open = True, wi_far =
         (concat (map (\<lambda>f. frame_bytes (fr_fin f) (fr_opcode f) None (fr_data f))
           ([\<lparr>fr_fin = False, fr_opcode = 1, fr_data = [72]\<rparr>, \<lparr>fr_fin = True, fr_opcode = 9, fr_data = [5]\<rparr>]
            @ [\<lparr>fr_fin = True, fr_opcode = 0, fr_data = [105]\<rparr>])) @ [0], [])\<rparr>"
        "[\<lparr>fr_fin = False, fr_opcode = 1, fr_data = [72]\<rparr>, \<lparr>fr_fin = True, fr_opcode = 9, fr_data = [5]\<rparr>]"
        "\<lparr>fr_fin = True, fr_opcode = 0, fr_data = [105]\<rparr>" "[0]" 100] t
    by (auto simp: pong_frame_def)
qed

text \<open>What is read as headers.\<close>

lemma headers_read:
  "read_headers net left headers p = Some (p', Inr h) \<Longrightarrow>
     find0 (crlf @ crlf) h \<noteq> None \<and> length h \<le> length headers + left \<and> prefix headers h"
proof (induction left arbitrary: headers p)
  case 0
  then show ?case by (subst (asm) read_headers.simps) (auto split: if_splits option.splits prod.splits)
next
  case (Suc left)
  show ?case
  proof (cases "find0 (crlf @ crlf) headers \<noteq> None")
    case True
    then show ?thesis using Suc.prems by (subst (asm) read_headers.simps) simp
  next
    case False
    with Suc.prems obtain q ch where "read_headers net left (headers @ [byte_char ch]) q = Some (p', Inr h)"
      by (subst (asm) read_headers.simps) (auto split: option.splits)
    from Suc.IH[OF this] show ?thesis by (auto dest: append_prefixD)
  qed
qed

text \<open>
  C25: a connection is accepted exactly when the peer shows that it read the key: \<^verbatim>\<open>connect\<close> succeeds if and
  only if the address is a WebSocket address that resolves and can be dialled, the whole request with
  the fresh random key was sent, and the headers that came back, of at most 16384 bytes and
  up to the blank line, name the status 101 and the accept value of that very key.
\<close>

theorem handshake_needs_key:
  "ws_connect net url w = Some (w', None) \<longleftrightarrow>
     (\<exists>a p1 p2 key_bytes p3 p4 headers.
        ws_address_of url = Some a \<and> ou_resolves net (wa_host a) (wa_port a) (wi_far w)
        \<and> ou_dials net (wa_host a) (wa_port a) (wi_far w) = (p1, True) \<and> ou_key net p1 = (p2, key_bytes)
        \<and> ou_sends net (map char_byte (upgrade_request a (base64_encode key_bytes))) p2 = (p3, True)
        \<and> read_headers net kHeaderLimit [] p3 = Some (p4, Inr headers)
        \<and> length headers \<le> 16384 \<and> sublist (crlf @ crlf) headers \<and> sublist ''101 '' headers
        \<and> sublist (accept_header @ accept_key (base64_encode key_bytes)) headers
        \<and> w' = \<lparr>wi_open = True, wi_far = p4\<rparr>)"
proof -
  have ok: "upgrade_error key h = None \<longleftrightarrow> sublist ''101 '' h \<and> sublist (accept_header @ accept_key key) h" for key h
  proof -
    have "sublist ''101 '' '' 101 ''" by (simp add: sublist_def) (metis append_Cons append_Nil append_Nil2)
    then have "sublist '' 101 '' h \<Longrightarrow> sublist ''101 '' h" by (rule sublist_order.order_trans)
    then show ?thesis by (auto simp: upgrade_error_def find0_eq_None_iff Let_def)
  qed
  have lim: "read_headers net kHeaderLimit [] p = Some (q, Inr h) \<Longrightarrow> length h \<le> 16384 \<and> sublist (crlf @ crlf) h" for p q h
    using headers_read[of net kHeaderLimit "[]" p q h] by (auto simp: kHeaderLimit_def find0_eq_None_iff)
  have sum: "(case r of Inl e \<Rightarrow> Some e | Inr h \<Rightarrow> upgrade_error key h) = None \<longleftrightarrow> (\<exists>h. r = Inr h \<and> upgrade_error key h = None)"
    for r :: "string + string" and key by (cases r) auto
  show ?thesis
    by (auto simp: ws_connect_def Let_def sum ok split: option.splits prod.splits bool.splits if_splits dest: lim)
qed

end
