(* ===== verification/Browser_Driver.thy ===== *)
theory Browser_Driver
  imports Browser_Socket Tool_Engine
begin

text \<open>
  The driver of \<^verbatim>\<open>src/src/browser_driver.cpp\<close>: finding and starting a browser, the calls of the
  DevTools protocol over the WebSocket, evaluation, clicks, typing and screenshots, and the nine
  tools built on them.  The state of the driver is part of the world the tools act on; what the
  machine does when a browser is started is an argument.
\<close>

section \<open>The state\<close>

record lookup =
  lk_env :: "string option"
  lk_exists :: "string \<Rightarrow> bool"
  lk_command :: "string \<Rightarrow> string option"
  lk_home :: "string option"
  lk_directory :: "string \<Rightarrow> string list option"

text \<open>
  What is seen of the standard error of the started browser at each poll before the deadline of 20
  seconds: a character, nothing yet, the end of the process, the end of the file, a read that failed.
\<close>

datatype stderr_event = Announces char | Idle | Exited | Ended | Unreadable

datatype started = No_pipe | No_fork | Child int "stderr_event list"

record 'p desktop =
  de_net :: "'p outside"
  de_lookup :: "'p \<Rightarrow> lookup"
  de_starts :: "string \<Rightarrow> 'p \<Rightarrow> 'p \<times> started"
  de_ends :: "int \<Rightarrow> 'p \<Rightarrow> 'p option"
  de_clock :: "'p \<Rightarrow> int"
  de_saves :: "string \<Rightarrow> u8 list \<Rightarrow> 'p \<Rightarrow> 'p \<times> bool"

record 'p browser =
  bw_far :: 'p
  bw_socket :: "bool option"
  bw_pid :: "int option"
  bw_next_id :: int
  bw_session :: string
  bw_target :: string

definition new_browser :: "'p \<Rightarrow> 'p browser" where
  "new_browser p = \<lparr>bw_far = p, bw_socket = None, bw_pid = None, bw_next_id = 1, bw_session = [], bw_target = []\<rparr>"

text \<open>A call that comes back ends with a value or an exception.\<close>

type_synonym ('s, 'a) call = "'s \<Rightarrow> ('s \<times> 'a outcome) option"

definition and_then :: "('s, 'a) call \<Rightarrow> ('a \<Rightarrow> ('s, 'b) call) \<Rightarrow> ('s, 'b) call" where
  "and_then m f s = (case m s of None \<Rightarrow> None | Some (s', Threw) \<Rightarrow> Some (s', Threw) | Some (s', Done a) \<Rightarrow> f a s')"

definition give :: "'a \<Rightarrow> ('s, 'a) call" where "give a s = Some (s, Done a)"

section \<open>Texts\<close>

definition escape_char :: "char \<Rightarrow> string" where
  "escape_char c =
     (if c = CHR ''\"'' then [CHR 0x5C, CHR ''\"'']
      else if c = CHR 0x5C then [CHR 0x5C, CHR 0x5C]
      else if c = CHR 0x0A then [CHR 0x5C, CHR ''n'']
      else if c = CHR 0x0D then [CHR 0x5C, CHR ''r'']
      else if c = CHR 0x09 then [CHR 0x5C, CHR ''t''] else [c])"

definition escape_json :: "string \<Rightarrow> string" where "escape_json text = concat (map escape_char text)"

definition quote_js :: "string \<Rightarrow> string" where
  "quote_js text =
     ''\"'' @ concat (map (\<lambda>c. if c = CHR ''\"'' \<or> c = CHR 0x5C then [CHR 0x5C, c] else [c]) text) @ ''\"''"

definition session_field :: "string \<Rightarrow> string" where
  "session_field session = (if session = [] then [] else '',\"sessionId\":\"'' @ session @ ''\"'')"

definition cdp_message :: "int \<Rightarrow> string \<Rightarrow> string \<Rightarrow> string \<Rightarrow> string" where
  "cdp_message call_id method params session =
     ''{\"id\":'' @ string_of_int call_id @ '',\"method\":\"'' @ method @ ''\",\"params\":'' @ params @ session_field session @ ''}''"

section \<open>Calls\<close>

definition bw_wire :: "'p browser \<Rightarrow> 'p wire" where
  "bw_wire b = \<lparr>wi_open = (bw_socket b = Some True), wi_far = bw_far b\<rparr>"

definition on_wire :: "'p wire \<Rightarrow> 'p browser \<Rightarrow> 'p browser" where
  "on_wire w b = b\<lparr>bw_socket := Some (wi_open w), bw_far := wi_far w\<rparr>"

text \<open>One round of waiting: \<open>Inl\<close> when an event was skipped.\<close>

definition await_round :: "'p desktop \<Rightarrow> int \<Rightarrow> int \<Rightarrow> 'p wire \<Rightarrow> ('p wire \<times> (unit + string outcome)) option" where
  "await_round D call_id deadline w =
     (let remaining = deadline - de_clock D (wi_far w) in
      if remaining \<le> 0 then Some (w, Inr (Done []))
      else map_option
             (\<lambda>(w', r). (w', case r of
                  Threw \<Rightarrow> Inr Threw
                | Done None \<Rightarrow> Inr (Done [])
                | Done (Some frame) \<Rightarrow> if json_int frame ''id'' (-1) = call_id then Inr (Done frame) else Inl ()))
             (receive (de_net D) remaining w))"

partial_function (option) await_reply :: "'p desktop \<Rightarrow> int \<Rightarrow> int \<Rightarrow> 'p wire \<Rightarrow> ('p wire \<times> string outcome) option" where
  "await_reply D call_id deadline w =
     Option.bind (await_round D call_id deadline w)
       (\<lambda>(w, r). case r of Inr out \<Rightarrow> Some (w, out) | Inl u \<Rightarrow> await_reply D call_id deadline w)"

definition cdp_call :: "'p desktop \<Rightarrow> string \<Rightarrow> string \<Rightarrow> ('p browser, string) call" where
  "cdp_call D method params b =
     (if bw_socket b \<noteq> Some True then give [] b else
      let b1 = b\<lparr>bw_next_id := bw_next_id b + 1\<rparr>;
          (w, sent) = send_text (de_net D) (cdp_message (bw_next_id b) method params (bw_session b)) (bw_wire b)
      in if \<not> sent then give [] (on_wire w b1)
         else map_option (\<lambda>(w', r). (on_wire w' b1, r))
                (await_reply D (bw_next_id b) (de_clock D (wi_far w) + 15000) w))"

definition call_ok :: "'p desktop \<Rightarrow> string \<Rightarrow> string \<Rightarrow> ('p browser, string) call" where
  "call_ok D method params =
     and_then (cdp_call D method params) (\<lambda>reply.
       give (if reply = [] then ''cdp timeout/error''
             else if find0 ''\"error\"'' reply \<noteq> None then
               (let error = json_string reply ''message'' in if error = [] then ''cdp error'' else ''cdp error: '' @ error)
             else ''ok''))"

section \<open>Start and end\<close>

definition kCandidates :: "string list" where
  "kCandidates = [''google-chrome-stable'', ''google-chrome'', ''brave-browser'', ''chromium-browser'', ''chromium'']"

definition candidate_path :: "lookup \<Rightarrow> string \<Rightarrow> string option" where
  "candidate_path lk candidate =
     (case lk_command lk (''command -v '' @ candidate) of
        None \<Rightarrow> None
      | Some line \<Rightarrow>
          (let path = (if line \<noteq> [] \<and> last line = CHR 0x0A then butlast line else line)
           in if lk_exists lk path then Some path else None))"

definition cached_browser :: "lookup \<Rightarrow> string option" where
  "cached_browser lk =
     (case lk_home lk of
        None \<Rightarrow> None
      | Some home_dir \<Rightarrow>
          (case lk_directory lk (join_path (join_path home_dir ''.cache'') ''ms-playwright'') of
             None \<Rightarrow> None
           | Some found \<Rightarrow> List.find (lk_exists lk) (map (\<lambda>e. join_path (join_path e ''chrome-linux'') ''chrome'') found)))"

definition searched_browser :: "lookup \<Rightarrow> string" where
  "searched_browser lk =
     (case List.map_filter (candidate_path lk) kCandidates of
        path # _ \<Rightarrow> path
      | [] \<Rightarrow> value_or (cached_browser lk) [])"

definition find_browser_binary :: "lookup \<Rightarrow> string" where
  "find_browser_binary lk =
     (case lk_env lk of
        Some path \<Rightarrow> if path \<noteq> [] \<and> lk_exists lk path then path else searched_browser lk
      | None \<Rightarrow> searched_browser lk)"

definition kAnnounce :: string where "kAnnounce = ''DevTools listening on ''"

text \<open>The loop over the standard error; \<open>None\<close> when the browser has exited.\<close>

fun read_endpoint :: "stderr_event list \<Rightarrow> bool \<Rightarrow> string \<Rightarrow> string \<Rightarrow> (string \<times> string) option" where
  "read_endpoint [] collecting buf url = Some (buf, url)"
| "read_endpoint (Announces ch # es) collecting buf url =
     (if collecting then
        (if ch = CHR '' '' \<or> ch = CHR 0x0D \<or> ch = CHR 0x0A then Some (buf, url)
         else read_endpoint es True buf (url @ [ch]))
      else read_endpoint es (find0 kAnnounce (buf @ [ch]) \<noteq> None) (buf @ [ch]) url)"
| "read_endpoint (Idle # es) collecting buf url = read_endpoint es collecting buf url"
| "read_endpoint (Unreadable # es) collecting buf url = read_endpoint es collecting buf url"
| "read_endpoint (Ended # es) collecting buf url = Some (buf, url)"
| "read_endpoint (Exited # es) collecting buf url = None"

definition end_process :: "'p desktop \<Rightarrow> ('p browser, unit) call" where
  "end_process D b =
     (case bw_pid b of
        None \<Rightarrow> Some (b, Done ())
      | Some pid \<Rightarrow> map_option (\<lambda>p. (b\<lparr>bw_pid := None, bw_far := p\<rparr>, Done ())) (de_ends D pid (bw_far b)))"

definition close_locked :: "'p desktop \<Rightarrow> ('p browser, string) call" where
  "close_locked D b =
     and_then (end_process D) (\<lambda>_ b. give ''browser closed'' (b\<lparr>bw_session := [], bw_target := []\<rparr>)) (b\<lparr>bw_socket := None\<rparr>)"

definition fail_closed :: "'p desktop \<Rightarrow> string \<Rightarrow> ('p browser, string) call" where
  "fail_closed D message = and_then (close_locked D) (\<lambda>_. give message)"

text \<open>The tab and the session, on a connection that stands.\<close>

definition open_tab :: "'p desktop \<Rightarrow> ('p browser, string) call" where
  "open_tab D =
     and_then (cdp_call D ''Target.createTarget'' ''{\"url\":\"about:blank\"}'') (\<lambda>created.
       let target = json_string created ''targetId'' in
       if target = [] then fail_closed D ''createTarget failed''
       else
         and_then (\<lambda>b. cdp_call D ''Target.attachToTarget'' (''{\"targetId\":\"'' @ target @ ''\",\"flatten\":true}'') (b\<lparr>bw_target := target\<rparr>))
           (\<lambda>reply b.
              let session = json_string reply ''sessionId''; b1 = b\<lparr>bw_session := session\<rparr> in
              if session = [] then fail_closed D ''attachToTarget failed'' b1 else give [] b1))"

definition connect_to :: "'p desktop \<Rightarrow> string \<Rightarrow> ('p browser, string) call" where
  "connect_to D url b =
     (case ws_connect (de_net D) url \<lparr>wi_open = False, wi_far = bw_far b\<rparr> of
        None \<Rightarrow> None
      | Some (w, Some error) \<Rightarrow> fail_closed D (''websocket connect failed ['' @ url @ '']: '' @ error) (on_wire w b)
      | Some (w, None) \<Rightarrow> open_tab D (on_wire w b))"

definition launch_locked :: "'p desktop \<Rightarrow> ('p browser, string) call" where
  "launch_locked D b =
     (let binary = find_browser_binary (de_lookup D (bw_far b)) in
      if binary = [] then give ''no browser binary found (LINA_BROWSER_PATH)'' b else
      case de_starts D binary (bw_far b) of
        (p, No_pipe) \<Rightarrow> give ''pipe failed'' (b\<lparr>bw_far := p\<rparr>)
      | (p, No_fork) \<Rightarrow> give ''fork failed'' (b\<lparr>bw_far := p\<rparr>)
      | (p, Child pid events) \<Rightarrow>
          (let b1 = b\<lparr>bw_far := p, bw_pid := Some pid\<rparr> in
           case read_endpoint events False [] [] of
             None \<Rightarrow> give ''browser exited during launch'' (b1\<lparr>bw_pid := None\<rparr>)
           | Some (buf, url) \<Rightarrow>
               if url = [] then
                 and_then (end_process D) (\<lambda>_. give (''no DevTools endpoint (stderr: '' @ substr buf 0 160 @ '')'')) b1
               else connect_to D url b1))"

definition bw_connected :: "'p browser \<Rightarrow> bool" where
  "bw_connected b \<longleftrightarrow> bw_socket b = Some True \<and> bw_session b \<noteq> []"

definition ensure_connected :: "'p desktop \<Rightarrow> ('p browser, string) call" where
  "ensure_connected D b = (if bw_connected b then give [] b else launch_locked D b)"

definition when_connected :: "'p desktop \<Rightarrow> ('p browser, string) call \<Rightarrow> ('p browser, string) call" where
  "when_connected D m = and_then (ensure_connected D) (\<lambda>err. if err \<noteq> [] then give err else m)"

section \<open>Operations\<close>

definition navigate :: "'p desktop \<Rightarrow> string \<Rightarrow> ('p browser, string) call" where
  "navigate D url = when_connected D (call_ok D ''Page.navigate'' (''{\"url\":\"'' @ escape_json url @ ''\"}''))"

definition eval_params :: "string \<Rightarrow> string" where
  "eval_params expression =
     ''{\"expression\":\"'' @ escape_json expression @ ''\",\"returnByValue\":true,\"awaitPromise\":true}''"

text \<open>The value of a reply; \<open>raw_value\<close> is the last attempt, on the text after the first name.\<close>

definition raw_value :: "string \<Rightarrow> string" where
  "raw_value reply =
     (case find0 ''\"value\"'' reply of
        None \<Rightarrow> ''null''
      | Some pos \<Rightarrow>
          (let t = dropWhile (\<lambda>c. c = CHR '' '' \<or> c = CHR '':'') (drop (pos + 7) reply)
           in if t = [] then ''null'' else takeWhile (\<lambda>c. c \<noteq> CHR '','' \<and> c \<noteq> CHR ''}'') t))"

definition eval_value :: "string \<Rightarrow> string" where
  "eval_value reply =
     (if reply = [] then ''cdp error''
      else if json_string reply ''value'' \<noteq> [] then json_string reply ''value''
      else if json_object reply ''value'' \<noteq> [] then json_object reply ''value''
      else raw_value reply)"

definition browser_eval :: "'p desktop \<Rightarrow> string \<Rightarrow> ('p browser, string) call" where
  "browser_eval D expression =
     when_connected D (and_then (cdp_call D ''Runtime.evaluate'' (eval_params expression)) (\<lambda>reply. give (eval_value reply)))"

definition eval_locked :: "'p desktop \<Rightarrow> string \<Rightarrow> ('p browser, string) call" where
  "eval_locked D expression =
     and_then (cdp_call D ''Runtime.evaluate'' (eval_params expression)) (\<lambda>reply. give (json_string reply ''value''))"

definition point_script :: "string \<Rightarrow> string" where
  "point_script selector =
     ''(()=>{const e=document.querySelector('' @ quote_js selector
     @ '');if(!e)return null;const r=e.getBoundingClientRect();return JSON.stringify({x:r.x+r.width/2,y:r.y+r.height/2});})()''"

definition mouse_params :: "string \<Rightarrow> string \<Rightarrow> string \<Rightarrow> string" where
  "mouse_params kind x y =
     ''{\"type\":\"'' @ kind @ ''\",\"x\":'' @ x @ '',\"y\":'' @ y @ '',\"button\":\"left\",\"clickCount\":1}''"

definition browser_click :: "'p desktop \<Rightarrow> string \<Rightarrow> ('p browser, string) call" where
  "browser_click D selector =
     when_connected D (and_then (eval_locked D (point_script selector)) (\<lambda>point.
       if find0 ''\"x\"'' point = None then give (''element not found: '' @ selector)
       else
         let x = json_string point ''x''; y = json_string point ''y'' in
         and_then (cdp_call D ''Input.dispatchMouseEvent'' (mouse_params ''mousePressed'' x y)) (\<lambda>press.
         and_then (cdp_call D ''Input.dispatchMouseEvent'' (mouse_params ''mouseReleased'' x y)) (\<lambda>released.
         give (if press = [] \<or> released = [] then ''cdp error on click'' else ''clicked '' @ selector)))))"

definition focus_script :: "string \<Rightarrow> string" where
  "focus_script selector =
     ''(()=>{const e=document.querySelector('' @ quote_js selector @ '');if(!e)return false;e.focus();return true;})()''"

definition type_text :: "'p desktop \<Rightarrow> string \<Rightarrow> string \<Rightarrow> ('p browser, string) call" where
  "type_text D selector text =
     when_connected D (and_then (eval_locked D (focus_script selector)) (\<lambda>focus.
       if focus \<noteq> ''true'' then give (''element not found: '' @ selector)
       else and_then (cdp_call D ''Input.insertText'' (''{\"text\":\"'' @ escape_json text @ ''\"}'')) (\<lambda>reply.
         give (if reply = [] then ''cdp error on type'' else ''typed into '' @ selector))))"

definition screenshot :: "'p desktop \<Rightarrow> string \<Rightarrow> ('p browser, string) call" where
  "screenshot D path =
     when_connected D (and_then (cdp_call D ''Page.captureScreenshot'' ''{\"format\":\"png\",\"captureBeyondViewport\":true}'') (\<lambda>reply b.
       let encoded = json_string reply ''data''; png = base64_decode encoded in
       if reply = [] then give ''cdp error on screenshot'' b
       else if encoded = [] then give ''screenshot produced no data'' b
       else
         let (p, opened) = de_saves D path png (bw_far b); b1 = b\<lparr>bw_far := p\<rparr> in
         give (if \<not> opened then ''cannot write: '' @ path
               else ''saved '' @ string_of_nat (length png) @ '' bytes to '' @ path) b1))"

end
