(* ===== verification/Browser_Tools.thy ===== *)
theory Browser_Tools
  imports Browser_Driver
begin

text \<open>
  The nine browser tools of \<^verbatim>\<open>src/src/browser_driver.cpp\<close>, as tools of the engine whose world is the
  state of the driver, and the properties of the driver: what its texts mean to a JSON reader, which
  reply a call takes, what becomes of an object that a page returns, what a lost connection does to
  the next one, and that every result says whether it worked.
\<close>

section \<open>The tools\<close>

type_synonym 'p browser_run = "string \<Rightarrow> ('p browser, tool_result) call"

definition ok_result :: "string \<Rightarrow> string \<Rightarrow> tool_result" where
  "ok_result text shown = new_tool_result\<lparr>tr_ok := True, tr_output := text, tr_summary := shown\<rparr>"

text \<open>The result of an operation that says in its text whether it worked.\<close>

definition said_result :: "bool \<Rightarrow> string \<Rightarrow> string \<Rightarrow> tool_result" where
  "said_result worked text error =
     new_tool_result\<lparr>tr_ok := worked, tr_exit_code := (if worked then 0 else 1), tr_error := (if worked then [] else error),
                     tr_output := text, tr_summary := text\<rparr>"

definition cut_400 :: "string \<Rightarrow> string" where
  "cut_400 text = (if 400 < length text then take 400 text @ map char_of [226, 128, 166 :: nat] else text)"

text \<open>The two tools that open an address; \<open>verb\<close> is what they say they did.\<close>

definition address_run :: "'p desktop \<Rightarrow> string \<Rightarrow> 'p browser_run" where
  "address_run D verb args =
     (let url = json_string args ''url'' in
      if url = [] then give (failed ''url is required'')
      else and_then (navigate D url) (\<lambda>error.
             give (said_result (error = ''ok'') (if error = ''ok'' then verb @ url else error) error)))"

text \<open>The three tools that evaluate something.\<close>

definition eval_run :: "'p desktop \<Rightarrow> string \<Rightarrow> ('p browser, tool_result) call" where
  "eval_run D expression =
     and_then (ensure_connected D) (\<lambda>error.
       if error \<noteq> [] then give (failed error)
       else and_then (browser_eval D expression) (\<lambda>text. give (ok_result text (cut_400 text))))"

definition browser_eval_run :: "'p desktop \<Rightarrow> 'p browser_run" where
  "browser_eval_run D args =
     (let expression = json_string args ''expression'' in
      if expression = [] then give (failed ''expression is required'') else eval_run D expression)"

definition click_run :: "'p desktop \<Rightarrow> 'p browser_run" where
  "click_run D args =
     (let selector = json_string args ''selector'' in
      if selector = [] then give (failed ''selector is required'')
      else and_then (browser_click D selector) (\<lambda>text. give (said_result (prefix ''clicked'' text) text text)))"

definition type_run :: "'p desktop \<Rightarrow> 'p browser_run" where
  "type_run D args =
     (let selector = json_string args ''selector''; text = json_string args ''text'' in
      if selector = [] then give (failed ''selector is required'')
      else and_then (type_text D selector text) (\<lambda>text. give (said_result (prefix ''typed'' text) text text)))"

definition screenshot_run :: "'p desktop \<Rightarrow> string \<Rightarrow> 'p browser_run" where
  "screenshot_run D workspace args =
     (let raw = json_string args ''path''; path = (if is_absolute raw then raw else join_path workspace raw) in
      if raw = [] then give (failed ''path is required'')
      else and_then (screenshot D path) (\<lambda>text. give (said_result (prefix ''saved'' text) text text)))"

definition close_run :: "'p desktop \<Rightarrow> 'p browser_run" where
  "close_run D args = and_then (close_locked D) (\<lambda>text. give (ok_result text text))"

definition browser_open_tool :: "'p desktop \<Rightarrow> 'p browser tool" where
  "browser_open_tool D =
     \<lparr>tl_name = ''browser.open'',
      tl_description = ''Open a URL in her browser (launches Chrome/Brave headless on first use). args: {\"url\": \"...\"}.'',
      tl_run = address_run D ''opened ''\<rparr>"

definition browser_navigate_tool :: "'p desktop \<Rightarrow> 'p browser tool" where
  "browser_navigate_tool D =
     \<lparr>tl_name = ''browser.navigate'', tl_description = ''Navigate her browser to a URL. args: {\"url\": \"...\"}.'',
      tl_run = address_run D ''navigated to ''\<rparr>"

definition browser_eval_tool :: "'p desktop \<Rightarrow> 'p browser tool" where
  "browser_eval_tool D =
     \<lparr>tl_name = ''browser.eval'',
      tl_description = ''Evaluate a JavaScript expression in the page and return the value. args: {\"expression\": \"...\"}.'',
      tl_run = browser_eval_run D\<rparr>"

definition browser_text_tool :: "'p desktop \<Rightarrow> 'p browser tool" where
  "browser_text_tool D =
     \<lparr>tl_name = ''browser.text'', tl_description = ''Read the visible text of the current page. No args.'',
      tl_run = (\<lambda>_. eval_run D (''document.body?document.body.innerText:'' @ [CHR 0x27, CHR 0x27]))\<rparr>"

definition browser_content_tool :: "'p desktop \<Rightarrow> 'p browser tool" where
  "browser_content_tool D =
     \<lparr>tl_name = ''browser.content'', tl_description = ''Read the full HTML of the current page. No args.'',
      tl_run = (\<lambda>_. eval_run D ''document.documentElement.outerHTML'')\<rparr>"

definition browser_click_tool :: "'p desktop \<Rightarrow> 'p browser tool" where
  "browser_click_tool D =
     \<lparr>tl_name = ''browser.click'',
      tl_description = ''Click the element matching a CSS selector. args: {\"selector\": \"...\"}.'', tl_run = click_run D\<rparr>"

definition browser_type_tool :: "'p desktop \<Rightarrow> 'p browser tool" where
  "browser_type_tool D =
     \<lparr>tl_name = ''browser.type'',
      tl_description = ''Type text into the element matching a CSS selector. args: {\"selector\": \"...\", \"text\": \"...\"}.'',
      tl_run = type_run D\<rparr>"

definition browser_screenshot_tool :: "'p desktop \<Rightarrow> string \<Rightarrow> 'p browser tool" where
  "browser_screenshot_tool D workspace =
     \<lparr>tl_name = ''browser.screenshot'',
      tl_description = ''Capture the page as a PNG saved to the workspace. args: {\"path\": \"shot.png\"}.'',
      tl_run = screenshot_run D workspace\<rparr>"

definition browser_close_tool :: "'p desktop \<Rightarrow> 'p browser tool" where
  "browser_close_tool D =
     \<lparr>tl_name = ''browser.close'', tl_description = ''Close her browser session. No args.'', tl_run = close_run D\<rparr>"

text \<open>In the order in which the core registers them.\<close>

definition browser_tools :: "'p desktop \<Rightarrow> string \<Rightarrow> 'p browser tool list" where
  "browser_tools D workspace =
     [browser_open_tool D, browser_navigate_tool D, browser_eval_tool D, browser_text_tool D, browser_content_tool D,
      browser_click_tool D, browser_type_tool D, browser_screenshot_tool D workspace, browser_close_tool D]"

section \<open>What a reader makes of the texts\<close>

text \<open>
  A JSON reader after the opening quote: the text, and what follows the closing quote; \<open>None\<close> when the
  text does not end or an escape is unknown.  A reader of JavaScript strings, which do not go over the
  end of a line.
\<close>

fun json_reads :: "string \<Rightarrow> (string \<times> string) option" where
  "json_reads [] = None"
| "json_reads (c # cs) =
     (if c = CHR ''\"'' then Some ([], cs)
      else if c = CHR 0x5C then
        (case cs of
           [] \<Rightarrow> None
         | e # rest \<Rightarrow>
             (case map_of [(CHR ''\"'', CHR ''\"''), (CHR 0x5C, CHR 0x5C), (CHR ''/'', CHR ''/''), (CHR ''b'', CHR 0x08),
                           (CHR ''f'', CHR 0x0C), (CHR ''n'', CHR 0x0A), (CHR ''r'', CHR 0x0D), (CHR ''t'', CHR 0x09)] e of
                None \<Rightarrow> None
              | Some d \<Rightarrow> map_option (\<lambda>(t, r). (d # t, r)) (json_reads rest)))
      else map_option (\<lambda>(t, r). (c # t, r)) (json_reads cs))"

fun js_reads :: "string \<Rightarrow> (string \<times> string) option" where
  "js_reads [] = None"
| "js_reads (c # cs) =
     (if c = CHR ''\"'' then Some ([], cs)
      else if c = CHR 0x0A \<or> c = CHR 0x0D then None
      else if c = CHR 0x5C then
        (case cs of
           [] \<Rightarrow> None
         | e # rest \<Rightarrow> if e = CHR ''\"'' \<or> e = CHR 0x5C then map_option (\<lambda>(t, r). (e # t, r)) (js_reads rest) else None)
      else map_option (\<lambda>(t, r). (c # t, r)) (js_reads cs))"

lemma escape_reads: "json_reads (escape_json t @ rest) = map_option (\<lambda>(u, r). (t @ u, r)) (json_reads rest)"
  by (induction t) (auto simp: escape_json_def escape_char_def option.map_comp comp_def case_prod_beta option.map_ident)


section \<open>Calls and values\<close>

definition own_reply :: "int \<Rightarrow> string outcome \<Rightarrow> bool" where
  "own_reply n r \<longleftrightarrow> (case r of Threw \<Rightarrow> True | Done x \<Rightarrow> x = [] \<or> json_int x ''id'' (-1) = n)"

lemma round_answers: "await_round D n deadline w = Some (w', Inr r) \<Longrightarrow> own_reply n r"
  by (cases "receive (de_net D) (deadline - de_clock D (wi_far w)) w")
     (auto simp: await_round_def Let_def own_reply_def split: if_splits outcome.splits option.splits)

lemma await_answers:
  assumes "await_reply D n deadline w = Some (w', Done r)" shows "r = [] \<or> json_int r ''id'' (-1) = n"
proof -
  have "own_reply n (snd (w', Done r))"
  proof (rule await_reply.raw_induct[OF _ assms])
    fix f :: "'a desktop \<Rightarrow> int \<Rightarrow> int \<Rightarrow> 'a wire \<Rightarrow> ('a wire \<times> string outcome) option"
    fix D n deadline w r
    assume ih: "\<And>D n deadline w r. f D n deadline w = Some r \<Longrightarrow> own_reply n (snd r)"
    assume "Option.bind (await_round D n deadline w)
       (\<lambda>(w, r). case r of Inr out \<Rightarrow> Some (w, out) | Inl u \<Rightarrow> f D n deadline w) = Some r"
    then obtain a q where q: "await_round D n deadline w = Some (a, q)"
      and o: "(case q of Inr out \<Rightarrow> Some (a, out) | Inl u \<Rightarrow> f D n deadline a) = Some r" by (auto simp: bind_eq_Some_conv)
    show "own_reply n (snd r)"
    proof (cases q)
      case (Inl u) with o show ?thesis by (simp add: ih)
    next
      case (Inr out) with o q show ?thesis by (auto dest: round_answers)
    qed
  qed
  then show ?thesis by (simp add: own_reply_def)
qed

text \<open>
  C26: a call takes its own reply: whatever the browser sends and in whatever order, a call that
  returns gives the empty text or a frame that carries the number of this call, and every call on an
  open connection uses up one number, so no reply is taken twice.
\<close>

theorem calls_take_their_reply:
  "case cdp_call D method params b of
     Some (b', Done reply) \<Rightarrow>
       (reply = [] \<or> json_int reply ''id'' (-1) = bw_next_id b)
       \<and> bw_next_id b' = bw_next_id b + (if bw_socket b = Some True then 1 else 0) \<and> bw_session b' = bw_session b
   | _ \<Rightarrow> True"
proof -
  have "reply = [] \<or> json_int reply ''id'' (-1) = bw_next_id b"
    if "cdp_call D method params b = Some (b', Done reply)" for b' reply
    using that by (auto simp: cdp_call_def give_def Let_def split: if_splits prod.splits dest: await_answers)
  moreover have "bw_next_id b' = bw_next_id b + (if bw_socket b = Some True then 1 else 0) \<and> bw_session b' = bw_session b"
    if "cdp_call D method params b = Some (b', Done reply)" for b' reply
    using that by (auto simp: cdp_call_def give_def Let_def on_wire_def split: if_splits prod.splits)
  ultimately show ?thesis by (simp split: option.splits prod.splits outcome.splits)
qed

text \<open>A quoted object: the reader of plain values takes it for a bare one.\<close>

lemma object_is_bare: "json_object r k = [] \<or> (\<exists>t. json_string r k = CHR ''{'' # t)"
proof (cases "find_key r k")
  case None
  then show ?thesis by (simp add: json_object_def)
next
  case (Some v)
  show ?thesis
  proof (cases "drop v r")
    case Nil
    then show ?thesis using Some by (simp add: json_object_def)
  next
    case (Cons c cs)
    show ?thesis
    proof (cases "c = CHR ''{''")
      case True
      have "\<not> ends_bare (CHR ''{'')" by code_simp
      then show ?thesis using Some Cons True by (simp add: json_string_def)
    next
      case False
      then show ?thesis using Some Cons by (simp add: json_object_def)
    qed
  qed
qed

text \<open>
  an object is cut: when the page returns an object, \<^verbatim>\<open>browser.eval\<close> gives its text up to the first
  blank, comma or closing bracket, and the reader of whole objects behind it is never reached: whatever
  the reply, that reader finds nothing or the plain reader has found something before it.
\<close>

theorem objects_are_cut:
  "eval_value reply = (if reply = [] then ''cdp error'' else if json_string reply ''value'' \<noteq> [] then json_string reply ''value''
                       else raw_value reply)
   \<and> eval_value ''{\"id\":3,\"result\":{\"result\":{\"type\":\"object\",\"value\":{\"a\":1,\"b\":2}}}}'' = ''{\"a\":1''"
proof -
  have "json_string reply ''value'' = [] \<Longrightarrow> json_object reply ''value'' = []" using object_is_bare[of reply "''value''"] by auto
  then have a: "eval_value reply = (if reply = [] then ''cdp error'' else if json_string reply ''value'' \<noteq> [] then json_string reply ''value''
                       else raw_value reply)" by (simp add: eval_value_def)
  have "eval_value ''{\"id\":3,\"result\":{\"result\":{\"type\":\"object\",\"value\":{\"a\":1,\"b\":2}}}}'' = ''{\"a\":1''" by code_simp
  with a show ?thesis by simp
qed

section \<open>A lost connection\<close>

lemma fail_closed_text: "fail_closed D m b = Some (b', Done e) \<Longrightarrow> e = m"
  by (auto simp: fail_closed_def close_locked_def end_process_def and_then_def give_def split: option.splits)

lemma open_tab_fails:
  assumes "open_tab D b = Some (b', Done e)"
  shows "e \<noteq> [] \<or> (\<exists>b1 created. cdp_call D ''Target.createTarget'' ''{\"url\":\"about:blank\"}'' b = Some (b1, Done created)
           \<and> json_string created ''targetId'' \<noteq> [])"
proof -
  obtain b1 created where c: "cdp_call D ''Target.createTarget'' ''{\"url\":\"about:blank\"}'' b = Some (b1, Done created)"
    using assms by (auto simp: open_tab_def and_then_def split: option.splits prod.splits outcome.splits)
  show ?thesis
  proof (cases "json_string created ''targetId'' = []")
    case True
    then have "fail_closed D ''createTarget failed'' b1 = Some (b', Done e)" using assms c by (simp add: open_tab_def and_then_def)
    then show ?thesis by (auto dest: fail_closed_text)
  qed (use c in blast)
qed

text \<open>
  a lost connection spoils the next one: the session of a connection that was lost is kept, so the
  first message to the browser started next names a session that browser never had; a launch that
  begins with such a session fails unless the new browser answers that message with a target all the
  same.
\<close>

theorem lost_session_is_sent:
  "case ensure_connected D b of
     Some (b', Done e) \<Rightarrow>
       e \<noteq> [] \<or> bw_connected b
       \<or> (\<exists>b1 b2 created.
            cdp_call D ''Target.createTarget'' ''{\"url\":\"about:blank\"}'' b1 = Some (b2, Done created)
            \<and> json_string created ''targetId'' \<noteq> [] \<and> bw_session b1 = bw_session b
            \<and> cdp_message (bw_next_id b1) ''Target.createTarget'' ''{\"url\":\"about:blank\"}'' (bw_session b1)
                = ''{\"id\":'' @ string_of_int (bw_next_id b) @ '',\"method\":\"Target.createTarget\",\"params\":{\"url\":\"about:blank\"}''
                  @ session_field (bw_session b) @ ''}'')
   | _ \<Rightarrow> True"
proof -
  have "e \<noteq> [] \<or> bw_connected b
       \<or> (\<exists>b1 b2 created.
            cdp_call D ''Target.createTarget'' ''{\"url\":\"about:blank\"}'' b1 = Some (b2, Done created)
            \<and> json_string created ''targetId'' \<noteq> [] \<and> bw_session b1 = bw_session b \<and> bw_next_id b1 = bw_next_id b)"
    if r: "ensure_connected D b = Some (b', Done e)" for b' e
  proof (cases "bw_connected b \<or> e \<noteq> []")
    case False
    let ?l = "launch_locked D b"
    have l: "?l = Some (b', Done [])" using r False by (simp add: ensure_connected_def)
    obtain p pid events buf url where s: "de_starts D (find_browser_binary (de_lookup D (bw_far b))) (bw_far b) = (p, Child pid events)"
      and ep: "read_endpoint events False [] [] = Some (buf, url)" "url \<noteq> []"
      and c: "connect_to D url (b\<lparr>bw_far := p, bw_pid := Some pid\<rparr>) = Some (b', Done [])"
      using l by (auto simp: launch_locked_def give_def and_then_def Let_def end_process_def
          split: if_splits prod.splits started.splits option.splits)
    obtain w where w: "open_tab D (on_wire w (b\<lparr>bw_far := p, bw_pid := Some pid\<rparr>)) = Some (b', Done [])"
      using c by (auto simp: connect_to_def split: option.splits prod.splits dest: fail_closed_text)
    obtain b2 created where "cdp_call D ''Target.createTarget'' ''{\"url\":\"about:blank\"}'' (on_wire w (b\<lparr>bw_far := p, bw_pid := Some pid\<rparr>))
        = Some (b2, Done created)" "json_string created ''targetId'' \<noteq> []"
      using open_tab_fails[OF w] by auto
    moreover have "bw_session (on_wire w (b\<lparr>bw_far := p, bw_pid := Some pid\<rparr>)) = bw_session b"
      "bw_next_id (on_wire w (b\<lparr>bw_far := p, bw_pid := Some pid\<rparr>)) = bw_next_id b" by (simp_all add: on_wire_def)
    ultimately show ?thesis by metis
  qed auto
  then show ?thesis by (fastforce simp: cdp_message_def split: option.splits prod.splits outcome.splits)
qed

section \<open>Every result says whether it worked\<close>

definition says :: "('a \<Rightarrow> bool) \<Rightarrow> ('s, 'a) call \<Rightarrow> bool" where
  "says P m \<longleftrightarrow> (\<forall>s s' a. m s = Some (s', Done a) \<longrightarrow> P a)"

lemma says_give [intro]: "P a \<Longrightarrow> says P (give a)"
  by (simp add: says_def give_def)

lemma says_then [intro]: "(\<And>a. says P (f a)) \<Longrightarrow> says P (and_then m f)"
  by (auto simp: says_def and_then_def split: option.splits prod.splits outcome.splits)

lemma says_after: "says Q m \<Longrightarrow> (\<And>a. Q a \<Longrightarrow> says P (f a)) \<Longrightarrow> says P (and_then m f)"
  by (fastforce simp: says_def and_then_def split: option.splits prod.splits outcome.splits)

lemma says_connected [intro]: "says (\<lambda>t. t \<noteq> []) m \<Longrightarrow> says (\<lambda>t. t \<noteq> []) (when_connected D m)"
  unfolding when_connected_def by (intro says_then) (auto simp: says_def give_def)

definition result_fits :: "tool_result \<Rightarrow> bool" where
  "result_fits r \<longleftrightarrow> (if tr_ok r then tr_exit_code r = 0 \<and> tr_error r = [] else tr_exit_code r = 1 \<and> tr_error r \<noteq> [])"

lemma results_fit [simp, intro]:
  "m \<noteq> [] \<Longrightarrow> result_fits (failed m)" "result_fits (ok_result t s)" "worked \<or> e \<noteq> [] \<Longrightarrow> result_fits (said_result worked t e)"
  by (auto simp: result_fits_def failed_def ok_result_def said_result_def new_tool_result_def)

lemma operations_say:
  "says (\<lambda>t. t \<noteq> []) (navigate D u)" "says (\<lambda>t. t \<noteq> []) (browser_click D s)" "says (\<lambda>t. t \<noteq> []) (type_text D s t)"
  "says (\<lambda>t. t \<noteq> []) (screenshot D p)"
proof -
  show "says (\<lambda>t. t \<noteq> []) (navigate D u)" unfolding navigate_def call_ok_def
    by (intro says_connected says_then says_give) (auto simp: Let_def)
  show "says (\<lambda>t. t \<noteq> []) (browser_click D s)" unfolding browser_click_def
    by (intro says_connected says_then) (auto simp: Let_def intro!: says_then says_give split: if_splits)
  show "says (\<lambda>t. t \<noteq> []) (type_text D s t)" unfolding type_text_def
    by (intro says_connected says_then) (auto intro!: says_then says_give split: if_splits)
  show "says (\<lambda>t. t \<noteq> []) (screenshot D p)" unfolding screenshot_def
    by (intro says_connected says_then) (auto simp: says_def give_def Let_def split: if_splits prod.splits)
qed

lemma said_fits: "says (\<lambda>t. t \<noteq> []) m \<Longrightarrow> says result_fits (and_then m (\<lambda>t. give (said_result (q t) (f t) t)))"
  by (erule says_after) auto

lemma eval_run_fits: "says result_fits (eval_run D x)"
  unfolding eval_run_def by (intro says_then) auto

lemma address_run_fits: "says result_fits (address_run D v x)"
  using said_fits[OF operations_say(1), of D "json_string x ''url''" "\<lambda>e. e = ''ok''" "\<lambda>e. if e = ''ok'' then v @ json_string x ''url'' else e"]
  by (auto simp: address_run_def Let_def)

lemma runs_fit:
  "says result_fits (browser_eval_run D x)" "says result_fits (click_run D x)" "says result_fits (type_run D x)"
  "says result_fits (screenshot_run D w x)" "says result_fits (close_run D x)"
  using eval_run_fits said_fits[OF operations_say(2)] said_fits[OF operations_say(3)] said_fits[OF operations_say(4)]
  by (auto simp: browser_eval_run_def click_run_def type_run_def screenshot_run_def close_run_def Let_def)

text \<open>
  C28: the results of the nine tools are of one kind: a tool that returns, returns a result that is
  either a success with code 0 and no error text, or a failure with code 1 and an error text,
  whatever the arguments, the state of the driver and the browser.  A tool that evaluates something
  never fails once it is connected.
\<close>

theorem browser_results_fit:
  "list_all (\<lambda>t. case tl_run t args b of Some (b', Done r) \<Rightarrow> result_fits r | _ \<Rightarrow> True) (browser_tools D workspace)
   \<and> (case eval_run D expression b of
        Some (b', Done r) \<Rightarrow> tr_ok r \<or> (\<exists>b1. ensure_connected D b = Some (b1, Done (tr_error r)))
      | _ \<Rightarrow> True)"
proof -
  have fit: "case m b of Some (b', Done r) \<Rightarrow> result_fits r | _ \<Rightarrow> True" if "says result_fits m" for m :: "('a browser, tool_result) call"
    using that by (auto simp: says_def split: option.splits prod.splits outcome.splits)
  have "list_all (\<lambda>t. case tl_run t args b of Some (b', Done r) \<Rightarrow> result_fits r | _ \<Rightarrow> True) (browser_tools D workspace)"
    by (simp add: browser_tools_def browser_open_tool_def browser_navigate_tool_def browser_eval_tool_def browser_text_tool_def
        browser_content_tool_def browser_click_tool_def browser_type_tool_def browser_screenshot_tool_def browser_close_tool_def,
        intro conjI fit address_run_fits eval_run_fits runs_fit)
  moreover have "tr_ok r \<or> (\<exists>b1. ensure_connected D b = Some (b1, Done (tr_error r)))"
    if "eval_run D expression b = Some (b', Done r)" for b' r
    using that by (auto simp: eval_run_def and_then_def give_def failed_def ok_result_def new_tool_result_def
        split: option.splits prod.splits outcome.splits if_splits)
  ultimately show ?thesis by (simp split: option.splits prod.splits outcome.splits)
qed

end
