(* ===== verification/Ui_Text.thy ===== *)
theory Ui_Text
  imports Prelude
begin

text \<open>
  The texts of the chat window, \<^verbatim>\<open>src/src/lina_ui.cpp\<close>: escaping, the formatter of the chat bubbles
  and the lines of the log.  A \<^verbatim>\<open>QString\<close> is the list of its UTF-16 units.  Whatever a text holds,
  every tag in the formatter's result is one of its own.
\<close>

section \<open>QString\<close>

type_synonym u16 = "16 word"
type_synonym qstring = "u16 list"

definition qs :: "string \<Rightarrow> qstring" where "qs = map (\<lambda>c. of_nat (of_char c))"

definition q_space :: "u16 \<Rightarrow> bool" where
  "q_space u \<longleftrightarrow> (9 \<le> u \<and> u \<le> 13) \<or> u = 32 \<or> u = 0x85 \<or> u = 0xA0 \<or> u = 0x1680 \<or> (0x2000 \<le> u \<and> u \<le> 0x200A)
     \<or> u = 0x2028 \<or> u = 0x2029 \<or> u = 0x202F \<or> u = 0x205F \<or> u = 0x3000"

definition trimmed :: "qstring \<Rightarrow> qstring" where
  "trimmed s = rev (dropWhile q_space (rev (dropWhile q_space s)))"

fun q_split :: "u16 \<Rightarrow> qstring \<Rightarrow> qstring list" where
  "q_split sep [] = [[]]"
| "q_split sep (u # us) = (if u = sep then [] # q_split sep us else (u # hd (q_split sep us)) # tl (q_split sep us))"

fun q_join :: "qstring \<Rightarrow> qstring list \<Rightarrow> qstring" where
  "q_join sep [] = []"
| "q_join sep [x] = x"
| "q_join sep (x # y # ys) = x @ sep @ q_join sep (y # ys)"

fun q_index :: "u16 \<Rightarrow> qstring \<Rightarrow> int" where
  "q_index u [] = -1"
| "q_index u (v # vs) = (if v = u then 0 else let i = q_index u vs in if i = -1 then -1 else i + 1)"

definition q_mid :: "int \<Rightarrow> qstring \<Rightarrow> qstring" where "q_mid pos s = drop (nat pos) s"

section \<open>Escaping\<close>

definition esc_unit :: "u16 \<Rightarrow> qstring" where
  "esc_unit u =
     (if u = 60 then qs ''&lt;'' else if u = 62 then qs ''&gt;'' else if u = 38 then qs ''&amp;''
      else if u = 34 then qs ''&quot;'' else [u])"

definition esc :: "qstring \<Rightarrow> qstring" where "esc s = concat (map esc_unit s)"

section \<open>Replacing marked parts\<close>

text \<open>
  The match of \<^verbatim>\<open>(.+?)\<close> up to the mark \<open>d\<close>: at least one unit, none of them a line feed, as few as
  possible; the part and what follows the mark.
\<close>

fun lazy_part :: "qstring \<Rightarrow> qstring \<Rightarrow> (qstring \<times> qstring) option" where
  "lazy_part d [] = None"
| "lazy_part d (u # us) =
     (if u = 10 then None
      else if prefix d us then Some ([u], drop (length d) us)
      else map_option (\<lambda>(part, rest). (u # part, rest)) (lazy_part d us))"

lemma lazy_part_split: "lazy_part d s = Some (part, rest) \<Longrightarrow> s = part @ d @ rest \<and> part \<noteq> []"
  by (induction s arbitrary: part rest) (auto split: if_splits elim: prefixE)

lemma lazy_part_shorter: "lazy_part d (drop n s) = Some (part, rest) \<Longrightarrow> length rest < length s"
proof -
  assume "lazy_part d (drop n s) = Some (part, rest)"
  then have "drop n s = part @ d @ rest" "part \<noteq> []" by (auto dest: lazy_part_split)
  then have "length (drop n s) = length part + length d + length rest" "part \<noteq> []" by simp_all
  then show ?thesis by (cases part) auto
qed

text \<open>\<^verbatim>\<open>QString::replace\<close> with the expression of a part between two marks \<open>d\<close>.\<close>

function replace_marked :: "qstring \<Rightarrow> qstring \<Rightarrow> qstring \<Rightarrow> qstring \<Rightarrow> qstring" where
  "replace_marked d before after [] = []"
| "replace_marked d before after (u # us) =
     (if prefix d (u # us) then
        (case lazy_part d (drop (length d) (u # us)) of
           Some (part, rest) \<Rightarrow> before @ part @ after @ replace_marked d before after rest
         | None \<Rightarrow> u # replace_marked d before after us)
      else u # replace_marked d before after us)"
  by pat_completeness auto
termination
  by (relation "measure (\<lambda>(d, before, after, s). length s)") (auto dest: lazy_part_shorter)

section \<open>The formatter\<close>

definition bold_open :: qstring where "bold_open = qs ''<b style=\"color:#ffffff;\">''"
definition bold_close :: qstring where "bold_close = qs ''</b>''"
definition italic_open :: qstring where "italic_open = qs ''<i style=\"color:#b0c4de;\">''"
definition italic_close :: qstring where "italic_close = qs ''</i>''"
definition code_open :: qstring where "code_open = qs ''<code style=\"background:#070d17; color:#00f0ff; padding:2px 5px; border:1px solid #00d2ff33; border-radius:3px; font-family:'DejaVu Sans Mono',monospace; font-size:11.5px;\">''"
definition code_close :: qstring where "code_close = qs ''</code>''"
definition badge_open :: qstring where "badge_open = qs ''<div style='color:#00d2ff; font-size:10px; font-weight:bold; margin-bottom:4px; text-transform:uppercase;'>''"
definition block_open :: qstring where "block_open = qs ''<div style='background:#04060a; border:1px solid #00d2ff33; border-radius:6px; padding:8px 10px; margin:6px 0; font-family:\"DejaVu Sans Mono\",monospace; font-size:12px; color:#cbe3fb;'>''"
definition pre_open :: qstring where "pre_open = qs ''<pre style='margin:0; white-space:pre-wrap;'>''"
definition pre_close :: qstring where "pre_close = qs ''</pre>''"
definition div_close :: qstring where "div_close = qs ''</div>''"
definition h4_open :: qstring where "h4_open = qs ''<h4 style='color:#ffd700; margin:8px 0 4px 0; font-size:14px; font-weight:bold;'>''"
definition h4_close :: qstring where "h4_close = qs ''</h4>''"
definition h3_open :: qstring where "h3_open = qs ''<h3 style='color:#00d2ff; margin:10px 0 4px 0; font-size:15px; font-weight:bold; border-bottom:1px solid #00d2ff33; padding-bottom:2px;'>''"
definition h3_close :: qstring where "h3_close = qs ''</h3>''"
definition h2_open :: qstring where "h2_open = qs ''<h2 style='color:#ffd700; margin:12px 0 6px 0; font-size:16px; font-weight:bold; border-bottom:1px solid #ffd70044; padding-bottom:3px;'>''"
definition h2_close :: qstring where "h2_close = qs ''</h2>''"
definition gap_open :: qstring where "gap_open = qs ''<div style='height:8px;'>''"
definition bullet_open :: qstring where "bullet_open = qs ''<div style='margin-left:14px; text-indent:-10px;'>''"
definition point_open :: qstring where "point_open = qs ''<span style='color:#00d2ff;'>''"
definition span_close :: qstring where "span_close = qs ''</span>''"
definition line_open :: qstring where "line_open = qs ''<div style='margin:2px 0;'>''"

lemmas tag_defs = bold_open_def bold_close_def italic_open_def italic_close_def code_open_def code_close_def badge_open_def block_open_def pre_open_def pre_close_def div_close_def h4_open_def h4_close_def h3_open_def h3_close_def h2_open_def h2_close_def gap_open_def bullet_open_def point_open_def span_close_def line_open_def

definition own_tags :: "qstring list" where
  "own_tags = [bold_open, bold_close, italic_open, italic_close, code_open, code_close,
     badge_open, block_open, pre_open, pre_close, div_close, h4_open,
     h4_close, h3_open, h3_close, h2_open, h2_close, gap_open,
     bullet_open, point_open, span_close, line_open]"

definition fence :: qstring where "fence = [0x60, 0x60, 0x60]"

text \<open>The state of the loop: the result, whether a code block is open, its language and its content.\<close>

record markdown =
  md_html :: qstring
  md_in_code :: bool
  md_lang :: qstring
  md_code :: qstring

definition code_block :: "qstring \<Rightarrow> qstring \<Rightarrow> qstring" where
  "code_block badge content = block_open @ badge @ pre_open @ esc content @ pre_close @ div_close"

definition lang_badge :: "qstring \<Rightarrow> qstring" where
  "lang_badge lang = (if lang = [] then [] else badge_open @ esc lang @ div_close)"

definition inline_marks :: "qstring \<Rightarrow> qstring" where
  "inline_marks s =
     replace_marked [0x60] code_open code_close
       (replace_marked [0x2A] italic_open italic_close
         (replace_marked [0x2A, 0x2A] bold_open bold_close s))"

definition text_line :: "qstring \<Rightarrow> qstring" where
  "text_line line =
     (let formatted = inline_marks (esc line); t = trimmed line in
      if prefix (qs ''- '') t \<or> prefix (qs ''* '') t
      then bullet_open @ point_open @ [0x2022] @ span_close @ qs '' '' @ q_mid (q_index (hd t) formatted + 2) formatted @ div_close
      else line_open @ formatted @ div_close)"

definition plain_line :: "qstring \<Rightarrow> qstring" where
  "plain_line line =
     (if prefix (qs ''### '') line then h4_open @ esc (drop 4 line) @ h4_close
      else if prefix (qs ''## '') line then h3_open @ esc (drop 3 line) @ h3_close
      else if prefix (qs ''# '') line then h2_open @ esc (drop 2 line) @ h2_close
      else if trimmed line = [] then gap_open @ div_close
      else text_line line)"

definition markdown_line :: "markdown \<Rightarrow> qstring \<Rightarrow> markdown" where
  "markdown_line m line =
     (if prefix fence (trimmed line) then
        (if \<not> md_in_code m then m\<lparr>md_in_code := True, md_lang := trimmed (drop 3 (trimmed line)), md_code := []\<rparr>
         else m\<lparr>md_in_code := False, md_html := md_html m @ code_block (lang_badge (md_lang m)) (md_code m)\<rparr>)
      else if md_in_code m then m\<lparr>md_code := (if md_code m \<noteq> [] then md_code m @ [10] else []) @ line\<rparr>
      else m\<lparr>md_html := md_html m @ plain_line line\<rparr>)"

definition formatMarkdown :: "qstring \<Rightarrow> qstring" where
  "formatMarkdown raw =
     (if raw = [] then [] else
      let m = foldl markdown_line \<lparr>md_html = [], md_in_code = False, md_lang = [], md_code = []\<rparr> (q_split 10 raw)
      in md_html m @ (if md_in_code m then code_block [] (md_code m) else []))"

section \<open>The tags of a result\<close>

text \<open>Every opening bracket of the text begins one of the tags \<open>T\<close>.\<close>

fun only_tags :: "qstring list \<Rightarrow> qstring \<Rightarrow> bool" where
  "only_tags T [] = True"
| "only_tags T (u # us) = ((u = 60 \<longrightarrow> list_ex (\<lambda>t. prefix t (u # us)) T) \<and> only_tags T us)"

lemma only_tags_append [intro]: "only_tags T a \<Longrightarrow> only_tags T b \<Longrightarrow> only_tags T (a @ b)"
  by (induction a) (auto simp: list_ex_iff, metis append_Cons prefix_prefix)

lemma only_tags_drop: "only_tags T s \<Longrightarrow> only_tags T (drop n s)"
  by (induction s arbitrary: n) (auto simp: drop_Cons' )

lemma only_tags_plain: "60 \<notin> set s \<Longrightarrow> only_tags T s"
  by (induction s) auto

lemma only_tags_cut: "only_tags T (a @ d @ b) \<Longrightarrow> d \<noteq> [] \<Longrightarrow> \<forall>t\<in>set T. hd d \<notin> set t \<Longrightarrow> only_tags T a"
proof (induction a)
  case (Cons u a)
  have "list_ex (\<lambda>t. prefix t (u # a)) T" if "u = 60"
  proof -
    from Cons.prems(1) that obtain t where t: "t \<in> set T" "prefix t ((u # a) @ d @ b)" by (auto simp: list_ex_iff)
    have "prefix t (u # a)"
    proof (rule ccontr)
      assume n: "\<not> prefix t (u # a)"
      with t(2) obtain r where r: "t = (u # a) @ r" "prefix r (d @ b)" unfolding prefix_append by blast
      with n have "r \<noteq> []" by auto
      with r(2) Cons.prems(2) have "hd d \<in> set r" by (cases r; cases d) auto
      then show False using r(1) Cons.prems(3) t(1) by auto
    qed
    with t(1) show ?thesis by (auto simp: list_ex_iff)
  qed
  with Cons show ?case by simp
qed simp

lemma replace_keeps_start:
  "prefix t s \<Longrightarrow> d \<noteq> [] \<Longrightarrow> hd d \<notin> set t \<Longrightarrow> prefix t (replace_marked d before after s)"
proof (induction t arbitrary: s)
  case (Cons x xs)
  from Cons.prems(1) obtain s' where s: "s = x # s'" "prefix xs s'" by (cases s) auto
  have "\<not> prefix d (x # s')" using Cons.prems(2,3) by (cases d) auto
  then show ?case using Cons s by auto
qed simp

lemma replace_keeps_tags:
  assumes "only_tags T s" "only_tags T before" "only_tags T after" "d \<noteq> []" "\<forall>t\<in>set T. hd d \<notin> set t"
  shows "only_tags T (replace_marked d before after s)"
  using assms
proof (induction d before after s rule: replace_marked.induct)
  case (2 d before after u us)
  have tail: "only_tags T us" using 2(4) by simp
  show ?case
  proof (cases "prefix d (u # us) \<and> lazy_part d (drop (length d) (u # us)) \<noteq> None")
    case True
    then obtain part rest where p: "lazy_part d (drop (length d) (u # us)) = Some (part, rest)" by auto
    then have s: "drop (length d) (u # us) = part @ d @ rest" by (auto dest: lazy_part_split)
    have "only_tags T (part @ d @ rest)" using only_tags_drop[OF 2(4), of "length d"] s by simp
    then have "only_tags T part" "only_tags T rest"
      using only_tags_cut[of T part d rest] 2(7,8) only_tags_drop[of T "part @ d @ rest" "length (part @ d)"] by simp_all
    moreover have "only_tags T (replace_marked d before after rest)"
      using 2(2)[OF _ p refl] True 2(5-8) calculation by simp
    ultimately show ?thesis using True p 2(5,6) by auto
  next
    case False
    have ih: "only_tags T (replace_marked d before after us)"
      using 2(1,3) False tail 2(5-8) by (cases "prefix d (u # us)"; cases "lazy_part d (drop (length d) (u # us))") auto
    have out: "replace_marked d before after (u # us) = u # replace_marked d before after us"
      using False by (auto split: option.splits)
    have "list_ex (\<lambda>t. prefix t (u # replace_marked d before after us)) T" if u: "u = 60"
    proof -
      obtain t where t: "t \<in> set T" "prefix t (u # us)" using 2(4) u by (auto simp: list_ex_iff)
      have "prefix t (replace_marked d before after (u # us))" using t 2(7,8) replace_keeps_start by blast
      then show ?thesis using t(1) out by (auto simp: list_ex_iff)
    qed
    then show ?thesis using ih out by simp
  qed
qed simp

lemma esc_has_no_tag: "60 \<notin> set (esc s)" "only_tags T (esc s)"
proof -
  have u: "60 \<notin> set (esc_unit u)" for u by (simp add: esc_unit_def qs_def)
  show "60 \<notin> set (esc s)" using u by (auto simp: esc_def)
  then show "only_tags T (esc s)" by (rule only_tags_plain)
qed

lemma qs_mem: "of_nat (of_char c) \<in> set (qs s) \<longleftrightarrow> c \<in> set s"
proof -
  have "(of_nat (of_char c) :: u16) = of_nat (of_char x) \<longleftrightarrow> x = c" for x
  proof
    assume "(of_nat (of_char c) :: u16) = of_nat (of_char x)"
    then have "unat (of_nat (of_char x) :: u16) = unat (of_nat (of_char c) :: u16)" by simp
    moreover have "(of_char y :: nat) mod 2 ^ 16 = of_char y" for y :: char
      using nat_of_char_less_256[of y] by (intro mod_less) (erule less_trans, simp)
    ultimately show "x = c" by (simp add: unat_of_nat take_bit_eq_mod)
  qed simp
  then show ?thesis by (auto simp: qs_def image_iff)
qed

definition tag_text :: "string \<Rightarrow> bool" where
  "tag_text s \<longleftrightarrow> s \<noteq> [] \<and> hd s = CHR ''<'' \<and> CHR ''<'' \<notin> set (tl s) \<and> CHR ''*'' \<notin> set s \<and> CHR 0x60 \<notin> set s
     \<and> last s = CHR ''>'' \<and> CHR ''>'' \<notin> set (butlast s)"

definition tag_like :: "qstring \<Rightarrow> bool" where "tag_like t \<longleftrightarrow> (\<exists>s. t = qs s \<and> tag_text s)"

lemma tag_likeI: "tag_text s \<Longrightarrow> tag_like (qs s)"
  by (auto simp: tag_like_def)

lemma own_tags_like: "list_all tag_like own_tags"
  unfolding own_tags_def tag_defs list.pred_inject by (intro conjI list.pred_inject(1); (rule tag_likeI, code_simp))

lemma tag_like_marks: "tag_like t \<Longrightarrow> 0x2A \<notin> set t \<and> 0x60 \<notin> set t \<and> (\<exists>r. t = 60 # r \<and> 60 \<notin> set r)"
proof -
  assume "tag_like t"
  then obtain s where s: "t = qs s" "tag_text s" by (auto simp: tag_like_def)
  then obtain r where r: "s = CHR ''<'' # r" "CHR ''<'' \<notin> set r" by (cases s) (auto simp: tag_text_def)
  show ?thesis using s r qs_mem[of "CHR ''*''" s] qs_mem[of "CHR 0x60" s] qs_mem[of "CHR ''<''" r]
    by (auto simp: tag_text_def qs_def)
qed

lemma own_tag [simp]: "t \<in> set own_tags \<Longrightarrow> only_tags own_tags t"
proof -
  assume t: "t \<in> set own_tags"
  then have "tag_like t" using own_tags_like by (auto simp: list_all_iff)
  then obtain r where "t = 60 # r" "60 \<notin> set r" using tag_like_marks by blast
  then show ?thesis using t by (auto simp: list_ex_iff only_tags_plain intro: bexI[of _ t])
qed

lemma own_marks: "\<forall>t\<in>set own_tags. 0x2A \<notin> set t" "\<forall>t\<in>set own_tags. 0x60 \<notin> set t"
  using own_tags_like tag_like_marks by (auto simp: list_all_iff)

lemma each_own_tag [simp]:
  "only_tags own_tags bold_open" "only_tags own_tags bold_close" "only_tags own_tags italic_open"
  "only_tags own_tags italic_close" "only_tags own_tags code_open" "only_tags own_tags code_close"
  "only_tags own_tags badge_open" "only_tags own_tags block_open" "only_tags own_tags pre_open"
  "only_tags own_tags pre_close" "only_tags own_tags div_close" "only_tags own_tags h4_open"
  "only_tags own_tags h4_close" "only_tags own_tags h3_open" "only_tags own_tags h3_close"
  "only_tags own_tags h2_open" "only_tags own_tags h2_close" "only_tags own_tags gap_open"
  "only_tags own_tags bullet_open" "only_tags own_tags point_open" "only_tags own_tags span_close"
  "only_tags own_tags line_open"
  by (rule own_tag, simp add: own_tags_def)+

lemma code_block_tags: "only_tags own_tags badge \<Longrightarrow> only_tags own_tags (code_block badge content)"
  by (auto simp: code_block_def esc_has_no_tag intro!: only_tags_append)

lemma inline_tags: "only_tags own_tags s \<Longrightarrow> only_tags own_tags (inline_marks s)"
  unfolding inline_marks_def by (intro replace_keeps_tags) (use own_marks in simp_all)

lemma plain_line_tags: "only_tags own_tags (plain_line line)"
proof -
  have "only_tags own_tags (text_line line)"
    unfolding text_line_def Let_def q_mid_def
    by (auto simp: qs_def esc_has_no_tag intro!: only_tags_append only_tags_drop inline_tags)
  then show ?thesis unfolding plain_line_def by (auto simp: esc_has_no_tag intro!: only_tags_append)
qed

lemma markdown_line_tags: "only_tags own_tags (md_html m) \<Longrightarrow> only_tags own_tags (md_html (markdown_line m line))"
  by (auto simp: markdown_line_def lang_badge_def esc_has_no_tag plain_line_tags intro!: only_tags_append code_block_tags)

text \<open>
  C29: no text brings its own tags: whatever the user or the voice wrote, every opening bracket in what
  the formatter gives to the window begins one of its own twenty-two tags, also where the marks of
  bold, italic and code overlap, in code blocks that are never closed and in bullets that are cut.
\<close>

theorem markup_is_own: "only_tags own_tags (formatMarkdown raw)"
proof -
  have "only_tags own_tags (md_html (foldl markdown_line m ls))" if "only_tags own_tags (md_html m)" for m ls
    using that by (induction ls arbitrary: m) (simp_all add: markdown_line_tags)
  then show ?thesis unfolding formatMarkdown_def Let_def by (auto intro!: code_block_tags)
qed

section \<open>What the window shows\<close>

text \<open>A reader of the result: tags are skipped, the four entities are the signs they stand for.\<close>

fun shown :: "bool \<Rightarrow> qstring \<Rightarrow> qstring" where
  "shown tag [] = []"
| "shown tag (u # us) =
     (if tag then shown (u \<noteq> 62) us
      else if u = 60 then shown True us
      else if prefix (qs ''&lt;'') (u # us) then 60 # shown False (drop 3 us)
      else if prefix (qs ''&gt;'') (u # us) then 62 # shown False (drop 3 us)
      else if prefix (qs ''&amp;'') (u # us) then 38 # shown False (drop 4 us)
      else if prefix (qs ''&quot;'') (u # us) then 34 # shown False (drop 5 us)
      else u # shown False us)"

text \<open>A line without marks: no emphasis, no code, not a heading, not a point of a list, not blank.\<close>

definition unmarked :: "qstring \<Rightarrow> bool" where
  "unmarked line \<longleftrightarrow> 0x2A \<notin> set line \<and> 0x60 \<notin> set line \<and> trimmed line \<noteq> [] \<and> \<not> prefix (qs ''- '') (trimmed line)
     \<and> \<not> prefix (qs ''# '') line \<and> \<not> prefix (qs ''## '') line \<and> \<not> prefix (qs ''### '') line"

lemma shown_esc: "shown False (esc s @ rest) = s @ shown False rest"
proof (induction s)
  case (Cons u s)
  have "shown False (esc_unit u @ esc s @ rest) = u # shown False (esc s @ rest)"
    by (auto simp: esc_unit_def qs_def)
  then show ?case using Cons by (simp add: esc_def)
qed (simp add: esc_def)

lemma shown_in_tag: "62 \<notin> set t \<Longrightarrow> shown True (t @ 62 # rest) = shown False rest"
  by (induction t) auto

lemma shown_own_tag [simp]: "t \<in> set own_tags \<Longrightarrow> shown False (t @ rest) = shown False rest"
proof -
  assume "t \<in> set own_tags"
  then obtain s where s: "t = qs s" "tag_text s" using own_tags_like by (auto simp: list_all_iff tag_like_def)
  then obtain r where r: "s = CHR ''<'' # r" by (cases s) (auto simp: tag_text_def)
  then have "r \<noteq> []" "last r = CHR ''>''" using s(2) by (auto simp: tag_text_def split: if_splits)
  then obtain m where m: "r = m @ [CHR ''>'']" by (metis append_butlast_last_id)
  then have "62 \<notin> set (qs m)" using s(2) r qs_mem[of "CHR ''>''" m] by (simp add: tag_text_def)
  moreover have "t = 60 # qs m @ [62]" using s(1) r m by (simp add: qs_def)
  ultimately show ?thesis by (simp add: shown_in_tag)
qed

lemma replace_none: "hd d \<notin> set s \<Longrightarrow> d \<noteq> [] \<Longrightarrow> replace_marked d before after s = s"
proof (induction s)
  case (Cons u us)
  then have "\<not> prefix d (u # us)" by (cases d) auto
  with Cons show ?case by simp
qed simp

lemma esc_marks: "u \<in> set (esc s) \<Longrightarrow> u = 0x2A \<or> u = 0x60 \<Longrightarrow> u \<in> set s"
  by (auto simp: esc_def esc_unit_def qs_def split: if_splits)

lemma unmarked_line: "unmarked line \<Longrightarrow> plain_line line = line_open @ esc line @ div_close \<and> \<not> prefix fence (trimmed line)"
proof -
  assume u: "unmarked line"
  have sub: "set (trimmed line) \<subseteq> set line"
    unfolding trimmed_def by (metis set_dropWhileD set_rev subsetI)
  have inl: "inline_marks (esc line) = esc line"
    unfolding inline_marks_def using u esc_marks[of _ line]
    by (subst replace_none; (fastforce simp: unmarked_def)?)+
  have "\<not> prefix (qs ''* '') (trimmed line)" "\<not> prefix fence (trimmed line)"
    using u sub by (cases "trimmed line"; auto simp: unmarked_def qs_def fence_def)+
  with inl u show ?thesis by (simp add: plain_line_def text_line_def unmarked_def)
qed



text \<open>
  A point of a list that begins with a star and has an emphasis loses its text: the star is taken for
  the begin of the emphasis, and the cut goes to the next star, or one unit into the tag.
\<close>

lemma starred_point_is_lost:
  "shown False (formatMarkdown (qs ''* buy *milk*'')) = [0x2022, 32]"
  "shown False (formatMarkdown (qs ''* milk*'')) = [0x2022, 32] @ qs ''i style=\"color:#b0c4de;\"> milk''"
  by code_simp+

end
