(* ===== verification/Ui_Approval.thy ===== *)
theory Ui_Approval
  imports Ui_Text Tool_Engine
begin

text \<open>
  The approval gate of the chat window (\<^verbatim>\<open>handleApproval\<close>, \<^verbatim>\<open>resolvePendingApproval\<close> and their cards
  in \<^verbatim>\<open>src/src/lina_ui.cpp\<close>): any number of threads that ask and the thread of the window, whose
  events wait in a queue.  A call has a number and its request is an argument.  One step is one access
  to what the threads share; \<^verbatim>\<open>resolvePendingApproval\<close> runs as one step, since what another thread does
  in between is the same before or after it.  A step has a label, and a run is the list of its labels.
\<close>

section \<open>The state\<close>

text \<open>
  Where a call is: it has claimed the gate; it waits for the promise of the number; its wait has timed
  out; it has cleared the flag; it has returned; its \<^verbatim>\<open>get_future\<close> has thrown.
\<close>

datatype phase = Outside | Entered | Waiting nat | Expired | Cleared | Returned approval_decision | Broken

datatype posted = Show nat | Remove

text \<open>
  \<^verbatim>\<open>approval_promise_\<close> is a number; a promise has a value or not, and its future was taken or not.
  The cards are the numbers of their calls; bubbles and log lines are in the order they were made.
\<close>

record gate =
  gt_auto :: bool
  gt_pending :: bool
  gt_promise :: nat
  gt_values :: "nat \<Rightarrow> approval_decision option"
  gt_taken :: "nat set"
  gt_posted :: "posted list"
  gt_cards :: "nat list"
  gt_bubbles :: "(qstring \<times> qstring) list"
  gt_log :: "(qstring \<times> qstring \<times> qstring) list"
  gt_calls :: "nat \<Rightarrow> phase"

definition new_gate :: gate where
  "new_gate = \<lparr>gt_auto = False, gt_pending = False, gt_promise = 0, gt_values = (\<lambda>_. None), gt_taken = {}, gt_posted = [],
     gt_cards = [], gt_bubbles = [], gt_log = [], gt_calls = (\<lambda>_. Outside)\<rparr>"

definition call_at :: "nat \<Rightarrow> phase \<Rightarrow> gate \<Rightarrow> gate" where
  "call_at n ph s = s\<lparr>gt_calls := (gt_calls s)(n := ph)\<rparr>"

definition gate_bubble :: "qstring \<Rightarrow> gate \<Rightarrow> gate" where
  "gate_bubble html s = s\<lparr>gt_bubbles := gt_bubbles s @ [(qs ''system'', html)]\<rparr>"

definition gate_log :: "qstring \<Rightarrow> gate \<Rightarrow> gate" where
  "gate_log message s = s\<lparr>gt_log := gt_log s @ [(qs ''ui'', qs ''info'', message)]\<rparr>"

section \<open>The thread of the window\<close>

definition approved_text :: qstring where "approved_text = [0x2714] @ qs '' Approved '' @ [0x2014] @ qs '' the action may proceed.''"
definition denied_text :: qstring where "denied_text = [0x2716] @ qs '' Denied '' @ [0x2014] @ qs '' the action is declined.''"
definition timed_out_text :: qstring where "timed_out_text = [0x23F1] @ qs '' Approval timed out '' @ [0x2014] @ qs '' action declined.''"

definition removeApprovalCard :: "gate \<Rightarrow> gate" where "removeApprovalCard s = s\<lparr>gt_cards := []\<rparr>"

definition resolvePendingApproval :: "bool \<Rightarrow> gate \<Rightarrow> gate" where
  "resolvePendingApproval approve s =
     (if \<not> gt_pending s then s else
      let s1 = removeApprovalCard (s\<lparr>gt_pending := False\<rparr>);
          s2 = (if approve then gate_log (qs ''approval resolved=approved'') (gate_bubble approved_text s1)
                else gate_log (qs ''approval resolved=denied'') (gate_bubble denied_text s1))
      in case gt_values s2 (gt_promise s2) of
           Some d \<Rightarrow> s2
         | None \<Rightarrow> s2\<lparr>gt_values := (gt_values s2)(gt_promise s2 \<mapsto> (if approve then Approved else Denied))\<rparr>)"

text \<open>\<open>decode\<close> is \<^verbatim>\<open>QString::fromStdString\<close>.\<close>

definition showApprovalCard :: "(string \<Rightarrow> qstring) \<Rightarrow> nat \<Rightarrow> approval_request \<Rightarrow> gate \<Rightarrow> gate" where
  "showApprovalCard decode n r s =
     (gate_bubble ([0x23F8] @ qs '' Action requested '' @ [0x2014] @ qs '' tool <b>'' @ esc (decode (ap_tool_name r)) @ qs ''</b>: ''
                   @ esc (decode (ap_description r))) s)\<lparr>gt_cards := gt_cards s @ [n]\<rparr>"

definition run_posted :: "(string \<Rightarrow> qstring) \<Rightarrow> (nat \<Rightarrow> approval_request) \<Rightarrow> posted \<Rightarrow> gate \<Rightarrow> gate" where
  "run_posted decode rq e s =
     (case e of Show n \<Rightarrow> showApprovalCard decode n (rq n) s
              | Remove \<Rightarrow> gate_bubble timed_out_text (removeApprovalCard s))"

section \<open>The threads that ask\<close>

definition auto_text :: "(string \<Rightarrow> qstring) \<Rightarrow> approval_request \<Rightarrow> qstring" where
  "auto_text decode r =
     qs ''Action auto-approved id='' @ decode (ap_action_id r) @ qs '' tool='' @ decode (ap_tool_name r)"

definition claim_gate :: "nat \<Rightarrow> gate \<Rightarrow> gate" where
  "claim_gate n s =
     call_at n Entered (s\<lparr>gt_pending := True, gt_promise := gt_promise s + 1, gt_values := (gt_values s)(gt_promise s + 1 := None)\<rparr>)"

definition take_future :: "nat \<Rightarrow> gate \<Rightarrow> gate" where
  "take_future n s =
     call_at n (Waiting (gt_promise s))
       (s\<lparr>gt_taken := insert (gt_promise s) (gt_taken s), gt_posted := gt_posted s @ [Show n]\<rparr>)"

datatype gate_label =
    Auto nat | Refused nat | Asks nat | Posts nat | Breaks nat | Gets nat approval_decision
  | Expires nat | Clears nat | Tells nat | Runs posted | Clicks nat bool | Resolves bool | Sets bool

inductive gate_step ::
  "(string \<Rightarrow> qstring) \<Rightarrow> (nat \<Rightarrow> approval_request) \<Rightarrow> gate \<Rightarrow> gate_label \<Rightarrow> gate \<Rightarrow> bool"
  for decode rq where
  auto_approved: "gt_calls s n = Outside \<Longrightarrow> gt_auto s \<Longrightarrow>
     gate_step decode rq s (Auto n) (call_at n (Returned Approved) (gate_log (auto_text decode (rq n)) s))"
| refused: "gt_calls s n = Outside \<Longrightarrow> \<not> gt_auto s \<Longrightarrow> gt_pending s \<Longrightarrow>
     gate_step decode rq s (Refused n) (call_at n (Returned Denied) s)"
| asks: "gt_calls s n = Outside \<Longrightarrow> \<not> gt_auto s \<Longrightarrow> \<not> gt_pending s \<Longrightarrow> gate_step decode rq s (Asks n) (claim_gate n s)"
| posts: "gt_calls s n = Entered \<Longrightarrow> gt_promise s \<notin> gt_taken s \<Longrightarrow> gate_step decode rq s (Posts n) (take_future n s)"
| breaks: "gt_calls s n = Entered \<Longrightarrow> gt_promise s \<in> gt_taken s \<Longrightarrow> gate_step decode rq s (Breaks n) (call_at n Broken s)"
| gets: "gt_calls s n = Waiting g \<Longrightarrow> gt_values s g = Some d \<Longrightarrow> gate_step decode rq s (Gets n d) (call_at n (Returned d) s)"
| expires: "gt_calls s n = Waiting g \<Longrightarrow> gt_values s g = None \<Longrightarrow> gate_step decode rq s (Expires n) (call_at n Expired s)"
| clears: "gt_calls s n = Expired \<Longrightarrow> gate_step decode rq s (Clears n) (call_at n Cleared (s\<lparr>gt_pending := False\<rparr>))"
| tells: "gt_calls s n = Cleared \<Longrightarrow>
     gate_step decode rq s (Tells n) (call_at n (Returned TimedOut) (s\<lparr>gt_posted := gt_posted s @ [Remove]\<rparr>))"
| runs: "gt_posted s = e # es \<Longrightarrow> gate_step decode rq s (Runs e) (run_posted decode rq e (s\<lparr>gt_posted := es\<rparr>))"
| clicks: "n \<in> set (gt_cards s) \<Longrightarrow> gate_step decode rq s (Clicks n b) (resolvePendingApproval b s)"
| resolves: "gate_step decode rq s (Resolves b) (resolvePendingApproval b s)"
| sets: "gate_step decode rq s (Sets b) (s\<lparr>gt_auto := b\<rparr>)"

inductive gate_run :: "(string \<Rightarrow> qstring) \<Rightarrow> (nat \<Rightarrow> approval_request) \<Rightarrow> gate_label list \<Rightarrow> gate \<Rightarrow> bool"
  for decode rq where
  no_label: "gate_run decode rq [] new_gate"
| one_more: "gate_run decode rq es s \<Longrightarrow> gate_step decode rq s e t \<Longrightarrow> gate_run decode rq (es @ [e]) t"

inductive_cases gate_stepE: "gate_step decode rq s e t"

lemmas gate_ops = call_at_def gate_bubble_def gate_log_def removeApprovalCard_def resolvePendingApproval_def
  showApprovalCard_def run_posted_def claim_gate_def take_future_def

section \<open>An approval needs a human\<close>

fun human :: "gate_label \<Rightarrow> bool" where
  "human (Clicks n b) = b"
| "human (Resolves b) = b"
| "human _ = False"

definition acted :: "nat \<Rightarrow> gate_label list \<Rightarrow> bool" where
  "acted n es \<longleftrightarrow> (\<exists>xs ys. es = xs @ Asks n # ys \<and> list_ex human ys)"

lemma acted_more: "acted n es \<Longrightarrow> acted n (es @ [e])"
proof -
  assume "acted n es"
  then obtain xs ys where "es = xs @ Asks n # ys" "list_ex human ys" by (auto simp: acted_def)
  then have "es @ [e] = xs @ Asks n # (ys @ [e])" "list_ex human (ys @ [e])" by simp_all
  then show ?thesis unfolding acted_def by blast
qed

lemma acts_now: "Asks n \<in> set es \<Longrightarrow> human e \<Longrightarrow> acted n (es @ [e])"
proof -
  assume "Asks n \<in> set es" "human e"
  then obtain xs ys where "es = xs @ Asks n # ys" by (meson split_list)
  then have "es @ [e] = xs @ Asks n # (ys @ [e])" "list_ex human (ys @ [e])" using \<open>human e\<close> by simp_all
  then show ?thesis unfolding acted_def by blast
qed

definition asked_for :: "gate_label list \<Rightarrow> gate \<Rightarrow> nat \<Rightarrow> bool" where
  "asked_for es s n \<longleftrightarrow>
     (gt_calls s n = Entered \<longrightarrow> Asks n \<in> set es \<and> (gt_values s (gt_promise s) = Some Approved \<longrightarrow> acted n es))
     \<and> (\<forall>g. gt_calls s n = Waiting g \<longrightarrow> Asks n \<in> set es \<and> (gt_values s g = Some Approved \<longrightarrow> acted n es) \<and> g \<le> gt_promise s)
     \<and> (gt_calls s n = Returned Approved \<longrightarrow> Auto n \<in> set es \<or> acted n es)"

lemma resolve_asked:
  assumes "asked_for es s n" "human e \<longleftrightarrow> b"
  shows "asked_for (es @ [e]) (resolvePendingApproval b s) n"
  using assms acted_more[of n es e] acts_now[of n es e]
  by (auto simp: asked_for_def gate_ops Let_def split: option.splits if_splits)

lemma step_asked:
  assumes "gate_step decode rq s e t" "\<forall>n. asked_for es s n" shows "asked_for (es @ [e]) t n"
  using assms(1)
proof (cases rule: gate_step.cases)
  case (clicks m b)
  then show ?thesis using resolve_asked assms(2) by simp
next
  case (resolves b)
  then show ?thesis using resolve_asked assms(2) by simp
next
  case (asks m)
  then show ?thesis using assms(2) by (auto simp: asked_for_def gate_ops acted_more) (metis le_SucI)
qed (use assms(2) in \<open>auto simp: asked_for_def gate_ops acted_more split: posted.splits\<close>)

text \<open>
  C10: no approval without a human: in every run, whatever the threads and the window do between each
  other and however many calls there are, a call that returned Approved was approved by the setting
  for automatic approval when it asked, or a human approved after it had asked.
\<close>

theorem approval_needs_human:
  assumes "gate_run decode rq es s" and "gt_calls s n = Returned Approved"
  shows "Auto n \<in> set es \<or> acted n es"
proof -
  have "\<forall>n. asked_for es s n" using assms(1)
  proof (induction rule: gate_run.induct)
    case no_label
    show ?case by (simp add: asked_for_def new_gate_def)
  next
    case (one_more es s e t)
    then show ?case using step_asked by blast
  qed
  then show ?thesis using assms(2) by (auto simp: asked_for_def)
qed

section \<open>Whose card it was\<close>

text \<open>Only the cards decide, and no wait runs out.\<close>

fun in_time :: "gate_label \<Rightarrow> bool" where
  "in_time (Expires n) = False"
| "in_time (Resolves b) = False"
| "in_time _ = True"

definition clicked_for :: "gate_label list \<Rightarrow> nat \<Rightarrow> approval_decision \<Rightarrow> bool" where
  "clicked_for es n d \<longleftrightarrow> d = Approved \<and> Clicks n True \<in> set es \<or> d = Denied \<and> Clicks n False \<in> set es"

lemma clicked_for_more [intro]: "clicked_for es n d \<Longrightarrow> clicked_for (es @ [e]) n d"
  by (auto simp: clicked_for_def)

text \<open>The one call that is open, and where its card is.\<close>

definition open_call :: "gate \<Rightarrow> nat \<Rightarrow> bool" where
  "open_call s n \<longleftrightarrow>
     (gt_calls s n = Entered \<and> gt_posted s = [] \<and> gt_cards s = []
      \<or> gt_calls s n = Waiting (gt_promise s) \<and> (gt_posted s = [Show n] \<and> gt_cards s = [] \<or> gt_posted s = [] \<and> gt_cards s = [n]))
     \<and> gt_values s (gt_promise s) = None \<and> (\<forall>m. m \<noteq> n \<longrightarrow> gt_calls s m \<noteq> Entered)"

definition one_open :: "gate \<Rightarrow> bool" where
  "one_open s \<longleftrightarrow>
     (if gt_pending s then \<exists>n. open_call s n else gt_posted s = [] \<and> gt_cards s = [] \<and> (\<forall>n. gt_calls s n \<noteq> Entered))
     \<and> (\<forall>n. gt_calls s n \<noteq> Expired \<and> gt_calls s n \<noteq> Cleared)
     \<and> (\<forall>n g. gt_calls s n = Waiting g \<longrightarrow> g \<in> gt_taken s)
     \<and> (\<forall>n m g. gt_calls s n = Waiting g \<longrightarrow> gt_calls s m = Waiting g \<longrightarrow> m = n)
     \<and> (\<forall>g. g \<in> gt_taken s \<longrightarrow> g \<le> gt_promise s \<and> (\<forall>n. gt_calls s n = Entered \<longrightarrow> g \<noteq> gt_promise s))"

lemma click_open:
  assumes "one_open s" "n \<in> set (gt_cards s)"
  shows "gt_pending s" "open_call s n" "gt_calls s n = Waiting (gt_promise s)" "gt_posted s = []"
    "gt_values s (gt_promise s) = None" "gt_calls s m \<noteq> Entered"
proof -
  show p: "gt_pending s" using assms by (auto simp: one_open_def split: if_splits)
  then obtain k where k: "open_call s k" using assms(1) by (auto simp: one_open_def)
  moreover from k have "gt_cards s = [] \<or> gt_cards s = [k]" by (auto simp: open_call_def)
  then have "k = n" using assms(2) by auto
  ultimately show "open_call s n" "gt_calls s n = Waiting (gt_promise s)" "gt_posted s = []"
    "gt_values s (gt_promise s) = None" "gt_calls s m \<noteq> Entered"
    using assms(2) by (cases "m = n"; auto simp: open_call_def)+
qed

text \<open>What a click does when its card is the open one.\<close>

lemma resolve_open:
  assumes "gt_pending s" "gt_values s (gt_promise s) = None"
  shows "\<not> gt_pending (resolvePendingApproval b s)" "gt_cards (resolvePendingApproval b s) = []"
    "gt_posted (resolvePendingApproval b s) = gt_posted s" "gt_calls (resolvePendingApproval b s) = gt_calls s"
    "gt_promise (resolvePendingApproval b s) = gt_promise s" "gt_taken (resolvePendingApproval b s) = gt_taken s"
    "gt_values (resolvePendingApproval b s) = (gt_values s)(gt_promise s \<mapsto> if b then Approved else Denied)"
  using assms by (simp_all add: gate_ops Let_def)

lemma done_open:
  assumes "one_open s" "\<And>x. gt_pending s \<Longrightarrow> open_call s x \<Longrightarrow> n \<noteq> x" "ph = Returned d"
  shows "one_open (call_at n ph s)"
proof -
  have "\<exists>x. open_call (call_at n ph s) x" if p: "gt_pending s"
  proof -
    obtain x where x: "open_call s x" using p assms(1) by (auto simp: one_open_def)
    then have "open_call (call_at n ph s) x" using assms(2)[OF p x] assms(3) by (auto simp: open_call_def call_at_def)
    then show ?thesis by blast
  qed
  then show ?thesis using assms(1,3) by (auto simp: one_open_def call_at_def)
qed

lemma open_call_fields [simp]: "open_call (s\<lparr>gt_auto := b\<rparr>) = open_call s" "open_call (call_at n ph (gate_log m s)) = open_call (call_at n ph s)"
  by (rule ext, simp add: open_call_def call_at_def gate_log_def)+

lemma one_open_fields [simp]:
  "one_open (s\<lparr>gt_auto := b\<rparr>) \<longleftrightarrow> one_open s" "one_open (call_at n ph (gate_log m s)) \<longleftrightarrow> one_open (call_at n ph s)"
  unfolding one_open_def open_call_fields by (simp_all add: call_at_def gate_log_def)

lemma one_open_step:
  assumes "gate_step decode rq s e t" "one_open s" "in_time e" shows "one_open t"
  using assms(1)
proof (cases rule: gate_step.cases)
  case (clicks m b)
  note c = click_open[OF assms(2) clicks(3)]
  have k: "gt_calls s k \<noteq> Entered" for k using click_open(6)[OF assms(2) clicks(3)] .
  show ?thesis using assms(2) c(1,4,5) k unfolding one_open_def clicks(2) by (simp add: resolve_open)
next
  case (asks n)
  have "open_call t n" using assms(2) asks by (auto simp: one_open_def open_call_def gate_ops)
  then show ?thesis using assms(2) asks by (fastforce simp: one_open_def gate_ops le_Suc_eq)
next
  case (posts n)
  have p: "gt_pending s" using assms(2) posts(3) by (auto simp: one_open_def split: if_splits)
  then obtain k where "open_call s k" using assms(2) by (auto simp: one_open_def)
  then have k: "open_call s n" using posts(3) by (cases "k = n") (auto simp: open_call_def)
  then have o: "open_call t n" using posts(2,3) by (auto simp: open_call_def gate_ops)
  have "gt_calls s m \<noteq> Waiting (gt_promise s)" for m using assms(2) posts(4) by (auto simp: one_open_def)
  then show ?thesis using assms(2) posts p o k by (auto simp: one_open_def gate_ops open_call_def)
next
  case (runs e' es)
  then have p: "gt_pending s" using assms(2) by (auto simp: one_open_def split: if_splits)
  then obtain k where k: "open_call s k" using assms(2) by (auto simp: one_open_def)
  then have r: "gt_posted s = [Show k]" "gt_cards s = []" "gt_calls s k = Waiting (gt_promise s)"
    using runs(3) by (auto simp: open_call_def)
  then have e: "e' = Show k" "es = []" using runs(3) by simp_all
  have t: "gt_pending t = gt_pending s" "gt_calls t = gt_calls s" "gt_promise t = gt_promise s" "gt_taken t = gt_taken s"
    using runs(2) e by (simp_all add: gate_ops)
  have "open_call t k" using k r runs(2) e by (auto simp: open_call_def gate_ops)
  then show ?thesis using assms(2) p unfolding one_open_def t by auto
next
  case (auto_approved n)
  have "one_open (call_at n (Returned Approved) s)"
    by (rule done_open[OF assms(2) _ refl]) (use auto_approved(3) in \<open>auto simp: open_call_def\<close>)
  then show ?thesis unfolding auto_approved(2) by simp
next
  case (refused n)
  show ?thesis unfolding refused(2)
    by (rule done_open[OF assms(2) _ refl]) (use refused(3) in \<open>auto simp: open_call_def\<close>)
next
  case (gets n g d)
  show ?thesis unfolding gets(2)
    by (rule done_open[OF assms(2) _ refl]) (use gets(3,4) in \<open>auto simp: open_call_def\<close>)
next
  case (breaks n)
  then show ?thesis using assms(2) by (auto simp: one_open_def)
next
  case (sets b)
  then show ?thesis using assms(2) by simp
qed (use assms(2,3) in \<open>auto simp: one_open_def\<close>)

text \<open>What the calls have, once asked.\<close>

definition answered :: "gate_label list \<Rightarrow> nat \<Rightarrow> approval_decision \<Rightarrow> bool" where
  "answered es n d \<longleftrightarrow> clicked_for es n d \<or> d = Approved \<and> Auto n \<in> set es \<or> d = Denied \<and> Refused n \<in> set es"

lemma answered_more [intro]:
  "answered es n d \<Longrightarrow> answered (es @ [e]) n d" "clicked_for es n d \<Longrightarrow> answered (es @ [e]) n d"
  "answered (es @ [Auto n]) n Approved" "answered (es @ [Refused n]) n Denied"
  by (auto simp: answered_def)

definition well_decided :: "gate_label list \<Rightarrow> gate \<Rightarrow> bool" where
  "well_decided es s \<longleftrightarrow>
     (\<forall>n g d. gt_calls s n = Waiting g \<longrightarrow> gt_values s g = Some d \<longrightarrow> clicked_for es n d)
     \<and> (\<forall>n d. gt_calls s n = Returned d \<longrightarrow> answered es n d)"

lemma well_decided_step:
  assumes "gate_step decode rq s e t" "one_open s" "well_decided es s" "in_time e" shows "well_decided (es @ [e]) t"
  using assms(1)
proof (cases rule: gate_step.cases)
  case (clicks m b)
  note c = click_open[OF assms(2) clicks(3)]
  have m: "n = m" if "gt_calls s n = Waiting (gt_promise s)" for n
    using assms(2) c(3) that by (auto simp: one_open_def)
  have d: "clicked_for (es @ [e]) m (if b then Approved else Denied)" using clicks(1) by (simp add: clicked_for_def)
  have "clicked_for (es @ [e]) n d'"
    if "gt_calls s n = Waiting g" "((gt_values s)(gt_promise s \<mapsto> if b then Approved else Denied)) g = Some d'" for n g d'
  proof (cases "g = gt_promise s")
    case True
    then show ?thesis using that m d by auto
  next
    case False
    then show ?thesis using that assms(3) by (auto simp: well_decided_def)
  qed
  then show ?thesis using assms(3) unfolding well_decided_def clicks(2) resolve_open[OF c(1,5)] by blast
next
  case (posts n)
  have v: "gt_values s (gt_promise s) = None"
  proof -
    have p: "gt_pending s" using assms(2) posts(3) by (auto simp: one_open_def split: if_splits)
    then show ?thesis using assms(2) by (auto simp: one_open_def open_call_def)
  qed
  show ?thesis using assms(3) posts(2) v by (auto simp: well_decided_def gate_ops)
next
  case (asks n)
  then show ?thesis using assms(2,3) by (auto simp: well_decided_def gate_ops)
next
  case (runs e' es')
  then show ?thesis using assms(3) by (auto simp: well_decided_def gate_ops split: posted.splits)
qed (use assms(2-4) in \<open>auto simp: well_decided_def one_open_def gate_ops\<close>)

text \<open>
  a card decides its own call: in a run in which no wait runs out and decisions come from the cards
  only, however many threads ask, the gate is clean when it is free, and a call that returned was
  decided by a click on the card of this very call, unless the setting approved it or the gate was taken.
\<close>

theorem card_decides_its_call:
  assumes "gate_run decode rq es s" and "list_all in_time es" and "gt_calls s n = Returned d"
  shows "(d = Approved \<and> (Clicks n True \<in> set es \<or> Auto n \<in> set es) \<or> d = Denied \<and> (Clicks n False \<in> set es \<or> Refused n \<in> set es))
     \<and> (\<not> gt_pending s \<longrightarrow> gt_cards s = [] \<and> gt_posted s = [])"
proof -
  have "one_open s \<and> well_decided es s" using assms(1,2)
  proof (induction rule: gate_run.induct)
    case no_label
    show ?case by (simp add: one_open_def well_decided_def new_gate_def)
  next
    case (one_more es s e t)
    then show ?case using one_open_step well_decided_step by auto
  qed
  then show ?thesis using assms(3) by (auto simp: one_open_def well_decided_def answered_def clicked_for_def)
qed

section \<open>The steps as a function\<close>

definition gate_next :: "(string \<Rightarrow> qstring) \<Rightarrow> (nat \<Rightarrow> approval_request) \<Rightarrow> gate \<Rightarrow> gate_label \<Rightarrow> gate option" where
  "gate_next decode rq s e =
     (case e of
        Auto n \<Rightarrow> if gt_calls s n = Outside \<and> gt_auto s
                  then Some (call_at n (Returned Approved) (gate_log (auto_text decode (rq n)) s)) else None
      | Refused n \<Rightarrow> if gt_calls s n = Outside \<and> \<not> gt_auto s \<and> gt_pending s then Some (call_at n (Returned Denied) s) else None
      | Asks n \<Rightarrow> if gt_calls s n = Outside \<and> \<not> gt_auto s \<and> \<not> gt_pending s then Some (claim_gate n s) else None
      | Posts n \<Rightarrow> if gt_calls s n = Entered \<and> gt_promise s \<notin> gt_taken s then Some (take_future n s) else None
      | Breaks n \<Rightarrow> if gt_calls s n = Entered \<and> gt_promise s \<in> gt_taken s then Some (call_at n Broken s) else None
      | Gets n d \<Rightarrow> (case gt_calls s n of
                        Waiting g \<Rightarrow> if gt_values s g = Some d then Some (call_at n (Returned d) s) else None
                      | _ \<Rightarrow> None)
      | Expires n \<Rightarrow> (case gt_calls s n of
                        Waiting g \<Rightarrow> if gt_values s g = None then Some (call_at n Expired s) else None
                      | _ \<Rightarrow> None)
      | Clears n \<Rightarrow> if gt_calls s n = Expired then Some (call_at n Cleared (s\<lparr>gt_pending := False\<rparr>)) else None
      | Tells n \<Rightarrow> if gt_calls s n = Cleared
                   then Some (call_at n (Returned TimedOut) (s\<lparr>gt_posted := gt_posted s @ [Remove]\<rparr>)) else None
      | Runs p \<Rightarrow> (case gt_posted s of
                     q # rest \<Rightarrow> if p = q then Some (run_posted decode rq q (s\<lparr>gt_posted := rest\<rparr>)) else None
                   | [] \<Rightarrow> None)
      | Clicks n b \<Rightarrow> if n \<in> set (gt_cards s) then Some (resolvePendingApproval b s) else None
      | Resolves b \<Rightarrow> Some (resolvePendingApproval b s)
      | Sets b \<Rightarrow> Some (s\<lparr>gt_auto := b\<rparr>))"

lemma gate_step_next: "gate_next decode rq s e = Some t \<Longrightarrow> gate_step decode rq s e t"
  by (auto simp: gate_next_def intro: gate_step.intros split: gate_label.splits if_splits phase.splits list.splits)

fun gate_path :: "(string \<Rightarrow> qstring) \<Rightarrow> (nat \<Rightarrow> approval_request) \<Rightarrow> gate \<Rightarrow> gate_label list \<Rightarrow> gate option" where
  "gate_path decode rq s [] = Some s"
| "gate_path decode rq s (e # es) = (case gate_next decode rq s e of None \<Rightarrow> None | Some t \<Rightarrow> gate_path decode rq t es)"

lemma path_runs: "gate_run decode rq es s \<Longrightarrow> gate_path decode rq s ls = Some t \<Longrightarrow> gate_run decode rq (es @ ls) t"
proof (induction ls arbitrary: es s)
  case (Cons l ls)
  then obtain u where u: "gate_next decode rq s l = Some u" "gate_path decode rq u ls = Some t" by (auto split: option.splits)
  have "gate_run decode rq (es @ [l]) u" using Cons.prems(1) u(1) gate_step_next one_more by blast
  from Cons.IH[OF this u(2)] show ?case by simp
qed simp

section \<open>Cards that stay\<close>

definition stale_run :: "gate_label list" where
  "stale_run = [Asks 1, Posts 1, Runs (Show 1), Expires 1, Clears 1, Tells 1, Asks 2, Posts 2, Clicks 1 True, Gets 2 Approved]"

definition late_run :: "gate_label list" where
  "late_run = [Asks 1, Posts 1, Runs (Show 1), Expires 1, Clicks 1 True, Clears 1, Tells 1]"

lemmas gate_eval = gate_next_def gate_ops new_gate_def

text \<open>
  a card outlives its call: one thread asks, its wait runs out, it asks for something else, and
  before the window has taken the first card away a click on it approves the second call, whose card
  was never on the screen.  And a click that comes when the wait has just run out says in the window
  that the action may proceed, while the call returns that it timed out.
\<close>

theorem stale_card_approves:
  "(\<exists>s. gate_run decode rq stale_run s \<and> gt_calls s 1 = Returned TimedOut \<and> gt_calls s 2 = Returned Approved
      \<and> Runs (Show 2) \<notin> set stale_run \<and> Clicks 2 True \<notin> set stale_run \<and> Resolves True \<notin> set stale_run)
   \<and> (\<exists>s. gate_run decode rq late_run s \<and> gt_calls s 1 = Returned TimedOut \<and> (qs ''system'', approved_text) \<in> set (gt_bubbles s))"
proof -
  have p: "\<exists>s. gate_path decode rq new_gate stale_run = Some s \<and> gt_calls s 1 = Returned TimedOut \<and> gt_calls s 2 = Returned Approved"
    by (simp add: stale_run_def gate_eval)
  have q: "\<exists>s. gate_path decode rq new_gate late_run = Some s \<and> gt_calls s 1 = Returned TimedOut
      \<and> (qs ''system'', approved_text) \<in> set (gt_bubbles s)"
    by (simp add: late_run_def gate_eval)
  have n: "Runs (Show 2) \<notin> set stale_run \<and> Clicks 2 True \<notin> set stale_run \<and> Resolves True \<notin> set stale_run"
    by (simp add: stale_run_def)
  show ?thesis using p q n path_runs[OF no_label] by (metis append_Nil)
qed

section \<open>Every call can return\<close>

fun label_of :: "gate_label \<Rightarrow> nat option" where
  "label_of (Posts n) = Some n"
| "label_of (Breaks n) = Some n"
| "label_of (Gets n d) = Some n"
| "label_of (Expires n) = Some n"
| "label_of (Clears n) = Some n"
| "label_of (Tells n) = Some n"
| "label_of _ = None"

text \<open>
  no call is stuck: in every state of every run, a call that has asked comes back by at most four
  steps of its own, without the window and without any other thread: with a decision, or, when another
  call has taken the future of its promise, with an exception.
\<close>

theorem calls_can_return:
  assumes "gate_run decode rq es s" and "gt_calls s n \<noteq> Outside"
  shows "\<exists>ls t. length ls \<le> 4 \<and> list_all (\<lambda>e. label_of e = Some n) ls \<and> gate_run decode rq (es @ ls) t
     \<and> (gt_calls t n = Broken \<or> (\<exists>d. gt_calls t n = Returned d))"
proof -
  have waiting: "\<exists>ls t. length ls \<le> 3 \<and> list_all (\<lambda>e. label_of e = Some n) ls \<and> gate_path decode rq s ls = Some t
      \<and> (\<exists>d. gt_calls t n = Returned d)" if "gt_calls s n = Waiting g" for s g
  proof (cases "gt_values s g")
    case None
    then show ?thesis using that by (intro exI[of _ "[Expires n, Clears n, Tells n]"]) (simp add: gate_eval)
  next
    case (Some d)
    then show ?thesis using that by (intro exI[of _ "[Gets n d]"]) (simp add: gate_eval)
  qed
  have "\<exists>ls t. length ls \<le> 4 \<and> list_all (\<lambda>e. label_of e = Some n) ls \<and> gate_path decode rq s ls = Some t
      \<and> (gt_calls t n = Broken \<or> (\<exists>d. gt_calls t n = Returned d))"
  proof (cases "gt_calls s n")
    case Outside
    then show ?thesis using assms(2) by simp
  next
    case Entered
    show ?thesis
    proof (cases "gt_promise s \<in> gt_taken s")
      case True
      then show ?thesis using Entered by (intro exI[of _ "[Breaks n]"]) (simp add: gate_eval)
    next
      case False
      have "gt_calls (take_future n s) n = Waiting (gt_promise s)" by (simp add: gate_ops)
      from waiting[OF this] obtain ls t where l: "length ls \<le> 3" "list_all (\<lambda>e. label_of e = Some n) ls"
        "gate_path decode rq (take_future n s) ls = Some t" "\<exists>d. gt_calls t n = Returned d" by blast
      moreover have "gate_path decode rq s (Posts n # ls) = Some t" using False Entered l(3) by (simp add: gate_next_def)
      ultimately show ?thesis by (intro exI[of _ "Posts n # ls"] exI[of _ t]) simp
    qed
  next
    case (Waiting g)
    from waiting[OF this] obtain ls t where "length ls \<le> 3" "list_all (\<lambda>e. label_of e = Some n) ls"
        "gate_path decode rq s ls = Some t" "\<exists>d. gt_calls t n = Returned d" by blast
    then show ?thesis by (intro exI[of _ ls] exI[of _ t]) simp
  next
    case Expired
    then show ?thesis by (intro exI[of _ "[Clears n, Tells n]"]) (simp add: gate_eval)
  next
    case Cleared
    then show ?thesis by (intro exI[of _ "[Tells n]"]) (simp add: gate_eval)
  next
    case (Returned d)
    then show ?thesis by (intro exI[of _ "[]"]) simp
  next
    case Broken
    then show ?thesis by (intro exI[of _ "[]"]) simp
  qed
  then show ?thesis using path_runs[OF assms(1)] by blast
qed

text \<open>Witnesses: a call approved by its card, and a call that waits.\<close>

definition clicked_run :: "gate_label list" where "clicked_run = [Asks 1, Posts 1, Runs (Show 1), Clicks 1 True, Gets 1 Approved]"

definition some_request :: approval_request where
  "some_request = \<lparr>ap_action_id = ''act_1'', ap_tool_name = ''terminal.run'', ap_description = ''run ls'', ap_timeout_ms = 30000\<rparr>"

lemma clicked_state:
  "\<exists>s. gate_run qs (\<lambda>_. some_request) clicked_run s \<and> gt_calls s 1 = Returned Approved \<and> \<not> gt_pending s"
proof -
  have "\<exists>s. gate_path qs (\<lambda>_. some_request) new_gate clicked_run = Some s \<and> gt_calls s 1 = Returned Approved \<and> \<not> gt_pending s"
    by (simp add: clicked_run_def gate_eval)
  then show ?thesis using path_runs[OF no_label] by (metis append_Nil)
qed

theorem approval_needs_human_witness: "acted 1 clicked_run"
proof -
  obtain s where s: "gate_run qs (\<lambda>_. some_request) clicked_run s" "gt_calls s 1 = Returned Approved" using clicked_state by blast
  from approval_needs_human[OF s] show ?thesis by (simp add: clicked_run_def)
qed

theorem card_decides_its_call_witness:
  "\<exists>s. gate_run qs (\<lambda>_. some_request) clicked_run s \<and> Clicks 1 True \<in> set clicked_run \<and> gt_cards s = [] \<and> gt_posted s = []"
proof -
  obtain s where s: "gate_run qs (\<lambda>_. some_request) clicked_run s" "gt_calls s 1 = Returned Approved" "\<not> gt_pending s"
    using clicked_state by blast
  have t: "list_all in_time clicked_run" by (simp add: clicked_run_def)
  from card_decides_its_call[OF s(1) t s(2)] s show ?thesis by (auto simp: clicked_run_def)
qed

theorem calls_can_return_witness:
  "\<exists>ls t. gate_run qs (\<lambda>_. some_request) ([Asks 1, Posts 1] @ ls) t \<and> (gt_calls t 1 = Broken \<or> (\<exists>d. gt_calls t 1 = Returned d))"
proof -
  have "\<exists>s. gate_path qs (\<lambda>_. some_request) new_gate [Asks 1, Posts 1] = Some s \<and> gt_calls s 1 \<noteq> Outside"
    by (simp add: gate_eval)
  then obtain s where "gate_run qs (\<lambda>_. some_request) [Asks 1, Posts 1] s" "gt_calls s 1 \<noteq> Outside"
    using path_runs[OF no_label] by (metis append_Nil)
  from calls_can_return[OF this] show ?thesis by blast
qed

end
