(* ===== verification/Core_Text.thy ===== *)
theory Core_Text
  imports Memory_Rules
begin

text \<open>
  The text helpers of \<^verbatim>\<open>src/src/lina_core.cpp\<close>: the cleaning of texts for a frame, the greeting test,
  the similarity of two strings (the two-row Levenshtein table), and the test for a repeated or
  straying answer.  The table is proved to hold the edit distance.
\<close>

section \<open>Frame texts\<close>

definition im_open :: string where "im_open = ''<|im_''"

text \<open>The scan that drops chat-template markers.\<close>

fun strip_markers :: "nat \<Rightarrow> string \<Rightarrow> string" where
  "strip_markers (Suc fuel) (c # cs) =
     (if prefix im_open (c # cs) then
        (case find0 ''>'' (drop 6 (c # cs)) of
           None \<Rightarrow> strip_markers fuel (drop 6 (c # cs))
         | Some j \<Rightarrow> strip_markers fuel (drop (6 + j + 1) (c # cs)))
      else c # strip_markers fuel cs)"
| "strip_markers _ _ = []"

fun collapse :: "bool \<Rightarrow> string \<Rightarrow> string \<Rightarrow> string" where
  "collapse pending out [] = out"
| "collapse pending out (c # cs) =
     (if c \<in> {CHR '' '', CHR 0x09, CHR 0x0A, CHR 0x0D} then collapse True out cs
      else collapse False (out @ (if pending \<and> out \<noteq> [] then '' '' else []) @ [c]) cs)"

definition sanitize_frame_text :: "string \<Rightarrow> string" where
  "sanitize_frame_text text = collapse False [] (strip_markers (length text) text)"

definition zone_name :: "zone \<Rightarrow> string" where
  "zone_name z = (case z of Aligned \<Rightarrow> ''aligned'' | AcceptableVariance \<Rightarrow> ''variance'' | Violation \<Rightarrow> ''violation'')"

text \<open>The greeting expression: one of the greetings, marks, perhaps the name, marks.\<close>

definition greeting_words :: "string list" where
  "greeting_words = [''hello'', ''hi'', ''hi there'', ''hey'', ''greetings'', ''good morning'', ''good afternoon'', ''good evening'']"

definition mark :: "char \<Rightarrow> bool" where "mark c \<longleftrightarrow> c = CHR ''.'' \<or> c = CHR '','' \<or> c = CHR ''!''"

definition greeting_rest :: "string \<Rightarrow> bool" where
  "greeting_rest s =
     (let r = dropWhile mark s in r = [] \<or> prefix '' scott'' r \<and> dropWhile mark (drop 6 r) = [])"

definition opener_texts :: "string list" where
  "opener_texts = [''how can i assist'', ''how can i help'', ''how may i assist'', ''how may i help'', ''what can i do for you'']"

definition is_greeting_only :: "string \<Rightarrow> bool" where
  "is_greeting_only text =
     (let lower = lower_string text in
      list_ex (\<lambda>g. prefix g lower \<and> greeting_rest (drop (length g) lower)) greeting_words
      \<or> length text < 160 \<and> list_ex (\<lambda>p. find0 p lower \<noteq> None) opener_texts)"

section \<open>Numbers in the default format\<close>

text \<open>
  \<^verbatim>\<open>std::setprecision(p)\<close> without \<^verbatim>\<open>std::fixed\<close>: \<open>p\<close> significant digits, in the exponent form below
  \<open>10 ^ -4\<close> and from \<open>10 ^ p\<close> on, without trailing zeros.
\<close>

fun ilog10 :: "nat \<Rightarrow> rat \<Rightarrow> int" where
  "ilog10 0 q = 0"
| "ilog10 (Suc fuel) q = (if q < 1 then ilog10 fuel (q * 10) - 1 else if 10 \<le> q then ilog10 fuel (q / 10) + 1 else 0)"

definition drop_zeros :: "string \<Rightarrow> string" where
  "drop_zeros s = (let r = rev (dropWhile (\<lambda>c. c = CHR ''0'') (rev s)) in r)"

definition with_fraction :: "string \<Rightarrow> string \<Rightarrow> string" where
  "with_fraction a b = (if drop_zeros b = [] then a else a @ ''.'' @ drop_zeros b)"

definition general_digits :: "nat \<Rightarrow> int \<Rightarrow> nat \<Rightarrow> string" where
  "general_digits p e m =
     (let ds = pad_zeros p (string_of_nat m) in
      if e < - 4 \<or> int p \<le> e then
        with_fraction (take 1 ds) (drop 1 ds) @ (if e < 0 then ''e-'' else ''e+'') @ pad_zeros 2 (string_of_nat (nat \<bar>e\<bar>))
      else if e < 0 then with_fraction ''0'' (replicate (nat (- e) - 1) (CHR ''0'') @ ds)
      else with_fraction (take (nat e + 1) ds) (drop (nat e + 1) ds))"

definition general_string :: "nat \<Rightarrow> dbl \<Rightarrow> string" where
  "general_string p v =
     (case v of
        Fin q \<Rightarrow>
          if q = 0 then ''0'' else
          (let e = ilog10 700 \<bar>q\<bar>; m = nat (rne (\<bar>q\<bar> * 10 powi (int p - 1 - e)))
           in (if q < 0 then ''-'' else []) @
              (if 10 ^ p \<le> m then general_digits p (e + 1) (m div 10) else general_digits p e m))
      | PInf \<Rightarrow> ''inf'' | NInf \<Rightarrow> ''-inf'' | NaN \<Rightarrow> ''nan'')"

definition format_score :: "dbl \<Rightarrow> string" where
  "format_score v = general_string 3 v"

section \<open>Similarity\<close>

definition euclidean_distance :: "dbl list \<Rightarrow> dbl list \<Rightarrow> dbl" where
  "euclidean_distance a b =
     dsqrt (foldl (\<lambda>s i. let diff = dsub (a ! i) (b ! i) in dadd s (dmul diff diff)) (Fin 0) [0..<DIMENSION_COUNT])"

text \<open>One row of the table: the entries from left to right.\<close>

fun lev_row :: "char \<Rightarrow> nat \<Rightarrow> string \<Rightarrow> nat list \<Rightarrow> nat list" where
  "lev_row y left (x # xs) (diag # up # prev) =
     (let v = min (up + 1) (min (left + 1) (diag + (if x = y then 0 else 1))) in v # lev_row y v xs (up # prev))"
| "lev_row y left _ _ = []"

fun lev_rows :: "string \<Rightarrow> string \<Rightarrow> nat \<Rightarrow> nat list \<Rightarrow> nat list" where
  "lev_rows a [] j prev = prev"
| "lev_rows a (y # ys) j prev = lev_rows a ys (j + 1) (j # lev_row y j a prev)"

definition levenshtein :: "string \<Rightarrow> string \<Rightarrow> nat" where
  "levenshtein a b = last (lev_rows a b 1 [0..<length a + 1])"

definition string_similarity :: "string \<Rightarrow> string \<Rightarrow> dbl" where
  "string_similarity a b =
     (if a = [] \<and> b = [] then Fin 1
      else if a = [] \<or> b = [] then Fin 0
      else dsub (Fin 1) (ddiv (rnd (of_nat (levenshtein a b))) (rnd (of_nat (max (length a) (length b))))))"

definition is_flagged_response ::
  "string \<Rightarrow> dbl list \<Rightarrow> string list \<Rightarrow> dbl list list \<Rightarrow> dbl list \<Rightarrow> bool" where
  "is_flagged_response new_response new_coords previous_responses previous_coords anchor =
     (list_ex (\<lambda>(r, c). dless (lit (90/100)) (string_similarity new_response r)
                      \<or> dless (euclidean_distance new_coords c) (lit (10/100)))
        (zip previous_responses previous_coords)
      \<or> dless (Fin (1/2)) (euclidean_distance new_coords anchor))"

section \<open>The table holds the edit distance\<close>

text \<open>The least number of insertions, deletions and substitutions, read from the right.\<close>

fun edit :: "'a list \<Rightarrow> 'a list \<Rightarrow> nat" where
  "edit [] ys = length ys"
| "edit xs [] = length xs"
| "edit (x # xs) (y # ys) =
     min (edit xs (y # ys) + 1) (min (edit (x # xs) ys + 1) (edit xs ys + (if x = y then 0 else 1)))"

text \<open>The cell of the table for the first \<open>i\<close> letters of \<open>a\<close> and the letters \<open>b\<close>.\<close>

definition cell :: "'a list \<Rightarrow> nat \<Rightarrow> 'a list \<Rightarrow> nat" where
  "cell a i b = edit (rev (take i a)) (rev b)"

lemma edit_Nil2 [simp]: "edit xs [] = length xs"
  by (cases xs) simp_all

lemma cell_0: "cell a 0 b = length b"
  by (simp add: cell_def)

lemma cell_Nil: "i \<le> length a \<Longrightarrow> cell a i [] = i"
  by (simp add: cell_def)

lemma cell_Suc:
  assumes "i < length a"
  shows "cell a (Suc i) (b @ [y]) =
    min (cell a (Suc i) b + 1) (min (cell a i (b @ [y]) + 1) (cell a i b + (if a ! i = y then 0 else 1)))"
proof -
  have "rev (take (Suc i) a) = a ! i # rev (take i a)" using assms by (simp add: take_Suc_conv_app_nth)
  then show ?thesis by (auto simp: cell_def min_def)
qed

lemma row_entries:
  assumes "i \<le> length a"
  shows "lev_row y (cell a i (b @ [y])) (drop i a) (map (\<lambda>k. cell a k b) [i..<length a + 1])
           = map (\<lambda>k. cell a k (b @ [y])) [i + 1..<length a + 1]"
  using assms
proof (induction "length a - i" arbitrary: i)
  case 0
  then show ?case by simp
next
  case (Suc n)
  then have i: "i < length a" by simp
  have d: "drop i a = a ! i # drop (Suc i) a" using i by (simp add: Cons_nth_drop_Suc)
  have u: "[i..<length a + 1] = i # Suc i # [Suc (Suc i)..<length a + 1]" "[Suc i..<length a + 1] = Suc i # [Suc (Suc i)..<length a + 1]"
    using i by (simp_all add: upt_conv_Cons)
  have "lev_row y (cell a (Suc i) (b @ [y])) (drop (Suc i) a) (map (\<lambda>k. cell a k b) [Suc i..<length a + 1])
      = map (\<lambda>k. cell a k (b @ [y])) [Suc i + 1..<length a + 1]"
    by (rule Suc.hyps(1)) (use Suc.hyps(2) i in simp_all)
  moreover have v: "min (cell a (Suc i) b + 1) (min (cell a i (b @ [y]) + 1) (cell a i b + (if a ! i = y then 0 else 1)))
      = cell a (Suc i) (b @ [y])" by (rule cell_Suc[OF i, symmetric])
  moreover have L: "map (\<lambda>k. cell a k b) [i..<length a + 1]
      = cell a i b # cell a (Suc i) b # map (\<lambda>k. cell a k b) [Suc (Suc i)..<length a + 1]"
    "map (\<lambda>k. cell a k b) [Suc i..<length a + 1] = cell a (Suc i) b # map (\<lambda>k. cell a k b) [Suc (Suc i)..<length a + 1]"
    by (simp_all only: u list.map)
  moreover have R: "map (\<lambda>k. cell a k (b @ [y])) [i + 1..<length a + 1]
      = cell a (Suc i) (b @ [y]) # map (\<lambda>k. cell a k (b @ [y])) [Suc i + 1..<length a + 1]"
    using u(2) by (simp del: upt_Suc)
  ultimately show ?case unfolding d L R lev_row.simps Let_def v by (simp only:)
qed

lemma rows_entries:
  "lev_rows a ys (length b + 1) (map (\<lambda>k. cell a k b) [0..<length a + 1]) = map (\<lambda>k. cell a k (b @ ys)) [0..<length a + 1]"
proof (induction ys arbitrary: b)
  case (Cons y ys)
  have "lev_row y (length b + 1) a (map (\<lambda>k. cell a k b) [0..<length a + 1]) = map (\<lambda>k. cell a k (b @ [y])) [1..<length a + 1]"
    using row_entries[of 0 a y b] by (simp add: cell_0 del: upt_Suc)
  moreover have "[0..<length a + 1] = 0 # [1..<length a + 1]" by (simp add: upt_conv_Cons del: upt_Suc)
  ultimately have "(length b + 1) # lev_row y (length b + 1) a (map (\<lambda>k. cell a k b) [0..<length a + 1])
      = map (\<lambda>k. cell a k (b @ [y])) [0..<length a + 1]"
    by (simp add: cell_0 del: upt_Suc)
  then show ?case using Cons[of "b @ [y]"] by (simp del: upt_Suc)
qed simp

lemma levenshtein_edit: "levenshtein a b = edit (rev a) (rev b)"
proof -
  have "map (\<lambda>k. cell a k []) [0..<length a + 1] = [0..<length a + 1]"
    by (rule map_idI) (auto simp: cell_Nil)
  then have "lev_rows a b 1 [0..<length a + 1] = map (\<lambda>k. cell a k b) [0..<length a + 1]"
    using rows_entries[of a b "[]"] by (simp del: upt_Suc)
  then show ?thesis by (simp add: levenshtein_def cell_def)
qed

text \<open>A way to turn one text into the other, and what it costs.\<close>

inductive align :: "'a list \<Rightarrow> 'a list \<Rightarrow> nat \<Rightarrow> bool" where
  finish: "align [] [] 0"
| remove: "align xs ys n \<Longrightarrow> align (x # xs) ys (n + 1)"
| add_one: "align xs ys n \<Longrightarrow> align xs (y # ys) (n + 1)"
| same_one: "align xs ys n \<Longrightarrow> align (x # xs) (x # ys) n"
| swap_one: "align xs ys n \<Longrightarrow> align (x # xs) (y # ys) (n + 1)"

inductive_cases align_Nil_Nil: "align [] [] n"

lemma align_append: "align xs ys n \<Longrightarrow> align us vs m \<Longrightarrow> align (xs @ us) (ys @ vs) (n + m)"
proof (induction rule: align.induct)
  case (remove xs ys n x)
  then show ?case using align.remove[of "xs @ us" "ys @ vs" "n + m" x] by simp
next
  case (add_one xs ys n y)
  then show ?case using align.add_one[of "xs @ us" "ys @ vs" "n + m" y] by simp
next
  case (swap_one xs ys n x y)
  then show ?case using align.swap_one[of "xs @ us" "ys @ vs" "n + m" x y] by simp
qed (auto intro: align.intros)

lemma align_rev: "align xs ys n \<Longrightarrow> align (rev xs) (rev ys) n"
proof (induction rule: align.induct)
  case (remove xs ys n x)
  have "align [x] [] 1" using align.remove[OF align.finish, of x] by simp
  from align_append[OF remove.IH this] show ?case by simp
next
  case (add_one xs ys n y)
  have "align [] [y] 1" using align.add_one[OF align.finish, of y] by simp
  from align_append[OF add_one.IH this] show ?case by simp
next
  case (same_one xs ys n x)
  from align_append[OF same_one.IH align.same_one[OF align.finish, of x]] show ?case by simp
next
  case (swap_one xs ys n x y)
  have "align [x] [y] 1" using align.swap_one[OF align.finish, of x y] by simp
  from align_append[OF swap_one.IH this] show ?case by simp
qed (rule align.finish[unfolded rev.simps] | simp add: align.finish)+

lemma edit_align: "align xs ys (edit xs ys)"
proof (induction xs ys rule: edit.induct)
  case (1 ys)
  show ?case by (induction ys) (auto intro: align.finish dest: align.add_one)
next
  case (2 v vs)
  have "align zs [] (length zs)" for zs :: "'a list" by (induction zs) (auto intro: align.finish dest: align.remove)
  from this[of "v # vs"] show ?case by simp
next
  case (3 x xs y ys)
  have d: "align (x # xs) (y # ys) (edit xs (y # ys) + 1)" "align (x # xs) (y # ys) (edit (x # xs) ys + 1)"
    "align (x # xs) (y # ys) (edit xs ys + (if x = y then 0 else 1))"
    using align.remove[OF 3(1)] align.add_one[OF 3(2)] align.swap_one[OF 3(3)] align.same_one[OF 3(3)] by auto
  then show ?case by (auto simp: min_def split del: if_split split: if_split)
qed

lemma edit_step: "edit (x # xs) ys \<le> edit xs ys + 1" "edit xs (y # ys) \<le> edit xs ys + 1"
  by (cases ys; simp add: min.coboundedI1) (cases xs; simp add: min.coboundedI1 min.coboundedI2)

lemma edit_least: "align xs ys n \<Longrightarrow> edit xs ys \<le> n"
proof (induction rule: align.induct)
  case (remove xs ys n x)
  then show ?case using edit_step(1)[of x xs ys] by simp
next
  case (add_one xs ys n y)
  then show ?case using edit_step(2)[of xs y ys] by simp
qed auto

lemma edit_rev: "edit (rev xs) (rev ys) = edit xs ys"
proof (rule antisym)
  show "edit (rev xs) (rev ys) \<le> edit xs ys" by (rule edit_least[OF align_rev[OF edit_align]])
  show "edit xs ys \<le> edit (rev xs) (rev ys)" using edit_least[OF align_rev[OF edit_align, of "rev xs" "rev ys"]] by simp
qed

text \<open>
  C15: the two-row table is the edit distance: there is a way to turn the first text into the second
  by as many deletions, insertions and replacements as the table says, and no way needs fewer.
\<close>

theorem table_is_edit_distance:
  "align a b (levenshtein a b) \<and> (\<forall>n. align a b n \<longrightarrow> levenshtein a b \<le> n)"
  by (simp add: levenshtein_edit edit_rev edit_align edit_least)

theorem table_is_edit_distance_witness:
  "levenshtein ''kitten'' ''sitting'' \<le> 3"
proof -
  have "align ''kitten'' ''sitting'' (0 + 1 + 1 + 1)"
    by (intro align.intros(4)[of _ _ "_ + 1"] align.swap_one align.add_one align.same_one align.finish | rule align.same_one)+
  with table_is_edit_distance[of "''kitten''" "''sitting''"] show ?thesis by (auto simp: eval_nat_numeral)
qed

subsection \<open>A repeated answer is flagged\<close>

lemma levenshtein_same: "levenshtein a a = 0"
proof -
  have "align a a 0" by (induction a) (auto intro: align.intros)
  then have "edit a a \<le> 0" by (rule edit_least)
  then show ?thesis by (simp add: levenshtein_edit edit_rev)
qed

lemma similarity_same:
  assumes "length a < 2 ^ 53"
  shows "string_similarity a a = Fin 1"
proof -
  have "rnd (of_int (int (length a))) = Fin (of_int (int (length a)))"
  proof (rule lit_of_int)
    show "\<bar>int (length a)\<bar> \<le> 2 ^ 53" using assms by simp
  qed
  then show ?thesis by (cases "a = []") (simp_all add: string_similarity_def levenshtein_same dsub_def)
qed

lemma repeated_is_flagged:
  assumes "r \<in> set rs" "length cs = length rs" "length r < 2 ^ 53"
  shows "is_flagged_response r c rs cs anchor"
proof -
  obtain k where "(r, k) \<in> set (zip rs cs)" using assms(1,2) by (metis in_set_impl_in_set_zip1)
  moreover have "dless (lit (90/100)) (Fin 1)"
  proof -
    obtain w where w: "rnd (90/100) = Fin w" "\<bar>w - 90/100\<bar> \<le> 1 / 2 ^ 42" by (rule rnd_close[of "90/100"]) auto
    moreover have "(1 / 2 ^ 42 :: rat) < 1/10" by simp
    ultimately have "w < 1" by linarith
    then show ?thesis using w(1) by simp
  qed
  ultimately show ?thesis using similarity_same[OF assms(3)]
    by (auto simp: is_flagged_response_def list_ex_iff intro!: bexI[of _ "(r, k)"])
qed

end
