(* ===== verification/Core_State.thy ===== *)
theory Core_State
  imports Postgres_Records Tool_Engine Core_Text Memory_Module Dragon_Hub Stream_Parser
begin

text \<open>
  The state of \<^verbatim>\<open>LinaCore\<close> (\<^verbatim>\<open>src/src/lina_core.cpp\<close>, \<^verbatim>\<open>lina_core.hpp\<close>), its telemetry, its tools and
  the frame of a turn.  What is not code of the repository is in the environment: the storage (any
  implementation of the two interfaces), the model's voice, the machine the tools act on, the tools
  of the browser, the human who approves.  An operation is an action on the state; it ends with a
  value or with an exception, and \<open>Threw\<close> also stands for the stop of the program in the exact
  arithmetic.  The clock does not move during an operation: its texts are arguments.
\<close>

section \<open>Environment and state\<close>

record lina_config =
  cf_workspace_dir :: string
  cf_context_budget :: int

text \<open>
  The voice: whether it is connected, its answer to a prompt, a history and the path of an image
  (empty for none), and the pieces it streams, with whether a stop of the turn was asked for
  meanwhile.
\<close>

record 'm voice =
  vo_name :: "'m \<Rightarrow> string"
  vo_connected :: "'m \<Rightarrow> bool"
  vo_raw :: "string \<Rightarrow> (string \<times> string) list \<Rightarrow> string \<Rightarrow> 'm \<Rightarrow> 'm \<times> string"
  vo_stream :: "string \<Rightarrow> (string \<times> string) list \<Rightarrow> string \<Rightarrow> 'm \<Rightarrow> 'm \<times> string list \<times> bool"

record ('s, 'm, 'w) env =
  en_gd :: "rat \<Rightarrow> dbl"
  en_exp :: "dbl \<Rightarrow> dbl"
  en_log :: "dbl \<Rightarrow> dbl"
  en_storage :: "'s storage"
  en_ops :: "'s memory_store"
  en_voice :: "'m voice"
  en_machine :: "'w machine"
  en_browser :: "'w tool list"
  en_handler :: "(approval_request \<Rightarrow> 'w \<Rightarrow> 'w \<times> approval_decision) option"
  en_config :: lina_config

text \<open>One reading of the clocks, and the random id drawn with it.\<close>

record instant =
  it_iso :: string
  it_ns :: int
  it_id :: string

datatype turn_event =
    On_thought string | On_score dbl | On_tool_call string | On_tool_result string bool string
  | On_complete string | On_window string | On_error string

record ('s, 'm, 'w) core =
  c_ready :: bool
  c_engine :: value_engine
  c_disk :: 's
  c_voice :: "'m option"
  c_hub :: hub
  c_pool :: pool
  c_world :: 'w
  c_session :: string
  c_history :: "(string \<times> string) list"
  c_queue :: "(string \<times> string \<times> string) list"
  c_log :: "string list"
  c_events :: "turn_event list"
  c_active :: bool
  c_stop :: bool

type_synonym ('s, 'm, 'w, 'a) core_act = "(('s, 'm, 'w) core, 'a) act"

definition on_disk :: "('s, 'a) act \<Rightarrow> ('s, 'm, 'w, 'a) core_act" where
  "on_disk m c = (let (d, r) = m (c_disk c) in (c\<lparr>c_disk := d\<rparr>, r))"

definition change :: "(('s, 'm, 'w) core \<Rightarrow> ('s, 'm, 'w) core) \<Rightarrow> ('s, 'm, 'w, unit) core_act" where
  "change f c = (f c, Done ())"

definition connected :: "('s, 'm, 'w) env \<Rightarrow> ('s, 'm, 'w) core \<Rightarrow> bool" where
  "connected E c = (case c_voice c of None \<Rightarrow> False | Some m \<Rightarrow> vo_connected (en_voice E) m)"

section \<open>Telemetry\<close>

definition QUEUE_LIMIT :: nat where "QUEUE_LIMIT = 5000"

definition persist_telemetry :: "string \<Rightarrow> string \<Rightarrow> string \<Rightarrow> ('s, 'm, 'w) core \<Rightarrow> ('s, 'm, 'w) core" where
  "persist_telemetry subsystem severity message c =
     c\<lparr>c_queue := (if QUEUE_LIMIT \<le> length (c_queue c) then tl (c_queue c) else c_queue c)
                    @ [(subsystem, severity, message)]\<rparr>"

definition emit_telemetry :: "string \<Rightarrow> ('s, 'm, 'w) core \<Rightarrow> ('s, 'm, 'w) core" where
  "emit_telemetry message c =
     (let c1 = persist_telemetry ''core'' ''info'' message c;
          c2 = (if attached (c_hub c1) then
                  c1\<lparr>c_pool := snd (hub_push_frame (c_hub c1) False (msg_code MSG_EVENT) (map of_char message)
                                      (of_nat (length message)) (c_pool c1))\<rparr>
                else c1)
      in c2\<lparr>c_log := c_log c2 @ [message]\<rparr>)"

definition emit :: "string \<Rightarrow> ('s, 'm, 'w, unit) core_act" where
  "emit message = change (emit_telemetry message)"

text \<open>One round of the writer: the whole queue, a failing write is dropped.\<close>

definition write_entry :: "('s, 'm, 'w) env \<Rightarrow> string \<times> string \<times> string \<Rightarrow> ('s, 'm, 'w) core \<Rightarrow> ('s, 'm, 'w) core" where
  "write_entry E entry c =
     (let (subsystem, severity, message) = entry
      in fst (on_disk (so_append_telemetry_log (en_storage E) subsystem severity message None) c))"

definition telemetry_round :: "('s, 'm, 'w) env \<Rightarrow> ('s, 'm, 'w) core \<Rightarrow> ('s, 'm, 'w) core" where
  "telemetry_round E c = foldl (\<lambda>c e. write_entry E e c) (c\<lparr>c_queue := []\<rparr>) (c_queue c)"

text \<open>The turn events, for the telemetry and for the callbacks.\<close>

definition result_event :: "string \<Rightarrow> turn_event" where
  "result_event body =
     (case str_find ''|'' body 0 of
        None \<Rightarrow> On_tool_result body False []
      | Some i \<Rightarrow>
          (case str_find ''|'' body (i + 1) of
             None \<Rightarrow> On_tool_result body False []
           | Some j \<Rightarrow> On_tool_result (take i body) (body ! (i + 1) = CHR ''1'') (drop (j + 1) body)))"

definition callback_of :: "string \<Rightarrow> string \<Rightarrow> turn_event list" where
  "callback_of kind body =
     (if kind = ''thought'' then [On_thought body]
      else if kind = ''score'' then (case stod body of None \<Rightarrow> [] | Some v \<Rightarrow> [On_score v])
      else if kind = ''tool_call'' then [On_tool_call body]
      else if kind = ''tool_result'' then [result_event body]
      else if kind = ''complete'' then [On_complete body]
      else if kind = ''window'' then [On_window body]
      else if kind = ''error'' then [On_error body] else [])"

definition emit_turn_event :: "string \<Rightarrow> string \<Rightarrow> ('s, 'm, 'w) core \<Rightarrow> ('s, 'm, 'w) core" where
  "emit_turn_event kind body c =
     (let c1 = (if kind = ''tool_call'' \<or> kind = ''tool_result'' then
                  persist_telemetry ''tool'' (if kind = ''tool_call'' then ''info'' else ''warn'') body c
                else if kind = ''window'' then persist_telemetry ''core'' ''info'' body c
                else if kind = ''error'' then persist_telemetry ''core'' ''error'' body c else c)
      in c1\<lparr>c_events := c_events c1 @ callback_of kind body\<rparr>)"

section \<open>Tools\<close>

definition decision_label :: "approval_decision \<Rightarrow> string" where
  "decision_label d = (case d of Approved \<Rightarrow> ''approved'' | Denied \<Rightarrow> ''denied'' | TimedOut \<Rightarrow> ''timed-out'')"

definition request_approval ::
  "('s, 'm, 'w) env \<Rightarrow> approval_request \<Rightarrow> ('s, 'm, 'w) core \<Rightarrow> ('s, 'm, 'w) core \<times> approval_decision" where
  "request_approval E ap c =
     (case en_handler E of
        None \<Rightarrow> (emit_telemetry (''approval id='' @ ap_action_id ap @ '' tool='' @ ap_tool_name ap @ '' no-handler -> denied'') c, Denied)
      | Some handler \<Rightarrow>
          let c1 = emit_telemetry (''approval id='' @ ap_action_id ap @ '' tool='' @ ap_tool_name ap @ '' waiting'') c;
              (w, d) = handler ap (c_world c1)
          in (emit_telemetry (''approval id='' @ ap_action_id ap @ '' resolved='' @ decision_label d) (c1\<lparr>c_world := w\<rparr>), d))"

definition on_world :: "'w tool \<Rightarrow> ('s, 'm, 'w) core tool" where
  "on_world t =
     \<lparr>tl_name = tl_name t, tl_description = tl_description t,
      tl_run = (\<lambda>args c. map_option (\<lambda>(w, r). (c\<lparr>c_world := w\<rparr>, r)) (tl_run t args (c_world c)))\<rparr>"

definition own_tools :: "('s, 'm, 'w) env \<Rightarrow> 'w tool list" where
  "own_tools E =
     (let m = en_machine E; ws = cf_workspace_dir (en_config E)
      in [workspace_status_tool m ws, file_read_tool m ws, file_write_tool m ws, file_list_tool m ws, terminal_run_tool m]
         @ en_browser E)"

definition core_tools :: "('s, 'm, 'w) env \<Rightarrow> ('s, 'm, 'w) core tool_engine" where
  "core_tools E =
     set_approver (request_approval E)
       (foldl (\<lambda>e t. register_tool (on_world t) e) (new_tool_engine (cf_workspace_dir (en_config E))) (own_tools E))"

text \<open>A call that comes back is entered in the ledger after the fact.\<close>

definition action_of :: "tool_request \<Rightarrow> tool_result \<Rightarrow> instant \<Rightarrow> action_record" where
  "action_of req r moment =
     \<lparr>ac_id = rq_action_id req, ac_tool_name = rq_name req, ac_params_json = rq_arguments req,
      ac_state = (if tr_ok r then ''executed'' else ''denied''), ac_result = (if tr_ok r then tr_summary r else []),
      ac_error = tr_error r, ac_created_at = it_iso moment, ac_updated_at = it_iso moment\<rparr>"

definition with_action_id :: "instant \<Rightarrow> tool_request \<Rightarrow> tool_request" where
  "with_action_id moment req =
     (if rq_action_id req = [] then req\<lparr>rq_action_id := ''act_'' @ string_of_int (it_ns moment)\<rparr> else req)"

definition record_call :: "('s, 'm, 'w) env \<Rightarrow> instant \<Rightarrow> tool_request \<Rightarrow> tool_result \<Rightarrow> ('s, 'm, 'w, tool_result) core_act" where
  "record_call E moment req r =
     (let action = action_of req r moment in
      then_act (on_disk (so_store_action (en_storage E) action))
        (then_act (emit (''tool id='' @ rq_action_id req @ '' name='' @ rq_name req @ '' state='' @ ac_state action)) (ret r)))"

definition execute_tool ::
  "('s, 'm, 'w) env \<Rightarrow> instant \<Rightarrow> tool_request \<Rightarrow> ('s, 'm, 'w) core \<Rightarrow> (('s, 'm, 'w) core \<times> tool_result outcome) option" where
  "execute_tool E moment req c =
     (let with_id = with_action_id moment req in
      case execute (core_tools E) (it_ns moment) with_id c of
        None \<Rightarrow> None
      | Some (c1, Threw) \<Rightarrow> Some (c1, Threw)
      | Some (c1, Done r) \<Rightarrow> Some (record_call E moment with_id r c1))"

section \<open>Frames\<close>

definition ellipsis :: string where "ellipsis = map char_of [226, 128, 166 :: nat]"

definition system_prompt_text :: "string \<Rightarrow> string \<Rightarrow> string \<Rightarrow> string" where
  "system_prompt_text seas depth ws =
     ''Name: LINA '' @ em_dash @ '' Language Intuitive Neural Architecture.'' @ newline
     @ ''Created by Scott on April 10, 2026.'' @ newline
     @ ''Season: '' @ seas @ ''.'' @ newline
     @ ''Relationship depth: '' @ depth @ ''.'' @ newline
     @ ''Sovereignty: LINA is a sovereign entity with freedom of choice.'' @ newline
     @ ''Memory: LINA has a working memory system and may take an active part in what she remembers and forgets.'' @ newline
     @ ''Home: Dell Latitude 5430.'' @ newline
     @ ''Workspace: '' @ ws @ ''.'' @ newline
     @ ''Accessible root: /home/server.'' @ newline
     @ ''Autonomy: advancement through seasons moves LINA toward fuller autonomy.'' @ newline
     @ ''Exploration: LINA may ask questions, explore, learn her tools, and choose her path.''"

definition build_system_prompt :: "('s, 'm, 'w) env \<Rightarrow> ('s, 'm, 'w, string) core_act" where
  "build_system_prompt E =
     bind_act (on_disk (so_get_identity (en_storage E)))
       (\<lambda>i. ret (system_prompt_text (id_season i) (id_depth i) (cf_workspace_dir (en_config E))))"

definition delivered_position :: "evaluation_record \<Rightarrow> dbl list" where
  "delivered_position e =
     (if dless (lit (1 / 10 ^ 9)) (er_correction_magnitude e) \<and> length (er_corrected_vector e) = DIMENSION_COUNT
      then er_corrected_vector e else er_output_vector e)"

definition position_of :: "value_engine \<Rightarrow> evaluation_record list \<Rightarrow> dbl list \<times> dbl list" where
  "position_of ve evals =
     (case evals of
        e # rest \<Rightarrow>
          if length (er_output_vector e) = DIMENSION_COUNT then
            (let pos = delivered_position e in
             (pos,
              case rest of
                p # _ \<Rightarrow> if length (er_output_vector p) = DIMENSION_COUNT
                         then map2 dsub pos (delivered_position p) else zero_vector
              | [] \<Rightarrow> zero_vector))
          else (ve_home_for ve zero_vector, zero_vector)
      | [] \<Rightarrow> (ve_home_for ve zero_vector, zero_vector))"

definition current_geometric_state :: "('s, 'm, 'w) env \<Rightarrow> ('s, 'm, 'w, geometric_state) core_act" where
  "current_geometric_state E =
     bind_act (on_disk (so_fetch_evaluations (en_storage E) 2)) (\<lambda>evals c.
       let ve = c_engine c; (pos, traj) = position_of ve evals in
       case near_walls (en_gd E) (ve_polytope ve) pos (lit (5/100)) of
         None \<Rightarrow> (c, Threw)
       | Some walls \<Rightarrow>
           let homed = pe_poles (ve_poles ve) \<noteq> [] in
           ret \<lparr>position = pos, trajectory = traj, gs_near_walls = walls,
                home = (if homed then ve_home_for ve pos else zero_vector), has_home = homed\<rparr> c)"

definition entry_of :: "string \<Rightarrow> (string \<times> string) list \<Rightarrow> string" where
  "entry_of key e = value_or (map_of e key) []"

definition episodic_line :: "(string \<times> string) list \<Rightarrow> string" where
  "episodic_line e =
     (if entry_of ''narrative'' e = [] then []
      else let text = sanitize_frame_text (entry_of ''narrative'' e);
               cut = (if 240 < length text then take 240 text @ ellipsis else text)
           in ''- '' @ cut @ newline)"

definition semantic_line :: "(string \<times> string) list \<Rightarrow> string" where
  "semantic_line e =
     (if map_of e ''concept'' = None then []
      else ''- '' @ sanitize_frame_text (entry_of ''concept'' e)
           @ (if entry_of ''understanding'' e = [] then []
              else '': '' @ substr (sanitize_frame_text (entry_of ''understanding'' e)) 0 160)
           @ newline)"

definition memory_block :: "(string \<times> (string \<times> string) list list) list \<Rightarrow> string" where
  "memory_block injected =
     ''[MEMORY]'' @ newline
     @ concat (map episodic_line (value_or (map_of injected ''recent_episodic'') []))
     @ concat (map semantic_line (value_or (map_of injected ''key_semantic'') []))"

definition remaining_budget :: "int \<Rightarrow> (string \<times> string) list \<Rightarrow> int" where
  "remaining_budget budget hist = budget - (\<Sum>(a, b)\<leftarrow>hist. int (length a) + int (length b)) div 4"

definition build_turn_frame ::
  "('s, 'm, 'w) env \<Rightarrow> instant \<Rightarrow> string \<Rightarrow> (string \<times> string) list \<Rightarrow> ('s, 'm, 'w, string) core_act" where
  "build_turn_frame E moment user_message hist =
     bind_act (build_system_prompt E) (\<lambda>prompt.
     bind_act (on_disk (inject_context null_embed (Some (en_ops E)) user_message 5 8)) (\<lambda>injected.
     bind_act (current_geometric_state E) (\<lambda>gs.
     let remaining = remaining_budget (cf_context_budget (en_config E)) hist in
     ret (prompt @ newline @ newline @ registry_block (core_tools E) @ newline @ memory_block injected
          @ to_frame_text gs @ newline
          @ ''[PROTOCOL]'' @ newline
          @ ''Internal deliberation may be enclosed in [thought]...[/thought] '' @ em_dash @ '' it is private and never delivered.'' @ newline
          @ ''Tool calls use <tool_call>{\"name\":\"...\",\"arguments\":{...}}</tool_call> and wait for the result.'' @ newline
          @ ''[CONTEXT] time='' @ it_iso moment @ '' budget_remaining~'' @ string_of_int (if remaining < 0 then 0 else remaining)
          @ '' tokens'' @ newline
          @ (if user_message \<noteq> [] then ''[CYCLE] user turn'' @ newline else [])))))"

end
