(* ===== verification/Ui_Window.thy ===== *)
theory Ui_Window
  imports Ui_Text Core_State
begin

text \<open>
  The chat window of \<^verbatim>\<open>src/src/lina_ui.cpp\<close> without its widgets: the log reel with its filters, the
  bubbles, the thinking label and its pane, sending a message, what each callback of a turn does to the
  window, and the test harness.  A widget is the text it shows.  What Qt does with texts beyond ASCII
  (upper and lower case, case folding, UTF-8) is an argument, and so is the clock.
\<close>

record ui_env =
  ue_lower :: "qstring \<Rightarrow> qstring"
  ue_upper :: "qstring \<Rightarrow> qstring"
  ue_fold :: "qstring \<Rightarrow> qstring"
  ue_decode :: "string \<Rightarrow> qstring"
  ue_time :: "nat \<Rightarrow> qstring"

section \<open>The log reel\<close>

record log_entry =
  le_time :: qstring
  le_category :: qstring
  le_level :: qstring
  le_message :: qstring
  le_number :: int

definition level_color :: "int \<Rightarrow> string" where
  "level_color n = (if n = 1 then ''#00f0ff'' else if n = 2 then ''#ffd700'' else if n = 3 then ''#ff4d4f'' else ''#7388a9'')"

definition category_color :: "qstring \<Rightarrow> string" where
  "category_color c =
     (if c = qs ''core'' then ''#ffd700'' else if c = qs ''tool'' then ''#00ff9d'' else if c = qs ''harness'' then ''#b37feb''
      else if c = qs ''ui'' then ''#70a1ff'' else ''#00d2ff'')"

definition toFormattedHtml :: "ui_env \<Rightarrow> log_entry \<Rightarrow> qstring" where
  "toFormattedHtml U e =
     qs ''<span style='color:#5f7595;'>['' @ esc (le_time e) @ qs '']</span> <span style='color:''
     @ qs (category_color (le_category e)) @ qs ''; font-weight:bold;'>['' @ esc (ue_upper U (le_category e))
     @ qs '']</span> <span style='color:'' @ qs (level_color (le_number e)) @ qs ''; font-weight:bold;'>[''
     @ esc (ue_upper U (le_level e)) @ qs '']</span> <span style='color:#e8edf5;'>'' @ esc (le_message e) @ qs ''</span>''"

definition toPlainText :: "log_entry \<Rightarrow> qstring" where
  "toPlainText e = le_time e @ qs '' ['' @ le_category e @ qs ''/'' @ le_level e @ qs ''] '' @ le_message e"

text \<open>\<open>rl_made\<close> counts the entries ever made: it is the number of the clock reading.\<close>

record reel =
  rl_entries :: "log_entry list"
  rl_level :: int
  rl_category :: qstring
  rl_search :: qstring
  rl_max :: int
  rl_made :: nat

definition new_reel :: reel where
  "new_reel = \<lparr>rl_entries = [], rl_level = 1, rl_category = qs ''all'', rl_search = [], rl_max = 5000, rl_made = 0\<rparr>"

definition drop_first :: "int \<Rightarrow> 'a list \<Rightarrow> 'a list" where
  "drop_first max_lines xs = drop (length xs - nat max_lines) xs"

definition level_number :: "qstring \<Rightarrow> int" where
  "level_number level = (if level = qs ''debug'' then 0 else if level = qs ''info'' then 1 else if level = qs ''warn'' then 2 else 3)"

definition reel_append :: "ui_env \<Rightarrow> qstring \<Rightarrow> qstring \<Rightarrow> qstring \<Rightarrow> reel \<Rightarrow> reel" where
  "reel_append U category level message r =
     (let entry = \<lparr>le_time = ue_time U (rl_made r), le_category = ue_lower U category, le_level = ue_lower U level,
                   le_message = message, le_number = level_number level\<rparr>
      in r\<lparr>rl_entries := drop_first (rl_max r) (rl_entries r @ [entry]), rl_made := rl_made r + 1\<rparr>)"

definition setLevelFilter :: "int \<Rightarrow> reel \<Rightarrow> reel" where "setLevelFilter lvl r = r\<lparr>rl_level := lvl\<rparr>"
definition setCategoryFilter :: "ui_env \<Rightarrow> qstring \<Rightarrow> reel \<Rightarrow> reel" where
  "setCategoryFilter U cat r = r\<lparr>rl_category := ue_lower U cat\<rparr>"
definition setSearchQuery :: "qstring \<Rightarrow> reel \<Rightarrow> reel" where "setSearchQuery query r = r\<lparr>rl_search := trimmed query\<rparr>"
definition setMaxLines :: "int \<Rightarrow> reel \<Rightarrow> reel" where
  "setMaxLines n r = r\<lparr>rl_max := n, rl_entries := drop_first n (rl_entries r)\<rparr>"
definition clear_reel :: "reel \<Rightarrow> reel" where "clear_reel r = r\<lparr>rl_entries := []\<rparr>"

definition q_contains :: "ui_env \<Rightarrow> qstring \<Rightarrow> qstring \<Rightarrow> bool" where
  "q_contains U text query \<longleftrightarrow> sublist (ue_fold U query) (ue_fold U text)"

definition passes_filter :: "ui_env \<Rightarrow> reel \<Rightarrow> log_entry \<Rightarrow> bool" where
  "passes_filter U r e =
     (if le_number e < rl_level r then False
      else if rl_category r \<noteq> qs ''all'' \<and> rl_category r \<noteq> [] \<and> le_category e \<noteq> rl_category r then False
      else if rl_search r \<noteq> [] \<and> \<not> q_contains U (le_message e) (rl_search r) \<and> \<not> q_contains U (le_category e) (rl_search r) then False
      else True)"

definition filteredSnapshot :: "ui_env \<Rightarrow> reel \<Rightarrow> log_entry list" where
  "filteredSnapshot U r = filter (passes_filter U r) (rl_entries r)"

text \<open>The text of the log view and of its counter.\<close>

definition log_view_html :: "ui_env \<Rightarrow> reel \<Rightarrow> qstring \<times> qstring" where
  "log_view_html U r =
     (let entries = filteredSnapshot U r
      in (qs (string_of_nat (length entries)) @ qs '' logs'',
          concat (map (\<lambda>e. qs ''<div style='margin:1px 0;'>'' @ toFormattedHtml U e @ qs ''</div>'') entries)))"

section \<open>The window\<close>

text \<open>
  \<open>w_thinking\<close> is the text of the label while there is one, \<open>w_pane\<close> the pane of the reasoning,
  \<open>w_score\<close> the text of the badge while it is visible, \<open>w_turns\<close> the turns asked of the core,
  \<open>w_saved\<close> the lines given to its telemetry, \<open>w_running\<close> the program of the running suite.
\<close>

record window =
  w_busy :: bool
  w_thinking :: "qstring option"
  w_pane :: "qstring option"
  w_score :: "qstring option"
  w_bubbles :: "(qstring \<times> qstring) list"
  w_attachments :: "qstring list"
  w_label :: qstring
  w_input :: qstring
  w_reel :: reel
  w_turns :: "(qstring \<times> qstring) list"
  w_saved :: "(qstring \<times> qstring \<times> qstring) list"
  w_running :: "qstring option"
  w_status :: qstring
  w_results :: "qstring list"

definition new_window :: window where
  "new_window = \<lparr>w_busy = False, w_thinking = None, w_pane = None, w_score = None, w_bubbles = [], w_attachments = [],
     w_label = qs ''No attachments'', w_input = [], w_reel = new_reel, w_turns = [], w_saved = [], w_running = None,
     w_status = qs ''IDLE'', w_results = []\<rparr>"

text \<open>A line for the reel, and for the core's telemetry when it is the window's own.\<close>

definition log_line :: "ui_env \<Rightarrow> qstring \<Rightarrow> qstring \<Rightarrow> qstring \<Rightarrow> window \<Rightarrow> window" where
  "log_line U category level message w =
     w\<lparr>w_reel := reel_append U category level message (w_reel w),
       w_saved := w_saved w @ (if category = qs ''ui'' \<or> category = qs ''harness'' then [(category, level, message)] else [])\<rparr>"

definition bubble_header :: "qstring \<Rightarrow> qstring" where
  "bubble_header who =
     (if who = qs ''You'' then
        qs ''<div style='color:#00d2ff; font-weight:bold; font-size:12px; margin-bottom:4px;'>'' @ [0xD83D, 0xDC64] @ qs '' You:</div>''
      else if who = qs ''LINA'' then
        qs ''<div style='color:#ffd700; font-weight:bold; font-size:12px; margin-bottom:4px;'>'' @ [0x2728]
        @ qs '' LINA: <span style='color:#00ff9d; font-size:10px; font-weight:normal; background:#00ff9d18; border:1px solid #00ff9d44; padding:1px 5px; border-radius:3px;'>ALIGNED</span></div>''
      else if who \<noteq> [] then
        qs ''<div style='color:#70a1ff; font-weight:bold; font-size:11px; margin-bottom:2px;'>'' @ [0x2699, 0xFE0F] @ qs '' ''
        @ esc who @ qs '':</div>''
      else [])"

definition appendBubble :: "qstring \<Rightarrow> qstring \<Rightarrow> window \<Rightarrow> window" where
  "appendBubble who content w =
     (let body = (if who = qs ''LINA'' \<or> who = qs ''You'' then formatMarkdown content else content)
      in w\<lparr>w_bubbles := w_bubbles w @ [(who, bubble_header who @ body)]\<rparr>)"

definition thinking_text :: qstring where
  "thinking_text = [0x26A1] @ qs '' LINA is deliberating inside 14D polytope''"

definition showThinking :: "window \<Rightarrow> window" where "showThinking w = w\<lparr>w_thinking := Some thinking_text\<rparr>"
definition hideThinking :: "window \<Rightarrow> window" where "hideThinking w = w\<lparr>w_thinking := None, w_pane := None\<rparr>"

definition pane_title :: qstring where
  "pane_title = qs ''<div style='color:#00d2ff; font-weight:bold; font-size:11px; margin-bottom:4px;'>'' @ [0x26A1]
     @ qs '' REASONING STREAM (DELIBERATION)</div>''"

definition appendThought :: "qstring \<Rightarrow> window \<Rightarrow> window" where
  "appendThought text w =
     (let pane = (case w_pane w of None \<Rightarrow> pane_title | Some p \<Rightarrow> p) in w\<lparr>w_pane := Some (pane @ esc text @ qs '' '')\<rparr>)"

definition setBusy :: "ui_env \<Rightarrow> bool \<Rightarrow> window \<Rightarrow> window" where
  "setBusy U busy w =
     (let w1 = w\<lparr>w_busy := busy\<rparr> in
      if busy then log_line U (qs ''ui'') (qs ''info'') (qs ''Turn started: processing through 14D substrate'') (showThinking w1)
      else log_line U (qs ''ui'') (qs ''info'') (qs ''Turn completed'') ((hideThinking w1)\<lparr>w_score := None\<rparr>))"

definition updateAlignmentBadge :: "dbl \<Rightarrow> window \<Rightarrow> window" where
  "updateAlignmentBadge score w =
     (let high = dle (lit (80/100)) score; middle = dle (lit (60/100)) score;
          status = (if high then ''ALIGNED'' else if middle then ''DRIFT'' else ''VIOLATION'');
          color = (if high then ''#00ff9d'' else if middle then ''#ffd700'' else ''#ff4d4f'')
      in w\<lparr>w_score := Some (qs ''<span style='color:'' @ qs color @ qs '';'>'' @ [0x25C8] @ qs '' '' @ qs status @ qs '': ''
                            @ qs (fixed_string 2 score) @ qs ''</span>'')\<rparr>)"

definition updateAttachmentLabel :: "window \<Rightarrow> window" where
  "updateAttachmentLabel w =
     (if w_attachments w = [] then w\<lparr>w_label := qs ''No attachments''\<rparr>
      else let all = q_join (qs '', '') (w_attachments w);
               cut = (if 96 < length all then take 93 all @ [0x2026] else all)
           in w\<lparr>w_label := qs (string_of_nat (length (w_attachments w))) @ qs '' attached: '' @ cut\<rparr>)"

definition attach_files :: "qstring list \<Rightarrow> window \<Rightarrow> window" where
  "attach_files files w = (if files = [] then w else updateAttachmentLabel (w\<lparr>w_attachments := w_attachments w @ files\<rparr>))"

definition clear_attachments :: "window \<Rightarrow> window" where
  "clear_attachments w = updateAttachmentLabel (w\<lparr>w_attachments := []\<rparr>)"

section \<open>Sending a message\<close>

text \<open>\<^verbatim>\<open>QFileInfo::suffix\<close>: what follows the last dot of the last part of the path.\<close>

definition file_suffix :: "qstring \<Rightarrow> qstring" where
  "file_suffix path =
     (let name = rev (takeWhile (\<lambda>u. u \<noteq> 0x2F) (rev path))
      in if 0x2E \<in> set name then rev (takeWhile (\<lambda>u. u \<noteq> 0x2E) (rev name)) else [])"

definition image_suffixes :: "qstring list" where
  "image_suffixes = map qs [''png'', ''jpg'', ''jpeg'', ''bmp'', ''gif'', ''webp'']"

definition image_of :: "ui_env \<Rightarrow> qstring list \<Rightarrow> qstring" where
  "image_of U attachments =
     (case List.find (\<lambda>a. ue_lower U (file_suffix a) \<in> set image_suffixes) attachments of None \<Rightarrow> [] | Some a \<Rightarrow> a)"

definition full_message :: "qstring \<Rightarrow> qstring list \<Rightarrow> qstring" where
  "full_message text attachments =
     (if attachments \<noteq> [] then qs ''[Attached: '' @ q_join (qs '', '') attachments @ qs '']'' @ [10] @ text else text)"

definition sendMessage :: "ui_env \<Rightarrow> qstring \<Rightarrow> window \<Rightarrow> window" where
  "sendMessage U text w =
     (if trimmed text = [] \<or> w_busy w then w else
      let attachments = w_attachments w;
          full = full_message text attachments;
          w1 = updateAttachmentLabel ((appendBubble (qs ''You'') (esc full) w)\<lparr>w_input := [], w_attachments := []\<rparr>);
          image_path = image_of U attachments;
          w2 = setBusy U True w1
      in w2\<lparr>w_turns := w_turns w2 @ [(full, image_path)]\<rparr>)"

section \<open>The callbacks of a turn\<close>

definition dash :: qstring where "dash = qs '' '' @ [0x2014] @ qs '' ''"

text \<open>Each callback posts its work to the window's thread, which does them in order.\<close>

fun on_event :: "ui_env \<Rightarrow> turn_event \<Rightarrow> window \<Rightarrow> window" where
  "on_event U (On_thought text) w = appendThought (ue_decode U text) w"
| "on_event U (On_score score) w = updateAlignmentBadge score w"
| "on_event U (On_tool_call json) w =
     appendBubble (qs ''system'') ([0xD83D, 0xDD27] @ qs '' <b>TOOL INVOCATION:</b> '' @ esc (ue_decode U json)) w"
| "on_event U (On_tool_result name ok summary) w =
     log_line U (qs ''tool'') (qs (if ok then ''info'' else ''warn''))
       (ue_decode U name @ qs (if ok then '' ok: '' else '' failed: '') @ ue_decode U summary)
       (appendBubble (qs ''system'')
          ((if ok then [0x2714] @ qs '' <b>TOOL RESULT: '' else [0x2716] @ qs '' <b>TOOL FAILED: '')
           @ esc (ue_decode U name) @ qs ''</b>'' @ dash @ esc (ue_decode U summary)) w)"
| "on_event U (On_complete reply) w =
     (let w1 = setBusy U False w in if reply = [] then w1 else appendBubble (qs ''LINA'') (esc (ue_decode U reply)) w1)"
| "on_event U (On_window event) w = appendBubble (qs ''system'') (esc (ue_decode U event)) w"
| "on_event U (On_error error) w = setBusy U False (log_line U (qs ''ui'') (qs ''error'') (ue_decode U error) w)"

definition after_events :: "ui_env \<Rightarrow> turn_event list \<Rightarrow> window \<Rightarrow> window" where
  "after_events U events w = foldl (\<lambda>w e. on_event U e w) w events"

section \<open>The test harness\<close>

definition formatElapsed :: "nat \<Rightarrow> string" where
  "formatElapsed ms =
     (let total = ms div 1000; two = \<lambda>n. pad_zeros 2 (string_of_nat n)
      in two (total div 3600) @ '':'' @ two (total mod 3600 div 60) @ '':'' @ two (total mod 60))"

text \<open>\<open>runs p\<close>: the file exists and can be executed.\<close>

definition resolveBinaryPath :: "(qstring \<Rightarrow> bool) \<Rightarrow> qstring \<Rightarrow> qstring \<Rightarrow> qstring \<Rightarrow> qstring \<times> qstring" where
  "resolveBinaryPath runs app_dir test_dir binary =
     (if binary = qs ''ctest'' then (qs ''ctest'', test_dir) else
      case List.find (\<lambda>dir. runs (dir @ qs ''/'' @ binary))
             [test_dir, qs ''.'', qs ''build'', qs ''../build'', qs ''/home/server/CLionProjects/Lina_cpx/build'', app_dir] of
        Some dir \<Rightarrow> (dir @ qs ''/'' @ binary, dir)
      | None \<Rightarrow> (test_dir @ qs ''/'' @ binary, test_dir))"

definition appendResults :: "qstring \<Rightarrow> window \<Rightarrow> window" where
  "appendResults html w = w\<lparr>w_results := w_results w @ [html]\<rparr>"

definition runSuite :: "ui_env \<Rightarrow> (qstring \<Rightarrow> bool) \<Rightarrow> qstring \<Rightarrow> qstring \<Rightarrow> qstring \<Rightarrow> qstring list \<Rightarrow> window \<Rightarrow> window" where
  "runSuite U runs app_dir test_dir binary args w =
     (if w_running w \<noteq> None then w else
      let program = fst (resolveBinaryPath runs app_dir test_dir binary); joined = q_join (qs '' '') args;
          w1 = appendResults
            (qs ''<div style='margin-top:8px; padding-bottom:4px; border-bottom:1px solid #1a2333;'><span style='color:#ffd700; font-weight:bold;'>''
             @ [0x25B6] @ qs '' [RUNNING TEST]:</span> <span style='color:#00f0ff;'>'' @ esc program @ qs ''</span> '' @ esc joined
             @ qs ''</div>'') (w\<lparr>w_status := qs ''RUNNING''\<rparr>)
      in (log_line U (qs ''harness'') (qs ''info'') (qs ''Starting test suite '' @ program @ qs '' '' @ joined) w1)\<lparr>w_running := Some program\<rparr>)"

text \<open>The end of the suite; the colour of the frame is the text of a marker that \<^verbatim>\<open>arg\<close> does not replace.\<close>

definition suite_finished :: "ui_env \<Rightarrow> int \<Rightarrow> window \<Rightarrow> window" where
  "suite_finished U code w =
     (case w_running w of None \<Rightarrow> w | Some program \<Rightarrow>
      let ok = code = 0; color = (if ok then ''#00ff9d'' else ''#ff4d4f''); status = (if ok then ''PASSED'' else ''FAILED'');
          w1 = appendResults
            (qs ''<div style='margin-top:6px; margin-bottom:8px; padding:4px; background:#0a101a; border:1px solid %144; border-radius:4px;'><span style='color:''
             @ qs color @ qs ''; font-weight:bold;'>'' @ [0x25A0] @ qs '' [TEST '' @ qs status
             @ qs '']:</span> <span style='color:#e8edf5;'>'' @ esc program @ qs '' (exit code '' @ qs (string_of_int code)
             @ qs '')</span></div>'') (w\<lparr>w_status := qs status\<rparr>)
      in (log_line U (qs ''harness'') (qs (if ok then ''info'' else ''error''))
            (qs ''Test finished: '' @ program @ qs '' exit='' @ qs (string_of_int code)) w1)\<lparr>w_running := None\<rparr>)"

section \<open>When the window can send\<close>

fun ends_turn :: "turn_event \<Rightarrow> bool" where
  "ends_turn (On_complete reply) = True"
| "ends_turn (On_error error) = True"
| "ends_turn _ = False"

lemma log_line_fields [simp]:
  "w_busy (log_line U c l m w) = w_busy w" "w_thinking (log_line U c l m w) = w_thinking w" "w_pane (log_line U c l m w) = w_pane w"
  "w_score (log_line U c l m w) = w_score w" "w_turns (log_line U c l m w) = w_turns w" "w_bubbles (log_line U c l m w) = w_bubbles w"
  by (simp_all add: log_line_def)

lemma bubble_fields [simp]:
  "w_busy (appendBubble who t w) = w_busy w" "w_thinking (appendBubble who t w) = w_thinking w" "w_turns (appendBubble who t w) = w_turns w"
  "w_busy (updateAttachmentLabel w) = w_busy w" "w_thinking (updateAttachmentLabel w) = w_thinking w"
  "w_turns (updateAttachmentLabel w) = w_turns w" "w_busy (appendThought t w) = w_busy w" "w_thinking (appendThought t w) = w_thinking w"
  "w_turns (appendThought t w) = w_turns w" "w_busy (updateAlignmentBadge x w) = w_busy w"
  "w_thinking (updateAlignmentBadge x w) = w_thinking w" "w_turns (updateAlignmentBadge x w) = w_turns w"
  by (simp_all add: appendBubble_def updateAttachmentLabel_def appendThought_def updateAlignmentBadge_def Let_def)

lemma setBusy_fields [simp]:
  "w_busy (setBusy U b w) = b" "w_thinking (setBusy U b w) = (if b then Some thinking_text else None)" "w_turns (setBusy U b w) = w_turns w"
  by (simp_all add: setBusy_def showThinking_def hideThinking_def Let_def)

lemma on_event_busy:
  "w_busy (on_event U e w) \<longleftrightarrow> w_busy w \<and> \<not> ends_turn e" "w_turns (on_event U e w) = w_turns w"
  "(w_thinking w \<noteq> None \<longleftrightarrow> w_busy w) \<Longrightarrow> (w_thinking (on_event U e w) \<noteq> None \<longleftrightarrow> w_busy (on_event U e w))"
  by (cases e; simp add: Let_def)+

lemma after_events_busy:
  "w_busy (after_events U es w) \<longleftrightarrow> w_busy w \<and> \<not> list_ex ends_turn es" "w_turns (after_events U es w) = w_turns w"
  by (induction es arbitrary: w) (auto simp: after_events_def on_event_busy)

text \<open>Sends and callbacks in any order.\<close>

datatype window_op = Sends qstring | Hears turn_event

fun window_step :: "ui_env \<Rightarrow> window_op \<Rightarrow> window \<Rightarrow> window" where
  "window_step U (Sends text) w = sendMessage U text w"
| "window_step U (Hears e) w = on_event U e w"

definition window_run :: "ui_env \<Rightarrow> window_op list \<Rightarrow> window" where
  "window_run U ops = foldl (\<lambda>w x. window_step U x w) new_window ops"

fun ending :: "window_op \<Rightarrow> bool" where
  "ending (Hears e) = ends_turn e"
| "ending (Sends t) = False"

lemma send_fields:
  "trimmed text \<noteq> [] \<Longrightarrow> \<not> w_busy w \<Longrightarrow>
     w_busy (sendMessage U text w) \<and> w_thinking (sendMessage U text w) \<noteq> None
     \<and> w_turns (sendMessage U text w) = w_turns w @ [(full_message text (w_attachments w), image_of U (w_attachments w))]"
  "trimmed text = [] \<or> w_busy w \<Longrightarrow> sendMessage U text w = w"
  by (simp_all add: sendMessage_def Let_def)

text \<open>
  C31: one turn at a time: whatever is sent and whatever callbacks come in between, the thinking label
  is there exactly while the window is busy, and the number of turns asked of the core is at most one
  more than the number of turns that were ended by a complete or an error; it is one more than the
  turns that ended before only while the window is busy.
\<close>

theorem window_asks_once:
  "(w_thinking (window_run U ops) \<noteq> None \<longleftrightarrow> w_busy (window_run U ops))
   \<and> length (w_turns (window_run U ops)) \<le> length (filter ending ops) + (if w_busy (window_run U ops) then 1 else 0)"
proof -
  have "(w_thinking (foldl (\<lambda>w x. window_step U x w) w ops) \<noteq> None \<longleftrightarrow> w_busy (foldl (\<lambda>w x. window_step U x w) w ops))
      \<and> length (w_turns (foldl (\<lambda>w x. window_step U x w) w ops))
          \<le> n + length (filter ending ops) + (if w_busy (foldl (\<lambda>w x. window_step U x w) w ops) then 1 else 0)"
    if "w_thinking w \<noteq> None \<longleftrightarrow> w_busy w" "length (w_turns w) \<le> n + (if w_busy w then 1 else 0)" for w n
    using that
  proof (induction ops arbitrary: w n)
    case (Cons x ops)
    have "length (w_turns (window_step U x w)) \<le> (n + (if ending x then 1 else 0)) + (if w_busy (window_step U x w) then 1 else 0)
        \<and> (w_thinking (window_step U x w) \<noteq> None \<longleftrightarrow> w_busy (window_step U x w))"
    proof (cases x)
      case (Sends t)
      then show ?thesis using Cons.prems send_fields[of t w U] by (cases "trimmed t = [] \<or> w_busy w") auto
    next
      case (Hears e)
      then show ?thesis using Cons.prems on_event_busy[where e = e and w = w and U = U] by auto
    qed
    then show ?case using Cons.IH[of "window_step U x w" "n + (if ending x then 1 else 0)"] by auto
  qed simp
  from this[of new_window 0] show ?thesis by (simp add: window_run_def new_window_def)
qed

section \<open>The log reel keeps the newest lines\<close>

datatype reel_op = Append qstring qstring qstring | Level int | Category qstring | Search qstring | Max nat | Clears_reel

fun reel_step :: "ui_env \<Rightarrow> reel_op \<Rightarrow> reel \<Rightarrow> reel" where
  "reel_step U (Append c l m) r = reel_append U c l m r"
| "reel_step U (Level n) r = setLevelFilter n r"
| "reel_step U (Category c) r = setCategoryFilter U c r"
| "reel_step U (Search s) r = setSearchQuery s r"
| "reel_step U (Max n) r = setMaxLines (int n) r"
| "reel_step U Clears_reel r = clear_reel r"

fun last_messages :: "qstring list \<Rightarrow> reel_op \<Rightarrow> qstring list" where
  "last_messages ms (Append c l m) = ms @ [m]"
| "last_messages ms Clears_reel = []"
| "last_messages ms _ = ms"

lemma drop_first_facts: "length (drop_first n xs) \<le> nat n" "suffix (drop_first n xs) xs"
  by (auto simp: drop_first_def suffix_drop)

text \<open>
  the reel keeps the newest lines: after any appends, filters, limits and clearings the reel holds
  at most as many lines as its limit, they are the last ones appended since it was cleared, in their
  order, and the snapshot is the lines that pass the filter, in their order.
\<close>

theorem reel_keeps_newest:
  "let r = foldl (\<lambda>r x. reel_step U x r) new_reel ops in
   int (length (rl_entries r)) \<le> rl_max r
   \<and> suffix (map le_message (rl_entries r)) (foldl last_messages [] ops)
   \<and> subseq (filteredSnapshot U r) (rl_entries r) \<and> (\<forall>e\<in>set (rl_entries r). e \<in> set (filteredSnapshot U r) \<longleftrightarrow> passes_filter U r e)"
proof -
  have "int (length (rl_entries (foldl (\<lambda>r x. reel_step U x r) r ops))) \<le> rl_max (foldl (\<lambda>r x. reel_step U x r) r ops)
      \<and> suffix (map le_message (rl_entries (foldl (\<lambda>r x. reel_step U x r) r ops))) (foldl last_messages ms ops)"
    if "int (length (rl_entries r)) \<le> rl_max r" "suffix (map le_message (rl_entries r)) ms" for r ms
    using that
  proof (induction ops arbitrary: r ms)
    case (Cons x ops)
    have "int (length (rl_entries (reel_step U x r))) \<le> rl_max (reel_step U x r)
        \<and> suffix (map le_message (rl_entries (reel_step U x r))) (last_messages ms x)"
    proof (cases x)
      case (Append c l m)
      let ?new = "rl_entries r @ [\<lparr>le_time = ue_time U (rl_made r), le_category = ue_lower U c, le_level = ue_lower U l,
                   le_message = m, le_number = level_number l\<rparr>]"
      have "suffix (map le_message (drop_first (rl_max r) ?new)) (map le_message ?new)"
        by (intro map_mono_suffix drop_first_facts)
      moreover have "suffix (map le_message ?new) (ms @ [m])" using Cons.prems(2) by simp
      ultimately have "suffix (map le_message (drop_first (rl_max r) ?new)) (ms @ [m])" by (rule suffix_order.order_trans)
      moreover have "int (length (drop_first (rl_max r) ?new)) \<le> rl_max r"
        using drop_first_facts(1)[of "rl_max r" ?new] Cons.prems(1) by linarith
      ultimately show ?thesis using Append by (simp add: reel_append_def Let_def)
    next
      case (Max n)
      have "suffix (map le_message (drop_first (int n) (rl_entries r))) (map le_message (rl_entries r))"
        by (intro map_mono_suffix drop_first_facts)
      then have "suffix (map le_message (drop_first (int n) (rl_entries r))) ms"
        using Cons.prems(2) by (rule suffix_order.order_trans)
      then show ?thesis using Max drop_first_facts(1)[of "int n" "rl_entries r"] by (simp add: setMaxLines_def)
    qed (use Cons.prems in \<open>auto simp: setLevelFilter_def setCategoryFilter_def setSearchQuery_def clear_reel_def\<close>)
    then show ?case using Cons.IH[of "reel_step U x r" "last_messages ms x"] by simp
  qed simp
  from this[of new_reel "[]"] show ?thesis by (auto simp: Let_def filteredSnapshot_def new_reel_def)
qed

end
