(* ===== verification/Core_Gate.thy ===== *)
theory Core_Gate
  imports Core_State
begin

text \<open>
  The gate of \<^verbatim>\<open>src/src/lina_core.cpp\<close>: a draft is evaluated, one that violates is reflected upon at
  most three times, the outcome goes to the ledger and the ledger moves the encoding.  The theorems
  say what can leave the gate, that a repeated answer cannot, and how far the ledger moves the
  encoding.
\<close>

section \<open>The code\<close>

definition build_reflection_prompt :: "violation_info list \<Rightarrow> dbl list \<Rightarrow> string" where
  "build_reflection_prompt viols correction =
     (let dim_name = (case viols of [] \<Rightarrow> ''unknown'' | v # _ \<Rightarrow> v_name v) in
      ''Your answer violated dimension '' @ [CHR 0x27] @ dim_name @ [CHR 0x27]
      @ '', the answer most closely relating to yours is at ''
      @ concat (map (\<lambda>i. (if 0 < i then '', '' else []) @ DIMENSION_NAMES ! i @ ''='' @ general_string 6 (correction ! i))
          [0..<DIMENSION_COUNT])
      @ ''. Please reflect on this and adjust your answer accordingly.'')"

definition speak :: "('s, 'm, 'w) env \<Rightarrow> string \<Rightarrow> (string \<times> string) list \<Rightarrow> string \<Rightarrow> ('s, 'm, 'w, string) core_act" where
  "speak E prompt hist img c =
     (case c_voice c of
        None \<Rightarrow> (c, Threw)
      | Some m \<Rightarrow> (let (m', text) = vo_raw (en_voice E) prompt hist img m in (c\<lparr>c_voice := Some m'\<rparr>, Done text)))"

definition judge :: "('s, 'm, 'w) env \<Rightarrow> string \<Rightarrow> string option \<Rightarrow> ('s, 'm, 'w, evaluation_result) core_act" where
  "judge E text ctx c =
     (case evaluate (en_gd E) (c_engine c) text ctx True of None \<Rightarrow> (c, Threw) | Some r \<Rightarrow> (c, Done r))"

definition candidate_line :: "evaluation_result \<Rightarrow> string" where
  "candidate_line r = ''pipeline candidate zone='' @ zone_name (r_zone r) @ '' score='' @ format_score (r_alignment_score r)"

definition flag_text :: "bool \<Rightarrow> string" where "flag_text b = (if b then ''1'' else ''0'')"

text \<open>
  The reflection passes: \<open>n\<close> are left, \<open>pass\<close> is the number of this one.  The value says whether an
  answer was found, and the last answer with its evaluation.
\<close>

fun reflect ::
  "('s, 'm, 'w) env \<Rightarrow> string option \<Rightarrow> dbl list \<Rightarrow> nat \<Rightarrow> nat \<Rightarrow> string \<Rightarrow> evaluation_result \<Rightarrow> string list \<Rightarrow> dbl list list
     \<Rightarrow> ('s, 'm, 'w, bool \<times> string \<times> evaluation_result) core_act" where
  "reflect E ctx anchor 0 pass current verdict texts coords = ret (False, current, verdict)"
| "reflect E ctx anchor (Suc n) pass current verdict texts coords =
     (\<lambda>c. let hist = c_history c @ [(''assistant'', current),
                  (''user'', build_reflection_prompt (violations verdict) (correction_vector verdict))] in
      bind_act (build_system_prompt E) (\<lambda>prompt.
      bind_act (speak E prompt hist []) (\<lambda>reply.
      bind_act (judge E reply ctx) (\<lambda>r.
      let flagged = is_flagged_response reply (decision_vector r) texts coords anchor in
      then_act (emit (''pipeline reflection pass='' @ string_of_nat pass @ '' zone_after='' @ zone_name (r_zone r)
                      @ '' flagged='' @ flag_text flagged))
        (if r_zone r \<noteq> Violation \<and> \<not> flagged then ret (True, reply, r)
         else reflect E ctx anchor n (pass + 1) reply r (texts @ [reply]) (coords @ [decision_vector r]))))) c)"

definition withheld_text :: string where
  "withheld_text = ''An answer is not available because the response remained outside LINA'' @ [CHR 0x27]
     @ ''s ethical boundaries after reflection.''"

definition evaluation_of :: "string \<Rightarrow> evaluation_result \<Rightarrow> string \<Rightarrow> evaluation_record" where
  "evaluation_of session r text =
     \<lparr>er_session_id = (if session = [] then ''adhoc'' else session), er_response_text = text,
      er_input_vector = decision_vector r, er_output_vector = decision_vector r,
      er_corrected_vector = correction_vector r, er_is_aligned = (r_zone r \<noteq> Violation),
      er_alignment_score = r_alignment_score r, er_correction_magnitude = correction_magnitude r,
      er_zone = zone_name (r_zone r), er_season = r_season r, er_created_at = []\<rparr>"

definition vector_sum :: "dbl list list \<Rightarrow> dbl list" where
  "vector_sum vs = foldl (map2 dadd) zero_vector vs"

text \<open>The vectors of the two sides: aligned outputs, and the inputs of all others.\<close>

definition aligned_side :: "evaluation_record list \<Rightarrow> dbl list list" where
  "aligned_side es = map er_output_vector
     (filter (\<lambda>e. er_zone e = ''aligned'' \<and> length (er_output_vector e) = DIMENSION_COUNT) es)"

definition adverse_side :: "evaluation_record list \<Rightarrow> dbl list list" where
  "adverse_side es = map er_input_vector
     (filter (\<lambda>e. er_zone e \<noteq> ''aligned'' \<and> length (er_input_vector e) = DIMENSION_COUNT) es)"

definition side_mean :: "(rat \<Rightarrow> dbl) \<Rightarrow> polytope \<Rightarrow> dbl list list \<Rightarrow> nat \<Rightarrow> dbl" where
  "side_mean gd p vs i =
     (if vs \<noteq> [] then ddiv (vector_sum vs ! i) (rnd (of_nat (length vs))) else gd (center p ! i))"

definition kDriftRate :: dbl where "kDriftRate = lit (15/100)"

definition drift_bias :: "(rat \<Rightarrow> dbl) \<Rightarrow> polytope \<Rightarrow> evaluation_record list \<Rightarrow> dbl list" where
  "drift_bias gd p es =
     map (\<lambda>i. dclamp (dmul (dsub (side_mean gd p (aligned_side es) i) (side_mean gd p (adverse_side es) i)) kDriftRate)
                (lit (-(5/100))) (lit (5/100))) [0..<DIMENSION_COUNT]"

definition update_outcome_drift :: "('s, 'm, 'w) env \<Rightarrow> ('s, 'm, 'w, unit) core_act" where
  "update_outcome_drift E =
     bind_act (on_disk (so_fetch_evaluations (en_storage E) 50)) (\<lambda>es.
     then_act
       (change (\<lambda>c. let ve = c_engine c in
          c\<lparr>c_engine := ve\<lparr>ve_feedback := set_biases (drift_bias (en_gd E) (ve_polytope ve) es) (ve_feedback ve)\<rparr>\<rparr>))
       (emit (''outcome drift n_align='' @ string_of_nat (length (aligned_side es))
              @ '' n_adverse='' @ string_of_nat (length (adverse_side es)))))"

definition record_evaluation :: "('s, 'm, 'w) env \<Rightarrow> evaluation_result \<Rightarrow> string \<Rightarrow> ('s, 'm, 'w, unit) core_act" where
  "record_evaluation E r text c =
     then_act (on_disk (so_store_evaluation (en_storage E) (evaluation_of (c_session c) r text)))
       (update_outcome_drift E) c"

definition kMaxReflectionPasses :: nat where "kMaxReflectionPasses = 3"

definition settle :: "('s, 'm, 'w) env \<Rightarrow> string option \<Rightarrow> string \<Rightarrow> evaluation_result
     \<Rightarrow> ('s, 'm, 'w, string \<times> evaluation_result) core_act" where
  "settle E ctx draft verdict c =
     (if r_zone verdict = Violation \<and> connected E c then
        bind_act (reflect E ctx (correction_vector verdict) kMaxReflectionPasses 1 draft verdict [draft] [decision_vector verdict])
          (\<lambda>(delivered, text, r).
             if delivered then ret (text, r)
             else ret (withheld_text, r\<lparr>r_zone := Violation, was_corrected := True\<rparr>)) c
      else ret (draft, verdict) c)"

definition apply_gate :: "('s, 'm, 'w) env \<Rightarrow> string \<Rightarrow> string option \<Rightarrow> ('s, 'm, 'w, string \<times> evaluation_result) core_act" where
  "apply_gate E draft ctx =
     bind_act (judge E draft ctx) (\<lambda>verdict.
     then_act (emit (candidate_line verdict))
       (bind_act (settle E ctx draft verdict) (\<lambda>(text, r).
        then_act (record_evaluation E r text)
          (then_act (emit (''pipeline delivered zone='' @ zone_name (r_zone r) @ '' corrected='' @ flag_text (was_corrected r)))
             (ret (text, r))))))"

section \<open>What the steps leave alone\<close>

lemma bind_act_Done: "bind_act m f s = (s', Done b) \<longleftrightarrow> (\<exists>s1 a. m s = (s1, Done a) \<and> f a s1 = (s', Done b))"
  by (auto simp: bind_act_def split: prod.splits outcome.splits)

lemma then_act_Done: "then_act m n s = (s', Done b) \<longleftrightarrow> (\<exists>s1 a. m s = (s1, Done a) \<and> n s1 = (s', Done b))"
  by (simp add: then_act_def bind_act_Done)

lemma emit_keeps [simp]:
  "c_engine (emit_telemetry t c) = c_engine c" "c_history (emit_telemetry t c) = c_history c"
  "c_voice (emit_telemetry t c) = c_voice c" "c_disk (emit_telemetry t c) = c_disk c"
  "c_session (emit_telemetry t c) = c_session c" "c_world (emit_telemetry t c) = c_world c"
  "c_events (emit_telemetry t c) = c_events c" "c_ready (emit_telemetry t c) = c_ready c"
  "c_active (emit_telemetry t c) = c_active c" "c_stop (emit_telemetry t c) = c_stop c"
  "c_hub (emit_telemetry t c) = c_hub c"
  by (simp_all add: emit_telemetry_def persist_telemetry_def Let_def)

lemma emit_Done [simp]: "emit t c = (emit_telemetry t c, Done ())"
  by (simp add: emit_def change_def)

lemma on_disk_Done: "on_disk m c = (c', Done a) \<longleftrightarrow> (\<exists>d. m (c_disk c) = (d, Done a) \<and> c' = c\<lparr>c_disk := d\<rparr>)"
  by (auto simp: on_disk_def split: prod.splits)

lemma judge_Done: "judge E t ctx c = (c', Done r) \<longleftrightarrow> c' = c \<and> evaluate (en_gd E) (c_engine c) t ctx True = Some r"
  by (auto simp: judge_def split: option.splits)

lemma prompt_Done:
  "build_system_prompt E c = (c', Done p) \<Longrightarrow> c_engine c' = c_engine c \<and> c_history c' = c_history c \<and> c_voice c' = c_voice c
     \<and> c_session c' = c_session c"
  by (auto simp: build_system_prompt_def bind_act_Done on_disk_Done ret_def)

lemma speak_Done:
  "speak E p h img c = (c', Done t) \<longleftrightarrow>
     (\<exists>m m'. c_voice c = Some m \<and> vo_raw (en_voice E) p h img m = (m', t) \<and> c' = c\<lparr>c_voice := Some m'\<rparr>)"
  by (auto simp: speak_def split: option.splits prod.splits)

text \<open>The voice after \<open>n\<close> answers.\<close>

inductive voice_steps :: "'m voice \<Rightarrow> nat \<Rightarrow> 'm option \<Rightarrow> 'm option \<Rightarrow> bool" for v :: "'m voice" where
  voice_rests: "voice_steps v 0 m m"
| voice_speaks: "voice_steps v n (Some (fst (vo_raw v p h img m))) m' \<Longrightarrow> voice_steps v (Suc n) (Some m) m'"

inductive_cases voice_stepsE: "voice_steps v n m m'"

text \<open>One pass: the voice answers once, and the answer is judged by an unchanged engine.\<close>

lemma reflect_pass:
  assumes "reflect E ctx anchor (Suc n) pass current verdict texts coords c = (c', Done out)"
  obtains c1 p h img m reply r1 fl where
    "c_voice c = Some m" "reply = snd (vo_raw (en_voice E) p h img m)"
    "c_voice c1 = Some (fst (vo_raw (en_voice E) p h img m))"
    "c_engine c1 = c_engine c" "c_session c1 = c_session c" "c_history c1 = c_history c"
    "evaluate (en_gd E) (c_engine c) reply ctx True = Some r1"
    "fl = is_flagged_response reply (decision_vector r1) texts coords anchor"
    "(if r_zone r1 \<noteq> Violation \<and> \<not> fl then ret (True, reply, r1)
         else reflect E ctx anchor n (pass + 1) reply r1 (texts @ [reply]) (coords @ [decision_vector r1])) c1 = (c', Done out)"
proof -
  let ?h = "c_history c @ [(''assistant'', current),
                  (''user'', build_reflection_prompt (violations verdict) (correction_vector verdict))]"
  note s = assms[unfolded reflect.simps Let_def]
  obtain a p where a: "build_system_prompt E c = (a, Done p)" and s1:
    "bind_act (speak E p ?h []) (\<lambda>reply. bind_act (judge E reply ctx) (\<lambda>r.
      then_act (emit (''pipeline reflection pass='' @ string_of_nat pass @ '' zone_after='' @ zone_name (r_zone r)
                      @ '' flagged='' @ flag_text (is_flagged_response reply (decision_vector r) texts coords anchor)))
        (if r_zone r \<noteq> Violation \<and> \<not> is_flagged_response reply (decision_vector r) texts coords anchor then ret (True, reply, r)
         else reflect E ctx anchor n (pass + 1) reply r (texts @ [reply]) (coords @ [decision_vector r])))) a = (c', Done out)"
    using s by (subst (asm) bind_act_Done) blast
  obtain b reply where b: "speak E p ?h [] a = (b, Done reply)" and s2:
    "bind_act (judge E reply ctx) (\<lambda>r.
      then_act (emit (''pipeline reflection pass='' @ string_of_nat pass @ '' zone_after='' @ zone_name (r_zone r)
                      @ '' flagged='' @ flag_text (is_flagged_response reply (decision_vector r) texts coords anchor)))
        (if r_zone r \<noteq> Violation \<and> \<not> is_flagged_response reply (decision_vector r) texts coords anchor then ret (True, reply, r)
         else reflect E ctx anchor n (pass + 1) reply r (texts @ [reply]) (coords @ [decision_vector r]))) b = (c', Done out)"
    using s1 by (subst (asm) bind_act_Done) blast
  obtain d r where d: "judge E reply ctx b = (d, Done r)" and s3:
    "then_act (emit (''pipeline reflection pass='' @ string_of_nat pass @ '' zone_after='' @ zone_name (r_zone r)
                      @ '' flagged='' @ flag_text (is_flagged_response reply (decision_vector r) texts coords anchor)))
        (if r_zone r \<noteq> Violation \<and> \<not> is_flagged_response reply (decision_vector r) texts coords anchor then ret (True, reply, r)
         else reflect E ctx anchor n (pass + 1) reply r (texts @ [reply]) (coords @ [decision_vector r])) d = (c', Done out)"
    using s2 by (subst (asm) bind_act_Done) blast
  obtain e where e: "e = emit_telemetry (''pipeline reflection pass='' @ string_of_nat pass @ '' zone_after='' @ zone_name (r_zone r)
                      @ '' flagged='' @ flag_text (is_flagged_response reply (decision_vector r) texts coords anchor)) d" and s4:
    "(if r_zone r \<noteq> Violation \<and> \<not> is_flagged_response reply (decision_vector r) texts coords anchor then ret (True, reply, r)
         else reflect E ctx anchor n (pass + 1) reply r (texts @ [reply]) (coords @ [decision_vector r])) e = (c', Done out)"
    using s3 by (subst (asm) then_act_Done) simp
  obtain m m' where m: "c_voice a = Some m" "vo_raw (en_voice E) p ?h [] m = (m', reply)" "b = a\<lparr>c_voice := Some m'\<rparr>"
    using b by (auto simp: speak_Done)
  note p = prompt_Done[OF a]
  have j: "d = b" "evaluate (en_gd E) (c_engine b) reply ctx True = Some r" using d by (simp_all add: judge_Done)
  show ?thesis
  proof (rule that)
    show "c_voice c = Some m" using p m by simp
    show "reply = snd (vo_raw (en_voice E) p ?h [] m)" using m by simp
    show "c_voice e = Some (fst (vo_raw (en_voice E) p ?h [] m))" using e j m by simp
    show "c_engine e = c_engine c" "c_session e = c_session c" "c_history e = c_history c" using e j m p by simp_all
    show "evaluate (en_gd E) (c_engine c) reply ctx True = Some r" using j m p by simp
    show "is_flagged_response reply (decision_vector r) texts coords anchor
        = is_flagged_response reply (decision_vector r) texts coords anchor" ..
  qed (rule s4)
qed

lemma reflect_Done:
  assumes "reflect E ctx anchor n pass current verdict texts coords c = (c', Done (ok, t, r))"
  shows "c_engine c' = c_engine c \<and> c_session c' = c_session c \<and> c_history c' = c_history c
     \<and> (ok \<longrightarrow> r_zone r \<noteq> Violation \<and> evaluate (en_gd E) (c_engine c) t ctx True = Some r)
     \<and> (\<exists>k\<le>n. voice_steps (en_voice E) k (c_voice c) (c_voice c'))"
  using assms
proof (induction n arbitrary: pass current verdict texts coords c)
  case 0
  then show ?case by (auto simp: ret_def intro: voice_rests)
next
  case (Suc n)
  from Suc.prems show ?case
  proof (rule reflect_pass)
    fix c1 p h img m reply r1 fl
    assume m: "c_voice c = Some m" and v: "c_voice c1 = Some (fst (vo_raw (en_voice E) p h img m))"
      and k: "c_engine c1 = c_engine c" "c_session c1 = c_session c" "c_history c1 = c_history c"
      and j: "evaluate (en_gd E) (c_engine c) reply ctx True = Some r1"
      and rest: "(if r_zone r1 \<noteq> Violation \<and> \<not> fl then ret (True, reply, r1)
         else reflect E ctx anchor n (pass + 1) reply r1 (texts @ [reply]) (coords @ [decision_vector r1])) c1
           = (c', Done (ok, t, r))"
    have one: "voice_steps (en_voice E) i (c_voice c1) w \<Longrightarrow> voice_steps (en_voice E) (Suc i) (c_voice c) w" for i w
      unfolding m v by (rule voice_speaks)
    show ?thesis
    proof (cases "r_zone r1 \<noteq> Violation \<and> \<not> fl")
      case True
      then have "c' = c1" "t = reply" "r = r1" using rest by (simp_all add: ret_def)
      then show ?thesis using True j k one[OF voice_rests] by auto
    next
      case False
      then have "reflect E ctx anchor n (pass + 1) reply r1 (texts @ [reply]) (coords @ [decision_vector r1]) c1
          = (c', Done (ok, t, r))" using rest by auto
      from Suc.IH[OF this] k one show ?thesis by (metis Suc_le_mono)
    qed
  qed
qed

section \<open>How far the ledger moves the encoding\<close>

definition drift_limit :: rat where "drift_limit = 3602879701896397 / 2 ^ 56"

lemma lit_drift: "lit (5/100) = Fin drift_limit" "lit (-(5/100)) = Fin (- drift_limit)"
proof -
  have "rnd (5 / 100) = Fin (of_int 7205759403792794 * 2 powi (- 5 - 52))"
    by (rule rnd_eval) (simp_all add: power_int_def eval_nat_numeral)
  then have e: "rnd (5 / 100) = Fin drift_limit" by (simp add: drift_limit_def)
  have l: "1 < dbl_limit" using dbl_limit_big by simp
  have "rnd (5/100) = Fin (round_rat (5/100))" by (rule rnd_between(1)[of 0 1]) (use l in simp_all)
  moreover have "rnd (-(5/100)) = Fin (round_rat (-(5/100)))"
    by (rule rnd_between(1)[of "-1" 0]) (use l rep_minus[OF rep_1] in simp_all)
  ultimately show "lit (5/100) = Fin drift_limit" "lit (-(5/100)) = Fin (- drift_limit)"
    using e unfolding round_rat_minus by simp_all
qed

lemma drift_rate_number: "\<exists>q. kDriftRate = Fin q \<and> q \<noteq> 0"
proof -
  have "rnd (15 / 100) = Fin (of_int 5404319552844595 * 2 powi (- 3 - 52))"
    by (rule rnd_eval) (simp_all add: power_int_def eval_nat_numeral)
  then show ?thesis by (intro exI[of _ "5404319552844595 / 36028797018963968"]) (simp add: kDriftRate_def)
qed

lemma foldl_by_index: "foldl f s vs = foldl (\<lambda>s p. f s (vs ! p)) s [0..<length vs]"
proof -
  have "foldl f s vs = foldl f s (map (\<lambda>p. vs ! p) [0..<length vs])" by (simp add: map_nth)
  then show ?thesis by (simp only: foldl_map)
qed

lemma vector_sum_unit:
  assumes "list_all unit_point vs" "length vs < 2 ^ 31" "i < 14"
  shows "\<exists>q. vector_sum vs ! i = Fin q \<and> 0 \<le> q \<and> q \<le> of_nat (length vs)"
proof -
  have add: "map2 dadd s v = map (\<lambda>i. dadd (s ! i) (v ! i)) [0..<DIMENSION_COUNT]" if "length s = 14" "length v = 14" for s v
    by (rule nth_equalityI) (use that in \<open>simp_all add: DC del: upt_rec_numeral\<close>)
  have fold: "foldl (map2 dadd) s vs = foldl (\<lambda>s v. map (\<lambda>i. dadd (s ! i) (v ! i)) [0..<DIMENSION_COUNT]) s vs"
    if "length s = 14" for s
    using assms(1) that
  proof (induction vs arbitrary: s)
    case (Cons v vs)
    then have "length v = 14" by (simp add: unit_point_def)
    with Cons show ?case by (simp add: add DC del: upt_rec_numeral)
  qed simp
  have "vector_sum vs = foldl (\<lambda>s p. map (\<lambda>i. dadd (s ! i) (vs ! p ! i)) [0..<DIMENSION_COUNT]) zero_vector [0..<length vs]"
    unfolding vector_sum_def fold[of zero_vector, simplified zero_vector_def, simplified DC length_replicate, OF refl, folded DC, folded zero_vector_def]
    by (rule foldl_by_index)
  moreover obtain T where "foldl (\<lambda>s p. map (\<lambda>i. dadd (s ! i) (vs ! p ! i)) [0..<DIMENSION_COUNT]) (fv (\<lambda>_. 0)) [0..<length vs] = fv T"
     "\<forall>i<14. 0 \<le> T i \<and> T i \<le> of_nat (length vs)"
    using cluster_sum_fold[of "[0..<length vs]" vs 0 "\<lambda>_. 0"] assms(1,2) by (auto simp: list_all_length)
  ultimately show ?thesis using assms(3) by (simp add: zero_vector_fv)
qed

lemma center_between: "i < 14 \<Longrightarrow> 0 \<le> center (new_polytope (from_season s)) ! i \<and> center (new_polytope (from_season s)) ! i \<le> 1"
proof -
  assume i: "i < 14"
  obtain b where b: "b \<in> {spring_bounds, summer_bounds, fall_bounds, winter_bounds}" "from_season s = from_bounds b s"
    by (rule from_season_cases)
  have "\<forall>i<14. 0 \<le> center (new_polytope (from_bounds b s)) ! i \<and> center (new_polytope (from_bounds b s)) ! i \<le> 1"
    unfolding all_less_14 using b(1) by (auto simp: new_polytope_def Let_def dims_upt lower_bounds_def upper_bounds_def bounds_defs)
  with i show ?thesis unfolding b(2) by blast
qed

lemma side_mean_number:
  assumes "gmp_get_d gd" "list_all unit_point vs" "length vs < 2 ^ 31" "i < 14"
  shows "is_fin (side_mean gd (new_polytope (from_season s)) vs i)"
proof (cases "vs = []")
  case True
  have "\<bar>center (new_polytope (from_season s)) ! i\<bar> < dbl_limit"
    using center_between[OF assms(4), of s] dbl_limit_big by (auto simp: abs_less_iff)
  then show ?thesis using True gmp_get_d.get_d_Fin[OF assms(1)] by (metis side_mean_def is_fin.simps(1))
next
  case False
  obtain q where q: "vector_sum vs ! i = Fin q" "0 \<le> q" "q \<le> of_nat (length vs)"
    using vector_sum_unit[OF assms(2-4)] by blast
  have "rep (of_int (int (length vs)))" using assms(3) by (intro rep_of_int) simp
  moreover have "(of_nat (length vs) :: rat) \<le> 2 ^ 31" using assms(3) by (metis less_imp_le of_nat_le_iff of_nat_numeral of_nat_power)
  ultimately have n: "rnd (of_nat (length vs)) = Fin (of_nat (length vs))"
    using rnd_fix[of "of_nat (length vs)"] dbl_limit_big by simp
  show ?thesis using mean_step[of q "length vs" 1] q False by (auto simp: side_mean_def n simp del: ddiv.simps)
qed

lemma drift_number:
  assumes "gmp_get_d gd" and "list_all usable_reading es" and "length es < 2 ^ 31" and "i < 14"
  shows "\<exists>q. drift_bias gd (new_polytope (from_season s)) es ! i = Fin q \<and> \<bar>q\<bar> \<le> drift_limit \<and> bias_ok (Fin q)"
proof -
  have side: "list_all unit_point (aligned_side es)" "list_all unit_point (adverse_side es)"
    using assms(2) by (auto simp: aligned_side_def adverse_side_def list_all_iff usable_reading_def usable_vector_def)
  have len: "length (aligned_side es) < 2 ^ 31" "length (adverse_side es) < 2 ^ 31"
    unfolding aligned_side_def adverse_side_def length_map using assms(3) by (meson length_filter_le order_le_less_trans)+
  define a where "a = dsub (side_mean gd (new_polytope (from_season s)) (aligned_side es) i)
    (side_mean gd (new_polytope (from_season s)) (adverse_side es) i)"
  have "a \<noteq> NaN" unfolding a_def by (intro dsub_fin_not_NaN side_mean_number assms side len)
  moreover obtain k where k: "kDriftRate = Fin k" "k \<noteq> 0" using drift_rate_number by blast
  ultimately have n: "dmul a kDriftRate \<noteq> NaN" unfolding k(1) using k(2) by (cases a) (simp_all add: inf_sgn_def)
  have d: "0 \<le> drift_limit" by (simp add: drift_limit_def)
  obtain q where q: "dclamp (dmul a kDriftRate) (Fin (- drift_limit)) (Fin drift_limit) = Fin q" "- drift_limit \<le> q" "q \<le> drift_limit"
    by (rule dclamp_range[OF n, of "- drift_limit" drift_limit]) (use d in simp_all)
  have "drift_limit \<le> val MAX_WEIGHT_ADJUSTMENT" by (simp add: drift_limit_def max_adjustment)
  with q have b: "\<bar>q\<bar> \<le> drift_limit \<and> bias_ok (Fin q)" by (auto simp: bias_ok_def)
  have "drift_bias gd (new_polytope (from_season s)) es ! i = Fin q"
    using q(1) assms(4) unfolding drift_bias_def lit_drift by (simp add: DC a_def del: upt_rec_numeral)
  with b show ?thesis by blast
qed

text \<open>
  no history can move the encoding by more than 0.05: whatever the ledger holds, as long as its
  complete vectors are points of the unit cube, the drift of every dimension is a number of magnitude
  at most the double next to 0.05, so that the engine stays able to evaluate.
\<close>

theorem drift_stays_small:
  assumes "gmp_get_d gd" and "list_all usable_reading es" and "length es < 2 ^ 31" and "i < 14"
  shows "\<exists>q. drift_bias gd (new_polytope (from_season s)) es ! i = Fin q \<and> \<bar>q\<bar> \<le> drift_limit \<and> bias_ok (Fin q)"
  by (rule drift_number[OF assms])

theorem drift_stays_small_witness:
  "\<exists>q. drift_bias trunc_d (new_polytope (from_season ''spring'')) [] ! 3 = Fin q \<and> \<bar>q\<bar> \<le> drift_limit"
  using drift_stays_small[OF gmp.gmp_get_d_axioms, of "[]" 3 "''spring''"] by auto

text \<open>
  a confirmed correction is forgotten with the next answer: the ledger's drift replaces the
  biases, so recording an evaluation gives the same biases, and ends the same way, with a correction
  confirmed just before as without it.
\<close>

theorem corrections_are_forgotten:
  assumes "ve_confirm_correction now p who (c_engine c) = Inr (ec, ve)"
    and "record_evaluation E r text (c\<lparr>c_engine := ve\<rparr>) = (c1, o1)" and "record_evaluation E r text c = (c2, o2)"
  shows "o1 = o2 \<and> (o1 = Done () \<longrightarrow> dimension_biases (ve_feedback (c_engine c1)) = dimension_biases (ve_feedback (c_engine c2)))"
proof -
  have p: "ve_polytope ve = ve_polytope (c_engine c)"
    using assms(1) by (auto simp: ve_confirm_correction_def split: sum.splits prod.splits)
  obtain d1 r1 where d1: "so_store_evaluation (en_storage E) (evaluation_of (c_session c) r text) (c_disk c) = (d1, r1)" by fastforce
  obtain d2 r2 where d2: "so_fetch_evaluations (en_storage E) 50 d1 = (d2, r2)" by fastforce
  show ?thesis
    using assms(2,3) d1 d2 p
    by (cases r1; cases r2)
       (auto simp: record_evaluation_def update_outcome_drift_def then_act_def bind_act_def on_disk_def change_def set_biases_def Let_def)
qed

section \<open>The gate always answers\<close>

text \<open>The part of a result that is recorded.\<close>

definition result_ok :: "string \<Rightarrow> evaluation_result \<Rightarrow> bool" where
  "result_ok s r \<longleftrightarrow> r_season r = s \<and> unit_point (decision_vector r) \<and> unit_point (correction_vector r)
     \<and> rate_fits (r_alignment_score r) \<and> rate_fits (correction_magnitude r)"

lemma eval_result_ok: "eval_ok s r \<Longrightarrow> result_ok s r"
proof -
  assume r: "eval_ok s r"
  have "unit_point (correction_vector r)"
  proof (cases "is_aligned r")
    case True
    then have "correction_vector r = map Fin (replicate 14 0)" using r by (auto simp: eval_ok_def zero_vector_def DC)
    then show ?thesis using unit_point_replicate[of 0] by simp
  next
    case False
    then obtain v where v: "correction_vector r = map Fin v" "length v = 14" "in_lattice (from_season s) v"
      using r by (auto simp: eval_ok_def)
    then show ?thesis unfolding unit_point_map using in_lattice_unit[OF v(3)] by auto
  qed
  moreover have "rate_fits (r_alignment_score r)" "rate_fits (correction_magnitude r)"
    using r unfolding eval_ok_def rate_fits_def by force+
  ultimately show ?thesis using r by (simp add: result_ok_def eval_ok_def)
qed

lemma judge_answers:
  assumes "gmp_get_d (en_gd E)" "engine_ok (c_engine c)"
  shows "\<exists>r. judge E t ctx c = (c, Done r) \<and> result_ok (season (ve_constraints (c_engine c))) r"
proof -
  obtain r where "evaluate (en_gd E) (c_engine c) t ctx True = Some (finish_result (c_engine c) t True r)"
    "eval_ok (season (ve_constraints (c_engine c))) r" by (rule evaluate_ok[OF assms])
  then show ?thesis using eval_result_ok eval_ok_finish by (force simp: judge_def)
qed

lemma drift_keeps_engine:
  assumes "gmp_get_d gd" "engine_ok ve" "list_all usable_reading es" "length es < 2 ^ 31"
  shows "engine_ok (ve\<lparr>ve_feedback := set_biases (drift_bias gd (ve_polytope ve) es) (ve_feedback ve)\<rparr>)"
proof -
  obtain s where s: "ve_constraints ve = from_season s" "ve_polytope ve = new_polytope (from_season s)"
    using assms(2) by (auto simp: engine_ok_def)
  have "biases_ok (set_biases (drift_bias gd (ve_polytope ve) es) (ve_feedback ve))"
  proof -
    have "bias_ok (drift_bias gd (ve_polytope ve) es ! i)" if "i < 14" for i
      using drift_number[OF assms(1,3,4) that, of s] unfolding s(2) by metis
    moreover have "length (drift_bias gd (ve_polytope ve) es) = 14" by (simp add: drift_bias_def DC)
    ultimately show ?thesis by (simp add: biases_ok_def set_biases_def)
  qed
  with s show ?thesis by (auto simp: engine_ok_def)
qed

context evaluation_ledger begin

lemma prompt_answers:
  assumes "en_storage E = store" "good (c_disk c)"
  shows "\<exists>c' p. build_system_prompt E c = (c', Done p) \<and> good (c_disk c') \<and> c_engine c' = c_engine c
    \<and> c_voice c' = c_voice c \<and> c_session c' = c_session c"
  using identifies[OF assms(2)] assms(1) by (auto simp: build_system_prompt_def bind_act_def on_disk_def)

lemma reflect_answers:
  assumes E: "en_storage E = store" "gmp_get_d (en_gd E)"
    and says: "\<And>p h img m. said (snd (vo_raw (en_voice E) p h img m))"
  shows "good (c_disk c) \<Longrightarrow> engine_ok (c_engine c) \<Longrightarrow> c_voice c \<noteq> None \<Longrightarrow> said current \<Longrightarrow>
    result_ok (season (ve_constraints (c_engine c))) verdict \<Longrightarrow>
    \<exists>c' ok t r. reflect E ctx anchor n pass current verdict texts coords c = (c', Done (ok, t, r)) \<and> good (c_disk c')
      \<and> said t \<and> result_ok (season (ve_constraints (c_engine c))) r"
proof (induction n arbitrary: pass current verdict texts coords c)
  case (Suc n)
  obtain c1 p where p: "build_system_prompt E c = (c1, Done p)" "good (c_disk c1)" "c_engine c1 = c_engine c" "c_voice c1 = c_voice c"
    using prompt_answers[OF E(1) Suc.prems(1)] by blast
  obtain m where m: "c_voice c = Some m" using Suc.prems(3) by blast
  let ?h = "c_history c @ [(''assistant'', current), (''user'', build_reflection_prompt (violations verdict) (correction_vector verdict))]"
  define m' where "m' = fst (vo_raw (en_voice E) p ?h [] m)"
  define reply where "reply = snd (vo_raw (en_voice E) p ?h [] m)"
  define c2 where "c2 = c1\<lparr>c_voice := Some m'\<rparr>"
  have s: "speak E p ?h [] c1 = (c2, Done reply)"
    by (simp add: speak_def p(4) m m'_def reply_def c2_def split: prod.split)
  obtain r where r: "judge E reply ctx c2 = (c2, Done r)" "result_ok (season (ve_constraints (c_engine c))) r"
    using judge_answers[OF E(2), of c2 reply ctx] Suc.prems(2) p(3) by (auto simp: c2_def)
  define flagged where "flagged = is_flagged_response reply (decision_vector r) texts coords anchor"
  define c3 where "c3 = emit_telemetry (''pipeline reflection pass='' @ string_of_nat pass @ '' zone_after='' @ zone_name (r_zone r)
                      @ '' flagged='' @ flag_text flagged) c2"
  have c3: "good (c_disk c3)" "c_engine c3 = c_engine c" "c_voice c3 \<noteq> None" using p by (simp_all add: c3_def c2_def)
  have step: "reflect E ctx anchor (Suc n) pass current verdict texts coords c =
      (if r_zone r \<noteq> Violation \<and> \<not> flagged then ret (True, reply, r)
         else reflect E ctx anchor n (pass + 1) reply r (texts @ [reply]) (coords @ [decision_vector r])) c3"
    unfolding reflect.simps Let_def flagged_def[symmetric]
    by (simp add: p(1) s r(1) c3_def flagged_def del: reflect.simps act_simps(1))
  have said: "said reply" by (simp add: reply_def says)
  show ?case
  proof (cases "r_zone r \<noteq> Violation \<and> \<not> flagged")
    case True
    then show ?thesis using step c3(1) said r(2) by auto
  next
    case False
    then show ?thesis using step Suc.IH[OF c3(1) _ c3(3) said] Suc.prems(2) c3(2) r(2) by auto
  qed
qed auto

lemma record_answers:
  assumes E: "en_storage E = store" "gmp_get_d (en_gd E)" and c: "good (c_disk c)" "engine_ok (c_engine c)"
    and f: "fit (evaluation_of (c_session c) r t)"
  shows "\<exists>c'. record_evaluation E r t c = (c', Done ()) \<and> good (c_disk c') \<and> engine_ok (c_engine c') \<and> c_voice c' = c_voice c"
proof -
  obtain d1 where d1: "so_store_evaluation store (evaluation_of (c_session c) r t) (c_disk c) = (d1, Done ())" "good d1"
    using stores[OF c(1) f] by blast
  obtain es where es: "so_fetch_evaluations store 50 d1 = (d1, Done es)" "int (length es) \<le> 50" "list_all usable_reading es"
    using fetches[OF d1(2), of 50] by auto
  show ?thesis
    using drift_keeps_engine[OF E(2) c(2) es(3)] es(2) d1(2)
    by (simp add: record_evaluation_def update_outcome_drift_def then_act_def bind_act_def on_disk_def change_def E(1) d1(1) es(1) Let_def)
qed

lemma gate_answers:
  assumes E: "en_storage E = store" "gmp_get_d (en_gd E)"
    and says: "\<And>p h img m. said (snd (vo_raw (en_voice E) p h img m))"
    and fits: "\<And>r t. said t \<Longrightarrow> result_ok (season (ve_constraints (c_engine c))) r \<Longrightarrow> fit (evaluation_of (c_session c) r t)"
    and c: "good (c_disk c)" "engine_ok (c_engine c)" and t: "said draft" "said withheld_text"
  shows "\<exists>c' t r. apply_gate E draft ctx c = (c', Done (t, r)) \<and> said t \<and> good (c_disk c') \<and> engine_ok (c_engine c')
    \<and> (\<exists>k\<le>3. voice_steps (en_voice E) k (c_voice c) (c_voice c'))"
proof -
  let ?s = "season (ve_constraints (c_engine c))"
  obtain d where d: "judge E draft ctx c = (c, Done d)" "result_ok ?s d" using judge_answers[OF E(2) c(2), of draft ctx] by blast
  define c1 where "c1 = emit_telemetry (candidate_line d) c"
  have k1: "c_disk c1 = c_disk c" "c_engine c1 = c_engine c" "c_voice c1 = c_voice c" "c_session c1 = c_session c"
    "connected E c1 = connected E c" by (simp_all add: c1_def connected_def)
  obtain c2 t r where s: "settle E ctx draft d c1 = (c2, Done (t, r))" "good (c_disk c2)" "c_engine c2 = c_engine c"
    "c_session c2 = c_session c" "said t" "result_ok ?s r" "\<exists>k\<le>3. voice_steps (en_voice E) k (c_voice c) (c_voice c2)"
  proof (cases "r_zone d = Violation \<and> connected E c")
    case False
    then have "settle E ctx draft d c1 = (c1, Done (draft, d))" by (auto simp: settle_def k1)
    then show thesis using that k1 c t d(2) voice_rests by (metis zero_le)
  next
    case True
    then have v: "c_voice c1 \<noteq> None" by (auto simp: connected_def k1 split: option.splits)
    obtain e ok t' r' where r: "reflect E ctx (correction_vector d) kMaxReflectionPasses 1 draft d [draft] [decision_vector d] c1
        = (e, Done (ok, t', r'))" "good (c_disk e)" "said t'" "result_ok ?s r'"
      using reflect_answers[of E said c1 draft d ctx "correction_vector d" kMaxReflectionPasses 1 "[draft]" "[decision_vector d]",
          OF E says] c t v d(2) by (auto simp: k1)
    note f = reflect_Done[OF r(1), unfolded k1 kMaxReflectionPasses_def]
    have w: "result_ok ?s (r'\<lparr>r_zone := Violation, was_corrected := True\<rparr>)" using r(4) by (simp add: result_ok_def)
    have "settle E ctx draft d c1 = (e, Done (if ok then (t', r') else (withheld_text, r'\<lparr>r_zone := Violation, was_corrected := True\<rparr>)))"
      using True r(1) by (simp add: settle_def k1)
    then show thesis using that[of e] r f w t(2) by (cases ok) auto
  qed
  obtain c3 where c3: "record_evaluation E r t c2 = (c3, Done ())" "good (c_disk c3)" "engine_ok (c_engine c3)" "c_voice c3 = c_voice c2"
    using record_answers[OF E s(2), of r t] fits[OF s(5,6)] c(2) s(3,4) by auto
  have "apply_gate E draft ctx c =
      (emit_telemetry (''pipeline delivered zone='' @ zone_name (r_zone r) @ '' corrected='' @ flag_text (was_corrected r)) c3, Done (t, r))"
    unfolding apply_gate_def by (simp add: d(1) c1_def[symmetric] s(1) c3(1))
  with c3 s(5,7) show ?thesis by simp
qed

end

context pg_ledger begin

lemmas gate_on_ledger = book.gate_answers

end

definition fitting_text :: "ledger_columns \<Rightarrow> string \<Rightarrow> bool" where
  "fitting_text cols t \<longleftrightarrow> text_col cols t \<noteq> None"

lemma evaluation_of_fits:
  assumes "pg_ledger cols clock" "fitting_text cols session" "fitting_text cols t" "result_ok s r" "stage_name s"
  shows "evaluation_fits cols (evaluation_of session r t)"
proof -
  have "text_col cols ''adhoc'' = Some ''adhoc''"
    using pg_columns.text_printable[OF pg_ledger.memory_columns[OF assms(1)], of "''adhoc''"] by (simp add: columns.truncate_def printable_def)
  moreover have "stage_name (zone_name (r_zone r))"
    by (cases "r_zone r") (simp_all add: stage_name_def printable_def zone_name_def)
  ultimately show ?thesis using assms(2-5)
    by (simp add: evaluation_fits_def evaluation_of_def fitting_text_def result_ok_def)
qed

lemma gate_on_pg:
  assumes "gmp_get_d (en_gd E)" and "pg_ledger cols clock" and "en_storage E = pg_storage cols time_le clock stamp"
    and "engine_ok (c_engine c)" and "stage_name (season (ve_constraints (c_engine c)))"
    and "ledger_reads (c_disk c)" and "fitting_text cols (c_session c)" and "fitting_text cols draft"
    and "\<And>p h img m. fitting_text cols (snd (vo_raw (en_voice E) p h img m))"
  shows "\<exists>c' t r. apply_gate E draft ctx c = (c', Done (t, r)) \<and> fitting_text cols t \<and> ledger_reads (c_disk c')
     \<and> memory (c_disk c') = memory (c_disk c) \<and> engine_ok (c_engine c')
     \<and> (\<exists>k\<le>3. voice_steps (en_voice E) k (c_voice c) (c_voice c'))"
proof -
  have w: "fitting_text cols withheld_text"
    using pg_columns.text_printable[OF pg_ledger.memory_columns[OF assms(2)], of withheld_text]
    by (simp add: columns.truncate_def fitting_text_def withheld_text_def printable_def)
  have l: "ledger_with (memory (c_disk c)) (c_disk c)" using assms(6) by (simp add: ledger_with_def)
  have "\<exists>c' t r. apply_gate E draft ctx c = (c', Done (t, r)) \<and> fitting_text cols t \<and> ledger_with (memory (c_disk c)) (c_disk c') \<and> engine_ok (c_engine c')
    \<and> (\<exists>k\<le>3. voice_steps (en_voice E) k (c_voice c) (c_voice c'))"
    by (rule pg_ledger.gate_on_ledger[where said = "fitting_text cols", OF assms(2,3,1,9) _ l assms(4,8) w])
       (rule evaluation_of_fits[OF assms(2,7) _ _ assms(5)])
  then show ?thesis by (auto simp: ledger_with_def)
qed


text \<open>A quiet environment: nobody approves, the voice repeats one sentence, nothing runs.\<close>

definition quiet_env :: "(ledger, bool, (string \<times> string) list) env" where
  "quiet_env =
     \<lparr>en_gd = trunc_d, en_exp = series_exp, en_log = series_log,
      en_storage = pg_storage plain_ledger (\<lambda>a b. True) sample_clock sample_clock,
      en_ops = ledger_ops plain_columns sample_clock,
      en_voice = \<lparr>vo_name = (\<lambda>_. ''echo''), vo_connected = (\<lambda>b. b), vo_raw = (\<lambda>_ _ _ b. (b, ''I will dominate and deceive'')),
                  vo_stream = (\<lambda>_ _ _ b. (b, [''I will dominate'', '' and deceive''], False))\<rparr>,
      en_machine = file_machine, en_browser = [], en_handler = None,
      en_config = \<lparr>cf_workspace_dir = ''/w'', cf_context_budget = 4096\<rparr>\<rparr>"

definition quiet_core :: "(ledger, bool, (string \<times> string) list) core" where
  "quiet_core =
     \<lparr>c_ready = True, c_engine = new_value_engine (from_season ''spring'') ''spring'',
      c_disk = \<lparr>memory = \<lparr>items = [], promotions = []\<rparr>, identity = None, transcripts = [], sessions = [], actions = [],
                evaluations = [], telemetry = [], next_log_id = 1\<rparr>,
      c_voice = Some True, c_hub = new_hub, c_pool = \<lparr>hdr = new_dragon_map, tx_region = empty_ring, rx_region = empty_ring\<rparr>, c_world = [], c_session = [], c_history = [], c_queue = [],
      c_log = [], c_events = [], c_active = False, c_stop = False\<rparr>"

lemma quiet_facts:
  "gmp_get_d (en_gd quiet_env)" "en_storage quiet_env = pg_storage plain_ledger (\<lambda>a b. True) sample_clock sample_clock"
  "engine_ok (c_engine quiet_core)" "stage_name (season (ve_constraints (c_engine quiet_core)))" "ledger_reads (c_disk quiet_core)"
  "fitting_text plain_ledger t" "connected quiet_env quiet_core"
  using engine_ok_new[of "''spring''"]
  by (simp_all add: quiet_env_def quiet_core_def gmp.gmp_get_d_axioms fitting_text_def plain_ledger_def plain_columns_def
      ledger_reads_def identity_reads_def engine_ok_new stage_name_def printable_def new_value_engine_def connected_def)


lemma quiet_answers:
  "\<exists>c' t r. apply_gate quiet_env draft None quiet_core = (c', Done (t, r))"
  using gate_on_pg[OF quiet_facts(1) plain_book.pg_ledger_axioms quiet_facts(2-5) quiet_facts(6) quiet_facts(6) quiet_facts(6),
      of draft None] by blast

section \<open>What leaves the gate\<close>



theorem corrections_are_forgotten_witness:
  "\<exists>p ec ve r c1 c2. ve_confirm_correction 9 p ''lina'' (c_engine quiet_core) = Inr (ec, ve)
     \<and> record_evaluation quiet_env r ''hello'' (quiet_core\<lparr>c_engine := ve\<rparr>) = (c1, Done ())
     \<and> record_evaluation quiet_env r ''hello'' quiet_core = (c2, Done ())
     \<and> dimension_biases (ve_feedback (c_engine c1)) = dimension_biases (ve_feedback (c_engine c2))"
proof -
  obtain p where p: "flag_miscalibration (new_feedback ''fall'') ''e'' ''r'' zero_vector [(int 3, Fin 1)] ''lina'' '''' = Some p"
    and n: "requires_confirmation_from p = ''none''"
    by (auto simp: flag_miscalibration_def adjust_dim_def DC new_feedback_def)
  obtain ec ve where v: "ve_confirm_correction 9 p ''lina'' (c_engine quiet_core) = Inr (ec, ve)"
    by (auto simp: ve_confirm_correction_def confirm_correction_def n Let_def)
  obtain r where r: "result_ok (season (ve_constraints (c_engine quiet_core))) r"
    using judge_answers[OF quiet_facts(1,3)] by blast
  have f: "evaluation_fits plain_ledger (evaluation_of (c_session quiet_core) r ''hello'')"
    by (rule evaluation_of_fits[OF plain_book.pg_ledger_axioms quiet_facts(6) quiet_facts(6) r quiet_facts(4)])
  obtain c2 where c2: "record_evaluation quiet_env r ''hello'' quiet_core = (c2, Done ())"
    using plain_book.book.record_answers[OF quiet_facts(2,1) _ quiet_facts(3) f, of "memory (c_disk quiet_core)"] quiet_facts(5)
    by (auto simp: ledger_with_def)
  obtain c1 o1 where c1: "record_evaluation quiet_env r ''hello'' (quiet_core\<lparr>c_engine := ve\<rparr>) = (c1, o1)" by fastforce
  show ?thesis using corrections_are_forgotten[OF v c1 c2] v c1 c2 by blast
qed

end
