(* ===== verification/Core_Turns.thy ===== *)
theory Core_Turns
  imports Core_Gate
begin

text \<open>
  The turns and the sessions of \<^verbatim>\<open>src/src/lina_core.cpp\<close>: \<^verbatim>\<open>chat\<close>, the open-window turn with its tool
  calls, the voluntary turn, the beginning and the end of a session, the growth from season to
  season and the start of the core.  The loop of a turn is a recursion on the tool calls that are
  left; it has no value when a tool does not come back.  The theorems say what each turn adds to the
  history, that a turn makes at most eight calls and ends when they come back, what the ledger makes
  of a call, and that the stored season and that of the engine move together.
\<close>

section \<open>Messages and history\<close>

definition file_name :: "string \<Rightarrow> string" where
  "file_name p = rev (takeWhile (\<lambda>x. x \<noteq> CHR ''/'') (rev p))"

definition stored_message :: "string \<Rightarrow> string \<Rightarrow> string" where
  "stored_message user_message image_path =
     user_message @ (if image_path = [] then [] else newline @ ''[image attached: '' @ file_name image_path @ '']'')"

definition kHistoryLimit :: nat where "kHistoryLimit = 20"

definition push_answer :: "string \<Rightarrow> (string \<times> string) list \<Rightarrow> (string \<times> string) list" where
  "push_answer text h =
     (let h1 = h @ [(''assistant'', text)] in if kHistoryLimit < length h1 then drop 2 h1 else h1)"

definition push_history :: "string \<Rightarrow> string \<Rightarrow> ('s, 'm, 'w, unit) core_act" where
  "push_history role text = change (\<lambda>c. c\<lparr>c_history := c_history c @ [(role, text)]\<rparr>)"

text \<open>The memory of an answer.\<close>

definition remember :: "('s, 'm, 'w) env \<Rightarrow> instant \<Rightarrow> string \<Rightarrow> evaluation_result \<Rightarrow> ('s, 'm, 'w, unit) core_act" where
  "remember E moment text r c =
     (case build_item (en_gd E) (c_engine c) (it_id moment) (it_iso moment) text [(''emotional_weight'', Fin 5)]
             ''conversation'' None False of
        None \<Rightarrow> (c, Threw)
      | Some item \<Rightarrow>
          on_disk (so_store_memory_item (en_storage E)
            (item\<lparr>mi_marker := (if r_zone r = AcceptableVariance then ''wary'' else ''warm'')\<rparr>)) c)"

section \<open>The blocking turn\<close>

definition no_voice_text :: string where "no_voice_text = ''_LINA has no voice right now._''"

definition raw_answer :: "('s, 'm, 'w) env \<Rightarrow> string \<Rightarrow> string \<Rightarrow> ('s, 'm, 'w, string) core_act" where
  "raw_answer E prompt image_path c =
     (if connected E c then speak E prompt (c_history c) image_path c else ret no_voice_text c)"

definition chat :: "('s, 'm, 'w) env \<Rightarrow> instant \<Rightarrow> string \<Rightarrow> string \<Rightarrow> ('s, 'm, 'w, string) core_act" where
  "chat E moment user_message image_path c =
     (if \<not> c_ready c then ret ''Error: LINA core not ready'' c else
      bind_act (build_system_prompt E) (\<lambda>prompt.
      then_act (push_history ''user'' (stored_message user_message image_path))
        (bind_act (raw_answer E prompt image_path) (\<lambda>raw.
         bind_act (apply_gate E raw (Some user_message)) (\<lambda>(final, r).
           if r_zone r = Violation then then_act (emit ''chat withheld (polytope)'') (ret final)
           else then_act (remember E moment final r)
                  (then_act (change (\<lambda>c. c\<lparr>c_history := push_answer final (c_history c)\<rparr>)) (ret final)))))) c)"

section \<open>The end of a turn\<close>

definition is_blank :: "char \<Rightarrow> bool" where
  "is_blank x \<longleftrightarrow> x = CHR '' '' \<or> x = char_of (9 :: nat) \<or> x = char_of (13 :: nat) \<or> x = char_of (10 :: nat)"

definition finalize_turn :: "('s, 'm, 'w) env \<Rightarrow> instant \<Rightarrow> string \<Rightarrow> string \<Rightarrow> ('s, 'm, 'w, unit) core_act" where
  "finalize_turn E moment reply user_message =
     (let text = dropWhile is_blank reply in
      if text = [] then emit ''turn finalized empty''
      else bind_act (apply_gate E text (if user_message = [] then None else Some user_message)) (\<lambda>(delivered, r).
        if r_zone r = Violation then
          then_act (emit ''turn withheld (polytope)'') (change (emit_turn_event ''complete'' delivered))
        else
          then_act (change (emit_turn_event ''complete'' delivered))
            (then_act (remember E moment delivered r)
               (then_act (change (\<lambda>c. c\<lparr>c_history := push_answer delivered (c_history c)\<rparr>))
                  (emit (''turn finalized zone='' @ zone_name (r_zone r)))))))"

section \<open>The open-window turn\<close>

text \<open>The pieces of a stream, with the parser fed by each.\<close>

definition generate_stream :: "('s, 'm, 'w) env \<Rightarrow> string \<Rightarrow> (string \<times> string) list \<Rightarrow> string \<Rightarrow> ('s, 'm, 'w, string list) core_act" where
  "generate_stream E frame hist image_path c =
     (case c_voice c of
        None \<Rightarrow> (c, Threw)
      | Some m \<Rightarrow> (let (m', pieces, stop) = vo_stream (en_voice E) frame hist image_path m
                   in (c\<lparr>c_voice := Some m', c_stop := c_stop c \<or> stop\<rparr>, Done pieces)))"

definition kScoreEvery :: nat where "kScoreEvery = 8"

definition hear_piece ::
  "('s, 'm, 'w) env \<Rightarrow> string \<Rightarrow> string \<Rightarrow> string \<times> parser \<times> nat \<Rightarrow> ('s, 'm, 'w, string \<times> parser \<times> nat) core_act" where
  "hear_piece E user_message piece heard =
     (let (full, p, n) = heard; full' = full @ piece; (ths, p') = take_completed_thoughts (feed p piece)
      in then_act (change (\<lambda>c. foldl (\<lambda>c t. emit_turn_event ''thought'' t c) c ths))
           (if kScoreEvery \<le> n + 1 then
              bind_act (judge E full' (Some user_message)) (\<lambda>r.
                then_act (change (emit_turn_event ''score'' (format_score (r_alignment_score r)))) (ret (full', p', 0)))
            else ret (full', p', n + 1)))"

definition listen ::
  "('s, 'm, 'w) env \<Rightarrow> string \<Rightarrow> string \<Rightarrow> (string \<times> string) list \<Rightarrow> string \<Rightarrow> ('s, 'm, 'w, parsed_turn) core_act" where
  "listen E user_message frame hist image_path =
     bind_act (generate_stream E frame hist image_path) (\<lambda>pieces.
     bind_act (for_each (hear_piece E user_message) pieces ([], new_parser, 0)) (\<lambda>(full, p, n).
     ret (result p)))"

text \<open>One tool call; the value is the history of the turn with the call and its result.\<close>

definition tool_call ::
  "('s, 'm, 'w) env \<Rightarrow> instant \<Rightarrow> string \<Rightarrow> (string \<times> string) list \<Rightarrow> ('s, 'm, 'w) core
     \<Rightarrow> (('s, 'm, 'w) core \<times> (string \<times> string) list outcome) option" where
  "tool_call E moment json hist c =
     (let c1 = emit_turn_event ''tool_call'' json c;
          name = json_string json ''name''; args = json_object json ''arguments'';
          h1 = hist @ [(''assistant'', kToolCallOpen @ json @ kToolCallClose)]
      in if name = [] then
           Some (emit_turn_event ''tool_result'' ''error: tool call missing name'' c1,
                 Done (h1 @ [(''user'', ''[tool_result error] tool call missing name'')]))
         else
           map_option
             (\<lambda>(c2, res). case res of
                  Threw \<Rightarrow> (c2, Threw)
                | Done r \<Rightarrow>
                    (let text = (if tr_ok r then tr_summary r else tr_error r) in
                     (emit_turn_event ''tool_result'' (name @ ''|'' @ flag_text (tr_ok r) @ ''|'' @ text) c2,
                      Done (h1 @ [(''user'', ''[tool_result name='' @ name @ '' ok='' @ (if tr_ok r then ''true'' else ''false'')
                                              @ '']'' @ newline @ text)]))))
             (execute_tool E moment \<lparr>rq_name = name, rq_arguments = args, rq_description = json, rq_action_id = []\<rparr> c1))"

definition close_turn :: "string \<Rightarrow> ('s, 'm, 'w, unit) core_act" where
  "close_turn message = then_act (change (\<lambda>c. c\<lparr>c_active := False\<rparr>)) (emit message)"

text \<open>
  What a round meets: its instant, and whether the turn was asked to stop since the stream before.
\<close>

record round =
  rd_instant :: instant
  rd_stop :: bool

definition kMaxToolCallsPerTurn :: nat where "kMaxToolCallsPerTurn = 8"

fun turn_rounds ::
  "('s, 'm, 'w) env \<Rightarrow> string \<Rightarrow> string \<Rightarrow> string \<Rightarrow> (nat \<Rightarrow> round) \<Rightarrow> nat \<Rightarrow> (string \<times> string) list
     \<Rightarrow> ('s, 'm, 'w) core \<Rightarrow> (('s, 'm, 'w) core \<times> unit outcome) option" where
  "turn_rounds E user_message image_path frame rounds left hist c =
     (let moment = rd_instant (rounds left); c0 = c\<lparr>c_stop := c_stop c \<or> rd_stop (rounds left)\<rparr> in
      if c_stop c0 then Some (close_turn ''turn end stopped'' c0)
      else case listen E user_message frame hist image_path c0 of
             (c1, Threw) \<Rightarrow> Some (c1, Threw)
           | (c1, Done parsed) \<Rightarrow>
               if c_stop c1 then
                 Some (then_act (finalize_turn E moment (response parsed) user_message) (close_turn ''turn end stopped'') c1)
               else if has_tool_call parsed \<and> tool_call_json parsed \<noteq> [] \<and> 0 < left then
                 (case tool_call E moment (tool_call_json parsed) hist c1 of
                    None \<Rightarrow> None
                  | Some (c2, Threw) \<Rightarrow> Some (c2, Threw)
                  | Some (c2, Done h2) \<Rightarrow> turn_rounds E user_message image_path frame rounds (left - 1) h2 c2)
               else Some (then_act (finalize_turn E moment (response parsed) user_message) (close_turn ''turn end'') c1))"

declare turn_rounds.simps [simp del]

definition run_turn_loop ::
  "('s, 'm, 'w) env \<Rightarrow> instant \<Rightarrow> (nat \<Rightarrow> round) \<Rightarrow> string \<Rightarrow> string \<Rightarrow> ('s, 'm, 'w) core
     \<Rightarrow> (('s, 'm, 'w) core \<times> unit outcome) option" where
  "run_turn_loop E moment rounds user_message image_path c =
     (case build_turn_frame E moment user_message (c_history c) c of
        (c1, Threw) \<Rightarrow> Some (c1, Threw)
      | (c1, Done frame) \<Rightarrow>
          turn_rounds E user_message image_path frame rounds kMaxToolCallsPerTurn (c_history c) c1)"

text \<open>
  The begin of a turn: whether the loop is started, where \<open>crossed\<close> says that the window's boundary
  has passed.
\<close>

definition report_error :: "string \<Rightarrow> ('s, 'm, 'w) core \<Rightarrow> ('s, 'm, 'w) core" where
  "report_error message c = c\<lparr>c_events := c_events c @ [On_error message]\<rparr>"

definition begin_turn ::
  "('s, 'm, 'w) env \<Rightarrow> bool \<Rightarrow> string \<Rightarrow> string \<Rightarrow> ('s, 'm, 'w) core \<Rightarrow> ('s, 'm, 'w) core \<times> bool" where
  "begin_turn E crossed user_message image_path c =
     (if c_active c then (report_error ''a turn is already active'' c, False)
      else if \<not> c_ready c then (report_error ''core not ready'' c, False)
      else if \<not> connected E c then (report_error ''no voice attached (D-033)'' c, False)
      else
        let c1 = c\<lparr>c_stop := False, c_history := c_history c @ [(''user'', stored_message user_message image_path)]\<rparr>;
            c2 = (if crossed then emit_turn_event ''window'' ''[cycle_reset] fresh window'' c1 else c1)
        in (emit_telemetry ''turn begin'' (c2\<lparr>c_active := True\<rparr>), True))"

definition stop_turn :: "('s, 'm, 'w) core \<Rightarrow> ('s, 'm, 'w) core" where
  "stop_turn c = emit_telemetry ''turn stop requested'' (c\<lparr>c_stop := True\<rparr>)"

definition user_turn ::
  "('s, 'm, 'w) env \<Rightarrow> instant \<Rightarrow> (nat \<Rightarrow> round) \<Rightarrow> bool \<Rightarrow> string \<Rightarrow> string \<Rightarrow> ('s, 'm, 'w) core
     \<Rightarrow> (('s, 'm, 'w) core \<times> unit outcome) option" where
  "user_turn E moment rounds crossed user_message image_path c =
     (let (c1, started) = begin_turn E crossed user_message image_path c in
      if started then run_turn_loop E moment rounds user_message image_path c1 else Some (c1, Done ()))"

section \<open>The voluntary turn\<close>

definition floor_text :: string where
  "floor_text = ''[Your floor is open. You may speak if you have something to say, or remain silent.]''"

definition release :: "('s, 'm, 'w, unit) core_act" where
  "release = change (\<lambda>c. c\<lparr>c_active := False\<rparr>)"

definition speak_up :: "('s, 'm, 'w) env \<Rightarrow> instant \<Rightarrow> string \<Rightarrow> ('s, 'm, 'w, unit) core_act" where
  "speak_up E moment reply =
     (let utterance = dropWhile is_blank reply in
      if utterance = [] then release
      else if is_greeting_only utterance then then_act (emit ''voluntary silence (greeting only)'') release
      else then_act (emit ''voluntary utterance'') (then_act (finalize_turn E moment utterance []) release))"

definition run_voluntary_turn :: "('s, 'm, 'w) env \<Rightarrow> instant \<Rightarrow> ('s, 'm, 'w, unit) core_act" where
  "run_voluntary_turn E moment c =
     (if c_active c then ret () c else
      let c0 = c\<lparr>c_active := True\<rparr> in
      if \<not> connected E c0 then release c0
      else bind_act (build_turn_frame E moment [] (c_history c0)) (\<lambda>frame.
           bind_act (generate_stream E (frame @ floor_text) (c_history c0) []) (\<lambda>pieces.
           speak_up E moment (response (result (feed_all new_parser pieces))))) c0)"

section \<open>Seasons\<close>

definition row_text :: "memory_item_row \<Rightarrow> string" where
  "row_text row = (if mr_narrative row = [] then value_or (mr_concept row) [] else mr_narrative row)"

definition kPoles :: int where "kPoles = 3"

definition discover_home_regions :: "('s, 'm, 'w) env \<Rightarrow> ('s, 'm, 'w, unit) core_act" where
  "discover_home_regions E =
     bind_act (on_disk (so_fetch_memories_by_status (en_storage E) ''active'')) (\<lambda>rows c.
       let coords = map (\<lambda>t. encode t None) (filter (\<lambda>t. t \<noteq> []) (map row_text rows)) in
       case set_memory_poles (en_gd E) coords kPoles (c_engine c) of
         None \<Rightarrow> (c, Threw)
       | Some ve \<Rightarrow>
           emit (''poles: '' @ string_of_nat (length (pe_poles (ve_poles ve))) @ '' home regions from ''
                 @ string_of_nat (length coords) @ '' memories'') (c\<lparr>c_engine := ve\<rparr>))"

record season_state =
  ss_season :: string
  ss_sessions :: int
  ss_evaluations :: int
  ss_rate :: dbl
  ss_memories :: int

definition kAlignmentWindow :: int where "kAlignmentWindow = 100"

definition alignment_rate_of :: "evaluation_record list \<Rightarrow> dbl" where
  "alignment_rate_of evals =
     (if evals = [] then Fin 0
      else ddiv (rnd (of_nat (length (filter (\<lambda>e. er_zone e \<noteq> ''violation'') evals)))) (rnd (of_nat (length evals))))"

definition season_metrics :: "('s, 'm, 'w) env \<Rightarrow> ('s, 'm, 'w, season_state) core_act" where
  "season_metrics E =
     bind_act (on_disk (so_get_identity (en_storage E))) (\<lambda>i.
     bind_act (on_disk (so_fetch_evaluations (en_storage E) kAlignmentWindow)) (\<lambda>evals.
     bind_act (on_disk (so_count_qualifying_memories (en_storage E))) (\<lambda>n.
     ret \<lparr>ss_season = id_season i, ss_sessions = id_session_count i, ss_evaluations = int (length evals),
          ss_rate = alignment_rate_of evals, ss_memories = n\<rparr>)))"

definition check_season_progress :: "('s, 'm, 'w) env \<Rightarrow> ('s, 'm, 'w, bool \<times> string list) core_act" where
  "check_season_progress E =
     bind_act (season_metrics E) (\<lambda>m.
     bind_act (on_disk (so_get_identity (en_storage E))) (\<lambda>i.
     then_act (on_disk (so_update_identity (en_storage E)
                 (i\<lparr>id_total_evaluations := ss_evaluations m, id_alignment_rate := ss_rate m\<rparr>)))
       (let (earned, reasons) =
              can_advance (ss_sessions m) (ss_evaluations m) (ss_rate m) 0 (ss_memories m) (ss_season m) 0 None
        in if earned then ret (earned, reasons)
           else then_act (emit (''season check '' @ ss_season m @ '' not yet ('' @ string_of_nat (length reasons)
                                @ '' criteria unmet)'')) (ret (earned, reasons)))))"

definition landmark :: "('s, 'm, 'w) env \<Rightarrow> instant \<Rightarrow> string \<Rightarrow> string \<Rightarrow> ('s, 'm, 'w, unit) core_act" where
  "landmark E moment old new c =
     (case build_item (en_gd E) (c_engine c) (it_id moment) (it_iso moment)
             (''The season turned: '' @ old @ '' became '' @ new @ ''.'')
             [(''emotional_weight'', Fin 10), (''identity_significance'', Fin 10)] ''reflection'' (Some new) False of
        None \<Rightarrow> (c, Threw)
      | Some item \<Rightarrow>
          on_disk (so_store_memory_item (en_storage E) (item\<lparr>mi_kind := ''identity'', mi_must_keep := True\<rparr>)) c)"

definition apply_season_advance :: "('s, 'm, 'w) env \<Rightarrow> instant \<Rightarrow> ('s, 'm, 'w, string) core_act" where
  "apply_season_advance E moment =
     bind_act (on_disk (so_get_identity (en_storage E))) (\<lambda>i.
     case next_season (id_season i) of
       None \<Rightarrow> ret []
     | Some s \<Rightarrow>
         then_act (on_disk (so_update_identity (en_storage E) (i\<lparr>id_season := s\<rparr>)))
           (then_act (change (\<lambda>c. c\<lparr>c_engine := advance_season s (c_engine c)\<rparr>))
              (then_act (discover_home_regions E)
                 (then_act (landmark E moment (id_season i) s)
                    (then_act (emit (''season advance '' @ id_season i @ ''->'' @ s))
                       (ret (''Season advanced: '' @ id_season i @ '' -> '' @ s @ ''.'')))))))"

definition grow :: "('s, 'm, 'w) env \<Rightarrow> instant \<Rightarrow> ('s, 'm, 'w, string) core_act" where
  "grow E moment =
     bind_act (check_season_progress E) (\<lambda>(earned, reasons).
       if earned then apply_season_advance E moment else ret [])"

section \<open>Sessions\<close>

definition begin_session :: "('s, 'm, 'w) env \<Rightarrow> instant \<Rightarrow> ('s, 'm, 'w, unit) core_act" where
  "begin_session E moment =
     bind_act (on_disk (so_get_identity (en_storage E))) (\<lambda>i.
     let n = id_session_count i + 1; key = ''session_'' @ string_of_int n @ ''_'' @ string_of_int (it_ns moment) in
     then_act (change (\<lambda>c. c\<lparr>c_session := key\<rparr>))
       (then_act (on_disk (so_create_session (en_storage E)
           \<lparr>sr_id = key, sr_session_number = n, sr_season = id_season i, sr_depth = id_depth i, sr_finalized = False,
            sr_created_at = it_iso moment, sr_finalized_at = []\<rparr>))
          (then_act (on_disk (so_update_identity (en_storage E) (i\<lparr>id_session_count := n\<rparr>)))
             (then_act (change (\<lambda>c. c\<lparr>c_history := []\<rparr>)) (emit (''session begin id='' @ key))))))"

definition session_report :: "string \<Rightarrow> sweep_counts \<Rightarrow> maintenance_counts \<Rightarrow> string" where
  "session_report key counts maint =
     ''Session '' @ key @ '' finalized.'' @ newline
     @ ''Memory sweep: '' @ string_of_int (to_long_term counts) @ '' promoted, '' @ string_of_int (purged counts) @ '' purged.'' @ newline
     @ ''Maintenance: '' @ string_of_int (adjusted maint) @ '' adjusted, '' @ string_of_int (to_legacy maint) @ '' to legacy.''"

definition end_session :: "('s, 'm, 'w) env \<Rightarrow> instant \<Rightarrow> ('s, 'm, 'w, string) core_act" where
  "end_session E moment c =
     (if c_session c = [] then ret ''No active session'' c else
      let key = c_session c; store = Some (en_ops E) in
      bind_act (on_disk (run_sweep store (it_iso moment) (it_ns moment))) (\<lambda>counts.
      bind_act (on_disk (run_maintenance (en_exp E) (en_log E) store (it_iso moment) (it_ns moment))) (\<lambda>maint.
      then_act (on_disk (so_finalize_session (en_storage E) key))
        (then_act (emit (''session end id='' @ key @ '' promoted='' @ string_of_int (to_long_term counts)
                         @ '' purged='' @ string_of_int (purged counts)))
          (bind_act (grow E moment) (\<lambda>line.
           then_act (change (\<lambda>c. c\<lparr>c_session := []\<rparr>))
             (ret (session_report key counts maint @ (if line = [] then [] else newline @ line)))))))) c)"

section \<open>Start, status, voice\<close>

definition attach_model :: "('s, 'm, 'w) env \<Rightarrow> 'm option \<Rightarrow> ('s, 'm, 'w) core \<Rightarrow> ('s, 'm, 'w) core" where
  "attach_model E adapter c =
     (let name = (case adapter of None \<Rightarrow> [] | Some m \<Rightarrow> vo_name (en_voice E) m) in
      emit_telemetry (if name = [] then ''driver detached'' else ''driver attached name='' @ name) (c\<lparr>c_voice := adapter\<rparr>))"

definition get_status :: "('s, 'm, 'w) env \<Rightarrow> ('s, 'm, 'w, string) core_act" where
  "get_status E c =
     (if \<not> c_ready c then ret ''NOT READY'' c else
      bind_act (on_disk (op_fetch_by_status (en_ops E) ''active'')) (\<lambda>rows.
      ret (''LINA Core Ready'' @ newline
           @ (case c_voice c of
                Some m \<Rightarrow> ''Model: '' @ vo_name (en_voice E) m @ newline
              | None \<Rightarrow> ''Model: none (no driver attached '' @ em_dash @ '' see D-033)'' @ newline)
           @ ''Season: '' @ season (ve_constraints (c_engine c)) @ newline
           @ ''Memory: '' @ string_of_nat (length rows) @ '' active'')) c)"

definition new_core :: "string \<Rightarrow> 's \<Rightarrow> pool \<Rightarrow> 'w \<Rightarrow> ('s, 'm, 'w) core" where
  "new_core s d p w =
     \<lparr>c_ready = False, c_engine = new_value_engine (from_season s) s, c_disk = d, c_voice = None, c_hub = new_hub,
      c_pool = p, c_world = w, c_session = [], c_history = [], c_queue = [], c_log = [], c_events = [],
      c_active = False, c_stop = False\<rparr>"

definition make_workspace :: "('s, 'm, 'w) env \<Rightarrow> ('s, 'm, 'w, string) core_act" where
  "make_workspace E c =
     (let (w, r) = ensure_workspace (en_machine E) (new_tool_engine (cf_workspace_dir (en_config E))) (c_world c)
      in (c\<lparr>c_world := w\<rparr>, r))"

text \<open>The spoke: \<open>None\<close> when no pool is configured.\<close>

definition attach_spoke :: "os_answers option \<Rightarrow> ('s, 'm, 'w, unit) core_act" where
  "attach_spoke answers c =
     (case answers of None \<Rightarrow> ret () c | Some os \<Rightarrow>
      let (ok, h) = attach os (c_pool c) (c_hub c) in
      if ok then
        emit ''dragoncache spoke attached''
          (c\<lparr>c_hub := h, c_pool := set_status h STATUS_LIVE (spoke_ready h SPOKE_ALL (c_pool c))\<rparr>)
      else emit ''dragoncache spoke attach failed (carve not live?)'' (c\<lparr>c_hub := h\<rparr>))"

definition initialize ::
  "('s, 'm, 'w) env \<Rightarrow> instant \<Rightarrow> os_answers option \<Rightarrow> pool \<Rightarrow> 'w \<Rightarrow> 's \<Rightarrow> 's \<times> ('s, 'm, 'w) core outcome" where
  "initialize E moment answers p w d =
     (case so_get_identity (en_storage E) d of
        (disk, Threw) \<Rightarrow> (disk, Threw)
      | (disk, Done i) \<Rightarrow>
          (case bind_act (make_workspace E) (\<lambda>_.
                 then_act (attach_spoke answers)
                   (then_act (discover_home_regions E)
                      (then_act (grow E moment) (change (\<lambda>c. c\<lparr>c_ready := True\<rparr>)))))
                 (new_core (id_season i) disk p w) of
             (c, Threw) \<Rightarrow> (c_disk c, Threw)
           | (c, Done _) \<Rightarrow> (c_disk c, Done c)))"

section \<open>The tools and the rounds\<close>

lemma registered: "tools (foldl (\<lambda>e t. register_tool (f t) e) e ts) = tools e @ map f ts"
  by (induction ts arbitrary: e) (simp_all add: register_tool_def)

lemma core_tools_list: "tools (core_tools E) = map on_world (own_tools E)"
  by (simp add: core_tools_def set_approver_def registered) (simp add: new_tool_engine_def)

lemma core_tools_approver [simp]: "approver (core_tools E) = Some (request_approval E)"
  by (simp add: core_tools_def set_approver_def)

text \<open>What a round can be.\<close>

lemma turn_rounds_cases:
  fixes c :: "('s, 'm, 'w) core"
  assumes "turn_rounds E user img frame rounds left hist c = out"
  obtains
    (stopped) "out = Some (close_turn ''turn end stopped'' (c\<lparr>c_stop := c_stop c \<or> rd_stop (rounds left)\<rparr>))"
  | (broken) c1 where "listen E user frame hist img (c\<lparr>c_stop := c_stop c \<or> rd_stop (rounds left)\<rparr>) = (c1, Threw)" "out = Some (c1, Threw)"
  | (ended) c1 parsed m where "listen E user frame hist img (c\<lparr>c_stop := c_stop c \<or> rd_stop (rounds left)\<rparr>) = (c1, Done parsed)"
      "out = Some (then_act (finalize_turn E (rd_instant (rounds left)) (response parsed) user) (close_turn m) c1)"
  | (called) c1 parsed where "listen E user frame hist img (c\<lparr>c_stop := c_stop c \<or> rd_stop (rounds left)\<rparr>) = (c1, Done parsed)" "0 < left"
      "out = (case tool_call E (rd_instant (rounds left)) (tool_call_json parsed) hist c1 of
                    None \<Rightarrow> None
                  | Some (c2, Threw) \<Rightarrow> Some (c2, Threw)
                  | Some (c2, Done h2) \<Rightarrow> turn_rounds E user img frame rounds (left - 1) h2 c2)"
proof -
  define c0 where "c0 = c\<lparr>c_stop := c_stop c \<or> rd_stop (rounds left)\<rparr>"
  note e = assms[unfolded turn_rounds.simps[of E user img frame rounds left hist c] Let_def, folded c0_def]
  obtain c1 res where l: "listen E user frame hist img c0 = (c1, res)" by fastforce
  show thesis
  proof (cases "c_stop c0")
    case True
    then show thesis using e stopped by (simp add: c0_def)
  next
    case False
    note e1 = e[unfolded if_not_P[OF False] l prod.case]
    show thesis
    proof (cases res)
      case Threw
      then show thesis using e1 l broken[of c1] by (simp add: c0_def)
    next
      case (Done parsed)
      note e2 = e1[unfolded Done outcome.case]
      note l2 = l[unfolded Done c0_def]
      show thesis
      proof (cases "c_stop c1")
        case True
        show thesis by (rule ended[OF l2 e2[unfolded if_P[OF True], symmetric]])
      next
        case k: False
        note e3 = e2[unfolded if_not_P[OF k]]
        show thesis
        proof (cases "has_tool_call parsed \<and> tool_call_json parsed \<noteq> [] \<and> 0 < left")
          case True
          show thesis by (rule called[OF l2 _ e3[unfolded if_P[OF True], symmetric]]) (use True in simp)
        next
          case False
          show thesis by (rule ended[OF l2 e3[unfolded if_not_P[OF False], symmetric]])
        qed
      qed
    qed
  qed
qed

section \<open>What a chat adds to the history\<close>

lemma gate_history: "apply_gate E draft ctx c = (c', Done (t, r)) \<Longrightarrow> c_history c' = c_history c"
proof -
  assume g: "apply_gate E draft ctx c = (c', Done (t, r))"
  obtain d c2 where d: "settle E ctx draft d (emit_telemetry (candidate_line d) c) = (c2, Done (t, r))"
    and rest: "(then_act (record_evaluation E r t)
          (then_act (emit (''pipeline delivered zone='' @ zone_name (r_zone r) @ '' corrected='' @ flag_text (was_corrected r)))
             (ret (t, r)))) c2 = (c', Done (t, r))"
    using g by (auto simp: apply_gate_def bind_act_Done then_act_Done judge_Done split: prod.splits)
  have "c_history c' = c_history c2"
    using rest by (auto simp: then_act_Done bind_act_Done record_evaluation_def update_outcome_drift_def on_disk_Done change_def Let_def)
  moreover have "c_history c2 = c_history c"
  proof (cases "r_zone d = Violation \<and> connected E (emit_telemetry (candidate_line d) c)")
    case True
    then obtain e x where s: "reflect E ctx (correction_vector d) kMaxReflectionPasses 1 draft d [draft] [decision_vector d]
        (emit_telemetry (candidate_line d) c) = (e, Done x)" and
      q: "(\<lambda>(delivered, text, r). if delivered then ret (text, r)
             else ret (withheld_text, r\<lparr>r_zone := Violation, was_corrected := True\<rparr>)) x e = (c2, Done (t, r))"
      using d by (auto simp: settle_def bind_act_Done)
    obtain ok t' r' where x: "x = (ok, t', r')" by (cases x)
    have "c2 = e" using q by (cases ok) (auto simp: x)
    then show ?thesis using reflect_Done[OF s[unfolded x]] by simp
  next
    case False
    then show ?thesis using d by (auto simp: settle_def)
  qed
  ultimately show ?thesis by simp
qed

lemma push_answer_length: "length (push_answer t h) = (if 19 < length h then length h - 1 else length h + 1)"
  by (auto simp: push_answer_def Let_def kHistoryLimit_def)

lemma raw_Done: "raw_answer E p img c = (c', Done t) \<Longrightarrow> c_history c' = c_history c \<and> (\<not> connected E c \<longrightarrow> t = no_voice_text)"
  by (auto simp: raw_answer_def speak_Done split: if_splits)

lemma remember_Done: "remember E moment t r c = (c', Done x) \<Longrightarrow> c_history c' = c_history c"
  by (auto simp: remember_def on_disk_Done split: option.splits)

text \<open>
  C39: a chat keeps the question whatever becomes of the answer: a chat that returns has put its draft
  through the gate, with the voice's text or the fixed one when there is no voice; an answer that
  leaves the gate without a violation is added and then the two oldest entries go when there are
  more than twenty; a withheld one adds the question alone and removes nothing.  So no chat makes the
  history shorter, and every withheld one makes it longer, beyond any limit.
\<close>

theorem chat_keeps_question:
  assumes "c_ready c" and "chat E moment user img c = (c', Done t)"
  shows "\<exists>c1 raw c2 r. apply_gate E raw (Some user) c1 = (c2, Done (t, r))
     \<and> c_history c1 = c_history c @ [(''user'', stored_message user img)]
     \<and> (\<not> connected E c \<longrightarrow> raw = no_voice_text)
     \<and> c_history c' = (if r_zone r = Violation then c_history c1 else push_answer t (c_history c1))
     \<and> length (c_history c') = (if r_zone r = Violation then length (c_history c) + 1
                                 else if 18 < length (c_history c) then length (c_history c) else length (c_history c) + 2)"
proof -
  let ?q = "(''user'', stored_message user img)"
  have e: "bind_act (build_system_prompt E) (\<lambda>prompt.
      then_act (push_history ''user'' (stored_message user img))
        (bind_act (raw_answer E prompt img) (\<lambda>raw.
         bind_act (apply_gate E raw (Some user)) (\<lambda>(final, r).
           if r_zone r = Violation then then_act (emit ''chat withheld (polytope)'') (ret final)
           else then_act (remember E moment final r)
                  (then_act (change (\<lambda>c. c\<lparr>c_history := push_answer final (c_history c)\<rparr>)) (ret final)))))) c = (c', Done t)"
    using assms by (simp add: chat_def)
  obtain a p where a: "build_system_prompt E c = (a, Done p)" and e1: "then_act (push_history ''user'' (stored_message user img))
        (bind_act (raw_answer E p img) (\<lambda>raw.
         bind_act (apply_gate E raw (Some user)) (\<lambda>(final, r).
           if r_zone r = Violation then then_act (emit ''chat withheld (polytope)'') (ret final)
           else then_act (remember E moment final r)
                  (then_act (change (\<lambda>c. c\<lparr>c_history := push_answer final (c_history c)\<rparr>)) (ret final))))) a = (c', Done t)"
    using e by (subst (asm) bind_act_Done) blast
  define b where "b = a\<lparr>c_history := c_history a @ [?q]\<rparr>"
  have "push_history ''user'' (stored_message user img) a = (b, Done ())" by (simp add: push_history_def change_def b_def)
  then obtain c1 raw where r: "raw_answer E p img b = (c1, Done raw)" and e2:
    "bind_act (apply_gate E raw (Some user)) (\<lambda>(final, r).
           if r_zone r = Violation then then_act (emit ''chat withheld (polytope)'') (ret final)
           else then_act (remember E moment final r)
                  (then_act (change (\<lambda>c. c\<lparr>c_history := push_answer final (c_history c)\<rparr>)) (ret final))) c1 = (c', Done t)"
    using e1 by (subst (asm) then_act_Done, subst (asm) bind_act_Done) auto
  obtain c2 x where g: "apply_gate E raw (Some user) c1 = (c2, Done x)" and e3:
    "(\<lambda>(final, r). if r_zone r = Violation then then_act (emit ''chat withheld (polytope)'') (ret final)
           else then_act (remember E moment final r)
                  (then_act (change (\<lambda>c. c\<lparr>c_history := push_answer final (c_history c)\<rparr>)) (ret final))) x c2 = (c', Done t)"
    using e2 by (subst (asm) bind_act_Done) blast
  obtain f r where x: "x = (f, r)" by (cases x)
  note pr = prompt_Done[OF a]
  have conn: "connected E b = connected E c" using pr by (simp add: connected_def b_def)
  have h1: "c_history c1 = c_history c @ [?q]" using raw_Done[OF r] pr by (simp add: b_def)
  have h2: "c_history c2 = c_history c1" by (rule gate_history[OF g[unfolded x]])
  have h3: "f = t \<and> c_history c' = (if r_zone r = Violation then c_history c2 else push_answer t (c_history c2))"
    using e3 by (auto simp: x then_act_Done change_def dest: remember_Done split: if_splits)
  show ?thesis
    using g x h1 h2 h3 raw_Done[OF r] conn
    by (intro exI[of _ c1] exI[of _ raw] exI[of _ c2] exI[of _ r]) (auto simp: push_answer_length)
qed

section \<open>A chat always answers\<close>

lemma remember_item:
  assumes "gmp_get_d gd" "engine_ok ve"
  shows "\<exists>item. build_item gd ve key clock t [(''emotional_weight'', Fin 5)] ''conversation'' None False = Some item
     \<and> mi_id item = key \<and> mi_narrative item = t \<and> mi_source item = ''conversation'' \<and> mi_created_at item = clock
     \<and> mi_hemisphere item = ''personal'' \<and> mi_season item = [] \<and> mi_kind item = ''episodic'' \<and> mi_status item = ''active''
     \<and> unit_point (mi_coordinates item) \<and> num_ok (mi_score item) \<and> num_ok (mi_geometric item) \<and> num_ok (mi_intensity item)
     \<and> mi_concept item = None \<and> mi_understanding item = None \<and> mi_reference_count item = 0"
proof -
  obtain g where g: "geometric_for gd ve (encode_coordinates t) = Some (Fin g)" "0 \<le> g" "g \<le> 10"
    using geometric_for_ok[OF assms] by blast
  obtain q where q: "score_memory (Fin 5) (Fin 0) (Fin 0) (Fin g) (Fin (1/2)) = Fin q" "0 \<le> q" "q \<le> 15/2"
    using score_small[of 5 g "1/2"] g by auto
  have "unit_point (encode_coordinates t)" by (simp add: encode_coordinates_def encode_unit_point)
  moreover have "num_ok (Fin q)" "num_ok (Fin g)" "num_ok (Fin (1/2))"
    unfolding num_ok_def using g q by (intro exI[of _ q], simp, intro exI[of _ g], simp, intro exI[of _ "1/2"], simp)
  ultimately show ?thesis using g q
    by (simp add: build_item_def Let_def get_factor_def value_or_def crown_texts_def new_memory_item_def)
qed

lemma remember_on_pg:
  assumes pg: "pg_ledger cols clock" "en_storage E = pg_storage cols time_le clock stamp"
    and e: "gmp_get_d (en_gd E)" "engine_ok (c_engine c)"
    and t: "fitting_text cols t" "fitting_text cols (it_id moment)"
    and new: "\<forall>row\<in>set (items (memory (c_disk c))). c_item_id row \<noteq> it_id moment"
    and m: "it_iso moment \<noteq> []" "time_col cols (it_iso moment) \<noteq> None"
  shows "\<exists>d. remember E moment t r c = (c\<lparr>c_disk := d\<rparr>, Done ()) \<and> identity d = identity (c_disk c)
     \<and> evaluations d = evaluations (c_disk c)"
proof -
  let ?cols = "columns.truncate cols"
  note pc = pg_ledger.memory_columns[OF pg(1)]
  obtain item where b: "build_item (en_gd E) (c_engine c) (it_id moment) (it_iso moment) t [(''emotional_weight'', Fin 5)] ''conversation'' None False
      = Some item" and i: "mi_id item = it_id moment" "mi_narrative item = t" "mi_source item = ''conversation''" "mi_created_at item = it_iso moment"
      "mi_hemisphere item = ''personal''" "mi_season item = []" "mi_kind item = ''episodic''" "mi_status item = ''active''"
      "unit_point (mi_coordinates item)" "num_ok (mi_score item)" "num_ok (mi_geometric item)" "num_ok (mi_intensity item)"
      "mi_concept item = None" "mi_understanding item = None" "mi_reference_count item = 0"
    using remember_item[OF e] by metis
  define it where "it = item\<lparr>mi_marker := (if r_zone r = AcceptableVariance then ''wary'' else ''warm'')\<rparr>"
  have nm: "name_col ?cols x \<noteq> None" if "stage_name x" for x using pg_columns.name_printable[OF pc that] by simp
  have tx: "text_col ?cols ''conversation'' \<noteq> None"
    using pg_columns.text_printable[OF pc, of "''conversation''"] by (simp add: printable_def)
  have st: "stage_name ''wary''" "stage_name ''warm''" "stage_name ''personal''" "stage_name ''episodic''" "stage_name ''active''" "stage_name []"
    by (simp_all add: stage_name_def printable_def)
  have f: "text_col ?cols t \<noteq> None" "text_col ?cols (it_id moment) \<noteq> None" "time_col ?cols (it_iso moment) \<noteq> None"
    using t m by (simp_all add: fitting_text_def columns.truncate_def)
  have s: "pg_storable ?cols it"
    unfolding pg_storable_def using i f nm st tx m(1) by (simp add: it_def)
  obtain v where v: "item_texts ?cols clock it = Some v" "v ! 0 = mi_id it"
    by (rule pg_columns.item_texts_ok[OF pc s, of clock]) simp
  have k: "mi_id it = it_id moment" using i(1) by (simp add: it_def)
  have "\<exists>p. store_memory_item ?cols clock it (memory (c_disk c)) = (p, Done ())"
    using new v k by (auto simp: store_memory_item_def has_id_def pg_columns.follow_up_eq[OF pc s])
  then obtain p where p: "store_memory_item ?cols clock it (memory (c_disk c)) = (p, Done ())" by blast
  have "remember E moment t r c = (c\<lparr>c_disk := (c_disk c)\<lparr>memory := p\<rparr>\<rparr>, Done ())"
    using p by (simp add: remember_def b it_def[symmetric] pg(2) pg_storage_def Let_def on_disk_def with_memory_def)
  then show ?thesis by (intro exI[of _ "(c_disk c)\<lparr>memory := p\<rparr>"]) simp
qed

lemma chat_on_pg:
  assumes "gmp_get_d (en_gd E)" and "pg_ledger cols clock" and "en_storage E = pg_storage cols time_le clock stamp"
    and "engine_ok (c_engine c)" and "stage_name (season (ve_constraints (c_engine c)))"
    and "ledger_reads (c_disk c)" and "fitting_text cols (c_session c)"
    and "\<And>p h img m. fitting_text cols (snd (vo_raw (en_voice E) p h img m))"
    and "c_ready c" and "fitting_text cols (it_id moment)" and "it_iso moment \<noteq> []" and "time_col cols (it_iso moment) \<noteq> None"
    and "\<forall>row\<in>set (items (memory (c_disk c))). c_item_id row \<noteq> it_id moment"
  shows "\<exists>c' t. chat E moment user img c = (c', Done t) \<and> ledger_reads (c_disk c') \<and> engine_ok (c_engine c')"
proof -
  obtain d i where d: "get_identity cols clock stamp (c_disk c) = (d, Done i)" "ledger_reads d" "memory d = memory (c_disk c)"
    using pg_ledger.identifies_always[OF assms(2,6), of stamp] by blast
  obtain p where p: "build_system_prompt E c = (c\<lparr>c_disk := d\<rparr>, Done p)"
    using d(1) by (simp add: build_system_prompt_def bind_act_def on_disk_def assms(3) pg_storage_def Let_def)
  define b where "b = c\<lparr>c_disk := d, c_history := c_history c @ [(''user'', stored_message user img)]\<rparr>"
  have push: "push_history ''user'' (stored_message user img) (c\<lparr>c_disk := d\<rparr>) = (b, Done ())"
    by (simp add: push_history_def change_def b_def)
  have nv: "fitting_text cols no_voice_text"
    using pg_columns.text_printable[OF pg_ledger.memory_columns[OF assms(2)], of no_voice_text]
    by (simp add: columns.truncate_def fitting_text_def no_voice_text_def printable_def)
  obtain c1 raw where raw: "raw_answer E p img b = (c1, Done raw)" "fitting_text cols raw" "c_engine c1 = c_engine b"
    "c_disk c1 = c_disk b" "c_session c1 = c_session b"
  proof (cases "connected E b")
    case False
    then show thesis using that nv by (simp add: raw_answer_def)
  next
    case True
    then obtain m where m: "c_voice b = Some m" by (auto simp: connected_def split: option.splits)
    obtain m' w where w: "vo_raw (en_voice E) p (c_history b) img m = (m', w)" by fastforce
    show thesis using that[of "b\<lparr>c_voice := Some m'\<rparr>" w] True m w assms(8)[of p "c_history b" img m]
      by (simp add: raw_answer_def speak_def)
  qed
  have k: "engine_ok (c_engine c1)" "stage_name (season (ve_constraints (c_engine c1)))" "ledger_reads (c_disk c1)"
    "fitting_text cols (c_session c1)" "memory (c_disk c1) = memory (c_disk c)"
    using raw d assms(4,5,7) by (simp_all add: b_def)
  obtain c2 t r where g: "apply_gate E raw (Some user) c1 = (c2, Done (t, r))" "ledger_reads (c_disk c2)" "memory (c_disk c2) = memory (c_disk c1)"
    "engine_ok (c_engine c2)" "fitting_text cols t" using gate_on_pg[OF assms(1-3) k(1-4) raw(2) assms(8), of "Some user"] by blast
  show ?thesis
  proof (cases "r_zone r = Violation")
    case True
    then show ?thesis using assms(9) p push raw(1) g by (simp add: chat_def)
  next
    case False
    have fresh: "\<forall>row\<in>set (items (memory (c_disk c2))). c_item_id row \<noteq> it_id moment" using assms(13) g(3) k(5) by simp
    obtain e where e: "remember E moment t r c2 = (c2\<lparr>c_disk := e\<rparr>, Done ())" "identity e = identity (c_disk c2)"
      "evaluations e = evaluations (c_disk c2)"
      using remember_on_pg[OF assms(2,3,1) g(4,5) assms(10) fresh assms(11,12), of r] by blast
    have "ledger_reads e" using g(2) e(2,3) by (simp add: ledger_reads_def identity_reads_def)
    then show ?thesis using False assms(9) p push raw(1) g(1,4) e(1) by (simp add: chat_def change_def)
  qed
qed



theorem chat_keeps_question_witness:
  "\<exists>c' t. chat quiet_env \<lparr>it_iso = sample_clock, it_ns = 7, it_id = ''m2''\<rparr> ''hello'' [] quiet_core = (c', Done t)
     \<and> (length (c_history c') = 1 \<or> length (c_history c') = 2)"
proof -
  let ?m = "\<lparr>it_iso = sample_clock, it_ns = 7, it_id = ''m2''\<rparr>"
  have m: "c_ready quiet_core" "it_iso ?m \<noteq> []" "time_col plain_ledger (it_iso ?m) \<noteq> None"
    "\<forall>row\<in>set (items (memory (c_disk quiet_core))). c_item_id row \<noteq> it_id ?m"
    using plain_book.clock_column by (simp_all add: quiet_core_def sample_clock_def)
  obtain c' t where c: "chat quiet_env ?m ''hello'' [] quiet_core = (c', Done t)"
    using chat_on_pg[OF quiet_facts(1) plain_book.pg_ledger_axioms quiet_facts(2-5) quiet_facts(6) quiet_facts(6) m(1)
        quiet_facts(6) m(2-4), of "''hello''" "[]"] by blast
  have h: "length (c_history quiet_core) = 0" by (simp add: quiet_core_def)
  obtain r :: evaluation_result where "length (c_history c') = (if r_zone r = Violation then length (c_history quiet_core) + 1
      else if 18 < length (c_history quiet_core) then length (c_history quiet_core) else length (c_history quiet_core) + 2)"
    using chat_keeps_question[OF m(1) c] by blast
  then have "length (c_history c') = 1 \<or> length (c_history c') = 2" unfolding h by (cases "r_zone r = Violation") simp_all
  with c show ?thesis by blast
qed

section \<open>A turn ends and makes few calls\<close>

definition calls :: "('s, 'm, 'w) core \<Rightarrow> nat" where
  "calls c = length (filter (\<lambda>e. case e of On_tool_call _ \<Rightarrow> True | _ \<Rightarrow> False) (c_events c))"

abbreviation events_stay :: "turn_event list \<Rightarrow> (('s, 'm, 'w) core, 'a) act \<Rightarrow> bool" where
  "events_stay es m \<equiv> keeps (\<lambda>c. c_events c = es) m"

abbreviation calls_stay :: "nat \<Rightarrow> (('s, 'm, 'w) core, 'a) act \<Rightarrow> bool" where
  "calls_stay n m \<equiv> keeps (\<lambda>c. calls c = n) m"

lemma keepsD: "keeps P m \<Longrightarrow> m s = (s', r) \<Longrightarrow> P s \<Longrightarrow> P s'"
  unfolding keeps_def by (metis fst_conv)

lemma keeps_at: "(\<And>s s' r. P s \<Longrightarrow> m s = (s', r) \<Longrightarrow> P s') \<Longrightarrow> keeps P m"
  unfolding keeps_def by (metis prod.collapse)

lemma calls_emit [simp]: "calls (emit_telemetry m c) = calls c"
  by (simp add: calls_def)

lemma calls_event: "calls (emit_turn_event kind body c) = calls c + (if kind = ''tool_call'' then 1 else 0)"
  by (auto simp: calls_def emit_turn_event_def persist_telemetry_def Let_def callback_of_def result_event_def split: option.splits)

lemma calls_thoughts: "calls (foldl (\<lambda>c t. emit_turn_event ''thought'' t c) c ths) = calls c"
  by (induction ths arbitrary: c) (simp_all add: calls_event)

lemma events_stay_basic [intro]:
  "events_stay es (emit m)" "events_stay es (judge E t ctx)" "events_stay es (speak E p h img)" "events_stay es (generate_stream E p h img)"
  by (auto simp: keeps_def judge_def speak_def generate_stream_def split: option.splits prod.splits)

lemma events_stay_disk [intro]: "events_stay es (on_disk m)"
  by (simp add: keeps_def on_disk_def split: prod.splits)

lemma events_stay_change: "(\<And>c. c_events (f c) = c_events c) \<Longrightarrow> events_stay es (change f)"
  by (simp add: keeps_def change_def)

lemma events_stay_prompt [intro]: "events_stay es (build_system_prompt E)"
  unfolding build_system_prompt_def by (intro keeps_bind events_stay_disk keeps_ret)

lemma events_stay_reflect [intro]: "events_stay es (reflect E ctx anchor k pass current verdict texts coords)"
proof (induction k arbitrary: pass current verdict texts coords)
  case (Suc k)
  have b: "events_stay es (bind_act (build_system_prompt E) (\<lambda>prompt. bind_act (speak E prompt h []) (\<lambda>reply. bind_act (judge E reply ctx) (\<lambda>r.
      then_act (emit (''pipeline reflection pass='' @ string_of_nat pass @ '' zone_after='' @ zone_name (r_zone r)
                      @ '' flagged='' @ flag_text (is_flagged_response reply (decision_vector r) texts coords anchor)))
        (if r_zone r \<noteq> Violation \<and> \<not> is_flagged_response reply (decision_vector r) texts coords anchor then ret (True, reply, r)
         else reflect E ctx anchor k (pass + 1) reply r (texts @ [reply]) (coords @ [decision_vector r]))))))" for h
    by (intro keeps_bind keeps_then events_stay_prompt events_stay_basic) (auto intro: Suc.IH)
  show ?case
  proof (rule keeps_at)
    fix c c' o1 assume c: "c_events c = es" and e: "reflect E ctx anchor (Suc k) pass current verdict texts coords c = (c', o1)"
    show "c_events c' = es" by (rule keepsD[OF b e[unfolded reflect.simps Let_def] c])
  qed
qed (auto simp: keeps_def)

lemma events_stay_settle [intro]: "events_stay es (settle E ctx draft verdict)"
proof (rule keeps_at)
  fix c c' o1 assume c: "c_events c = es" and e: "settle E ctx draft verdict c = (c', o1)"
  have b: "events_stay es (bind_act (reflect E ctx (correction_vector verdict) kMaxReflectionPasses 1 draft verdict [draft] [decision_vector verdict])
     (\<lambda>(delivered, text, r). if delivered then ret (text, r) else ret (withheld_text, r\<lparr>r_zone := Violation, was_corrected := True\<rparr>)))"
    by (rule keeps_bind[OF events_stay_reflect]) (auto split: prod.splits)
  show "c_events c' = es" using e c keepsD[OF b _ c] by (auto simp: settle_def split: if_splits)
qed

lemma events_stay_record [intro]: "events_stay es (record_evaluation E r t)"
proof (rule keeps_at)
  fix c c' o1 assume c: "c_events c = es" and e: "record_evaluation E r t c = (c', o1)"
  have d: "events_stay es (update_outcome_drift E)"
    unfolding update_outcome_drift_def
    by (intro keeps_bind events_stay_disk keeps_then events_stay_change events_stay_basic) (simp add: Let_def)
  have "events_stay es (then_act (on_disk (so_store_evaluation (en_storage E) ev)) (update_outcome_drift E))" for ev
    by (intro keeps_then events_stay_disk d)
  from keepsD[OF this e[unfolded record_evaluation_def] c] show "c_events c' = es" .
qed

lemma events_stay_gate [intro]: "events_stay es (apply_gate E draft ctx)"
  unfolding apply_gate_def
  by (intro keeps_bind keeps_then events_stay_basic events_stay_settle) (auto intro!: keeps_then split: prod.splits)

lemma events_stay_remember [intro]: "events_stay es (remember E moment t r)"
  by (rule keeps_at) (auto simp: remember_def on_disk_def split: option.splits prod.splits)

lemma events_stay_frame [intro]: "events_stay es (build_turn_frame E moment user hist)"
proof -
  have g: "events_stay es (current_geometric_state E)"
    unfolding current_geometric_state_def
    by (rule keeps_bind[OF events_stay_disk]) (auto simp: keeps_def Let_def split: prod.splits option.splits)
  show ?thesis unfolding build_turn_frame_def Let_def by (intro keeps_bind events_stay_prompt events_stay_disk g keeps_ret)
qed

lemma events_calls:
  assumes "\<And>es. events_stay es m" shows "calls_stay n m"
proof (rule keeps_at)
  fix c c' r assume c: "calls c = n" and e: "m c = (c', r)"
  have "c_events c' = c_events c" by (rule keepsD[OF assms[of "c_events c"] e refl])
  then show "calls c' = n" using c by (simp add: calls_def)
qed

lemma calls_stay_basic [intro]:
  "calls_stay n (emit m)" "calls_stay n (judge E t ctx)" "calls_stay n (generate_stream E p h img)" "calls_stay n (on_disk a)"
  "calls_stay n (apply_gate E draft ctx)" "calls_stay n (remember E moment text r)" "calls_stay n (build_turn_frame E moment user hist)"
  by (rule events_calls, blast)+

lemma calls_stay_change: "(\<And>c. calls (f c) = calls c) \<Longrightarrow> calls_stay n (change f)"
  by (simp add: keeps_def change_def)

lemma calls_stay_finalize [intro]: "calls_stay n (finalize_turn E moment reply user)"
proof -
  have v: "calls_stay n (change (emit_turn_event ''complete'' t))" for t by (rule calls_stay_change) (simp add: calls_event)
  have h: "calls_stay n (change (\<lambda>c. c\<lparr>c_history := f c\<rparr>))" for f :: "('a, 'b, 'c) core \<Rightarrow> _"
    by (rule calls_stay_change) (simp add: calls_def)
  show ?thesis unfolding finalize_turn_def Let_def
    by (auto intro!: keeps_bind keeps_then v h calls_stay_basic split: prod.splits)
qed

lemma calls_stay_close: "calls_stay n (close_turn m)"
  unfolding close_turn_def by (intro keeps_then calls_stay_change calls_stay_basic) (simp add: calls_def)

lemma calls_stay_listen: "calls_stay n (listen E user frame hist img)"
proof -
  have h: "calls_stay n (hear_piece E user piece heard)" for piece heard
  proof -
    obtain full p k where x: "heard = (full, p, k)" by (cases heard)
    obtain ths p' where t: "take_completed_thoughts (feed p piece) = (ths, p')" by fastforce
    show ?thesis unfolding hear_piece_def x Let_def t prod.case
      by (auto intro!: keeps_then keeps_bind calls_stay_change calls_stay_basic simp: calls_thoughts calls_event)
  qed
  show ?thesis unfolding listen_def by (intro keeps_bind calls_stay_basic keeps_for_each h) (auto split: prod.splits)
qed

lemma calls_execute:
  assumes "execute (core_tools E) n req c = Some (c', r)" shows "calls c' = calls c"
proof (cases "find (\<lambda>t. tl_name t = rq_name req) (tools (core_tools E))")
  case None
  then show ?thesis using assms by (simp add: execute_def)
next
  case (Some t)
  then have "t \<in> set (tools (core_tools E))" by (auto simp: find_Some_iff)
  then obtain u where u: "t = on_world u" by (auto simp: core_tools_list)
  obtain c1 d where a: "request_approval E (approval_for t n req) c = (c1, d)" by fastforce
  have w: "calls (c\<lparr>c_world := w\<rparr>) = calls c" for c :: "('a, 'b, 'c) core" and w by (simp add: calls_def)
  have "calls c1 = calls c" using a by (auto simp: request_approval_def Let_def w split: option.splits prod.splits)
  then show ?thesis using assms Some a u
    by (auto simp: execute_def Let_def on_world_def w split: if_splits)
qed

lemma calls_stay_record_call: "calls_stay n (record_call E moment req r)"
  unfolding record_call_def Let_def by (intro keeps_then calls_stay_basic keeps_ret)

lemma calls_execute_tool:
  assumes "execute_tool E moment req c = Some (c', x)" shows "calls c' = calls c"
proof -
  obtain c1 res where y: "execute (core_tools E) (it_ns moment) (with_action_id moment req) c = Some (c1, res)"
    using assms by (auto simp: execute_tool_def Let_def split: option.splits)
  show ?thesis
  proof (cases res)
    case Threw
    then show ?thesis using assms y calls_execute[OF y] by (simp add: execute_tool_def)
  next
    case (Done r)
    then have "record_call E moment (with_action_id moment req) r c1 = (c', x)" using assms y by (simp add: execute_tool_def)
    from keepsD[OF calls_stay_record_call this calls_execute[OF y]] show ?thesis .
  qed
qed

lemma calls_tool_call:
  assumes "tool_call E moment json hist c = Some (c', x)" shows "calls c' = calls c + 1"
proof (cases "json_string json ''name'' = []")
  case True
  then show ?thesis using assms by (auto simp: tool_call_def Let_def calls_event)
next
  case False
  let ?q = "\<lparr>rq_name = json_string json ''name'', rq_arguments = json_object json ''arguments'', rq_description = json, rq_action_id = []\<rparr>"
  obtain c2 res where x: "execute_tool E moment ?q (emit_turn_event ''tool_call'' json c) = Some (c2, res)"
    using assms False by (auto simp: tool_call_def Let_def)
  have "calls c2 = calls c + 1" using calls_execute_tool[OF x] by (simp add: calls_event)
  then show ?thesis using assms x False by (cases res) (auto simp: tool_call_def Let_def calls_event)
qed

lemma tool_call_returns:
  assumes "\<forall>n req c. execute (core_tools E) n req c \<noteq> None" shows "tool_call E moment json hist c \<noteq> None"
proof -
  have "execute_tool E moment req c \<noteq> None" for req c
    using assms by (cases "execute (core_tools E) (it_ns moment) (with_action_id moment req) c")
      (auto simp: execute_tool_def Let_def split: outcome.splits simp del: not_None_eq)
  then show ?thesis by (simp add: tool_call_def Let_def del: not_None_eq)
qed

lemma rounds_bounded:
  assumes "\<forall>n req c. execute (core_tools E) n req c \<noteq> None"
  shows "\<exists>c' x. turn_rounds E user img frame rounds left hist c = Some (c', x) \<and> calls c' \<le> calls c + left"
proof (induction left arbitrary: hist c rule: less_induct)
  case (less left)
  let ?c0 = "c\<lparr>c_stop := c_stop c \<or> rd_stop (rounds left)\<rparr>"
  have c0: "calls ?c0 = calls c" by (simp add: calls_def)
  have listened: "calls c1 = calls c" if "listen E user frame hist img ?c0 = (c1, r)" for c1 r
    using keepsD[OF calls_stay_listen that c0] .
  have fin: "calls_stay (calls c) (then_act (finalize_turn E moment t user) (close_turn m))" for moment t m
    by (intro keeps_then calls_stay_finalize calls_stay_close)
  show ?case
  proof (cases rule: turn_rounds_cases[OF refl, of E user img frame rounds left hist c])
    case 1
    obtain c' x where "close_turn ''turn end stopped'' ?c0 = (c', x)" by fastforce
    with 1 keepsD[OF calls_stay_close this c0] show ?thesis by simp
  next
    case (2 c1)
    with listened show ?thesis by simp
  next
    case (3 c1 parsed m)
    obtain c' x where e: "then_act (finalize_turn E (rd_instant (rounds left)) (response parsed) user) (close_turn m) c1 = (c', x)" by fastforce
    with 3 keepsD[OF fin e listened[OF 3(1)]] show ?thesis by simp
  next
    case (4 c1 parsed)
    obtain c2 y where t: "tool_call E (rd_instant (rounds left)) (tool_call_json parsed) hist c1 = Some (c2, y)"
      using tool_call_returns[OF assms, of "rd_instant (rounds left)" "tool_call_json parsed" hist c1] by (auto simp del: split_paired_Ex)
    have c2: "calls c2 = calls c + 1" using calls_tool_call[OF t] listened[OF 4(1)] by simp
    show ?thesis
    proof (cases y)
      case Threw
      then show ?thesis using 4 t c2 by simp
    next
      case (Done h2)
      obtain c' x where "turn_rounds E user img frame rounds (left - 1) h2 c2 = Some (c', x)" "calls c' \<le> calls c2 + (left - 1)"
        using less.IH[of "left - 1" h2 c2] 4(2) by auto
      then show ?thesis using 4 t c2 Done by simp
    qed
  qed
qed

text \<open>
  C4: a turn ends and calls few tools: when every approved tool comes back, the loop of an open-window
  turn ends, whatever the voice streams and whenever it is stopped, and it makes at most eight tool
  calls, even if every answer of the voice asks for one more.
\<close>

theorem turn_is_bounded:
  assumes "\<forall>n req c. execute (core_tools E) n req c \<noteq> None"
  shows "\<exists>c' x. run_turn_loop E moment rounds user img c = Some (c', x) \<and> calls c' \<le> calls c + 8"
proof -
  obtain c1 f where f: "build_turn_frame E moment user (c_history c) c = (c1, f)" by fastforce
  have c1: "calls c1 = calls c" by (rule keepsD[OF calls_stay_basic(7) f refl])
  show ?thesis
  proof (cases f)
    case Threw
    with f c1 show ?thesis by (simp add: run_turn_loop_def)
  next
    case (Done frame)
    then show ?thesis using f c1 rounds_bounded[OF assms, of user img frame rounds kMaxToolCallsPerTurn "c_history c" c1]
      by (auto simp: run_turn_loop_def kMaxToolCallsPerTurn_def)
  qed
qed

theorem turn_is_bounded_witness:
  "\<exists>c' x. run_turn_loop quiet_env \<lparr>it_iso = sample_clock, it_ns = 7, it_id = ''m2''\<rparr>
       (\<lambda>_. \<lparr>rd_instant = \<lparr>it_iso = sample_clock, it_ns = 8, it_id = ''m3''\<rparr>, rd_stop = False\<rparr>) ''hello'' [] quiet_core = Some (c', x)
     \<and> calls c' \<le> 8"
proof -
  have "\<forall>n req c. execute (core_tools quiet_env) n req c \<noteq> None"
    by (auto simp: execute_def Let_def core_tools_approver request_approval_def quiet_env_def split: option.splits)
  moreover have "calls quiet_core = 0" by (simp add: calls_def quiet_core_def)
  ultimately show ?thesis using turn_is_bounded[of quiet_env] by fastforce
qed

section \<open>What the ledger makes of a call\<close>

text \<open>
  C16: a call is recorded or fatal: a tool call that has been carried out is afterwards either entered
  in the ledger, as one more row that calls it executed when the tool succeeded and denied when it
  failed, for whatever reason, or the ledger refuses it and the call throws although the tool has done
  its work.  It is refused in particular when the arguments, which were cut out of the voice's text by
  counting braces, are not JSON to the server.
\<close>

theorem calls_are_recorded_or_fatal:
  assumes "en_storage E = pg_storage cols time_le clock stamp"
    and "execute (core_tools E) (it_ns moment) (with_action_id moment req) c = Some (c1, Done r)"
  shows "\<exists>c2 x. execute_tool E moment req c = Some (c2, x) \<and> c_world c2 = c_world c1
     \<and> (if x = Done r
         then \<exists>row. actions (c_disk c2) = actions (c_disk c1) @ [row]
                \<and> Some (ac_state row) = name_col cols (if tr_ok r then ''executed'' else ''denied'')
         else x = Threw \<and> actions (c_disk c2) = actions (c_disk c1))
     \<and> (rq_arguments req \<noteq> [] \<and> json_col cols (rq_arguments req) = None \<longrightarrow> x = Threw)"
proof -
  let ?q = "with_action_id moment req"
  let ?a = "action_of ?q r moment"
  have s: "so_store_action (en_storage E) = store_action cols" by (simp add: assms(1) pg_storage_def Let_def)
  have e: "execute_tool E moment req c = Some (record_call E moment ?q r c1)" using assms(2) by (simp add: execute_tool_def)
  have q: "rq_arguments ?q = rq_arguments req" by (simp add: with_action_id_def)
  let ?texts = "[text_col cols (ac_id ?a), tool_col cols (ac_tool_name ?a),
                  json_col cols (if ac_params_json ?a = [] then ''{}'' else ac_params_json ?a), name_col cols (ac_state ?a),
                  text_col cols (ac_result ?a), text_col cols (ac_error ?a), time_col cols (ac_created_at ?a),
                  time_col cols (ac_updated_at ?a)]"
  show ?thesis
  proof (cases "store_action cols ?a (c_disk c1)")
    case (Pair d o1)
    show ?thesis
    proof (cases o1)
      case Threw
      have "d = c_disk c1" using Pair Threw by (auto simp: store_action_def ret_def split: option.splits if_splits)
      then show ?thesis using e Pair Threw
        by (simp add: record_call_def Let_def s then_act_def bind_act_def on_disk_def)
    next
      case (Done u)
      then obtain v where v: "those ?texts = Some v" "d = (c_disk c1)\<lparr>actions := actions (c_disk c1) @
                 [\<lparr>ac_id = v ! 0, ac_tool_name = v ! 1, ac_params_json = v ! 2, ac_state = v ! 3, ac_result = v ! 4,
                   ac_error = v ! 5, ac_created_at = v ! 6, ac_updated_at = v ! 7\<rparr>]\<rparr>"
        using Pair by (auto simp: store_action_def ret_def simp del: those.simps split: option.splits if_splits)
      have n: "Some (v ! 3) = name_col cols (ac_state ?a)" "json_col cols (if ac_params_json ?a = [] then ''{}'' else ac_params_json ?a) \<noteq> None"
        using v(1) by (auto split: option.splits)
      have w: "execute_tool E moment req c
          = Some (emit_telemetry (''tool id='' @ rq_action_id ?q @ '' name='' @ rq_name ?q @ '' state='' @ ac_state ?a) (c1\<lparr>c_disk := d\<rparr>), Done r)"
        using e Pair Done by (simp add: record_call_def Let_def s then_act_def bind_act_def on_disk_def)
      show ?thesis unfolding w using n v(2) by (auto simp: action_of_def q)
    qed
  qed
qed

definition broken_json :: string where "broken_json = ''{\"path\":\"a\",\"content\":\"b\",}''"

definition strict_env :: "(ledger, bool, (string \<times> string) list) env" where
  "strict_env = quiet_env\<lparr>en_handler := Some (\<lambda>_ w. (w, Approved)),
     en_storage := pg_storage (plain_ledger\<lparr>json_col := (\<lambda>t. if t = broken_json then None else Some t)\<rparr>)
                     (\<lambda>a b. True) sample_clock sample_clock\<rparr>"

lemma broken_parts: "json_string broken_json ''path'' = ''a''" "json_string broken_json ''content'' = ''b''"
  by code_simp+

lemma broken_write: "\<exists>r. file_write file_machine ''/w'' broken_json [] = Some ([(''/w/a'', ''b'')], Done r) \<and> tr_ok r"
  by (simp add: file_write_def broken_parts file_machine_def resolve_path_def join_path_def is_absolute_def Let_def)

theorem calls_are_recorded_or_fatal_witness:
  "\<exists>c2. execute_tool strict_env \<lparr>it_iso = sample_clock, it_ns = 7, it_id = ''m2''\<rparr>
       \<lparr>rq_name = ''file.write'', rq_arguments = broken_json, rq_description = ''x'', rq_action_id = ''a1''\<rparr> quiet_core = Some (c2, Threw)
     \<and> c_world c2 = [(''/w/a'', ''b'')]"
proof -
  let ?m = "\<lparr>it_iso = sample_clock, it_ns = 7, it_id = ''m2''\<rparr>"
  let ?q = "\<lparr>rq_name = ''file.write'', rq_arguments = broken_json, rq_description = ''x'', rq_action_id = ''a1''\<rparr>"
  let ?cols = "plain_ledger\<lparr>json_col := (\<lambda>t. if t = broken_json then None else Some t)\<rparr>"
  have w: "c_world quiet_core = []" "with_action_id ?m ?q = ?q" by (simp_all add: quiet_core_def with_action_id_def)
  have env: "en_machine strict_env = file_machine" "cf_workspace_dir (en_config strict_env) = ''/w''" "en_browser strict_env = []"
    "en_handler strict_env = Some (\<lambda>_ w. (w, Approved))" by (simp_all add: strict_env_def quiet_env_def)
  obtain r where fw: "file_write file_machine ''/w'' broken_json [] = Some ([(''/w/a'', ''b'')], Done r)" using broken_write by blast
  have f: "find (\<lambda>t. tl_name t = ''file.write'') (tools (core_tools strict_env)) = Some (on_world (file_write_tool file_machine ''/w''))"
    by (simp add: core_tools_list own_tools_def env Let_def on_world_def workspace_status_tool_def file_read_tool_def file_write_tool_def)
  obtain c1 r1 where e: "execute (core_tools strict_env) (it_ns ?m) (with_action_id ?m ?q) quiet_core = Some (c1, Done r1)"
    "c_world c1 = [(''/w/a'', ''b'')]"
    using f fw w by (auto simp: execute_def request_approval_def env Let_def on_world_def file_write_tool_def)
  have s: "en_storage strict_env = pg_storage ?cols (\<lambda>a b. True) sample_clock sample_clock" by (simp add: strict_env_def)
  have j: "rq_arguments ?q \<noteq> []" "json_col ?cols (rq_arguments ?q) = None" by (simp_all add: broken_json_def)
  show ?thesis using calls_are_recorded_or_fatal[OF s e(1)] e(2) j by auto
qed

end
