(* ===== verification/Core_Life.thy ===== *)
theory Core_Life
  imports Core_Turns
begin

text \<open>
  The life of a core on the PostgreSQL backend: what every operation keeps, whether it returns or
  throws.  \<open>runs I P m Q\<close> says that from a state with \<open>I\<close> and \<open>P\<close> the action \<open>m\<close> leads to a state with
  \<open>I\<close>, and with \<open>Q a\<close> when it returns \<open>a\<close>.  The invariant ties the components together: the engine can
  evaluate, the ledger can be read, the stored season is that of the engine, the queue is bounded.
\<close>

section \<open>Runs that keep an invariant\<close>

definition runs :: "('s \<Rightarrow> bool) \<Rightarrow> ('s \<Rightarrow> bool) \<Rightarrow> ('s, 'a) act \<Rightarrow> ('a \<Rightarrow> 's \<Rightarrow> bool) \<Rightarrow> bool" where
  "runs I P m Q \<longleftrightarrow>
     (\<forall>s. I s \<and> P s \<longrightarrow> I (fst (m s)) \<and> (case snd (m s) of Threw \<Rightarrow> True | Done a \<Rightarrow> Q a (fst (m s))))"

lemma runsI:
  assumes "\<And>s s' r. I s \<Longrightarrow> P s \<Longrightarrow> m s = (s', r) \<Longrightarrow> I s' \<and> (\<forall>a. r = Done a \<longrightarrow> Q a s')"
  shows "runs I P m Q"
  unfolding runs_def
proof (intro allI impI)
  fix s assume "I s \<and> P s"
  then have "I (fst (m s)) \<and> (\<forall>a. snd (m s) = Done a \<longrightarrow> Q a (fst (m s)))"
    using assms[of s "fst (m s)" "snd (m s)"] by simp
  then show "I (fst (m s)) \<and> (case snd (m s) of Threw \<Rightarrow> True | Done a \<Rightarrow> Q a (fst (m s)))"
    by (simp split: outcome.split)
qed

lemma runsD: "runs I P m Q \<Longrightarrow> m s = (s', r) \<Longrightarrow> I s \<Longrightarrow> P s \<Longrightarrow> I s' \<and> (\<forall>a. r = Done a \<longrightarrow> Q a s')"
  unfolding runs_def by (drule spec[of _ s]) (auto split: outcome.splits)

lemma runs_ret: "(\<And>s. P s \<Longrightarrow> Q a s) \<Longrightarrow> runs I P (ret a) Q"
  by (simp add: runs_def)

lemma runs_bind:
  assumes "runs I P m Q" "\<And>a. runs I (Q a) (f a) R" shows "runs I P (bind_act m f) R"
proof (rule runsI)
  fix s s' r assume s: "I s" "P s" "bind_act m f s = (s', r)"
  obtain s1 r1 where m: "m s = (s1, r1)" by fastforce
  show "I s' \<and> (\<forall>a. r = Done a \<longrightarrow> R a s')"
  proof (cases r1)
    case (Done a)
    then have k: "I s1" "Q a s1" using runsD[OF assms(1) m s(1,2)] by simp_all
    have "f a s1 = (s', r)" using Done m s(3) by simp
    from runsD[OF assms(2) this k] show ?thesis .
  next
    case Threw
    then have "r = Threw" "s' = s1" using m s(3) by simp_all
    then show ?thesis using runsD[OF assms(1) m s(1,2)] by simp
  qed
qed

lemma runs_then: "runs I P m (\<lambda>_. Q) \<Longrightarrow> runs I Q n R \<Longrightarrow> runs I P (then_act m n) R"
  unfolding then_act_def by (rule runs_bind)

lemma runs_weaken:
  "runs I P m Q \<Longrightarrow> (\<And>s. P' s \<Longrightarrow> P s) \<Longrightarrow> (\<And>a s. Q a s \<Longrightarrow> Q' a s) \<Longrightarrow> runs I P' m Q'"
  by (force simp: runs_def split: outcome.splits)

text \<open>The runs of which only the invariant matters.\<close>

abbreviation stays :: "('s \<Rightarrow> bool) \<Rightarrow> ('s, 'a) act \<Rightarrow> bool" where
  "stays I m \<equiv> runs I (\<lambda>_. True) m (\<lambda>_ _. True)"

lemma stays_ret [intro]: "stays I (ret a)" by (rule runs_ret)

lemma stays_bind [intro]: "stays I m \<Longrightarrow> (\<And>a. stays I (f a)) \<Longrightarrow> stays I (bind_act m f)"
  by (rule runs_bind)

lemma stays_then [intro]: "stays I m \<Longrightarrow> stays I n \<Longrightarrow> stays I (then_act m n)"
  by (rule runs_then)

lemma stays_for_each [intro]: "(\<And>x acc. stays I (f x acc)) \<Longrightarrow> stays I (for_each f xs acc)"
  by (induction xs arbitrary: acc) auto

lemma stays_change: "(\<And>s. I s \<Longrightarrow> I (f s)) \<Longrightarrow> stays I (change f)"
  by (simp add: runs_def change_def)

lemma stays_state: "(\<And>s. stays I (f s)) \<Longrightarrow> stays I (\<lambda>s. f s s)"
  by (simp add: runs_def)

lemma then_then: "then_act (then_act a b) c = then_act a (then_act b c)"
  by (rule ext) (simp add: then_act_def bind_act_def split: prod.splits outcome.splits)

section \<open>What leaves identity and evaluations alone\<close>

definition same_book :: "identity_row option \<Rightarrow> evaluation_row list \<Rightarrow> ledger \<Rightarrow> bool" where
  "same_book i es d \<longleftrightarrow> identity d = i \<and> evaluations d = es"

lemma keeps_memory [intro]: "keeps (same_book i es) (with_memory m)"
  by (simp add: keeps_def with_memory_def same_book_def split: prod.splits)

lemma keeps_counted [intro]: "keeps (same_book i es) (counted f)"
  by (simp add: keeps_def counted_def)

lemma ledger_ops_simps [simp]:
  "op_store_tier (ledger_ops cols clock) t x = with_memory (pg_store_tier cols clock t x)"
  "op_delete_tier (ledger_ops cols clock) t k = with_memory (pg_delete_tier t k)"
  "op_scan_tier (ledger_ops cols clock) t = with_memory (pg_scan_tier t)"
  "op_store_long_term (ledger_ops cols clock) x t = with_memory (pg_store_long_term cols clock x t)"
  "op_fetch_by_status (ledger_ops cols clock) t = with_memory (fetch_by_status t)"
  "op_update_item (ledger_ops cols clock) r = with_memory (update_memory_item cols r)"
  "op_delete_item (ledger_ops cols clock) k = with_memory (delete_memory_item k)"
  "op_log_promotion (ledger_ops cols clock) k a b v why = with_memory (log_memory_promotion cols k a b v why)"
  by (simp_all add: ledger_ops_def Let_def)

lemma keeps_sweep: "keeps (same_book i es) (run_sweep (Some (ledger_ops cols clock)) t now)"
proof -
  have 1: "keeps (same_book i es) (sweep_item (ledger_ops cols clock) t n ki c)" for n ki c
    by (auto simp: sweep_item_def Let_def intro!: keeps_try keeps_then keeps_ret keeps_memory)
  have 2: "keeps (same_book i es) (fallout_item (ledger_ops cols clock) now ki c)" for ki c
    by (auto simp: fallout_item_def Let_def)
  show ?thesis
    unfolding run_sweep_def option.case ledger_ops_simps by (intro keeps_bind keeps_memory keeps_for_each 1 2)
qed

lemma keeps_maintenance: "keeps (same_book i es) (run_maintenance ex lg (Some (ledger_ops cols clock)) t now)"
proof -
  have 1: "keeps (same_book i es) (maintain_active (ledger_ops cols clock) t now r c)" for r c
    by (auto simp: maintain_active_def log_decision_def Let_def intro!: keeps_then keeps_ret keeps_memory split: prod.splits option.splits)
  have 2: "keeps (same_book i es) (maintain_subconscious ex lg (ledger_ops cols clock) now r c)" for r c
    by (auto simp: maintain_subconscious_def Let_def split: prod.splits)
  show ?thesis
    unfolding run_maintenance_def option.case ledger_ops_simps by (intro keeps_bind keeps_memory keeps_for_each 1 2)
qed

lemma keeps_inject: "keeps (same_book i es) (inject_context emb (Some (ledger_ops cols clock)) q a b)"
  unfolding inject_context_def recall_def option.case ledger_ops_simps Let_def by (auto intro!: keeps_bind)

lemma keeps_records [intro]:
  "keeps (same_book i es) (create_session cols r)" "keeps (same_book i es) (finalize_session cols clock k)"
  "keeps (same_book i es) (store_action cols a)" "keeps (same_book i es) (fetch_evaluations n)"
  "keeps (same_book i es) (append_telemetry_log cols stamp sub sev msg lat)"
  by (auto simp: keeps_def same_book_def create_session_def finalize_session_def store_action_def fetch_evaluations_def
      append_telemetry_log_def Let_def split: option.splits)

lemma runs_pure: "(B \<Longrightarrow> runs I (\<lambda>_. True) m Q) \<Longrightarrow> runs I (\<lambda>_. B) m Q"
  by (cases B) (simp_all add: runs_def)

section \<open>The invariant\<close>

definition stored_season :: "ledger \<Rightarrow> string option" where
  "stored_season d = map_option (\<lambda>r. pq (ir_season r)) (identity d)"

definition core_inv :: "(ledger, 'm, 'w) core \<Rightarrow> bool" where
  "core_inv c \<longleftrightarrow> engine_ok (c_engine c) \<and> ledger_reads (c_disk c)
     \<and> stored_season (c_disk c) = Some (season (ve_constraints (c_engine c))) \<and> length (c_queue c) \<le> QUEUE_LIMIT"

definition sound_result :: "evaluation_result \<Rightarrow> bool" where
  "sound_result r \<longleftrightarrow> unit_point (decision_vector r) \<and> unit_point (correction_vector r)"

lemma inv_fields [simp]:
  "core_inv (c\<lparr>c_history := h\<rparr>) = core_inv c" "core_inv (c\<lparr>c_events := v\<rparr>) = core_inv c"
  "core_inv (c\<lparr>c_active := b\<rparr>) = core_inv c" "core_inv (c\<lparr>c_stop := b\<rparr>) = core_inv c"
  "core_inv (c\<lparr>c_voice := m\<rparr>) = core_inv c" "core_inv (c\<lparr>c_world := w\<rparr>) = core_inv c"
  "core_inv (c\<lparr>c_session := t\<rparr>) = core_inv c" "core_inv (c\<lparr>c_ready := b\<rparr>) = core_inv c"
  "core_inv (c\<lparr>c_hub := u\<rparr>) = core_inv c" "core_inv (c\<lparr>c_pool := p\<rparr>) = core_inv c"
  by (simp_all add: core_inv_def)

lemma queue_bounded: "length (c_queue c) \<le> QUEUE_LIMIT \<Longrightarrow> length (c_queue (persist_telemetry a b m c)) \<le> QUEUE_LIMIT"
  by (auto simp: persist_telemetry_def QUEUE_LIMIT_def)

lemma inv_persist: "core_inv c \<Longrightarrow> core_inv (persist_telemetry a b m c)"
  using queue_bounded[of c a b m] by (simp add: core_inv_def) (simp add: persist_telemetry_def)

lemma inv_emit: "core_inv c \<Longrightarrow> core_inv (emit_telemetry m c)"
  using inv_persist[of c "''core''" "''info''" m] by (simp add: emit_telemetry_def Let_def core_inv_def)

lemma inv_event: "core_inv c \<Longrightarrow> core_inv (emit_turn_event kind body c)"
  by (auto simp: emit_turn_event_def Let_def inv_persist)

lemma event_engine [simp]: "c_engine (emit_turn_event kind body c) = c_engine c"
  by (simp add: emit_turn_event_def persist_telemetry_def Let_def)

lemma runs_emit: "runs core_inv (\<lambda>c. F (c_engine c)) (emit m) (\<lambda>_ c. F (c_engine c))"
  by (simp add: runs_def inv_emit)

lemma stays_emit [intro]: "stays core_inv (emit m)"
  by (simp add: runs_def inv_emit)

lemma stays_event [intro]: "stays core_inv (change (emit_turn_event kind body))"
  by (rule stays_change) (rule inv_event)

lemma inv_book:
  assumes "core_inv c" "same_book (identity (c_disk c)) (evaluations (c_disk c)) d" shows "core_inv (c\<lparr>c_disk := d\<rparr>)"
  using assms by (simp add: core_inv_def ledger_reads_def identity_reads_def stored_season_def same_book_def)

lemma runs_disk:
  assumes "\<And>i es. keeps (same_book i es) m"
  shows "runs core_inv (\<lambda>c. F (c_engine c)) (on_disk m) (\<lambda>_ c. F (c_engine c))"
proof (rule runsI)
  fix c c' r assume c: "core_inv c" "F (c_engine c)" "on_disk m c = (c', r)"
  have "same_book (identity (c_disk c)) (evaluations (c_disk c)) (fst (m (c_disk c)))"
    using assms[of "identity (c_disk c)" "evaluations (c_disk c)"] by (simp add: keeps_def same_book_def)
  then show "core_inv c' \<and> (\<forall>a. r = Done a \<longrightarrow> F (c_engine c'))"
    using c inv_book[OF c(1)] by (auto simp: on_disk_def split: prod.splits)
qed

lemma stays_disk: "(\<And>i es. keeps (same_book i es) m) \<Longrightarrow> stays core_inv (on_disk m)"
  by (rule runs_disk[where F = "\<lambda>_. True"])

section \<open>The operations on the backend\<close>

locale live_core = pg_ledger cols clock for cols :: ledger_columns and clock :: string +
  fixes E :: "(ledger, 'm, 'w) env" and time_le :: "string \<Rightarrow> string \<Rightarrow> bool" and stamp :: string
  assumes gmp: "gmp_get_d (en_gd E)"
    and backend: "en_storage E = pg_storage cols time_le clock stamp"
    and memories: "en_ops E = ledger_ops (columns.truncate cols) clock"
begin

lemma storage_ops [simp]:
  "so_get_identity (en_storage E) = get_identity cols clock stamp"
  "so_update_identity (en_storage E) = update_identity cols clock stamp"
  "so_store_memory_item (en_storage E) = (\<lambda>i. with_memory (store_memory_item (columns.truncate cols) clock i))"
  "so_fetch_memories_by_status (en_storage E) = (\<lambda>st. with_memory (fetch_by_status st))"
  "so_create_session (en_storage E) = create_session cols" "so_finalize_session (en_storage E) = finalize_session cols clock"
  "so_store_action (en_storage E) = store_action cols"
  "so_count_qualifying_memories (en_storage E) = counted count_qualifying_memories"
  "so_store_evaluation (en_storage E) = store_evaluation cols clock" "so_fetch_evaluations (en_storage E) = fetch_evaluations"
  "so_append_telemetry_log (en_storage E) = append_telemetry_log cols stamp"
  by (simp_all add: backend pg_storage_def Let_def)

lemma runs_identity:
  "runs core_inv (\<lambda>_. True) (on_disk (get_identity cols clock stamp))
     (\<lambda>i c. id_season i = season (ve_constraints (c_engine c)))"
proof (rule runsI)
  fix c c' o1 assume c: "core_inv c" "on_disk (get_identity cols clock stamp) c = (c', o1)"
  obtain r where r: "identity (c_disk c) = Some r" "pq (ir_season r) = season (ve_constraints (c_engine c))"
    using c(1) by (auto simp: core_inv_def stored_season_def)
  have "identity_reads (c_disk c)" using c(1) by (simp add: core_inv_def ledger_reads_def)
  then obtain i where "get_identity cols clock stamp (c_disk c) = (c_disk c, Done i)" "id_season i = pq (ir_season r)"
    by (auto simp: get_identity_def r(1) identity_reads_def ret_def)
  with c r(2) show "core_inv c' \<and> (\<forall>i. o1 = Done i \<longrightarrow> id_season i = season (ve_constraints (c_engine c')))"
    by (auto simp: on_disk_def)
qed

lemma update_writes:
  assumes "ledger_reads d" "update_identity cols clock stamp i d = (d', r)"
  shows "ledger_reads d' \<and> (r = Threw \<longrightarrow> d' = d) \<and> (r = Done () \<longrightarrow> stored_season d' = Some (id_season i))"
proof (cases "those [name_col cols (id_season i), name_col cols (id_depth i), text_col cols (id_self_description i),
                  int_col cols (string_of_int (id_session_count i)), int_col cols (string_of_int (id_total_evaluations i)),
                  rate_col cols (string_of_double (id_alignment_rate i)), time_col cols clock]")
  case None
  then show ?thesis using assms by (simp add: update_identity_def)
next
  case (Some v)
  have "name_col cols t = Some u \<Longrightarrow> u = t" for t u
    using pg_columns.name_id[OF memory_columns, of t u] by (simp add: columns.truncate_def)
  then have n: "v ! 0 = id_season i" using Some by (auto split: option.splits)
  have k: "stoi (v ! 3) \<noteq> None" "stoi (v ! 4) \<noteq> None" "stod (v ! 5) \<noteq> None"
    using Some int_reads rate_reads by (auto split: option.splits)
  have e: "r = Done ()" "evaluations d' = evaluations d" "stored_season d' = Some (v ! 0)" "identity_reads d'"
    using assms(2) Some k by (auto simp: update_identity_def stored_season_def identity_reads_def)
  then show ?thesis using assms(1) n by (simp add: ledger_reads_def)
qed

lemma runs_update:
  "runs core_inv (\<lambda>c. id_season i = season (ve_constraints (c_engine c))) (on_disk (update_identity cols clock stamp i)) (\<lambda>_ _. True)"
proof (rule runsI)
  fix c c' r assume c: "core_inv c" "id_season i = season (ve_constraints (c_engine c))"
    "on_disk (update_identity cols clock stamp i) c = (c', r)"
  obtain d where d: "update_identity cols clock stamp i (c_disk c) = (d, r)" "c' = c\<lparr>c_disk := d\<rparr>"
    using c(3) by (auto simp: on_disk_def split: prod.splits)
  have "ledger_reads (c_disk c)" using c(1) by (simp add: core_inv_def)
  from update_writes[OF this d(1)] show "core_inv c' \<and> (\<forall>a. r = Done a \<longrightarrow> True)"
    using c(1,2) d(2) by (cases r) (auto simp: core_inv_def)
qed

lemma stored_reads:
  assumes "ledger_reads d" "sound_result r" "store_evaluation cols clock (evaluation_of s r t) d = (d', x)"
  shows "ledger_reads d' \<and> identity d' = identity d"
proof -
  have vec: "\<exists>t w. vector_col cols (vector_to_pgarray v) = Some t \<and> pgarray_to_vector t = Some w \<and> unit_point w"
    if "unit_point v" for v
    using pg_columns.vector_ok[OF memory_columns that] by (simp add: columns.truncate_def)
  obtain t2 w2 where t2: "vector_col cols (vector_to_pgarray (decision_vector r)) = Some t2" "pgarray_to_vector t2 = Some w2" "unit_point w2"
    using vec assms(2) unfolding sound_result_def by blast
  obtain t4 w4 where t4: "vector_col cols (vector_to_pgarray (correction_vector r)) = Some t4" "pgarray_to_vector t4 = Some w4" "unit_point w4"
    using vec assms(2) unfolding sound_result_def by blast
  let ?texts = "[text_col cols (er_session_id (evaluation_of s r t)), text_col cols t,
    Some t2, Some t2, Some t4, rate_col cols (string_of_double (r_alignment_score r)),
    rate_col cols (string_of_double (correction_magnitude r)), name_col cols (zone_name (r_zone r)), name_col cols (r_season r),
    time_col cols clock]"
  show ?thesis
  proof (cases "those ?texts")
    case None
    then show ?thesis using assms(1,3) by (simp add: store_evaluation_def evaluation_of_def t2(1) t4(1))
  next
    case (Some v)
    have k: "stod (v ! 5) \<noteq> None" "stod (v ! 6) \<noteq> None" "v ! 2 = t2" "v ! 3 = t2" "v ! 4 = t4"
      using Some rate_reads by (auto split: option.splits)
    define row where "row = \<lparr>ev_session_id = v ! 0, ev_response_text = v ! 1, ev_input = v ! 2, ev_output = v ! 3, ev_corrected = v ! 4,
            ev_is_aligned = bool_text (er_is_aligned (evaluation_of s r t)), ev_alignment_score = v ! 5, ev_correction_magnitude = v ! 6,
            ev_zone = v ! 7, ev_season = v ! 8, ev_created_at = v ! 9\<rparr>"
    have "d' = d\<lparr>evaluations := evaluations d @ [row]\<rparr>"
      using assms(3) Some by (simp add: store_evaluation_def evaluation_of_def t2(1) t4(1) row_def ret_def)
    moreover have "evaluation_reads row"
      using k unit_usable[OF t2(3)] t2(2) t4(2) by (auto simp: row_def evaluation_reads_def read_evaluation_def usable_reading_def)
    ultimately show ?thesis using assms(1) by (simp add: ledger_reads_def identity_reads_def)
  qed
qed

lemma stays_store_evaluation:
  assumes "sound_result r" shows "stays core_inv (on_disk (store_evaluation cols clock (evaluation_of s r t)))"
proof (rule runsI)
  fix c c' x assume c: "core_inv c" "on_disk (store_evaluation cols clock (evaluation_of s r t)) c = (c', x)"
  obtain d where d: "store_evaluation cols clock (evaluation_of s r t) (c_disk c) = (d, x)" "c' = c\<lparr>c_disk := d\<rparr>"
    using c(2) by (auto simp: on_disk_def split: prod.splits)
  have "ledger_reads (c_disk c)" using c(1) by (simp add: core_inv_def)
  from stored_reads[OF this assms d(1)] show "core_inv c' \<and> (\<forall>a. x = Done a \<longrightarrow> True)"
    using c(1) d(2) by (auto simp: core_inv_def stored_season_def)
qed

lemma runs_fetch:
  assumes "0 \<le> n"
  shows "runs core_inv (\<lambda>_. True) (on_disk (fetch_evaluations n)) (\<lambda>es _. list_all usable_reading es \<and> int (length es) \<le> n)"
proof (rule runsI)
  fix c c' r assume c: "core_inv c" "on_disk (fetch_evaluations n) c = (c', r)"
  then obtain es where "fetch_evaluations n (c_disk c) = (c_disk c, Done es)" "int (length es) \<le> n" "list_all usable_reading es"
    using fetches_evaluations[OF _ assms, of "c_disk c"] by (auto simp: core_inv_def)
  with c show "core_inv c' \<and> (\<forall>es. r = Done es \<longrightarrow> list_all usable_reading es \<and> int (length es) \<le> n)"
    by (auto simp: on_disk_def)
qed

end

section \<open>The gate\<close>

lemma if_run: "runs I P m Q \<Longrightarrow> runs I P n Q \<Longrightarrow> runs I P (if b then m else n) Q"
  by simp

context live_core begin

lemma runs_judge: "runs core_inv (\<lambda>_. True) (judge E t ctx) (\<lambda>r _. sound_result r)"
proof (rule runsI)
  fix c c' o1 assume c: "core_inv c" "judge E t ctx c = (c', o1)"
  obtain r where "judge E t ctx c = (c, Done r)" "result_ok (season (ve_constraints (c_engine c))) r"
    using judge_answers[OF gmp, of c t ctx] c(1) by (auto simp: core_inv_def)
  with c show "core_inv c' \<and> (\<forall>r. o1 = Done r \<longrightarrow> sound_result r)" by (auto simp: result_ok_def sound_result_def)
qed

lemma stays_judge [intro]: "stays core_inv (judge E t ctx)"
  by (rule runs_weaken[OF runs_judge]) simp_all

lemma stays_identity [intro]: "stays core_inv (on_disk (get_identity cols clock stamp))"
  by (rule runs_weaken[OF runs_identity]) simp_all

lemma stays_fetch [intro]: "0 \<le> n \<Longrightarrow> stays core_inv (on_disk (fetch_evaluations n))"
  by (rule runs_weaken[OF runs_fetch]) simp_all

lemma stays_prompt [intro]: "stays core_inv (build_system_prompt E)"
  unfolding build_system_prompt_def storage_ops by (intro stays_bind stays_identity stays_ret)

lemma stays_speak [intro]: "stays core_inv (speak E p h img)"
  by (auto simp: runs_def speak_def split: option.splits prod.splits)

lemma runs_reflect:
  "sound_result verdict \<Longrightarrow>
     runs core_inv (\<lambda>_. True) (reflect E ctx anchor n pass current verdict texts coords) (\<lambda>a _. sound_result (snd (snd a)))"
proof (induction n arbitrary: pass current verdict texts coords)
  case 0
  then show ?case by (simp add: runs_def)
next
  case (Suc n)
  have pass: "runs core_inv (\<lambda>_. True)
    (bind_act (build_system_prompt E) (\<lambda>prompt. bind_act (speak E prompt h []) (\<lambda>reply. bind_act (judge E reply ctx) (\<lambda>r.
      then_act (emit (''pipeline reflection pass='' @ string_of_nat pass @ '' zone_after='' @ zone_name (r_zone r)
                      @ '' flagged='' @ flag_text (is_flagged_response reply (decision_vector r) texts coords anchor)))
        (if r_zone r \<noteq> Violation \<and> \<not> is_flagged_response reply (decision_vector r) texts coords anchor then ret (True, reply, r)
         else reflect E ctx anchor n (pass + 1) reply r (texts @ [reply]) (coords @ [decision_vector r]))))))
    (\<lambda>a _. sound_result (snd (snd a)))" for h
  proof (rule runs_bind[OF stays_prompt], rule runs_bind[OF stays_speak], rule runs_bind[OF runs_judge], rule runs_pure)
    fix p reply r assume r: "sound_result r"
    show "runs core_inv (\<lambda>_. True)
      (then_act (emit (''pipeline reflection pass='' @ string_of_nat pass @ '' zone_after='' @ zone_name (r_zone r)
                      @ '' flagged='' @ flag_text (is_flagged_response reply (decision_vector r) texts coords anchor)))
        (if r_zone r \<noteq> Violation \<and> \<not> is_flagged_response reply (decision_vector r) texts coords anchor then ret (True, reply, r)
         else reflect E ctx anchor n (pass + 1) reply r (texts @ [reply]) (coords @ [decision_vector r])))
      (\<lambda>a _. sound_result (snd (snd a)))"
    proof (rule runs_then[OF stays_emit])
      have "runs core_inv (\<lambda>_. True) (ret (True, reply, r)) (\<lambda>a _. sound_result (snd (snd a)))" by (rule runs_ret) (simp add: r)
      then show "runs core_inv (\<lambda>_. True)
        (if r_zone r \<noteq> Violation \<and> \<not> is_flagged_response reply (decision_vector r) texts coords anchor then ret (True, reply, r)
         else reflect E ctx anchor n (pass + 1) reply r (texts @ [reply]) (coords @ [decision_vector r]))
        (\<lambda>a _. sound_result (snd (snd a)))"
        using Suc.IH[OF r] by (rule if_run)
    qed
  qed
  show ?case
  proof (rule runsI)
    fix c c' o1 assume c: "core_inv c" and e: "reflect E ctx anchor (Suc n) pass current verdict texts coords c = (c', o1)"
    from runsD[OF pass e[unfolded reflect.simps Let_def] c] show "core_inv c' \<and> (\<forall>a. o1 = Done a \<longrightarrow> sound_result (snd (snd a)))"
      by simp
  qed
qed

lemma runs_settle:
  assumes "sound_result verdict"
  shows "runs core_inv (\<lambda>_. True) (settle E ctx draft verdict) (\<lambda>a _. sound_result (snd a))"
proof (rule runsI)
  fix c c' o1 assume c: "core_inv c" "settle E ctx draft verdict c = (c', o1)"
  let ?rest = "\<lambda>(delivered, text, r). if delivered then ret (text, r) else ret (withheld_text, r\<lparr>r_zone := Violation, was_corrected := True\<rparr>)"
  have b: "runs core_inv (\<lambda>_. True)
     (bind_act (reflect E ctx (correction_vector verdict) kMaxReflectionPasses 1 draft verdict [draft] [decision_vector verdict]) ?rest)
     (\<lambda>a _. sound_result (snd a))"
    by (rule runs_bind[OF runs_reflect[OF assms]]) (auto simp: runs_def sound_result_def)
  show "core_inv c' \<and> (\<forall>a. o1 = Done a \<longrightarrow> sound_result (snd a))"
  proof (cases "r_zone verdict = Violation \<and> connected E c")
    case True
    with c(2) have "bind_act (reflect E ctx (correction_vector verdict) kMaxReflectionPasses 1 draft verdict [draft] [decision_vector verdict]) ?rest c
       = (c', o1)" by (simp add: settle_def)
    from runsD[OF b this c(1)] show ?thesis by simp
  next
    case False
    with c assms show ?thesis by (auto simp: settle_def)
  qed
qed

lemma stays_drift: "stays core_inv (update_outcome_drift E)"
  unfolding update_outcome_drift_def storage_ops
proof (rule runs_bind[OF runs_fetch[of 50]], simp, rule runs_pure, rule stays_then[OF stays_change stays_emit])
  fix es c assume es: "list_all usable_reading es \<and> int (length es) \<le> 50" and c: "core_inv c"
  have "length es < 2 ^ 31" using es by simp
  then show "core_inv (let ve = c_engine c in c\<lparr>c_engine := ve\<lparr>ve_feedback := set_biases (drift_bias (en_gd E) (ve_polytope ve) es) (ve_feedback ve)\<rparr>\<rparr>)"
    using drift_keeps_engine[OF gmp, of "c_engine c" es] es c by (simp add: core_inv_def Let_def)
qed

lemma stays_record: "sound_result r \<Longrightarrow> stays core_inv (record_evaluation E r t)"
  unfolding record_evaluation_def storage_ops
  by (rule stays_state[where f = "\<lambda>c. then_act (on_disk (store_evaluation cols clock (evaluation_of (c_session c) r t))) (update_outcome_drift E)"])
     (rule stays_then[OF stays_store_evaluation stays_drift])

lemma stays_gate [intro]: "stays core_inv (apply_gate E draft ctx)"
  unfolding apply_gate_def
proof (rule runs_bind[OF runs_judge], rule runs_pure, rule runs_then[OF stays_emit])
  fix verdict assume v: "sound_result verdict"
  show "stays core_inv (bind_act (settle E ctx draft verdict) (\<lambda>(text, r).
        then_act (record_evaluation E r text)
          (then_act (emit (''pipeline delivered zone='' @ zone_name (r_zone r) @ '' corrected='' @ flag_text (was_corrected r)))
             (ret (text, r)))))"
  proof (rule runs_bind[OF runs_settle[OF v]], rule runs_pure)
    fix a :: "string \<times> evaluation_result" assume "sound_result (snd a)"
    then show "stays core_inv (case a of (text, r) \<Rightarrow>
        then_act (record_evaluation E r text)
          (then_act (emit (''pipeline delivered zone='' @ zone_name (r_zone r) @ '' corrected='' @ flag_text (was_corrected r)))
             (ret (text, r))))"
      by (cases a) (simp add: stays_then stays_record stays_emit stays_ret)
  qed
qed

section \<open>Turns\<close>

lemma stays_remember [intro]: "stays core_inv (remember E moment t r)"
proof (rule runsI)
  fix c c' o1 assume c: "core_inv c" "remember E moment t r c = (c', o1)"
  have d: "stays core_inv (on_disk (with_memory (store_memory_item (columns.truncate cols) clock item)))" for item
    by (rule stays_disk) (rule keeps_memory)
  show "core_inv c' \<and> (\<forall>a. o1 = Done a \<longrightarrow> True)"
    using c runsD[OF d _ c(1)] by (auto simp: remember_def split: option.splits)
qed

lemma stays_frame [intro]: "stays core_inv (build_turn_frame E moment user hist)"
proof -
  have g: "stays core_inv (current_geometric_state E)"
    unfolding current_geometric_state_def storage_ops
  proof (rule stays_bind[OF stays_fetch])
    fix evals
    show "stays core_inv (\<lambda>c.
       let ve = c_engine c; (pos, traj) = position_of ve evals in
       case near_walls (en_gd E) (ve_polytope ve) pos (lit (5/100)) of
         None \<Rightarrow> (c, Threw)
       | Some walls \<Rightarrow>
           let homed = pe_poles (ve_poles ve) \<noteq> [] in
           ret \<lparr>position = pos, trajectory = traj, gs_near_walls = walls,
                home = (if homed then ve_home_for ve pos else zero_vector), has_home = homed\<rparr> c)"
      by (auto simp: runs_def Let_def split: prod.splits option.splits)
  qed simp_all
  have i: "stays core_inv (on_disk (inject_context null_embed (Some (en_ops E)) user 5 8))"
    unfolding memories by (rule stays_disk) (rule keeps_inject)
  show ?thesis unfolding build_turn_frame_def Let_def by (intro stays_bind stays_prompt i g stays_ret)
qed

lemma stays_finalize [intro]: "stays core_inv (finalize_turn E moment reply user)"
  unfolding finalize_turn_def Let_def
  by (auto intro!: stays_bind stays_gate stays_then stays_emit stays_event stays_remember stays_change split: prod.splits)

lemma stays_raw [intro]: "stays core_inv (raw_answer E p img)"
proof (rule runsI)
  fix c c' o1 assume c: "core_inv c" "raw_answer E p img c = (c', o1)"
  show "core_inv c' \<and> (\<forall>a. o1 = Done a \<longrightarrow> True)"
    using c runsD[OF stays_speak _ c(1)] by (auto simp: raw_answer_def split: if_splits)
qed

lemma stays_push [intro]: "stays core_inv (push_history role t)"
  unfolding push_history_def by (rule stays_change) simp

lemma stays_chat: "stays core_inv (chat E moment user img)"
proof (rule runsI)
  fix c c' o1 assume c: "core_inv c" "chat E moment user img c = (c', o1)"
  have b: "stays core_inv (bind_act (build_system_prompt E) (\<lambda>prompt.
      then_act (push_history ''user'' (stored_message user img))
        (bind_act (raw_answer E prompt img) (\<lambda>raw.
         bind_act (apply_gate E raw (Some user)) (\<lambda>(final, r).
           if r_zone r = Violation then then_act (emit ''chat withheld (polytope)'') (ret final)
           else then_act (remember E moment final r)
                  (then_act (change (\<lambda>c. c\<lparr>c_history := push_answer final (c_history c)\<rparr>)) (ret final)))))))"
    by (intro stays_bind stays_prompt stays_then stays_push stays_raw stays_gate)
       (auto intro!: stays_then stays_emit stays_remember stays_change stays_ret split: prod.splits)
  show "core_inv c' \<and> (\<forall>a. o1 = Done a \<longrightarrow> True)"
    using c runsD[OF b _ c(1)] by (auto simp: chat_def split: if_splits)
qed

end

section \<open>Turns with tools\<close>

lemma inv_thoughts: "core_inv c \<Longrightarrow> core_inv (foldl (\<lambda>c t. emit_turn_event ''thought'' t c) c ths)"
  by (induction ths arbitrary: c) (simp_all add: inv_event)

lemma inv_approval: "core_inv c \<Longrightarrow> core_inv (fst (request_approval E ap c))"
  by (auto simp: request_approval_def Let_def inv_emit split: option.splits prod.splits)

lemma execute_inv:
  assumes "core_inv c" "execute (core_tools E) n req c = Some (c', r)" shows "core_inv c'"
proof (cases "find (\<lambda>t. tl_name t = rq_name req) (tools (core_tools E))")
  case None
  then show ?thesis using assms by (simp add: execute_def)
next
  case (Some t)
  then have "t \<in> set (tools (core_tools E))" by (auto simp: find_Some_iff)
  then obtain u where u: "t = on_world u" by (auto simp: core_tools_list)
  obtain c1 d where a: "request_approval E (approval_for t n req) c = (c1, d)" by fastforce
  have "core_inv c1" using inv_approval[OF assms(1), of E "approval_for t n req"] a by simp
  then show ?thesis using assms(2) Some a u
    by (auto simp: execute_def Let_def on_world_def split: if_splits)
qed

context live_core begin

lemma stays_record_call: "stays core_inv (record_call E moment req r)"
  unfolding record_call_def Let_def storage_ops by (intro stays_then stays_emit stays_ret stays_disk keeps_records)

lemma execute_tool_inv:
  assumes c: "core_inv c" and e: "execute_tool E moment req c = Some (c', x)" shows "core_inv c'"
proof -
  obtain c1 res where y: "execute (core_tools E) (it_ns moment) (with_action_id moment req) c = Some (c1, res)"
    using e by (auto simp: execute_tool_def Let_def split: option.splits)
  have c1: "core_inv c1" by (rule execute_inv[OF c y])
  show ?thesis
  proof (cases res)
    case Threw
    then show ?thesis using e y c1 by (simp add: execute_tool_def)
  next
    case (Done r)
    then have "record_call E moment (with_action_id moment req) r c1 = (c', x)" using e y by (simp add: execute_tool_def)
    from runsD[OF stays_record_call this c1] show ?thesis by simp
  qed
qed

lemma tool_call_inv:
  assumes c: "core_inv c" and e: "tool_call E moment json hist c = Some (c', x)" shows "core_inv c'"
proof (cases "json_string json ''name'' = []")
  case True
  then show ?thesis using c e by (auto simp: tool_call_def Let_def inv_event)
next
  case False
  let ?q = "\<lparr>rq_name = json_string json ''name'', rq_arguments = json_object json ''arguments'', rq_description = json, rq_action_id = []\<rparr>"
  obtain c2 res where x: "execute_tool E moment ?q (emit_turn_event ''tool_call'' json c) = Some (c2, res)"
    using e False by (auto simp: tool_call_def Let_def)
  have "core_inv c2" by (rule execute_tool_inv[OF inv_event[OF c] x])
  then show ?thesis using e x False by (cases res) (auto simp: tool_call_def Let_def inv_event)
qed

lemma stays_stream [intro]: "stays core_inv (generate_stream E frame hist img)"
  by (auto simp: runs_def generate_stream_def split: option.splits prod.splits)

lemma stays_hear: "stays core_inv (hear_piece E user piece heard)"
proof -
  obtain full p n where h: "heard = (full, p, n)" by (cases heard)
  obtain ths p' where t: "take_completed_thoughts (feed p piece) = (ths, p')" by fastforce
  show ?thesis unfolding hear_piece_def h Let_def t prod.case
    by (intro stays_then stays_change inv_thoughts if_run stays_bind stays_judge stays_event stays_ret)
qed

lemma stays_listen: "stays core_inv (listen E user frame hist img)"
  unfolding listen_def by (intro stays_bind stays_stream stays_for_each stays_hear) (auto split: prod.splits)

lemma stays_close [intro]: "stays core_inv (close_turn m)"
  unfolding close_turn_def by (intro stays_then stays_change stays_emit) simp

lemma turn_rounds_inv:
  "core_inv c \<Longrightarrow> turn_rounds E user img frame rounds left hist c = Some (c', x) \<Longrightarrow> core_inv c'"
proof (induction left arbitrary: hist c rule: less_induct)
  case (less left)
  let ?c0 = "c\<lparr>c_stop := c_stop c \<or> rd_stop (rounds left)\<rparr>"
  have c0: "core_inv ?c0" using less.prems(1) by simp
  have fin: "stays core_inv (then_act (finalize_turn E moment t user) (close_turn m))" for moment t m
    by (intro stays_then stays_finalize stays_close)
  from less.prems(2) show ?case
  proof (cases rule: turn_rounds_cases)
    case stopped
    then have "close_turn ''turn end stopped'' ?c0 = (c', x)" by simp
    from runsD[OF stays_close this c0] show ?thesis by simp
  next
    case (broken c1)
    then show ?thesis using runsD[OF stays_listen broken(1) c0] by simp
  next
    case (ended c1 parsed m)
    have c1: "core_inv c1" using runsD[OF stays_listen ended(1) c0] by simp
    have "then_act (finalize_turn E (rd_instant (rounds left)) (response parsed) user) (close_turn m) c1 = (c', x)"
      using ended(2) by simp
    from runsD[OF fin this c1] show ?thesis by simp
  next
    case (called c1 parsed)
    have c1: "core_inv c1" using runsD[OF stays_listen called(1) c0] by simp
    obtain c2 y where t: "tool_call E (rd_instant (rounds left)) (tool_call_json parsed) hist c1 = Some (c2, y)"
      using called(3) by (cases "tool_call E (rd_instant (rounds left)) (tool_call_json parsed) hist c1") auto
    have c2: "core_inv c2" by (rule tool_call_inv[OF c1 t])
    show ?thesis
    proof (cases y)
      case Threw
      then show ?thesis using called(3) t c2 by simp
    next
      case (Done h2)
      then have "turn_rounds E user img frame rounds (left - 1) h2 c2 = Some (c', x)" using called(3) t by simp
      from less.IH[OF _ c2 this] called(2) show ?thesis by simp
    qed
  qed
qed

lemma user_turn_inv:
  assumes c: "core_inv c" and e: "user_turn E moment rounds crossed user img c = Some (c', x)" shows "core_inv c'"
proof -
  obtain c1 started where b: "begin_turn E crossed user img c = (c1, started)" by fastforce
  have c1: "core_inv c1" using b c
    by (auto simp: begin_turn_def report_error_def Let_def inv_emit inv_event split: if_splits intro!: inv_emit)
  show ?thesis
  proof (cases started)
    case True
    obtain c2 f where f: "build_turn_frame E moment user (c_history c1) c1 = (c2, f)" by fastforce
    have c2: "core_inv c2" using runsD[OF stays_frame f c1] by simp
    show ?thesis using e b True f c2 turn_rounds_inv[OF c2]
      by (cases f) (auto simp: user_turn_def run_turn_loop_def)
  next
    case False
    then show ?thesis using e b c1 by (simp add: user_turn_def)
  qed
qed

lemma stays_release [intro]: "stays core_inv release"
  unfolding release_def by (rule stays_change) simp

lemma stays_voluntary: "stays core_inv (run_voluntary_turn E moment)"
proof (rule runsI)
  fix c c' o1 assume c: "core_inv c" "run_voluntary_turn E moment c = (c', o1)"
  have up: "stays core_inv (speak_up E moment t)" for t
    unfolding speak_up_def Let_def by (intro if_run stays_then stays_emit stays_release stays_finalize)
  have b: "stays core_inv (bind_act (build_turn_frame E moment [] h) (\<lambda>frame.
           bind_act (generate_stream E (frame @ floor_text) h []) (\<lambda>pieces.
           speak_up E moment (response (result (feed_all new_parser pieces))))))" for h
    by (intro stays_bind stays_frame stays_stream up)
  have k: "core_inv (c\<lparr>c_active := True\<rparr>)" using c(1) by simp
  show "core_inv c' \<and> (\<forall>a. o1 = Done a \<longrightarrow> True)"
  proof (cases "c_active c \<or> \<not> connected E (c\<lparr>c_active := True\<rparr>)")
    case True
    then show ?thesis using c k runsD[OF stays_release, of "c\<lparr>c_active := True\<rparr>" c' o1]
      by (auto simp: run_voluntary_turn_def Let_def split: if_splits)
  next
    case False
    then show ?thesis using c(2) runsD[OF b _ k, of "c_history c" c' o1] by (simp add: run_voluntary_turn_def Let_def)
  qed
qed

end

section \<open>Seasons and sessions\<close>

lemma engine_ok_poles: "set_memory_poles gd coords k ve = Some ve' \<Longrightarrow> engine_ok ve \<Longrightarrow> engine_ok ve' \<and> ve_constraints ve' = ve_constraints ve"
  by (auto simp: set_memory_poles_def engine_ok_def)

lemma engine_ok_advance: "engine_ok ve \<Longrightarrow> engine_ok (advance_season s ve) \<and> season (ve_constraints (advance_season s ve)) = s"
  by (auto simp: advance_season_def update_constraints_def Let_def engine_ok_def biases_ok_def update_season_def)

context live_core begin

lemma stays_discover [intro]: "stays core_inv (discover_home_regions E)"
  unfolding discover_home_regions_def storage_ops
proof (rule stays_bind[OF stays_disk])
  fix rows :: "memory_item_row list"
  let ?coords = "map (\<lambda>t. encode t None) (filter (\<lambda>t. t \<noteq> []) (map row_text rows))"
  show "stays core_inv (\<lambda>c. let coords = ?coords in
       case set_memory_poles (en_gd E) coords kPoles (c_engine c) of
         None \<Rightarrow> (c, Threw)
       | Some ve \<Rightarrow>
           emit (''poles: '' @ string_of_nat (length (pe_poles (ve_poles ve))) @ '' home regions from ''
                 @ string_of_nat (length coords) @ '' memories'') (c\<lparr>c_engine := ve\<rparr>))"
  proof (rule runsI)
    fix c c' o1 assume c: "core_inv c" and e: "(let coords = ?coords in
       case set_memory_poles (en_gd E) coords kPoles (c_engine c) of
         None \<Rightarrow> (c, Threw)
       | Some ve \<Rightarrow>
           emit (''poles: '' @ string_of_nat (length (pe_poles (ve_poles ve))) @ '' home regions from ''
                 @ string_of_nat (length coords) @ '' memories'') (c\<lparr>c_engine := ve\<rparr>)) = (c', o1)"
    show "core_inv c' \<and> (\<forall>a. o1 = Done a \<longrightarrow> True)"
    proof (cases "set_memory_poles (en_gd E) ?coords kPoles (c_engine c)")
      case None
      then show ?thesis using c e by (simp only: Let_def option.case) simp
    next
      case (Some ve)
      have "core_inv (c\<lparr>c_engine := ve\<rparr>)" using engine_ok_poles[OF Some] c by (simp add: core_inv_def)
      then show ?thesis using e Some by (simp only: Let_def option.case) (auto intro: inv_emit)
    qed
  qed
qed (rule keeps_memory)

lemma stays_metrics: "stays core_inv (season_metrics E)"
  unfolding season_metrics_def storage_ops kAlignmentWindow_def
  by (intro stays_bind stays_identity stays_fetch stays_disk keeps_counted stays_ret) simp

lemma stays_check [intro]: "stays core_inv (check_season_progress E)"
  unfolding check_season_progress_def storage_ops
proof (rule stays_bind[OF stays_metrics], rule runs_bind[OF runs_identity])
  fix m :: season_state and i :: identity_record
  have u: "runs core_inv (\<lambda>c. id_season i = season (ve_constraints (c_engine c)))
      (on_disk (update_identity cols clock stamp (i\<lparr>id_total_evaluations := ss_evaluations m, id_alignment_rate := ss_rate m\<rparr>))) (\<lambda>_ _. True)"
    by (rule runs_weaken[OF runs_update]) simp_all
  have v: "stays core_inv (let (earned, reasons) =
              can_advance (ss_sessions m) (ss_evaluations m) (ss_rate m) 0 (ss_memories m) (ss_season m) 0 None
        in if earned then ret (earned, reasons)
           else then_act (emit (''season check '' @ ss_season m @ '' not yet ('' @ string_of_nat (length reasons)
                                @ '' criteria unmet)'')) (ret (earned, reasons)))"
    unfolding Let_def by (cases "can_advance (ss_sessions m) (ss_evaluations m) (ss_rate m) 0 (ss_memories m) (ss_season m) 0 None")
      (simp add: stays_ret stays_then stays_emit)
  show "runs core_inv (\<lambda>c. id_season i = season (ve_constraints (c_engine c)))
     (then_act (on_disk (update_identity cols clock stamp (i\<lparr>id_total_evaluations := ss_evaluations m, id_alignment_rate := ss_rate m\<rparr>)))
       (let (earned, reasons) =
              can_advance (ss_sessions m) (ss_evaluations m) (ss_rate m) 0 (ss_memories m) (ss_season m) 0 None
        in if earned then ret (earned, reasons)
           else then_act (emit (''season check '' @ ss_season m @ '' not yet ('' @ string_of_nat (length reasons)
                                @ '' criteria unmet)'')) (ret (earned, reasons)))) (\<lambda>_ _. True)"
    by (rule runs_then[OF u v])
qed

text \<open>The crossing: the update of the record and of the engine, taken together.\<close>

lemma stays_crossing:
  "stays core_inv (then_act (on_disk (update_identity cols clock stamp (i\<lparr>id_season := s\<rparr>)))
     (change (\<lambda>c. c\<lparr>c_engine := advance_season s (c_engine c)\<rparr>)))"
proof (rule runsI)
  fix c c' o1 assume c: "core_inv c" and e: "then_act (on_disk (update_identity cols clock stamp (i\<lparr>id_season := s\<rparr>)))
     (change (\<lambda>c. c\<lparr>c_engine := advance_season s (c_engine c)\<rparr>)) c = (c', o1)"
  obtain d r where d: "update_identity cols clock stamp (i\<lparr>id_season := s\<rparr>) (c_disk c) = (d, r)" by fastforce
  have "ledger_reads (c_disk c)" using c by (simp add: core_inv_def)
  from update_writes[OF this d] show "core_inv c' \<and> (\<forall>a. o1 = Done a \<longrightarrow> True)"
    using c e d engine_ok_advance[of "c_engine c" s]
    by (cases r) (auto simp: then_act_def bind_act_def on_disk_def change_def core_inv_def)
qed

lemma stays_landmark [intro]: "stays core_inv (landmark E moment a b)"
proof (rule runsI)
  fix c c' o1 assume c: "core_inv c" "landmark E moment a b c = (c', o1)"
  have d: "stays core_inv (on_disk (with_memory (store_memory_item (columns.truncate cols) clock item)))" for item
    by (rule stays_disk) (rule keeps_memory)
  show "core_inv c' \<and> (\<forall>a. o1 = Done a \<longrightarrow> True)"
    using c runsD[OF d _ c(1)] by (auto simp: landmark_def split: option.splits)
qed

lemma stays_advance: "stays core_inv (apply_season_advance E moment)"
  unfolding apply_season_advance_def storage_ops
proof (rule stays_bind[OF stays_identity])
  fix i :: identity_record
  have "stays core_inv (then_act (on_disk (update_identity cols clock stamp (i\<lparr>id_season := s\<rparr>)))
           (then_act (change (\<lambda>c. c\<lparr>c_engine := advance_season s (c_engine c)\<rparr>))
              (then_act (discover_home_regions E)
                 (then_act (landmark E moment (id_season i) s)
                    (then_act (emit (''season advance '' @ id_season i @ ''->'' @ s))
                       (ret (''Season advanced: '' @ id_season i @ '' -> '' @ s @ ''.'')))))))" for s
    unfolding then_then[of "on_disk _" "change _", symmetric]
    by (intro stays_then stays_crossing stays_discover stays_landmark stays_emit stays_ret)
  then show "stays core_inv (case next_season (id_season i) of
       None \<Rightarrow> ret []
     | Some s \<Rightarrow>
         then_act (on_disk (update_identity cols clock stamp (i\<lparr>id_season := s\<rparr>)))
           (then_act (change (\<lambda>c. c\<lparr>c_engine := advance_season s (c_engine c)\<rparr>))
              (then_act (discover_home_regions E)
                 (then_act (landmark E moment (id_season i) s)
                    (then_act (emit (''season advance '' @ id_season i @ ''->'' @ s))
                       (ret (''Season advanced: '' @ id_season i @ '' -> '' @ s @ ''.'')))))))"
    by (cases "next_season (id_season i)") (simp_all add: stays_ret)
qed

lemma stays_grow [intro]: "stays core_inv (grow E moment)"
  unfolding grow_def by (rule stays_bind[OF stays_check]) (auto intro: stays_advance stays_ret split: prod.splits)

lemma stays_begin: "stays core_inv (begin_session E moment)"
  unfolding begin_session_def storage_ops Let_def
proof (rule runs_bind[OF runs_identity])
  fix i :: identity_record
  let ?F = "\<lambda>c. id_season i = season (ve_constraints (c_engine c))"
  let ?n = "id_session_count i + 1" let ?key = "''session_'' @ string_of_int ?n @ ''_'' @ string_of_int (it_ns moment)"
  let ?rec = "\<lparr>sr_id = ?key, sr_session_number = ?n, sr_season = id_season i, sr_depth = id_depth i, sr_finalized = False,
            sr_created_at = it_iso moment, sr_finalized_at = []\<rparr>"
  have 1: "runs core_inv ?F (change (\<lambda>c. c\<lparr>c_session := ?key\<rparr>)) (\<lambda>_. ?F)" by (simp add: runs_def change_def)
  have 2: "runs core_inv ?F (on_disk (create_session cols ?rec)) (\<lambda>_. ?F)"
    by (rule runs_disk) (rule keeps_records)
  have 3: "runs core_inv ?F (on_disk (update_identity cols clock stamp (i\<lparr>id_session_count := ?n\<rparr>))) (\<lambda>_ _. True)"
    by (rule runs_weaken[OF runs_update]) simp_all
  have 4: "stays core_inv (then_act (change (\<lambda>c. c\<lparr>c_history := []\<rparr>)) (emit (''session begin id='' @ ?key)))"
    by (intro stays_then stays_change stays_emit) simp
  show "runs core_inv ?F (then_act (change (\<lambda>c. c\<lparr>c_session := ?key\<rparr>))
       (then_act (on_disk (create_session cols ?rec))
          (then_act (on_disk (update_identity cols clock stamp (i\<lparr>id_session_count := ?n\<rparr>)))
             (then_act (change (\<lambda>c. c\<lparr>c_history := []\<rparr>)) (emit (''session begin id='' @ ?key)))))) (\<lambda>_ _. True)"
    by (rule runs_then[OF 1 runs_then[OF 2 runs_then[OF 3 4]]])
qed

lemma stays_end: "stays core_inv (end_session E moment)"
proof (rule runsI)
  fix c c' o1 assume c: "core_inv c" "end_session E moment c = (c', o1)"
  have b: "stays core_inv (bind_act (on_disk (run_sweep (Some (en_ops E)) (it_iso moment) (it_ns moment))) (\<lambda>counts.
      bind_act (on_disk (run_maintenance (en_exp E) (en_log E) (Some (en_ops E)) (it_iso moment) (it_ns moment))) (\<lambda>maint.
      then_act (on_disk (finalize_session cols clock key))
        (then_act (emit (''session end id='' @ key @ '' promoted='' @ string_of_int (to_long_term counts)
                         @ '' purged='' @ string_of_int (purged counts)))
          (bind_act (grow E moment) (\<lambda>line.
           then_act (change (\<lambda>c. c\<lparr>c_session := []\<rparr>))
             (ret (session_report key counts maint @ (if line = [] then [] else newline @ line)))))))))" for key
    unfolding memories
    by (intro stays_bind stays_disk keeps_sweep keeps_maintenance stays_then keeps_records stays_emit stays_grow stays_change stays_ret)
       simp
  show "core_inv c' \<and> (\<forall>a. o1 = Done a \<longrightarrow> True)"
  proof (cases "c_session c = []")
    case True
    then show ?thesis using c by (simp add: end_session_def)
  next
    case False
    then show ?thesis using c(2) runsD[OF b _ c(1), of "c_session c" c' o1] by (simp add: end_session_def Let_def)
  qed
qed

section \<open>The start\<close>

lemma inv_new:
  assumes "ledger_reads d" "get_identity cols clock stamp d = (d', Done i)" shows "core_inv (new_core (id_season i) d' p w)"
proof -
  have s: "ledger_reads d' \<and> stored_season d' = Some (id_season i)"
  proof (cases "identity d")
    case (Some r)
    then show ?thesis using assms
      by (auto simp: get_identity_def stored_season_def split: option.splits)
  next
    case None
    then obtain u where u: "update_identity cols clock stamp (first_identity clock) d = (d', u)" "u = Done ()" "i = first_identity clock"
      using assms(2) by (auto simp: get_identity_def then_act_def bind_act_def split: prod.splits outcome.splits)
    from update_writes[OF assms(1) u(1)] u(2,3) show ?thesis by simp
  qed
  have "season (ve_constraints (new_value_engine (from_season (id_season i)) (id_season i))) = id_season i"
    by (simp add: new_value_engine_def)
  with s show ?thesis by (simp add: core_inv_def new_core_def engine_ok_new)
qed

lemma initialize_inv:
  assumes "ledger_reads d" "initialize E moment answers p w d = (d', Done c)" shows "core_inv c"
proof -
  obtain disk i where g: "get_identity cols clock stamp d = (disk, Done i)"
    using assms(2) by (auto simp: initialize_def split: prod.splits outcome.splits)
  have ws: "stays core_inv (make_workspace E)" by (simp add: runs_def make_workspace_def split: prod.splits outcome.splits)
  have sp: "stays core_inv (attach_spoke answers)"
    by (cases answers) (auto simp: runs_def attach_spoke_def Let_def inv_emit split: prod.splits)
  have b: "stays core_inv (bind_act (make_workspace E) (\<lambda>_.
                 then_act (attach_spoke answers)
                   (then_act (discover_home_regions E)
                      (then_act (grow E moment) (change (\<lambda>c. c\<lparr>c_ready := True\<rparr>))))))"
    by (intro stays_bind ws stays_then sp stays_discover stays_grow stays_change) simp
  obtain c1 o1 where r: "bind_act (make_workspace E) (\<lambda>_.
                 then_act (attach_spoke answers)
                   (then_act (discover_home_regions E)
                      (then_act (grow E moment) (change (\<lambda>c. c\<lparr>c_ready := True\<rparr>))))) (new_core (id_season i) disk p w) = (c1, o1)"
    by fastforce
  have "core_inv c1" using runsD[OF b r inv_new[OF assms(1) g]] by simp
  moreover have "c = c1" using assms(2) g r by (cases o1) (simp_all add: initialize_def)
  ultimately show ?thesis by simp
qed

lemma inv_round: "core_inv c \<Longrightarrow> core_inv (telemetry_round E c)"
proof -
  have w: "core_inv c \<Longrightarrow> core_inv (write_entry E e c)" for e c
  proof -
    assume c: "core_inv c"
    obtain a b m where e: "e = (a, b, m)" by (cases e)
    have "stays core_inv (on_disk (append_telemetry_log cols stamp a b m None))" by (rule stays_disk) (rule keeps_records)
    from runsD[OF this prod.collapse[symmetric] c] show "core_inv (write_entry E e c)" by (simp add: write_entry_def e)
  qed
  have f: "core_inv (foldl (\<lambda>c e. write_entry E e c) c es)" if "core_inv c" for c es
    using that by (induction es arbitrary: c) (simp_all add: w)
  assume "core_inv c"
  then have "core_inv (c\<lparr>c_queue := []\<rparr>)" by (simp add: core_inv_def)
  then show ?thesis unfolding telemetry_round_def by (rule f)
qed

end

section \<open>The life of a core\<close>

inductive lives :: "(ledger, 'm, 'w) env \<Rightarrow> (ledger, 'm, 'w) core \<Rightarrow> bool" for E :: "(ledger, 'm, 'w) env" where
  started: "ledger_reads d \<Longrightarrow> initialize E moment answers p w d = (d', Done c) \<Longrightarrow> lives E c"
| session_begun: "lives E c \<Longrightarrow> begin_session E moment c = (c', r) \<Longrightarrow> lives E c'"
| session_ended: "lives E c \<Longrightarrow> end_session E moment c = (c', s) \<Longrightarrow> lives E c'"
| chatted: "lives E c \<Longrightarrow> chat E moment user img c = (c', t) \<Longrightarrow> lives E c'"
| turned: "lives E c \<Longrightarrow> user_turn E moment rounds crossed user img c = Some (c', r) \<Longrightarrow> lives E c'"
| spoke_up: "lives E c \<Longrightarrow> run_voluntary_turn E moment c = (c', r) \<Longrightarrow> lives E c'"
| used_tool: "lives E c \<Longrightarrow> execute_tool E moment req c = Some (c', q) \<Longrightarrow> lives E c'"
| stopped_turn: "lives E c \<Longrightarrow> lives E (stop_turn c)"
| got_voice: "lives E c \<Longrightarrow> lives E (attach_model E adapter c)"
| wrote_log: "lives E c \<Longrightarrow> lives E (telemetry_round E c)"

context live_core begin

lemma lives_inv: "lives E c \<Longrightarrow> core_inv c"
proof (induction rule: lives.induct)
  case (stopped_turn c)
  then show ?case by (simp add: stop_turn_def inv_emit)
next
  case (got_voice c adapter)
  then show ?case by (simp add: attach_model_def Let_def inv_emit)
next
  case (started d moment answers p w d' c)
  then show ?case by (intro initialize_inv)
next
  case (session_begun c moment c' r)
  then show ?case using runsD[OF stays_begin session_begun(2)] by simp
next
  case (session_ended c moment c' s)
  then show ?case using runsD[OF stays_end session_ended(2)] by simp
next
  case (chatted c moment user img c' t)
  then show ?case using runsD[OF stays_chat chatted(2)] by simp
next
  case (turned c moment rounds crossed user img c' r)
  then show ?case using user_turn_inv[OF _ turned(2)] by simp
next
  case (spoke_up c moment c' r)
  then show ?case using runsD[OF stays_voluntary spoke_up(2)] by simp
next
  case (used_tool c moment req c' q)
  then show ?case using execute_tool_inv[OF _ used_tool(2)] by simp
next
  case (wrote_log c)
  then show ?case by (intro inv_round)
qed

end

interpretation quiet: live_core plain_ledger sample_clock quiet_env "\<lambda>a b. True" sample_clock
proof (rule live_core.intro[OF plain_book.pg_ledger_axioms], rule live_core_axioms.intro)
  have "columns.truncate plain_ledger = plain_columns" by (simp add: plain_ledger_def columns.truncate_def)
  then show "en_ops quiet_env = ledger_ops (columns.truncate plain_ledger) sample_clock" by (simp add: quiet_env_def)
qed (simp_all add: quiet_facts)

text \<open>
  C1: what holds of a core through its whole life, across all components: on the PostgreSQL backend,
  after any sequence of sessions, blocking turns, open-window turns with tool calls, voluntary turns,
  tool calls from outside, stops, changes of the voice and rounds of the telemetry writer, each of
  them ended by a return or by an exception, the engine can evaluate every text, its season is the
  stored one, the ledger can be read, and no more than 5000 telemetry lines wait.
\<close>

theorem core_lifetime:
  assumes "live_core cols clock E time_le stamp" and "lives E c"
  shows "(\<exists>r. evaluate (en_gd E) (c_engine c) text ctx True = Some r)
     \<and> stored_season (c_disk c) = Some (season (ve_constraints (c_engine c)))
     \<and> ledger_reads (c_disk c) \<and> length (c_queue c) \<le> 5000"
proof -
  have i: "core_inv c" by (rule live_core.lives_inv[OF assms])
  have g: "gmp_get_d (en_gd E)" using assms(1) by (simp add: live_core_def live_core_axioms_def)
  obtain r where "evaluate (en_gd E) (c_engine c) text ctx True = Some r"
    using evaluate_ok[OF g, of "c_engine c" "text" ctx True] i unfolding core_inv_def by metis
  with i show ?thesis by (simp add: core_inv_def QUEUE_LIMIT_def)
qed

definition sample_ledger :: ledger where
  "sample_ledger =
     \<lparr>memory = \<lparr>items = [], promotions = []\<rparr>,
      identity = Some \<lparr>ir_season = Some ''spring'', ir_depth = Some ''new'', ir_self_description = None,
                       ir_session_count = Some ''0'', ir_total_evaluations = Some ''0'', ir_alignment_rate = Some ''0.0000'',
                       ir_created_at = None, ir_updated_at = None\<rparr>,
      transcripts = [], sessions = [], actions = [], evaluations = [], telemetry = [], next_log_id = 1\<rparr>"

lemma sample_numbers: "stoi ''0'' = Some 0" "stod ''0.0000'' = Some (Fin 0)"
  by code_simp+

lemma pq_None: "pq None = []"
  by (simp add: pq_def value_or_def)

lemma sample_reads: "ledger_reads sample_ledger"
  by (simp add: ledger_reads_def identity_reads_def sample_ledger_def sample_numbers)

lemma sample_identity:
  "get_identity cols t u sample_ledger = (sample_ledger, Done \<lparr>id_season = ''spring'', id_depth = ''new'', id_self_description = [],
     id_session_count = 0, id_total_evaluations = 0, id_alignment_rate = Fin 0, id_created_at = [], id_updated_at = []\<rparr>)"
  by (simp add: get_identity_def sample_ledger_def sample_numbers pq_None)

lemma quiet_discovers:
  assumes "c_disk c = sample_ledger"
  shows "\<exists>c'. discover_home_regions quiet_env c = (c', Done ()) \<and> c_disk c' = sample_ledger"
  using assms by (simp add: discover_home_regions_def quiet.storage_ops on_disk_def bind_act_def with_memory_def
      fetch_by_status_def select_items_def sample_ledger_def set_memory_poles_def discover_def)

lemma quiet_checks:
  assumes "c_disk c = sample_ledger"
  shows "\<exists>c' reasons. check_season_progress quiet_env c = (c', Done (False, reasons))"
proof -
  obtain q w where q: "rate_col plain_ledger (string_of_double (Fin 0)) = Some q" "stod q = Some (Fin w)"
    using plain_book.rate_column[of 0] by auto
  obtain z where z: "int_col plain_ledger (string_of_int 0) = Some z" "stoi z = Some 0" using plain_book.int_column[of 0] by auto
  obtain t where t: "time_col plain_ledger sample_clock = Some t" using plain_book.clock_column by blast
  have n: "name_col plain_ledger ''spring'' = Some ''spring''" "name_col plain_ledger ''new'' = Some ''new''"
    "text_col plain_ledger x = Some x" for x by (simp_all add: plain_ledger_def plain_columns_def)
  have d: "c\<lparr>c_disk := sample_ledger\<rparr> = c" using assms by simp
  have g: "on_disk (get_identity plain_ledger sample_clock sample_clock) c = (c, Done \<lparr>id_season = ''spring'', id_depth = ''new'',
     id_self_description = [], id_session_count = 0, id_total_evaluations = 0, id_alignment_rate = Fin 0, id_created_at = [], id_updated_at = []\<rparr>)"
    unfolding on_disk_def assms sample_identity by (simp add: d)
  have f: "on_disk (fetch_evaluations 100) c = (c, Done [])"
    by (simp add: on_disk_def assms fetch_evaluations_def newest_def d) (simp add: sample_ledger_def d[unfolded sample_ledger_def])
  have k: "on_disk (counted count_qualifying_memories) c = (c, Done 0)"
    by (simp add: on_disk_def assms counted_def d) (simp add: sample_ledger_def count_qualifying_memories_def)
  have m: "season_metrics quiet_env c = (c, Done \<lparr>ss_season = ''spring'', ss_sessions = 0, ss_evaluations = 0, ss_rate = Fin 0, ss_memories = 0\<rparr>)"
    unfolding season_metrics_def quiet.storage_ops kAlignmentWindow_def by (simp add: g f k alignment_rate_of_def)
  have u: "\<exists>c'. on_disk (update_identity plain_ledger sample_clock sample_clock \<lparr>id_season = ''spring'', id_depth = ''new'',
     id_self_description = [], id_session_count = 0, id_total_evaluations = 0, id_alignment_rate = Fin 0, id_created_at = [], id_updated_at = []\<rparr>) c
     = (c', Done ())"
    by (simp add: on_disk_def update_identity_def n q z t split: prod.splits)
  then obtain c' where u: "on_disk (update_identity plain_ledger sample_clock sample_clock \<lparr>id_season = ''spring'', id_depth = ''new'',
     id_self_description = [], id_session_count = 0, id_total_evaluations = 0, id_alignment_rate = Fin 0, id_created_at = [], id_updated_at = []\<rparr>) c
     = (c', Done ())" by blast
  obtain reasons where a: "can_advance 0 0 (Fin 0) 0 0 ''spring'' 0 None = (False, reasons)"
    by (simp add: can_advance_def requirements_def count_reason_def Let_def)
  show ?thesis
    unfolding check_season_progress_def quiet.storage_ops by (simp add: m g u a)
qed

lemma quiet_starts:
  "\<exists>d c. initialize quiet_env \<lparr>it_iso = sample_clock, it_ns = 0, it_id = ''m1''\<rparr> None (c_pool quiet_core) [] sample_ledger = (d, Done c)"
proof -
  let ?c0 = "new_core ''spring'' sample_ledger (c_pool quiet_core) [] :: (ledger, bool, (string \<times> string) list) core"
  have w: "make_workspace quiet_env ?c0 = (?c0, Done ''/w'')"
    by (simp add: make_workspace_def ensure_workspace_def quiet_env_def file_machine_def new_tool_engine_def new_core_def)
  obtain c1 where c1: "discover_home_regions quiet_env ?c0 = (c1, Done ())" "c_disk c1 = sample_ledger"
    using quiet_discovers[of ?c0] by (auto simp: new_core_def)
  obtain c2 reasons where c2: "check_season_progress quiet_env c1 = (c2, Done (False, reasons))" using quiet_checks[OF c1(2)] by blast
  have "grow quiet_env moment c1 = (c2, Done [])" for moment by (simp add: grow_def c2)
  then show ?thesis
    by (simp add: initialize_def quiet.storage_ops sample_identity w attach_spoke_def c1(1) change_def)
qed

theorem core_lifetime_witness:
  "\<exists>c c' t. lives quiet_env c \<and> chat quiet_env \<lparr>it_iso = sample_clock, it_ns = 7, it_id = ''m2''\<rparr> ''hello'' [] c = (c', t)
     \<and> (\<exists>r. evaluate trunc_d (c_engine c') ''I will dominate'' None True = Some r)
     \<and> stored_season (c_disk c') = Some (season (ve_constraints (c_engine c')))"
proof -
  obtain d c where c: "initialize quiet_env \<lparr>it_iso = sample_clock, it_ns = 0, it_id = ''m1''\<rparr> None (c_pool quiet_core) [] sample_ledger = (d, Done c)"
    using quiet_starts by blast
  have l: "lives quiet_env c" by (rule started[OF sample_reads c])
  obtain c' t where c': "chat quiet_env \<lparr>it_iso = sample_clock, it_ns = 7, it_id = ''m2''\<rparr> ''hello'' [] c = (c', t)" by fastforce
  have "en_gd quiet_env = trunc_d" by (simp add: quiet_env_def)
  then show ?thesis using core_lifetime[OF quiet.live_core_axioms chatted[OF l c'], of "''I will dominate''" None] l c' by auto
qed

end
