(* ===== verification/Ui_Turns.thy ===== *)
theory Ui_Turns
  imports Ui_Window Core_Life
begin

text \<open>
  The window and the turns of the core together: what a turn asked by \<^verbatim>\<open>sendMessage\<close> does, by its
  callbacks, to the window that waits for it (\<^verbatim>\<open>run_turn_loop\<close> and \<^verbatim>\<open>finalize_turn\<close> in
  \<^verbatim>\<open>src/src/lina_core.cpp\<close>, \<^verbatim>\<open>makeTurnCallbacks\<close> in \<^verbatim>\<open>src/src/lina_ui.cpp\<close>).
\<close>

section \<open>What the parser makes of a stream\<close>

text \<open>What a voice in the state \<open>m\<close> says when it is asked, cut by the parser.\<close>

definition said :: "('s, 'm, 'w) env \<Rightarrow> 'm \<Rightarrow> string \<Rightarrow> (string \<times> string) list \<Rightarrow> string \<Rightarrow> parsed_turn" where
  "said E m frame hist image_path =
     result (feed_all new_parser (fst (snd (vo_stream (en_voice E) frame hist image_path m))))"

lemma result_buffer: "buffer p = buffer q \<Longrightarrow> result p = result q"
  unfolding result_def by metis

lemma feed_buffer:
  assumes "buffer p = buffer q" shows "buffer (feed p x) = buffer (feed q x)"
proof -
  have fed: "buffer (feed p x) = snd (sweep [] (buffer p @ x))" for p
    unfolding feed_simps by (subst sweep_Nil) (rule snd_conv)
  show ?thesis unfolding fed assms ..
qed

lemma feed_all_buffer: "buffer p = buffer q \<Longrightarrow> buffer (feed_all p xs) = buffer (feed_all q xs)"
proof (induction xs arbitrary: p q)
  case (Cons x xs)
  from Cons.IH[OF feed_buffer[OF Cons.prems]] show ?case by (simp add: feed_all_def)
qed (simp add: feed_all_def)

section \<open>What is heard while the voice speaks\<close>

text \<open>The turn goes on: the events after \<open>es\<close> have no end among them.\<close>

definition waiting_on :: "turn_event list \<Rightarrow> 'm option \<Rightarrow> bool \<Rightarrow> ('s, 'm, 'w) core \<Rightarrow> bool" where
  "waiting_on es v b c \<longleftrightarrow> c_voice c = v \<and> c_stop c = b \<and> (\<exists>new. c_events c = es @ new \<and> \<not> list_ex ends_turn new)"

abbreviation waits :: "turn_event list \<Rightarrow> 'm option \<Rightarrow> bool \<Rightarrow> (('s, 'm, 'w) core, 'a) act \<Rightarrow> bool" where
  "waits es v b m \<equiv> keeps (waiting_on es v b) m"

lemma emit_event_fields [simp]:
  "c_voice (emit_turn_event kind body c) = c_voice c" "c_stop (emit_turn_event kind body c) = c_stop c"
  "c_events (emit_turn_event kind body c) = c_events c @ callback_of kind body"
  by (simp_all add: emit_turn_event_def persist_telemetry_def Let_def)

lemma score_goes_on: "\<not> list_ex ends_turn (callback_of ''score'' body)" "\<not> list_ex ends_turn (callback_of ''thought'' body)"
  by (simp_all add: callback_of_def split: option.splits)

lemma waits_event: "kind = ''score'' \<or> kind = ''thought'' \<Longrightarrow> waiting_on es v b c \<Longrightarrow> waiting_on es v b (emit_turn_event kind body c)"
  using score_goes_on by (auto simp: waiting_on_def)

lemma waits_thoughts: "waiting_on es v b c \<Longrightarrow> waiting_on es v b (foldl (\<lambda>c t. emit_turn_event ''thought'' t c) c ths)"
  by (induction ths arbitrary: c) (simp_all add: waits_event)

lemma waits_change: "(\<And>c. waiting_on es v b c \<Longrightarrow> waiting_on es v b (f c)) \<Longrightarrow> waits es v b (change f)"
  by (simp add: keeps_def change_def)

lemma waits_basic [intro]: "waits es v b (emit m)" "waits es v b (judge E t ctx)" "waits es v b (on_disk a)"
  by (auto simp: keeps_def judge_def on_disk_def waiting_on_def split: option.splits prod.splits)

lemma waits_hear: "waits es v b (hear_piece E user piece heard)"
proof -
  obtain full p k where x: "heard = (full, p, k)" by (cases heard)
  obtain ths p' where t: "take_completed_thoughts (feed p piece) = (ths, p')" by fastforce
  show ?thesis unfolding hear_piece_def x Let_def t prod.case
    by (auto intro!: keeps_then keeps_bind waits_change waits_basic waits_event waits_thoughts)
qed

lemma waits_frame: "waits es v b (build_turn_frame E moment user hist)"
proof -
  have g: "waits es v b (current_geometric_state E)"
    unfolding current_geometric_state_def
    by (rule keeps_bind[OF waits_basic(3)]) (auto simp: keeps_def Let_def split: prod.splits option.splits)
  have p: "waits es v b (build_system_prompt E)" unfolding build_system_prompt_def by (intro keeps_bind waits_basic keeps_ret)
  show ?thesis unfolding build_turn_frame_def Let_def by (intro keeps_bind p waits_basic g keeps_ret)
qed

lemma hear_parser:
  assumes "hear_piece E user piece (full, p, k) c = (c', Done (full', p', k'))" shows "buffer p' = buffer (feed p piece)"
  using assms by (auto simp: hear_piece_def take_completed_thoughts_def Let_def bind_act_Done then_act_Done split: if_splits)

lemma hear_all_parser:
  "for_each (hear_piece E user) pieces (full, p, k) c = (c', Done (full', p', k')) \<Longrightarrow> buffer p' = buffer (feed_all p pieces)"
proof (induction pieces arbitrary: full p k c)
  case (Cons x xs)
  from Cons.prems obtain c1 f1 p1 k1 where 1: "hear_piece E user x (full, p, k) c = (c1, Done (f1, p1, k1))"
      "for_each (hear_piece E user) xs (f1, p1, k1) c1 = (c', Done (full', p', k'))"
    by (auto simp: bind_act_Done)
  from Cons.IH[OF 1(2)] feed_all_buffer[OF hear_parser[OF 1(1)]] show ?case by (simp add: feed_all_def)
qed (simp add: feed_all_def)

text \<open>What is heard is what was said, and no event of it ends the turn.\<close>

lemma listen_said:
  assumes "listen E user frame hist img c = (c', Done parsed)" "waiting_on es (Some m) b c"
  shows "parsed = said E m frame hist img \<and> (\<exists>v s. waiting_on es v s c')"
proof -
  obtain m' pieces stop where v: "vo_stream (en_voice E) frame hist img m = (m', pieces, stop)" by (cases "vo_stream (en_voice E) frame hist img m")
  let ?c1 = "c\<lparr>c_voice := Some m', c_stop := c_stop c \<or> stop\<rparr>"
  have g: "generate_stream E frame hist img c = (?c1, Done pieces)"
    using assms(2) v by (simp add: generate_stream_def waiting_on_def)
  obtain full p k where h: "for_each (hear_piece E user) pieces ([], new_parser, 0) ?c1 = (c', Done (full, p, k))" "parsed = result p"
    using assms(1) g by (auto simp: listen_def bind_act_Done)
  have w: "waiting_on es (Some m') (c_stop c \<or> stop) ?c1" using assms(2) by (auto simp: waiting_on_def)
  have "waits es (Some m') (c_stop c \<or> stop) (for_each (hear_piece E user) pieces ([], new_parser, 0))"
    by (intro keeps_for_each waits_hear)
  from keepsD[OF this h(1) w] have "waiting_on es (Some m') (c_stop c \<or> stop) c'" .
  moreover have "parsed = said E m frame hist img"
    using h(2) result_buffer[OF hear_all_parser[OF h(1)]] by (simp add: said_def v)
  ultimately show ?thesis by blast
qed

section \<open>The end of a turn\<close>

lemma close_events: "close_turn m c = (c', r) \<Longrightarrow> c_events c' = c_events c \<and> r = Done ()"
  by (auto simp: close_turn_def then_act_def bind_act_def change_def emit_def)

lemma finalize_ends:
  assumes "finalize_turn E moment reply user c = (c', Done ())"
  shows "\<exists>new. c_events c' = c_events c @ new \<and> (list_ex ends_turn new \<longleftrightarrow> dropWhile is_blank reply \<noteq> [])"
proof (cases "dropWhile is_blank reply = []")
  case True
  then show ?thesis using assms by (auto simp: finalize_turn_def emit_def change_def)
next
  case False
  let ?ctx = "if user = [] then None else Some user"
  obtain c1 t r where g: "apply_gate E (dropWhile is_blank reply) ?ctx c = (c1, Done (t, r))"
    and f: "(if r_zone r = Violation then then_act (emit ''turn withheld (polytope)'') (change (emit_turn_event ''complete'' t))
        else then_act (change (emit_turn_event ''complete'' t)) (then_act (remember E moment t r)
          (then_act (change (\<lambda>c. c\<lparr>c_history := push_answer t (c_history c)\<rparr>)) (emit (''turn finalized zone='' @ zone_name (r_zone r)))))) c1
        = (c', Done ())"
    using assms[unfolded finalize_turn_def Let_def if_not_P[OF False] bind_act_Done] by auto
  have c1: "c_events c1 = c_events c" by (rule keepsD[OF events_stay_gate g refl])
  have h: "events_stay es (change (\<lambda>c. c\<lparr>c_history := f c\<rparr>))" for es and f :: "('a, 'b, 'c) core \<Rightarrow> _"
    by (rule events_stay_change) simp
  have tail: "events_stay es (then_act (remember E moment t r)
      (then_act (change (\<lambda>c. c\<lparr>c_history := push_answer t (c_history c)\<rparr>)) (emit (''turn finalized zone='' @ zone_name (r_zone r)))))" for es
    by (intro keeps_then events_stay_remember h events_stay_basic)
  have "c_events c' = c_events c @ [On_complete t]"
  proof (cases "r_zone r = Violation")
    case True
    then show ?thesis using f c1 by (auto simp: then_act_def bind_act_def change_def emit_def callback_of_def)
  next
    case z: False
    from f z obtain c2 where c2: "change (emit_turn_event ''complete'' t) c1 = (c2, Done ())"
      "then_act (remember E moment t r) (then_act (change (\<lambda>c. c\<lparr>c_history := push_answer t (c_history c)\<rparr>))
         (emit (''turn finalized zone='' @ zone_name (r_zone r)))) c2 = (c', Done ())"
      by (auto simp: then_act_Done)
    have "c_events c2 = c_events c @ [On_complete t]" using c2(1) c1 by (auto simp: change_def callback_of_def)
    then show ?thesis using keepsD[OF tail c2(2)] by blast
  qed
  then show ?thesis using False by simp
qed


lemma finalize_close_ends:
  assumes "then_act (finalize_turn E moment reply user) (close_turn m) c = (c', Done ())"
  shows "\<exists>new. c_events c' = c_events c @ new \<and> (list_ex ends_turn new \<longleftrightarrow> dropWhile is_blank reply \<noteq> [])"
proof -
  obtain c1 where 1: "finalize_turn E moment reply user c = (c1, Done ())" "close_turn m c1 = (c', Done ())"
    using assms by (auto simp: then_act_Done)
  show ?thesis using finalize_ends[OF 1(1)] close_events[OF 1(2)] by simp
qed

text \<open>The first round of a turn in which the voice makes no call.\<close>

lemma round_ends:
  assumes "turn_rounds E user img frame rounds left hist c = Some (c', Done ())"
    and "waiting_on es (Some m) False c" and "\<not> has_tool_call (said E m frame hist img)"
  shows "\<exists>new. c_events c' = es @ new
      \<and> (list_ex ends_turn new \<longleftrightarrow> \<not> rd_stop (rounds left) \<and> dropWhile is_blank (response (said E m frame hist img)) \<noteq> [])"
proof -
  let ?c0 = "c\<lparr>c_stop := c_stop c \<or> rd_stop (rounds left)\<rparr>"
  have stop: "c_stop c = False" using assms(2) by (simp add: waiting_on_def)
  have w: "waiting_on es (Some m) (rd_stop (rounds left)) ?c0" using assms(2) by (auto simp: waiting_on_def)
  show ?thesis
  proof (cases "rd_stop (rounds left)")
    case True
    then have "Some (close_turn ''turn end stopped'' ?c0) = Some (c', Done ())"
      using assms(1) by (simp add: turn_rounds.simps[of E user img frame rounds left hist c])
    then have "c_events c' = c_events c" using close_events[of "''turn end stopped''" ?c0 c' "Done ()"] by simp
    then show ?thesis using assms(2) True by (auto simp: waiting_on_def)
  next
    case False
    note go = assms(1)[unfolded turn_rounds.simps[of E user img frame rounds left hist c] Let_def]
    obtain c1 parsed where l: "listen E user frame hist img ?c0 = (c1, Done parsed)"
      using go False stop by (cases "listen E user frame hist img ?c0"; cases "snd (listen E user frame hist img ?c0)") auto
    from listen_said[OF l w] have said: "parsed = said E m frame hist img" and w1: "\<exists>v b. waiting_on es v b c1" by auto
    obtain t where t: "then_act (finalize_turn E (rd_instant (rounds left)) (response parsed) user) (close_turn t) c1 = (c', Done ())"
      using go False stop l said assms(3) by (auto split: if_splits)
    from finalize_close_ends[OF t] w1 said False show ?thesis by (auto simp: waiting_on_def)
  qed
qed

text \<open>
  C11: a reply frees the window, and only a reply does: a message is sent and its turn comes back, the
  voice making no call.  Then the window can send again exactly when the voice said something before
  it was stopped.  When all that it said is blank, or it was stopped before the stream began, none of
  the callbacks of the turn ends it for the window: the input stays locked and every further message
  is dropped.
\<close>

theorem reply_frees_window:
  assumes "\<not> c_active c" "c_ready c" "connected E c" "c_voice c = Some m"
    and "user_turn E moment rounds crossed user img c = Some (c', Done ())"
    and "\<forall>frame hist i. \<not> has_tool_call (said E m frame hist i)
          \<and> (dropWhile is_blank (response (said E m frame hist i)) = [] \<longleftrightarrow> silent)"
    and "trimmed message \<noteq> []" "\<not> w_busy w"
  shows "w_busy (after_events U (drop (length (c_events c)) (c_events c')) (sendMessage U message w))
     \<longleftrightarrow> silent \<or> rd_stop (rounds kMaxToolCallsPerTurn)"
proof -
  obtain c1 where b: "begin_turn E crossed user img c = (c1, True)" "waiting_on (c_events c) (Some m) False c1"
    using assms(1-4) by (cases crossed) (auto simp: begin_turn_def Let_def waiting_on_def callback_of_def)
  obtain c2 frame where f: "build_turn_frame E moment user (c_history c1) c1 = (c2, Done frame)"
    and t: "turn_rounds E user img frame rounds kMaxToolCallsPerTurn (c_history c1) c2 = Some (c', Done ())"
    using assms(5) b(1) by (auto simp: user_turn_def run_turn_loop_def split: prod.splits outcome.splits)
  have "waiting_on (c_events c) (Some m) False c2" by (rule keepsD[OF waits_frame f b(2)])
  from round_ends[OF t this] assms(6) show ?thesis
    using assms(7,8) send_fields(1)[of message w U] by (auto simp: after_events_busy)
qed


text \<open>A voice that says nothing, on an empty database.\<close>

definition hushed :: "(ledger, bool, (string \<times> string) list) env" where
  "hushed = quiet_env\<lparr>en_voice := (en_voice quiet_env)\<lparr>vo_stream := (\<lambda>frame hist image_path b. (b, [], False))\<rparr>\<rparr>"

lemma hushed_fields:
  "en_storage hushed = en_storage quiet_env" "en_ops hushed = en_ops quiet_env" "en_config hushed = en_config quiet_env"
  "vo_connected (en_voice hushed) = (\<lambda>b. b)" "vo_stream (en_voice hushed) = (\<lambda>frame hist image_path b. (b, [], False))"
  by (simp_all add: hushed_def quiet_env_def)

lemma center_walls: "near_walls gd p DEFAULT_CENTER thr \<noteq> None"
proof -
  have l: "length DEFAULT_CENTER = 14" by (simp add: DEFAULT_CENTER_def DEFAULT_CENTER_decimals_def)
  have "x \<in> set DEFAULT_CENTER \<Longrightarrow> \<exists>q. x = Fin q" for x using center_unit l by (metis in_set_conv_nth)
  then have "\<exists>qs. DEFAULT_CENTER = map Fin qs" by (metis ex_map_conv)
  then obtain qs where q: "DEFAULT_CENTER = map Fin qs" ..
  show ?thesis unfolding near_walls_def q to_mpq_vec_Fin by simp
qed

lemma hushed_frame:
  assumes "c_disk c = sample_ledger" "c_engine c = new_value_engine (from_season ''spring'') ''spring''"
  shows "\<exists>f. build_turn_frame hushed moment user hist c = (c, Done f)"
proof -
  have d: "c\<lparr>c_disk := sample_ledger\<rparr> = c" using assms(1) by simp
  have p: "\<exists>t. build_system_prompt hushed c = (c, Done t)"
    by (simp add: build_system_prompt_def hushed_fields quiet.storage_ops on_disk_def assms(1) sample_identity d)
  have none: "fetch_by_status s (memory sample_ledger) = (memory sample_ledger, Done [])" for s
    by (simp add: fetch_by_status_def select_items_def sample_ledger_def)
  have ops: "op_fetch_by_status (en_ops quiet_env) s sample_ledger = (sample_ledger, Done [])" for s
    using none[of s] by (simp add: quiet_env_def ledger_ops_def pg_store_def Let_def with_memory_def sample_ledger_def)
  have r: "recall null_embed (Some (en_ops quiet_env)) q h l False sample_ledger = (sample_ledger, Done [])" for q h l
    by (simp add: recall_def ops Let_def sort_desc_def)
  have i: "on_disk (inject_context null_embed (Some (en_ops hushed)) user 5 8) c = (c, Done [(''recent_episodic'', []), (''key_semantic'', [])])"
    by (simp add: on_disk_def inject_context_def hushed_fields assms(1) r d)
  have e: "on_disk (fetch_evaluations 2) c = (c, Done [])"
    by (simp add: on_disk_def assms(1) fetch_evaluations_def newest_def d) (simp add: sample_ledger_def d[unfolded sample_ledger_def])
  have h: "ve_home_for (new_value_engine (from_season ''spring'') ''spring'') zero_vector = DEFAULT_CENTER"
    by (simp add: ve_home_for_def new_value_engine_def home_for_def nearest_def new_pole_engine_def)
  obtain ws where ws: "near_walls (en_gd hushed) (ve_polytope (c_engine c)) DEFAULT_CENTER (lit (1 / 20)) = Some ws"
    using center_walls by blast
  have g: "\<exists>gs. current_geometric_state hushed c = (c, Done gs)"
    by (simp add: current_geometric_state_def hushed_fields quiet.storage_ops e position_of_def assms(2) h ws[unfolded assms(2)] Let_def)
  obtain t gs where t: "build_system_prompt hushed c = (c, Done t)" "current_geometric_state hushed c = (c, Done gs)" using p g by blast
  show ?thesis by (simp add: build_turn_frame_def bind_act_def t i Let_def)
qed

theorem reply_frees_window_witness:
  "\<exists>c c'. user_turn hushed \<lparr>it_iso = sample_clock, it_ns = 7, it_id = ''m2''\<rparr> (\<lambda>_. \<lparr>rd_instant = \<lparr>it_iso = sample_clock, it_ns = 7, it_id = ''m2''\<rparr>, rd_stop = False\<rparr>)
        False ''hello'' [] c = Some (c', Done ())
      \<and> (\<forall>U. w_busy (after_events U (drop (length (c_events c)) (c_events c')) (sendMessage U (qs ''hello'') new_window)))"
proof -
  let ?m = "\<lparr>it_iso = sample_clock, it_ns = 7, it_id = ''m2''\<rparr>"
  let ?r = "\<lambda>_ :: nat. \<lparr>rd_instant = ?m, rd_stop = False\<rparr>"
  define c where "c = quiet_core\<lparr>c_disk := sample_ledger\<rparr>"
  have c: "\<not> c_active c" "c_ready c" "connected hushed c" "c_voice c = Some True"
    by (simp_all add: c_def quiet_core_def connected_def hushed_fields)
  define c1 where "c1 = fst (begin_turn hushed False ''hello'' [] c)"
  have b: "begin_turn hushed False ''hello'' [] c = (c1, True)"
    using c by (simp add: c1_def begin_turn_def Let_def)
  have c1: "c_disk c1 = sample_ledger" "c_engine c1 = new_value_engine (from_season ''spring'') ''spring''" "c_voice c1 = Some True" "\<not> c_stop c1"
    using c by (simp_all add: c1_def begin_turn_def Let_def) (simp_all add: c_def quiet_core_def)
  obtain f where f: "build_turn_frame hushed ?m ''hello'' (c_history c1) c1 = (c1, Done f)" using hushed_frame[OF c1(1,2)] by blast
  have l: "listen hushed ''hello'' f (c_history c1) [] (c1\<lparr>c_stop := False\<rparr>) = (c1, Done (result new_parser))"
    using c1(3,4) by (simp add: listen_def generate_stream_def hushed_fields)
  have blank: "result new_parser = \<lparr>response = [], thoughts = [], tool_call_json = [], has_tool_call = False\<rparr>" by code_simp
  have said: "said hushed True frame hist i = result new_parser" for frame hist i by (simp add: said_def hushed_fields feed_all_def)
  obtain c' where u: "user_turn hushed ?m ?r False ''hello'' [] c = Some (c', Done ())"
    using c1(4) by (simp add: user_turn_def b run_turn_loop_def f turn_rounds.simps l blank finalize_turn_def close_turn_def
        then_act_def bind_act_def emit_def change_def)
  have "w_busy (after_events U (drop (length (c_events c)) (c_events c')) (sendMessage U (qs ''hello'') new_window))" for U
    using reply_frees_window[OF c u, of True "qs ''hello''" new_window U]
    by (simp add: said blank trimmed_def qs_def q_space_def new_window_def)
  with u show ?thesis by blast
qed

end
