(* ===== verification/Ui_Monitor.thy ===== *)
theory Ui_Monitor
  imports Ui_Window Core_State
begin

text \<open>
  The status side of the chat window in \<^verbatim>\<open>src/src/lina_ui.cpp\<close>: the readings of the memory and the
  processor (\<^verbatim>\<open>TelemetryMonitor\<close>), the gauges that show them (\<^verbatim>\<open>tickTelemetry\<close>), the settings with
  their dialog, the filters and buttons of the log reel, the output of a running suite, and the waiting
  of \<^verbatim>\<open>waitForIdle\<close>.  The files under \<^verbatim>\<open>/proc\<close> are their texts, \<open>None\<close> for one that does not open.
\<close>

section \<open>Reading from a stream\<close>

text \<open>\<^verbatim>\<open>stream >> text\<close>: the next word; \<open>None\<close> when nothing is left.\<close>

definition read_word :: "string \<Rightarrow> (string \<times> string) option" where
  "read_word s =
     (let t = dropWhile is_space s
      in if t = [] then None else Some (takeWhile (\<lambda>c. \<not> is_space c) t, dropWhile (\<lambda>c. \<not> is_space c) t))"

text \<open>
  \<^verbatim>\<open>stream >> number\<close> for an unsigned number of 64 bits: a value and the rest; a failure that stores a
  value; or, at the end of the text, a failure that leaves the variable as it was.
\<close>

datatype number_read = Got u64 string | Bad u64 | Untouched

definition read_u64 :: "string \<Rightarrow> number_read" where
  "read_u64 s =
     (let t = dropWhile is_space s in
      if t = [] then Untouched else
      let (neg, u) = sign_of t; ds = takeWhile is_digit u; n = number_of ds in
      if ds = [] then Bad 0
      else if 2 ^ 64 \<le> n then Bad (- 1)
      else Got (if neg then - word_of_int n else word_of_int n) (dropWhile is_digit u))"

definition dbl_of_u64 :: "u64 \<Rightarrow> dbl" where "dbl_of_u64 v = rnd (of_int (uint v))"

section \<open>The monitor\<close>

record snapshot =
  sn_ram_percent :: dbl
  sn_ram_used_gb :: dbl
  sn_ram_total_gb :: dbl
  sn_process_rss_mb :: dbl
  sn_cpu_percent :: dbl

record monitor =
  mo_prev_total :: u64
  mo_prev_idle :: u64

definition new_monitor :: monitor where "new_monitor = \<lparr>mo_prev_total = 0, mo_prev_idle = 0\<rparr>"

text \<open>The files, and what the counters hold that no reading reached.\<close>

record proc_files =
  pf_meminfo :: "string option"
  pf_statm :: "string option"
  pf_stat :: "string option"
  pf_junk :: "nat \<Rightarrow> u64"

lemma read_word_shorter: "read_word s = Some (w, r) \<Longrightarrow> length r < length s"
proof -
  assume a: "read_word s = Some (w, r)"
  define t where "t = dropWhile is_space s"
  have t: "t \<noteq> []" and r: "r = dropWhile (\<lambda>c. \<not> is_space c) t"
    using a by (auto simp: read_word_def t_def Let_def split: if_splits)
  from t obtain c u where cu: "t = c # u" by (cases t) auto
  then have "\<not> is_space c" using t_def dropWhile_eq_Cons_conv by metis
  then have "length r \<le> length u" using r cu by (simp add: length_dropWhile_le)
  moreover have "length t \<le> length s" by (simp add: t_def length_dropWhile_le)
  ultimately show ?thesis using cu by simp
qed

lemma read_u64_not_longer: "read_u64 s = Got v r \<Longrightarrow> length r \<le> length s"
proof -
  assume a: "read_u64 s = Got v r"
  define t where "t = dropWhile is_space s"
  have r: "r = dropWhile is_digit (snd (sign_of t))"
    using a by (auto simp: read_u64_def t_def Let_def split: if_splits prod.splits)
  have "length (snd (sign_of t)) \<le> length t" by (auto simp: sign_of_def split: list.splits)
  moreover have "length r \<le> length (snd (sign_of t))" by (simp add: r length_dropWhile_le)
  moreover have "length t \<le> length s" by (simp add: t_def length_dropWhile_le)
  ultimately show ?thesis by linarith
qed

function scan_meminfo :: "string \<Rightarrow> dbl \<Rightarrow> dbl \<Rightarrow> dbl \<times> dbl" where
  "scan_meminfo s total_kb available_kb =
     (case read_word s of None \<Rightarrow> (total_kb, available_kb) | Some (key, s1) \<Rightarrow>
      (case read_u64 s1 of
         Got v s2 \<Rightarrow>
           (case read_word s2 of None \<Rightarrow> (total_kb, available_kb) | Some (unit, s3) \<Rightarrow>
              if key = ''MemTotal:'' then scan_meminfo s3 (dbl_of_u64 v) available_kb
              else if key = ''MemAvailable:'' then (total_kb, dbl_of_u64 v)
              else scan_meminfo s3 total_kb available_kb)
       | _ \<Rightarrow> (total_kb, available_kb)))"
  by pat_completeness auto
termination
  by (relation "measure (\<lambda>(s, _, _). length s)")
    (auto dest!: read_word_shorter read_u64_not_longer)

declare scan_meminfo.simps [simp del]

definition ram_reading :: "dbl \<times> dbl \<Rightarrow> snapshot \<Rightarrow> snapshot" where
  "ram_reading ta s =
     (let (total_kb, available_kb) = ta in
      if dless (Fin 0) total_kb \<and> dle (Fin 0) available_kb then
        let used_kb = dsub total_kb available_kb
        in s\<lparr>sn_ram_percent := dmul (ddiv used_kb total_kb) (Fin 100),
             sn_ram_used_gb := ddiv used_kb (Fin 1048576), sn_ram_total_gb := ddiv total_kb (Fin 1048576)\<rparr>
      else s)"

definition sampleRam :: "string option \<Rightarrow> snapshot \<Rightarrow> snapshot" where
  "sampleRam f s = (case f of None \<Rightarrow> s | Some text \<Rightarrow> ram_reading (scan_meminfo text (Fin (-1)) (Fin (-1))) s)"

definition sampleProcessRss :: "string option \<Rightarrow> dbl" where
  "sampleProcessRss f =
     (case f of None \<Rightarrow> Fin (-1) | Some text \<Rightarrow>
      (case read_u64 text of
         Got pages r \<Rightarrow>
           (case read_u64 r of
              Got resident r' \<Rightarrow> ddiv (dmul (dbl_of_u64 resident) (Fin 4096)) (Fin 1048576)
            | _ \<Rightarrow> Fin (-1))
       | _ \<Rightarrow> Fin (-1)))"

text \<open>The next \<open>n\<close> counters of a line; \<open>junk\<close> is what the variables hold before.\<close>

fun read_counters :: "nat \<Rightarrow> (nat \<Rightarrow> u64) \<Rightarrow> string \<Rightarrow> u64 list" where
  "read_counters 0 junk s = []"
| "read_counters (Suc n) junk s =
     (case read_u64 s of
        Got v r \<Rightarrow> v # read_counters n junk r
      | Bad v \<Rightarrow> v # map junk (rev [0..<n])
      | Untouched \<Rightarrow> map junk (rev [0..<Suc n]))"

definition cpu_reading :: "u64 \<Rightarrow> u64 \<Rightarrow> monitor \<Rightarrow> monitor \<times> dbl" where
  "cpu_reading cpu_total idle_total m =
     (let percent = (if 0 < mo_prev_total m \<and> mo_prev_total m \<le> cpu_total then
            let d_total = dbl_of_u64 (cpu_total - mo_prev_total m); d_idle = dbl_of_u64 (idle_total - mo_prev_idle m)
            in if dless (Fin 0) d_total then dmul (dsub (Fin 1) (ddiv d_idle d_total)) (Fin 100) else Fin 0
          else Fin 0)
      in (\<lparr>mo_prev_total = cpu_total, mo_prev_idle = idle_total\<rparr>, percent))"

definition sampleCpu :: "(nat \<Rightarrow> u64) \<Rightarrow> string option \<Rightarrow> monitor \<Rightarrow> monitor \<times> dbl" where
  "sampleCpu junk f m =
     (case f of None \<Rightarrow> (m, Fin (-1)) | Some text \<Rightarrow>
      (case read_word text of None \<Rightarrow> (m, Fin (-1)) | Some (cpu, r) \<Rightarrow>
         if cpu \<noteq> ''cpu'' then (m, Fin (-1))
         else let vs = read_counters 8 junk r in cpu_reading (sum_list vs) (vs ! 3 + vs ! 4) m))"

definition sample :: "proc_files \<Rightarrow> monitor \<Rightarrow> monitor \<times> snapshot" where
  "sample F m =
     (let s = sampleRam (pf_meminfo F) \<lparr>sn_ram_percent = Fin (-1), sn_ram_used_gb = Fin 0, sn_ram_total_gb = Fin 0,
                                         sn_process_rss_mb = Fin (-1), sn_cpu_percent = Fin (-1)\<rparr>;
          (m', cpu) = sampleCpu (pf_junk F) (pf_stat F) m
      in (m', s\<lparr>sn_process_rss_mb := sampleProcessRss (pf_statm F), sn_cpu_percent := cpu\<rparr>))"

section \<open>The gauges\<close>

text \<open>The conversion to \<^verbatim>\<open>int\<close>: towards zero, without a value outside the range.\<close>

definition int_of_dbl :: "dbl \<Rightarrow> int option" where
  "int_of_dbl v =
     (case v of
        Fin q \<Rightarrow> (let n = (if 0 \<le> q then \<lfloor>q\<rfloor> else \<lceil>q\<rceil>) in if - (2 ^ 31) \<le> n \<and> n < 2 ^ 31 then Some n else None)
      | _ \<Rightarrow> None)"

definition qBound :: "int \<Rightarrow> int \<Rightarrow> int \<Rightarrow> int" where "qBound lo v hi = max lo (min hi v)"

text \<open>The text of the label and the value of the bar.\<close>

definition updateGauge :: "string \<Rightarrow> dbl \<Rightarrow> string \<Rightarrow> (string \<times> int) option" where
  "updateGauge name v extra =
     (if dless v (Fin 0) then Some (name @ '' n/a'', 0)
      else let txt = name @ '' '' @ fixed_string 1 v @ ''%'' @ (if extra \<noteq> [] then '' ('' @ extra @ '')'' else [])
           in map_option (\<lambda>n. (txt, qBound 0 n 100)) (int_of_dbl (dadd v (Fin (1/2)))))"

text \<open>The labels of the left panel, and the counter of the ticks.\<close>

record hud =
  hu_ram :: "string \<times> int"
  hu_process :: string
  hu_cpu :: "string \<times> int"
  hu_session :: string
  hu_season :: qstring
  hu_model :: qstring
  hu_memory :: string
  hu_tick :: nat

text \<open>The part inside the \<^verbatim>\<open>try\<close>: a read that throws leaves the label of the memories as it was.\<close>

definition substrate_labels :: "ui_env \<Rightarrow> ('s, 'm, 'w) env \<Rightarrow> hud \<Rightarrow> ('s, 'm, 'w) core \<Rightarrow> hud \<times> ('s, 'm, 'w) core" where
  "substrate_labels U E h c =
     (let h1 = h\<lparr>hu_season := qs ''SEASON: '' @ ue_upper U (ue_decode U (season (ve_constraints (c_engine c)))),
                hu_model := (case c_voice c of
                    Some m \<Rightarrow> qs ''Host Voice: '' @ ue_decode U (vo_name (en_voice E) m) @ qs '' (Connected)''
                  | None \<Rightarrow> qs ''Host Voice: Standby (Subordinate Compute)'')\<rparr>
      in case on_disk (op_fetch_by_status (en_ops E) ''active'') c of
           (c', Done rows) \<Rightarrow>
             (h1\<lparr>hu_memory := ''MPS Memory: Active '' @ string_of_nat (length rows) @ '' items (Consolidated)''\<rparr>, c')
         | (c', Threw) \<Rightarrow> (h1, c'))"

definition gb_pair :: "snapshot \<Rightarrow> string" where
  "gb_pair s = fixed_string 1 (sn_ram_used_gb s) @ '' GB / '' @ fixed_string 1 (sn_ram_total_gb s) @ '' GB''"

definition tick_line :: "snapshot \<Rightarrow> string" where
  "tick_line s = ''ram='' @ fixed_string 1 (sn_ram_percent s) @ ''% cpu='' @ fixed_string 1 (sn_cpu_percent s) @ ''%''"

definition tickTelemetry ::
  "ui_env \<Rightarrow> ('s, 'm, 'w) env \<Rightarrow> proc_files \<Rightarrow> nat \<Rightarrow> monitor \<Rightarrow> hud \<Rightarrow> window \<Rightarrow> ('s, 'm, 'w) core
     \<Rightarrow> (monitor \<times> hud \<times> window \<times> ('s, 'm, 'w) core) option" where
  "tickTelemetry U E F elapsed m h w c =
     (let (m', s) = sample F m in
      case updateGauge ''System RAM'' (sn_ram_percent s) (gb_pair s) of None \<Rightarrow> None | Some ram \<Rightarrow>
      (case updateGauge ''Host CPU'' (sn_cpu_percent s) [] of None \<Rightarrow> None | Some cpu \<Rightarrow>
         let h1 = h\<lparr>hu_ram := ram, hu_cpu := cpu, hu_session := ''Session Uptime: '' @ formatElapsed elapsed\<rparr>;
             h2 = (if dle (Fin 0) (sn_process_rss_mb s) then
                     h1\<lparr>hu_process := ''Kernel Process RSS: '' @ fixed_string 1 (sn_process_rss_mb s) @ '' MB''\<rparr> else h1);
             (h3, c') = substrate_labels U E h2 c;
             h4 = h3\<lparr>hu_tick := hu_tick h3 + 1\<rparr>;
             w' = (if hu_tick h4 mod 30 = 0 then log_line U (qs ''telemetry'') (qs ''debug'') (qs (tick_line s)) w else w)
         in Some (m', h4, w', c')))"

section \<open>The settings\<close>

record ui_settings =
  us_auto_approve :: bool
  us_approval_timeout_ms :: int
  us_telemetry_interval_ms :: int
  us_test_binary_dir :: qstring
  us_log_level_filter :: int
  us_max_log_lines :: int

definition default_settings :: ui_settings where
  "default_settings = \<lparr>us_auto_approve = False, us_approval_timeout_ms = 30000, us_telemetry_interval_ms = 1000,
     us_test_binary_dir = qs ''build'', us_log_level_filter = 1, us_max_log_lines = 5000\<rparr>"

text \<open>
  The dialog has the settings in its widgets: a number box keeps its value in its range, the list of
  the levels has four entries, the text of the directory is taken without the spaces around it.
\<close>

definition open_dialog :: "ui_settings \<Rightarrow> ui_settings" where
  "open_dialog current =
     current\<lparr>us_approval_timeout_ms := qBound 100 (us_approval_timeout_ms current) 600000,
             us_telemetry_interval_ms := qBound 100 (us_telemetry_interval_ms current) 60000,
             us_max_log_lines := qBound 100 (us_max_log_lines current) 20000,
             us_log_level_filter := qBound 0 (us_log_level_filter current) 3\<rparr>"

datatype dialog_edit =
    Check_auto bool | Set_timeout int | Set_interval int | Set_lines int | Pick_level int | Type_dir qstring
  | Browse qstring | Detect

definition test_dirs :: "qstring list" where
  "test_dirs = map qs [''build'', ''../build'', ''cmake-build-debug'', ''cmake-build-release'', ''.'']"

fun edit_dialog :: "(qstring \<Rightarrow> bool) \<Rightarrow> dialog_edit \<Rightarrow> ui_settings \<Rightarrow> ui_settings" where
  "edit_dialog exists (Check_auto b) d = d\<lparr>us_auto_approve := b\<rparr>"
| "edit_dialog exists (Set_timeout n) d = d\<lparr>us_approval_timeout_ms := qBound 100 n 600000\<rparr>"
| "edit_dialog exists (Set_interval n) d = d\<lparr>us_telemetry_interval_ms := qBound 100 n 60000\<rparr>"
| "edit_dialog exists (Set_lines n) d = d\<lparr>us_max_log_lines := qBound 100 n 20000\<rparr>"
| "edit_dialog exists (Pick_level n) d = (if 0 \<le> n \<and> n \<le> 3 then d\<lparr>us_log_level_filter := n\<rparr> else d)"
| "edit_dialog exists (Type_dir t) d = d\<lparr>us_test_binary_dir := t\<rparr>"
| "edit_dialog exists (Browse dir) d = (if dir = [] then d else d\<lparr>us_test_binary_dir := dir\<rparr>)"
| "edit_dialog exists Detect d =
     (case List.find (\<lambda>c. exists (c @ qs ''/value_engine_tests'') \<or> exists (c @ qs ''/orchestrator_tests'')) test_dirs of
        None \<Rightarrow> d | Some c \<Rightarrow> d\<lparr>us_test_binary_dir := c\<rparr>)"

definition dialog_values :: "ui_settings \<Rightarrow> ui_settings" where
  "dialog_values d = d\<lparr>us_test_binary_dir := trimmed (us_test_binary_dir d)\<rparr>"

text \<open>The settings in use, with the interval of the timer, the entry of the level list and whether the reel is paused.\<close>

record panel =
  pn_settings :: ui_settings
  pn_interval :: int
  pn_combo :: int
  pn_paused :: bool

definition new_panel :: panel where
  "new_panel = \<lparr>pn_settings = default_settings, pn_interval = us_telemetry_interval_ms default_settings, pn_combo = 1,
     pn_paused = False\<rparr>"

definition on_reel :: "(reel \<Rightarrow> reel) \<Rightarrow> window \<Rightarrow> window" where "on_reel f w = w\<lparr>w_reel := f (w_reel w)\<rparr>"

text \<open>The edits of a dialog, and whether it was accepted.  Setting the entry of the level list sets the filter again.\<close>

definition openSettings :: "ui_env \<Rightarrow> (qstring \<Rightarrow> bool) \<Rightarrow> dialog_edit list \<Rightarrow> bool \<Rightarrow> panel \<times> window \<Rightarrow> panel \<times> window" where
  "openSettings U exists edits accepted pw =
     (let (p, w) = pw; d = fold (edit_dialog exists) edits (open_dialog (pn_settings p)) in
      if \<not> accepted then (p, w) else
      let s = dialog_values d;
          w1 = on_reel (setMaxLines (us_max_log_lines s)) (on_reel (setLevelFilter (us_log_level_filter s)) w);
          w2 = on_reel (setLevelFilter (us_log_level_filter s)) w1
      in (p\<lparr>pn_settings := s, pn_interval := us_telemetry_interval_ms s, pn_combo := us_log_level_filter s\<rparr>,
          log_line U (qs ''ui'') (qs ''info'') (qs ''Command Center settings updated'') w2))"

definition setAutoApprove :: "bool \<Rightarrow> panel \<Rightarrow> panel" where
  "setAutoApprove enabled p = p\<lparr>pn_settings := (pn_settings p)\<lparr>us_auto_approve := enabled\<rparr>\<rparr>"

section \<open>The controls of the reel\<close>

definition category_changed :: "ui_env \<Rightarrow> qstring \<Rightarrow> window \<Rightarrow> window" where
  "category_changed U text = on_reel (setCategoryFilter U (if prefix (qs ''All'') text then qs ''all'' else trimmed text))"

definition level_changed :: "int \<Rightarrow> panel \<times> window \<Rightarrow> panel \<times> window" where
  "level_changed idx pw = (let (p, w) = pw in (p\<lparr>pn_combo := idx\<rparr>, on_reel (setLevelFilter idx) w))"

definition pause_clicked :: "panel \<Rightarrow> panel \<times> qstring" where
  "pause_clicked p =
     (let paused = \<not> pn_paused p
      in (p\<lparr>pn_paused := paused\<rparr>, if paused then [0x25B6] @ qs '' Resume'' else [0x23F8] @ qs '' Pause''))"

section \<open>The output of a suite\<close>

text \<open>\<^verbatim>\<open>QString::replace\<close>: every occurrence, from the left, without overlaps.\<close>

function q_replace :: "qstring \<Rightarrow> qstring \<Rightarrow> qstring \<Rightarrow> qstring" where
  "q_replace d r [] = []"
| "q_replace d r (u # us) =
     (if d \<noteq> [] \<and> prefix d (u # us) then r @ q_replace d r (drop (length d) (u # us)) else u # q_replace d r us)"
  by pat_completeness auto
termination
  by (relation "measure (\<lambda>(d, r, s). length s)") auto

definition passed_open :: qstring where "passed_open = qs ''<span style='color:#00ff9d; font-weight:bold;'>''"
definition failed_open :: qstring where "failed_open = qs ''<span style='color:#ff4d4f; font-weight:bold;'>''"
definition output_open :: qstring where "output_open = qs ''<div style='color:#d1d9e6; margin:1px 0;'>''"
definition error_open :: qstring where "error_open = qs ''<div style='color:#ff7875; margin:1px 0;'>''"

definition marked_output :: "qstring \<Rightarrow> qstring" where
  "marked_output s =
     q_replace (qs ''100% tests passed'') (passed_open @ qs ''100% tests passed'' @ span_close)
       (q_replace (qs ''Failed'') (failed_open @ qs ''Failed'' @ span_close)
          (q_replace (qs ''Passed'') (passed_open @ qs ''Passed'' @ span_close) (esc s)))"

definition suite_output :: "ui_env \<Rightarrow> string \<Rightarrow> window \<Rightarrow> window" where
  "suite_output U bytes w = appendResults (output_open @ marked_output (ue_decode U bytes) @ div_close) w"

definition suite_error :: "ui_env \<Rightarrow> string \<Rightarrow> window \<Rightarrow> window" where
  "suite_error U bytes w = appendResults (error_open @ esc (ue_decode U bytes) @ div_close) w"

section \<open>Waiting\<close>

text \<open>
  \<^verbatim>\<open>waitForIdle\<close>: \<open>busy k\<close> and \<open>now k\<close> are the flag and the clock when they are read for the \<open>k\<close>-th
  time; the events of the window run in between.
\<close>

partial_function (option) waitForIdle :: "(nat \<Rightarrow> bool) \<Rightarrow> (nat \<Rightarrow> int) \<Rightarrow> int \<Rightarrow> nat \<Rightarrow> bool option" where
  "waitForIdle busy now deadline k =
     (if \<not> busy k then Some True else if deadline < now k then Some False else waitForIdle busy now deadline (k + 1))"

text \<open>\<open>plain\<close> is the text that Qt shows for the markup of a bubble.\<close>

definition conversationText :: "(qstring \<Rightarrow> qstring) \<Rightarrow> window \<Rightarrow> qstring" where
  "conversationText plain w =
     foldl (\<lambda>out b. (if out \<noteq> [] then out @ [10] else out) @ plain (snd b)) [] (w_bubbles w)"

section \<open>What a tick shows\<close>

text \<open>A value that is at most \<open>b\<close>, which a gauge shows or calls absent.\<close>

definition below :: "rat \<Rightarrow> dbl \<Rightarrow> bool" where
  "below b v \<longleftrightarrow> v = NInf \<or> (\<exists>q. v = Fin q \<and> q \<le> b)"

lemma rnd_below: "q \<le> b \<Longrightarrow> rep b \<Longrightarrow> b < dbl_limit \<Longrightarrow> below b (rnd q)"
  using round_rat_le[of q b] by (auto simp: below_def rnd_def Let_def)

lemma rnd_nonneg: "0 \<le> q \<Longrightarrow> rnd q = PInf \<or> (\<exists>r. rnd q = Fin r \<and> 0 \<le> r)"
  using round_rat_nonneg[of q] by (auto simp: rnd_def Let_def dbl_limit_def)

lemma hundred_fits: "(100::rat) < dbl_limit" "(1::rat) < dbl_limit"
  using dbl_limit_big by (simp_all add: order_less_trans[OF _ dbl_limit_big])

lemma percent_below: "below 1 v \<Longrightarrow> below 100 (dmul v (Fin 100))"
proof -
  assume "below 1 v"
  then consider "v = NInf" | q where "v = Fin q" "q * 100 \<le> 100" by (auto simp: below_def)
  then show ?thesis
  proof cases
    case 2
    then show ?thesis using rnd_below[of "q * 100" 100] hundred_fits by simp
  qed (simp add: below_def inf_sgn_def)
qed

lemma u64_value: "\<exists>x. dbl_of_u64 v = Fin x \<and> 0 \<le> x \<and> x \<le> 2 ^ 64 \<and> rep x"
proof -
  have "uint v < 2 ^ 64" using uint_bounded[of v] by simp
  then have "(of_int (uint v) :: rat) \<le> of_int (2 ^ 64)" unfolding of_int_le_iff by simp
  then have b: "(of_int (uint v) :: rat) \<le> 2 ^ 64" by simp
  have r: "rep (2 ^ 64)" by (rule repI[of _ 1 64]) simp_all
  have "(2::rat) ^ 64 < dbl_limit" unfolding dbl_limit_def by (rule power_strict_increasing) simp_all
  moreover have "(0::rat) \<le> of_int (uint v)" by (simp only: of_int_0_le_iff uint_nonnegative)
  ultimately have "rnd (of_int (uint v)) = Fin (round_rat (of_int (uint v)))" "0 \<le> round_rat (of_int (uint v))"
    "round_rat (of_int (uint v)) \<le> 2 ^ 64"
    using b r rnd_between[of 0 "2 ^ 64" "of_int (uint v)"] by (simp_all add: dbl_limit_def)
  then show ?thesis using rep_round_rat unfolding dbl_of_u64_def by blast
qed

lemma gauge_shows:
  assumes "below 100 v"
  shows "\<exists>txt n. updateGauge name v extra = Some (txt, n) \<and> 0 \<le> n \<and> n \<le> 100"
proof (cases "dless v (Fin 0)")
  case False
  then obtain q where q: "v = Fin q" "0 \<le> q" "q \<le> 100" using assms by (auto simp: below_def)
  have "rep 101" "(101::rat) < dbl_limit" using dbl_limit_big by (simp_all add: order_less_trans[OF _ dbl_limit_big])
  with q rnd_between[of 0 101 "q + 1/2"] obtain r where r: "rnd (q + 1/2) = Fin r" "0 \<le> r" "r \<le> 101"
    by (auto simp: dbl_limit_def)
  have "\<lfloor>r\<rfloor> \<le> 101" "0 \<le> \<lfloor>r\<rfloor>" using r by (simp_all add: floor_le_iff)
  then have "int_of_dbl (Fin r) = Some \<lfloor>r\<rfloor>" using r by (simp add: int_of_dbl_def)
  then show ?thesis using False q r by (simp add: updateGauge_def qBound_def)
qed (simp add: updateGauge_def)

lemma scan_values:
  "scan_meminfo s t a = (t', a') \<Longrightarrow> (t' = t \<or> (\<exists>v. t' = dbl_of_u64 v)) \<and> (a' = a \<or> (\<exists>v. a' = dbl_of_u64 v))"
proof (induction s t a rule: scan_meminfo.induct)
  case (1 s t a)
  show ?case
  proof (cases "read_word s")
    case None
    then show ?thesis using "1.prems" by (simp add: scan_meminfo.simps[of s])
  next
    case (Some kw)
    obtain key s1 where k: "kw = (key, s1)" by fastforce
    show ?thesis
    proof (cases "read_u64 s1")
      case (Got v s2)
      show ?thesis
      proof (cases "read_word s2")
        case None
        then show ?thesis using "1.prems" Some k Got by (simp add: scan_meminfo.simps[of s])
      next
        case (Some us)
        obtain w s3 where u: "us = (w, s3)" by fastforce
        note scan = "1.prems"[unfolded scan_meminfo.simps[of s]]
        note IH = "1.IH"[OF \<open>read_word s = Some kw\<close> k[symmetric] Got Some u[symmetric]]
        show ?thesis
          using scan IH \<open>read_word s = Some kw\<close> k Got Some u by (auto split: if_splits)
      qed
    qed (use "1.prems" Some k in \<open>simp_all add: scan_meminfo.simps[of s]\<close>)
  qed
qed

lemma ram_below:
  "below 100 (sn_ram_percent s) \<Longrightarrow> below 100 (sn_ram_percent (sampleRam f s))"
proof (cases f)
  case (Some doc)
  assume s: "below 100 (sn_ram_percent s)"
  obtain t a where ta: "scan_meminfo doc (Fin (-1)) (Fin (-1)) = (t, a)" by fastforce
  show ?thesis
  proof (cases "dless (Fin 0) t \<and> dle (Fin 0) a")
    case True
    have one: "dless (Fin 0) (Fin (-1)) = False" "dle (Fin 0) (Fin (-1)) = False" by (simp_all add: dle_def deq_def)
    obtain v where "t = dbl_of_u64 v" using scan_values[OF ta] True one by auto
    with u64_value[of v] True obtain x where x: "t = Fin x" "0 < x" "x \<le> 2 ^ 64" "rep x" by auto
    obtain u where "a = dbl_of_u64 u" using scan_values[OF ta] True one by auto
    with u64_value[of u] obtain y where y: "a = Fin y" "0 \<le> y" by auto
    have lim: "(2::rat) ^ 64 < dbl_limit" unfolding dbl_limit_def by (rule power_strict_increasing) simp_all
    have "below x (dsub t a)" using rnd_below[of "x - y" x] x y lim by (simp add: dsub_def)
    then have "below 1 (ddiv (dsub t a) t)"
    proof -
      assume "below x (dsub t a)"
      then consider "dsub t a = NInf" | q where "dsub t a = Fin q" "q / x \<le> 1" using x by (auto simp: below_def)
      then show ?thesis
      proof cases
        case 2
        then show ?thesis using x rnd_below[of "q / x" 1] hundred_fits by simp
      qed (use x in \<open>simp add: below_def\<close>)
    qed
    then have "below 100 (dmul (ddiv (dsub t a) t) (Fin 100))" by (rule percent_below)
    then show ?thesis using Some ta True by (simp add: sampleRam_def ram_reading_def Let_def)
  qed (use Some ta s in \<open>auto simp: sampleRam_def ram_reading_def Let_def\<close>)
qed (simp add: sampleRam_def)

lemma cpu_below: "below 100 (snd (cpu_reading t i m))"
proof -
  have zero: "below 100 (Fin 0)" by (simp add: below_def)
  obtain x where x: "dbl_of_u64 (t - mo_prev_total m) = Fin x" "0 \<le> x" using u64_value by blast
  obtain y where y: "dbl_of_u64 (i - mo_prev_idle m) = Fin y" "0 \<le> y" using u64_value by blast
  have "below 100 (dmul (dsub (Fin 1) (ddiv (Fin y) (Fin x))) (Fin 100))" if "0 < x"
  proof -
    have "ddiv (Fin y) (Fin x) = rnd (y / x)" using that by simp
    with rnd_nonneg[of "y / x"] y that consider "ddiv (Fin y) (Fin x) = PInf" | r where "ddiv (Fin y) (Fin x) = Fin r" "0 \<le> r"
      by fastforce
    then have "below 1 (dsub (Fin 1) (ddiv (Fin y) (Fin x)))"
    proof cases
      case 2
      then show ?thesis using rnd_below[of "1 - r" 1] hundred_fits by (simp add: dsub_def)
    qed (simp add: below_def dsub_def)
    then show ?thesis by (rule percent_below)
  qed
  with x y zero show ?thesis by (simp add: cpu_reading_def Let_def)
qed

lemma sample_below: "below 100 (sn_ram_percent (snd (sample F m)))" "below 100 (sn_cpu_percent (snd (sample F m)))"
proof -
  have "below 100 (Fin (-1))" by (simp add: below_def)
  then have "below 100 (snd (sampleCpu junk f m))" for junk f
    using cpu_below by (auto simp: sampleCpu_def Let_def split: option.splits prod.splits)
  then show "below 100 (sn_cpu_percent (snd (sample F m)))" by (simp add: sample_def Let_def split: prod.splits) (metis snd_conv)
  show "below 100 (sn_ram_percent (snd (sample F m)))"
    using ram_below \<open>below 100 (Fin (-1))\<close> by (simp add: sample_def Let_def split: prod.splits)
qed


section \<open>What the processor gauge reads\<close>

text \<open>A busy share between 0 and 100 when neither sum fell and the idle time grew by no more than the whole.\<close>

lemma u64_mono: "a \<le> b \<Longrightarrow> \<exists>x y. dbl_of_u64 a = Fin x \<and> dbl_of_u64 b = Fin y \<and> 0 \<le> x \<and> x \<le> y"
proof -
  assume "a \<le> b"
  then have "(of_int (uint a) :: rat) \<le> of_int (uint b)" by (simp add: word_le_def del: of_int_uint)
  then have "round_rat (of_int (uint a)) \<le> round_rat (of_int (uint b))" by (rule round_rat_mono)
  then show ?thesis
    using u64_value[of a] u64_value[of b] by (auto simp: dbl_of_u64_def rnd_def Let_def split: if_splits)
qed

lemma busy_share:
  assumes "0 < mo_prev_total m" "mo_prev_total m \<le> t" "i - mo_prev_idle m \<le> t - mo_prev_total m"
  shows "\<exists>q. snd (cpu_reading t i m) = Fin q \<and> 0 \<le> q \<and> q \<le> 100"
proof -
  obtain y x where yx: "dbl_of_u64 (i - mo_prev_idle m) = Fin y" "dbl_of_u64 (t - mo_prev_total m) = Fin x" "0 \<le> y" "y \<le> x"
    using u64_mono[OF assms(3)] by blast
  have "\<exists>q. dmul (dsub (Fin 1) (ddiv (Fin y) (Fin x))) (Fin 100) = Fin q \<and> 0 \<le> q \<and> q \<le> 100" if x: "0 < x"
  proof -
    have lim: "- dbl_limit < 0" using dbl_limit_big by (simp add: order_less_trans[OF _ dbl_limit_big])
    have "0 \<le> y / x" "y / x \<le> 1" using yx x by (simp_all add: divide_le_eq)
    then obtain r where r: "ddiv (Fin y) (Fin x) = Fin r" "0 \<le> r" "r \<le> 1"
      using rnd_between[of 0 1 "y / x"] x lim hundred_fits by auto
    then obtain z where z: "dsub (Fin 1) (Fin r) = Fin z" "0 \<le> z" "z \<le> 1"
      using rnd_between[of 0 1 "1 - r"] lim hundred_fits by (auto simp: dsub_def)
    then show ?thesis using r rnd_between[of 0 100 "z * 100"] lim hundred_fits by auto
  qed
  with yx assms show ?thesis by (auto simp: cpu_reading_def Let_def)
qed

text \<open>
  The idle time of Linux can fall (its \<^verbatim>\<open>iowait\<close> is not monotone); the difference then wraps, and the
  gauge calls the processor absent.
\<close>

lemma idle_drop_hides_gauge:
  "let m = fst (cpu_reading 1000 500 new_monitor); v = snd (cpu_reading 1010 499 m)
   in dless v (Fin 0) \<and> updateGauge ''Host CPU'' v [] = Some (''Host CPU n/a'', 0)"
proof -
  have ten: "dbl_of_u64 10 = Fin 10" by (simp add: dbl_of_u64_def)
  have "rep (2 ^ 64)" by (rule repI[of _ 1 64]) simp_all
  moreover have "rep (2 ^ 63)" by (rule repI[of _ 1 63]) simp_all
  moreover have lim: "(2::rat) ^ 64 < dbl_limit" unfolding dbl_limit_def by (rule power_strict_increasing) simp_all
  moreover have "uint (- 1 :: u64) = 2 ^ 64 - 1" by (simp add: unsigned_minus_1_eq_mask mask_eq_exp_minus_1)
  ultimately obtain y where y: "dbl_of_u64 (- 1) = Fin y" "2 ^ 63 \<le> y" "y \<le> 2 ^ 64"
    using rnd_between[of "2 ^ 63" "2 ^ 64" "2 ^ 64 - 1"] by (auto simp: dbl_of_u64_def dbl_limit_def)
  have e: "rep (2 ^ 59)" "rep (2 ^ 64)" by (rule repI[of _ 1 59], simp_all) (rule repI[of _ 1 64], simp_all)
  with y lim obtain r where r: "ddiv (Fin y) (Fin 10) = Fin r" "2 ^ 59 \<le> r" "r \<le> 2 ^ 64"
    using rnd_between[of "2 ^ 59" "2 ^ 64" "y / 10"] by (auto simp: dbl_limit_def)
  have n: "rep (- (2 ^ 64))" "rep (- (2 ^ 58))" using e(2) by (simp_all only: rep_minus) (rule repI[of _ "-1" 58], simp_all)
  with r lim obtain z where z: "dsub (Fin 1) (Fin r) = Fin z" "- (2 ^ 64) \<le> z" "z \<le> - (2 ^ 58)"
    using rnd_between[of "- (2 ^ 64)" "- (2 ^ 58)" "1 - r"] by (auto simp: dsub_def dbl_limit_def)
  have "below (- 1) (dmul (Fin z) (Fin 100))"
    using rnd_below[of "z * 100" "- 1"] z rep_minus[OF rep_1] by (simp add: dbl_limit_def)
  then have "dless (dmul (Fin z) (Fin 100)) (Fin 0)" by (auto simp: below_def)
  with ten y r z show ?thesis by (simp add: cpu_reading_def new_monitor_def updateGauge_def Let_def)
qed

section \<open>The settings stay in their ranges\<close>

datatype panel_op =
    Opens "dialog_edit list" bool | Auto_set bool | Level_picked int | Category_picked qstring | Paused
  | Logs qstring qstring qstring | Cleared

fun panel_step :: "ui_env \<Rightarrow> (qstring \<Rightarrow> bool) \<Rightarrow> panel_op \<Rightarrow> panel \<times> window \<Rightarrow> panel \<times> window" where
  "panel_step U exists (Opens edits accepted) pw = openSettings U exists edits accepted pw"
| "panel_step U exists (Auto_set b) pw = (setAutoApprove b (fst pw), snd pw)"
| "panel_step U exists (Level_picked n) pw = level_changed n pw"
| "panel_step U exists (Category_picked t) pw = (fst pw, category_changed U t (snd pw))"
| "panel_step U exists Paused pw = (fst (pause_clicked (fst pw)), snd pw)"
| "panel_step U exists (Logs category level message) pw = (fst pw, log_line U category level message (snd pw))"
| "panel_step U exists Cleared pw = (fst pw, on_reel clear_reel (snd pw))"

definition settings_ok :: "ui_settings \<Rightarrow> bool" where
  "settings_ok s \<longleftrightarrow> us_approval_timeout_ms s \<in> {100..600000} \<and> us_telemetry_interval_ms s \<in> {100..60000}
     \<and> us_max_log_lines s \<in> {100..20000} \<and> us_log_level_filter s \<in> {0..3}"

fun turns_auto_on :: "panel_op \<Rightarrow> bool" where
  "turns_auto_on (Opens edits accepted) \<longleftrightarrow> accepted \<and> Check_auto True \<in> set edits"
| "turns_auto_on (Auto_set b) \<longleftrightarrow> b"
| "turns_auto_on _ \<longleftrightarrow> False"

definition panel_ok :: "bool \<Rightarrow> panel \<times> window \<Rightarrow> bool" where
  "panel_ok asked pw \<longleftrightarrow> (let (p, w) = pw; s = pn_settings p in
     settings_ok s \<and> pn_interval p = us_telemetry_interval_ms s \<and> rl_max (w_reel w) = us_max_log_lines s
     \<and> rl_level (w_reel w) = pn_combo p \<and> int (length (rl_entries (w_reel w))) \<le> rl_max (w_reel w)
     \<and> (us_auto_approve s \<longrightarrow> asked))"

lemma qBound_range: "lo \<le> hi \<Longrightarrow> lo \<le> qBound lo v hi \<and> qBound lo v hi \<le> hi"
  by (simp add: qBound_def)

lemma edit_ok: "settings_ok d \<Longrightarrow> settings_ok (edit_dialog exists e d)"
  using qBound_range by (cases e) (auto simp: settings_ok_def split: option.splits)

lemma edits_ok: "settings_ok d \<Longrightarrow> settings_ok (fold (edit_dialog exists) es d)"
  by (induction es arbitrary: d) (simp_all add: edit_ok)

lemma edits_auto: "us_auto_approve (fold (edit_dialog exists) es d) \<Longrightarrow> us_auto_approve d \<or> Check_auto True \<in> set es"
proof (induction es arbitrary: d)
  case (Cons e es)
  then have "us_auto_approve (edit_dialog exists e d) \<or> Check_auto True \<in> set es" by simp
  then show ?case by (cases e) (auto split: option.splits if_splits)
qed simp

lemma reel_fits: "int (length (rl_entries r)) \<le> rl_max r \<Longrightarrow> int (length (rl_entries (reel_append U c l m r))) \<le> rl_max r"
  by (simp add: reel_append_def drop_first_def Let_def)

lemma reel_append_kept [simp]: "rl_max (reel_append U c l m r) = rl_max r" "rl_level (reel_append U c l m r) = rl_level r"
  by (simp_all add: reel_append_def Let_def)

lemma panel_ok_step: "panel_ok asked pw \<Longrightarrow> panel_ok (asked \<or> turns_auto_on x) (panel_step U exists x pw)"
proof (cases x)
  case (Opens edits accepted)
  assume ok: "panel_ok asked pw"
  obtain p w where pw: "pw = (p, w)" by fastforce
  define d where "d = fold (edit_dialog exists) edits (open_dialog (pn_settings p))"
  have "settings_ok (open_dialog (pn_settings p))"
    using qBound_range by (simp add: settings_ok_def open_dialog_def)
  then have d: "settings_ok d" unfolding d_def by (rule edits_ok)
  have a: "us_auto_approve d \<Longrightarrow> us_auto_approve (pn_settings p) \<or> Check_auto True \<in> set edits"
    using edits_auto[of exists edits "open_dialog (pn_settings p)"] by (auto simp: d_def open_dialog_def)
  show ?thesis
  proof (cases accepted)
    case True
    define r where "r = setLevelFilter (us_log_level_filter d) (setMaxLines (us_max_log_lines d) (setLevelFilter (us_log_level_filter d) (w_reel w)))"
    have r: "int (length (rl_entries r)) \<le> rl_max r" "rl_max r = us_max_log_lines d" "rl_level r = us_log_level_filter d"
      using d drop_first_facts(1)[of "us_max_log_lines d" "rl_entries (w_reel w)"]
      by (auto simp: r_def setLevelFilter_def setMaxLines_def settings_ok_def)
    have "panel_step U exists x pw = (p\<lparr>pn_settings := dialog_values d, pn_interval := us_telemetry_interval_ms d,
        pn_combo := us_log_level_filter d\<rparr>,
        log_line U (qs ''ui'') (qs ''info'') (qs ''Command Center settings updated'') (w\<lparr>w_reel := r\<rparr>))"
      using Opens True pw by (simp add: openSettings_def d_def r_def on_reel_def dialog_values_def Let_def)
    with r reel_fits[OF r(1)] d a ok pw Opens True show ?thesis
      by (auto simp: panel_ok_def settings_ok_def dialog_values_def log_line_def Let_def)
  qed (use Opens ok pw in \<open>auto simp: openSettings_def panel_ok_def Let_def\<close>)
qed (use reel_fits[of "w_reel (snd pw)"] in \<open>auto simp: panel_ok_def setAutoApprove_def level_changed_def category_changed_def pause_clicked_def on_reel_def
      settings_ok_def setLevelFilter_def setCategoryFilter_def clear_reel_def log_line_def Let_def split: prod.splits\<close>)

text \<open>
  the settings stay in the ranges of their boxes through any sequence of dialogs, switches, filters
  and log lines, and the timer, the reel and the level list follow them; the actions are approved
  without a human only when somebody asked for that: in a dialog that was accepted, or by
  \<^verbatim>\<open>setAutoApprove\<close>.
\<close>

theorem settings_stay_in_range:
  "panel_ok (\<exists>x\<in>set ops. turns_auto_on x) (fold (panel_step U exists) ops (new_panel, new_window))"
proof -
  have "panel_ok (asked \<or> (\<exists>x\<in>set ops. turns_auto_on x)) (fold (panel_step U exists) ops pw)" if "panel_ok asked pw" for asked pw
    using that
  proof (induction ops arbitrary: asked pw)
    case (Cons x ops)
    from Cons.IH[OF panel_ok_step[OF Cons.prems]] show ?case by (simp add: disj_assoc)
  qed simp
  moreover have "panel_ok False (new_panel, new_window)"
    by (simp add: panel_ok_def new_panel_def default_settings_def settings_ok_def new_window_def new_reel_def)
  ultimately show ?thesis by fastforce
qed

section \<open>The output is the suite's text\<close>

definition result_tags :: "qstring list" where
  "result_tags = [passed_open, failed_open, output_open, error_open, span_close, div_close]"

lemma q_replace_keeps_start: "prefix t s \<Longrightarrow> d \<noteq> [] \<Longrightarrow> hd d \<notin> set t \<Longrightarrow> prefix t (q_replace d r s)"
proof (induction t arbitrary: s)
  case (Cons x xs)
  from Cons.prems(1) obtain s' where s: "s = x # s'" "prefix xs s'" by (cases s) auto
  have "\<not> prefix d (x # s')" using Cons.prems(2,3) by (cases d) auto
  then show ?case using Cons s by auto
qed simp

lemma q_replace_keeps_tags:
  assumes "only_tags T s" "only_tags T r" "\<forall>t\<in>set T. hd d \<notin> set t"
  shows "only_tags T (q_replace d r s)"
  using assms
proof (induction d r s rule: q_replace.induct)
  case (2 d r u us)
  show ?case
  proof (cases "d \<noteq> [] \<and> prefix d (u # us)")
    case True
    have "only_tags T (q_replace d r (drop (length d) (u # us)))"
      using 2(1)[OF True only_tags_drop[OF 2(3)]] 2(4,5) by simp
    then show ?thesis using True 2(4) by auto
  next
    case other: False
    have tail: "only_tags T (q_replace d r us)" using 2(2)[OF other] 2(3-5) by simp
    have out: "q_replace d r (u # us) = u # q_replace d r us" using other by auto
    show ?thesis
    proof (cases "d = []")
      case True
      have "q_replace [] r s = s" for s :: qstring by (induction s) simp_all
      then show ?thesis using 2(3) True by simp
    next
      case d: False
      have "list_ex (\<lambda>t. prefix t (u # q_replace d r us)) T" if u: "u = 60"
      proof -
        obtain t where t: "t \<in> set T" "prefix t (u # us)" using 2(3) u by (auto simp: list_ex_iff)
        have "prefix t (q_replace d r (u # us))" using t d 2(5) q_replace_keeps_start by blast
        then show ?thesis using t(1) out by (auto simp: list_ex_iff)
      qed
      then show ?thesis using tail out by simp
    qed
  qed
qed simp

definition mark_tags :: "qstring list" where "mark_tags = [passed_open, failed_open, span_close]"

lemma only_tags_mono: "only_tags T s \<Longrightarrow> set T \<subseteq> set T' \<Longrightarrow> only_tags T' s"
  by (induction s) (auto simp: list_ex_iff)

lemmas result_defs = passed_open_def failed_open_def output_open_def error_open_def span_close_def div_close_def

lemma result_tags_like: "list_all tag_like result_tags"
  unfolding result_tags_def result_defs list.pred_inject by (intro conjI list.pred_inject(1); (rule tag_likeI, code_simp))

lemma tag_like_own: "list_all tag_like T \<Longrightarrow> t \<in> set T \<Longrightarrow> only_tags T t"
proof -
  assume a: "list_all tag_like T" "t \<in> set T"
  then obtain r where "t = 60 # r" "60 \<notin> set r" using tag_like_marks by (metis list_all_iff)
  then show ?thesis using a(2) by (auto simp: list_ex_iff only_tags_plain intro: bexI[of _ t])
qed

lemma tags_are_tags: "list_all (only_tags mark_tags) mark_tags" "list_all (only_tags result_tags) result_tags"
proof -
  have "list_all tag_like mark_tags" using result_tags_like by (simp add: mark_tags_def result_tags_def)
  then show "list_all (only_tags mark_tags) mark_tags" "list_all (only_tags result_tags) result_tags"
    using result_tags_like tag_like_own by (simp_all add: list_all_iff)
qed

lemma hd_qs: "hd (qs (c # s)) = of_nat (of_char c)" by (simp add: qs_def)

lemma marks_outside_tags:
  "list_all (\<lambda>t. hd (qs ''Passed'') \<notin> set t \<and> hd (qs ''Failed'') \<notin> set t \<and> hd (qs ''100% tests passed'') \<notin> set t) mark_tags"
  unfolding mark_tags_def result_defs hd_qs qs_mem list.pred_inject by simp

lemma no_bracket: "CHR ''<'' \<notin> set s \<Longrightarrow> 60 \<notin> set (qs s)"
  using qs_mem[of "CHR ''<''" s] by simp

lemma marked_word: "t \<in> set mark_tags \<Longrightarrow> 60 \<notin> set piece \<Longrightarrow> only_tags mark_tags (t @ piece @ span_close)"
  using tags_are_tags(1) only_tags_plain[of piece mark_tags] by (auto simp: mark_tags_def intro!: only_tags_append)

lemma marked_output_tags: "only_tags mark_tags (marked_output s)"
proof -
  have w: "60 \<notin> set (qs ''Passed'')" "60 \<notin> set (qs ''Failed'')" "60 \<notin> set (qs ''100% tests passed'')"
    by (rule no_bracket, simp)+
  have t: "passed_open \<in> set mark_tags" "failed_open \<in> set mark_tags" by (simp_all add: mark_tags_def)
  show ?thesis
    unfolding marked_output_def using marks_outside_tags
    by (intro q_replace_keeps_tags esc_has_no_tag marked_word t w) (auto simp: list_all_iff)
qed

text \<open>
  What a suite prints cannot bring markup of its own into the results: every opening bracket there
  begins one of the window's tags.
\<close>

lemma results_are_own:
  "list_all (only_tags result_tags) (w_results w) \<Longrightarrow> list_all (only_tags result_tags) (w_results (suite_output U bytes w))"
  "list_all (only_tags result_tags) (w_results w) \<Longrightarrow> list_all (only_tags result_tags) (w_results (suite_error U bytes w))"
proof -
  have o: "only_tags result_tags output_open" "only_tags result_tags error_open" "only_tags result_tags div_close"
    using tags_are_tags(2) by (simp_all add: result_tags_def)
  have "only_tags result_tags (marked_output s)" for s
    using only_tags_mono[OF marked_output_tags] by (simp add: mark_tags_def result_tags_def)
  then have "only_tags result_tags (output_open @ marked_output s @ div_close)"
    "only_tags result_tags (error_open @ esc s @ div_close)" for s
    using o esc_has_no_tag(2) by (simp_all add: only_tags_append)
  then show "list_all (only_tags result_tags) (w_results w) \<Longrightarrow> list_all (only_tags result_tags) (w_results (suite_output U bytes w))"
    "list_all (only_tags result_tags) (w_results w) \<Longrightarrow> list_all (only_tags result_tags) (w_results (suite_error U bytes w))"
    by (simp_all add: suite_output_def suite_error_def appendResults_def)
qed

section \<open>Waiting comes back\<close>

text \<open>With a clock that passes the deadline the wait returns; what it returns is whether it saw the window idle.\<close>

lemma wait_at: "(\<And>j. k \<le> j \<Longrightarrow> j < n \<Longrightarrow> busy j \<and> now j \<le> deadline) \<Longrightarrow> k \<le> n \<Longrightarrow> \<not> busy n \<or> deadline < now n
    \<Longrightarrow> waitForIdle busy now deadline k = Some (\<not> busy n)"
proof (induction "n - k" arbitrary: k)
  case 0
  then show ?case by (subst waitForIdle.simps) auto
next
  case (Suc d)
  then have "busy k" "\<not> deadline < now k" by (auto simp: not_less)
  moreover have "waitForIdle busy now deadline (k + 1) = Some (\<not> busy n)" using Suc by (intro Suc(1)) auto
  ultimately show ?case by (subst waitForIdle.simps) simp
qed

lemma wait_comes_back:
  assumes "\<not> busy n \<or> deadline < now n"
  shows "\<exists>i\<le>n. waitForIdle busy now deadline 0 = Some (\<not> busy i)"
proof -
  define i where "i = (LEAST i. \<not> busy i \<or> deadline < now i)"
  have i: "\<not> busy i \<or> deadline < now i" unfolding i_def using assms by (rule LeastI)
  have "busy j \<and> now j \<le> deadline" if "j < i" for j using not_less_Least[OF that[unfolded i_def]] by (auto simp: not_less)
  with wait_at[of 0 i busy now deadline] i have "waitForIdle busy now deadline 0 = Some (\<not> busy i)" by simp
  moreover have "i \<le> n" unfolding i_def using assms by (rule Least_le)
  ultimately show ?thesis by blast
qed

end
