(* ===== verification/Llama_Voice.thy ===== *)
theory Llama_Voice
  imports Core_State
begin

text \<open>
  The voice of \<^verbatim>\<open>src/src/llama_adapter.cpp\<close>: the prompt through the chat template, the prompt pass in
  batches, the vision pass over text and image chunks, the generation loop, loading, and the adapter
  as a voice of the core.  The calls of llama.cpp and of its vision library are an argument; \<open>'l\<close> is the
  state behind them (context, sampler, devices), \<open>'k\<close> a chunk and \<open>'e\<close> an embedding.
\<close>

section \<open>The libraries\<close>

text \<open>
  A call that fills a buffer is given the size of the buffer and answers its number and what the buffer
  holds.
\<close>

record ('l, 'k, 'e) llama =
  ll_template :: "string \<Rightarrow> (string \<times> string) list \<Rightarrow> nat \<Rightarrow> int \<times> string"
  ll_tokenize :: "string \<Rightarrow> nat \<Rightarrow> int \<times> int list"
  ll_clear :: "'l \<Rightarrow> 'l"
  ll_sampler :: "nat \<Rightarrow> 'l \<Rightarrow> 'l"
  ll_free_sampler :: "'l \<Rightarrow> 'l"
  ll_decode :: "int list \<Rightarrow> 'l \<Rightarrow> 'l \<times> int"
  ll_sample :: "'l \<Rightarrow> 'l \<times> int"
  ll_accept :: "int \<Rightarrow> 'l \<Rightarrow> 'l"
  ll_eog :: "int \<Rightarrow> bool"
  ll_piece :: "int \<Rightarrow> nat \<Rightarrow> int \<times> string"
  mm_marker :: string
  mm_bitmap :: "string \<Rightarrow> 'l \<Rightarrow> 'l \<times> nat option"
  mm_free_bitmap :: "nat \<Rightarrow> 'l \<Rightarrow> 'l"
  mm_tokenize :: "string \<Rightarrow> nat \<Rightarrow> 'l \<Rightarrow> 'l \<times> int \<times> 'k list"
  mm_is_text :: "'k \<Rightarrow> bool"
  mm_eval :: "'k \<Rightarrow> int \<Rightarrow> nat \<Rightarrow> bool \<Rightarrow> 'l \<Rightarrow> 'l \<times> int \<times> int"
  mm_batch :: "'l \<Rightarrow> 'l \<times> nat"
  mm_free_batch :: "nat \<Rightarrow> 'l \<Rightarrow> 'l"
  mm_add :: "nat \<Rightarrow> 'k \<Rightarrow> 'l \<Rightarrow> 'l \<times> int"
  mm_encode :: "nat \<Rightarrow> 'l \<Rightarrow> 'l \<times> int"
  mm_embd :: "nat \<Rightarrow> 'k \<Rightarrow> 'l \<Rightarrow> 'e option"
  mm_decode :: "'k \<Rightarrow> 'e \<Rightarrow> int \<Rightarrow> nat \<Rightarrow> 'l \<Rightarrow> 'l \<times> int \<times> int"

section \<open>The prompt\<close>

text \<open>\<^verbatim>\<open>c_str\<close>: the text up to its first zero byte.\<close>

definition c_text :: "string \<Rightarrow> string" where "c_text s = takeWhile (\<lambda>c. c \<noteq> CHR 0x00) s"

definition messages :: "string \<Rightarrow> (string \<times> string) list \<Rightarrow> (string \<times> string) list" where
  "messages system_prompt hist =
     (if system_prompt \<noteq> [] then [(''system'', c_text system_prompt)] else [])
     @ map (\<lambda>turn. (if fst turn = ''user'' then ''user'' else ''assistant'', c_text (snd turn))) hist"

definition resize :: "nat \<Rightarrow> string \<Rightarrow> string" where
  "resize n s = take n s @ replicate (n - length s) (CHR 0x00)"

definition format_prompt :: "('l, 'k, 'e) llama \<Rightarrow> string \<Rightarrow> string \<Rightarrow> (string \<times> string) list \<Rightarrow> string" where
  "format_prompt L chat_template system_prompt hist =
     (let msgs = messages system_prompt hist;
          len0 = fst (ll_template L (c_text chat_template) msgs 0);
          len = nat (if len0 < 0 then - len0 else len0);
          (written, prompt) = ll_template L (c_text chat_template) msgs len
      in if written < 0 then resize (nat (- written)) prompt
         else if written < int (length prompt) then resize (nat written) prompt
         else prompt)"

definition prompt_tokens :: "('l, 'k, 'e) llama \<Rightarrow> string \<Rightarrow> int list option" where
  "prompt_tokens L prompt =
     (let (n, toks) = ll_tokenize L prompt (length prompt + 128);
          (n', toks') = (if n < 0 then ll_tokenize L prompt (nat (- n)) else (n, toks))
      in if n' \<le> 0 then None else Some (take (nat n') toks'))"

text \<open>
  Batches of no tokens would be passed for ever; the adapter's batches have 2048 tokens.
\<close>

function prompt_pass :: "('l, 'k, 'e) llama \<Rightarrow> nat \<Rightarrow> int list \<Rightarrow> 'l \<Rightarrow> 'l \<times> bool" where
  "prompt_pass L n_batch toks l =
     (if toks = [] then (l, True)
      else if n_batch = 0 then (l, False)
      else let (l', r) = ll_decode L (take n_batch toks) l
           in if r < 0 then (l', False) else prompt_pass L n_batch (drop n_batch toks) l')"
  by auto
termination by (relation "measure (\<lambda>(L, n, ts, l). length ts)") auto

declare prompt_pass.simps [simp del]

definition run_text_prompt ::
  "('l, 'k, 'e) llama \<Rightarrow> string \<Rightarrow> nat \<Rightarrow> string \<Rightarrow> (string \<times> string) list \<Rightarrow> 'l \<Rightarrow> 'l \<times> bool" where
  "run_text_prompt L chat_template n_batch system_prompt hist l =
     (case prompt_tokens L (format_prompt L chat_template system_prompt hist) of
        None \<Rightarrow> (l, False)
      | Some toks \<Rightarrow> prompt_pass L n_batch toks l)"

section \<open>The vision prompt\<close>

definition marked :: "('l, 'k, 'e) llama \<Rightarrow> (string \<times> string) list \<Rightarrow> (string \<times> string) list" where
  "marked L hist =
     (if hist \<noteq> [] \<and> fst (last hist) = ''user''
      then butlast hist @ [(''user'', mm_marker L @ [CHR 0x0A] @ snd (last hist))] else hist)"

text \<open>The chunks in order; the value is the batch that is still held and whether all went well.\<close>

fun vision_chunks ::
  "('l, 'k, 'e) llama \<Rightarrow> nat \<Rightarrow> 'k list \<Rightarrow> int \<Rightarrow> nat option \<Rightarrow> 'l \<Rightarrow> 'l \<times> nat option \<times> bool" where
  "vision_chunks L n_batch [] n_past mbatch l = (l, mbatch, True)"
| "vision_chunks L n_batch (k # ks) n_past mbatch l =
     (if mm_is_text L k then
        (let (l1, r, new_past) = mm_eval L k n_past n_batch (ks = []) l
         in if r \<noteq> 0 then (l1, mbatch, False) else vision_chunks L n_batch ks new_past mbatch l1)
      else
        (let held = (case mbatch of None \<Rightarrow> None | Some b \<Rightarrow> mm_embd L b k l);
             (l1, mbatch1, found) =
               (case held of
                  Some e \<Rightarrow> (l, mbatch, Some e)
                | None \<Rightarrow>
                    (let l0 = (case mbatch of None \<Rightarrow> l | Some b \<Rightarrow> mm_free_batch L b l);
                         (l2, b) = mm_batch L l0;
                         (l3, r) = mm_add L b k l2
                     in if r \<noteq> 0 then (l3, Some b, None)
                        else let (l4, r2) = mm_encode L b l3
                             in if r2 \<noteq> 0 then (l4, Some b, None) else (l4, Some b, mm_embd L b k l4)))
         in case found of
              None \<Rightarrow> (l1, mbatch1, False)
            | Some e \<Rightarrow>
                (let (l5, r, new_past) = mm_decode L k e n_past n_batch l1
                 in if r \<noteq> 0 then (l5, mbatch1, False) else vision_chunks L n_batch ks new_past mbatch1 l5)))"

definition run_vision_prompt ::
  "('l, 'k, 'e) llama \<Rightarrow> string \<Rightarrow> nat \<Rightarrow> string \<Rightarrow> (string \<times> string) list \<Rightarrow> string \<Rightarrow> 'l \<Rightarrow> 'l \<times> bool" where
  "run_vision_prompt L chat_template n_batch system_prompt hist image_path l =
     (let prompt = format_prompt L chat_template system_prompt (marked L hist);
          (l1, bitmap) = mm_bitmap L (c_text image_path) l
      in case bitmap of None \<Rightarrow> (l1, False) | Some b \<Rightarrow>
         let (l2, res, chunks) = mm_tokenize L prompt b l1
         in if res \<noteq> 0 then (mm_free_bitmap L b l2, False)
            else let (l3, mbatch, ok) = vision_chunks L n_batch chunks 0 None l2;
                     l4 = (case mbatch of None \<Rightarrow> l3 | Some m \<Rightarrow> mm_free_batch L m l3)
                 in (mm_free_bitmap L b l4, ok))"

section \<open>The generation loop\<close>

definition kPieceSize :: nat where "kPieceSize = 256"
definition tool_call_close :: string where "tool_call_close = ''</tool_call>''"

text \<open>
  \<open>stop\<close> answers \<^verbatim>\<open>should_stop\<close> at each step, \<open>left\<close> is what \<^verbatim>\<open>max_tokens\<close> leaves; the value is the text, the
  pieces in order and whether the loop was stopped.
\<close>

fun generate ::
  "('l, 'k, 'e) llama \<Rightarrow> (nat \<Rightarrow> bool) option \<Rightarrow> nat \<Rightarrow> nat \<Rightarrow> string \<Rightarrow> string list \<Rightarrow> 'l \<Rightarrow> 'l \<times> string \<times> string list \<times> bool" where
  "generate L stop 0 i output pieces l = (l, output, pieces, False)"
| "generate L stop (Suc left) i output pieces l =
     (if (case stop of None \<Rightarrow> False | Some f \<Rightarrow> f i) then (l, output, pieces, True) else
      let (l1, token) = ll_sample L l; l2 = ll_accept L token l1 in
      if ll_eog L token then (l2, output, pieces, False) else
      let (n, buf) = ll_piece L token kPieceSize in
      if n \<le> 0 then generate L stop left (i + 1) output pieces l2 else
      let piece = take (nat n) buf; output' = output @ piece; pieces' = pieces @ [piece] in
      if suffix tool_call_close output' then (l2, output', pieces', False) else
      let (l3, r) = ll_decode L [token] l2 in
      if r < 0 then (l3, output', pieces', False) else generate L stop left (i + 1) output' pieces' l3)"

section \<open>The adapter\<close>

record adapter =
  ad_template :: string
  ad_n_batch :: nat
  ad_n_ctx :: nat
  ad_vision :: bool
  ad_connected :: bool

definition new_adapter :: adapter where
  "new_adapter = \<lparr>ad_template = [], ad_n_batch = 2048, ad_n_ctx = 8192, ad_vision = False, ad_connected = False\<rparr>"

text \<open>What the libraries answer while a model is loaded; \<open>la_eyes\<close> says whether the projector can see.\<close>

record load_answers =
  la_model :: bool
  la_context :: bool
  la_template :: "string option"
  la_projector :: bool
  la_eyes :: bool

definition load :: "load_answers \<Rightarrow> string \<Rightarrow> adapter \<Rightarrow> adapter \<times> bool" where
  "load la mmproj_path ad =
     (if \<not> la_model la then (ad, False)
      else if \<not> la_context la then (ad, False)
      else let ad1 = ad\<lparr>ad_n_batch := 2048, ad_n_ctx := 8192\<rparr> in
        case la_template la of
          None \<Rightarrow> (ad1, False)
        | Some t \<Rightarrow>
            let vision = (if mmproj_path \<noteq> [] then la_projector la \<and> la_eyes la else ad_vision ad1)
            in (ad1\<lparr>ad_template := c_text t, ad_vision := vision, ad_connected := True\<rparr>, True))"

definition llama_adapter :: "load_answers \<Rightarrow> string \<Rightarrow> adapter" where
  "llama_adapter la mmproj_path = (let (ad, ok) = load la mmproj_path new_adapter in ad\<lparr>ad_connected := ok\<rparr>)"

definition run ::
  "('l, 'k, 'e) llama \<Rightarrow> adapter \<Rightarrow> nat \<Rightarrow> nat \<Rightarrow> (nat \<Rightarrow> bool) option \<Rightarrow> string \<Rightarrow> string \<Rightarrow> (string \<times> string) list \<Rightarrow> 'l
     \<Rightarrow> 'l \<times> string \<times> string list \<times> bool" where
  "run L ad seed max_tokens stop image_path system_prompt hist l =
     (let l1 = ll_sampler L seed (ll_clear L l);
          (l2, ok) = (if image_path \<noteq> [] \<and> ad_vision ad
                      then run_vision_prompt L (ad_template ad) (ad_n_batch ad) system_prompt hist image_path l1
                      else run_text_prompt L (ad_template ad) (ad_n_batch ad) system_prompt hist l1)
      in if \<not> ok then (ll_free_sampler L l2, [], [], False)
         else let (l3, output, pieces, stopped) = generate L stop max_tokens 0 [] [] l2
              in (ll_free_sampler L l3, output, pieces, stopped))"

definition generate_raw ::
  "('l, 'k, 'e) llama \<Rightarrow> adapter \<Rightarrow> nat \<Rightarrow> nat \<Rightarrow> (nat \<Rightarrow> bool) option \<Rightarrow> string \<Rightarrow> string \<Rightarrow> (string \<times> string) list \<Rightarrow> 'l
     \<Rightarrow> 'l \<times> string" where
  "generate_raw L ad seed max_tokens stop image_path system_prompt hist l =
     (if \<not> ad_connected ad then (l, []) else
      let (l', output, pieces, stopped) = run L ad seed max_tokens stop image_path system_prompt hist l in (l', output))"

definition llama_stream ::
  "('l, 'k, 'e) llama \<Rightarrow> adapter \<Rightarrow> nat \<Rightarrow> nat \<Rightarrow> (nat \<Rightarrow> bool) option \<Rightarrow> string \<Rightarrow> string \<Rightarrow> (string \<times> string) list \<Rightarrow> 'l
     \<Rightarrow> 'l \<times> string list \<times> bool" where
  "llama_stream L ad seed max_tokens stop image_path system_prompt hist l =
     (if \<not> ad_connected ad then (l, [], False) else
      let (l', output, pieces, stopped) = run L ad seed max_tokens stop image_path system_prompt hist l in (l', pieces, stopped))"

text \<open>
  The adapter as the voice of the core; the state counts the passes, \<open>limits\<close>, \<open>seeds\<close> and \<open>stops\<close> are
  the \<^verbatim>\<open>max_tokens\<close>, the random number and the stop requests of each pass.
\<close>

definition llama_voice ::
  "('l, 'k, 'e) llama \<Rightarrow> (nat \<Rightarrow> nat) \<Rightarrow> (nat \<Rightarrow> nat) \<Rightarrow> (nat \<Rightarrow> nat \<Rightarrow> bool) \<Rightarrow> (adapter \<times> nat \<times> 'l) voice" where
  "llama_voice L limits seeds stops =
     \<lparr>vo_name = (\<lambda>m. ''llama.cpp''), vo_connected = (\<lambda>(ad, n, l). ad_connected ad),
      vo_raw = (\<lambda>prompt hist image_path (ad, n, l).
        let (l', t) = generate_raw L ad (seeds n) (limits n) None image_path prompt hist l in ((ad, n + 1, l'), t)),
      vo_stream = (\<lambda>prompt hist image_path (ad, n, l).
        let (l', pieces, stopped) = llama_stream L ad (seeds n) (limits n) (Some (stops n)) image_path prompt hist l
        in ((ad, n + 1, l'), pieces, stopped))\<rparr>"

section \<open>What the libraries promise\<close>

text \<open>
  The chat template answers the length of the text \<open>T\<close> and puts it into a buffer that is long enough;
  the tokenizer answers the number of the tokens \<open>K\<close>, negated when the buffer is too short.
\<close>

definition fills_template :: "('l, 'k, 'e) llama \<Rightarrow> (string \<Rightarrow> (string \<times> string) list \<Rightarrow> string) \<Rightarrow> bool" where
  "fills_template L T \<longleftrightarrow>
     (\<forall>t msgs n. fst (ll_template L t msgs n) = int (length (T t msgs))
        \<and> (length (T t msgs) \<le> n \<longrightarrow> prefix (T t msgs) (snd (ll_template L t msgs n)) \<and> length (snd (ll_template L t msgs n)) = n))"

definition fills_tokens :: "('l, 'k, 'e) llama \<Rightarrow> (string \<Rightarrow> int list) \<Rightarrow> bool" where
  "fills_tokens L K \<longleftrightarrow>
     (\<forall>p n. if length (K p) \<le> n then fst (ll_tokenize L p n) = int (length (K p)) \<and> prefix (K p) (snd (ll_tokenize L p n))
            else fst (ll_tokenize L p n) = - int (length (K p)))"

text \<open>A piece is never longer than its buffer.\<close>

definition fills_piece :: "('l, 'k, 'e) llama \<Rightarrow> bool" where
  "fills_piece L \<longleftrightarrow> (\<forall>token n. fst (ll_piece L token n) \<le> int n \<and> length (snd (ll_piece L token n)) = n)"

section \<open>The prompt pass covers the prompt\<close>

fun decode_all :: "('l, 'k, 'e) llama \<Rightarrow> int list list \<Rightarrow> 'l \<Rightarrow> 'l \<times> bool" where
  "decode_all L [] l = (l, True)"
| "decode_all L (b # bs) l = (let (l', r) = ll_decode L b l in if r < 0 then (l', False) else decode_all L bs l')"

lemma pass_batches:
  assumes "0 < n"
  shows "\<exists>bs. concat bs = toks \<and> list_all (\<lambda>b. b \<noteq> [] \<and> length b \<le> n) bs \<and> (\<forall>l. prompt_pass L n toks l = decode_all L bs l)"
proof (induction "length toks" arbitrary: toks rule: less_induct)
  case less
  show ?case
  proof (cases "toks = []")
    case True
    then show ?thesis by (intro exI[of _ "[]"]) (simp add: prompt_pass.simps)
  next
    case False
    then obtain bs where bs: "concat bs = drop n toks" "list_all (\<lambda>b. b \<noteq> [] \<and> length b \<le> n) bs"
      "\<forall>l. prompt_pass L n (drop n toks) l = decode_all L bs l"
      using less[of "drop n toks"] assms by auto
    have "prompt_pass L n toks l = decode_all L (take n toks # bs) l" for l
      using False assms bs(3) by (subst prompt_pass.simps) (simp split: prod.splits)
    moreover have "concat (take n toks # bs) = toks" using bs(1) by simp
    moreover have "list_all (\<lambda>b. b \<noteq> [] \<and> length b \<le> n) (take n toks # bs)" using bs(2) False assms by simp
    ultimately show ?thesis by blast
  qed
qed

lemma prompt_text:
  assumes "fills_template L T"
  shows "format_prompt L t system_prompt hist = T (c_text t) (messages system_prompt hist)"
proof -
  let ?m = "messages system_prompt hist" and ?t = "c_text t"
  have a: "fst (ll_template L ?t ?m n) = int (length (T ?t ?m))" for n using assms by (simp add: fills_template_def)
  have "prefix (T ?t ?m) (snd (ll_template L ?t ?m (length (T ?t ?m))))"
    "length (snd (ll_template L ?t ?m (length (T ?t ?m)))) = length (T ?t ?m)" using assms by (simp_all add: fills_template_def)
  then have "snd (ll_template L ?t ?m (length (T ?t ?m))) = T ?t ?m" by (auto simp: prefix_def)
  then show ?thesis using a[of 0] a[of "length (T ?t ?m)"] by (simp add: format_prompt_def Let_def split_beta)
qed

lemma prompt_toks:
  assumes "fills_tokens L K" shows "prompt_tokens L p = (if K p = [] then None else Some (K p))"
proof -
  let ?n = "length p + 128" and ?k = "length (K p)"
  have f: "fst (ll_tokenize L p n) = int ?k" "prefix (K p) (snd (ll_tokenize L p n))" if "?k \<le> n" for n
    using assms that unfolding fills_tokens_def by metis+
  have g: "fst (ll_tokenize L p n) = - int ?k" if "\<not> ?k \<le> n" for n using assms that unfolding fills_tokens_def by metis
  have t: "take ?k (snd (ll_tokenize L p n)) = K p" if "?k \<le> n" for n using f(2)[OF that] by (auto simp: prefix_def)
  show ?thesis
  proof (cases "?k \<le> ?n")
    case True
    then show ?thesis using f(1)[OF True] t[OF True] by (simp add: prompt_tokens_def split_beta)
  next
    case False
    then have "K p \<noteq> []" by auto
    then show ?thesis using False f(1)[of ?k] t[of ?k] g[OF False] by (auto simp: prompt_tokens_def split_beta)
  qed
qed

text \<open>
  C20: the whole prompt is read: given what the libraries promise, the prompt pass decodes the tokens of
  the template's text for the system prompt and the history, all of them, in their order, in batches
  of at most the batch size, and says so unless there are none or a batch fails; that the first
  buffers may be too short makes no difference.
\<close>

theorem prompt_is_covered:
  assumes "fills_template L T" "fills_tokens L K" "0 < n_batch"
  shows "let toks = K (T (c_text chat_template) (messages system_prompt hist)) in
    \<exists>bs. concat bs = toks \<and> list_all (\<lambda>b. b \<noteq> [] \<and> length b \<le> n_batch) bs
      \<and> run_text_prompt L chat_template n_batch system_prompt hist l = (if toks = [] then (l, False) else decode_all L bs l)"
proof -
  let ?k = "K (T (c_text chat_template) (messages system_prompt hist))"
  obtain bs where "concat bs = ?k" "list_all (\<lambda>b. b \<noteq> [] \<and> length b \<le> n_batch) bs"
    "\<forall>l. prompt_pass L n_batch ?k l = decode_all L bs l" using pass_batches[OF assms(3)] by blast
  then show ?thesis
    by (auto simp: run_text_prompt_def prompt_text[OF assms(1)] prompt_toks[OF assms(2)] Let_def intro!: exI[of _ bs])
qed

text \<open>
  A batch that finds no room in the context answers a positive number and leaves the context as it was;
  the pass takes it for read.
\<close>

lemma full_context_is_unnoticed:
  assumes "\<forall>b l. ll_decode L b l = (l, 1)" "prompt_tokens L (format_prompt L t system_prompt hist) = Some toks" "0 < n_batch"
  shows "run_text_prompt L t n_batch system_prompt hist l = (l, True)"
proof -
  have "decode_all L bs l = (l, True)" for bs using assms(1) by (induction bs) auto
  then show ?thesis using pass_batches[OF assms(3), of toks L] assms(2) by (auto simp: run_text_prompt_def)
qed

section \<open>The generation loop is bounded\<close>

definition loop_ok :: "nat \<Rightarrow> string \<Rightarrow> string list \<Rightarrow> bool" where
  "loop_ok n output pieces \<longleftrightarrow>
     output = concat pieces \<and> length pieces \<le> n \<and> list_all (\<lambda>p. p \<noteq> [] \<and> length p \<le> kPieceSize) pieces
     \<and> (\<forall>i<length pieces. \<not> suffix tool_call_close (concat (take i pieces)))"

lemma loop_ok_mono: "loop_ok n output pieces \<Longrightarrow> n \<le> m \<Longrightarrow> loop_ok m output pieces"
  by (simp add: loop_ok_def)

lemma loop_ok_more:
  assumes "loop_ok n output pieces" "\<not> suffix tool_call_close output" "p \<noteq> []" "length p \<le> kPieceSize"
  shows "loop_ok (Suc n) (output @ p) (pieces @ [p])"
  using assms by (auto simp: loop_ok_def less_Suc_eq)

text \<open>What one step of the loop can be.\<close>

lemma generate_cases:
  fixes L :: "('l, 'k, 'e) llama"
  assumes "generate L stop (Suc left) i output pieces l = (l', out)"
  obtains
    (ended) "\<exists>s. out = (output, pieces, s)"
  | (skipped) l1 where "generate L stop left (i + 1) output pieces l1 = (l', out)"
  | (last) k buf token where "ll_piece L token kPieceSize = (k, buf)" "0 < k"
      "out = (output @ take (nat k) buf, pieces @ [take (nat k) buf], False)"
  | (more) k buf token l1 where "ll_piece L token kPieceSize = (k, buf)" "0 < k"
      "\<not> suffix tool_call_close (output @ take (nat k) buf)"
      "generate L stop left (i + 1) (output @ take (nat k) buf) (pieces @ [take (nat k) buf]) l1 = (l', out)"
proof -
  obtain l1 token where s: "ll_sample L l = (l1, token)" by fastforce
  obtain k buf where k: "ll_piece L token kPieceSize = (k, buf)" by fastforce
  obtain l3 r where r: "ll_decode L [token] (ll_accept L token l1) = (l3, r)" by fastforce
  note e = assms[unfolded generate.simps(2) s Let_def prod.case k r]
  show thesis
  proof (cases "case stop of None \<Rightarrow> False | Some f \<Rightarrow> f i")
    case True
    then show thesis using e ended by auto
  next
    case False
    note e1 = e[unfolded if_not_P[OF False]]
    show thesis
    proof (cases "ll_eog L token \<or> k \<le> 0")
      case True
      then show thesis using e1 ended skipped by (cases "ll_eog L token") auto
    next
      case go: False
      show thesis
      proof (cases "suffix tool_call_close (output @ take (nat k) buf) \<or> r < 0")
        case True
        then show thesis using e1 go last[OF k] by (auto split: if_splits)
      next
        case False
        then show thesis using e1 go more[OF k] by auto
      qed
    qed
  qed
qed

lemma generate_ok:
  assumes "fills_piece L"
  shows "loop_ok n out ps \<Longrightarrow> \<not> suffix tool_call_close out \<Longrightarrow>
    generate L stop left i out ps l = (l', out', ps', stopped) \<Longrightarrow> loop_ok (n + left) out' ps'"
proof (induction left arbitrary: n i out ps l)
  case (Suc left)
  have len: "take (nat k) buf \<noteq> [] \<and> length (take (nat k) buf) \<le> kPieceSize"
    if "ll_piece L token kPieceSize = (k, buf)" "0 < k" for token k buf
  proof -
    have "length buf = kPieceSize" using assms that(1) unfolding fills_piece_def by (metis snd_conv)
    then show ?thesis using that(2) by (auto simp: kPieceSize_def)
  qed
  show ?case
  proof (cases rule: generate_cases[OF Suc.prems(3)])
    case 1
    then show ?thesis using loop_ok_mono[OF Suc.prems(1)] by auto
  next
    case (2 l1)
    from Suc.IH[OF Suc.prems(1,2) this] show ?thesis by (rule loop_ok_mono) simp
  next
    case (3 k buf token)
    then show ?thesis using loop_ok_mono[OF loop_ok_more[OF Suc.prems(1,2)], of "take (nat k) buf" "n + Suc left"] len[OF 3(1,2)] by simp
  next
    case (4 k buf token l1)
    have "loop_ok (Suc n) (out @ take (nat k) buf) (ps @ [take (nat k) buf])"
      using loop_ok_more[OF Suc.prems(1,2)] len[OF 4(1,2)] by blast
    from Suc.IH[OF this 4(3,4)] show ?thesis by simp
  qed
qed simp



section \<open>The vision pass gives back what it takes\<close>

text \<open>The batches and the bitmaps that are allocated, and what each call does to them.\<close>

definition accounts :: "('l, 'k, 'e) llama \<Rightarrow> ('l \<Rightarrow> nat set) \<Rightarrow> ('l \<Rightarrow> nat set) \<Rightarrow> bool" where
  "accounts L B M \<longleftrightarrow>
     (\<forall>l l' b. mm_batch L l = (l', b) \<longrightarrow> b \<notin> B l \<and> B l' = insert b (B l) \<and> M l' = M l)
     \<and> (\<forall>l b. B (mm_free_batch L b l) = B l - {b} \<and> M (mm_free_batch L b l) = M l)
     \<and> (\<forall>l p l' b. mm_bitmap L p l = (l', b) \<longrightarrow> B l' = B l \<and> set_option b \<inter> M l = {} \<and> M l' = set_option b \<union> M l)
     \<and> (\<forall>l b. M (mm_free_bitmap L b l) = M l - {b} \<and> B (mm_free_bitmap L b l) = B l)
     \<and> (\<forall>l p b l' r ks. mm_tokenize L p b l = (l', r, ks) \<longrightarrow> B l' = B l \<and> M l' = M l)
     \<and> (\<forall>l k p n x l' r q. mm_eval L k p n x l = (l', r, q) \<longrightarrow> B l' = B l \<and> M l' = M l)
     \<and> (\<forall>l b k l' r. mm_add L b k l = (l', r) \<longrightarrow> B l' = B l \<and> M l' = M l)
     \<and> (\<forall>l b l' r. mm_encode L b l = (l', r) \<longrightarrow> B l' = B l \<and> M l' = M l)
     \<and> (\<forall>l k e p n l' r q. mm_decode L k e p n l = (l', r, q) \<longrightarrow> B l' = B l \<and> M l' = M l)"

definition holds_only :: "('l \<Rightarrow> nat set) \<Rightarrow> ('l \<Rightarrow> nat set) \<Rightarrow> nat set \<Rightarrow> nat set \<Rightarrow> nat option \<Rightarrow> 'l \<Rightarrow> bool" where
  "holds_only B M bs ms held l \<longleftrightarrow> M l = ms \<and> B l = set_option held \<union> bs \<and> set_option held \<inter> bs = {}"

lemma holds_same: "B l' = B l \<Longrightarrow> M l' = M l \<Longrightarrow> holds_only B M bs ms held l' = holds_only B M bs ms held l"
  by (simp add: holds_only_def)

lemma accountsD:
  assumes "accounts L B M"
  shows "mm_batch L l = (l', b) \<Longrightarrow> b \<notin> B l \<and> B l' = insert b (B l) \<and> M l' = M l"
    "B (mm_free_batch L b l) = B l - {b} \<and> M (mm_free_batch L b l) = M l"
    "mm_bitmap L p l = (l', v) \<Longrightarrow> B l' = B l \<and> set_option v \<inter> M l = {} \<and> M l' = set_option v \<union> M l"
    "M (mm_free_bitmap L b l) = M l - {b} \<and> B (mm_free_bitmap L b l) = B l"
    "mm_tokenize L p b l = (l', r, ks) \<Longrightarrow> B l' = B l \<and> M l' = M l"
    "mm_eval L k i n x l = (l', r, q) \<Longrightarrow> B l' = B l \<and> M l' = M l"
    "mm_add L b k l = (l', r) \<Longrightarrow> B l' = B l \<and> M l' = M l"
    "mm_encode L b l = (l', r) \<Longrightarrow> B l' = B l \<and> M l' = M l"
    "mm_decode L k e i n l = (l', r, q) \<Longrightarrow> B l' = B l \<and> M l' = M l"
proof -
  note a1 = assms[unfolded accounts_def] note a2 = a1[THEN conjunct2] note a3 = a2[THEN conjunct2]
  note a4 = a3[THEN conjunct2] note a5 = a4[THEN conjunct2] note a6 = a5[THEN conjunct2]
  note a7 = a6[THEN conjunct2] note a8 = a7[THEN conjunct2] note a9 = a8[THEN conjunct2]
  show "mm_batch L l = (l', b) \<Longrightarrow> b \<notin> B l \<and> B l' = insert b (B l) \<and> M l' = M l" by (rule a1[THEN conjunct1, rule_format])
  show "B (mm_free_batch L b l) = B l - {b} \<and> M (mm_free_batch L b l) = M l" by (rule a2[THEN conjunct1, rule_format])
  show "mm_bitmap L p l = (l', v) \<Longrightarrow> B l' = B l \<and> set_option v \<inter> M l = {} \<and> M l' = set_option v \<union> M l"
    by (rule a3[THEN conjunct1, rule_format])
  show "M (mm_free_bitmap L b l) = M l - {b} \<and> B (mm_free_bitmap L b l) = B l" by (rule a4[THEN conjunct1, rule_format])
  show "mm_tokenize L p b l = (l', r, ks) \<Longrightarrow> B l' = B l \<and> M l' = M l" by (rule a5[THEN conjunct1, rule_format])
  show "mm_eval L k i n x l = (l', r, q) \<Longrightarrow> B l' = B l \<and> M l' = M l" by (rule a6[THEN conjunct1, rule_format])
  show "mm_add L b k l = (l', r) \<Longrightarrow> B l' = B l \<and> M l' = M l" by (rule a7[THEN conjunct1, rule_format])
  show "mm_encode L b l = (l', r) \<Longrightarrow> B l' = B l \<and> M l' = M l" by (rule a8[THEN conjunct1, rule_format])
  show "mm_decode L k e i n l = (l', r, q) \<Longrightarrow> B l' = B l \<and> M l' = M l" by (rule a9[rule_format])
qed

lemma accounts_same:
  assumes "accounts L B M"
  shows "mm_eval L k p n x l = (l', r, q) \<Longrightarrow> holds_only B M bs ms held l' = holds_only B M bs ms held l"
    "mm_add L b k l = (l', r) \<Longrightarrow> holds_only B M bs ms held l' = holds_only B M bs ms held l"
    "mm_encode L b l = (l', r) \<Longrightarrow> holds_only B M bs ms held l' = holds_only B M bs ms held l"
    "mm_decode L k e p n l = (l', r, q) \<Longrightarrow> holds_only B M bs ms held l' = holds_only B M bs ms held l"
  using accountsD(6-9)[OF assms] by (auto simp: holds_only_def)

lemma accounts_batch:
  assumes "accounts L B M" "holds_only B M bs ms None l" "mm_batch L l = (l', b)" shows "holds_only B M bs ms (Some b) l'"
proof -
  have "b \<notin> B l \<and> B l' = insert b (B l) \<and> M l' = M l" by (rule accountsD(1)[OF assms(1,3)])
  then show ?thesis using assms(2) by (simp add: holds_only_def)
qed

lemma accounts_free:
  assumes "accounts L B M" "holds_only B M bs ms held l"
  shows "holds_only B M bs ms None (case held of None \<Rightarrow> l | Some b \<Rightarrow> mm_free_batch L b l)"
proof (cases held)
  case (Some b)
  have "B (mm_free_batch L b l) = B l - {b} \<and> M (mm_free_batch L b l) = M l" by (rule accountsD(2)[OF assms(1)])
  then show ?thesis using assms(2) Some by (auto simp: holds_only_def)
qed (use assms(2) in simp)

lemma chunks_hold:
  assumes A: "accounts L B M"
  shows "holds_only B M bs ms held l \<Longrightarrow> vision_chunks L n_batch ks past held l = (l', held', ok) \<Longrightarrow> holds_only B M bs ms held' l'"
proof (induction ks arbitrary: past held l)
  case (Cons k ks)
  show ?case
  proof (cases "mm_is_text L k")
    case True
    obtain l1 r q where e: "mm_eval L k past n_batch (ks = []) l = (l1, r, q)" by (cases "mm_eval L k past n_batch (ks = []) l")
    have "holds_only B M bs ms held l1" using accounts_same(1)[OF A e] Cons.prems(1) by simp
    then show ?thesis using Cons.prems(2) True e Cons.IH[of held l1 q] by (auto split: if_splits)
  next
    case False
    define start where "start =
      (case (case held of None \<Rightarrow> None | Some b \<Rightarrow> mm_embd L b k l) of
                  Some e \<Rightarrow> (l, held, Some e)
                | None \<Rightarrow>
                    (let l0 = (case held of None \<Rightarrow> l | Some b \<Rightarrow> mm_free_batch L b l);
                         (l2, b) = mm_batch L l0;
                         (l3, r) = mm_add L b k l2
                     in if r \<noteq> 0 then (l3, Some b, None)
                        else let (l4, r2) = mm_encode L b l3
                             in if r2 \<noteq> 0 then (l4, Some b, None) else (l4, Some b, mm_embd L b k l4)))"
    obtain l1 held1 found where s: "start = (l1, held1, found)" by (cases start)
    have h: "holds_only B M bs ms held1 l1"
    proof (cases "case held of None \<Rightarrow> None | Some b \<Rightarrow> mm_embd L b k l")
      case None
      let ?l0 = "case held of None \<Rightarrow> l | Some b \<Rightarrow> mm_free_batch L b l"
      obtain l2 b where b: "mm_batch L ?l0 = (l2, b)" by fastforce
      obtain l3 r where r: "mm_add L b k l2 = (l3, r)" by fastforce
      obtain l4 r2 where r2: "mm_encode L b l3 = (l4, r2)" by fastforce
      have "holds_only B M bs ms (Some b) l2" by (rule accounts_batch[OF A accounts_free[OF A Cons.prems(1)] b])
      then have h: "holds_only B M bs ms (Some b) l3" "holds_only B M bs ms (Some b) l4"
        using accounts_same(2)[OF A r] accounts_same(3)[OF A r2] by simp_all
      have "held1 = Some b \<and> (l1 = l3 \<or> l1 = l4)"
        using s[unfolded start_def None option.case Let_def b prod.case r r2] by (auto split: if_splits)
      then show ?thesis using h by blast
    next
      case (Some e)
      then show ?thesis using s Cons.prems(1) by (simp add: start_def)
    qed
    note e = Cons.prems(2)[unfolded vision_chunks.simps(2) if_not_P[OF False] Let_def[of "case held of None \<Rightarrow> None | Some b \<Rightarrow> mm_embd L b k l"],
        folded start_def, unfolded s prod.case]
    show ?thesis
    proof (cases found)
      case None
      then show ?thesis using e h by simp
    next
      case (Some v)
      obtain l5 r q where d: "mm_decode L k v past n_batch l1 = (l5, r, q)" by (cases "mm_decode L k v past n_batch l1")
      have "holds_only B M bs ms held1 l5" using accounts_same(4)[OF A d] h by simp
      then show ?thesis using e Some d Cons.IH[of held1 l5 q] by (auto split: if_splits)
    qed
  qed
qed simp

text \<open>
  C32: the vision pass gives back what it takes: on every path, also when the image cannot be read, the
  tokens do not fit, or a chunk fails, the batches and bitmaps that are allocated after the pass are
  those from before it.
\<close>

theorem vision_pass_gives_back:
  assumes "accounts L B M" "run_vision_prompt L chat_template n_batch system_prompt hist image_path l = (l', ok)"
  shows "B l' = B l \<and> M l' = M l"
proof -
  let ?p = "format_prompt L chat_template system_prompt (marked L hist)"
  obtain l1 bitmap where b: "mm_bitmap L (c_text image_path) l = (l1, bitmap)" by fastforce
  have 1: "B l1 = B l" "set_option bitmap \<inter> M l = {}" "M l1 = set_option bitmap \<union> M l"
    using accountsD(3)[OF assms(1) b] by blast+
  show ?thesis
  proof (cases bitmap)
    case None
    then show ?thesis using 1 b assms(2) by (simp add: run_vision_prompt_def)
  next
    case (Some m)
    obtain l2 res ks where t: "mm_tokenize L ?p m l1 = (l2, res, ks)" by (cases "mm_tokenize L ?p m l1")
    have 2: "B l2 = B l" "M l2 = insert m (M l)" "m \<notin> M l"
      using accountsD(5)[OF assms(1) t] 1 Some by auto
    have free: "B (mm_free_bitmap L m x) = B x" "M (mm_free_bitmap L m x) = M x - {m}" for x
      using accountsD(4)[OF assms(1)] by blast+
    show ?thesis
    proof (cases "res = 0")
      case False
      then show ?thesis using assms(2) b Some t 2 free by (auto simp: run_vision_prompt_def)
    next
      case True
      obtain l3 held good where c: "vision_chunks L n_batch ks 0 None l2 = (l3, held, good)" by (cases "vision_chunks L n_batch ks 0 None l2")
      have "holds_only B M (B l) (insert m (M l)) None l2" using 2 by (simp add: holds_only_def)
      from accounts_free[OF assms(1) chunks_hold[OF assms(1) this c]]
      have "B (case held of None \<Rightarrow> l3 | Some x \<Rightarrow> mm_free_batch L x l3) = B l"
        "M (case held of None \<Rightarrow> l3 | Some x \<Rightarrow> mm_free_batch L x l3) = insert m (M l)"
        by (auto simp: holds_only_def)
      then show ?thesis using assms(2) b Some t True c free 2(3) by (auto simp: run_vision_prompt_def)
    qed
  qed
qed

section \<open>A small library\<close>

definition sample_template :: "string \<Rightarrow> (string \<times> string) list \<Rightarrow> string" where
  "sample_template t msgs = t @ concat (map (\<lambda>(role, content). role @ '':'' @ content @ [CHR 0x0A]) msgs)"

definition sample_tokens :: "string \<Rightarrow> int list" where "sample_tokens p = map of_char p"

definition fresh :: "nat list \<Rightarrow> nat" where "fresh ns = Suc (sum_list ns)"

lemma fresh_new: "fresh ns \<notin> set ns"
  using member_le_sum_list[of "fresh ns" ns] by (auto simp: fresh_def)

text \<open>Its state is the batches and the bitmaps that are allocated; its model says one letter.\<close>

definition sample_llama :: "(nat list \<times> nat list, bool, unit) llama" where
  "sample_llama =
     \<lparr>ll_template = (\<lambda>t msgs n. let s = sample_template t msgs in (int (length s), resize n s)),
      ll_tokenize = (\<lambda>p n. let ks = sample_tokens p in if length ks \<le> n then (int (length ks), ks) else (- int (length ks), [])),
      ll_clear = (\<lambda>l. l), ll_sampler = (\<lambda>seed l. l), ll_free_sampler = (\<lambda>l. l), ll_decode = (\<lambda>b l. (l, 0)),
      ll_sample = (\<lambda>l. (l, 97)), ll_accept = (\<lambda>token l. l), ll_eog = (\<lambda>token. False),
      ll_piece = (\<lambda>token n. (int (min 1 n), replicate n (CHR ''a''))), mm_marker = ''<__media__>'',
      mm_bitmap = (\<lambda>p (bs, ms). if p = [] then ((bs, ms), None) else ((bs, fresh ms # ms), Some (fresh ms))),
      mm_free_bitmap = (\<lambda>b (bs, ms). (bs, removeAll b ms)), mm_tokenize = (\<lambda>p b l. (l, 0, [True, False, True])),
      mm_is_text = (\<lambda>k. k), mm_eval = (\<lambda>k p n x l. (l, 0, p + 1)), mm_batch = (\<lambda>(bs, ms). ((fresh bs # bs, ms), fresh bs)),
      mm_free_batch = (\<lambda>b (bs, ms). (removeAll b bs, ms)), mm_add = (\<lambda>b k l. (l, 0)), mm_encode = (\<lambda>b l. (l, 0)),
      mm_embd = (\<lambda>b k l. Some ()), mm_decode = (\<lambda>k e p n l. (l, 0, p + 1))\<rparr>"

lemma sample_promises:
  "fills_template sample_llama sample_template" "fills_tokens sample_llama sample_tokens" "fills_piece sample_llama"
  by (simp_all add: fills_template_def fills_tokens_def fills_piece_def sample_llama_def Let_def resize_def)

lemma sample_accounts: "accounts sample_llama (\<lambda>l. set (fst l)) (\<lambda>l. set (snd l))"
  by (auto simp: accounts_def sample_llama_def fresh_new split: if_splits prod.splits)

theorem prompt_is_covered_witness:
  "\<exists>bs. concat bs = sample_tokens (''<>'' @ ''system:be'' @ [CHR 0x0A] @ ''user:hi'' @ [CHR 0x0A])
     \<and> list_all (\<lambda>b. b \<noteq> [] \<and> length b \<le> 4) bs
     \<and> run_text_prompt sample_llama ''<>'' 4 ''be'' [(''user'', ''hi'')] ([], []) = decode_all sample_llama bs ([], [])"
  using prompt_is_covered[OF sample_promises(1,2), of 4 "''<>''" "''be''" "[(''user'', ''hi'')]" "([], [])"]
  by (simp add: c_text_def messages_def sample_template_def sample_tokens_def Let_def)

definition spoken :: "string list" where
  "spoken = fst (snd (snd (run sample_llama (llama_adapter \<lparr>la_model = True, la_context = True, la_template = Some ''<>'', la_projector = True, la_eyes = True\<rparr> ''m'')
     7 3 None [] ''be'' [] ([], []))))"


theorem vision_pass_gives_back_witness:
  "\<exists>l' ok. run_vision_prompt sample_llama ''<>'' 4 ''be'' [(''user'', ''look'')] ''a.png'' ([3], [5]) = (l', ok)
     \<and> set (fst l') = {3} \<and> set (snd l') = {5}"
proof -
  obtain l' ok where r: "run_vision_prompt sample_llama ''<>'' 4 ''be'' [(''user'', ''look'')] ''a.png'' ([3], [5]) = (l', ok)" by fastforce
  from vision_pass_gives_back[OF sample_accounts r] r show ?thesis by auto
qed

text \<open>
  A model whose token carries more than the end of a tool call is not stopped by it: the text is
  compared at its end only.
\<close>

lemma merged_close_runs_on:
  "generate (sample_llama\<lparr>ll_piece := (\<lambda>token n. (13, tool_call_close @ [CHR 0x0A] @ replicate (n - 13) (CHR ''a'')))\<rparr>)
     None 2 0 [] [] l = (l, tool_call_close @ [CHR 0x0A] @ tool_call_close @ [CHR 0x0A],
       [tool_call_close @ [CHR 0x0A], tool_call_close @ [CHR 0x0A]], False)"
  by (simp add: sample_llama_def tool_call_close_def kPieceSize_def numeral_2_eq_2 suffix_def Let_def split: prod.splits)

end
