(* ===== verification/Pool_Carve.thy ===== *)
theory Pool_Carve
  imports Dragon_Hub Number_Text
begin

text \<open>
  The carve, \<^verbatim>\<open>src/scripts/dragoncache_carve.cpp\<close>: it reserves huge pages, mounts the file system,
  makes the pool that \<open>Dragon_Hub\<close> attaches to, and copies the models beside it; and it verifies and
  releases what it made.  What the operating system answers is an argument.  Of the pool the model has
  the header and the two rings, not the three state slots and the work areas; the lines of a carve on
  the terminal are left out, those of the reports are not.
\<close>

section \<open>Names and numbers\<close>

definition kPoolPath :: string where "kPoolPath = ''/mnt/huge/lina_pool''"
definition kHugetlbfs :: string where "kHugetlbfs = ''/mnt/huge''"
definition kModelQwenSrc :: string where "kModelQwenSrc = ''/home/server/models/lina-local/Qwen2-VL-2B-Instruct-Q6_K.gguf''"
definition kModelMmprojSrc :: string where "kModelMmprojSrc = ''/home/server/models/lina-local/mmproj-Qwen2-VL-2B-Instruct-f16.gguf''"
definition kHeadroomPages :: u64 where "kHeadroomPages = 96"
definition kGgufMagic :: u32 where "kGgufMagic = 0x46554747"
definition MODEL_FILE_QWEN :: string where "MODEL_FILE_QWEN = ''/mnt/huge/lina_model.gguf''"
definition MODEL_FILE_MMPROJ :: string where "MODEL_FILE_MMPROJ = ''/mnt/huge/lina_mmproj.gguf''"

section \<open>The machine\<close>

text \<open>
  The number of huge pages, the lines of \<^verbatim>\<open>/proc/mounts\<close>, the pool file with its size, the other files by
  name, and the text of the address map.
\<close>

record machine_state =
  ms_pages :: u64
  ms_mounts :: "string list"
  ms_pool :: "(u64 \<times> pool) option"
  ms_files :: "string \<Rightarrow> u8 list option"
  ms_map :: "string option"

text \<open>
  What the system answers: whether the user is root, whether the files of \<^verbatim>\<open>/sys\<close> can be read and
  written and what it makes of a number written there, the line of a mount and the lines that an unmount leaves, whether a file can be
  removed, opened, cut to a size, mapped, read, and how many bytes \<^verbatim>\<open>fread\<close> gives at a place.
\<close>

record carve_os =
  co_root :: bool
  co_sysfs_reads :: bool
  co_sysfs_writes :: bool
  co_grant :: "u64 \<Rightarrow> u64"
  co_free :: u64
  co_mount :: "string option"
  co_umount :: "(string list \<Rightarrow> string list) option"
  co_unlinks :: "string \<Rightarrow> bool"
  co_opens :: "string \<Rightarrow> bool"
  co_truncates :: "string \<Rightarrow> bool"
  co_maps :: "string \<Rightarrow> bool"
  co_fopens :: "string \<Rightarrow> bool"
  co_reads :: "string \<Rightarrow> nat \<Rightarrow> nat"
  co_map_opens :: bool

definition file_size :: "string \<Rightarrow> machine_state \<Rightarrow> nat" where
  "file_size path s =
     (if path = kPoolPath then (case ms_pool s of None \<Rightarrow> 0 | Some (n, p) \<Rightarrow> unat n)
      else case ms_files s path of None \<Rightarrow> 0 | Some bytes \<Rightarrow> length bytes)"

definition file_bytes :: "string \<Rightarrow> machine_state \<Rightarrow> u8 list" where
  "file_bytes path s = (case ms_files s path of None \<Rightarrow> [] | Some bytes \<Rightarrow> bytes)"

definition write_sysfs :: "carve_os \<Rightarrow> u64 \<Rightarrow> machine_state \<Rightarrow> machine_state \<times> bool" where
  "write_sysfs os value s = (if co_sysfs_writes os then (s\<lparr>ms_pages := co_grant os value\<rparr>, True) else (s, False))"

definition read_sysfs :: "carve_os \<Rightarrow> machine_state \<Rightarrow> u64" where
  "read_sysfs os s = (if co_sysfs_reads os then ms_pages s else 0)"

definition is_mounted :: "string \<Rightarrow> machine_state \<Rightarrow> bool" where
  "is_mounted path s = list_ex (\<lambda>line. find0 path line \<noteq> None \<and> find0 ''hugetlbfs'' line \<noteq> None) (ms_mounts s)"

definition reserve_pages :: "carve_os \<Rightarrow> u64 \<Rightarrow> machine_state \<Rightarrow> machine_state" where
  "reserve_pages os total_pages s =
     (let target = total_pages + kHeadroomPages; current = read_sysfs os s
      in if current < target then fst (write_sysfs os target s) else s)"

definition mount_hugetlbfs :: "carve_os \<Rightarrow> machine_state \<Rightarrow> machine_state \<times> bool" where
  "mount_hugetlbfs os s =
     (if is_mounted kHugetlbfs s then (s, True)
      else case co_mount os of None \<Rightarrow> (s, False) | Some line \<Rightarrow> (s\<lparr>ms_mounts := ms_mounts s @ [line]\<rparr>, True))"

section \<open>A model\<close>

definition kCopyChunk :: nat where "kCopyChunk = 2097152"

function copy_loop :: "(nat \<Rightarrow> nat) \<Rightarrow> u8 list \<Rightarrow> nat \<Rightarrow> u8 list \<Rightarrow> u8 list" where
  "copy_loop reads src written out =
     (if written < length src then
        let want = min kCopyChunk (length src - written); got = min (reads written) want
        in if got = 0 then out else copy_loop reads src (written + got) (out @ take got (drop written src))
      else out)"
  by auto
termination by (relation "measure (\<lambda>(r, src, written, out). length src - written)") (auto simp: Let_def)

declare copy_loop.simps [simp del]

definition set_file :: "string \<Rightarrow> u8 list option \<Rightarrow> machine_state \<Rightarrow> machine_state" where
  "set_file path content s = s\<lparr>ms_files := (ms_files s)(path := content)\<rparr>"

definition place_model :: "carve_os \<Rightarrow> string \<Rightarrow> string \<Rightarrow> u64 \<Rightarrow> machine_state \<Rightarrow> machine_state \<times> bool" where
  "place_model os dst_path src_path pages s =
     (let placed = unat (pages * PAGE_2M); src_size = file_size src_path s in
      if src_size = 0 then (s, False)
      else if placed < src_size then (s, False)
      else
        let s1 = (if co_unlinks os dst_path then set_file dst_path None s else s) in
        if \<not> co_opens os dst_path then (s1, False) else
        let s2 = set_file dst_path (Some []) s1 in
        if \<not> co_truncates os dst_path then (s2, False) else
        let s3 = set_file dst_path (Some (replicate placed 0)) s2 in
        if \<not> co_maps os dst_path then (s3, False) else
        if \<not> co_fopens os src_path then (s3, False) else
        let out = copy_loop (co_reads os src_path) (file_bytes src_path s) 0 []
        in (set_file dst_path (Some (out @ replicate (placed - length out) 0)) s3, True))"

section \<open>The pool\<close>

definition zero_pool :: pool where
  "zero_pool = \<lparr>hdr = \<lparr>global_clock = 0, system_status = 0, spoke_health = 0, magic = 0\<rparr>, tx_region = empty_ring, rx_region = empty_ring\<rparr>"

text \<open>The bytes of a ring that are at a multiple of a huge page, and its first two megabytes.\<close>

definition touch_ring :: "u64 \<Rightarrow> ring \<Rightarrow> ring" where
  "touch_ring addr r =
     r\<lparr>payload := (\<lambda>i. if i < unat RING_PAYLOAD_SIZE \<and> (unat addr + 128 + i) mod unat PAGE_2M = 0 then 0 else payload r i)\<rparr>"

definition zero_ring :: "ring \<Rightarrow> ring" where
  "zero_ring r = \<lparr>head = 0, tail = 0, payload = (\<lambda>i. if i < unat PAGE_2M - 128 then 0 else payload r i)\<rparr>"

definition boot_header :: "dragon_map \<Rightarrow> dragon_map" where
  "boot_header dm = dm\<lparr>global_clock := 0, system_status := STATUS_BOOTING, spoke_health := 0, magic := DRAGON_MAGIC\<rparr>"

text \<open>The first byte of the header, which the touch of the first page sets, is the lowest of the clock.\<close>

definition touch_header :: "dragon_map \<Rightarrow> dragon_map" where
  "touch_header dm = dm\<lparr>global_clock := global_clock dm AND NOT 0xff\<rparr>"

definition carve_pool :: "pool \<Rightarrow> pool" where
  "carve_pool p =
     (let p1 = p\<lparr>hdr := touch_header (boot_header (hdr p)), tx_region := touch_ring ADDR_TX_RING (tx_region p),
                 rx_region := touch_ring ADDR_RX_RING (rx_region p)\<rparr>;
          p2 = p1\<lparr>tx_region := zero_ring (tx_region p1), rx_region := zero_ring (rx_region p1)\<rparr>
      in p2\<lparr>hdr := dragonmap_set_live (hdr p2)\<rparr>)"

definition map_line :: "string \<Rightarrow> string \<Rightarrow> string" where
  "map_line key value = ''DRAGONCACHE_'' @ key @ ''='' @ value @ [CHR 0x0A]"

definition u64_text :: "u64 \<Rightarrow> string" where "u64_text w = string_of_nat (unat w)"

definition address_map :: string where
  "address_map =
     ''# DragonCache Address Map (v2 '' @ em_dash @ '' LINA Core Substrate)'' @ [CHR 0x0A]
     @ ''# Generated by dragoncache_carve on carve'' @ [CHR 0x0A]
     @ ''# Pool: '' @ u64_text (TOTAL_POOL_SIZE div 1024 div 1024) @ '' MiB ('' @ u64_text (TOTAL_POOL_SIZE div PAGE_2M) @ '' huge pages)'' @ [CHR 0x0A]
     @ map_line ''POOL_SIZE'' (u64_text TOTAL_POOL_SIZE) @ map_line ''POOL_FILE'' kPoolPath
     @ map_line ''HEADER_OFFSET'' (u64_text HEADER_OFFSET) @ map_line ''HEADER_SIZE'' (u64_text HEADER_SIZE)
     @ map_line ''MODULE_OFFSET'' (u64_text MODULE_OFFSET) @ map_line ''MODULE_SIZE'' (u64_text MODULE_SIZE)
     @ map_line ''SLOT_SERVICE_STATE'' (u64_text ADDR_SERVICE_STATE) @ map_line ''SLOT_VALUE_STATE'' (u64_text ADDR_VALUE_STATE)
     @ map_line ''SLOT_MEMORY_STATE'' (u64_text ADDR_MEMORY_STATE)
     @ map_line ''TX_RING_OFFSET'' (u64_text ADDR_TX_RING) @ map_line ''TX_RING_SIZE'' (u64_text TX_RING_SIZE)
     @ map_line ''RX_RING_OFFSET'' (u64_text ADDR_RX_RING) @ map_line ''RX_RING_SIZE'' (u64_text RX_RING_SIZE)
     @ map_line ''WORK_AREA_OFFSET'' (u64_text (MODULE_OFFSET + WORK_AREA_OFFSET)) @ map_line ''WORK_AREA_SIZE'' (u64_text WORK_AREA_SIZE)
     @ map_line ''MODEL_QWEN'' MODEL_FILE_QWEN @ map_line ''MODEL_MMPROJ'' MODEL_FILE_MMPROJ
     @ map_line ''TOTAL_CARVE_PAGES'' (u64_text TOTAL_CARVE_PAGES)"

definition write_address_map :: "carve_os \<Rightarrow> machine_state \<Rightarrow> machine_state" where
  "write_address_map os s = (if co_map_opens os then s\<lparr>ms_map := Some address_map\<rparr> else s)"

text \<open>The pool file after \<^verbatim>\<open>unlink\<close> and \<^verbatim>\<open>open\<close>: a new empty one, or the old one when it could not be removed.\<close>

definition open_pool :: "carve_os \<Rightarrow> machine_state \<Rightarrow> machine_state \<times> (u64 \<times> pool) option" where
  "open_pool os s =
     (let s1 = (if co_unlinks os kPoolPath then s\<lparr>ms_pool := None\<rparr> else s) in
      if \<not> co_opens os kPoolPath then (s1, None)
      else case ms_pool s1 of
             None \<Rightarrow> (s1\<lparr>ms_pool := Some (0, zero_pool)\<rparr>, Some (0, zero_pool))
           | Some sp \<Rightarrow> (s1, Some sp))"

definition do_carve :: "carve_os \<Rightarrow> machine_state \<Rightarrow> machine_state \<times> int" where
  "do_carve os s =
     (if \<not> co_root os then (s, 1) else
      let s1 = reserve_pages os TOTAL_CARVE_PAGES s; (s2, ok) = mount_hugetlbfs os s1 in
      if \<not> ok then (s2, 1) else
      case open_pool os s2 of
        (s3, None) \<Rightarrow> (s3, 1)
      | (s3, Some (n, p)) \<Rightarrow>
          if \<not> co_truncates os kPoolPath then (s3, 1) else
          let s4 = s3\<lparr>ms_pool := Some (TOTAL_POOL_SIZE, p)\<rparr> in
          if \<not> co_maps os kPoolPath then (s4, 1) else
          let s5 = s4\<lparr>ms_pool := Some (TOTAL_POOL_SIZE, carve_pool p)\<rparr>;
              (s6, qwen) = place_model os MODEL_FILE_QWEN kModelQwenSrc MODEL_QWEN_PAGES s5
          in if \<not> qwen then (s6, 1) else
             let (s7, mmproj) = place_model os MODEL_FILE_MMPROJ kModelMmprojSrc MODEL_MMPROJ_PAGES s6
             in if \<not> mmproj then (s7, 1) else (write_address_map os s7, 0))"

section \<open>Reports\<close>

definition pad_right :: "nat \<Rightarrow> string \<Rightarrow> string" where "pad_right n s = s @ replicate (n - length s) CHR '' ''"

definition mib :: "nat \<Rightarrow> string" where "mib n = string_of_nat (n div 1024 div 1024)"

definition rule_mark :: string where "rule_mark = map char_of [226, 148, 128, 226, 148, 128 :: nat]"

definition gguf_line :: "string \<Rightarrow> string \<Rightarrow> string \<Rightarrow> string" where
  "gguf_line label path what = ''  '' @ pad_right 8 label @ '' '' @ path @ '' '' @ em_dash @ '' '' @ what"

definition check_gguf :: "carve_os \<Rightarrow> string \<Rightarrow> string \<Rightarrow> machine_state \<Rightarrow> string \<times> bool" where
  "check_gguf os path label s =
     (let n = file_size path s in
      if n = 0 then (gguf_line label path ''MISSING'', False)
      else if \<not> co_fopens os path then (gguf_line label path ''cannot open'', False)
      else let bytes = take (min (co_reads os path 0) 4) (file_bytes path s) in
        if length bytes \<noteq> 4 then (gguf_line label path ''unreadable header'', False)
        else let m = ucast (bytes ! 0) OR push_bit 8 (ucast (bytes ! 1)) OR push_bit 16 (ucast (bytes ! 2)) OR push_bit 24 (ucast (bytes ! 3));
                 ok = (m = kGgufMagic)
             in (gguf_line label path ((if ok then ''GGUF ok'' else ''MAGIC MISMATCH'') @ '' ('' @ mib n @ '' MiB)''), ok))"

fun hex_of_nat :: "nat \<Rightarrow> string" where
  "hex_of_nat n = (if n < 16 then [''0123456789abcdef'' ! n] else hex_of_nat (n div 16) @ [''0123456789abcdef'' ! (n mod 16)])"

declare hex_of_nat.simps [simp del]

definition huge_used :: "u64 \<Rightarrow> u64 \<Rightarrow> u64" where "huge_used all_pages free = (if free < all_pages then all_pages - free else 0)"

definition free_pages :: "carve_os \<Rightarrow> u64" where "free_pages os = (if co_sysfs_reads os then co_free os else 0)"

definition huge_text :: "carve_os \<Rightarrow> machine_state \<Rightarrow> string" where
  "huge_text os s =
     '' total, '' @ u64_text (huge_used (read_sysfs os s) (free_pages os)) @ '' used, '' @ u64_text (free_pages os) @ '' free''"

text \<open>The line of the header, and whether it passes; there is no line when the pool cannot be mapped.\<close>

definition header_line :: "carve_os \<Rightarrow> machine_state \<Rightarrow> string list \<times> bool" where
  "header_line os s =
     (if co_opens os kPoolPath \<and> ms_pool s \<noteq> None then
        (if co_maps os kPoolPath then
           (let h = hdr (snd (the (ms_pool s))); ok = (magic h = DRAGON_MAGIC)
            in ([''  Header:   magic='' @ (if ok then ''ok'' else ''BAD'') @ '' status='' @ string_of_nat (unat (system_status h))
                 @ '' health=0x'' @ hex_of_nat (unat (spoke_health h)) @ '' clock='' @ u64_text (global_clock h)], ok))
         else ([], True))
      else ([''  Header:   cannot open pool (need root?)''], False))"

definition do_verify :: "carve_os \<Rightarrow> machine_state \<Rightarrow> string list \<times> int" where
  "do_verify os s =
     (let pool_size = file_size kPoolPath s; size_ok = (pool_size = unat TOTAL_POOL_SIZE);
          (header, header_ok) = header_line os s;
          (qwen, qwen_ok) = check_gguf os MODEL_FILE_QWEN ''Qwen'' s;
          (mmproj, mmproj_ok) = check_gguf os MODEL_FILE_MMPROJ ''mmproj'' s;
          all_ok = (size_ok \<and> header_ok \<and> qwen_ok \<and> mmproj_ok)
      in ([rule_mark @ '' DragonCache Verify (v2) '' @ rule_mark,
           ''  Pool:     '' @ kPoolPath @ '' '' @ em_dash @ '' '' @ (if size_ok then ''size ok'' else ''SIZE MISMATCH'') @ '' ('' @ mib pool_size @ '' MiB)'']
          @ header @ [qwen, mmproj, ''  Huge:     '' @ u64_text (read_sysfs os s) @ '' x 2M'' @ huge_text os s,
             if all_ok then ''[+] verify: ALL OK'' else ''[-] verify: FAILURES''],
          if all_ok then 0 else 1))"

definition do_status :: "carve_os \<Rightarrow> machine_state \<Rightarrow> string list \<times> int" where
  "do_status os s =
     (let pool_size = file_size kPoolPath s; all_pages = read_sysfs os s
      in ([rule_mark @ '' DragonCache Status (v2) '' @ rule_mark,
           ''  Pool:     '' @ kPoolPath @ '' ('' @ mib pool_size @ '' MiB)'' @ (if pool_size \<noteq> 0 then [] else '' '' @ em_dash @ '' NOT PRESENT''),
           fst (check_gguf os MODEL_FILE_QWEN ''Qwen'' s), fst (check_gguf os MODEL_FILE_MMPROJ ''mmproj'' s),
           ''  hugetlbfs: '' @ (if is_mounted kHugetlbfs s then ''mounted'' else ''NOT MOUNTED''),
           ''  Huge:     '' @ u64_text all_pages @ '' x 2M = '' @ fixed_string 1 (ddiv (dmul (rnd (of_nat (unat all_pages))) (Fin 2)) (Fin 1024)) @ '' GiB''
           @ huge_text os s], 0))"

section \<open>The release\<close>

definition unlink_path :: "carve_os \<Rightarrow> string \<Rightarrow> machine_state \<Rightarrow> machine_state" where
  "unlink_path os path s =
     (if \<not> co_unlinks os path then s
      else if path = kPoolPath then s\<lparr>ms_pool := None\<rparr> else set_file path None s)"

definition do_release :: "carve_os \<Rightarrow> machine_state \<Rightarrow> machine_state \<times> int" where
  "do_release os s =
     (if \<not> co_root os then (s, 1) else
      let s1 = foldl (\<lambda>s path. unlink_path os path s) s [kPoolPath, MODEL_FILE_QWEN, MODEL_FILE_MMPROJ];
          s2 = (if is_mounted kHugetlbfs s1
                then (case co_umount os of None \<Rightarrow> s1 | Some f \<Rightarrow> s1\<lparr>ms_mounts := f (ms_mounts s1)\<rparr>) else s1);
          s3 = fst (write_sysfs os 0 s2)
      in (s3\<lparr>ms_map := None\<rparr>, 0))"

definition carve_main :: "carve_os \<Rightarrow> string list \<Rightarrow> machine_state \<Rightarrow> machine_state \<times> int" where
  "carve_main os argv s =
     (if 1 < length argv \<and> argv ! 1 = ''--verify'' then (s, snd (do_verify os s))
      else if 1 < length argv \<and> argv ! 1 = ''--status'' then (s, snd (do_status os s))
      else if 1 < length argv \<and> argv ! 1 = ''--release'' then do_release os s
      else do_carve os s)"

section \<open>What a carve makes\<close>

text \<open>A pool as a carve leaves it: live, one tick old, no spoke ready, and both rings without a frame.\<close>

definition carved :: "pool \<Rightarrow> bool" where
  "carved p \<longleftrightarrow> hdr p = \<lparr>global_clock = 1, system_status = STATUS_LIVE, spoke_health = 0, magic = DRAGON_MAGIC\<rparr>
     \<and> ring_rel 1 (tx_region p) [] \<and> ring_rel 1 (rx_region p) []"

lemma carve_pool_carved: "carved (carve_pool p)"
  by (simp add: carved_def carve_pool_def Let_def boot_header_def touch_header_def dragonmap_set_live_def tick_def zero_ring_def
      ring_rel_def ring_holds_def)

lemma copy_takes:
  "written \<le> length src \<Longrightarrow> \<exists>k. written \<le> k \<and> k \<le> length src \<and> copy_loop reads src written out = out @ take (k - written) (drop written src)
     \<and> ((\<forall>i<length src. reads i \<noteq> 0) \<longrightarrow> k = length src)"
proof (induction reads src written out rule: copy_loop.induct)
  case (1 reads src written out)
  let ?got = "min (reads written) (min kCopyChunk (length src - written))"
  show ?case
  proof (cases "written < length src \<and> ?got \<noteq> 0")
    case True
    then have more: "written < length src" "?got \<noteq> 0" by simp_all
    then have "written + ?got \<le> length src" by linarith
    note IH = 1(1)[OF more(1) refl refl more(2) this]
    from IH obtain k where
      k: "written + ?got \<le> k" "k \<le> length src"
         "copy_loop reads src (written + ?got) (out @ take ?got (drop written src))
            = (out @ take ?got (drop written src)) @ take (k - (written + ?got)) (drop (written + ?got) src)"
         "(\<forall>i<length src. reads i \<noteq> 0) \<longrightarrow> k = length src" by blast
    have split: "k - written = ?got + (k - (written + ?got))" using k(1) by linarith
    have parts: "take (k - written) (drop written src) = take ?got (drop written src) @ take (k - (written + ?got)) (drop (written + ?got) src)"
      by (subst split, subst take_add) (simp only: drop_drop add.commute)
    have "copy_loop reads src written out = out @ take (k - written) (drop written src)"
      unfolding copy_loop.simps[of reads src written out] if_P[OF more(1)] Let_def if_not_P[OF more(2)] parts k(3) append_assoc ..
    then show ?thesis using k(2,4) le_trans[OF le_add1 k(1)] by blast
  next
    case False
    have "copy_loop reads src written out = out"
    proof (cases "written < length src")
      case True
      with False have "?got = 0" by blast
      then show ?thesis unfolding copy_loop.simps[of reads src written out] Let_def if_P[OF True] by (rule if_P)
    next
      case False
      show ?thesis unfolding copy_loop.simps[of reads src written out] by (rule if_not_P[OF False])
    qed
    moreover have "(\<forall>i<length src. reads i \<noteq> 0) \<longrightarrow> written = length src"
    proof
      assume all: "\<forall>i<length src. reads i \<noteq> 0"
      show "written = length src"
      proof (rule ccontr)
        assume "written \<noteq> length src"
        with 1(2) have w: "written < length src" by simp
        with False have "?got = 0" by blast
        then show False using all w by (auto simp: kCopyChunk_def min_def split: if_splits)
      qed
    qed
    ultimately show ?thesis using 1(2) by (intro exI[of _ written]) simp
  qed
qed

definition copied :: "carve_os \<Rightarrow> string \<Rightarrow> u8 list \<Rightarrow> nat \<Rightarrow> u8 list \<Rightarrow> bool" where
  "copied os src_path src placed content \<longleftrightarrow>
     length content = placed \<and> (\<exists>k\<le>length src. content = take k src @ replicate (placed - k) 0
        \<and> ((\<forall>i<length src. co_reads os src_path i \<noteq> 0) \<longrightarrow> k = length src))"

lemma set_file_fields [simp]:
  "ms_pool (set_file f c s) = ms_pool s" "ms_mounts (set_file f c s) = ms_mounts s" "ms_pages (set_file f c s) = ms_pages s"
  "ms_map (set_file f c s) = ms_map s" "ms_files (set_file f c s) g = (if g = f then c else ms_files s g)"
  by (simp_all add: set_file_def)

lemma place_model_fields:
  "ms_pool (fst (place_model os dst src pages s)) = ms_pool s" "ms_mounts (fst (place_model os dst src pages s)) = ms_mounts s"
  "ms_pages (fst (place_model os dst src pages s)) = ms_pages s" "ms_map (fst (place_model os dst src pages s)) = ms_map s"
  "path \<noteq> dst \<Longrightarrow> ms_files (fst (place_model os dst src pages s)) path = ms_files s path"
  by (simp_all add: place_model_def Let_def)

lemma place_model_facts:
  assumes "place_model os dst src pages s = (s', ok)" "src \<noteq> kPoolPath"
  shows "ok \<Longrightarrow> file_bytes src s \<noteq> [] \<and> length (file_bytes src s) \<le> unat (pages * PAGE_2M)
       \<and> (\<exists>content. ms_files s' dst = Some content \<and> copied os src (file_bytes src s) (unat (pages * PAGE_2M)) content)"
proof -
  have n: "file_size src s = length (file_bytes src s)" using assms(2) by (simp add: file_size_def file_bytes_def split: option.splits)
  assume ok: "ok"
  define placed where "placed = unat (pages * PAGE_2M)"
  let ?src = "file_bytes src s"
  let ?out = "copy_loop (co_reads os src) ?src 0 []"
  obtain k where k: "k \<le> length ?src" "?out = take k ?src" "(\<forall>i<length ?src. co_reads os src i \<noteq> 0) \<longrightarrow> k = length ?src"
    using copy_takes[of 0 ?src "co_reads os src" "[]"] by auto
  note e = assms(1)[unfolded place_model_def, folded placed_def, unfolded Let_def n]
  from ok e have p: "length ?src \<noteq> 0" "\<not> placed < length ?src" "ms_files s' dst = Some (?out @ replicate (placed - length ?out) 0)"
    by (simp_all split: if_splits) (erule subst, simp)+
  have "copied os src ?src placed (?out @ replicate (placed - length ?out) 0)"
    unfolding copied_def k(2) using k(1,3) p(2) by (intro conjI exI[of _ k]) (simp_all add: min_absorb2)
  then show "?src \<noteq> [] \<and> length ?src \<le> unat (pages * PAGE_2M) \<and> (\<exists>content. ms_files s' dst = Some content \<and> copied os src ?src (unat (pages * PAGE_2M)) content)"
    using p unfolding placed_def by simp
qed

section \<open>A carve that succeeds\<close>

lemmas name_defs = kPoolPath_def kModelQwenSrc_def kModelMmprojSrc_def MODEL_FILE_QWEN_def MODEL_FILE_MMPROJ_def

lemma names_differ [simp]:
  "kModelQwenSrc \<noteq> kPoolPath" "kModelMmprojSrc \<noteq> kPoolPath" "MODEL_FILE_QWEN \<noteq> kPoolPath" "MODEL_FILE_MMPROJ \<noteq> kPoolPath"
  "MODEL_FILE_QWEN \<noteq> MODEL_FILE_MMPROJ" "MODEL_FILE_MMPROJ \<noteq> MODEL_FILE_QWEN" "kModelMmprojSrc \<noteq> MODEL_FILE_QWEN"
  "MODEL_FILE_QWEN \<noteq> kModelMmprojSrc" "kModelQwenSrc \<noteq> MODEL_FILE_QWEN" "kModelMmprojSrc \<noteq> MODEL_FILE_MMPROJ"
  "kPoolPath \<noteq> MODEL_FILE_QWEN" "kPoolPath \<noteq> MODEL_FILE_MMPROJ"
  by (simp_all add: name_defs)

lemma early_fields:
  "ms_files (reserve_pages os n s) = ms_files s" "ms_pool (reserve_pages os n s) = ms_pool s" "ms_mounts (reserve_pages os n s) = ms_mounts s"
  "ms_files (fst (mount_hugetlbfs os s)) = ms_files s" "ms_files (fst (open_pool os s)) = ms_files s"
  by (auto simp: reserve_pages_def write_sysfs_def mount_hugetlbfs_def open_pool_def Let_def split: option.splits)

text \<open>The two models of a carve, placed after the pool was made.\<close>

definition place_both :: "carve_os \<Rightarrow> machine_state \<Rightarrow> machine_state \<times> int" where
  "place_both os s =
     (let (s6, qwen) = place_model os MODEL_FILE_QWEN kModelQwenSrc MODEL_QWEN_PAGES s
      in if \<not> qwen then (s6, 1) else
         let (s7, mmproj) = place_model os MODEL_FILE_MMPROJ kModelMmprojSrc MODEL_MMPROJ_PAGES s6
         in if \<not> mmproj then (s7, 1) else (write_address_map os s7, 0))"

lemma carve_reaches_models:
  assumes "do_carve os s = (s', 0)"
  shows "\<exists>s5 p. ms_pool s5 = Some (TOTAL_POOL_SIZE, carve_pool p) \<and> ms_files s5 = ms_files s \<and> place_both os s5 = (s', 0)
     \<and> co_opens os kPoolPath \<and> co_maps os kPoolPath"
proof -
  obtain s2 ok where m: "mount_hugetlbfs os (reserve_pages os TOTAL_CARVE_PAGES s) = (s2, ok)" by fastforce
  obtain s3 r where o: "open_pool os s2 = (s3, r)" by fastforce
  have f: "ms_files s3 = ms_files s" using early_fields m o by (metis fst_conv)
  note e = assms[unfolded do_carve_def Let_def m prod.case o, folded place_both_def[unfolded Let_def]]
  obtain n p where r: "r = Some (n, p)" using e by (cases r) (auto split: if_splits)
  have "co_opens os kPoolPath" using o r by (auto simp: open_pool_def Let_def split: if_splits)
  then show ?thesis using e r f
    by (intro exI[of _ "s3\<lparr>ms_pool := Some (TOTAL_POOL_SIZE, carve_pool p)\<rparr>"] exI[of _ p]) (auto split: if_splits)
qed

lemma map_fields: "ms_pool (write_address_map os s) = ms_pool s" "ms_files (write_address_map os s) = ms_files s"
  by (simp_all add: write_address_map_def)

lemma models_placed:
  assumes "place_both os s = (s', 0)"
  shows "ms_pool s' = ms_pool s
     \<and> (\<exists>c. ms_files s' MODEL_FILE_QWEN = Some c \<and> copied os kModelQwenSrc (file_bytes kModelQwenSrc s) (unat (MODEL_QWEN_PAGES * PAGE_2M)) c
         \<and> length (file_bytes kModelQwenSrc s) \<le> unat (MODEL_QWEN_PAGES * PAGE_2M))
     \<and> (\<exists>c. ms_files s' MODEL_FILE_MMPROJ = Some c \<and> copied os kModelMmprojSrc (file_bytes kModelMmprojSrc s) (unat (MODEL_MMPROJ_PAGES * PAGE_2M)) c
         \<and> length (file_bytes kModelMmprojSrc s) \<le> unat (MODEL_MMPROJ_PAGES * PAGE_2M))"
proof -
  obtain s6 a where q: "place_model os MODEL_FILE_QWEN kModelQwenSrc MODEL_QWEN_PAGES s = (s6, a)" by fastforce
  obtain s7 b where m: "place_model os MODEL_FILE_MMPROJ kModelMmprojSrc MODEL_MMPROJ_PAGES s6 = (s7, b)" by fastforce
  have ab: "a" "b" "s' = write_address_map os s7"
    using assms by (auto simp: place_both_def q m split: if_splits)
  have s6: "ms_pool s6 = ms_pool s" "\<And>path. path \<noteq> MODEL_FILE_QWEN \<Longrightarrow> ms_files s6 path = ms_files s path"
    using place_model_fields(1,5)[where os = os and dst = MODEL_FILE_QWEN and src = kModelQwenSrc and pages = MODEL_QWEN_PAGES and s = s] q by simp_all
  have s7: "ms_pool s7 = ms_pool s6" "\<And>path. path \<noteq> MODEL_FILE_MMPROJ \<Longrightarrow> ms_files s7 path = ms_files s6 path"
    using place_model_fields(1,5)[where os = os and dst = MODEL_FILE_MMPROJ and src = kModelMmprojSrc and pages = MODEL_MMPROJ_PAGES and s = s6] m by simp_all
  have src: "file_bytes kModelMmprojSrc s6 = file_bytes kModelMmprojSrc s" using s6(2) by (simp add: file_bytes_def)
  show ?thesis using place_model_facts[OF q _ ab(1)] place_model_facts[OF m _ ab(2)] s6(1) s7 ab(3) src
    by (auto simp: map_fields)
qed

text \<open>
  C22: what a carve leaves: when a carve reports success, whatever was there before, the pool file has
  its full size, its header is live with the magic and a clock of one, its rings hold no frame, and
  every process for which the file can be opened and mapped attaches to it; and each model file has
  its pages, the bytes that could be read of its source, all of them when no read gave nothing, and
  zeros.
\<close>

theorem carve_leaves_live_pool:
  assumes "do_carve os s = (s', 0)"
  shows "(\<exists>p. ms_pool s' = Some (TOTAL_POOL_SIZE, p) \<and> carved p
        \<and> (\<forall>size fd b. uint TOTAL_POOL_SIZE \<le> size \<and> 0 \<le> fd \<longrightarrow>
              (let (ok, h) = attach \<lparr>os_stat_size = Some size, os_open_fd = fd, os_mmap_base = Some b\<rparr> p new_hub
               in ok \<and> hub_status h p = STATUS_LIVE \<and> hub_clock h p = 1)))
     \<and> (\<exists>c. ms_files s' MODEL_FILE_QWEN = Some c \<and> copied os kModelQwenSrc (file_bytes kModelQwenSrc s) (unat (MODEL_QWEN_PAGES * PAGE_2M)) c)
     \<and> (\<exists>c. ms_files s' MODEL_FILE_MMPROJ = Some c \<and> copied os kModelMmprojSrc (file_bytes kModelMmprojSrc s) (unat (MODEL_MMPROJ_PAGES * PAGE_2M)) c)"
proof -
  obtain s5 p where c: "ms_pool s5 = Some (TOTAL_POOL_SIZE, carve_pool p)" "ms_files s5 = ms_files s" "place_both os s5 = (s', 0)"
    using carve_reaches_models[OF assms] by blast
  have b: "file_bytes path s5 = file_bytes path s" for path using c(2) by (simp add: file_bytes_def)
  have "let (ok, h) = attach \<lparr>os_stat_size = Some size, os_open_fd = fd, os_mmap_base = Some b\<rparr> (carve_pool p) new_hub
        in ok \<and> hub_status h (carve_pool p) = STATUS_LIVE \<and> hub_clock h (carve_pool p) = 1"
    if "uint TOTAL_POOL_SIZE \<le> size" "0 \<le> fd" for size fd b
    using that carve_pool_carved[of p]
    by (simp add: attach_def new_hub_def carved_def hub_status_def hub_clock_def dragonmap_status_def dragonmap_clock_def)
  then show ?thesis using models_placed[OF c(3)] c(1) carve_pool_carved[of p] by (auto simp: b)
qed

section \<open>A carve is verified\<close>

definition gguf :: "u8 list" where "gguf = [0x47, 0x47, 0x55, 0x46]"

lemma gguf_checks:
  assumes "ms_files s path = Some c" "copied os src bytes placed c" "take 4 bytes = gguf" "\<forall>i<length bytes. co_reads os src i \<noteq> 0"
    "length bytes \<le> placed" "path \<noteq> kPoolPath" "co_fopens os path" "4 \<le> co_reads os path 0"
  shows "snd (check_gguf os path label s)"
proof -
  have c: "c = bytes @ replicate (placed - length bytes) 0" using assms(2,4) by (auto simp: copied_def)
  have l: "4 \<le> length bytes" using arg_cong[OF assms(3), of length] by (simp add: gguf_def)
  have t: "take 4 c = gguf" using c l assms(3) by simp
  have n: "length c \<noteq> 0" using c l by auto
  have "min (co_reads os path 0) 4 = 4" using assms(8) by simp
  then show ?thesis using assms(1,6,7) t n
    by (simp add: check_gguf_def Let_def file_size_def file_bytes_def gguf_def kGgufMagic_def)
qed

text \<open>
  C33: a carve passes its verification: after a carve of two model files that begin with the GGUF magic
  and could be read to their ends, the verification reports no failure.
\<close>

theorem carve_verifies:
  assumes "do_carve os s = (s', 0)"
    and "\<forall>src\<in>{kModelQwenSrc, kModelMmprojSrc}. take 4 (file_bytes src s) = gguf \<and> (\<forall>i<length (file_bytes src s). co_reads os src i \<noteq> 0)"
    and "\<forall>dst\<in>{MODEL_FILE_QWEN, MODEL_FILE_MMPROJ}. co_fopens os dst \<and> 4 \<le> co_reads os dst 0"
  shows "snd (do_verify os s') = 0 \<and> last (fst (do_verify os s')) = ''[+] verify: ALL OK''"
proof -
  obtain s5 p where c: "ms_pool s5 = Some (TOTAL_POOL_SIZE, carve_pool p)" "ms_files s5 = ms_files s" "place_both os s5 = (s', 0)"
      "co_opens os kPoolPath" "co_maps os kPoolPath"
    using carve_reaches_models[OF assms(1)] by blast
  have b: "file_bytes path s5 = file_bytes path s" for path using c(2) by (simp add: file_bytes_def)
  note m = models_placed[OF c(3), unfolded b]
  have q: "snd (check_gguf os MODEL_FILE_QWEN l s')" for l
    using m assms(2,3) gguf_checks[of s' MODEL_FILE_QWEN _ os kModelQwenSrc "file_bytes kModelQwenSrc s"] by auto
  have v: "snd (check_gguf os MODEL_FILE_MMPROJ l s')" for l
    using m assms(2,3) gguf_checks[of s' MODEL_FILE_MMPROJ _ os kModelMmprojSrc "file_bytes kModelMmprojSrc s"] by auto
  have pool: "ms_pool s' = Some (TOTAL_POOL_SIZE, carve_pool p)" using m c(1) by simp
  have h: "snd (header_line os s')"
    using pool c(4,5) carve_pool_carved[of p] by (simp add: header_line_def Let_def carved_def)
  have size: "file_size kPoolPath s' = unat TOTAL_POOL_SIZE" by (simp add: file_size_def pool)
  show ?thesis using q v h size by (simp add: do_verify_def Let_def split_beta)
qed

section \<open>A carve that fails at a model\<close>

text \<open>
  The pool is live before the models are there: without them the carve reports a failure, and leaves a
  pool that hubs attach to.
\<close>

lemma failed_carve_stays_live:
  assumes "co_root os" "is_mounted kHugetlbfs s" "co_opens os kPoolPath" "co_truncates os kPoolPath" "co_maps os kPoolPath"
    and "file_bytes kModelQwenSrc s = []"
  shows "\<exists>s' p. do_carve os s = (s', 1) \<and> ms_pool s' = Some (TOTAL_POOL_SIZE, p) \<and> carved p"
proof -
  let ?s1 = "reserve_pages os TOTAL_CARVE_PAGES s"
  have m: "mount_hugetlbfs os ?s1 = (?s1, True)" using assms(2) by (simp add: mount_hugetlbfs_def is_mounted_def early_fields)
  obtain s3 n p where o: "open_pool os ?s1 = (s3, Some (n, p))"
    using assms(3) by (cases "ms_pool (if co_unlinks os kPoolPath then ?s1\<lparr>ms_pool := None\<rparr> else ?s1)")
      (auto simp: open_pool_def Let_def)
  let ?s5 = "s3\<lparr>ms_pool := Some (TOTAL_POOL_SIZE, carve_pool p)\<rparr>"
  have "ms_files s3 = ms_files s" using early_fields(1,5) o by (metis fst_conv)
  then have "file_size kModelQwenSrc ?s5 = 0" using assms(6) by (auto simp: file_size_def file_bytes_def split: option.splits)
  then have "place_model os MODEL_FILE_QWEN kModelQwenSrc MODEL_QWEN_PAGES ?s5 = (?s5, False)" by (simp add: place_model_def Let_def)
  then have "do_carve os s = (?s5, 1)" using assms m o by (simp add: do_carve_def Let_def)
  then show ?thesis using carve_pool_carved[of p] by simp
qed

section \<open>The release\<close>

text \<open>A release by root, on a system that lets it, leaves no pool, no model, no map, no mount and no pages.\<close>

lemma release_leaves_nothing:
  assumes "co_root os" "\<forall>path. co_unlinks os path" "co_sysfs_writes os" "co_grant os 0 = 0" "co_umount os = Some f"
    and "\<forall>ms. \<not> list_ex (\<lambda>line. find0 kHugetlbfs line \<noteq> None \<and> find0 ''hugetlbfs'' line \<noteq> None) (f ms)"
  shows "let s' = fst (do_release os s) in
    ms_pool s' = None \<and> ms_files s' MODEL_FILE_QWEN = None \<and> ms_files s' MODEL_FILE_MMPROJ = None \<and> ms_map s' = None
      \<and> \<not> is_mounted kHugetlbfs s' \<and> ms_pages s' = 0"
  using assms by (auto simp: do_release_def Let_def unlink_path_def write_sysfs_def is_mounted_def simp del: not_None_eq)

section \<open>A carve on a system that lets it\<close>

lemma place_model_works:
  assumes "src \<noteq> kPoolPath" "file_bytes src s \<noteq> []" "length (file_bytes src s) \<le> unat (pages * PAGE_2M)"
    and "co_opens os dst" "co_truncates os dst" "co_maps os dst" "co_fopens os src"
  shows "snd (place_model os dst src pages s)"
proof -
  define placed where "placed = unat (pages * PAGE_2M)"
  have n: "file_size src s = length (file_bytes src s)" using assms(1) by (simp add: file_size_def file_bytes_def split: option.splits)
  show ?thesis unfolding place_model_def placed_def[symmetric] using assms(2-7) n by (simp add: Let_def placed_def[symmetric])
qed

text \<open>
  A carve comes through when the system lets it: for root, with the file system mounted or
  mountable, files that can be opened, sized, mapped and read, and sources that are not empty and fit
  their pages, a carve reports success, whatever there was before.
\<close>

lemma carve_comes_through:
  assumes "co_root os" "is_mounted kHugetlbfs s \<or> co_mount os \<noteq> None"
    and "\<forall>path\<in>{kPoolPath, MODEL_FILE_QWEN, MODEL_FILE_MMPROJ}. co_opens os path \<and> co_truncates os path \<and> co_maps os path"
    and "co_fopens os kModelQwenSrc" "co_fopens os kModelMmprojSrc"
    and "0 < length (file_bytes kModelQwenSrc s)" "length (file_bytes kModelQwenSrc s) \<le> unat (MODEL_QWEN_PAGES * PAGE_2M)"
    and "0 < length (file_bytes kModelMmprojSrc s)" "length (file_bytes kModelMmprojSrc s) \<le> unat (MODEL_MMPROJ_PAGES * PAGE_2M)"
  shows "\<exists>s'. do_carve os s = (s', 0)"
proof -
  let ?s1 = "reserve_pages os TOTAL_CARVE_PAGES s"
  obtain s2 where m: "mount_hugetlbfs os ?s1 = (s2, True)"
  proof (cases "is_mounted kHugetlbfs ?s1")
    case True
    then show thesis using that[of ?s1] by (simp add: mount_hugetlbfs_def)
  next
    case False
    then obtain line where "co_mount os = Some line" using assms(2) by (auto simp: is_mounted_def early_fields)
    then show thesis using that False by (simp add: mount_hugetlbfs_def)
  qed
  obtain s3 n p where o: "open_pool os s2 = (s3, Some (n, p))"
    using assms(3) by (cases "ms_pool (if co_unlinks os kPoolPath then s2\<lparr>ms_pool := None\<rparr> else s2)")
      (auto simp: open_pool_def Let_def)
  let ?s5 = "s3\<lparr>ms_pool := Some (TOTAL_POOL_SIZE, carve_pool p)\<rparr>"
  have f: "ms_files s3 = ms_files s" using early_fields m o by (metis fst_conv)
  obtain s6 where q: "place_model os MODEL_FILE_QWEN kModelQwenSrc MODEL_QWEN_PAGES ?s5 = (s6, True)"
    using place_model_works[of kModelQwenSrc ?s5 MODEL_QWEN_PAGES os MODEL_FILE_QWEN] assms(3,4,6,7) f
    by (cases "place_model os MODEL_FILE_QWEN kModelQwenSrc MODEL_QWEN_PAGES ?s5") (auto simp: file_bytes_def)
  have b: "file_bytes kModelMmprojSrc s6 = file_bytes kModelMmprojSrc s"
    using place_model_fields(5)[where os = os and dst = MODEL_FILE_QWEN and src = kModelQwenSrc and pages = MODEL_QWEN_PAGES and s = ?s5
        and path = kModelMmprojSrc] q f by (simp add: file_bytes_def)
  obtain s7 where v: "place_model os MODEL_FILE_MMPROJ kModelMmprojSrc MODEL_MMPROJ_PAGES s6 = (s7, True)"
    using place_model_works[of kModelMmprojSrc s6 MODEL_MMPROJ_PAGES os MODEL_FILE_MMPROJ] assms(3,5,8,9) b
    by (cases "place_model os MODEL_FILE_MMPROJ kModelMmprojSrc MODEL_MMPROJ_PAGES s6") auto
  have "do_carve os s = (write_address_map os s7, 0)" using assms(1,3) m o q v by (simp add: do_carve_def Let_def)
  then show ?thesis by blast
qed

text \<open>A system that lets it, and two small models.\<close>

definition kind_os :: carve_os where
  "kind_os =
     \<lparr>co_root = True, co_sysfs_reads = True, co_sysfs_writes = True, co_grant = (\<lambda>n. n), co_free = 96,
      co_mount = Some ''none /mnt/huge hugetlbfs rw,relatime,pagesize=2M 0 0'', co_umount = Some (\<lambda>ms. []), co_unlinks = (\<lambda>_. True),
      co_opens = (\<lambda>_. True), co_truncates = (\<lambda>_. True), co_maps = (\<lambda>_. True), co_fopens = (\<lambda>_. True),
      co_reads = (\<lambda>_ _. 4096), co_map_opens = True\<rparr>"

definition bare_machine :: machine_state where
  "bare_machine =
     \<lparr>ms_pages = 0, ms_mounts = [], ms_pool = None,
      ms_files = (\<lambda>path. if path = kModelQwenSrc \<or> path = kModelMmprojSrc then Some (gguf @ [3, 0, 0, 0]) else None), ms_map = None\<rparr>"

lemma bare_models: "file_bytes kModelQwenSrc bare_machine = gguf @ [3, 0, 0, 0]" "file_bytes kModelMmprojSrc bare_machine = gguf @ [3, 0, 0, 0]"
  by (simp_all add: file_bytes_def bare_machine_def)

lemma pages_size: "unat (MODEL_QWEN_PAGES * PAGE_2M) = 1272971264" "unat (MODEL_MMPROJ_PAGES * PAGE_2M) = 1331691520"
  by (simp_all add: layout_defs)

lemma kind_carve: "\<exists>s'. do_carve kind_os bare_machine = (s', 0)"
proof (rule carve_comes_through)
  show "co_root kind_os" "is_mounted kHugetlbfs bare_machine \<or> co_mount kind_os \<noteq> None" "co_fopens kind_os kModelQwenSrc"
    "co_fopens kind_os kModelMmprojSrc"
    "\<forall>path\<in>{kPoolPath, MODEL_FILE_QWEN, MODEL_FILE_MMPROJ}. co_opens kind_os path \<and> co_truncates kind_os path \<and> co_maps kind_os path"
    by (simp_all add: kind_os_def)
  show "0 < length (file_bytes kModelQwenSrc bare_machine)" "0 < length (file_bytes kModelMmprojSrc bare_machine)"
    by (simp_all add: bare_models)
  show "length (file_bytes kModelQwenSrc bare_machine) \<le> unat (MODEL_QWEN_PAGES * PAGE_2M)"
    "length (file_bytes kModelMmprojSrc bare_machine) \<le> unat (MODEL_MMPROJ_PAGES * PAGE_2M)"
    unfolding pages_size bare_models by (simp_all add: gguf_def)
qed

theorem carve_leaves_live_pool_witness:
  "\<exists>s' p. do_carve kind_os bare_machine = (s', 0) \<and> ms_pool s' = Some (TOTAL_POOL_SIZE, p) \<and> carved p"
proof -
  obtain s' where c: "do_carve kind_os bare_machine = (s', 0)" using kind_carve by blast
  from carve_leaves_live_pool[OF c] c show ?thesis by blast
qed

theorem carve_verifies_witness:
  "\<exists>s'. do_carve kind_os bare_machine = (s', 0) \<and> snd (do_verify kind_os s') = 0"
proof -
  obtain s' where c: "do_carve kind_os bare_machine = (s', 0)" using kind_carve by blast
  have "\<forall>src\<in>{kModelQwenSrc, kModelMmprojSrc}. take 4 (file_bytes src bare_machine) = gguf
      \<and> (\<forall>i<length (file_bytes src bare_machine). co_reads kind_os src i \<noteq> 0)"
    "\<forall>dst\<in>{MODEL_FILE_QWEN, MODEL_FILE_MMPROJ}. co_fopens kind_os dst \<and> 4 \<le> co_reads kind_os dst 0"
    by (simp_all add: bare_models gguf_def kind_os_def)
  from carve_verifies[OF c this] c show ?thesis by blast
qed

text \<open>A source that stops in the middle is placed all the same: the rest of its file is zeros.\<close>

lemma short_read_is_placed:
  assumes "co_reads os kModelQwenSrc = (\<lambda>i. 0)" "co_opens os MODEL_FILE_QWEN" "co_truncates os MODEL_FILE_QWEN" "co_maps os MODEL_FILE_QWEN"
    "co_fopens os kModelQwenSrc"
  shows "\<exists>s'. place_model os MODEL_FILE_QWEN kModelQwenSrc MODEL_QWEN_PAGES bare_machine = (s', True)
     \<and> ms_files s' MODEL_FILE_QWEN = Some (replicate (unat (MODEL_QWEN_PAGES * PAGE_2M)) 0)"
proof -
  have n: "file_size kModelQwenSrc bare_machine = 8" by (simp add: file_size_def bare_machine_def gguf_def)
  have z: "copy_loop (\<lambda>i. 0) src 0 [] = []" for src by (subst copy_loop.simps) (simp add: Let_def)
  define placed where "placed = unat (MODEL_QWEN_PAGES * PAGE_2M)"
  have p: "\<not> placed < 8" unfolding placed_def pages_size by simp
  show ?thesis unfolding place_model_def placed_def[symmetric] n using assms p by (simp add: Let_def z)
qed

end
