(* ===== verification/Core_Floor.thy ===== *)
theory Core_Floor
  imports Core_Turns
begin

text \<open>
  Who has the floor: the flag \<^verbatim>\<open>turn_active_\<close> of \<^verbatim>\<open>src/src/lina_core.cpp\<close> between the caller of
  \<^verbatim>\<open>begin_turn\<close>, the thread of the turn it starts and the thread of the window.  \<^verbatim>\<open>begin_turn\<close> reads
  the flag (line 365) and sets it (403) in two steps, \<^verbatim>\<open>run_voluntary_turn\<close> claims it in one
  (454); each of them speaks until it clears the flag.  One step of the relation is one access to the
  flag, the start or the end of a thread.
\<close>

section \<open>The steps\<close>

datatype caller = Away | Checked | Claimed
datatype speaker = Silent | Speaking

record floor =
  fl_active :: bool
  fl_caller :: caller
  fl_turn :: speaker
  fl_window :: speaker

definition quiet_floor :: floor where
  "quiet_floor = \<lparr>fl_active = False, fl_caller = Away, fl_turn = Silent, fl_window = Silent\<rparr>"

text \<open>
  \<open>Spawned\<close> happens only when the thread of the turn before has ended: \<^verbatim>\<open>begin_turn\<close> joins it (405).
\<close>

inductive floor_step :: "floor \<Rightarrow> floor \<Rightarrow> bool" where
  refused: "fl_caller s = Away \<Longrightarrow> fl_active s \<Longrightarrow> floor_step s s"
| checked: "fl_caller s = Away \<Longrightarrow> \<not> fl_active s \<Longrightarrow> floor_step s (s\<lparr>fl_caller := Checked\<rparr>)"
| claimed: "fl_caller s = Checked \<Longrightarrow> floor_step s (s\<lparr>fl_caller := Claimed, fl_active := True\<rparr>)"
| spawned: "fl_caller s = Claimed \<Longrightarrow> fl_turn s = Silent \<Longrightarrow> floor_step s (s\<lparr>fl_caller := Away, fl_turn := Speaking\<rparr>)"
| turn_over: "fl_turn s = Speaking \<Longrightarrow> floor_step s (s\<lparr>fl_turn := Silent, fl_active := False\<rparr>)"
| took_floor: "fl_window s = Silent \<Longrightarrow> \<not> fl_active s \<Longrightarrow> floor_step s (s\<lparr>fl_window := Speaking, fl_active := True\<rparr>)"
| gave_floor: "fl_window s = Speaking \<Longrightarrow> floor_step s (s\<lparr>fl_window := Silent, fl_active := False\<rparr>)"

inductive_cases floor_stepE: "floor_step s t"

inductive floor_reach :: "floor \<Rightarrow> bool" where
  quiet_start: "floor_reach quiet_floor"
| next_step: "floor_reach s \<Longrightarrow> floor_step s t \<Longrightarrow> floor_reach t"

text \<open>The same steps with the claim of \<^verbatim>\<open>begin_turn\<close> in one access, as the comment at line 450 has it.\<close>

inductive claim_step :: "floor \<Rightarrow> floor \<Rightarrow> bool" where
  claim_begin: "fl_caller s = Away \<Longrightarrow> \<not> fl_active s \<Longrightarrow> claim_step s (s\<lparr>fl_caller := Claimed, fl_active := True\<rparr>)"
| claim_spawn: "fl_caller s = Claimed \<Longrightarrow> fl_turn s = Silent \<Longrightarrow> claim_step s (s\<lparr>fl_caller := Away, fl_turn := Speaking\<rparr>)"
| claim_over: "fl_turn s = Speaking \<Longrightarrow> claim_step s (s\<lparr>fl_turn := Silent, fl_active := False\<rparr>)"
| claim_took: "fl_window s = Silent \<Longrightarrow> \<not> fl_active s \<Longrightarrow> claim_step s (s\<lparr>fl_window := Speaking, fl_active := True\<rparr>)"
| claim_gave: "fl_window s = Speaking \<Longrightarrow> claim_step s (s\<lparr>fl_window := Silent, fl_active := False\<rparr>)"

inductive claim_reach :: "floor \<Rightarrow> bool" where
  claim_start: "claim_reach quiet_floor"
| claim_next: "claim_reach s \<Longrightarrow> claim_step s t \<Longrightarrow> claim_reach t"

definition holders :: "floor \<Rightarrow> nat" where
  "holders s = (if fl_caller s = Claimed then 1 else 0) + (if fl_turn s = Speaking then 1 else 0)
     + (if fl_window s = Speaking then 1 else 0)"

lemma claim_one: "claim_reach s \<Longrightarrow> holders s = (if fl_active s then 1 else 0) \<and> fl_caller s \<noteq> Checked"
proof (induction rule: claim_reach.induct)
  case (claim_next s t)
  from claim_next(2,3) show ?case
    by (cases rule: claim_step.cases) (auto simp: holders_def split: if_splits)
qed (simp add: holders_def quiet_floor_def)

text \<open>
  two voices can have the floor: from the silent floor the steps of the code reach a state in which
  the turn and the voluntary turn both speak, since the caller may have read the flag before the
  window's thread claimed it, and a further one in which the turn speaks while the flag is clear.  With
  a claim in one step, as the voluntary turn makes it, at most one of the caller, the turn and the
  window ever has the floor, and exactly one while the flag is set.
\<close>

theorem two_voices_at_once:
  "(\<exists>s. floor_reach s \<and> fl_turn s = Speaking \<and> fl_window s = Speaking)
   \<and> (\<exists>s. floor_reach s \<and> fl_turn s = Speaking \<and> \<not> fl_active s)
   \<and> (\<forall>s. claim_reach s \<longrightarrow> holders s = (if fl_active s then 1 else 0))"
proof -
  define a where "a = quiet_floor\<lparr>fl_caller := Checked\<rparr>"
  define b where "b = a\<lparr>fl_window := Speaking, fl_active := True\<rparr>"
  define c where "c = b\<lparr>fl_caller := Claimed, fl_active := True\<rparr>"
  define d where "d = c\<lparr>fl_caller := Away, fl_turn := Speaking\<rparr>"
  define e where "e = d\<lparr>fl_window := Silent, fl_active := False\<rparr>"
  have a: "floor_reach a" unfolding a_def by (rule next_step[OF quiet_start checked]) (simp_all add: quiet_floor_def)
  have b: "floor_reach b" unfolding b_def by (rule next_step[OF a took_floor]) (simp_all add: a_def quiet_floor_def)
  have c: "floor_reach c" unfolding c_def by (rule next_step[OF b claimed]) (simp add: b_def a_def)
  have d: "floor_reach d" unfolding d_def by (rule next_step[OF c spawned]) (simp_all add: c_def b_def a_def quiet_floor_def)
  have e: "floor_reach e" unfolding e_def by (rule next_step[OF d gave_floor]) (simp add: d_def c_def b_def)
  have "fl_turn d = Speaking \<and> fl_window d = Speaking" by (simp add: d_def c_def b_def)
  moreover have "fl_turn e = Speaking \<and> \<not> fl_active e" by (simp add: e_def d_def)
  ultimately show ?thesis using d e claim_one by blast
qed

theorem two_voices_at_once_witness:
  "\<exists>s. claim_reach s \<and> fl_window s = Speaking \<and> holders s = 1"
proof -
  let ?s = "quiet_floor\<lparr>fl_window := Speaking, fl_active := True\<rparr>"
  have r: "claim_reach ?s" by (rule claim_next[OF claim_start claim_took]) (simp_all add: quiet_floor_def)
  then have "holders ?s = (if fl_active ?s then 1 else 0)" using two_voices_at_once by blast
  with r show ?thesis by (intro exI[of _ ?s]) simp
qed

end
