(* ===== verification/Core_Modes.thy ===== *)
theory Core_Modes
  imports Core_Life Llama_Voice
begin

text \<open>
  The program around the core: the options of \<^verbatim>\<open>src/src/main.cpp\<close>, the seam of \<^verbatim>\<open>src/src/model_driver.cpp\<close>,
  the headless mode (\<^verbatim>\<open>run_headless\<close>) and the end of a core (its destructor) in
  \<^verbatim>\<open>src/src/lina_core.cpp\<close>.  What \<^verbatim>\<open>getopt_long\<close> makes of the arguments is an argument; the standard input
  is its bytes.
\<close>

section \<open>Options\<close>

record launch_config =
  lc_db_connection :: string
  lc_model_type :: string
  lc_model_path :: string
  lc_api_endpoint :: string
  lc_api_key :: string
  lc_headless :: bool
  lc_max_tokens :: int
  lc_temperature :: string
  lc_season :: string
  lc_dragoncache_pool :: string
  lc_mmproj_path :: string

definition default_config :: launch_config where
  "default_config =
     \<lparr>lc_db_connection = ''postgresql://localhost/lina'', lc_model_type = ''llama'', lc_model_path = ''./models/llama.gguf'',
      lc_api_endpoint = [], lc_api_key = [], lc_headless = False, lc_max_tokens = 2048, lc_temperature = ''0.7'',
      lc_season = ''spring'', lc_dragoncache_pool = [], lc_mmproj_path = []\<rparr>"

text \<open>
  One option with its value; \<open>is_float\<close> says which texts \<^verbatim>\<open>stof\<close> reads, and the temperature is kept as
  its text.  A text that is not a number throws, outside every \<^verbatim>\<open>try\<close>.
\<close>

datatype option_result = Goes_on launch_config | Shows_help | Throws_up

definition set_option_value :: "(string \<Rightarrow> bool) \<Rightarrow> string \<Rightarrow> string \<Rightarrow> launch_config \<Rightarrow> option_result" where
  "set_option_value is_float name optarg config =
     (if name = ''db'' then Goes_on (config\<lparr>lc_db_connection := optarg\<rparr>)
      else if name = ''model'' then Goes_on (config\<lparr>lc_model_type := optarg\<rparr>)
      else if name = ''model-path'' then Goes_on (config\<lparr>lc_model_path := optarg\<rparr>)
      else if name = ''api-endpoint'' then Goes_on (config\<lparr>lc_api_endpoint := optarg\<rparr>)
      else if name = ''api-key'' then Goes_on (config\<lparr>lc_api_key := optarg\<rparr>)
      else if name = ''headless'' then Goes_on (config\<lparr>lc_headless := True\<rparr>)
      else if name = ''max-tokens'' then (case stoi optarg of None \<Rightarrow> Throws_up | Some n \<Rightarrow> Goes_on (config\<lparr>lc_max_tokens := n\<rparr>))
      else if name = ''temperature'' then (if is_float optarg then Goes_on (config\<lparr>lc_temperature := optarg\<rparr>) else Throws_up)
      else if name = ''season'' then Goes_on (config\<lparr>lc_season := optarg\<rparr>)
      else if name = ''dragoncache-pool'' then Goes_on (config\<lparr>lc_dragoncache_pool := optarg\<rparr>)
      else if name = ''mmproj'' then Goes_on (config\<lparr>lc_mmproj_path := optarg\<rparr>)
      else if name = ''help'' then Shows_help
      else Goes_on config)"

text \<open>The options in their order; \<open>None\<close> is one that \<^verbatim>\<open>getopt_long\<close> does not know.\<close>

fun read_options :: "(string \<Rightarrow> bool) \<Rightarrow> (string \<times> string) option list \<Rightarrow> launch_config \<Rightarrow> option_result" where
  "read_options is_float [] config = Goes_on config"
| "read_options is_float (None # opts) config = read_options is_float opts config"
| "read_options is_float (Some (name, optarg) # opts) config =
     (case set_option_value is_float name optarg config of
        Goes_on config' \<Rightarrow> read_options is_float opts config'
      | r \<Rightarrow> r)"

section \<open>The seam\<close>

text \<open>The adapter that is made, with the libraries in the state \<open>l\<close>; \<open>enabled\<close> is the build option.\<close>

definition make_driver ::
  "bool \<Rightarrow> load_answers \<Rightarrow> 'l \<Rightarrow> string \<Rightarrow> string \<Rightarrow> (adapter \<times> nat \<times> 'l) option" where
  "make_driver enabled la l model_type mmproj_path =
     (if enabled \<and> model_type = ''llama'' then Some (llama_adapter la mmproj_path, 0, l) else None)"

section \<open>The standard input\<close>

record stdin_state =
  si_text :: string
  si_good :: bool

text \<open>
  \<^verbatim>\<open>getline\<close>: on a stream that has failed the line stays what it was; the text after the last line break
  is a line, and takes the stream to its end.
\<close>

definition getline :: "stdin_state \<Rightarrow> string \<Rightarrow> stdin_state \<times> string" where
  "getline s line =
     (if \<not> si_good s then (s, line)
      else let text = takeWhile (\<lambda>c. c \<noteq> CHR 0x0A) (si_text s) in
        if CHR 0x0A \<in> set (si_text s) then (s\<lparr>si_text := drop (length text + 1) (si_text s)\<rparr>, text)
        else (\<lparr>si_text = [], si_good = False\<rparr>, text))"

section \<open>The headless mode\<close>

text \<open>The loop, for what a message makes the core do; the value is the core, what was printed, and whether it ended by an exception.\<close>

partial_function (option) headless_loop ::
  "(string \<Rightarrow> 'c \<Rightarrow> 'c \<times> string outcome) \<Rightarrow> stdin_state \<Rightarrow> string \<Rightarrow> string \<Rightarrow> 'c \<Rightarrow> ('c \<times> string \<times> unit outcome) option" where
  "headless_loop talk s line out c =
     (let out1 = out @ [CHR 0x0A] @ ''> ''; (s', input) = getline s line in
      if input = ''exit'' \<or> input = ''quit'' then Some (c, out1, Done ())
      else if input = [] then headless_loop talk s' input out1 c
      else case talk input c of
             (c', Threw) \<Rightarrow> Some (c', out1, Threw)
           | (c', Done r) \<Rightarrow>
               headless_loop talk s' input (out1 @ (if r \<noteq> [] then [CHR 0x0A] @ ''LINA: '' @ r @ [CHR 0x0A] else [])) c')"

definition headless_intro :: string where
  "headless_intro = ''LINA Core running in headless mode.'' @ [CHR 0x0A] @ ''Type 'exit' to quit.'' @ [CHR 0x0A]"

text \<open>A core with the number of the messages so far, for their instants.\<close>

definition talk_to :: "('s, 'm, 'w) env \<Rightarrow> (nat \<Rightarrow> instant) \<Rightarrow> string \<Rightarrow> ('s, 'm, 'w) core \<times> nat \<Rightarrow> (('s, 'm, 'w) core \<times> nat) \<times> string outcome" where
  "talk_to E moments input cn = (let (c, n) = cn; (c', r) = chat E (moments n) input [] c in ((c', n + 1), r))"

definition run_headless ::
  "('s, 'm, 'w) env \<Rightarrow> instant \<Rightarrow> (nat \<Rightarrow> instant) \<Rightarrow> instant \<Rightarrow> string \<Rightarrow> ('s, 'm, 'w) core
     \<Rightarrow> (('s, 'm, 'w) core \<times> string \<times> unit outcome) option" where
  "run_headless E begins moments ends stdin_text c =
     (case begin_session E begins c of
        (c1, Threw) \<Rightarrow> Some (c1, headless_intro, Threw)
      | (c1, Done _) \<Rightarrow>
          (case headless_loop (talk_to E moments) \<lparr>si_text = stdin_text, si_good = True\<rparr> [] headless_intro (c1, 0) of
             None \<Rightarrow> None
           | Some ((c2, n), out, Threw) \<Rightarrow> Some (c2, out, Threw)
           | Some ((c2, n), out, Done _) \<Rightarrow>
               (case end_session E ends c2 of
                  (c3, Threw) \<Rightarrow> Some (c3, out, Threw)
                | (c3, Done summary) \<Rightarrow> Some (c3, out @ [CHR 0x0A] @ summary @ [CHR 0x0A], Done ()))))"

section \<open>The end of a core\<close>

definition destroy_core :: "('s, 'm, 'w) core \<Rightarrow> ('s, 'm, 'w) core" where
  "destroy_core c =
     (let c1 = c\<lparr>c_ready := False\<rparr>; h = c_hub c1;
          c2 = c1\<lparr>c_pool := set_status h STATUS_OFFLINE (spoke_offline h SPOKE_ALL (c_pool c1)), c_hub := detach h\<rparr>
      in stop_turn c2)"

section \<open>The program\<close>

text \<open>
  What \<^verbatim>\<open>main\<close> gives: an exit code with the database and what was printed, or the end by an exception
  that no one catches; it has no value when it does not come back.  The window is the other mode.
\<close>

datatype 's program_end = Exit 's int string | Terminated

definition run_program ::
  "(launch_config \<Rightarrow> ('s, adapter \<times> nat \<times> 'l, 'w) env) \<Rightarrow> (string \<Rightarrow> bool) \<Rightarrow> string \<Rightarrow> (string \<times> string) option list
     \<Rightarrow> instant \<Rightarrow> instant \<Rightarrow> (nat \<Rightarrow> instant) \<Rightarrow> instant \<Rightarrow> os_answers option \<Rightarrow> pool \<Rightarrow> 'w \<Rightarrow> bool \<Rightarrow> load_answers \<Rightarrow> 'l
     \<Rightarrow> string \<Rightarrow> (('s, adapter \<times> nat \<times> 'l, 'w) core \<Rightarrow> 's) \<Rightarrow> 's \<Rightarrow> 's program_end option" where
  "run_program env_of is_float usage opts starts begins moments ends answers p w enabled la l stdin_text window d =
     (case read_options is_float opts default_config of
        Throws_up \<Rightarrow> Some Terminated
      | Shows_help \<Rightarrow> Some (Exit d 0 usage)
      | Goes_on config \<Rightarrow>
          let E = env_of config in
          (case initialize E starts (if lc_dragoncache_pool config = [] then None else answers) p w d of
             (d', Threw) \<Rightarrow> Some (Exit d' 1 [])
           | (d', Done c) \<Rightarrow>
               let c1 = attach_model E (make_driver enabled la l (lc_model_type config) (lc_mmproj_path config)) c in
               (case get_status E c1 of
                  (c2, Threw) \<Rightarrow> Some (Exit (c_disk c2) 1 [])
                | (c2, Done status) \<Rightarrow>
                    if lc_headless config then
                      (case run_headless E begins moments ends stdin_text c2 of
                         None \<Rightarrow> None
                       | Some (c3, out, Threw) \<Rightarrow> Some (Exit (c_disk c3) 1 (status @ [CHR 0x0A] @ out))
                       | Some (c3, out, Done _) \<Rightarrow> Some (Exit (c_disk c3) 0 (status @ [CHR 0x0A] @ out)))
                    else Some (Exit (window c2) 0 (status @ [CHR 0x0A])))))"

section \<open>When the headless mode ends\<close>

text \<open>The lines of the input, the last of them without a line break.\<close>

fun input_lines :: "string \<Rightarrow> string list" where
  "input_lines [] = [[]]"
| "input_lines (x # xs) = (if x = CHR 0x0A then [] # input_lines xs else (x # hd (input_lines xs)) # tl (input_lines xs))"

text \<open>Whether the lines, one after the other, come to an exit or to an exception.\<close>

fun comes_to_end :: "(string \<Rightarrow> 'c \<Rightarrow> 'c \<times> string outcome) \<Rightarrow> string list \<Rightarrow> 'c \<Rightarrow> bool" where
  "comes_to_end talk [] c = False"
| "comes_to_end talk (line # ls) c =
     (line = ''exit'' \<or> line = ''quit''
      \<or> (if line = [] then comes_to_end talk ls c
         else case talk line c of (c', Threw) \<Rightarrow> True | (c', Done r) \<Rightarrow> comes_to_end talk ls c'))"

lemma input_lines_break:
  "CHR 0x0A \<in> set t \<Longrightarrow>
     input_lines t = takeWhile (\<lambda>c. c \<noteq> CHR 0x0A) t # input_lines (drop (length (takeWhile (\<lambda>c. c \<noteq> CHR 0x0A) t) + 1) t)"
  by (induction t) auto

lemma input_lines_last: "CHR 0x0A \<notin> set t \<Longrightarrow> input_lines t = [t]"
  by (induction t) auto

lemma input_lines_nonempty [simp]: "input_lines t \<noteq> []"
  by (induction t) auto

lemma getline_break:
  assumes "CHR 0x0A \<in> set t"
  obtains line rest where "getline \<lparr>si_text = t, si_good = True\<rparr> old = (\<lparr>si_text = rest, si_good = True\<rparr>, line)"
    "input_lines t = line # input_lines rest" "length rest < length t"
proof -
  let ?line = "takeWhile (\<lambda>c. c \<noteq> CHR 0x0A) t"
  have "t \<noteq> []" using assms by auto
  then have "length (drop (length ?line + 1) t) < length t" by simp
  then show thesis using that[of "drop (length ?line + 1) t" ?line] assms input_lines_break[OF assms] by (simp add: getline_def Let_def)
qed

lemma getline_last: "CHR 0x0A \<notin> set t \<Longrightarrow> getline \<lparr>si_text = t, si_good = True\<rparr> old = (\<lparr>si_text = [], si_good = False\<rparr>, t)"
  by (simp add: getline_def) (metis takeWhile_eq_all_conv)

lemma loop_ends:
  "comes_to_end talk (input_lines t) c \<Longrightarrow> headless_loop talk \<lparr>si_text = t, si_good = True\<rparr> line out c \<noteq> None"
proof (induction "length t" arbitrary: t line out c rule: less_induct)
  case less
  show ?case
  proof (cases "CHR 0x0A \<in> set t")
    case True
    then obtain l rest where g: "getline \<lparr>si_text = t, si_good = True\<rparr> line = (\<lparr>si_text = rest, si_good = True\<rparr>, l)"
      "input_lines t = l # input_lines rest" "length rest < length t" by (rule getline_break)
    note ih = less(1)[OF g(3)]
    show ?thesis using less(2) ih g(1,2)
      by (subst headless_loop.simps) (auto simp: Let_def split: prod.splits outcome.splits if_splits simp del: not_None_eq)
  next
    case False
    then show ?thesis using less(2) getline_last[OF False, of line] input_lines_last[OF False]
      by (subst headless_loop.simps) (auto simp: Let_def split: prod.splits outcome.splits if_splits simp del: not_None_eq)
  qed
qed

text \<open>At the end of the input the line stays what it was, and is answered again and again.\<close>

lemma loop_stuck:
  assumes "headless_loop talk s line out c = Some r"
  shows "\<not> si_good s \<Longrightarrow> line \<noteq> ''exit'' \<Longrightarrow> line \<noteq> ''quit'' \<Longrightarrow> line = [] \<or> (\<forall>c. \<exists>c' a. talk line c = (c', Done a)) \<Longrightarrow> False"
proof (induction rule: headless_loop.raw_induct[OF _ assms])
  case (1 loop talk s line out c r)
  have g: "getline s line = (s, line)" using 1(3) by (simp add: getline_def)
  show ?case
  proof (cases "line = []")
    case True
    then show ?thesis using 1(1)[of talk s line "out @ [CHR 0x0A] @ ''> ''" c r] 1(2-6) g by (simp add: Let_def)
  next
    case False
    then obtain c' a where a: "talk line c = (c', Done a)" using 1(6) by blast
    show ?thesis using 1(1)[of talk s line _ c' r] 1(2-6) g False a by (simp add: Let_def)
  qed
qed

lemma loop_never_ends:
  "\<not> comes_to_end talk (input_lines t) c \<Longrightarrow>
     last (input_lines t) = [] \<or> (\<forall>c. \<exists>c' a. talk (last (input_lines t)) c = (c', Done a)) \<Longrightarrow>
     headless_loop talk \<lparr>si_text = t, si_good = True\<rparr> line out c = None"
proof (induction "length t" arbitrary: t line out c rule: less_induct)
  case less
  show ?case
  proof (cases "CHR 0x0A \<in> set t")
    case True
    then obtain l rest where g: "getline \<lparr>si_text = t, si_good = True\<rparr> line = (\<lparr>si_text = rest, si_good = True\<rparr>, l)"
      "input_lines t = l # input_lines rest" "length rest < length t" by (rule getline_break)
    have "last (input_lines t) = last (input_lines rest)" using g(2) by simp
    with less(1)[OF g(3)] less(3) have ih: "\<And>c line out. \<not> comes_to_end talk (input_lines rest) c \<Longrightarrow>
        headless_loop talk \<lparr>si_text = rest, si_good = True\<rparr> line out c = None" by simp
    show ?thesis using less(2) ih g(1,2)
      by (subst headless_loop.simps) (auto simp: Let_def split: prod.splits outcome.splits if_splits)
  next
    case False
    have stuck: "headless_loop talk \<lparr>si_text = [], si_good = False\<rparr> t out c = None" for out c
    proof (rule ccontr)
      assume "headless_loop talk \<lparr>si_text = [], si_good = False\<rparr> t out c \<noteq> None"
      then obtain r where "headless_loop talk \<lparr>si_text = [], si_good = False\<rparr> t out c = Some r" by blast
      from loop_stuck[OF this] show False using less(2,3) input_lines_last[OF False] by auto
    qed
    show ?thesis using less(2) stuck getline_last[OF False, of line] input_lines_last[OF False]
      by (subst headless_loop.simps) (auto simp: Let_def split: prod.splits outcome.splits if_splits)
  qed
qed

text \<open>
  C21: the headless mode ends at an exit only: when the last line of the input is empty, or can always
  be answered, the mode comes back exactly when one of the lines is exit or quit, or an answer before
  it throws.  The end of the input does not end it: it then waits for lines for ever, and a last line
  without a line break is answered over and over.
\<close>

theorem headless_ends_at_exit:
  assumes "last (input_lines t) = [] \<or> (\<forall>c. \<exists>c' a. talk (last (input_lines t)) c = (c', Done a))"
  shows "headless_loop talk \<lparr>si_text = t, si_good = True\<rparr> line out c \<noteq> None \<longleftrightarrow> comes_to_end talk (input_lines t) c"
  using loop_ends[of talk t c line out] loop_never_ends[of talk t c line out] assms by metis

theorem headless_ends_at_exit_witness:
  "headless_loop (\<lambda>m n. (n + 1 :: nat, Done m)) \<lparr>si_text = ''hello'', si_good = True\<rparr> [] [] 0 = None"
  using headless_ends_at_exit[of "''hello''" "\<lambda>m n. (n + 1 :: nat, Done m)" "[]" "[]" 0] by (simp del: not_None_eq)

section \<open>A core that ends signs off\<close>

lemma spokes_off: "bit (w AND NOT SPOKE_ALL) i \<Longrightarrow> i < 8 \<Longrightarrow> False" for w :: u32
  unfolding SPOKE_ALL_def by (auto simp: bit_and_iff bit_not_iff bit_numeral_iff numeral_eq_Suc less_Suc_eq)

text \<open>
  a core that ends signs off: when its spoke is attached, the pool then says offline, none of its
  eight spokes is ready, the clock has ticked twice, and the hub holds no mapping.
\<close>

theorem core_signs_off:
  assumes "attached (c_hub c)" "hub_ok (c_hub c)"
  shows "let p = c_pool (destroy_core c) in
    system_status (hdr p) = STATUS_OFFLINE \<and> (\<forall>i<8. \<not> bit (spoke_health (hdr p)) i)
    \<and> global_clock (hdr p) = global_clock (hdr (c_pool c)) + 2 \<and> c_hub (destroy_core c) = new_hub \<and> \<not> c_ready (destroy_core c)"
proof -
  obtain b where b: "base (c_hub c) = Some b" using assms(1) by (auto simp: attached_def)
  have d: "detach (c_hub c) = new_hub" by (rule detach_new_hub[OF assms(2)])
  show ?thesis using b d spokes_off
    by (auto simp: destroy_core_def Let_def stop_turn_def emit_telemetry_def persist_telemetry_def set_status_def attached_def spoke_offline_def
        dragonmap_spoke_offline_def tick_def new_hub_def)
qed

theorem core_signs_off_witness:
  "system_status (hdr (c_pool (destroy_core (quiet_core\<lparr>c_hub := \<lparr>fd = 3, base = Some 4096, tx = Some (4096 + ADDR_TX_RING),
      rx = Some (4096 + ADDR_RX_RING)\<rparr>\<rparr>)))) = STATUS_OFFLINE"
proof -
  let ?c = "quiet_core\<lparr>c_hub := \<lparr>fd = 3, base = Some 4096, tx = Some (4096 + ADDR_TX_RING), rx = Some (4096 + ADDR_RX_RING)\<rparr>\<rparr>"
  have "attached (c_hub ?c)" "hub_ok (c_hub ?c)" by (simp_all add: attached_def hub_ok_def)
  from core_signs_off[OF this] show ?thesis by (simp only: Let_def)
qed

end
