(* ===== verification/Spec2Isabelle.thy ===== *)
theory Spec2Isabelle
  imports Prelude Doubles Stream_Parser Dragon_Ring Dragon_Hub Value_Types Polytope
    Polytope_Project Polytope_Total Polytope_Inside Sense_Encoder Wisdom_Filter
    Region_Poles Number_Text Geometric_State Encoder_Feedback Value_Engine Season_Growth
    Clock_Text Memory_Rules Memory_Store Memory_Module Postgres_Memory
    Storage_Backend Postgres_Records Tool_Engine
    Browser_Codec Browser_Socket Browser_Driver Browser_Tools Ui_Text Ui_Approval Ui_Window Ui_Turns Ui_Monitor
    Llama_Voice Pool_Carve
    Core_Text Core_State Core_Gate Core_Turns Core_Life Core_Floor Core_Modes
begin

text \<open>
  A verification library of the LINA core, a C++20 program (\<^verbatim>\<open>src/\<close> here is the repository).

  \<^bold>\<open>The program.\<close>  A language model, the voice, is attached from outside and is not trusted.  What it
  says is cut into answer, thoughts and tool calls (\<^verbatim>\<open>stream_parser\<close>), judged by the value engine
  (\<^verbatim>\<open>value_engine\<close>: a text becomes a point of the 14-dimensional unit cube, a lattice of exact rational
  half-spaces says whether the point is inside, and by how much), and delivered or withheld by the
  core (\<^verbatim>\<open>lina_core\<close>).  The core keeps a history, runs tools that a human approves (\<^verbatim>\<open>tool_engine\<close>),
  remembers through the memory module (\<^verbatim>\<open>memory_module\<close>) on a PostgreSQL database
  (\<^verbatim>\<open>postgres_backend\<close>), moves from season to season as its ledger allows, and talks to other
  processes over two rings in shared memory (\<^verbatim>\<open>dragon_ring\<close>, \<^verbatim>\<open>dragoncache\<close>).

  \<^bold>\<open>How the code is modelled.\<close>  A class is a record, an operation a function from the state and the
  arguments to the new state and the result.  Fixed-width integers are words where they wrap, double
  is the type \<open>dbl\<close> of theory \<open>Doubles\<close> (a rational, two infinities, NaN) with every operation rounded
  to 53 bits, \<^verbatim>\<open>mpq_class\<close> is the type of rational numbers, a \<^verbatim>\<open>std::string\<close> is the list of its
  bytes.  A stop of the program (the conversion of a non-finite number to a rational) is \<open>None\<close>; an
  exception is the outcome \<open>Threw\<close> of an action, a call that never comes back is \<open>None\<close>.  What is not
  code of the repository is an argument: \<open>gd\<close> for \<^verbatim>\<open>mpq_class::get_d\<close>, \<open>std::exp\<close> and \<open>std::log\<close>, the
  clocks and the random ids (\<open>instant\<close>), the file system and the started process (\<open>machine\<close>), the
  answers of \<^verbatim>\<open>stat\<close>, \<^verbatim>\<open>open\<close> and \<^verbatim>\<open>mmap\<close> (\<open>os_answers\<close>), what a column of the database makes of the text
  of a parameter (\<open>columns\<close>, \<open>ledger_columns\<close>), the voice, the human who approves, the tools of the
  browser.  The few laws assumed of them are the locales below.

  \<^bold>\<open>Theories and code.\<close>
  \<^item> \<open>Prelude\<close>, \<open>Doubles\<close>, \<open>Number_Text\<close>: shared lemmas on lists, words and bytes; binary64 numbers with
    their rounding; the decimal texts of numbers.
  \<^item> \<open>Stream_Parser\<close>: \<^verbatim>\<open>src/stream_parser.cpp\<close>.  The classification does not depend on how the stream is
    cut, and no answer holds a complete thought.
  \<^item> \<open>Dragon_Ring\<close>, \<open>Dragon_Hub\<close>: \<^verbatim>\<open>include/dragon_ring.h\<close>, \<^verbatim>\<open>dragon_map.h\<close>, \<^verbatim>\<open>dragoncache.cpp\<close>.  The ring
    refines a bounded FIFO queue of frames; the hub owns its whole mapping or nothing; the shared clock
    counts the transitions modulo \<open>2 ^ 64\<close>.
  \<^item> \<open>Value_Types\<close>, \<open>Sense_Encoder\<close>, \<open>Polytope\<close>, \<open>Polytope_Project\<close>, \<open>Polytope_Total\<close>,
    \<open>Polytope_Inside\<close>, \<open>Wisdom_Filter\<close>, \<open>Region_Poles\<close>, \<open>Geometric_State\<close>, \<open>Encoder_Feedback\<close>,
    \<open>Value_Engine\<close>, \<open>Season_Growth\<close>: \<^verbatim>\<open>src/value_engine.cpp\<close> in its order.  Containment is exactly the
    inequalities of the season; the encoding stays in the cube; the projection of every point of the
    cube returns a point that passes the exact test; an evaluation of any text returns; the engine
    stays able to evaluate through any sequence of operations, except after a NaN correction.
  \<^item> \<open>Clock_Text\<close>, \<open>Memory_Rules\<close>, \<open>Memory_Store\<close>, \<open>Memory_Module\<close>: \<^verbatim>\<open>src/memory_module.cpp\<close>: time stamps and
    their round trip, formation, sweep, recall, maintenance, the slope and the yearly review, over a
    store whose operations may throw.
  \<^item> \<open>Postgres_Memory\<close>, \<open>Storage_Backend\<close>, \<open>Postgres_Records\<close>: \<^verbatim>\<open>include/storage_backend.hpp\<close> and
    \<^verbatim>\<open>src/postgres_backend.cpp\<close>: the tables as lists of rows of texts, every operation as what its
    statement does to them, rows read back column by column.
  \<^item> \<open>Tool_Engine\<close>: \<^verbatim>\<open>src/tool_engine.cpp\<close>: the reader of flat JSON, the running of a command, the five
    tools, the one gate.
  \<^item> \<open>Core_Text\<close>, \<open>Core_State\<close>, \<open>Core_Gate\<close>, \<open>Core_Turns\<close>: \<^verbatim>\<open>src/lina_core.cpp\<close>: text helpers, the state
    with its telemetry, tool calls and frames, the gate with its reflection and drift, turns, sessions,
    seasons and start.  \<open>Core_Life\<close> proves an invariant of the whole core over its life, and
    \<open>Core_Floor\<close> models who may speak, one access to the flag \<^verbatim>\<open>turn_active_\<close> at a time.

  \<^bold>\<open>Interfaces.\<close>  \<open>gmp_get_d\<close> (truncation of a rational to a double, interpreted by \<open>trunc_d\<close>), \<open>libm\<close>
  (sign and order of exp and log, interpreted by two rational approximations), \<open>bounded_queue\<close> (interpreted by the
  ring), \<open>tier_store\<close> (what the sweep relies on, a sublocale of \<open>pg_columns\<close>), \<open>pg_columns\<close> and
  \<open>pg_ledger\<close> (what the columns of the schema do to the texts they are given, interpreted by columns
  that keep every text), \<open>evaluation_ledger\<close> (what gate and drift rely on, a sublocale of
  \<open>pg_ledger\<close>), \<open>live_core\<close> (a core on that database whose voice gives texts the columns take).

  \<^bold>\<open>Bounds and fuel.\<close>  The loops of the projection have the bounds of the code: 2000 rounds of
  Dykstra's method, 200 nudging passes, 40 halvings towards the center (\<open>dykstra\<close>,
  \<open>verify_and_nudge\<close>, \<open>last_resort\<close>); \<open>project_total_inside\<close> proves that they are enough for the four
  seasons.  A turn has at most 8 tool calls, a draft at most 3 reflections, the telemetry queue 5000 lines,
  all as in the code.  Fuel of the model's own: \<open>strip_markers\<close> has one unit per byte of the text and
  uses at least one byte per step; \<open>ilog10\<close> has 700 steps, more than the decimal exponents of a
  double.  The wait for a command is \<open>partial_function\<close>: \<open>command_hangs\<close> says exactly when it returns.

  \<^bold>\<open>Not modelled.\<close>  The chat page (\<^verbatim>\<open>lina_ui.cpp\<close>), the adapter of llama.cpp (\<^verbatim>\<open>llama_adapter.cpp\<close>), the
  driver of the browser (\<^verbatim>\<open>browser_driver.cpp\<close>), the carve script and the \<^verbatim>\<open>main\<close> functions: sockets,
  devices and calls into libraries that are not in the repository.  Of the PostgreSQL backend, the
  connection, its pool and the search by vector distance, which the server does.  Of the core, the start
  and the joining of its threads; operations of different threads are not interleaved except for
  the flag in \<open>Core_Floor\<close> and the two ends of the ring.
\<close>

end
